(* ===== verification/Prelude.thy ===== *)
theory Prelude
  imports Main "HOL-Library.AList"
begin

text \<open>
  What the components of the development share: the collections of rewrite and
  introduction rules the component proofs use, the helpers that stand for the
  parts of the JavaScript standard library the sources call (string prefixes,
  \<open>String(n)\<close>, \<open>slice\<close>, \<open>Map.set\<close> on an insertion-ordered map), and generic
  lemmas about them.

  A JavaScript \<open>Map\<close> iterates in insertion order, and \<open>set\<close> on a present key
  keeps its position; \<open>AList.update\<close> on an association list does exactly that
  and \<open>AList.delete\<close> is \<open>Map.delete\<close>. Strings are lists of characters; every
  string the modelled code compares or slices is ASCII.
\<close>

named_theorems session_simps \<open>unfolding rules of the session data model\<close>
named_theorems store_simps \<open>what a store operation does to a lookup\<close>
named_theorems prog_simps \<open>evaluation of effect programs\<close>
named_theorems good_intros \<open>which calls the programs of the manager can make\<close>

section \<open>Strings\<close>

definition starts_with :: "string \<Rightarrow> string \<Rightarrow> bool" where
  "starts_with p s \<longleftrightarrow> take (length p) s = p"

lemma starts_with_append [simp]: "starts_with p (p @ s)"
  by (simp add: starts_with_def)

lemma starts_with_length: "starts_with p s \<Longrightarrow> length p \<le> length s"
  unfolding starts_with_def by (metis length_take min.cobounded1)

lemma starts_withE:
  assumes "starts_with p s"
  obtains t where "s = p @ t"
  using assms unfolding starts_with_def by (metis append_take_drop_id)

definition is_hex :: "char \<Rightarrow> bool" where
  "is_hex c \<longleftrightarrow> c \<in> set ''0123456789abcdef''"

definition is_lower_alnum :: "char \<Rightarrow> bool" where
  "is_lower_alnum c \<longleftrightarrow> c \<in> set ''abcdefghijklmnopqrstuvwxyz0123456789''"

lemma is_hex_lower_alnum: "is_hex c \<Longrightarrow> is_lower_alnum c"
  by (auto simp: is_hex_def is_lower_alnum_def)

text \<open>A regular expression of the form \<open>^prefix[0-9a-f]{lo,hi}$\<close>.\<close>

definition prefix_hex :: "string \<Rightarrow> nat \<Rightarrow> nat \<Rightarrow> string \<Rightarrow> bool" where
  "prefix_hex p lo hi s \<longleftrightarrow>
     starts_with p s \<and>
     (let t = drop (length p) s in lo \<le> length t \<and> length t \<le> hi \<and> list_all is_hex t)"

lemma prefix_hex_append:
  "prefix_hex p lo hi (p @ t) \<longleftrightarrow> lo \<le> length t \<and> length t \<le> hi \<and> list_all is_hex t"
  by (simp add: prefix_hex_def)

lemma prefix_hexE:
  assumes "prefix_hex p lo hi s"
  obtains t where "s = p @ t" "lo \<le> length t" "length t \<le> hi" "list_all is_hex t"
proof -
  from assms obtain t where "s = p @ t"
    by (auto simp: prefix_hex_def elim: starts_withE)
  with assms that show thesis by (simp add: prefix_hex_append)
qed

text \<open>\<open>String(n)\<close> for an integer.\<close>

fun show_nat :: "nat \<Rightarrow> string" where
  "show_nat n = (if n < 10 then [char_of (48 + n)]
                 else show_nat (n div 10) @ [char_of (48 + n mod 10)])"

declare show_nat.simps [simp del]

lemma show_nat_digit: "n < 10 \<Longrightarrow> show_nat n = [char_of (48 + n)]"
  by (simp add: show_nat.simps)

definition show_int :: "int \<Rightarrow> string" where
  "show_int i = (if i < 0 then ''-'' @ show_nat (nat (- i)) else show_nat (nat i))"

section \<open>Insertion-ordered maps\<close>

lemma map_of_update [simp]: "map_of (AList.update k v al) = (map_of al)(k \<mapsto> v)"
  by (rule update_conv')

lemma keys_update_present:
  "k \<in> fst ` set al \<Longrightarrow> map fst (AList.update k v al) = map fst al"
  by (induction al) auto

lemma keys_update_absent:
  "k \<notin> fst ` set al \<Longrightarrow> AList.update k v al = al @ [(k, v)]"
  by (induction al) auto

lemma map_of_None_keys: "map_of al k = None \<longleftrightarrow> k \<notin> fst ` set al"
  by (simp add: map_of_eq_None_iff)

lemma distinct_keys_update: "distinct (map fst al) \<Longrightarrow> distinct (map fst (AList.update k v al))"
  by (rule distinct_update)

lemma distinct_keys_delete: "distinct (map fst al) \<Longrightarrow> distinct (map fst (AList.delete k al))"
  by (rule distinct_delete)

lemma map_of_delete [simp]: "map_of (AList.delete k al) = (map_of al)(k := None)"
  by (rule delete_conv')

text \<open>
  Counting the values of an insertion-ordered map that satisfy a predicate, and
  how \<open>set\<close> and \<open>delete\<close> change the count.
\<close>

definition count_vals :: "('v \<Rightarrow> bool) \<Rightarrow> ('k \<times> 'v) list \<Rightarrow> nat" where
  "count_vals P al = length (filter (P \<circ> snd) al)"

lemma count_vals_Nil [simp]: "count_vals P [] = 0"
  by (simp add: count_vals_def)

lemma count_vals_Cons [simp]:
  "count_vals P ((k, v) # al) = (if P v then Suc (count_vals P al) else count_vals P al)"
  by (simp add: count_vals_def)

lemma count_vals_append [simp]: "count_vals P (al @ bl) = count_vals P al + count_vals P bl"
  by (simp add: count_vals_def)

lemma count_vals_update_absent:
  "map_of al k = None \<Longrightarrow>
   count_vals P (AList.update k v al) = count_vals P al + (if P v then 1 else 0)"
  by (simp add: map_of_None_keys keys_update_absent)

lemma count_vals_update_present:
  assumes "distinct (map fst al)" and "map_of al k = Some u"
  shows "count_vals P (AList.update k v al) + (if P u then 1 else 0)
       = count_vals P al + (if P v then 1 else 0)"
  using assms
proof (induction al)
  case Nil
  then show ?case by simp
next
  case (Cons p al)
  obtain k' v' where p: "p = (k', v')" by (cases p)
  show ?case
  proof (cases "k' = k")
    case True
    with Cons.prems p show ?thesis by simp
  next
    case False
    with Cons.prems p have "map_of al k = Some u" "distinct (map fst al)" by auto
    from Cons.IH [OF this(2,1)] False p show ?thesis by auto
  qed
qed

lemma count_vals_delete_le: "count_vals P (AList.delete k al) \<le> count_vals P al"
  by (induction al) auto

section \<open>Results\<close>

text \<open>Sequencing of computations that may fail with an error.\<close>

definition and_then :: "'e + 'a \<Rightarrow> ('a \<Rightarrow> 'e + 'b) \<Rightarrow> 'e + 'b" where
  "and_then r f = (case r of Inl e \<Rightarrow> Inl e | Inr x \<Rightarrow> f x)"

definition unless :: "bool \<Rightarrow> 'e \<Rightarrow> 'e + unit" where
  "unless ok e = (if ok then Inr () else Inl e)"

fun each :: "('a \<Rightarrow> 'e + 'b) \<Rightarrow> 'a list \<Rightarrow> 'e + 'b list" where
  "each f [] = Inr []"
| "each f (x # xs) = and_then (f x) (\<lambda>y. and_then (each f xs) (\<lambda>ys. Inr (y # ys)))"

lemma and_then_Inr [simp]: "and_then r f = Inr y \<longleftrightarrow> (\<exists>x. r = Inr x \<and> f x = Inr y)"
  by (cases r) (simp_all add: and_then_def)

lemma unless_Inr [simp]: "unless ok e = Inr u \<longleftrightarrow> ok"
  by (simp add: unless_def)

lemma each_Inr: "each f xs = Inr ys \<longleftrightarrow> list_all2 (\<lambda>x y. f x = Inr y) xs ys"
  by (induction xs arbitrary: ys) (auto simp: list_all2_Cons1)

end
