(* ===== verification/Session_Types.thy ===== *)
theory Session_Types
  imports Prelude
begin

text \<open>
  The data model of a lab session: \<open>session/types.ts\<close>, \<open>session/shell-identity.ts\<close>
  and the provider vocabulary of \<open>providers/catalog.ts\<close> under
  \<open>services/lab-orchestrator/src\<close>.

  A timestamp is the ISO-8601 string that \<open>toISOString\<close> gives for a number of
  milliseconds; the model keeps the number. \<open>Date.parse\<close> and \<open>toISOString\<close> are
  inverse on such strings and the code only parses, compares for equality and
  orders them, so the two representations cannot be told apart. An optional field
  of the interface is an \<open>option\<close>.
\<close>

section \<open>Statuses\<close>

datatype session_status =
    CREATING | ACTIVE | RESETTING | DEGRADED | EXPIRING | EXPIRED | ENDING | ENDED | FAILED

definition SESSION_STATUSES :: "session_status list" where
  "SESSION_STATUSES =
     [CREATING, ACTIVE, RESETTING, DEGRADED, EXPIRING, EXPIRED, ENDING, ENDED, FAILED]"

definition OCCUPYING_STATUSES :: "session_status list" where
  "OCCUPYING_STATUSES = [CREATING, ACTIVE, RESETTING, DEGRADED, EXPIRING, ENDING]"

definition TERMINAL_STATUSES :: "session_status list" where
  "TERMINAL_STATUSES = [EXPIRED, ENDED, FAILED]"

definition isTerminalStatus :: "session_status \<Rightarrow> bool" where
  "isTerminalStatus s \<longleftrightarrow> s \<in> set TERMINAL_STATUSES"

definition RESETTABLE_STATUSES :: "session_status list" where
  "RESETTABLE_STATUSES = [ACTIVE, DEGRADED]"

definition isTeardownOwned :: "session_status \<Rightarrow> bool" where
  "isTeardownOwned s \<longleftrightarrow> s = ENDING \<or> s = EXPIRING \<or> isTerminalStatus s"

definition ACTIVITY_STATUSES :: "session_status list" where
  "ACTIVITY_STATUSES = [ACTIVE, RESETTING]"

definition acceptsActivity :: "session_status \<Rightarrow> bool" where
  "acceptsActivity s \<longleftrightarrow> s \<in> set ACTIVITY_STATUSES"

definition occupiesCapacity :: "session_status \<Rightarrow> bool" where
  "occupiesCapacity s \<longleftrightarrow> s \<in> set OCCUPYING_STATUSES"

lemmas status_defs [session_simps] =
  SESSION_STATUSES_def OCCUPYING_STATUSES_def TERMINAL_STATUSES_def isTerminalStatus_def
  RESETTABLE_STATUSES_def isTeardownOwned_def ACTIVITY_STATUSES_def acceptsActivity_def
  occupiesCapacity_def

text \<open>
  The nine statuses are all of them, and every status either occupies capacity or
  is terminal, never both: this is why releasing a slot needs no tally.
\<close>

lemma SESSION_STATUSES_complete: "set SESSION_STATUSES = UNIV"
  by (auto simp: session_simps intro: session_status.exhaust)

lemma occupies_iff_not_terminal: "occupiesCapacity s \<longleftrightarrow> \<not> isTerminalStatus s"
  by (cases s) (simp_all add: session_simps)

lemma activity_not_teardown: "acceptsActivity s \<Longrightarrow> \<not> isTeardownOwned s"
  by (cases s) (simp_all add: session_simps)

section \<open>Providers and sandbox kinds\<close>

datatype LabProviderId = Kubernetes | Linux | Docker | Terraform | Aws | Ansible | Cicd

datatype SandboxKind = Namespace | Container | Cloud_Session | No_Sandbox

definition LAB_PROVIDERS :: "LabProviderId list" where
  "LAB_PROVIDERS = [Kubernetes, Linux, Docker, Terraform, Aws, Ansible, Cicd]"

fun provider_name :: "LabProviderId \<Rightarrow> string" where
  "provider_name Kubernetes = ''kubernetes''"
| "provider_name Linux = ''linux''"
| "provider_name Docker = ''docker''"
| "provider_name Terraform = ''terraform''"
| "provider_name Aws = ''aws''"
| "provider_name Ansible = ''ansible''"
| "provider_name Cicd = ''cicd''"

fun PROVIDER_SANDBOX_KIND :: "LabProviderId \<Rightarrow> SandboxKind" where
  "PROVIDER_SANDBOX_KIND Kubernetes = Namespace"
| "PROVIDER_SANDBOX_KIND Linux = Container"
| "PROVIDER_SANDBOX_KIND Docker = Container"
| "PROVIDER_SANDBOX_KIND Terraform = Container"
| "PROVIDER_SANDBOX_KIND Aws = Cloud_Session"
| "PROVIDER_SANDBOX_KIND Ansible = Container"
| "PROVIDER_SANDBOX_KIND Cicd = Container"

section \<open>The stored record\<close>

record LabSession =
  sessionId :: string
  labId :: string
  provider :: LabProviderId
  sandboxKind :: SandboxKind
  sandboxRef :: string
  namespace :: string
  serviceAccountName :: string
  status :: session_status
  environmentId :: string
  createdAt :: int
  lastActivityAt :: int
  statusChangedAt :: int
  expiresAt :: int
  endedAt :: "int option"
  statusReason :: "string option"
  ownerUserId :: "string option"
  shellUid :: "int option"
  idleTimeoutSeconds :: int
  idleWarningSeconds :: int

text \<open>
  \<open>Partial<LabSession>\<close>: every field may be absent. The identity fields are here
  too, because a caller may put them in a patch and the store must drop them.
\<close>

record LabSessionPatch =
  p_sessionId :: "string option"
  p_labId :: "string option"
  p_provider :: "LabProviderId option"
  p_sandboxKind :: "SandboxKind option"
  p_sandboxRef :: "string option"
  p_namespace :: "string option"
  p_serviceAccountName :: "string option"
  p_status :: "session_status option"
  p_environmentId :: "string option"
  p_createdAt :: "int option"
  p_lastActivityAt :: "int option"
  p_statusChangedAt :: "int option"
  p_expiresAt :: "int option"
  p_endedAt :: "int option"
  p_statusReason :: "string option"
  p_ownerUserId :: "string option"
  p_shellUid :: "int option"
  p_idleTimeoutSeconds :: "int option"
  p_idleWarningSeconds :: "int option"

definition no_patch :: LabSessionPatch where
  "no_patch = \<lparr>p_sessionId = None, p_labId = None, p_provider = None, p_sandboxKind = None,
     p_sandboxRef = None, p_namespace = None, p_serviceAccountName = None, p_status = None,
     p_environmentId = None, p_createdAt = None, p_lastActivityAt = None,
     p_statusChangedAt = None, p_expiresAt = None, p_endedAt = None, p_statusReason = None,
     p_ownerUserId = None, p_shellUid = None, p_idleTimeoutSeconds = None,
     p_idleWarningSeconds = None\<rparr>"

lemmas no_patch_simps [session_simps] = no_patch_def

section \<open>Errors\<close>

datatype SessionErrorCode =
    PROVIDER_UNAVAILABLE
  | LAB_CAPACITY_REACHED
  | LAB_LAUNCHES_PAUSED
  | STUDENT_SESSION_LIMIT_REACHED
  | SESSION_NOT_FOUND
  | SESSION_NOT_ACTIVE
  | INVALID_SESSION_ID
  | SESSION_PROVISION_FAILED
  | SESSION_RESET_FAILED
  | SESSION_CLEANUP_FAILED
  | CREDENTIALS_UNAVAILABLE

section \<open>Shell identities\<close>

definition SHELL_UID_MIN :: int where "SHELL_UID_MIN = 1900000000"
definition SHELL_UID_MAX :: int where "SHELL_UID_MAX = 1900999999"

text \<open>\<open>typeof value === 'number'\<close>: an absent uid is not a number.\<close>

definition isValidShellUid :: "int option \<Rightarrow> bool" where
  "isValidShellUid value = (case value of None \<Rightarrow> False
     | Some u \<Rightarrow> SHELL_UID_MIN \<le> u \<and> u \<le> SHELL_UID_MAX)"

lemmas shell_uid_defs [session_simps] = SHELL_UID_MIN_def SHELL_UID_MAX_def

lemma shell_uid_signed_32_bit: "isValidShellUid (Some u) \<Longrightarrow> 0 \<le> u \<and> u < 2 ^ 31"
  by (simp add: isValidShellUid_def session_simps)

end
