(* ===== verification/Session_Store.thy ===== *)
theory Session_Store
  imports Session_Types "HOL-Library.Multiset"
begin

text \<open>
  Lab session bookkeeping: \<open>session/store.ts\<close>. The interface \<open>SessionStore\<close> is
  the locale \<open>session_store\<close> below: what a client may rely on of a conditional
  write, an activity stamp, an admission and a delete, in terms of the rows the
  store holds; \<open>new_ok\<close> is what a store asks of a session to be admitted, beyond a
  free place: no empty owner or reason, and in the database an owner that is a user.
  The lemmas of the locale are what every client of a store gets
  from that contract alone; \<open>InMemorySessionStore\<close> is modelled operation by
  operation and interprets it here, and the PostgreSQL store does in its own
  theory.

  The store's methods are atomic: the in-memory ones contain no await, and each
  method of the durable one is a single statement or one transaction under the
  capacity lock.
\<close>

section \<open>Guards, limits and decisions\<close>

record TransitionGuard =
  g_statusChangedAt :: "int option"
  g_lastActivityAt :: "int option"

definition no_guard :: TransitionGuard where
  "no_guard = \<lparr>g_statusChangedAt = None, g_lastActivityAt = None\<rparr>"

definition fence_on :: "int \<Rightarrow> TransitionGuard" where
  "fence_on t = \<lparr>g_statusChangedAt = Some t, g_lastActivityAt = None\<rparr>"

record CapacityLimits =
  maxOccupying :: int
  maxOccupyingPerOwner :: "int option"

datatype refused_by = By_Global | By_Owner

datatype CapacityDecision =
    Admitted
  | Refused (refusedBy: refused_by) (occupying: nat) (ownerOccupying: nat)

datatype store_error =
    SessionExists string
  | SandboxHeld string string
  | ShellUidExhaustedError

definition decideCapacity :: "LabSession \<Rightarrow> CapacityLimits \<Rightarrow> nat \<Rightarrow> nat \<Rightarrow> CapacityDecision" where
  "decideCapacity session limits occ ownerOcc =
     (if \<not> occupiesCapacity (status session) then Admitted
      else if ownerUserId session \<noteq> None \<and>
              (case maxOccupyingPerOwner limits of None \<Rightarrow> False
                 | Some perOwner \<Rightarrow> perOwner \<le> int ownerOcc)
      then Refused By_Owner occ ownerOcc
      else if maxOccupying limits \<le> int occ then Refused By_Global occ ownerOcc
      else Admitted)"

definition isExpired :: "LabSession \<Rightarrow> int \<Rightarrow> bool" where
  "isExpired session nowMs \<longleftrightarrow> expiresAt session \<le> nowMs"

definition isIdle :: "LabSession \<Rightarrow> int \<Rightarrow> bool" where
  "isIdle session nowMs \<longleftrightarrow>
     nowMs - lastActivityAt session \<ge> idleTimeoutSeconds session * 1000"

section \<open>Patches\<close>

text \<open>The destructuring in \<open>update\<close>: identity is not state.\<close>

definition drop_identity :: "LabSessionPatch \<Rightarrow> LabSessionPatch" where
  "drop_identity patch = patch\<lparr>p_ownerUserId := None, p_sessionId := None, p_namespace := None,
     p_sandboxRef := None, p_provider := None, p_sandboxKind := None, p_shellUid := None\<rparr>"

text \<open>The spread \<open>{ ...current, ...safe }\<close>.\<close>

definition or_keep :: "'a \<Rightarrow> 'a option \<Rightarrow> 'a" where
  "or_keep cur p = (case p of None \<Rightarrow> cur | Some v \<Rightarrow> v)"

definition or_keep_opt :: "'a option \<Rightarrow> 'a option \<Rightarrow> 'a option" where
  "or_keep_opt cur p = (case p of None \<Rightarrow> cur | Some v \<Rightarrow> Some v)"

lemma or_keep_simps [simp]:
  "or_keep c None = c" "or_keep c (Some v) = v"
  "or_keep_opt d None = d" "or_keep_opt d (Some v) = Some v"
  by (simp_all add: or_keep_def or_keep_opt_def)

definition apply_patch :: "LabSession \<Rightarrow> LabSessionPatch \<Rightarrow> LabSession" where
  "apply_patch cur p = \<lparr>
     sessionId = or_keep (sessionId cur) (p_sessionId p),
     labId = or_keep (labId cur) (p_labId p),
     provider = or_keep (provider cur) (p_provider p),
     sandboxKind = or_keep (sandboxKind cur) (p_sandboxKind p),
     sandboxRef = or_keep (sandboxRef cur) (p_sandboxRef p),
     namespace = or_keep (namespace cur) (p_namespace p),
     serviceAccountName = or_keep (serviceAccountName cur) (p_serviceAccountName p),
     status = or_keep (status cur) (p_status p),
     environmentId = or_keep (environmentId cur) (p_environmentId p),
     createdAt = or_keep (createdAt cur) (p_createdAt p),
     lastActivityAt = or_keep (lastActivityAt cur) (p_lastActivityAt p),
     statusChangedAt = or_keep (statusChangedAt cur) (p_statusChangedAt p),
     expiresAt = or_keep (expiresAt cur) (p_expiresAt p),
     endedAt = or_keep_opt (endedAt cur) (p_endedAt p),
     statusReason = or_keep_opt (statusReason cur) (p_statusReason p),
     ownerUserId = or_keep_opt (ownerUserId cur) (p_ownerUserId p),
     shellUid = or_keep_opt (shellUid cur) (p_shellUid p),
     idleTimeoutSeconds = or_keep (idleTimeoutSeconds cur) (p_idleTimeoutSeconds p),
     idleWarningSeconds = or_keep (idleWarningSeconds cur) (p_idleWarningSeconds p)\<rparr>"

section \<open>The in-memory store\<close>

record InMemorySessionStore =
  bySessionId :: "(string \<times> LabSession) list"
  nextShellUid :: int

definition new_store :: "int option \<Rightarrow> InMemorySessionStore" where
  "new_store firstShellUid = \<lparr>bySessionId = [], nextShellUid = or_keep SHELL_UID_MIN firstShellUid\<rparr>"

definition withShellUid ::
  "InMemorySessionStore \<Rightarrow> LabSession \<Rightarrow> store_error + (LabSession \<times> InMemorySessionStore)" where
  "withShellUid st session =
     (if SHELL_UID_MAX < nextShellUid st then Inl ShellUidExhaustedError
      else Inr (session\<lparr>shellUid := Some (nextShellUid st)\<rparr>,
                st\<lparr>nextShellUid := nextShellUid st + 1\<rparr>))"

definition assertInsertable :: "InMemorySessionStore \<Rightarrow> LabSession \<Rightarrow> store_error option" where
  "assertInsertable st session =
     (if map_of (bySessionId st) (sessionId session) \<noteq> None
      then Some (SessionExists (sessionId session))
      else (case find (\<lambda>(_, existing). sandboxRef existing = sandboxRef session) (bySessionId st) of
              Some (_, existing) \<Rightarrow> Some (SandboxHeld (sandboxRef session) (sessionId existing))
            | None \<Rightarrow> None))"

definition store_create ::
  "InMemorySessionStore \<Rightarrow> LabSession \<Rightarrow> store_error + InMemorySessionStore" where
  "store_create st session =
     (case assertInsertable st session of
        Some e \<Rightarrow> Inl e
      | None \<Rightarrow>
          (case withShellUid st session of
             Inl e \<Rightarrow> Inl e
           | Inr (row, st') \<Rightarrow>
               Inr (st'\<lparr>bySessionId := AList.update (sessionId session) row (bySessionId st')\<rparr>)))"

definition store_get :: "InMemorySessionStore \<Rightarrow> string \<Rightarrow> LabSession option" where
  "store_get st sid = map_of (bySessionId st) sid"

definition store_update ::
  "InMemorySessionStore \<Rightarrow> string \<Rightarrow> LabSessionPatch \<Rightarrow>
   LabSession option \<times> InMemorySessionStore" where
  "store_update st sid patch =
     (case map_of (bySessionId st) sid of
        None \<Rightarrow> (None, st)
      | Some current \<Rightarrow>
          let next = apply_patch current (drop_identity patch)
          in (Some next, st\<lparr>bySessionId := AList.update sid next (bySessionId st)\<rparr>))"

definition store_delete :: "InMemorySessionStore \<Rightarrow> string \<Rightarrow> InMemorySessionStore" where
  "store_delete st sid = st\<lparr>bySessionId := AList.delete sid (bySessionId st)\<rparr>"

definition store_list :: "InMemorySessionStore \<Rightarrow> LabSession list" where
  "store_list st = map snd (bySessionId st)"

definition listOccupying :: "InMemorySessionStore \<Rightarrow> LabSession list" where
  "listOccupying st = filter (\<lambda>s. occupiesCapacity (status s)) (store_list st)"

text \<open>
  ISO timestamps order as the instants they denote, and \<open>Array.sort\<close> is stable:
  newest first is a stable sort by the negated creation time.
\<close>

fun collect_mine :: "string \<Rightarrow> LabSession list \<Rightarrow> LabSession list" where
  "collect_mine owner [] = []"
| "collect_mine owner (s # ss) =
     (if \<not> occupiesCapacity (status s) then collect_mine owner ss
      else if ownerUserId s = None \<or> ownerUserId s \<noteq> Some owner then collect_mine owner ss
      else s # collect_mine owner ss)"

definition listOccupyingForOwner :: "InMemorySessionStore \<Rightarrow> string \<Rightarrow> LabSession list" where
  "listOccupyingForOwner st owner =
     sort_key (\<lambda>s. - createdAt s) (collect_mine owner (store_list st))"

definition findBySandboxRef :: "InMemorySessionStore \<Rightarrow> string \<Rightarrow> LabSession option" where
  "findBySandboxRef st ref =
     find (\<lambda>session. sandboxRef session = ref \<or> namespace session = ref) (store_list st)"

definition findByNamespace :: "InMemorySessionStore \<Rightarrow> string \<Rightarrow> LabSession option" where
  "findByNamespace st ns = findBySandboxRef st ns"

definition store_transition ::
  "InMemorySessionStore \<Rightarrow> string \<Rightarrow> session_status list \<Rightarrow> session_status \<Rightarrow>
   LabSessionPatch \<Rightarrow> TransitionGuard \<Rightarrow> LabSession option \<times> InMemorySessionStore" where
  "store_transition st sid from to patch guard =
     (case map_of (bySessionId st) sid of
        None \<Rightarrow> (None, st)
      | Some current \<Rightarrow>
          if status current \<notin> set from then (None, st)
          else if g_statusChangedAt guard \<noteq> None \<and>
                  Some (statusChangedAt current) \<noteq> g_statusChangedAt guard then (None, st)
          else if g_lastActivityAt guard \<noteq> None \<and>
                  Some (lastActivityAt current) \<noteq> g_lastActivityAt guard then (None, st)
          else store_update st sid
                 (patch\<lparr>p_status := Some to,
                        p_statusChangedAt :=
                          (if p_statusChangedAt patch \<noteq> None \<and> status current \<noteq> to
                           then p_statusChangedAt patch else None)\<rparr>))"

definition store_touchActivity ::
  "InMemorySessionStore \<Rightarrow> string \<Rightarrow> int \<Rightarrow> LabSession option \<times> InMemorySessionStore" where
  "store_touchActivity st sid at =
     (case map_of (bySessionId st) sid of
        None \<Rightarrow> (None, st)
      | Some current \<Rightarrow>
          if \<not> acceptsActivity (status current) then (None, st)
          else store_update st sid (no_patch\<lparr>p_lastActivityAt := Some at\<rparr>))"

definition listExpirable :: "InMemorySessionStore \<Rightarrow> int \<Rightarrow> LabSession list" where
  "listExpirable st now =
     filter (\<lambda>session.
       if \<not> occupiesCapacity (status session) then False
       else if expiresAt session \<le> now then True
       else lastActivityAt session + idleTimeoutSeconds session * 1000 \<le> now) (store_list st)"

definition countOccupying :: "InMemorySessionStore \<Rightarrow> nat" where
  "countOccupying st = length (listOccupying st)"

text \<open>The counting loop of \<open>createWithinLimits\<close>.\<close>

fun count_occupied :: "LabSession \<Rightarrow> LabSession list \<Rightarrow> nat \<Rightarrow> nat \<Rightarrow> nat \<times> nat" where
  "count_occupied session [] occupied ownerOccupied = (occupied, ownerOccupied)"
| "count_occupied session (existing # rest) occupied ownerOccupied =
     (if \<not> occupiesCapacity (status existing)
      then count_occupied session rest occupied ownerOccupied
      else count_occupied session rest (occupied + 1)
             (if ownerUserId session \<noteq> None \<and> ownerUserId existing = ownerUserId session
              then ownerOccupied + 1 else ownerOccupied))"

definition createWithinLimits ::
  "InMemorySessionStore \<Rightarrow> LabSession \<Rightarrow> CapacityLimits \<Rightarrow>
   (store_error + CapacityDecision) \<times> InMemorySessionStore" where
  "createWithinLimits st session limits =
     (let (occupied, ownerOccupied) = count_occupied session (store_list st) 0 0;
          decision = decideCapacity session limits occupied ownerOccupied
      in if decision \<noteq> Admitted then (Inr decision, st)
         else (case store_create st session of
                 Inl e \<Rightarrow> (Inl e, st)
               | Inr st' \<Rightarrow> (Inr decision, st')))"

definition createWithinCapacity ::
  "InMemorySessionStore \<Rightarrow> LabSession \<Rightarrow> int \<Rightarrow> (store_error + bool) \<times> InMemorySessionStore" where
  "createWithinCapacity st session maxOcc =
     (case createWithinLimits st session
             \<lparr>maxOccupying = maxOcc, maxOccupyingPerOwner = None\<rparr> of
        (Inl e, st') \<Rightarrow> (Inl e, st')
      | (Inr decision, st') \<Rightarrow> (Inr (decision = Admitted), st'))"

section \<open>The contract of a session store\<close>

text \<open>When a conditional write applies to a row, and what it may change of it.\<close>

definition transition_allowed :: "LabSession \<Rightarrow> session_status list \<Rightarrow> TransitionGuard \<Rightarrow> bool" where
  "transition_allowed cur from guard \<longleftrightarrow>
     status cur \<in> set from \<and>
     (\<forall>t. g_statusChangedAt guard = Some t \<longrightarrow> statusChangedAt cur = t) \<and>
     (\<forall>t. g_lastActivityAt guard = Some t \<longrightarrow> lastActivityAt cur = t)"

definition same_identity :: "LabSession \<Rightarrow> LabSession \<Rightarrow> bool" where
  "same_identity s t \<longleftrightarrow>
     sessionId t = sessionId s \<and> provider t = provider s \<and> sandboxKind t = sandboxKind s \<and>
     sandboxRef t = sandboxRef s \<and> namespace t = namespace s \<and>
     ownerUserId t = ownerUserId s \<and> shellUid t = shellUid s"

definition moved :: "LabSession \<Rightarrow> session_status \<Rightarrow> LabSessionPatch \<Rightarrow> LabSession \<Rightarrow> bool" where
  "moved cur to patch next \<longleftrightarrow>
     same_identity cur next \<and> status next = to \<and>
     statusChangedAt next = (if status cur = to then statusChangedAt cur
                             else or_keep (statusChangedAt cur) (p_statusChangedAt patch)) \<and>
     lastActivityAt next = or_keep (lastActivityAt cur) (p_lastActivityAt patch) \<and>
     expiresAt next = or_keep (expiresAt cur) (p_expiresAt patch) \<and>
     endedAt next = or_keep_opt (endedAt cur) (p_endedAt patch) \<and>
     idleTimeoutSeconds next = or_keep (idleTimeoutSeconds cur) (p_idleTimeoutSeconds patch)"

text \<open>The sessions a capacity check counts, in terms of the rows of a store.\<close>

definition occupying_ids :: "(string \<rightharpoonup> LabSession) \<Rightarrow> string set" where
  "occupying_ids m = {sid. \<exists>s. m sid = Some s \<and> occupiesCapacity (status s)}"

definition owner_ids :: "(string \<rightharpoonup> LabSession) \<Rightarrow> string option \<Rightarrow> string set" where
  "owner_ids m owner = {sid. owner \<noteq> None \<and>
     (\<exists>s. m sid = Some s \<and> occupiesCapacity (status s) \<and> ownerUserId s = owner)}"

definition wf_new :: "LabSession \<Rightarrow> bool" where
  "wf_new s \<longleftrightarrow> ownerUserId s \<noteq> Some [] \<and> statusReason s \<noteq> Some []"

lemma occupying_ids_dom: "occupying_ids m \<subseteq> dom m"
  by (auto simp: occupying_ids_def)

lemma owner_ids_occupying: "owner_ids m owner \<subseteq> occupying_ids m"
  by (auto simp: owner_ids_def occupying_ids_def)

lemma occupying_ids_upd_absent:
  assumes "m sid = None"
  shows "occupying_ids (m(sid \<mapsto> s)) =
           (if occupiesCapacity (status s) then insert sid (occupying_ids m) else occupying_ids m)"
    and "sid \<notin> occupying_ids m"
  using assms by (auto simp: occupying_ids_def)

lemma owner_ids_upd_absent:
  assumes "m sid = None"
  shows "owner_ids (m(sid \<mapsto> s)) owner =
           (if owner \<noteq> None \<and> occupiesCapacity (status s) \<and> ownerUserId s = owner
            then insert sid (owner_ids m owner) else owner_ids m owner)"
    and "sid \<notin> owner_ids m owner"
  using assms by (auto simp: owner_ids_def)

lemma decideCapacity_admitted:
  assumes "decideCapacity s limits occ ownerOcc = Admitted" and "occupiesCapacity (status s)"
  shows "int occ < maxOccupying limits"
    and "ownerUserId s \<noteq> None \<Longrightarrow> maxOccupyingPerOwner limits = Some k \<Longrightarrow> int ownerOcc < k"
  using assms by (auto simp: decideCapacity_def split: if_splits option.splits)

locale session_store =
  fixes rows :: "'st \<Rightarrow> string \<rightharpoonup> LabSession"
    and invar :: "'st \<Rightarrow> bool"
    and next_uid :: "'st \<Rightarrow> int"
    and transition :: "'st \<Rightarrow> string \<Rightarrow> session_status list \<Rightarrow> session_status \<Rightarrow>
          LabSessionPatch \<Rightarrow> TransitionGuard \<Rightarrow> LabSession option \<times> 'st"
    and touch :: "'st \<Rightarrow> string \<Rightarrow> int \<Rightarrow> LabSession option \<times> 'st"
    and remove :: "'st \<Rightarrow> string \<Rightarrow> 'st"
    and admit :: "'st \<Rightarrow> LabSession \<Rightarrow> CapacityLimits \<Rightarrow> ('e + CapacityDecision) \<times> 'st"
    and new_ok :: "'st \<Rightarrow> LabSession \<Rightarrow> bool"
  assumes finite_rows: "invar st \<Longrightarrow> finite (dom (rows st))"
    and row_id: "invar st \<Longrightarrow> rows st sid = Some s \<Longrightarrow> sessionId s = sid"
    and sandbox_unique: "invar st \<Longrightarrow> rows st a = Some s \<Longrightarrow> rows st b = Some t \<Longrightarrow>
          sandboxRef s = sandboxRef t \<Longrightarrow> a = b"
    and uid_assigned: "invar st \<Longrightarrow> rows st sid = Some s \<Longrightarrow>
          \<exists>u. shellUid s = Some u \<and> SHELL_UID_MIN \<le> u \<and> u \<le> SHELL_UID_MAX \<and> u < next_uid st"
    and uid_unique: "invar st \<Longrightarrow> rows st a = Some s \<Longrightarrow> rows st b = Some t \<Longrightarrow>
          shellUid s = shellUid t \<Longrightarrow> a = b"
    and transition_miss: "invar st \<Longrightarrow>
          (\<And>cur. rows st sid = Some cur \<Longrightarrow> \<not> transition_allowed cur from guard) \<Longrightarrow>
          transition st sid from to patch guard = (None, st)"
    and transition_hit: "invar st \<Longrightarrow> rows st sid = Some cur \<Longrightarrow>
          transition_allowed cur from guard \<Longrightarrow>
          \<exists>next st'. transition st sid from to patch guard = (Some next, st') \<and>
            rows st' = (rows st)(sid \<mapsto> next) \<and> moved cur to patch next \<and>
            invar st' \<and> next_uid st' = next_uid st"
    and touch_miss: "invar st \<Longrightarrow>
          (\<And>cur. rows st sid = Some cur \<Longrightarrow> \<not> acceptsActivity (status cur)) \<Longrightarrow>
          touch st sid at = (None, st)"
    and touch_hit: "invar st \<Longrightarrow> rows st sid = Some cur \<Longrightarrow> acceptsActivity (status cur) \<Longrightarrow>
          \<exists>st'. touch st sid at = (Some (cur\<lparr>lastActivityAt := at\<rparr>), st') \<and>
            rows st' = (rows st)(sid \<mapsto> cur\<lparr>lastActivityAt := at\<rparr>) \<and>
            invar st' \<and> next_uid st' = next_uid st"
    and remove_rows: "invar st \<Longrightarrow> rows (remove st sid) = (rows st)(sid := None) \<and>
          invar (remove st sid) \<and> next_uid (remove st sid) = next_uid st"
    and admit_admitted: "invar st \<Longrightarrow> new_ok st s \<Longrightarrow> admit st s limits = (Inr Admitted, st') \<Longrightarrow>
          decideCapacity s limits (card (occupying_ids (rows st)))
            (card (owner_ids (rows st) (ownerUserId s))) = Admitted \<and>
          rows st (sessionId s) = None \<and>
          (\<exists>u. rows st' = (rows st)(sessionId s \<mapsto> s\<lparr>shellUid := Some u\<rparr>) \<and>
               next_uid st \<le> u \<and> u < next_uid st') \<and> invar st'"
    and admit_not_admitted: "invar st \<Longrightarrow> new_ok st s \<Longrightarrow> admit st s limits = (r, st') \<Longrightarrow>
          r \<noteq> Inr Admitted \<Longrightarrow> rows st' = rows st \<and> invar st' \<and> next_uid st \<le> next_uid st'"
    and admit_refuses: "invar st \<Longrightarrow> new_ok st s \<Longrightarrow>
          decideCapacity s limits (card (occupying_ids (rows st)))
            (card (owner_ids (rows st) (ownerUserId s))) = Refused who m n \<Longrightarrow>
          admit st s limits = (Inr (Refused who m n), st)"
    and admit_admits: "invar st \<Longrightarrow> new_ok st s \<Longrightarrow>
          decideCapacity s limits (card (occupying_ids (rows st)))
            (card (owner_ids (rows st) (ownerUserId s))) = Admitted \<Longrightarrow>
          rows st (sessionId s) = None \<Longrightarrow>
          (\<And>x t. rows st x = Some t \<Longrightarrow> sandboxRef t \<noteq> sandboxRef s) \<Longrightarrow>
          next_uid st \<le> SHELL_UID_MAX \<Longrightarrow>
          \<exists>st'. admit st s limits = (Inr Admitted, st')"
begin

lemma transition_cases:
  assumes "invar st" and "transition st sid from to patch guard = (r, st')"
  obtains (miss) "r = None" "st' = st"
        "\<And>cur. rows st sid = Some cur \<Longrightarrow> \<not> transition_allowed cur from guard"
    | (hit) cur "next" where "rows st sid = Some cur" "transition_allowed cur from guard"
        "r = Some next" "rows st' = (rows st)(sid \<mapsto> next)" "moved cur to patch next"
        "invar st'" "next_uid st' = next_uid st"
proof (cases "\<exists>cur. rows st sid = Some cur \<and> transition_allowed cur from guard")
  case True
  then obtain cur where "rows st sid = Some cur" "transition_allowed cur from guard" by blast
  with transition_hit [OF assms(1) this, of to patch] assms(2) hit show thesis by auto
next
  case False
  with transition_miss [OF assms(1), of sid "from" guard to patch] assms(2) miss
  show thesis by auto
qed

lemma touch_cases:
  assumes "invar st" and "touch st sid at = (r, st')"
  obtains (miss) "r = None" "st' = st"
        "\<And>cur. rows st sid = Some cur \<Longrightarrow> \<not> acceptsActivity (status cur)"
    | (hit) cur where "rows st sid = Some cur" "acceptsActivity (status cur)"
        "r = Some (cur\<lparr>lastActivityAt := at\<rparr>)"
        "rows st' = (rows st)(sid \<mapsto> cur\<lparr>lastActivityAt := at\<rparr>)"
        "invar st'" "next_uid st' = next_uid st"
proof (cases "\<exists>cur. rows st sid = Some cur \<and> acceptsActivity (status cur)")
  case True
  then obtain cur where "rows st sid = Some cur" "acceptsActivity (status cur)" by blast
  with touch_hit [OF assms(1) this, of at] assms(2) hit show thesis by auto
next
  case False
  with touch_miss [OF assms(1), of sid at] assms(2) miss show thesis by auto
qed

lemma admit_cases:
  assumes "invar st" and "new_ok st s" and "admit st s limits = (r, st')"
  obtains (no) "r \<noteq> Inr Admitted" "rows st' = rows st" "invar st'" "next_uid st \<le> next_uid st'"
    | (yes) u where "r = Inr Admitted"
        "decideCapacity s limits (card (occupying_ids (rows st)))
           (card (owner_ids (rows st) (ownerUserId s))) = Admitted"
        "rows st (sessionId s) = None"
        "rows st' = (rows st)(sessionId s \<mapsto> s\<lparr>shellUid := Some u\<rparr>)"
        "next_uid st \<le> u" "u < next_uid st'" "invar st'"
proof (cases "r = Inr Admitted")
  case True
  with admit_admitted [OF assms(1,2)] assms(3) yes show thesis by blast
next
  case False
  with admit_not_admitted [OF assms(1-3)] no show thesis by blast
qed

text \<open>A finished row is immutable until it is deleted.\<close>

lemma transition_frozen:
  assumes "invar st" and "transition st sid from to patch guard = (r, st')"
    and "\<And>x. x \<in> set from \<Longrightarrow> \<not> isTerminalStatus x"
    and "rows st a = Some row" and "isTerminalStatus (status row)"
  shows "rows st' a = Some row"
  using assms(1,2)
proof (cases rule: transition_cases)
  case miss
  with assms(4) show ?thesis by simp
next
  case (hit cur "next")
  with assms(3-5) show ?thesis by (cases "a = sid") (auto simp: transition_allowed_def)
qed

lemma touch_frozen:
  assumes "invar st" and "touch st sid at = (r, st')"
    and "rows st a = Some row" and "isTerminalStatus (status row)"
  shows "rows st' a = Some row"
  using assms(1,2)
proof (cases rule: touch_cases)
  case miss
  with assms(3) show ?thesis by simp
next
  case (hit cur)
  with assms(3,4) activity_not_teardown show ?thesis
    by (cases "a = sid") (auto simp: isTeardownOwned_def)
qed

lemma admit_keeps:
  assumes "invar st" and "new_ok st s" and "admit st s limits = (r, st')" and "rows st a = Some row"
  shows "rows st' a = Some row"
  using assms(1-3)
proof (cases rule: admit_cases)
  case no
  with assms(4) show ?thesis by simp
next
  case yes
  with assms(4) show ?thesis by auto
qed

text \<open>Capacity: a conditional write never takes a slot, an admission only a free one.\<close>

lemma finite_occupying: "invar st \<Longrightarrow> finite (occupying_ids (rows st))"
  by (rule finite_subset [OF occupying_ids_dom finite_rows])

lemma finite_owner: "invar st \<Longrightarrow> finite (owner_ids (rows st) ow)"
  by (rule finite_subset [OF owner_ids_occupying finite_occupying])

lemma transition_occupying:
  assumes "invar st" and "transition st sid from to patch guard = (r, st')"
    and "\<And>x. x \<in> set from \<Longrightarrow> \<not> isTerminalStatus x"
  shows "occupying_ids (rows st') \<subseteq> occupying_ids (rows st) \<and>
         owner_ids (rows st') ow \<subseteq> owner_ids (rows st) ow"
  using assms(1,2)
proof (cases rule: transition_cases)
  case miss
  then show ?thesis by simp
next
  case (hit cur "next")
  then have "occupiesCapacity (status cur)" "ownerUserId next = ownerUserId cur"
    using assms(3) by (auto simp: transition_allowed_def occupies_iff_not_terminal moved_def
        same_identity_def)
  with hit show ?thesis by (auto simp: occupying_ids_def owner_ids_def split: if_splits)
qed

lemma touch_occupying:
  assumes "invar st" and "touch st sid at = (r, st')"
  shows "occupying_ids (rows st') = occupying_ids (rows st) \<and>
         owner_ids (rows st') ow = owner_ids (rows st) ow"
  using assms
proof (cases rule: touch_cases)
  case miss
  then show ?thesis by simp
next
  case (hit cur)
  then show ?thesis by (auto simp: occupying_ids_def owner_ids_def split: if_splits)
qed

lemma admit_capacity:
  assumes "invar st" and "new_ok st s" and "admit st s limits = (r, st')"
    and "int (card (occupying_ids (rows st))) \<le> M" and "maxOccupying limits \<le> M"
  shows "int (card (occupying_ids (rows st'))) \<le> M"
  using assms(1-3)
proof (cases rule: admit_cases)
  case no
  with assms(4) show ?thesis by simp
next
  case (yes u)
  show ?thesis
  proof (cases "occupiesCapacity (status s)")
    case True
    from decideCapacity_admitted(1) [OF yes(2) True] assms(5)
    have "int (card (occupying_ids (rows st))) < M" by simp
    with yes True occupying_ids_upd_absent [of "rows st" "sessionId s"] finite_occupying [OF assms(1)]
    show ?thesis by simp
  next
    case False
    with yes assms(4) occupying_ids_upd_absent [of "rows st" "sessionId s"] show ?thesis by simp
  qed
qed

lemma admit_owner_capacity:
  assumes "invar st" and "new_ok st s" and "admit st s limits = (r, st')"
    and "int (card (owner_ids (rows st) ow)) \<le> K"
    and "maxOccupyingPerOwner limits = Some k" and "k \<le> K"
  shows "int (card (owner_ids (rows st') ow)) \<le> K"
  using assms(1-3)
proof (cases rule: admit_cases)
  case no
  with assms(4) show ?thesis by simp
next
  case (yes u)
  show ?thesis
  proof (cases "ow \<noteq> None \<and> occupiesCapacity (status s) \<and> ownerUserId s = ow")
    case True
    with decideCapacity_admitted(2) [OF yes(2) _ _ assms(5)] assms(6)
    have "int (card (owner_ids (rows st) ow)) < K" by auto
    with yes True owner_ids_upd_absent [of "rows st" "sessionId s"] finite_owner [OF assms(1)]
    show ?thesis by simp
  next
    case False
    with yes assms(4) owner_ids_upd_absent [of "rows st" "sessionId s"] show ?thesis by auto
  qed
qed

end

section \<open>The in-memory store keeps the contract\<close>

definition mem_invar :: "InMemorySessionStore \<Rightarrow> bool" where
  "mem_invar st \<longleftrightarrow>
     distinct (map fst (bySessionId st)) \<and>
     (\<forall>(sid, s) \<in> set (bySessionId st). sessionId s = sid) \<and>
     distinct (map (sandboxRef \<circ> snd) (bySessionId st)) \<and>
     (\<forall>(sid, s) \<in> set (bySessionId st). \<exists>u. shellUid s = Some u \<and>
         SHELL_UID_MIN \<le> u \<and> u \<le> SHELL_UID_MAX \<and> u < nextShellUid st) \<and>
     distinct (map (shellUid \<circ> snd) (bySessionId st)) \<and>
     SHELL_UID_MIN \<le> nextShellUid st"

text \<open>
  Replacing a row by one with the same key and the same value of \<open>f\<close> leaves the
  list of the rows' values of \<open>f\<close> as it is.
\<close>

lemma map_update_same:
  "map_of al k = Some v \<Longrightarrow> f w = f v \<Longrightarrow> map (f \<circ> snd) (AList.update k w al) = map (f \<circ> snd) al"
  by (induction al) auto

lemma set_update_present:
  "distinct (map fst al) \<Longrightarrow> map_of al k = Some v \<Longrightarrow>
   set (AList.update k w al) = insert (k, w) (set al - {(k, v)})"
  by (induction al) (auto dest: map_of_SomeD)

lemma map_of_find:
  "distinct (map fst al) \<Longrightarrow> (k, v) \<in> set al \<longleftrightarrow> map_of al k = Some v"
  by simp

lemma distinct_map_snd_inj:
  assumes "distinct (map (f \<circ> snd) al)" and "(a, s) \<in> set al" and "(b, t) \<in> set al" and "f s = f t"
  shows "a = b"
proof -
  have "inj_on (f \<circ> snd) (set al)" using assms(1) by (simp add: distinct_map)
  then have "(a, s) = (b, t)" by (rule inj_onD) (use assms(2-4) in simp_all)
  then show ?thesis by simp
qed

lemma same_identity_patch: "same_identity cur (apply_patch cur (drop_identity patch))"
  by (simp add: same_identity_def apply_patch_def drop_identity_def)

lemma mem_invar_replace:
  assumes inv: "mem_invar st" and cur: "map_of (bySessionId st) sid = Some cur"
    and same: "same_identity cur nxt"
  shows "mem_invar (st\<lparr>bySessionId := AList.update sid nxt (bySessionId st)\<rparr>)"
proof -
  let ?al = "bySessionId st"
  have d: "distinct (map fst ?al)" using inv by (simp add: mem_invar_def)
  have mem: "(sid, cur) \<in> set ?al" using cur by (rule map_of_SomeD)
  have st: "set (AList.update sid nxt ?al) = insert (sid, nxt) (set ?al - {(sid, cur)})"
    by (rule set_update_present [OF d cur])
  have maps: "map (sandboxRef \<circ> snd) (AList.update sid nxt ?al) = map (sandboxRef \<circ> snd) ?al"
    "map (shellUid \<circ> snd) (AList.update sid nxt ?al) = map (shellUid \<circ> snd) ?al"
    using same by (auto intro!: map_update_same [OF cur] simp: same_identity_def)
  have flds: "bySessionId (st\<lparr>bySessionId := AList.update sid nxt ?al\<rparr>) = AList.update sid nxt ?al"
    "nextShellUid (st\<lparr>bySessionId := AList.update sid nxt ?al\<rparr>) = nextShellUid st"
    by simp_all
  show ?thesis
    unfolding mem_invar_def flds maps st
    using inv mem same distinct_update [OF d]
    by (auto simp: mem_invar_def same_identity_def)
qed

lemma store_update_hit:
  "map_of (bySessionId st) sid = Some cur \<Longrightarrow>
   store_update st sid patch =
     (Some (apply_patch cur (drop_identity patch)),
      st\<lparr>bySessionId := AList.update sid (apply_patch cur (drop_identity patch)) (bySessionId st)\<rparr>)"
  by (simp add: store_update_def Let_def)

lemma card_map_count:
  assumes "distinct (map fst al)"
  shows "card {k. \<exists>v. map_of al k = Some v \<and> P v} = count_vals P al"
proof -
  have "{k. \<exists>v. map_of al k = Some v \<and> P v} = fst ` set (filter (P \<circ> snd) al)"
    using assms by force
  moreover have "distinct (map fst (filter (P \<circ> snd) al))"
    using assms by (simp add: distinct_map_filter)
  ultimately show ?thesis
    unfolding count_vals_def by (metis length_map list.set_map distinct_card)
qed

lemma count_occupied_eq:
  "count_occupied session (map snd al) m n =
     (m + count_vals (\<lambda>s. occupiesCapacity (status s)) al,
      n + count_vals (\<lambda>s. occupiesCapacity (status s) \<and> ownerUserId session \<noteq> None \<and>
                         ownerUserId s = ownerUserId session) al)"
  by (induction al arbitrary: m n) auto

lemma count_occupied_card:
  assumes "mem_invar st"
  shows "count_occupied session (store_list st) 0 0 =
     (card (occupying_ids (map_of (bySessionId st))),
      card (owner_ids (map_of (bySessionId st)) (ownerUserId session)))"
proof -
  have d: "distinct (map fst (bySessionId st))" using assms by (simp add: mem_invar_def)
  have "owner_ids (map_of (bySessionId st)) (ownerUserId session) =
     {k. \<exists>v. map_of (bySessionId st) k = Some v \<and> (occupiesCapacity (status v) \<and>
           ownerUserId session \<noteq> None \<and> ownerUserId v = ownerUserId session)}"
    by (auto simp: owner_ids_def)
  then show ?thesis
    unfolding store_list_def count_occupied_eq occupying_ids_def
    by (simp add: card_map_count [OF d])
qed

lemma createWithinLimits_eq:
  assumes "mem_invar st"
  shows "createWithinLimits st session limits =
    (let decision = decideCapacity session limits (card (occupying_ids (map_of (bySessionId st))))
                      (card (owner_ids (map_of (bySessionId st)) (ownerUserId session)))
     in if decision \<noteq> Admitted then (Inr decision, st)
        else (case store_create st session of
                 Inl e \<Rightarrow> (Inl e, st) | Inr st' \<Rightarrow> (Inr decision, st')))"
  unfolding createWithinLimits_def count_occupied_card [OF assms] by simp

lemma store_create_cases:
  assumes "store_create st session = Inr st'"
  shows "map_of (bySessionId st) (sessionId session) = None"
    and "\<forall>(k, s) \<in> set (bySessionId st). sandboxRef s \<noteq> sandboxRef session"
    and "nextShellUid st \<le> SHELL_UID_MAX"
    and "st' = \<lparr>bySessionId = bySessionId st @
                  [(sessionId session, session\<lparr>shellUid := Some (nextShellUid st)\<rparr>)],
                nextShellUid = nextShellUid st + 1\<rparr>"
proof -
  from assms have ins: "assertInsertable st session = None"
    by (auto simp: store_create_def split: option.splits)
  then show new: "map_of (bySessionId st) (sessionId session) = None"
    by (auto simp: assertInsertable_def split: if_splits)
  from ins show "\<forall>(k, s) \<in> set (bySessionId st). sandboxRef s \<noteq> sandboxRef session"
    by (auto simp: assertInsertable_def find_None_iff split: if_splits option.splits)
  from assms ins show "nextShellUid st \<le> SHELL_UID_MAX"
    by (auto simp: store_create_def withShellUid_def split: if_splits)
  with assms ins new show "st' = \<lparr>bySessionId = bySessionId st @
                  [(sessionId session, session\<lparr>shellUid := Some (nextShellUid st)\<rparr>)],
                nextShellUid = nextShellUid st + 1\<rparr>"
    by (cases st) (auto simp: store_create_def withShellUid_def map_of_None_keys keys_update_absent)
qed

lemma mem_invar_create:
  assumes inv: "mem_invar st" and cr: "store_create st session = Inr st'"
  shows "mem_invar st'"
proof -
  have "Some (nextShellUid st) \<notin> set (map (shellUid \<circ> snd) (bySessionId st))"
    using inv by (auto simp: mem_invar_def)
  moreover have "sandboxRef session \<notin> set (map (sandboxRef \<circ> snd) (bySessionId st))"
    using store_create_cases(2) [OF cr] by auto
  moreover have "sessionId session \<notin> set (map fst (bySessionId st))"
    using store_create_cases(1) [OF cr] by (simp add: map_of_None_keys)
  ultimately show ?thesis
    using inv store_create_cases(3) [OF cr]
    unfolding store_create_cases(4) [OF cr] mem_invar_def by auto
qed

lemma mem_invar_delete: "mem_invar st \<Longrightarrow> mem_invar (store_delete st sid)"
  unfolding mem_invar_def store_delete_def AList.delete_eq
  by (auto simp: distinct_map_filter)

text \<open>
  The interpretation: each law is discharged on the operations above. The rows of
  a store are what \<open>get\<close> returns.
\<close>

interpretation mem: session_store store_get mem_invar nextShellUid
  store_transition store_touchActivity store_delete createWithinLimits "\<lambda>_. wf_new"
proof (unfold_locales, goal_cases)
  case (1 st)
  then show ?case by (simp add: store_get_def [abs_def] finite_dom_map_of)
next
  case (2 st sid s)
  then show ?case by (auto simp: mem_invar_def store_get_def dest: map_of_SomeD)
next
  case (3 st a s b t)
  then show ?case
    by (auto simp: mem_invar_def store_get_def dest!: map_of_SomeD intro: distinct_map_snd_inj)
next
  case (4 st sid s)
  then show ?case by (auto simp: mem_invar_def store_get_def dest: map_of_SomeD)
next
  case (5 st a s b t)
  then show ?case
    by (auto simp: mem_invar_def store_get_def dest!: map_of_SomeD intro: distinct_map_snd_inj)
next
  case (6 st sid "from" guard to patch)
  then show ?case
    by (auto simp: store_get_def store_transition_def transition_allowed_def split: option.splits)
next
  case (7 st sid cur "from" guard to patch)
  let ?p = "patch\<lparr>p_status := Some to, p_statusChangedAt :=
     (if p_statusChangedAt patch \<noteq> None \<and> status cur \<noteq> to then p_statusChangedAt patch else None)\<rparr>"
  let ?nxt = "apply_patch cur (drop_identity ?p)"
  have cur: "map_of (bySessionId st) sid = Some cur" using 7(2) by (simp add: store_get_def)
  with 7(3) have "store_transition st sid from to patch guard = store_update st sid ?p"
    by (auto simp: store_transition_def transition_allowed_def)
  moreover have "moved cur to patch ?nxt"
    using same_identity_patch [of cur ?p]
    by (auto simp: moved_def) (simp_all add: apply_patch_def drop_identity_def or_keep_def split: option.splits)
  ultimately show ?case
    using mem_invar_replace [OF 7(1) cur same_identity_patch]
    by (simp add: store_update_hit [OF cur] store_get_def [abs_def])
next
  case (8 st sid at)
  then show ?case
    by (auto simp: store_get_def store_touchActivity_def split: option.splits)
next
  case (9 st sid cur at)
  let ?p = "no_patch\<lparr>p_lastActivityAt := Some at\<rparr>"
  have cur: "map_of (bySessionId st) sid = Some cur" using 9(2) by (simp add: store_get_def)
  have nxt: "apply_patch cur (drop_identity ?p) = cur\<lparr>lastActivityAt := at\<rparr>"
    by (simp add: apply_patch_def drop_identity_def no_patch_def)
  show ?case
    using mem_invar_replace [OF 9(1) cur same_identity_patch [of cur ?p]] cur 9(3)
    by (simp add: store_touchActivity_def store_update_hit [OF cur] store_get_def [abs_def] nxt)
next
  case (10 st sid)
  then show ?case
    using mem_invar_delete by (simp add: store_get_def [abs_def]) (simp add: store_delete_def)
next
  case (11 st s limits st')
  then have cr: "store_create st s = Inr st'" and
    dec: "decideCapacity s limits (card (occupying_ids (map_of (bySessionId st))))
            (card (owner_ids (map_of (bySessionId st)) (ownerUserId s))) = Admitted"
    by (auto simp: createWithinLimits_eq Let_def split: if_splits sum.splits)
  have "map_of (bySessionId st') =
      (map_of (bySessionId st))(sessionId s \<mapsto> s\<lparr>shellUid := Some (nextShellUid st)\<rparr>)"
    using store_create_cases(1) [OF cr] unfolding store_create_cases(4) [OF cr]
    by (auto simp: map_add_def split: option.splits)
  then show ?case
    using dec store_create_cases(1) [OF cr] mem_invar_create [OF 11(1) cr]
    unfolding store_get_def [abs_def] by (auto simp: store_create_cases(4) [OF cr])
next
  case (12 st s limits r st')
  then show ?case
    by (auto simp: createWithinLimits_eq Let_def split: if_splits sum.splits)
next
  case (13 st s limits who m n)
  then show ?case
    by (simp add: createWithinLimits_eq store_get_def [abs_def])
next
  case (14 st s limits)
  have "assertInsertable st s = None"
  proof -
    have "find (\<lambda>(_, e). sandboxRef e = sandboxRef s) (bySessionId st) = None"
      using 14(1,5) by (auto simp: find_None_iff store_get_def mem_invar_def)
    with 14(4) show ?thesis by (simp add: assertInsertable_def store_get_def)
  qed
  with 14 show ?case
    by (simp add: createWithinLimits_eq store_create_def withShellUid_def store_get_def [abs_def])
qed

section \<open>Steps of a store\<close>

text \<open>Every way the rows of a store change, as one step.\<close>

inductive mem_step :: "InMemorySessionStore \<Rightarrow> InMemorySessionStore \<Rightarrow> bool" where
  transition: "store_transition st sid from to patch guard = (r, st') \<Longrightarrow> mem_step st st'"
| touch: "store_touchActivity st sid at = (r, st') \<Longrightarrow> mem_step st st'"
| update: "store_update st sid patch = (r, st') \<Longrightarrow> mem_step st st'"
| delete: "mem_step st (store_delete st sid)"
| admit: "createWithinLimits st s limits = (r, st') \<Longrightarrow> mem_step st st'"
| create: "store_create st s = Inr st' \<Longrightarrow> mem_step st st'"

lemma createWithinLimits_store:
  assumes "createWithinLimits st s limits = (r, st')"
  shows "st' = st \<or> store_create st s = Inr st'"
  using assms by (auto simp: createWithinLimits_def Let_def split: prod.splits if_splits sum.splits)

lemma store_update_store:
  assumes "store_update st sid patch = (r, st')"
  obtains "st' = st" "r = None" "store_get st sid = None"
    | cur where "store_get st sid = Some cur"
        "st' = st\<lparr>bySessionId := AList.update sid (apply_patch cur (drop_identity patch)) (bySessionId st)\<rparr>"
        "r = Some (apply_patch cur (drop_identity patch))"
  using assms by (cases "store_get st sid") (auto simp: store_update_def store_get_def Let_def)

lemma store_transition_update:
  assumes "store_transition st sid from to patch guard = (r, st')"
  shows "st' = st \<or> (\<exists>p. store_update st sid p = (r, st'))"
  using assms by (auto simp: store_transition_def split: option.splits if_splits)

lemma store_touch_update:
  assumes "store_touchActivity st sid at = (r, st')"
  shows "st' = st \<or> (\<exists>p. store_update st sid p = (r, st'))"
  using assms by (auto simp: store_touchActivity_def split: option.splits if_splits)

text \<open>So every step is one of three: a patched row, a deleted row, a new row.\<close>

lemma mem_step_cases:
  assumes "mem_step st st'"
  obtains (same) "st' = st"
    | (patched) sid patch r where "store_update st sid patch = (r, st')"
    | (deleted) sid where "st' = store_delete st sid"
    | (created) s where "store_create st s = Inr st'"
  using assms
proof cases
  case (transition sid "from" to patch guard r)
  then show thesis using store_transition_update that by blast
next
  case (touch sid at r)
  then show thesis using store_touch_update that by blast
next
  case (update sid patch r)
  then show thesis using that by blast
next
  case (delete sid)
  then show thesis using that by blast
next
  case (admit s limits r)
  then show thesis using createWithinLimits_store that by blast
next
  case (create s)
  then show thesis using that by blast
qed

lemma mem_step_invar:
  assumes "mem_step st st'" and "mem_invar st"
  shows "mem_invar st' \<and> nextShellUid st \<le> nextShellUid st'"
  using assms(1)
proof (cases rule: mem_step_cases)
  case same
  with assms(2) show ?thesis by simp
next
  case (patched sid patch r)
  then show ?thesis
  proof (cases rule: store_update_store)
    case 1
    with assms(2) show ?thesis by simp
  next
    case (2 cur)
    with mem_invar_replace [OF assms(2) _ same_identity_patch] show ?thesis
      by (simp add: store_get_def)
  qed
next
  case (deleted sid)
  with mem_invar_delete [OF assms(2)] show ?thesis by (simp add: store_delete_def)
next
  case (created s)
  with mem_invar_create [OF assms(2) created] store_create_cases(4) [OF created]
  show ?thesis by simp
qed

lemma mem_steps_invar:
  "mem_step\<^sup>*\<^sup>* st st' \<Longrightarrow> mem_invar st \<Longrightarrow> mem_invar st' \<and> nextShellUid st \<le> nextShellUid st'"
  by (induction rule: rtranclp_induct) (auto dest: mem_step_invar)

lemma mem_invar_new: "mem_invar (new_store None)"
  by (simp add: mem_invar_def new_store_def)

section \<open>Properties\<close>

definition sample_session :: "string \<Rightarrow> LabSession" where
  "sample_session sid = \<lparr>sessionId = sid, labId = ''K8S-001'', provider = Kubernetes,
     sandboxKind = Namespace, sandboxRef = ''lab-'' @ sid, namespace = ''lab-'' @ sid,
     serviceAccountName = ''student'', status = ACTIVE, environmentId = ''env'',
     createdAt = 0, lastActivityAt = 1000, statusChangedAt = 0, expiresAt = 7200000,
     endedAt = None, statusReason = None, ownerUserId = Some ''ann'', shellUid = None,
     idleTimeoutSeconds = 1200, idleWarningSeconds = 120\<rparr>"

definition sample_store :: InMemorySessionStore where
  "sample_store = \<lparr>bySessionId =
      [(''sess-1'', (sample_session ''sess-1'')\<lparr>shellUid := Some SHELL_UID_MIN\<rparr>)],
    nextShellUid = SHELL_UID_MIN + 1\<rparr>"

lemma sample_store_invar: "mem_invar sample_store"
  by (simp add: mem_invar_def sample_store_def sample_session_def session_simps)

text \<open>
  A claim has one winner. When a conditional write that leaves its source
  states succeeds, the row it returns is the row now stored, its status is the
  target, and the same claim made again by anyone, with any patch and any guard,
  is refused and changes nothing.
\<close>

theorem transition_one_winner:
  assumes "mem_invar st" and "to \<notin> set from"
    and "store_transition st sid from to patch guard = (Some row, st')"
  shows "store_get st' sid = Some row \<and> status row = to \<and>
         store_transition st' sid from to patch2 guard2 = (None, st')"
  using assms(1,3)
proof (cases rule: mem.transition_cases)
  case miss
  then show ?thesis by simp
next
  case (hit cur nxt)
  then have row: "store_get st' sid = Some row" "status row = to" by (auto simp: moved_def)
  have "store_transition st' sid from to patch2 guard2 = (None, st')"
    by (rule mem.transition_miss [OF hit(6)])
      (use row assms(2) in \<open>auto simp: transition_allowed_def\<close>)
  with row show ?thesis by simp
qed

theorem transition_one_winner_witness:
  "store_get (snd (store_transition sample_store ''sess-1'' [ACTIVE] RESETTING no_patch no_guard)) ''sess-1''
     = fst (store_transition sample_store ''sess-1'' [ACTIVE] RESETTING no_patch no_guard) \<and>
   store_transition (snd (store_transition sample_store ''sess-1'' [ACTIVE] RESETTING no_patch no_guard))
     ''sess-1'' [ACTIVE] RESETTING no_patch no_guard =
     (None, snd (store_transition sample_store ''sess-1'' [ACTIVE] RESETTING no_patch no_guard))"
proof -
  obtain row st' where w:
      "store_transition sample_store ''sess-1'' [ACTIVE] RESETTING no_patch no_guard = (Some row, st')"
    by (simp add: store_transition_def sample_store_def sample_session_def no_guard_def
        store_update_def Let_def)
  from transition_one_winner [OF sample_store_invar _ w] show ?thesis using w by simp
qed

text \<open>
  Identity is not state. Whatever patch a caller passes to \<open>update\<close>, with any
  identity field in it, the stored row keeps its session id, provider, sandbox
  kind, sandbox handle, namespace, owner and shell uid, and no other row changes.
\<close>

theorem update_keeps_identity:
  assumes "store_update st sid patch = (r, st')" and "store_get st a = Some row"
  shows "\<exists>row'. store_get st' a = Some row' \<and> same_identity row row' \<and> (a \<noteq> sid \<longrightarrow> row' = row)"
  using assms(1)
proof (cases rule: store_update_store)
  case 1
  with assms(2) show ?thesis by (auto simp: same_identity_def)
next
  case (2 cur)
  with assms(2) same_identity_patch [of cur patch] show ?thesis
    by (cases "a = sid") (auto simp: store_get_def same_identity_def)
qed

theorem update_keeps_identity_witness:
  "\<exists>row'. store_get (snd (store_update sample_store ''sess-1''
      (no_patch\<lparr>p_ownerUserId := Some ''bob'', p_sandboxRef := Some ''lab-other''\<rparr>))) ''sess-1'' = Some row' \<and>
    same_identity ((sample_session ''sess-1'')\<lparr>shellUid := Some SHELL_UID_MIN\<rparr>) row'"
proof -
  have "store_get sample_store ''sess-1'' = Some ((sample_session ''sess-1'')\<lparr>shellUid := Some SHELL_UID_MIN\<rparr>)"
    by (simp add: store_get_def sample_store_def)
  from update_keeps_identity [OF prod.collapse [symmetric] this] show ?thesis by blast
qed

text \<open>
  A shell uid is never handed out twice. Over any sequence of store
  operations, deletions included, the uid of a session admitted later is strictly
  greater than the uid of any session that was stored before, and every assigned
  uid lies in the platform's range.
\<close>

theorem shell_uid_never_reused:
  assumes "mem_invar st" and "store_get st a = Some s" and "shellUid s = Some u"
    and "mem_step\<^sup>*\<^sup>* st st1" and "store_create st1 t = Inr st2"
  shows "\<exists>u'. store_get st2 (sessionId t) = Some (t\<lparr>shellUid := Some u'\<rparr>) \<and>
              u < u' \<and> isValidShellUid (Some u')"
proof -
  have inv1: "mem_invar st1" "nextShellUid st \<le> nextShellUid st1"
    using mem_steps_invar [OF assms(4,1)] by auto
  from mem.uid_assigned [OF assms(1,2)] assms(3) have u: "u < nextShellUid st" by auto
  have new: "store_get st2 (sessionId t) = Some (t\<lparr>shellUid := Some (nextShellUid st1)\<rparr>)"
    using store_create_cases(1,4) [OF assms(5)] by (simp add: store_get_def map_add_def)
  have "SHELL_UID_MIN \<le> nextShellUid st1" using inv1(1) by (simp add: mem_invar_def)
  with store_create_cases(3) [OF assms(5)] have "isValidShellUid (Some (nextShellUid st1))"
    by (simp add: isValidShellUid_def)
  with new u inv1(2) show ?thesis by auto
qed

theorem shell_uid_never_reused_witness:
  "\<exists>st2. store_create (store_delete sample_store ''sess-1'') (sample_session ''sess-1'') = Inr st2 \<and>
     (\<exists>u'. store_get st2 ''sess-1'' = Some ((sample_session ''sess-1'')\<lparr>shellUid := Some u'\<rparr>) \<and>
           SHELL_UID_MIN < u' \<and> isValidShellUid (Some u'))"
proof -
  obtain st2 where c: "store_create (store_delete sample_store ''sess-1'') (sample_session ''sess-1'') = Inr st2"
    by (simp add: store_create_def store_delete_def assertInsertable_def sample_store_def
        withShellUid_def session_simps)
  have g: "store_get sample_store ''sess-1'' =
      Some ((sample_session ''sess-1'')\<lparr>shellUid := Some SHELL_UID_MIN\<rparr>)"
    by (simp add: store_get_def sample_store_def)
  have r: "mem_step\<^sup>*\<^sup>* sample_store (store_delete sample_store ''sess-1'')"
    by (intro r_into_rtranclp mem_step.delete)
  from shell_uid_never_reused [OF sample_store_invar g _ r c, of SHELL_UID_MIN]
  have "\<exists>u'. store_get st2 ''sess-1'' = Some ((sample_session ''sess-1'')\<lparr>shellUid := Some u'\<rparr>) \<and>
           SHELL_UID_MIN < u' \<and> isValidShellUid (Some u')"
    by (simp add: sample_session_def)
  with c show ?thesis by blast
qed

text \<open>
  The reaper's candidate scan. \<open>listExpirable\<close> returns, in the order of the
  store, exactly the sessions that hold a sandbox and are past their absolute
  deadline or idle beyond their own budget, by the very predicates \<open>isExpired\<close>
  and \<open>isIdle\<close> that the sweep decides with.
\<close>

theorem listExpirable_exact:
  "listExpirable st now =
     filter (\<lambda>s. occupiesCapacity (status s) \<and> (isExpired s now \<or> isIdle s now)) (store_list st)"
  unfolding listExpirable_def by (rule filter_cong) (auto simp: isExpired_def isIdle_def)

text \<open>
  One student's own live sessions: \<open>listOccupyingForOwner\<close> returns every
  session of that owner that holds a sandbox, each as often as it is stored and
  none of anyone else's (a session without an owner belongs to nobody), newest
  first.
\<close>

lemma collect_mine_filter:
  "collect_mine owner ss =
     filter (\<lambda>s. occupiesCapacity (status s) \<and> ownerUserId s = Some owner) ss"
  by (induction ss) auto

theorem listOccupyingForOwner_exact:
  "mset (listOccupyingForOwner st owner) =
     mset (filter (\<lambda>s. occupiesCapacity (status s) \<and> ownerUserId s = Some owner) (store_list st)) \<and>
   sorted_wrt (\<lambda>s t. createdAt t \<le> createdAt s) (listOccupyingForOwner st owner)"
proof -
  let ?xs = "listOccupyingForOwner st owner"
  have "sorted (map (\<lambda>s. - createdAt s) ?xs)"
    by (simp add: listOccupyingForOwner_def)
  then have "sorted_wrt (\<lambda>s t. createdAt t \<le> createdAt s) ?xs"
    by (simp add: sorted_wrt_map)
  then show ?thesis by (simp add: listOccupyingForOwner_def collect_mine_filter)
qed

end
