(* ===== verification/Postgres_Store.thy ===== *)
theory Postgres_Store
  imports Session_Store "HOL-Library.Multiset"
begin

text \<open>
  The durable session store: \<open>session/postgres-store.ts\<close>, over the table
  \<open>lab_sessions\<close> of \<open>services/progress/migrations\<close> (002, 003, 005 and 007).

  What is modelled of PostgreSQL is what the statements use of it: an \<open>UPDATE\<close>
  evaluates its condition and its right-hand sides on the row as it was and
  returns the updated rows; \<open>session_id\<close>, \<open>sandbox_ref\<close> and \<open>shell_uid\<close> are
  unique; the default of \<open>shell_uid\<close> takes the next value of a sequence that
  does not cycle and is not given back when the insert fails; a comparison with
  NULL selects nothing; \<open>owner_user_id\<close> is a UUID that references \<open>users\<close>, so a
  parameter that is no UUID raises before anything is read, a UUID is stored and
  compared in its canonical form, and a row whose owner is no user is refused after
  the unique constraints. The UUID input function and the ids of the table \<open>users\<close>,
  which this store never writes, are part of the state. Numbers and times are taken to
  fit their columns, and the check on the status names every status there is. A statement is atomic, and \<open>createWithinLimits\<close> is
  atomic because it runs in one transaction under the capacity lock.
\<close>

section \<open>The table\<close>

text \<open>
  A row holds the columns, named here by the field each maps to, and the
  revision. \<open>toSession\<close> drops an empty owner or reason, as the truthiness tests
  of the source do.
\<close>

record SessionRow =
  cols :: LabSession
  revision :: int

record PostgresSessionStore =
  lab_sessions :: "SessionRow list"
  shell_uid_seq :: int
  pg_uuid_in :: "string \<Rightarrow> string option"
  user_ids :: "string list"

text \<open>What a statement raises beside what the store itself reports.\<close>

datatype pg_store_error =
    Store_Error store_error
  | Owner_Not_Uuid
  | Owner_Not_User

definition truthy :: "string option \<Rightarrow> string option" where
  "truthy v = (if v = Some [] then None else v)"

definition toSession :: "SessionRow \<Rightarrow> LabSession" where
  "toSession row = (cols row)\<lparr>ownerUserId := truthy (ownerUserId (cols row)),
                              statusReason := truthy (statusReason (cols row))\<rparr>"

text \<open>\<open>assignments\<close> over the closed table \<open>PATCHABLE\<close>.\<close>

definition pg_assign :: "LabSessionPatch \<Rightarrow> LabSession \<Rightarrow> LabSession" where
  "pg_assign patch cur = cur\<lparr>
     status := or_keep (status cur) (p_status patch),
     environmentId := or_keep (environmentId cur) (p_environmentId patch),
     lastActivityAt := or_keep (lastActivityAt cur) (p_lastActivityAt patch),
     statusChangedAt := or_keep (statusChangedAt cur) (p_statusChangedAt patch),
     expiresAt := or_keep (expiresAt cur) (p_expiresAt patch),
     endedAt := or_keep_opt (endedAt cur) (p_endedAt patch),
     statusReason := or_keep_opt (statusReason cur) (p_statusReason patch),
     idleTimeoutSeconds := or_keep (idleTimeoutSeconds cur) (p_idleTimeoutSeconds patch),
     idleWarningSeconds := or_keep (idleWarningSeconds cur) (p_idleWarningSeconds patch),
     serviceAccountName := or_keep (serviceAccountName cur) (p_serviceAccountName patch)\<rparr>"

definition has_assignments :: "LabSessionPatch \<Rightarrow> bool" where
  "has_assignments patch \<longleftrightarrow>
     p_status patch \<noteq> None \<or> p_environmentId patch \<noteq> None \<or> p_lastActivityAt patch \<noteq> None \<or>
     p_statusChangedAt patch \<noteq> None \<or> p_expiresAt patch \<noteq> None \<or> p_endedAt patch \<noteq> None \<or>
     p_statusReason patch \<noteq> None \<or> p_idleTimeoutSeconds patch \<noteq> None \<or>
     p_idleWarningSeconds patch \<noteq> None \<or> p_serviceAccountName patch \<noteq> None"

text \<open>\<open>UPDATE ... SET f, revision = revision + 1 WHERE P RETURNING ...\<close>\<close>

definition sql_update ::
  "(LabSession \<Rightarrow> bool) \<Rightarrow> (LabSession \<Rightarrow> LabSession) \<Rightarrow> SessionRow list \<Rightarrow>
   SessionRow list \<times> SessionRow list" where
  "sql_update P f table =
     (let g = (\<lambda>r. r\<lparr>cols := f (cols r), revision := revision r + 1\<rparr>)
      in (map g (filter (P \<circ> cols) table), map (\<lambda>r. if P (cols r) then g r else r) table))"

definition first_session :: "SessionRow list \<Rightarrow> LabSession option" where
  "first_session rs = (case rs of [] \<Rightarrow> None | r # _ \<Rightarrow> Some (toSession r))"

section \<open>Operations\<close>

definition pg_get :: "PostgresSessionStore \<Rightarrow> string \<Rightarrow> LabSession option" where
  "pg_get db sid = first_session (filter (\<lambda>r. sessionId (cols r) = sid) (lab_sessions db))"

definition pg_update ::
  "PostgresSessionStore \<Rightarrow> string \<Rightarrow> LabSessionPatch \<Rightarrow>
   LabSession option \<times> PostgresSessionStore" where
  "pg_update db sid patch =
     (if \<not> has_assignments patch then (pg_get db sid, db)
      else (case sql_update (\<lambda>c. sessionId c = sid) (pg_assign patch) (lab_sessions db) of
              (rs, table) \<Rightarrow> (first_session rs, db\<lparr>lab_sessions := table\<rparr>)))"

definition pg_transition ::
  "PostgresSessionStore \<Rightarrow> string \<Rightarrow> session_status list \<Rightarrow> session_status \<Rightarrow>
   LabSessionPatch \<Rightarrow> TransitionGuard \<Rightarrow> LabSession option \<times> PostgresSessionStore" where
  "pg_transition db sid from to patch guard =
     (let rest = patch\<lparr>p_statusChangedAt := None, p_status := Some to\<rparr>;
          set_row = (\<lambda>c. (pg_assign rest c)\<lparr>statusChangedAt :=
             (case p_statusChangedAt patch of
                None \<Rightarrow> statusChangedAt c
              | Some at \<Rightarrow> if status c = to then statusChangedAt c else at)\<rparr>);
          where_row = (\<lambda>c. sessionId c = sid \<and> status c \<in> set from \<and>
             (case g_statusChangedAt guard of None \<Rightarrow> True | Some t \<Rightarrow> statusChangedAt c = t) \<and>
             (case g_lastActivityAt guard of None \<Rightarrow> True | Some t \<Rightarrow> lastActivityAt c = t))
      in case sql_update where_row set_row (lab_sessions db) of
           (rs, table) \<Rightarrow> (first_session rs, db\<lparr>lab_sessions := table\<rparr>))"

definition pg_touchActivity ::
  "PostgresSessionStore \<Rightarrow> string \<Rightarrow> int \<Rightarrow> LabSession option \<times> PostgresSessionStore" where
  "pg_touchActivity db sid at =
     (case sql_update (\<lambda>c. sessionId c = sid \<and> status c \<in> set ACTIVITY_STATUSES)
             (\<lambda>c. c\<lparr>lastActivityAt := at\<rparr>) (lab_sessions db) of
        (rs, table) \<Rightarrow> (first_session rs, db\<lparr>lab_sessions := table\<rparr>))"

definition pg_delete :: "PostgresSessionStore \<Rightarrow> string \<Rightarrow> PostgresSessionStore" where
  "pg_delete db sid = db\<lparr>lab_sessions := filter (\<lambda>r. sessionId (cols r) \<noteq> sid) (lab_sessions db)\<rparr>"

definition pg_list :: "PostgresSessionStore \<Rightarrow> LabSession list" where
  "pg_list db = map toSession (sort_key (createdAt \<circ> cols) (lab_sessions db))"

definition pg_listOccupying :: "PostgresSessionStore \<Rightarrow> LabSession list" where
  "pg_listOccupying db = map toSession (sort_key (createdAt \<circ> cols)
     (filter (\<lambda>r. status (cols r) \<in> set OCCUPYING_STATUSES) (lab_sessions db)))"

definition pg_listOccupyingForOwner ::
  "PostgresSessionStore \<Rightarrow> string \<Rightarrow> pg_store_error + LabSession list" where
  "pg_listOccupyingForOwner db owner = (case pg_uuid_in db owner of
       None \<Rightarrow> Inl Owner_Not_Uuid
     | Some u \<Rightarrow> Inr (map toSession (sort_key (\<lambda>r. - createdAt (cols r))
         (filter (\<lambda>r. status (cols r) \<in> set OCCUPYING_STATUSES \<and> ownerUserId (cols r) = Some u)
            (lab_sessions db)))))"

definition pg_listExpirable :: "PostgresSessionStore \<Rightarrow> int \<Rightarrow> LabSession list" where
  "pg_listExpirable db now = map toSession (sort_key (expiresAt \<circ> cols)
     (filter (\<lambda>r. status (cols r) \<in> set OCCUPYING_STATUSES \<and>
                (expiresAt (cols r) \<le> now \<or>
                 lastActivityAt (cols r) + idleTimeoutSeconds (cols r) * 1000 \<le> now))
        (lab_sessions db)))"

definition pg_countOccupying :: "PostgresSessionStore \<Rightarrow> nat" where
  "pg_countOccupying db =
     length (filter (\<lambda>r. status (cols r) \<in> set OCCUPYING_STATUSES) (lab_sessions db))"

definition pg_findBySandboxRef :: "PostgresSessionStore \<Rightarrow> string \<Rightarrow> LabSession option" where
  "pg_findBySandboxRef db ref =
     first_session (filter (\<lambda>r. sandboxRef (cols r) = ref) (lab_sessions db))"

definition pg_findByNamespace :: "PostgresSessionStore \<Rightarrow> string \<Rightarrow> LabSession option" where
  "pg_findByNamespace db ns = pg_findBySandboxRef db ns"

text \<open>The owner parameter, \<open>session.ownerUserId ?? null\<close>, as a value of the column.\<close>

definition owner_param :: "PostgresSessionStore \<Rightarrow> string option \<Rightarrow> pg_store_error + string option" where
  "owner_param db owner = (case owner of
       None \<Rightarrow> Inr None
     | Some o' \<Rightarrow> (case pg_uuid_in db o' of None \<Rightarrow> Inl Owner_Not_Uuid | Some u \<Rightarrow> Inr (Some u)))"

text \<open>
  \<open>insertSession\<close>: the sequence value is taken first and kept even when a
  constraint then refuses the row. A unique violation is reported as an existing
  session; any other error is thrown as it is.
\<close>

definition pg_insertSession ::
  "PostgresSessionStore \<Rightarrow> LabSession \<Rightarrow> pg_store_error option \<times> PostgresSessionStore" where
  "pg_insertSession db session = (case owner_param db (ownerUserId session) of
       Inl e \<Rightarrow> (Some e, db)
     | Inr owner \<Rightarrow>
         if SHELL_UID_MAX < shell_uid_seq db then (Some (Store_Error ShellUidExhaustedError), db)
         else
           let uid = shell_uid_seq db;
               db' = db\<lparr>shell_uid_seq := uid + 1\<rparr>;
               row = \<lparr>cols = session\<lparr>shellUid := Some uid, ownerUserId := owner\<rparr>, revision = 1\<rparr>
           in if list_ex (\<lambda>r. sessionId (cols r) = sessionId session \<or>
                              sandboxRef (cols r) = sandboxRef session \<or>
                              shellUid (cols r) = Some uid) (lab_sessions db)
              then (Some (Store_Error (SessionExists (sessionId session))), db')
              else if owner \<notin> insert None (Some ` set (user_ids db))
              then (Some Owner_Not_User, db')
              else (None, db'\<lparr>lab_sessions := lab_sessions db @ [row]\<rparr>))"

definition pg_createWithinLimits ::
  "PostgresSessionStore \<Rightarrow> LabSession \<Rightarrow> CapacityLimits \<Rightarrow>
   (pg_store_error + CapacityDecision) \<times> PostgresSessionStore" where
  "pg_createWithinLimits db session limits = (case owner_param db (ownerUserId session) of
       Inl e \<Rightarrow> (Inl e, db)
     | Inr owner \<Rightarrow>
         let occ = filter (\<lambda>r. status (cols r) \<in> set OCCUPYING_STATUSES) (lab_sessions db);
             mine = filter (\<lambda>r. owner \<noteq> None \<and> ownerUserId (cols r) = owner) occ;
             decision = decideCapacity session limits (length occ) (length mine)
         in if decision \<noteq> Admitted then (Inr decision, db)
            else (case pg_insertSession db session of
                    (Some e, db') \<Rightarrow> (Inl e, db')
                  | (None, db') \<Rightarrow> (Inr decision, db')))"

section \<open>The contract\<close>

definition pg_invar :: "PostgresSessionStore \<Rightarrow> bool" where
  "pg_invar db \<longleftrightarrow>
     distinct (map (sessionId \<circ> cols) (lab_sessions db)) \<and>
     distinct (map (sandboxRef \<circ> cols) (lab_sessions db)) \<and>
     distinct (map (shellUid \<circ> cols) (lab_sessions db)) \<and>
     (\<forall>r \<in> set (lab_sessions db). \<exists>u. shellUid (cols r) = Some u \<and>
         SHELL_UID_MIN \<le> u \<and> u \<le> SHELL_UID_MAX \<and> u < shell_uid_seq db) \<and>
     SHELL_UID_MIN \<le> shell_uid_seq db"

text \<open>A session this store can take: its owner, if any, is a user, named by the canonical id.\<close>

definition owner_known :: "PostgresSessionStore \<Rightarrow> string option \<Rightarrow> bool" where
  "owner_known db owner \<longleftrightarrow> (case owner of None \<Rightarrow> True
     | Some u \<Rightarrow> pg_uuid_in db u = Some u \<and> u \<in> set (user_ids db))"

definition pg_new_ok :: "PostgresSessionStore \<Rightarrow> LabSession \<Rightarrow> bool" where
  "pg_new_ok db s \<longleftrightarrow> wf_new s \<and> owner_known db (ownerUserId s)"

lemma owner_param_known: "owner_known db owner \<Longrightarrow> owner_param db owner = Inr owner"
  by (auto simp: owner_known_def owner_param_def split: option.splits)

lemma owner_known_user: "owner_known db owner \<Longrightarrow> owner \<in> insert None (Some ` set (user_ids db))"
  by (auto simp: owner_known_def split: option.splits)

lemma toSession_simps [simp]:
  "sessionId (toSession r) = sessionId (cols r)" "status (toSession r) = status (cols r)"
  "sandboxRef (toSession r) = sandboxRef (cols r)" "shellUid (toSession r) = shellUid (cols r)"
  "statusChangedAt (toSession r) = statusChangedAt (cols r)"
  "lastActivityAt (toSession r) = lastActivityAt (cols r)"
  "ownerUserId (toSession r) = truthy (ownerUserId (cols r))"
  by (simp_all add: toSession_def)

lemma pg_get_Some:
  assumes "pg_get db sid = Some s"
  obtains r where "r \<in> set (lab_sessions db)" "sessionId (cols r) = sid" "s = toSession r"
proof (cases "filter (\<lambda>r. sessionId (cols r) = sid) (lab_sessions db)")
  case Nil
  with assms show thesis by (simp add: pg_get_def first_session_def)
next
  case (Cons r rs)
  then have "r \<in> set (filter (\<lambda>r. sessionId (cols r) = sid) (lab_sessions db))" by simp
  then have r: "r \<in> set (lab_sessions db)" "sessionId (cols r) = sid" by simp_all
  from Cons assms have "s = toSession r" by (simp add: pg_get_def first_session_def)
  with r that show thesis by blast
qed

lemma filter_unique:
  assumes "distinct (map f xs)" and "x \<in> set xs"
  shows "filter (\<lambda>y. f y = f x) xs = [x]"
  using assms by (induction xs) (auto simp: filter_empty_conv image_iff)

lemma filter_conj_unique:
  assumes "distinct (map f xs)" and "x \<in> set xs"
  shows "filter (\<lambda>y. f y = f x \<and> Q y) xs = (if Q x then [x] else [])"
proof -
  have "filter (\<lambda>y. f y = f x \<and> Q y) xs = filter Q (filter (\<lambda>y. f y = f x) xs)"
    by (auto intro: filter_cong)
  then show ?thesis using filter_unique [OF assms] by simp
qed

lemma pg_get_row:
  assumes "pg_invar db" and "r \<in> set (lab_sessions db)"
  shows "pg_get db (sessionId (cols r)) = Some (toSession r)"
  using filter_unique [of "sessionId \<circ> cols" "lab_sessions db" r] assms
  by (simp add: pg_get_def first_session_def pg_invar_def)

lemma pg_get_None:
  "pg_get db sid = None \<longleftrightarrow> (\<forall>r \<in> set (lab_sessions db). sessionId (cols r) \<noteq> sid)"
  by (auto simp: pg_get_def first_session_def filter_empty_conv filter_eq_Cons_iff split: list.splits)

lemma filter_map_elsewhere:
  "\<forall>x \<in> set xs. h x = x \<or> \<not> Q x \<and> \<not> Q (h x) \<Longrightarrow> filter Q (map h xs) = filter Q xs"
  by (induction xs) auto

lemma sql_update_miss:
  assumes "\<forall>r \<in> set table. \<not> P (cols r)"
  shows "sql_update P f table = ([], table)"
  using assms by (auto simp: sql_update_def filter_empty_conv intro: map_idI)

text \<open>An update of the one row of a session: what it returns and what is read afterwards.\<close>

lemma sql_update_one:
  assumes inv: "pg_invar db" and r: "r \<in> set (lab_sessions db)" and P: "P (cols r)"
    and key: "\<And>c. P c \<Longrightarrow> sessionId c = sessionId (cols r)"
    and keep: "\<And>c. sessionId (f c) = sessionId c" "\<And>c. sandboxRef (f c) = sandboxRef c"
      "\<And>c. shellUid (f c) = shellUid c"
    and upd: "sql_update P f (lab_sessions db) = (rs, table)"
  shows "first_session rs = Some (toSession (r\<lparr>cols := f (cols r)\<rparr>))"
    and "pg_get (db\<lparr>lab_sessions := table\<rparr>) =
           (pg_get db)(sessionId (cols r) \<mapsto> toSession (r\<lparr>cols := f (cols r)\<rparr>))"
    and "pg_invar (db\<lparr>lab_sessions := table\<rparr>)"
proof -
  let ?g = "\<lambda>x. x\<lparr>cols := f (cols x), revision := revision x + 1\<rparr>"
  let ?h = "\<lambda>x. if P (cols x) then ?g x else x"
  have ts: "toSession (?g x) = toSession (x\<lparr>cols := f (cols x)\<rparr>)" for x
    by (simp add: toSession_def)
  have dist: "distinct (map (sessionId \<circ> cols) (lab_sessions db))"
    using inv by (simp add: pg_invar_def)
  have rs: "rs = map ?g (filter (P \<circ> cols) (lab_sessions db))"
    and table: "table = map ?h (lab_sessions db)"
    using upd by (auto simp: sql_update_def Let_def)
  have "filter (P \<circ> cols) (lab_sessions db) =
        filter (\<lambda>x. (sessionId \<circ> cols) x = (sessionId \<circ> cols) r \<and> P (cols x)) (lab_sessions db)"
    using key by (auto intro: filter_cong)
  then have "filter (P \<circ> cols) (lab_sessions db) = [r]"
    using filter_conj_unique [OF dist r, of "\<lambda>x. P (cols x)"] P by simp
  with rs ts show "first_session rs = Some (toSession (r\<lparr>cols := f (cols r)\<rparr>))"
    by (simp add: first_session_def)
  have maps: "map (sessionId \<circ> cols) table = map (sessionId \<circ> cols) (lab_sessions db)"
    "map (sandboxRef \<circ> cols) table = map (sandboxRef \<circ> cols) (lab_sessions db)"
    "map (shellUid \<circ> cols) table = map (shellUid \<circ> cols) (lab_sessions db)"
    using keep by (simp_all add: table)
  have uids: "(shellUid \<circ> cols) ` set table = (shellUid \<circ> cols) ` set (lab_sessions db)"
    using maps(3) by (metis list.set_map)
  have "\<forall>x \<in> set table. \<exists>u. shellUid (cols x) = Some u \<and>
         SHELL_UID_MIN \<le> u \<and> u \<le> SHELL_UID_MAX \<and> u < shell_uid_seq db"
  proof
    fix x assume "x \<in> set table"
    then obtain y where y: "y \<in> set (lab_sessions db)" "shellUid (cols y) = shellUid (cols x)"
      using uids by (metis comp_apply image_iff)
    from inv y(1) show "\<exists>u. shellUid (cols x) = Some u \<and>
         SHELL_UID_MIN \<le> u \<and> u \<le> SHELL_UID_MAX \<and> u < shell_uid_seq db"
      unfolding y(2) [symmetric] pg_invar_def by blast
  qed
  with inv maps show inv': "pg_invar (db\<lparr>lab_sessions := table\<rparr>)"
    by (simp add: pg_invar_def)
  show "pg_get (db\<lparr>lab_sessions := table\<rparr>) =
           (pg_get db)(sessionId (cols r) \<mapsto> toSession (r\<lparr>cols := f (cols r)\<rparr>))"
  proof
    fix x
    show "pg_get (db\<lparr>lab_sessions := table\<rparr>) x =
            ((pg_get db)(sessionId (cols r) \<mapsto> toSession (r\<lparr>cols := f (cols r)\<rparr>))) x"
    proof (cases "x = sessionId (cols r)")
      case True
      have "?g r \<in> set table" using r P by (force simp: table)
      from pg_get_row [OF inv', of "?g r"] this True keep ts show ?thesis by simp
    next
      case False
      then have "filter (\<lambda>y. sessionId (cols y) = x) table =
                 filter (\<lambda>y. sessionId (cols y) = x) (lab_sessions db)"
        unfolding table using key keep by (intro filter_map_elsewhere) auto
      with False show ?thesis by (simp add: pg_get_def)
    qed
  qed
qed

lemma truthy_idem: "v \<noteq> Some [] \<Longrightarrow> truthy v = v"
  by (simp add: truthy_def)

lemma pg_occupying_card:
  assumes "pg_invar db"
  shows "card (occupying_ids (pg_get db)) =
     length (filter (\<lambda>r. status (cols r) \<in> set OCCUPYING_STATUSES) (lab_sessions db))"
proof -
  let ?occ = "filter (\<lambda>r. status (cols r) \<in> set OCCUPYING_STATUSES) (lab_sessions db)"
  have "occupying_ids (pg_get db) = set (map (sessionId \<circ> cols) ?occ)"
    using pg_get_row [OF assms]
    by (force simp: occupying_ids_def occupiesCapacity_def elim: pg_get_Some)
  moreover have "distinct (map (sessionId \<circ> cols) ?occ)"
    using assms by (simp add: pg_invar_def distinct_map_filter)
  ultimately show ?thesis by (metis distinct_card length_map)
qed

lemma pg_owner_card:
  assumes "pg_invar db" and "ow \<noteq> Some []"
  shows "card (owner_ids (pg_get db) ow) =
     length (filter (\<lambda>r. ow \<noteq> None \<and> ownerUserId (cols r) = ow)
       (filter (\<lambda>r. status (cols r) \<in> set OCCUPYING_STATUSES) (lab_sessions db)))"
proof -
  let ?P = "\<lambda>r. status (cols r) \<in> set OCCUPYING_STATUSES \<and> ow \<noteq> None \<and> ownerUserId (cols r) = ow"
  have own: "ow \<noteq> None \<Longrightarrow> truthy (ownerUserId (cols r)) = ow \<longleftrightarrow> ownerUserId (cols r) = ow" for r
    using assms(2) by (auto simp: truthy_def)
  have eq: "sid \<in> owner_ids (pg_get db) ow \<longleftrightarrow>
      sid \<in> set (map (sessionId \<circ> cols) (filter ?P (lab_sessions db)))" for sid
  proof
    assume "sid \<in> owner_ids (pg_get db) ow"
    then obtain s where s: "pg_get db sid = Some s" "status s \<in> set OCCUPYING_STATUSES"
        "ownerUserId s = ow" "ow \<noteq> None"
      by (auto simp: owner_ids_def occupiesCapacity_def)
    from s(1) obtain r where "r \<in> set (lab_sessions db)" "sessionId (cols r) = sid" "s = toSession r"
      by (rule pg_get_Some)
    with s own show "sid \<in> set (map (sessionId \<circ> cols) (filter ?P (lab_sessions db)))" by auto
  next
    assume "sid \<in> set (map (sessionId \<circ> cols) (filter ?P (lab_sessions db)))"
    then obtain r where "r \<in> set (lab_sessions db)" "?P r" "sid = sessionId (cols r)" by auto
    with own pg_get_row [OF assms(1)] show "sid \<in> owner_ids (pg_get db) ow"
      using assms(2) by (auto simp: owner_ids_def occupiesCapacity_def truthy_def)
  qed
  have "distinct (map (sessionId \<circ> cols) (filter ?P (lab_sessions db)))"
    using assms by (simp add: pg_invar_def distinct_map_filter)
  then have "length (filter ?P (lab_sessions db)) =
      card (set (map (sessionId \<circ> cols) (filter ?P (lab_sessions db))))"
    by (simp only: distinct_card length_map)
  moreover have "owner_ids (pg_get db) ow = set (map (sessionId \<circ> cols) (filter ?P (lab_sessions db)))"
    using eq by blast
  ultimately show ?thesis by (simp only: filter_filter)
qed

lemma pg_createWithinLimits_eq:
  assumes "pg_invar db" and "pg_new_ok db session"
  shows "pg_createWithinLimits db session limits =
    (let decision = decideCapacity session limits (card (occupying_ids (pg_get db)))
                      (card (owner_ids (pg_get db) (ownerUserId session)))
     in if decision \<noteq> Admitted then (Inr decision, db)
        else (case pg_insertSession db session of
                 (Some e, db') \<Rightarrow> (Inl e, db') | (None, db') \<Rightarrow> (Inr decision, db')))"
proof -
  have own: "ownerUserId session \<noteq> Some []"
    and par: "owner_param db (ownerUserId session) = Inr (ownerUserId session)"
    using assms(2) owner_param_known by (simp_all add: pg_new_ok_def wf_new_def)
  from pg_owner_card [OF assms(1) own] show ?thesis
    unfolding pg_createWithinLimits_def Let_def pg_occupying_card [OF assms(1)] par
    by (simp only: sum.case)
qed

lemma pg_insert_cases:
  assumes "pg_insertSession db session = (r, db')"
  obtains (no) e where "r = Some e" "lab_sessions db' = lab_sessions db"
        "shell_uid_seq db \<le> shell_uid_seq db'"
    | (yes) "r = None" "shell_uid_seq db \<le> SHELL_UID_MAX"
        "\<forall>x \<in> set (lab_sessions db). sessionId (cols x) \<noteq> sessionId session \<and>
            sandboxRef (cols x) \<noteq> sandboxRef session \<and>
            shellUid (cols x) \<noteq> Some (shell_uid_seq db)"
        "owner_known db (ownerUserId session) \<Longrightarrow> lab_sessions db' = lab_sessions db @
           [\<lparr>cols = session\<lparr>shellUid := Some (shell_uid_seq db)\<rparr>, revision = 1\<rparr>]"
        "shell_uid_seq db' = shell_uid_seq db + 1"
proof (cases r)
  case None
  with assms obtain owner where "owner_param db (ownerUserId session) = Inr owner" by (auto simp: pg_insertSession_def split: sum.splits)
  note run = assms [unfolded None pg_insertSession_def this sum.case Let_def]
  have "owner = ownerUserId session" if "owner_known db (ownerUserId session)"
    using owner_param_known [OF that] \<open>owner_param db (ownerUserId session) = Inr owner\<close> by simp
  moreover have "lab_sessions db' = lab_sessions db @
      [\<lparr>cols = session\<lparr>shellUid := Some (shell_uid_seq db), ownerUserId := owner\<rparr>, revision = 1\<rparr>]"
    "shell_uid_seq db' = shell_uid_seq db + 1" "shell_uid_seq db \<le> SHELL_UID_MAX"
    "\<forall>x \<in> set (lab_sessions db). sessionId (cols x) \<noteq> sessionId session \<and>
        sandboxRef (cols x) \<noteq> sandboxRef session \<and> shellUid (cols x) \<noteq> Some (shell_uid_seq db)"
    using run by (auto simp: list_ex_iff split: if_splits)
  ultimately show thesis using yes None by simp
next
  case (Some e)
  with assms no show thesis by (auto simp: pg_insertSession_def Let_def split: if_splits sum.splits)
qed

lemma pg_invar_seq:
  assumes "pg_invar db" and "lab_sessions db' = lab_sessions db"
    and "shell_uid_seq db \<le> shell_uid_seq db'"
  shows "pg_invar db'" and "pg_get db' = pg_get db"
  using assms by (force simp: pg_invar_def, simp add: pg_get_def fun_eq_iff)

lemma pg_insert_invar:
  assumes "pg_invar db" and "pg_insertSession db session = (None, db')" and "pg_new_ok db session"
  shows "pg_invar db'"
    and "pg_get db' = (pg_get db)(sessionId session \<mapsto>
           session\<lparr>shellUid := Some (shell_uid_seq db)\<rparr>)"
    and "pg_get db (sessionId session) = None"
proof -
  let ?row = "\<lparr>cols = session\<lparr>shellUid := Some (shell_uid_seq db)\<rparr>, revision = 1\<rparr>"
  from assms(2) have y: "shell_uid_seq db \<le> SHELL_UID_MAX"
      "\<forall>x \<in> set (lab_sessions db). sessionId (cols x) \<noteq> sessionId session \<and>
            sandboxRef (cols x) \<noteq> sandboxRef session \<and>
            shellUid (cols x) \<noteq> Some (shell_uid_seq db)"
      "lab_sessions db' = lab_sessions db @ [?row]" "shell_uid_seq db' = shell_uid_seq db + 1"
    using assms(3) by (auto simp: pg_new_ok_def elim!: pg_insert_cases)
  show "pg_invar db'"
    using assms(1) y unfolding pg_invar_def by force
  show none: "pg_get db (sessionId session) = None"
    using y(2) by (simp add: pg_get_None)
  have row: "toSession ?row = session\<lparr>shellUid := Some (shell_uid_seq db)\<rparr>"
    using assms(3) by (simp add: toSession_def pg_new_ok_def wf_new_def truthy_idem)
  show "pg_get db' = (pg_get db)(sessionId session \<mapsto>
           session\<lparr>shellUid := Some (shell_uid_seq db)\<rparr>)"
  proof
    fix x
    show "pg_get db' x = ((pg_get db)(sessionId session \<mapsto>
             session\<lparr>shellUid := Some (shell_uid_seq db)\<rparr>)) x"
    proof (cases "x = sessionId session")
      case True
      have "filter (\<lambda>r. sessionId (cols r) = x) (lab_sessions db) = []"
        using y(2) True by (simp add: filter_empty_conv)
      with True show ?thesis
        unfolding pg_get_def y(3) by (simp add: first_session_def row)
    next
      case False
      then show ?thesis unfolding pg_get_def y(3) by simp
    qed
  qed
qed

definition pg_where ::
  "string \<Rightarrow> session_status list \<Rightarrow> TransitionGuard \<Rightarrow> LabSession \<Rightarrow> bool" where
  "pg_where sid from guard c \<longleftrightarrow> sessionId c = sid \<and> status c \<in> set from \<and>
     (case g_statusChangedAt guard of None \<Rightarrow> True | Some t \<Rightarrow> statusChangedAt c = t) \<and>
     (case g_lastActivityAt guard of None \<Rightarrow> True | Some t \<Rightarrow> lastActivityAt c = t)"

definition pg_set :: "session_status \<Rightarrow> LabSessionPatch \<Rightarrow> LabSession \<Rightarrow> LabSession" where
  "pg_set to patch c =
     (pg_assign (patch\<lparr>p_statusChangedAt := None, p_status := Some to\<rparr>) c)\<lparr>statusChangedAt :=
        (case p_statusChangedAt patch of None \<Rightarrow> statusChangedAt c
         | Some at \<Rightarrow> if status c = to then statusChangedAt c else at)\<rparr>"

lemma pg_transition_eq:
  "pg_transition db sid from to patch guard =
     (case sql_update (pg_where sid from guard) (pg_set to patch) (lab_sessions db) of
        (rs, table) \<Rightarrow> (first_session rs, db\<lparr>lab_sessions := table\<rparr>))"
  unfolding pg_transition_def pg_where_def [abs_def] pg_set_def [abs_def] Let_def ..

lemma pg_where_allowed:
  "pg_where sid from guard (cols r) \<longleftrightarrow>
     sessionId (cols r) = sid \<and> transition_allowed (toSession r) from guard"
  by (auto simp: pg_where_def transition_allowed_def split: option.splits)

lemma pg_set_keeps [simp]:
  "sessionId (pg_set to patch c) = sessionId c" "sandboxRef (pg_set to patch c) = sandboxRef c"
  "shellUid (pg_set to patch c) = shellUid c"
  by (simp_all add: pg_set_def pg_assign_def)

lemma pg_set_moved:
  "moved (toSession r) to patch (toSession (r\<lparr>cols := pg_set to patch (cols r)\<rparr>))"
  by (auto simp: moved_def same_identity_def pg_set_def pg_assign_def toSession_def or_keep_def
      split: option.splits)

lemma pg_transition_row:
  assumes "pg_invar db" and "r \<in> set (lab_sessions db)" and "sid = sessionId (cols r)"
    and "transition_allowed (toSession r) from guard"
  obtains db' where
    "pg_transition db sid from to patch guard =
       (Some (toSession (r\<lparr>cols := pg_set to patch (cols r)\<rparr>)), db')"
    "pg_get db' = (pg_get db)(sid \<mapsto> toSession (r\<lparr>cols := pg_set to patch (cols r)\<rparr>))"
    "pg_invar db'" "shell_uid_seq db' = shell_uid_seq db"
proof -
  obtain rs table where upd:
      "sql_update (pg_where sid from guard) (pg_set to patch) (lab_sessions db) = (rs, table)"
    by fastforce
  have P: "pg_where sid from guard (cols r)"
    using assms(3,4) by (simp add: pg_where_allowed)
  have "pg_where sid from guard c \<Longrightarrow> sessionId c = sessionId (cols r)" for c
    using assms(3) by (simp add: pg_where_def)
  note one = sql_update_one [OF assms(1,2) P this pg_set_keeps upd]
  show thesis
    by (rule that [of "db\<lparr>lab_sessions := table\<rparr>"])
      (use one assms(3) upd in \<open>simp_all add: pg_transition_eq\<close>)
qed

interpretation pg: session_store pg_get pg_invar shell_uid_seq
  pg_transition pg_touchActivity pg_delete pg_createWithinLimits pg_new_ok
proof (unfold_locales, goal_cases)
  case (1 st)
  have "dom (pg_get st) \<subseteq> (sessionId \<circ> cols) ` set (lab_sessions st)"
    by (auto simp: dom_def elim!: pg_get_Some)
  then show ?case by (rule finite_subset) simp
next
  case (2 st sid s)
  then show ?case by (auto elim: pg_get_Some)
next
  case (3 st a s b t)
  from 3(1) have "inj_on (sandboxRef \<circ> cols) (set (lab_sessions st))"
    by (simp add: pg_invar_def distinct_map)
  with 3 show ?case by (elim pg_get_Some) (metis comp_apply inj_onD toSession_simps(3))
next
  case (4 st sid s)
  then show ?case by (auto simp: pg_invar_def elim!: pg_get_Some)
next
  case (5 st a s b t)
  from 5(1) have "inj_on (shellUid \<circ> cols) (set (lab_sessions st))"
    by (simp add: pg_invar_def distinct_map)
  with 5 show ?case by (elim pg_get_Some) (metis comp_apply inj_onD toSession_simps(4))
next
  case (6 st sid "from" guard to patch)
  then have "\<forall>r \<in> set (lab_sessions st). \<not> pg_where sid from guard (cols r)"
    by (auto simp: pg_where_allowed dest: pg_get_row)
  then show ?case by (simp add: pg_transition_eq sql_update_miss first_session_def)
next
  case (7 st sid cur "from" guard to patch)
  from 7(2) obtain r where r: "r \<in> set (lab_sessions st)" "sessionId (cols r) = sid"
      "cur = toSession r"
    by (rule pg_get_Some)
  from 7(3) r(3) have al: "transition_allowed (toSession r) from guard" by simp
  show ?case
    by (rule pg_transition_row [OF 7(1) r(1) r(2) [symmetric] al, of to patch])
      (use r(3) pg_set_moved in blast)
next
  case (8 st sid at)
  then have "\<forall>r \<in> set (lab_sessions st).
      \<not> (sessionId (cols r) = sid \<and> status (cols r) \<in> set ACTIVITY_STATUSES)"
    by (auto simp: acceptsActivity_def dest: pg_get_row)
  then show ?case by (simp add: pg_touchActivity_def sql_update_miss first_session_def)
next
  case (9 st sid cur at)
  from 9(2) obtain r where r: "r \<in> set (lab_sessions st)" "sessionId (cols r) = sid"
      "cur = toSession r"
    by (rule pg_get_Some)
  let ?P = "\<lambda>c. sessionId c = sid \<and> status c \<in> set ACTIVITY_STATUSES"
  obtain rs table where upd:
      "sql_update ?P (\<lambda>c. c\<lparr>lastActivityAt := at\<rparr>) (lab_sessions st) = (rs, table)"
    by fastforce
  have P: "?P (cols r)" using 9(3) r by (simp add: acceptsActivity_def)
  have ts: "toSession (r\<lparr>cols := (cols r)\<lparr>lastActivityAt := at\<rparr>\<rparr>) = cur\<lparr>lastActivityAt := at\<rparr>"
    by (simp add: r(3) toSession_def)
  have "?P c \<Longrightarrow> sessionId c = sessionId (cols r)" for c using r by simp
  from sql_update_one [OF 9(1) r(1) P this _ _ _ upd] r(2) ts
  show ?case by (simp add: pg_touchActivity_def upd)
next
  case (10 st sid)
  have "pg_get (pg_delete st sid) x = ((pg_get st)(sid := None)) x" for x
    by (auto simp: pg_get_def pg_delete_def first_session_def conj_commute
        intro!: arg_cong [where f = "case_list _ _"] filter_cong)
  moreover have "pg_invar (pg_delete st sid)"
    using 10 by (auto simp: pg_invar_def pg_delete_def distinct_map_filter)
  ultimately show ?case by (simp add: pg_delete_def fun_eq_iff)
next
  case (11 st s limits st')
  then have ins: "pg_insertSession st s = (None, st')" and
    dec: "decideCapacity s limits (card (occupying_ids (pg_get st)))
            (card (owner_ids (pg_get st) (ownerUserId s))) = Admitted"
    by (auto simp: pg_createWithinLimits_eq Let_def split: if_splits prod.splits option.splits)
  from ins have "shell_uid_seq st' = shell_uid_seq st + 1" by (auto elim!: pg_insert_cases)
  with dec pg_insert_invar [OF 11(1) ins 11(2)] show ?case by auto
next
  case (12 st s limits r st')
  then show ?case
    by (auto simp: pg_createWithinLimits_eq Let_def
        split: if_splits prod.splits option.splits elim!: pg_insert_cases intro: pg_invar_seq)
next
  case (13 st s limits who m n)
  then show ?case by (simp add: pg_createWithinLimits_eq)
next
  case (14 st s limits)
  have "\<forall>x \<in> set (lab_sessions st). sessionId (cols x) \<noteq> sessionId s \<and>
            sandboxRef (cols x) \<noteq> sandboxRef s \<and> shellUid (cols x) \<noteq> Some (shell_uid_seq st)"
    using 14(1,4,5) pg_get_row [OF 14(1)] by (fastforce simp: pg_get_None pg_invar_def)
  moreover have "owner_param st (ownerUserId s) = Inr (ownerUserId s)"
      "ownerUserId s \<in> insert None (Some ` set (user_ids st))"
    using 14(2) owner_param_known owner_known_user by (simp_all add: pg_new_ok_def)
  ultimately show ?case
    using 14 by (auto simp: pg_createWithinLimits_eq pg_insertSession_def list_ex_iff Let_def)
qed


section \<open>The two stores agree\<close>

text \<open>The patches both stores write alike.\<close>

definition plain_patch :: "LabSessionPatch \<Rightarrow> bool" where
  "plain_patch p \<longleftrightarrow> p_labId p = None \<and> p_createdAt p = None \<and> p_statusReason p \<noteq> Some []"

lemma toSession_pg_set:
  assumes "plain_patch patch"
  shows "toSession (r\<lparr>cols := pg_set to patch (cols r)\<rparr>) =
    apply_patch (toSession r) (drop_identity
      (patch\<lparr>p_status := Some to, p_statusChangedAt :=
         (if p_statusChangedAt patch \<noteq> None \<and> status (cols r) \<noteq> to
          then p_statusChangedAt patch else None)\<rparr>))"
  using assms
  by (auto simp: plain_patch_def pg_set_def pg_assign_def toSession_def apply_patch_def
      drop_identity_def truthy_def or_keep_opt_def split: option.splits)

lemma toSession_pg_assign:
  assumes "plain_patch patch"
  shows "toSession (r\<lparr>cols := pg_assign patch (cols r)\<rparr>) = apply_patch (toSession r) (drop_identity patch)"
  using assms
  by (auto simp: plain_patch_def pg_assign_def toSession_def apply_patch_def
      drop_identity_def truthy_def or_keep_opt_def split: option.splits)

lemma mem_transition_row:
  assumes "store_get st sid = Some cur" and "transition_allowed cur from guard"
  shows "store_transition st sid from to patch guard = store_update st sid
     (patch\<lparr>p_status := Some to, p_statusChangedAt :=
        (if p_statusChangedAt patch \<noteq> None \<and> status cur \<noteq> to
         then p_statusChangedAt patch else None)\<rparr>)"
  using assms by (auto simp: store_transition_def store_get_def transition_allowed_def)

text \<open>
  A session apart from its shell uid, which each store draws from its own counter: a
  refused insert takes a value of the database's sequence and none of the in-memory
  counter.
\<close>

definition but_uid :: "LabSession \<Rightarrow> LabSession" where
  "but_uid s = s\<lparr>shellUid := None\<rparr>"

definition same_rows :: "(string \<rightharpoonup> LabSession) \<Rightarrow> (string \<rightharpoonup> LabSession) \<Rightarrow> bool" where
  "same_rows m n \<longleftrightarrow> (\<forall>sid. map_option but_uid (m sid) = map_option but_uid (n sid))"

definition agree :: "InMemorySessionStore \<Rightarrow> PostgresSessionStore \<Rightarrow> bool" where
  "agree st db \<longleftrightarrow> mem_invar st \<and> pg_invar db \<and> same_rows (store_get st) (pg_get db)"

text \<open>The operations of the interface \<open>SessionStore\<close>, and what a caller sees of an answer.\<close>

datatype store_op =
    Do_Create LabSession
  | Do_CreateWithinLimits LabSession CapacityLimits
  | Do_Get string
  | Do_Update string LabSessionPatch
  | Do_Transition string "session_status list" session_status LabSessionPatch TransitionGuard
  | Do_TouchActivity string int
  | Do_Delete string
  | Do_List
  | Do_ListOccupying
  | Do_ListOccupyingForOwner string
  | Do_ListExpirable int

datatype store_reply =
    Done
  | Conflict
  | Raised
  | Decided CapacityDecision
  | One "LabSession option"
  | Many "LabSession multiset"

fun mem_failure :: "store_error \<Rightarrow> store_reply" where
  "mem_failure ShellUidExhaustedError = Raised"
| "mem_failure _ = Conflict"

fun pg_failure :: "pg_store_error \<Rightarrow> store_reply" where
  "pg_failure (Store_Error e) = mem_failure e"
| "pg_failure _ = Raised"

definition seen :: "LabSession list \<Rightarrow> store_reply" where
  "seen ss = Many (mset (map but_uid ss))"

fun mem_do :: "store_op \<Rightarrow> InMemorySessionStore \<Rightarrow> store_reply \<times> InMemorySessionStore" where
  "mem_do (Do_Create s) st = (case store_create st s of Inl e \<Rightarrow> (mem_failure e, st) | Inr st' \<Rightarrow> (Done, st'))"
| "mem_do (Do_CreateWithinLimits s limits) st = (case createWithinLimits st s limits of
     (Inl e, st') \<Rightarrow> (mem_failure e, st') | (Inr d, st') \<Rightarrow> (Decided d, st'))"
| "mem_do (Do_Get sid) st = (One (map_option but_uid (store_get st sid)), st)"
| "mem_do (Do_Update sid patch) st = map_prod (One \<circ> map_option but_uid) id (store_update st sid patch)"
| "mem_do (Do_Transition sid from to patch guard) st =
     map_prod (One \<circ> map_option but_uid) id (store_transition st sid from to patch guard)"
| "mem_do (Do_TouchActivity sid at) st = map_prod (One \<circ> map_option but_uid) id (store_touchActivity st sid at)"
| "mem_do (Do_Delete sid) st = (Done, store_delete st sid)"
| "mem_do Do_List st = (seen (store_list st), st)"
| "mem_do Do_ListOccupying st = (seen (listOccupying st), st)"
| "mem_do (Do_ListOccupyingForOwner owner) st = (seen (listOccupyingForOwner st owner), st)"
| "mem_do (Do_ListExpirable now) st = (seen (listExpirable st now), st)"

fun pg_do :: "store_op \<Rightarrow> PostgresSessionStore \<Rightarrow> store_reply \<times> PostgresSessionStore" where
  "pg_do (Do_Create s) db = (case pg_insertSession db s of (Some e, db') \<Rightarrow> (pg_failure e, db') | (None, db') \<Rightarrow> (Done, db'))"
| "pg_do (Do_CreateWithinLimits s limits) db = (case pg_createWithinLimits db s limits of
     (Inl e, db') \<Rightarrow> (pg_failure e, db') | (Inr d, db') \<Rightarrow> (Decided d, db'))"
| "pg_do (Do_Get sid) db = (One (map_option but_uid (pg_get db sid)), db)"
| "pg_do (Do_Update sid patch) db = map_prod (One \<circ> map_option but_uid) id (pg_update db sid patch)"
| "pg_do (Do_Transition sid from to patch guard) db =
     map_prod (One \<circ> map_option but_uid) id (pg_transition db sid from to patch guard)"
| "pg_do (Do_TouchActivity sid at) db = map_prod (One \<circ> map_option but_uid) id (pg_touchActivity db sid at)"
| "pg_do (Do_Delete sid) db = (Done, pg_delete db sid)"
| "pg_do Do_List db = (seen (pg_list db), db)"
| "pg_do Do_ListOccupying db = (seen (pg_listOccupying db), db)"
| "pg_do (Do_ListOccupyingForOwner owner) db = (case pg_listOccupyingForOwner db owner of
     Inl e \<Rightarrow> (pg_failure e, db) | Inr ss \<Rightarrow> (seen ss, db))"
| "pg_do (Do_ListExpirable now) db = (seen (pg_listExpirable db now), db)"

fun mem_run :: "store_op list \<Rightarrow> InMemorySessionStore \<Rightarrow> store_reply list \<times> InMemorySessionStore" where
  "mem_run [] st = ([], st)"
| "mem_run (op # ops) st = (let (a, st1) = mem_do op st; (as, st2) = mem_run ops st1 in (a # as, st2))"

fun pg_run :: "store_op list \<Rightarrow> PostgresSessionStore \<Rightarrow> store_reply list \<times> PostgresSessionStore" where
  "pg_run [] db = ([], db)"
| "pg_run (op # ops) db = (let (a, db1) = pg_do op db; (as, db2) = pg_run ops db1 in (a # as, db2))"

text \<open>
  What the two are compared on: patches both write alike, no empty text where the
  database would read none, and owners that are users. The last is what the database
  demands: any other owner raises there, and only there.
\<close>

fun op_ok :: "PostgresSessionStore \<Rightarrow> store_op \<Rightarrow> bool" where
  "op_ok db (Do_Create s) = pg_new_ok db s"
| "op_ok db (Do_CreateWithinLimits s limits) = pg_new_ok db s"
| "op_ok db (Do_Update sid patch) = plain_patch patch"
| "op_ok db (Do_Transition sid from to patch guard) = plain_patch patch"
| "op_ok db (Do_ListOccupyingForOwner owner) = (owner \<noteq> [] \<and> pg_uuid_in db owner = Some owner)"
| "op_ok db _ = True"

lemma but_uid_simps [simp]:
  "sessionId (but_uid s) = sessionId s" "status (but_uid s) = status s" "sandboxRef (but_uid s) = sandboxRef s"
  "statusChangedAt (but_uid s) = statusChangedAt s" "lastActivityAt (but_uid s) = lastActivityAt s"
  "ownerUserId (but_uid s) = ownerUserId s" "expiresAt (but_uid s) = expiresAt s"
  "idleTimeoutSeconds (but_uid s) = idleTimeoutSeconds s" "but_uid (s\<lparr>shellUid := u\<rparr>) = but_uid s"
  by (simp_all add: but_uid_def)

lemma but_uid_eqD:
  assumes "but_uid s = but_uid t"
  shows "status s = status t" "statusChangedAt s = statusChangedAt t" "lastActivityAt s = lastActivityAt t"
    "sandboxRef s = sandboxRef t" "ownerUserId s = ownerUserId t"
  using assms but_uid_simps by metis+

lemma but_uid_patch: "but_uid s = but_uid t \<Longrightarrow>
  but_uid (apply_patch s (drop_identity p)) = but_uid (apply_patch t (drop_identity p))"
  by (cases s; cases t) (simp add: but_uid_def apply_patch_def drop_identity_def)

lemma but_uid_touch: "but_uid s = but_uid t \<Longrightarrow> but_uid (s\<lparr>lastActivityAt := at\<rparr>) = but_uid (t\<lparr>lastActivityAt := at\<rparr>)"
  by (cases s; cases t) (simp add: but_uid_def)

lemma same_rowsD:
  assumes "same_rows m n"
  shows "m sid = None \<longleftrightarrow> n sid = None"
    and "m sid = Some s \<Longrightarrow> \<exists>t. n sid = Some t \<and> but_uid s = but_uid t"
    and "n sid = Some t \<Longrightarrow> \<exists>s. m sid = Some s \<and> but_uid s = but_uid t"
  using assms unfolding same_rows_def by (metis option.map_disc_iff, (metis map_option_eq_Some)+)

lemma same_rows_upd:
  "same_rows m n \<Longrightarrow> but_uid s = but_uid t \<Longrightarrow> same_rows (m(sid \<mapsto> s)) (n(sid \<mapsto> t))"
  "same_rows m n \<Longrightarrow> same_rows (m(sid := None)) (n(sid := None))"
  by (simp_all add: same_rows_def)

lemma same_rows_counts:
  assumes "same_rows m n"
  shows "occupying_ids m = occupying_ids n" "owner_ids m ow = owner_ids n ow"
proof -
  have occ: "occupying_ids k = occupying_ids (\<lambda>sid. map_option but_uid (k sid))" for k
    by (auto simp: occupying_ids_def)
  have own: "owner_ids k ow = owner_ids (\<lambda>sid. map_option but_uid (k sid)) ow" for k
    by (auto simp: owner_ids_def)
  have same: "(\<lambda>sid. map_option but_uid (m sid)) = (\<lambda>sid. map_option but_uid (n sid))"
    using assms by (simp add: same_rows_def)
  show "occupying_ids m = occupying_ids n" by (simp only: occ [of m] occ [of n] same)
  show "owner_ids m ow = owner_ids n ow" by (simp only: own [of m] own [of n] same)
qed


text \<open>Each operation from stores that agree.\<close>

lemma agree_transition:
  assumes "agree st db" "plain_patch patch"
  shows "map_option but_uid (fst (store_transition st sid from to patch guard)) =
           map_option but_uid (fst (pg_transition db sid from to patch guard)) \<and>
         agree (snd (store_transition st sid from to patch guard)) (snd (pg_transition db sid from to patch guard))"
proof (cases "\<exists>cur. pg_get db sid = Some cur \<and> transition_allowed cur from guard")
  case True
  have inv: "mem_invar st" "pg_invar db" and rows: "same_rows (store_get st) (pg_get db)"
    using assms(1) by (simp_all add: agree_def)
  from True obtain t where t: "pg_get db sid = Some t" "transition_allowed t from guard" by blast
  from t(1) obtain r where r: "r \<in> set (lab_sessions db)" "sessionId (cols r) = sid" "t = toSession r"
    by (rule pg_get_Some)
  from same_rowsD(3) [OF rows t(1)] obtain s where s: "store_get st sid = Some s" "but_uid s = but_uid t" by blast
  have al: "transition_allowed s from guard" and sts: "status (cols r) = status s"
    using t(2) but_uid_eqD [OF s(2)] r(3) by (simp_all add: transition_allowed_def)
  let ?p = "patch\<lparr>p_status := Some to, p_statusChangedAt :=
      (if p_statusChangedAt patch \<noteq> None \<and> status s \<noteq> to then p_statusChangedAt patch else None)\<rparr>"
  have mem: "store_transition st sid from to patch guard = (Some (apply_patch s (drop_identity ?p)),
       st\<lparr>bySessionId := AList.update sid (apply_patch s (drop_identity ?p)) (bySessionId st)\<rparr>)"
    unfolding mem_transition_row [OF s(1) al] by (rule store_update_hit) (use s(1) in \<open>simp add: store_get_def\<close>)
  obtain db' where pg: "pg_transition db sid from to patch guard =
        (Some (toSession (r\<lparr>cols := pg_set to patch (cols r)\<rparr>)), db')"
      "pg_get db' = (pg_get db)(sid \<mapsto> toSession (r\<lparr>cols := pg_set to patch (cols r)\<rparr>))" "pg_invar db'"
    by (rule pg_transition_row [OF inv(2) r(1) r(2) [symmetric] t(2) [unfolded r(3)]])
  have row: "toSession (r\<lparr>cols := pg_set to patch (cols r)\<rparr>) = apply_patch t (drop_identity ?p)"
    unfolding toSession_pg_set [OF assms(2)] r(3) sts ..
  have "mem_invar (snd (store_transition st sid from to patch guard))"
    using mem.transition_hit [OF inv(1) s(1) al, of to patch] by auto
  moreover have "store_get (snd (store_transition st sid from to patch guard)) =
      (store_get st)(sid \<mapsto> apply_patch s (drop_identity ?p))"
    unfolding mem by (simp add: store_get_def [abs_def])
  ultimately show ?thesis
    using pg rows but_uid_patch [OF s(2)] same_rows_upd(1) [OF rows but_uid_patch [OF s(2)]]
    by (simp add: agree_def mem row)
next
  case False
  have inv: "mem_invar st" "pg_invar db" and rows: "same_rows (store_get st) (pg_get db)"
    using assms(1) by (simp_all add: agree_def)
  from False have "pg_transition db sid from to patch guard = (None, db)"
    by (intro pg.transition_miss [OF inv(2)]) auto
  moreover have "\<not> transition_allowed s from guard" if s: "store_get st sid = Some s" for s
  proof -
    from same_rowsD(2) [OF rows s] obtain t where t: "pg_get db sid = Some t" "but_uid s = but_uid t" by blast
    with False but_uid_eqD [OF t(2)] show ?thesis by (simp add: transition_allowed_def)
  qed
  then have "store_transition st sid from to patch guard = (None, st)"
    by (intro mem.transition_miss [OF inv(1)]) auto
  ultimately show ?thesis using assms(1) by simp
qed

lemma agree_touch:
  assumes "agree st db"
  shows "map_option but_uid (fst (store_touchActivity st sid at)) =
           map_option but_uid (fst (pg_touchActivity db sid at)) \<and>
         agree (snd (store_touchActivity st sid at)) (snd (pg_touchActivity db sid at))"
proof (cases "\<exists>t. pg_get db sid = Some t \<and> acceptsActivity (status t)")
  case True
  have inv: "mem_invar st" "pg_invar db" and rows: "same_rows (store_get st) (pg_get db)"
    using assms(1) by (simp_all add: agree_def)
  from True obtain t where t: "pg_get db sid = Some t" "acceptsActivity (status t)" by blast
  from same_rowsD(3) [OF rows t(1)] obtain s where s: "store_get st sid = Some s" "but_uid s = but_uid t" by blast
  have "acceptsActivity (status s)" using t(2) but_uid_eqD(1) [OF s(2)] by simp
  from pg.touch_hit [OF inv(2) t, of at] mem.touch_hit [OF inv(1) s(1) this, of at]
  obtain db' st' where "pg_touchActivity db sid at = (Some (t\<lparr>lastActivityAt := at\<rparr>), db')"
    "pg_get db' = (pg_get db)(sid \<mapsto> t\<lparr>lastActivityAt := at\<rparr>)" "pg_invar db'"
    "store_touchActivity st sid at = (Some (s\<lparr>lastActivityAt := at\<rparr>), st')"
    "store_get st' = (store_get st)(sid \<mapsto> s\<lparr>lastActivityAt := at\<rparr>)" "mem_invar st'" by blast
  then show ?thesis using same_rows_upd(1) [OF rows but_uid_touch [OF s(2)]] but_uid_touch [OF s(2)]
    by (simp add: agree_def)
next
  case False
  have inv: "mem_invar st" "pg_invar db" and rows: "same_rows (store_get st) (pg_get db)"
    using assms(1) by (simp_all add: agree_def)
  from False have "pg_touchActivity db sid at = (None, db)"
    by (intro pg.touch_miss [OF inv(2)]) auto
  moreover have "store_touchActivity st sid at = (None, st)"
    using False same_rowsD(2) [OF rows] but_uid_eqD(1) by (intro mem.touch_miss [OF inv(1)]) metis
  ultimately show ?thesis using assms(1) by simp
qed

lemma pg_update_row:
  assumes "pg_invar db" "r \<in> set (lab_sessions db)" "has_assignments patch"
  obtains db' where "pg_update db (sessionId (cols r)) patch = (Some (toSession (r\<lparr>cols := pg_assign patch (cols r)\<rparr>)), db')"
    "pg_get db' = (pg_get db)(sessionId (cols r) \<mapsto> toSession (r\<lparr>cols := pg_assign patch (cols r)\<rparr>))" "pg_invar db'"
proof -
  let ?P = "\<lambda>c. sessionId c = sessionId (cols r)"
  obtain rs table where upd: "sql_update ?P (pg_assign patch) (lab_sessions db) = (rs, table)" by fastforce
  note one = sql_update_one [OF assms(1,2) _ _ _ _ _ upd]
  show thesis
    by (rule that [of "db\<lparr>lab_sessions := table\<rparr>"])
      (use one assms(3) upd in \<open>simp_all add: pg_update_def pg_assign_def\<close>)
qed

lemma no_assignments: "\<not> has_assignments patch \<Longrightarrow> plain_patch patch \<Longrightarrow> apply_patch s (drop_identity patch) = s"
  by (cases s) (simp add: has_assignments_def plain_patch_def apply_patch_def drop_identity_def)

lemma agree_update:
  assumes "agree st db" "plain_patch patch"
  shows "map_option but_uid (fst (store_update st sid patch)) = map_option but_uid (fst (pg_update db sid patch)) \<and>
         agree (snd (store_update st sid patch)) (snd (pg_update db sid patch))"
proof (cases "pg_get db sid")
  case None
  then have "\<forall>r \<in> set (lab_sessions db). sessionId (cols r) \<noteq> sid" by (simp add: pg_get_None)
  then have "pg_update db sid patch = (None, db)"
    using None by (simp add: pg_update_def sql_update_miss first_session_def)
  moreover have "store_get st sid = None" using None assms(1) same_rowsD(1) by (auto simp: agree_def)
  then have "store_update st sid patch = (None, st)" by (simp add: store_update_def store_get_def)
  ultimately show ?thesis using assms(1) by simp
next
  case (Some t)
  have inv: "mem_invar st" "pg_invar db" and rows: "same_rows (store_get st) (pg_get db)"
    using assms(1) by (simp_all add: agree_def)
  from same_rowsD(3) [OF rows Some] obtain s where s: "store_get st sid = Some s" "but_uid s = but_uid t" by blast
  have cur: "map_of (bySessionId st) sid = Some s" using s(1) by (simp add: store_get_def)
  have mem: "store_update st sid patch = (Some (apply_patch s (drop_identity patch)),
       st\<lparr>bySessionId := AList.update sid (apply_patch s (drop_identity patch)) (bySessionId st)\<rparr>)"
    by (rule store_update_hit [OF cur])
  have get: "store_get (snd (store_update st sid patch)) = (store_get st)(sid \<mapsto> apply_patch s (drop_identity patch))"
    unfolding mem by (simp add: store_get_def [abs_def])
  have inv': "mem_invar (snd (store_update st sid patch))"
    unfolding mem using mem_invar_replace [OF inv(1) cur same_identity_patch] by simp
  have "\<exists>db'. pg_update db sid patch = (Some (apply_patch t (drop_identity patch)), db') \<and>
      pg_get db' = (pg_get db)(sid \<mapsto> apply_patch t (drop_identity patch)) \<and> pg_invar db'"
  proof (cases "has_assignments patch")
    case True
    from Some obtain r where r: "r \<in> set (lab_sessions db)" "sessionId (cols r) = sid" "t = toSession r"
      by (rule pg_get_Some)
    show ?thesis
      by (rule pg_update_row [OF inv(2) r(1) True]) (use r toSession_pg_assign [OF assms(2)] in auto)
  next
    case False
    then show ?thesis
      using Some inv(2) no_assignments [OF False assms(2)] by (auto simp: pg_update_def)
  qed
  then show ?thesis
    using mem get inv' same_rows_upd(1) [OF rows but_uid_patch [OF s(2)]] but_uid_patch [OF s(2), of patch]
    by (auto simp: agree_def)
qed

text \<open>Creating: both stores take a session exactly when its id and its sandbox are free.\<close>

definition free :: "(string \<rightharpoonup> LabSession) \<Rightarrow> LabSession \<Rightarrow> bool" where
  "free m s \<longleftrightarrow> m (sessionId s) = None \<and> (\<forall>x t. m x = Some t \<longrightarrow> sandboxRef t \<noteq> sandboxRef s)"

lemma free_same: "same_rows m n \<Longrightarrow> free m s \<longleftrightarrow> free n s"
  unfolding free_def using same_rowsD [of m n] but_uid_eqD(4) by metis

lemma mem_create_free:
  assumes "mem_invar st" "free (store_get st) s" "nextShellUid st \<le> SHELL_UID_MAX"
  obtains st' where "store_create st s = Inr st'" "mem_invar st'"
    "store_get st' = (store_get st)(sessionId s \<mapsto> s\<lparr>shellUid := Some (nextShellUid st)\<rparr>)"
proof -
  have new: "map_of (bySessionId st) (sessionId s) = None" using assms(2) by (simp add: free_def store_get_def)
  have "\<forall>(k, t) \<in> set (bySessionId st). sandboxRef t \<noteq> sandboxRef s"
    using assms(1,2) by (auto simp: free_def store_get_def mem_invar_def)
  then have "find (\<lambda>(_, t). sandboxRef t = sandboxRef s) (bySessionId st) = None"
    by (auto simp: find_None_iff)
  then obtain st' where cr: "store_create st s = Inr st'"
    using assms(3) new by (simp add: store_create_def withShellUid_def assertInsertable_def)
  have "store_get st' = (store_get st)(sessionId s \<mapsto> s\<lparr>shellUid := Some (nextShellUid st)\<rparr>)"
    using new by (auto simp: store_create_cases(4) [OF cr] store_get_def fun_eq_iff map_add_def split: option.splits)
  with cr mem_invar_create [OF assms(1) cr] that show thesis by blast
qed

lemma mem_create_taken:
  assumes "mem_invar st" "\<not> free (store_get st) s"
  obtains e where "store_create st s = Inl e" "mem_failure e = Conflict"
proof (cases "map_of (bySessionId st) (sessionId s)")
  case (Some t)
  then show thesis using that by (simp add: store_create_def assertInsertable_def)
next
  case None
  with assms(2) obtain x t where "map_of (bySessionId st) x = Some t" "sandboxRef t = sandboxRef s"
    by (auto simp: free_def store_get_def)
  then have "find (\<lambda>(_, t). sandboxRef t = sandboxRef s) (bySessionId st) \<noteq> None"
    by (auto simp: find_None_iff dest!: map_of_SomeD)
  then obtain k u where "find (\<lambda>(_, t). sandboxRef t = sandboxRef s) (bySessionId st) = Some (k, u)" by auto
  then show thesis using that None by (simp add: store_create_def assertInsertable_def)
qed

lemma pg_insert_free:
  assumes "pg_invar db" "pg_new_ok db s" "free (pg_get db) s" "shell_uid_seq db \<le> SHELL_UID_MAX"
  obtains db' where "pg_insertSession db s = (None, db')" "pg_invar db'"
    "pg_get db' = (pg_get db)(sessionId s \<mapsto> s\<lparr>shellUid := Some (shell_uid_seq db)\<rparr>)"
proof -
  have "\<forall>x \<in> set (lab_sessions db). sessionId (cols x) \<noteq> sessionId s \<and>
            sandboxRef (cols x) \<noteq> sandboxRef s \<and> shellUid (cols x) \<noteq> Some (shell_uid_seq db)"
    using assms(1,3) pg_get_row [OF assms(1)] by (fastforce simp: free_def pg_get_None pg_invar_def)
  moreover have "owner_param db (ownerUserId s) = Inr (ownerUserId s)"
      "ownerUserId s \<in> insert None (Some ` set (user_ids db))"
    using assms(2) owner_param_known owner_known_user by (simp_all add: pg_new_ok_def)
  ultimately obtain db' where "pg_insertSession db s = (None, db')"
    using assms(4) by (auto simp: pg_insertSession_def Let_def list_ex_iff)
  with pg_insert_invar [OF assms(1) this assms(2)] that show thesis by blast
qed

lemma pg_insert_taken:
  assumes "pg_invar db" "pg_new_ok db s" "\<not> free (pg_get db) s" "shell_uid_seq db \<le> SHELL_UID_MAX"
  shows "pg_insertSession db s =
    (Some (Store_Error (SessionExists (sessionId s))), db\<lparr>shell_uid_seq := shell_uid_seq db + 1\<rparr>)"
proof -
  have "list_ex (\<lambda>r. sessionId (cols r) = sessionId s \<or> sandboxRef (cols r) = sandboxRef s \<or>
      shellUid (cols r) = Some (shell_uid_seq db)) (lab_sessions db)"
    using assms(3) by (fastforce simp: free_def list_ex_iff elim!: pg_get_Some)
  then show ?thesis
    using assms(2,4) owner_param_known by (simp add: pg_new_ok_def pg_insertSession_def Let_def)
qed

lemma agree_create:
  assumes "agree st db" "pg_new_ok db s" "nextShellUid st \<le> SHELL_UID_MAX" "shell_uid_seq db \<le> SHELL_UID_MAX"
  shows "(\<exists>st' db'. store_create st s = Inr st' \<and> pg_insertSession db s = (None, db') \<and> agree st' db') \<or>
    (\<exists>e e' db'. store_create st s = Inl e \<and> pg_insertSession db s = (Some e', db') \<and>
       mem_failure e = Conflict \<and> pg_failure e' = Conflict \<and> agree st db')"
proof (cases "free (pg_get db) s")
  case True
  have inv: "mem_invar st" "pg_invar db" and rows: "same_rows (store_get st) (pg_get db)"
    using assms(1) by (simp_all add: agree_def)
  obtain st' where "store_create st s = Inr st'" "mem_invar st'"
    "store_get st' = (store_get st)(sessionId s \<mapsto> s\<lparr>shellUid := Some (nextShellUid st)\<rparr>)"
    by (rule mem_create_free [OF inv(1) _ assms(3)]) (use True free_same [OF rows] in simp)
  moreover obtain db' where "pg_insertSession db s = (None, db')" "pg_invar db'"
    "pg_get db' = (pg_get db)(sessionId s \<mapsto> s\<lparr>shellUid := Some (shell_uid_seq db)\<rparr>)"
    by (rule pg_insert_free [OF inv(2) assms(2) True assms(4)])
  ultimately show ?thesis by (simp add: agree_def same_rows_upd(1) [OF rows])
next
  case False
  have inv: "mem_invar st" "pg_invar db" and rows: "same_rows (store_get st) (pg_get db)"
    using assms(1) by (simp_all add: agree_def)
  let ?db' = "db\<lparr>shell_uid_seq := shell_uid_seq db + 1\<rparr>"
  obtain e where "store_create st s = Inl e" "mem_failure e = Conflict"
    by (rule mem_create_taken [OF inv(1)]) (use False free_same [OF rows] in simp)
  moreover have "pg_invar ?db'" "pg_get ?db' = pg_get db"
    by (rule pg_invar_seq [OF inv(2)]; simp)+
  ultimately show ?thesis
    using pg_insert_taken [OF inv(2) assms(2) False assms(4)] inv rows by (simp add: agree_def)
qed

lemma agree_createWithinLimits:
  assumes "agree st db" "pg_new_ok db s" "nextShellUid st \<le> SHELL_UID_MAX" "shell_uid_seq db \<le> SHELL_UID_MAX"
  shows "fst (mem_do (Do_CreateWithinLimits s limits) st) = fst (pg_do (Do_CreateWithinLimits s limits) db) \<and>
    agree (snd (mem_do (Do_CreateWithinLimits s limits) st)) (snd (pg_do (Do_CreateWithinLimits s limits) db))"
proof -
  have inv: "mem_invar st" "pg_invar db" and rows: "same_rows (map_of (bySessionId st)) (pg_get db)"
    using assms(1) by (simp_all add: agree_def store_get_def [abs_def])
  show ?thesis
    using agree_create [OF assms] assms(1)
    by (auto simp: createWithinLimits_eq [OF inv(1)] pg_createWithinLimits_eq [OF inv(2) assms(2)]
        same_rows_counts [OF rows] Let_def)
qed

text \<open>The rows of both tables, and the lists read from them.\<close>

lemma agree_mset:
  assumes "agree st db"
  shows "mset (map but_uid (store_list st)) = mset (map (but_uid \<circ> toSession) (lab_sessions db))"
proof -
  have inv: "mem_invar st" "pg_invar db" and rows: "same_rows (store_get st) (pg_get db)"
    using assms(1) by (simp_all add: agree_def)
  have "map sessionId (map but_uid (store_list st)) = map fst (bySessionId st)"
    using inv(1) by (auto simp: store_list_def mem_invar_def)
  then have d1: "distinct (map but_uid (store_list st))" using inv(1) by (metis distinct_map mem_invar_def)
  have "map sessionId (map (but_uid \<circ> toSession) (lab_sessions db)) = map (sessionId \<circ> cols) (lab_sessions db)" by simp
  then have d2: "distinct (map (but_uid \<circ> toSession) (lab_sessions db))" using inv(2) by (metis distinct_map pg_invar_def)
  have "set (map but_uid (store_list st)) = {s. \<exists>sid. map_option but_uid (store_get st sid) = Some s}"
    using inv(1) by (force simp: store_list_def store_get_def mem_invar_def)
  moreover have "set (map (but_uid \<circ> toSession) (lab_sessions db)) = {s. \<exists>sid. map_option but_uid (pg_get db sid) = Some s}"
  proof (intro set_eqI iffI)
    fix s assume "s \<in> set (map (but_uid \<circ> toSession) (lab_sessions db))"
    then obtain r where "r \<in> set (lab_sessions db)" "s = but_uid (toSession r)" by auto
    with pg_get_row [OF inv(2)] show "s \<in> {s. \<exists>sid. map_option but_uid (pg_get db sid) = Some s}" by fastforce
  next
    fix s assume "s \<in> {s. \<exists>sid. map_option but_uid (pg_get db sid) = Some s}"
    then obtain sid t where "pg_get db sid = Some t" "s = but_uid t" by auto
    then show "s \<in> set (map (but_uid \<circ> toSession) (lab_sessions db))" by (auto elim!: pg_get_Some)
  qed
  ultimately have "set (map but_uid (store_list st)) = set (map (but_uid \<circ> toSession) (lab_sessions db))"
    using rows unfolding same_rows_def by (simp only:)
  then show ?thesis using set_eq_iff_mset_eq_distinct [OF d1 d2] by simp
qed

lemma mset_but_uid_filter:
  "(\<And>s. P (but_uid s) \<longleftrightarrow> P s) \<Longrightarrow> mset (map but_uid (filter P xs)) = filter_mset P (mset (map but_uid xs))"
  by (induction xs) auto

lemma agree_list:
  assumes "agree st db" "\<And>s. P (but_uid s) \<longleftrightarrow> P s" "\<And>r. Q r \<longleftrightarrow> P (toSession r)"
    and "mset ss = mset (filter P (store_list st))"
  shows "seen ss = seen (map toSession (sort_key k (filter Q (lab_sessions db))))"
proof -
  have "mset (map but_uid ss) = mset (map but_uid (filter P (store_list st)))" using assms(4) by (metis mset_map)
  also have "\<dots> = filter_mset P (mset (map but_uid (map toSession (lab_sessions db))))"
    using agree_mset [OF assms(1)] by (simp only: mset_but_uid_filter [of P, OF assms(2)] map_map)
  also have "\<dots> = mset (map but_uid (filter P (map toSession (lab_sessions db))))"
    by (simp only: mset_but_uid_filter [of P, OF assms(2)])
  also have "filter P (map toSession (lab_sessions db)) = map toSession (filter Q (lab_sessions db))"
  proof -
    have "Q = (\<lambda>r. P (toSession r))" by (rule ext) (rule assms(3))
    then show ?thesis by (simp add: filter_map comp_def)
  qed
  finally show ?thesis by (simp add: seen_def)
qed

lemma owner_truthy: "owner \<noteq> [] \<Longrightarrow> ownerUserId (cols r) = Some owner \<longleftrightarrow> ownerUserId (toSession r) = Some owner"
  by (auto simp: truthy_def)

lemma agree_lists:
  assumes "agree st db"
  shows "seen (store_list st) = seen (pg_list db)" "seen (listOccupying st) = seen (pg_listOccupying db)"
    "seen (listExpirable st now) = seen (pg_listExpirable db now)"
    and "owner \<noteq> [] \<Longrightarrow> pg_uuid_in db owner = Some owner \<Longrightarrow>
      \<exists>ss. pg_listOccupyingForOwner db owner = Inr ss \<and> seen (listOccupyingForOwner st owner) = seen ss"
proof -
  show "seen (store_list st) = seen (pg_list db)"
    using agree_list [OF assms, of "\<lambda>_. True" "\<lambda>_. True" "store_list st" "createdAt \<circ> cols"] by (simp add: pg_list_def)
  show "seen (listOccupying st) = seen (pg_listOccupying db)"
    unfolding pg_listOccupying_def listOccupying_def
    by (rule agree_list [OF assms, where P = "\<lambda>s. occupiesCapacity (status s)"]) (simp_all add: occupiesCapacity_def)
  show "seen (listExpirable st now) = seen (pg_listExpirable db now)"
  proof -
    let ?P = "\<lambda>s. occupiesCapacity (status s) \<and>
        (expiresAt s \<le> now \<or> lastActivityAt s + idleTimeoutSeconds s * 1000 \<le> now)"
    have "listExpirable st now = filter ?P (store_list st)" unfolding listExpirable_def by (rule filter_cong) auto
    then show ?thesis
      unfolding pg_listExpirable_def
      by (intro agree_list [OF assms, where P = ?P]) (simp_all add: occupiesCapacity_def toSession_def)
  qed
  show "\<exists>ss. pg_listOccupyingForOwner db owner = Inr ss \<and> seen (listOccupyingForOwner st owner) = seen ss"
    if own: "owner \<noteq> []" "pg_uuid_in db owner = Some owner"
  proof -
    have "seen (listOccupyingForOwner st owner) = seen (map toSession (sort_key (\<lambda>r. - createdAt (cols r))
       (filter (\<lambda>r. status (cols r) \<in> set OCCUPYING_STATUSES \<and> ownerUserId (cols r) = Some owner) (lab_sessions db))))"
      by (rule agree_list [OF assms, where P = "\<lambda>s. occupiesCapacity (status s) \<and> ownerUserId s = Some owner"])
        (simp_all add: occupiesCapacity_def owner_truthy [OF own(1)] listOccupyingForOwner_def collect_mine_filter del: toSession_simps(7))
    then show ?thesis using own(2) by (simp add: pg_listOccupyingForOwner_def)
  qed
qed

text \<open>One operation, and a run.\<close>

lemma mem_do_uid: "nextShellUid (snd (mem_do op st)) \<le> nextShellUid st + 1"
proof (cases op)
  case (Do_Create s)
  then show ?thesis using store_create_cases(4) [of st s] by (auto split: sum.splits)
next
  case (Do_CreateWithinLimits s limits)
  then show ?thesis using store_create_cases(4) [of st s]
    by (auto simp: createWithinLimits_def Let_def split: sum.splits prod.splits)
qed (auto simp: store_transition_def store_touchActivity_def store_update_def store_delete_def Let_def split: option.splits)

lemma insert_env:
  assumes "pg_insertSession db s = (r, db')"
  shows "shell_uid_seq db' \<le> shell_uid_seq db + 1 \<and> pg_uuid_in db' = pg_uuid_in db \<and> user_ids db' = user_ids db"
  using assms by (auto simp: pg_insertSession_def Let_def split: sum.splits if_splits)

lemma pg_do_env:
  "shell_uid_seq (snd (pg_do op db)) \<le> shell_uid_seq db + 1 \<and>
   pg_uuid_in (snd (pg_do op db)) = pg_uuid_in db \<and> user_ids (snd (pg_do op db)) = user_ids db"
proof (cases op)
  case (Do_Create s)
  obtain r db' where ins: "pg_insertSession db s = (r, db')" by fastforce
  then show ?thesis using insert_env [OF ins] Do_Create by (simp split: option.splits)
next
  case (Do_CreateWithinLimits s limits)
  obtain r db' where ins: "pg_insertSession db s = (r, db')" by fastforce
  obtain a db2 where cw: "pg_createWithinLimits db s limits = (a, db2)" by fastforce
  then have "db2 = db \<or> db2 = db'"
    by (auto simp: pg_createWithinLimits_def Let_def ins split: sum.splits option.splits if_splits)
  then show ?thesis using insert_env [OF ins] Do_CreateWithinLimits cw by (auto split: sum.splits)
qed (auto simp: pg_transition_def pg_touchActivity_def pg_update_def pg_delete_def Let_def case_prod_beta
    split: sum.splits)

lemma agree_do:
  assumes "agree st db" "op_ok db op" "nextShellUid st \<le> SHELL_UID_MAX" "shell_uid_seq db \<le> SHELL_UID_MAX"
  shows "fst (mem_do op st) = fst (pg_do op db) \<and> agree (snd (mem_do op st)) (snd (pg_do op db))"
proof (cases op)
  case (Do_Create s)
  then show ?thesis using agree_create [OF assms(1) _ assms(3,4), of s] assms(2) by auto
next
  case (Do_CreateWithinLimits s limits)
  then show ?thesis using agree_createWithinLimits [OF assms(1) _ assms(3,4), of s limits] assms(2) by simp
next
  case (Do_Get sid)
  then show ?thesis using assms(1) by (simp add: agree_def same_rows_def)
next
  case (Do_Update sid patch)
  then show ?thesis using agree_update [OF assms(1), of patch sid] assms(2) by simp
next
  case (Do_Transition sid "from" to patch guard)
  then show ?thesis using agree_transition [OF assms(1), of patch sid "from" to guard] assms(2) by simp
next
  case (Do_TouchActivity sid at)
  then show ?thesis using agree_touch [OF assms(1), of sid at] by simp
next
  case (Do_Delete sid)
  have "mem_invar st" "pg_invar db" "same_rows (store_get st) (pg_get db)" using assms(1) by (simp_all add: agree_def)
  with mem.remove_rows [of st sid] pg.remove_rows [of db sid] same_rows_upd(2) [of "store_get st" "pg_get db" sid]
  show ?thesis using Do_Delete by (simp add: agree_def)
next
  case Do_List
  then show ?thesis using agree_lists(1) [OF assms(1)] assms(1) by simp
next
  case Do_ListOccupying
  then show ?thesis using agree_lists(2) [OF assms(1)] assms(1) by simp
next
  case (Do_ListOccupyingForOwner owner)
  then show ?thesis using agree_lists(4) [OF assms(1), of owner] assms(1,2) by auto
next
  case (Do_ListExpirable now)
  then show ?thesis using agree_lists(3) [OF assms(1)] assms(1) by simp
qed

lemma op_ok_env:
  "pg_uuid_in db' = pg_uuid_in db \<Longrightarrow> user_ids db' = user_ids db \<Longrightarrow> op_ok db' op = op_ok db op"
  by (cases op) (simp_all add: pg_new_ok_def owner_known_def split: option.splits)

lemma agree_run:
  assumes "agree st db" "\<forall>op\<in>set ops. op_ok db op"
    and "nextShellUid st + int (length ops) \<le> SHELL_UID_MAX + 1"
    and "shell_uid_seq db + int (length ops) \<le> SHELL_UID_MAX + 1"
  shows "fst (mem_run ops st) = fst (pg_run ops db) \<and> agree (snd (mem_run ops st)) (snd (pg_run ops db))"
  using assms
proof (induction ops arbitrary: st db)
  case Nil
  then show ?case by simp
next
  case (Cons op ops)
  have "nextShellUid st \<le> SHELL_UID_MAX" "shell_uid_seq db \<le> SHELL_UID_MAX" using Cons.prems(3,4) by simp_all
  with agree_do [OF Cons.prems(1), of op] Cons.prems(2)
  have step: "fst (mem_do op st) = fst (pg_do op db)" "agree (snd (mem_do op st)) (snd (pg_do op db))" by simp_all
  have "\<forall>o'\<in>set ops. op_ok (snd (pg_do op db)) o'"
    using Cons.prems(2) op_ok_env [of "snd (pg_do op db)" db] pg_do_env [of op db] by simp
  then have "fst (mem_run ops (snd (mem_do op st))) = fst (pg_run ops (snd (pg_do op db))) \<and>
      agree (snd (mem_run ops (snd (mem_do op st)))) (snd (pg_run ops (snd (pg_do op db))))"
    using Cons.IH [OF step(2)] Cons.prems(3,4) mem_do_uid [of op st] pg_do_env [of op db] by simp
  then show ?case using step(1) by (simp add: case_prod_beta)
qed


definition sample_owner :: string where "sample_owner = ''5b2c8a4e-0f6d-4f55-9b3a-6f0d0c1e7a11''"

definition owned_session :: "string \<Rightarrow> LabSession" where
  "owned_session sid = (sample_session sid)\<lparr>ownerUserId := Some sample_owner\<rparr>"

definition sample_mem :: InMemorySessionStore where
  "sample_mem = \<lparr>bySessionId =
      [(''sess-1'', (owned_session ''sess-1'')\<lparr>shellUid := Some SHELL_UID_MIN\<rparr>)], nextShellUid = SHELL_UID_MIN + 1\<rparr>"

definition sample_db :: PostgresSessionStore where
  "sample_db = \<lparr>lab_sessions =
      [\<lparr>cols = (owned_session ''sess-1'')\<lparr>shellUid := Some SHELL_UID_MIN\<rparr>, revision = 1\<rparr>],
    shell_uid_seq = SHELL_UID_MIN + 1,
    pg_uuid_in = (\<lambda>t. if length t = 36 then Some t else None), user_ids = [sample_owner]\<rparr>"

lemma sample_db_invar: "pg_invar sample_db"
  by (simp add: pg_invar_def sample_db_def session_simps)

lemma sample_mem_invar: "mem_invar sample_mem"
  by (simp add: mem_invar_def sample_mem_def owned_session_def sample_session_def session_simps)

lemma sample_rows: "store_get sample_mem = pg_get sample_db"
  by (rule ext) (simp add: store_get_def pg_get_def sample_mem_def sample_db_def first_session_def
      toSession_def truthy_def owned_session_def sample_session_def sample_owner_def)

text \<open>
  A second session of the owner is admitted, a third is refused by the owner's limit, the
  first is claimed for teardown and a duplicate is a conflict.
\<close>

definition sample_ops :: "store_op list" where
  "sample_ops =
     [Do_CreateWithinLimits (owned_session ''sess-2'') \<lparr>maxOccupying = 9, maxOccupyingPerOwner = Some 2\<rparr>,
      Do_CreateWithinLimits (owned_session ''sess-3'') \<lparr>maxOccupying = 9, maxOccupyingPerOwner = Some 2\<rparr>,
      Do_Transition ''sess-1'' [ACTIVE] ENDING no_patch no_guard,
      Do_Create (owned_session ''sess-2'')]"


text \<open>
  Where the double is weaker than production. A container session, whose
  namespace differs from its sandbox handle, is found by its namespace in the
  in-memory store and not in the PostgreSQL store, although both hold the same
  row; and \<open>update\<close> with a lab id rewrites the row of the in-memory store while
  the PostgreSQL store ignores that field.
\<close>

theorem stores_differ:
  "\<exists>st db. mem_invar st \<and> pg_invar db \<and> store_get st = pg_get db \<and>
     findByNamespace st ''lab-aa'' \<noteq> None \<and> pg_findByNamespace db ''lab-aa'' = None \<and>
     store_get (snd (store_update st ''sess-9'' (no_patch\<lparr>p_labId := Some ''other''\<rparr>))) \<noteq>
       pg_get (snd (pg_update db ''sess-9'' (no_patch\<lparr>p_labId := Some ''other''\<rparr>)))"
proof -
  let ?s = "(sample_session ''sess-9'')\<lparr>sandboxRef := ''jtt-lab-bb'', namespace := ''lab-aa'',
     provider := Linux, sandboxKind := Container, shellUid := Some SHELL_UID_MIN\<rparr>"
  let ?st = "\<lparr>bySessionId = [(''sess-9'', ?s)], nextShellUid = SHELL_UID_MIN + 1\<rparr>"
  let ?db = "\<lparr>lab_sessions = [\<lparr>cols = ?s, revision = 1\<rparr>], shell_uid_seq = SHELL_UID_MIN + 1,
      pg_uuid_in = Some, user_ids = [''ann'']\<rparr>"
  have "mem_invar ?st" "pg_invar ?db"
    by (simp_all add: mem_invar_def pg_invar_def session_simps sample_session_def)
  moreover have get: "store_get ?st = pg_get ?db"
    by (rule ext) (simp add: store_get_def pg_get_def first_session_def toSession_def truthy_def
        sample_session_def)
  moreover have "findByNamespace ?st ''lab-aa'' \<noteq> None" "pg_findByNamespace ?db ''lab-aa'' = None"
    by (simp_all add: findByNamespace_def findBySandboxRef_def store_list_def
        pg_findByNamespace_def pg_findBySandboxRef_def first_session_def)
  moreover have "store_get (snd (store_update ?st ''sess-9'' (no_patch\<lparr>p_labId := Some ''other''\<rparr>))) ''sess-9'' \<noteq>
       pg_get (snd (pg_update ?db ''sess-9'' (no_patch\<lparr>p_labId := Some ''other''\<rparr>))) ''sess-9''"
    by (simp add: store_update_def store_get_def pg_update_def has_assignments_def no_patch_def
        pg_get_def first_session_def toSession_def apply_patch_def drop_identity_def sample_session_def
        truthy_def Let_def)
  ultimately show ?thesis by metis
qed

end
