(* ===== verification/Session_Identifiers.thy ===== *)
theory Session_Identifiers
  imports Session_Types
begin

text \<open>
  Session ids and the names derived from them: \<open>session/identifiers.ts\<close>.

  The keyed hash (\<open>createHmac('sha256', secret).update(m).digest('hex')\<close> of
  node:crypto) is the parameter \<open>hmac\<close> of the derivations; what they rely on is
  that a digest is a string of at least 40 lower-case hexadecimal digits
  (\<open>hmac_hex\<close> below; SHA-256 gives 64). The random bytes behind a new session id are the
  argument of \<open>newSessionId\<close>. A value that arrives from the network is either a
  string or something else, which \<open>String(input)\<close> renders.
\<close>

section \<open>Shapes of names\<close>

definition SESSION_ID_PREFIX :: string where "SESSION_ID_PREFIX = ''sess-''"
definition NAMESPACE_PREFIX :: string where "NAMESPACE_PREFIX = ''lab-''"
definition CONTAINER_SANDBOX_PREFIX :: string where "CONTAINER_SANDBOX_PREFIX = ''jtt-lab-''"

definition LAB_NAMESPACE_PATTERN :: "string \<Rightarrow> bool" where
  "LAB_NAMESPACE_PATTERN = prefix_hex ''lab-'' 6 40"

definition CONTAINER_SANDBOX_PATTERN :: "string \<Rightarrow> bool" where
  "CONTAINER_SANDBOX_PATTERN = prefix_hex ''jtt-lab-'' 6 40"

definition CONTAINER_NETWORK_PATTERN :: "string \<Rightarrow> bool" where
  "CONTAINER_NETWORK_PATTERN = prefix_hex ''jtt-net-'' 6 40"

definition CONTAINER_PEER_PATTERN :: "string \<Rightarrow> bool" where
  "CONTAINER_PEER_PATTERN = prefix_hex ''jtt-peer-'' 6 40"

text \<open>\<open>^jtt-node[1-9]-[0-9a-f]{6,40}$\<close>\<close>

definition CONTAINER_NODE_PATTERN :: "string \<Rightarrow> bool" where
  "CONTAINER_NODE_PATTERN s \<longleftrightarrow>
     list_ex (\<lambda>d. prefix_hex (''jtt-node'' @ [d] @ ''-'') 6 40 s) ''123456789''"

definition SESSION_ID_PATTERN :: "string \<Rightarrow> bool" where
  "SESSION_ID_PATTERN = prefix_hex ''sess-'' 7 32"

text \<open>\<open>^[a-z0-9]([-a-z0-9]{0,61}[a-z0-9])?$\<close>\<close>

definition DNS_1123_LABEL :: "string \<Rightarrow> bool" where
  "DNS_1123_LABEL s = (case s of [] \<Rightarrow> False
     | c # cs \<Rightarrow> is_lower_alnum c \<and>
         (cs = [] \<or>
          length (butlast cs) \<le> 61 \<and>
          list_all (\<lambda>d. d = CHR ''-'' \<or> is_lower_alnum d) (butlast cs) \<and>
          is_lower_alnum (last cs)))"

definition DEFAULT_SESSION_ID_ENTROPY_CHARS :: int where
  "DEFAULT_SESSION_ID_ENTROPY_CHARS = 16"

definition DEFAULT_NAMESPACE_SUFFIX_CHARS :: int where
  "DEFAULT_NAMESPACE_SUFFIX_CHARS = 12"

definition MAX_NAMESPACE_LENGTH :: nat where "MAX_NAMESPACE_LENGTH = 63"

definition PROTECTED_NAMESPACES :: "string list" where
  "PROTECTED_NAMESPACES =
     [''default'', ''kube-system'', ''kube-public'', ''kube-node-lease'', ''local-path-storage'']"

lemmas pattern_defs =
  SESSION_ID_PREFIX_def NAMESPACE_PREFIX_def CONTAINER_SANDBOX_PREFIX_def
  LAB_NAMESPACE_PATTERN_def CONTAINER_SANDBOX_PATTERN_def CONTAINER_NETWORK_PATTERN_def
  CONTAINER_PEER_PATTERN_def CONTAINER_NODE_PATTERN_def SESSION_ID_PATTERN_def

section \<open>Validation\<close>

datatype unknown_value = UString string | UOther string

datatype ident_error =
    InvalidSessionIdError string
  | InvalidNamespaceError string string
  | InvalidSandboxRefError string string
  | IdentError string

text \<open>
  \<open>newSessionId(entropyChars)\<close>; \<open>bytes\<close> is the hexadecimal rendering of the
  \<open>entropyChars / 2\<close> random bytes. JavaScript's \<open>%\<close> is zero exactly for the even numbers.
\<close>

definition newSessionId :: "int \<Rightarrow> string \<Rightarrow> ident_error + string" where
  "newSessionId entropyChars bytes =
     (if entropyChars < 7 \<or> 32 < entropyChars \<or> odd entropyChars
      then Inl (IdentError
        ''session id entropy must be an even number of hex chars between 8 and 32'')
      else Inr (SESSION_ID_PREFIX @ bytes))"

definition assertValidSessionId :: "unknown_value \<Rightarrow> ident_error + string" where
  "assertValidSessionId input = (case input of
       UOther _ \<Rightarrow> Inl (InvalidSessionIdError ''expected a string'')
     | UString s \<Rightarrow>
         if length s = 0 then Inl (InvalidSessionIdError ''must not be empty'')
         else if 64 < length s then Inl (InvalidSessionIdError ''too long'')
         else if \<not> SESSION_ID_PATTERN s
         then Inl (InvalidSessionIdError ''must look like sess-<hex>'')
         else Inr s)"

definition isValidSessionId :: "unknown_value \<Rightarrow> bool" where
  "isValidSessionId input =
     (case assertValidSessionId input of Inr _ \<Rightarrow> True | Inl _ \<Rightarrow> False)"

definition isProtectedNamespace :: "string \<Rightarrow> bool" where
  "isProtectedNamespace name \<longleftrightarrow>
     name \<in> set PROTECTED_NAMESPACES \<or>
     starts_with ''kube-'' name \<or> name = ''kube'' \<or> starts_with ''kubernetes-'' name"

definition assertValidLabNamespace :: "unknown_value \<Rightarrow> string \<Rightarrow> ident_error + string" where
  "assertValidLabNamespace input prefix = (case input of
       UOther r \<Rightarrow> Inl (InvalidNamespaceError r ''expected a string'')
     | UString s \<Rightarrow>
         if length s = 0 then Inl (InvalidNamespaceError s ''must not be empty'')
         else if MAX_NAMESPACE_LENGTH < length s
         then Inl (InvalidNamespaceError s ''must be at most 63 characters'')
         else if \<not> DNS_1123_LABEL s
         then Inl (InvalidNamespaceError s ''must be a lowercase RFC 1123 DNS label'')
         else if \<not> starts_with prefix s
         then Inl (InvalidNamespaceError s (''must start with '' @ [CHR 0x27] @ prefix @ [CHR 0x27]))
         else if length s \<le> length prefix
         then Inl (InvalidNamespaceError s ''must have a suffix after the prefix'')
         else if isProtectedNamespace s
         then Inl (InvalidNamespaceError s ''is a protected cluster namespace'')
         else if \<not> LAB_NAMESPACE_PATTERN s
         then Inl (InvalidNamespaceError s
                (''must match canonical lab sandbox format '' @ ''^lab-[0-9a-f]{6,40}$''))
         else Inr s)"

definition isLabNamespace :: "unknown_value \<Rightarrow> string \<Rightarrow> bool" where
  "isLabNamespace input prefix =
     (case assertValidLabNamespace input prefix of Inr _ \<Rightarrow> True | Inl _ \<Rightarrow> False)"

definition assertValidContainerSandboxRef :: "unknown_value \<Rightarrow> ident_error + string" where
  "assertValidContainerSandboxRef input = (case input of
       UOther r \<Rightarrow> Inl (InvalidSandboxRefError r ''expected a string'')
     | UString s \<Rightarrow>
         if \<not> CONTAINER_SANDBOX_PATTERN s
         then Inl (InvalidSandboxRefError s (''must match '' @ ''^jtt-lab-[0-9a-f]{6,40}$''))
         else Inr s)"

definition isContainerSandboxRef :: "unknown_value \<Rightarrow> bool" where
  "isContainerSandboxRef input =
     (case input of UOther _ \<Rightarrow> False | UString s \<Rightarrow> CONTAINER_SANDBOX_PATTERN s)"

definition assertValidContainerNetworkRef :: "unknown_value \<Rightarrow> ident_error + string" where
  "assertValidContainerNetworkRef input = (case input of
       UOther r \<Rightarrow> Inl (InvalidSandboxRefError r ''must be a string'')
     | UString s \<Rightarrow>
         if \<not> CONTAINER_NETWORK_PATTERN s
         then Inl (InvalidSandboxRefError s (''must match '' @ ''^jtt-net-[0-9a-f]{6,40}$''))
         else Inr s)"

definition isContainerNetworkRef :: "unknown_value \<Rightarrow> bool" where
  "isContainerNetworkRef input =
     (case input of UOther _ \<Rightarrow> False | UString s \<Rightarrow> CONTAINER_NETWORK_PATTERN s)"

definition isContainerPeerRef :: "unknown_value \<Rightarrow> bool" where
  "isContainerPeerRef input =
     (case input of UOther _ \<Rightarrow> False | UString s \<Rightarrow> CONTAINER_PEER_PATTERN s)"

definition isContainerNodeRef :: "unknown_value \<Rightarrow> bool" where
  "isContainerNodeRef input =
     (case input of UOther _ \<Rightarrow> False | UString s \<Rightarrow> CONTAINER_NODE_PATTERN s)"

definition assertValidManagedContainerRef :: "unknown_value \<Rightarrow> ident_error + string" where
  "assertValidManagedContainerRef input =
     (if isContainerPeerRef input \<or> isContainerNodeRef input
      then (case input of UString s \<Rightarrow> Inr s
              | UOther r \<Rightarrow> Inl (InvalidSandboxRefError r ''expected a string''))
      else assertValidContainerSandboxRef input)"

section \<open>Derivation\<close>

definition deriveNamespace ::
  "(string \<Rightarrow> string \<Rightarrow> string) \<Rightarrow> string \<Rightarrow> string \<Rightarrow> int option \<Rightarrow> string option \<Rightarrow>
   ident_error + string" where
  "deriveNamespace hmac sid secret suffixChars prefix =
     (case assertValidSessionId (UString sid) of
        Inl e \<Rightarrow> Inl e
      | Inr sid' \<Rightarrow>
          if length secret < 8
          then Inl (IdentError
                 ''namespace derivation requires a secret of at least 8 characters'')
          else
            let n = (case suffixChars of None \<Rightarrow> DEFAULT_NAMESPACE_SUFFIX_CHARS | Some k \<Rightarrow> k);
                pre = (case prefix of None \<Rightarrow> NAMESPACE_PREFIX | Some p \<Rightarrow> p) in
            if n < 6 \<or> 40 < n
            then Inl (IdentError ''namespace suffix must be between 6 and 40 hex characters'')
            else assertValidLabNamespace
                   (UString (pre @ take (nat n) (hmac secret (''namespace:'' @ sid')))) pre)"

definition deriveSandboxRef ::
  "(string \<Rightarrow> string \<Rightarrow> string) \<Rightarrow> string \<Rightarrow> string \<Rightarrow> string option \<Rightarrow> int option \<Rightarrow>
   ident_error + string" where
  "deriveSandboxRef hmac sid secret prefix suffixChars =
     (let pre = (case prefix of None \<Rightarrow> NAMESPACE_PREFIX | Some p \<Rightarrow> p) in
      if pre = NAMESPACE_PREFIX then deriveNamespace hmac sid secret suffixChars None
      else
        (case assertValidSessionId (UString sid) of
           Inl e \<Rightarrow> Inl e
         | Inr sid' \<Rightarrow>
             if length secret < 8
             then Inl (IdentError
                    ''sandbox derivation requires a secret of at least 8 characters'')
             else
               let n = (case suffixChars of None \<Rightarrow> DEFAULT_NAMESPACE_SUFFIX_CHARS
                          | Some k \<Rightarrow> k) in
               if n < 6 \<or> 40 < n
               then Inl (IdentError ''sandbox suffix must be between 6 and 40 hex characters'')
               else assertValidContainerSandboxRef
                      (UString (pre @ take (nat n)
                         (hmac secret (''sandbox:'' @ pre @ '':'' @ sid'))))))"

definition networkRefForSandbox :: "string \<Rightarrow> ident_error + string" where
  "networkRefForSandbox ref0 = (case assertValidContainerSandboxRef (UString ref0) of
       Inl e \<Rightarrow> Inl e
     | Inr ref \<Rightarrow> Inr (''jtt-net-'' @ drop (length ''jtt-lab-'') ref))"

definition sandboxRefForNetwork :: "string \<Rightarrow> ident_error + string" where
  "sandboxRefForNetwork ref0 = (case assertValidContainerNetworkRef (UString ref0) of
       Inl e \<Rightarrow> Inl e
     | Inr ref \<Rightarrow> Inr (''jtt-lab-'' @ drop (length ''jtt-net-'') ref))"

definition peerRefForSandbox :: "string \<Rightarrow> ident_error + string" where
  "peerRefForSandbox ref0 = (case assertValidContainerSandboxRef (UString ref0) of
       Inl e \<Rightarrow> Inl e
     | Inr ref \<Rightarrow> Inr (''jtt-peer-'' @ drop (length ''jtt-lab-'') ref))"

definition nodeRefForSandbox :: "string \<Rightarrow> int \<Rightarrow> ident_error + string" where
  "nodeRefForSandbox ref0 index = (case assertValidContainerSandboxRef (UString ref0) of
       Inl e \<Rightarrow> Inl e
     | Inr ref \<Rightarrow>
         if index < 1 \<or> 9 < index
         then Inl (InvalidSandboxRefError (show_int index) ''managed node index must be 1..9'')
         else Inr (''jtt-node'' @ show_int index @ ''-'' @ drop (length ''jtt-lab-'') ref))"

text \<open>\<open>timingSafeEqual\<close> on buffers of equal length is equality.\<close>

definition sessionIdsEqual :: "string \<Rightarrow> string \<Rightarrow> bool" where
  "sessionIdsEqual a b = (if length a \<noteq> length b then False else a = b)"

section \<open>What the validators accept\<close>

lemma assertValidSessionId_iff:
  "assertValidSessionId (UString s) = Inr r \<longleftrightarrow> r = s \<and> SESSION_ID_PATTERN s"
proof -
  have "SESSION_ID_PATTERN s \<Longrightarrow> s \<noteq> [] \<and> length s \<le> 64"
    by (auto simp: SESSION_ID_PATTERN_def elim!: prefix_hexE)
  then show ?thesis by (auto simp: assertValidSessionId_def)
qed

lemma list_all_hex_dns:
  "list_all is_hex t \<Longrightarrow> list_all (\<lambda>d. d = CHR ''-'' \<or> is_lower_alnum d) t"
  by (auto simp: list_all_iff is_hex_lower_alnum)

lemma lower_alnum_lab: "is_lower_alnum CHR ''l''" "is_lower_alnum CHR ''a''" "is_lower_alnum CHR ''b''"
  by (simp_all add: is_lower_alnum_def)

lemma dns_1123_lab:
  assumes "list_all is_hex t" and "t \<noteq> []" and "length t \<le> 40"
  shows "DNS_1123_LABEL (''lab-'' @ t)"
proof -
  from assms(2) have bl: "butlast (''ab-'' @ t) = ''ab-'' @ butlast t"
    and la: "last (''ab-'' @ t) = last t"
    by (simp_all add: butlast_append)
  have "list_all is_hex (butlast t)"
    using assms(1) by (auto simp: list_all_iff dest: in_set_butlastD)
  then have "list_all (\<lambda>d. d = CHR ''-'' \<or> is_lower_alnum d) (butlast (''ab-'' @ t))"
    unfolding bl by (simp add: list_all_hex_dns lower_alnum_lab)
  moreover have "is_lower_alnum (last (''ab-'' @ t))"
    using assms(1,2) unfolding la by (simp add: list_all_iff is_hex_lower_alnum)
  moreover have "length (butlast (''ab-'' @ t)) \<le> 61"
    using assms(2,3) unfolding bl by simp
  ultimately show ?thesis
    using assms(2,3) by (simp add: DNS_1123_LABEL_def lower_alnum_lab)
qed

lemma lab_not_protected: "\<not> isProtectedNamespace (''lab-'' @ t)"
  by (simp add: isProtectedNamespace_def PROTECTED_NAMESPACES_def starts_with_def)

text \<open>
  The guards before the canonical pattern are all implied by it, but for the
  prefix the caller asks for: what is accepted is exactly the canonical shape.
\<close>

lemma assertValidLabNamespace_iff:
  "assertValidLabNamespace (UString s) prefix = Inr r \<longleftrightarrow>
     r = s \<and> LAB_NAMESPACE_PATTERN s \<and> starts_with prefix s \<and> length prefix < length s"
proof (cases "LAB_NAMESPACE_PATTERN s")
  case True
  then obtain t where t: "s = ''lab-'' @ t" "6 \<le> length t" "length t \<le> 40" "list_all is_hex t"
    by (auto simp: LAB_NAMESPACE_PATTERN_def elim: prefix_hexE)
  then have "t \<noteq> []" by auto
  with t have "DNS_1123_LABEL s" and "\<not> isProtectedNamespace s" and "length s \<le> 63"
    and "s \<noteq> []"
    using dns_1123_lab [of t] lab_not_protected [of t] by auto
  with True show ?thesis
    by (auto simp: assertValidLabNamespace_def MAX_NAMESPACE_LENGTH_def)
next
  case False
  then show ?thesis by (simp add: assertValidLabNamespace_def)
qed

lemma assertValidContainerSandboxRef_iff:
  "assertValidContainerSandboxRef (UString s) = Inr r \<longleftrightarrow> r = s \<and> CONTAINER_SANDBOX_PATTERN s"
  by (auto simp: assertValidContainerSandboxRef_def)

lemma assertValidContainerNetworkRef_iff:
  "assertValidContainerNetworkRef (UString s) = Inr r \<longleftrightarrow> r = s \<and> CONTAINER_NETWORK_PATTERN s"
  by (auto simp: assertValidContainerNetworkRef_def)

text \<open>
  What the derivations rely on of the keyed hash.
\<close>

definition hmac_hex :: "(string \<Rightarrow> string \<Rightarrow> string) \<Rightarrow> bool" where
  "hmac_hex hmac \<longleftrightarrow> (\<forall>k m. 40 \<le> length (hmac k m) \<and> list_all is_hex (hmac k m))"

lemma hmac_hex_take:
  assumes "hmac_hex hmac" and "n \<le> 40"
  shows "length (take n (hmac k m)) = n" and "list_all is_hex (take n (hmac k m))"
proof -
  have "40 \<le> length (hmac k m)" and "list_all is_hex (hmac k m)"
    using assms(1) by (auto simp: hmac_hex_def)
  then show "length (take n (hmac k m)) = n" and "list_all is_hex (take n (hmac k m))"
    using assms(2) by (auto simp: list_all_iff dest: in_set_takeD)
qed

lemma deriveNamespace_eq:
  assumes h: "hmac_hex hmac" and sid: "SESSION_ID_PATTERN sid" and sec: "8 \<le> length secret"
  shows "deriveNamespace hmac sid secret None None =
           Inr (''lab-'' @ take 12 (hmac secret (''namespace:'' @ sid)))"
proof -
  let ?t = "take 12 (hmac secret (''namespace:'' @ sid))"
  have "length ?t = 12" "list_all is_hex ?t"
    using hmac_hex_take [OF h, of 12] by simp_all
  then have "assertValidLabNamespace (UString (''lab-'' @ ?t)) ''lab-'' = Inr (''lab-'' @ ?t)"
    unfolding assertValidLabNamespace_iff LAB_NAMESPACE_PATTERN_def prefix_hex_append
    by (simp add: starts_with_def)
  moreover have "assertValidSessionId (UString sid) = Inr sid"
    using sid by (simp add: assertValidSessionId_iff)
  ultimately show ?thesis
    using sec by (simp add: deriveNamespace_def DEFAULT_NAMESPACE_SUFFIX_CHARS_def NAMESPACE_PREFIX_def)
qed

lemma deriveSandboxRef_container_eq:
  assumes h: "hmac_hex hmac" and sid: "SESSION_ID_PATTERN sid" and sec: "8 \<le> length secret"
  shows "deriveSandboxRef hmac sid secret (Some CONTAINER_SANDBOX_PREFIX) None =
           Inr (''jtt-lab-'' @ take 12 (hmac secret (''sandbox:jtt-lab-:'' @ sid)))"
proof -
  let ?t = "take 12 (hmac secret (''sandbox:jtt-lab-:'' @ sid))"
  have "length ?t = 12" "list_all is_hex ?t"
    using hmac_hex_take [OF h, of 12] by simp_all
  then have "assertValidContainerSandboxRef (UString (''jtt-lab-'' @ ?t)) = Inr (''jtt-lab-'' @ ?t)"
    unfolding assertValidContainerSandboxRef_iff CONTAINER_SANDBOX_PATTERN_def prefix_hex_append
    by simp
  moreover have "assertValidSessionId (UString sid) = Inr sid"
    using sid by (simp add: assertValidSessionId_iff)
  ultimately show ?thesis
    using sec by (simp add: deriveSandboxRef_def DEFAULT_NAMESPACE_SUFFIX_CHARS_def
        NAMESPACE_PREFIX_def CONTAINER_SANDBOX_PREFIX_def)
qed

section \<open>Names of different kinds never meet\<close>

lemma prefix_hex_disjoint:
  assumes "prefix_hex p lo hi s" and "prefix_hex q lo' hi' s"
    and "take (min (length p) (length q)) p \<noteq> take (min (length p) (length q)) q"
  shows False
proof -
  have "take (length p) s = p" "take (length q) s = q"
    using assms(1,2) by (auto simp: prefix_hex_def starts_with_def)
  then have "take (min (length p) (length q)) p = take (min (length p) (length q)) s"
    and "take (min (length p) (length q)) q = take (min (length p) (length q)) s"
    by (metis min.cobounded1 min.absorb1 take_take min.commute, metis min.cobounded2 min.absorb1 take_take)
  with assms(3) show False by simp
qed

lemma container_patterns_disjoint:
  "CONTAINER_SANDBOX_PATTERN s \<Longrightarrow> \<not> CONTAINER_PEER_PATTERN s"
  "CONTAINER_SANDBOX_PATTERN s \<Longrightarrow> \<not> CONTAINER_NETWORK_PATTERN s"
  "CONTAINER_PEER_PATTERN s \<Longrightarrow> \<not> CONTAINER_NETWORK_PATTERN s"
  "LAB_NAMESPACE_PATTERN s \<Longrightarrow> \<not> CONTAINER_SANDBOX_PATTERN s"
  "LAB_NAMESPACE_PATTERN s \<Longrightarrow> \<not> CONTAINER_PEER_PATTERN s"
  "LAB_NAMESPACE_PATTERN s \<Longrightarrow> \<not> CONTAINER_NETWORK_PATTERN s"
  by (auto simp: pattern_defs dest: prefix_hex_disjoint)

lemma node_pattern_disjoint:
  assumes "CONTAINER_NODE_PATTERN s"
  shows "\<not> CONTAINER_SANDBOX_PATTERN s" "\<not> CONTAINER_PEER_PATTERN s"
    "\<not> CONTAINER_NETWORK_PATTERN s" "\<not> LAB_NAMESPACE_PATTERN s"
proof -
  from assms obtain d where d: "prefix_hex (''jtt-node'' @ [d] @ ''-'') 6 40 s"
    by (auto simp: CONTAINER_NODE_PATTERN_def list_ex_iff)
  show "\<not> CONTAINER_SANDBOX_PATTERN s" "\<not> CONTAINER_PEER_PATTERN s"
    "\<not> CONTAINER_NETWORK_PATTERN s" "\<not> LAB_NAMESPACE_PATTERN s"
    using d by (auto simp: pattern_defs dest: prefix_hex_disjoint [OF d])
qed

lemmas name_kinds_disjoint = container_patterns_disjoint node_pattern_disjoint

lemma show_index_digit:
  assumes "1 \<le> index" and "index \<le> 9"
  shows "\<exists>d \<in> set ''123456789''. show_int index = [d]"
proof -
  have "index \<in> {1, 2, 3, 4, 5, 6, 7, 8, 9}" using assms by auto
  then show ?thesis by (elim insertE) (simp_all add: show_int_def show_nat_digit char_of_def bit_Suc_0_iff)
qed

lemma node_pattern_intro:
  assumes "d \<in> set ''123456789''" and "6 \<le> length t" "length t \<le> 40" "list_all is_hex t"
  shows "CONTAINER_NODE_PATTERN ((''jtt-node'' @ [d] @ ''-'') @ t)"
proof -
  have "prefix_hex (''jtt-node'' @ [d] @ ''-'') 6 40 ((''jtt-node'' @ [d] @ ''-'') @ t)"
    unfolding prefix_hex_append using assms by blast
  with assms(1) show ?thesis unfolding CONTAINER_NODE_PATTERN_def list_ex_iff by blast
qed

section \<open>Properties\<close>

text \<open>
  The names a session is bound to at start. For every well-formed session id
  and any keyed hash with hexadecimal digests, deriving the namespace and the
  container name never fails; the namespace passes the platform's own validator
  and is no protected cluster namespace, the container name passes the container
  validator, and neither can be mistaken for the other.
\<close>

theorem derived_names_valid:
  assumes h: "hmac_hex hmac" and sid: "SESSION_ID_PATTERN sid" and sec: "8 \<le> length secret"
  shows "\<exists>ns ref.
     deriveNamespace hmac sid secret None None = Inr ns \<and>
     deriveSandboxRef hmac sid secret (Some CONTAINER_SANDBOX_PREFIX) None = Inr ref \<and>
     isLabNamespace (UString ns) NAMESPACE_PREFIX \<and> \<not> isProtectedNamespace ns \<and>
     isContainerSandboxRef (UString ref) \<and>
     \<not> isContainerSandboxRef (UString ns) \<and> \<not> isLabNamespace (UString ref) NAMESPACE_PREFIX"
proof -
  let ?ns = "''lab-'' @ take 12 (hmac secret (''namespace:'' @ sid))"
  let ?ref = "''jtt-lab-'' @ take 12 (hmac secret (''sandbox:jtt-lab-:'' @ sid))"
  have ns: "deriveNamespace hmac sid secret None None = Inr ?ns"
    by (rule deriveNamespace_eq [OF h sid sec])
  have ref: "deriveSandboxRef hmac sid secret (Some CONTAINER_SANDBOX_PREFIX) None = Inr ?ref"
    by (rule deriveSandboxRef_container_eq [OF h sid sec])
  have lab: "LAB_NAMESPACE_PATTERN ?ns" and con: "CONTAINER_SANDBOX_PATTERN ?ref"
    unfolding LAB_NAMESPACE_PATTERN_def CONTAINER_SANDBOX_PATTERN_def prefix_hex_append
    using hmac_hex_take [OF h, of 12] by simp_all
  have "assertValidLabNamespace (UString ?ns) NAMESPACE_PREFIX = Inr ?ns"
    unfolding assertValidLabNamespace_iff using lab hmac_hex_take(1) [OF h, of 12]
    by (auto simp: NAMESPACE_PREFIX_def starts_with_def)
  moreover have "\<not> isLabNamespace (UString ?ref) NAMESPACE_PREFIX"
    using container_patterns_disjoint(4) con
    by (auto simp: isLabNamespace_def assertValidLabNamespace_iff split: sum.splits)
  moreover have "\<not> CONTAINER_SANDBOX_PATTERN ?ns"
    by (rule container_patterns_disjoint(4) [OF lab])
  ultimately show ?thesis
    using ns ref con lab_not_protected
    by (intro exI [of _ ?ns] exI [of _ ?ref]) (simp add: isLabNamespace_def isContainerSandboxRef_def)
qed

theorem derived_names_valid_witness:
  "\<exists>ns ref.
     deriveNamespace (\<lambda>_ _. replicate 64 CHR ''a'') ''sess-0123456789abcdef'' ''secret-key'' None None
       = Inr ns \<and>
     deriveSandboxRef (\<lambda>_ _. replicate 64 CHR ''a'') ''sess-0123456789abcdef'' ''secret-key''
       (Some CONTAINER_SANDBOX_PREFIX) None = Inr ref \<and>
     isLabNamespace (UString ns) NAMESPACE_PREFIX \<and> \<not> isProtectedNamespace ns \<and>
     isContainerSandboxRef (UString ref) \<and>
     \<not> isContainerSandboxRef (UString ns) \<and> \<not> isLabNamespace (UString ref) NAMESPACE_PREFIX"
proof (rule derived_names_valid)
  show "hmac_hex (\<lambda>_ _. replicate 64 CHR ''a'')"
    by (simp add: hmac_hex_def list_all_iff is_hex_def)
  show "SESSION_ID_PATTERN ''sess-0123456789abcdef''"
    by (simp add: SESSION_ID_PATTERN_def prefix_hex_def starts_with_def is_hex_def)
  show "8 \<le> length ''secret-key''" by simp
qed

text \<open>
  The names of a session's topology rise and fall together. From a valid
  sandbox name the network name is derived, is a valid network name, and gives the
  sandbox name back; the peer and every managed node (index 1 to 9) get valid
  managed-container names that are no sandbox names, so the reaper, which lists
  sandboxes by name shape, can never take a peer or a node for a sandbox.
\<close>

theorem topology_names_roundtrip:
  assumes ref: "CONTAINER_SANDBOX_PATTERN ref" and i: "1 \<le> index" "index \<le> 9"
  shows "\<exists>net peer node.
     networkRefForSandbox ref = Inr net \<and> isContainerNetworkRef (UString net) \<and>
     sandboxRefForNetwork net = Inr ref \<and>
     peerRefForSandbox ref = Inr peer \<and>
     assertValidManagedContainerRef (UString peer) = Inr peer \<and>
     nodeRefForSandbox ref index = Inr node \<and>
     assertValidManagedContainerRef (UString node) = Inr node \<and>
     \<not> isContainerSandboxRef (UString net) \<and> \<not> isContainerSandboxRef (UString peer) \<and>
     \<not> isContainerSandboxRef (UString node)"
proof -
  from ref obtain t where t: "ref = ''jtt-lab-'' @ t" "6 \<le> length t" "length t \<le> 40"
      "list_all is_hex t"
    by (auto simp: CONTAINER_SANDBOX_PATTERN_def elim: prefix_hexE)
  from show_index_digit [OF i] obtain d where d: "d \<in> set ''123456789''" "show_int index = [d]"
    by blast
  let ?net = "''jtt-net-'' @ t" and ?peer = "''jtt-peer-'' @ t"
    and ?node = "(''jtt-node'' @ [d] @ ''-'') @ t"
  have pn: "CONTAINER_NETWORK_PATTERN ?net" and pp: "CONTAINER_PEER_PATTERN ?peer"
    unfolding CONTAINER_NETWORK_PATTERN_def CONTAINER_PEER_PATTERN_def prefix_hex_append
    using t by simp_all
  have pd: "CONTAINER_NODE_PATTERN ?node"
    by (rule node_pattern_intro [OF d(1) t(2-4)])
  have ref': "assertValidContainerSandboxRef (UString ref) = Inr ref"
    using ref by (simp add: assertValidContainerSandboxRef_iff)
  have "networkRefForSandbox ref = Inr ?net" "peerRefForSandbox ref = Inr ?peer"
    "nodeRefForSandbox ref index = Inr ?node"
    unfolding networkRefForSandbox_def peerRefForSandbox_def nodeRefForSandbox_def ref' sum.case
    using d(2) i t(1) by simp_all
  moreover have "sandboxRefForNetwork ?net = Inr ref"
  proof -
    have net: "assertValidContainerNetworkRef (UString ?net) = Inr ?net"
      using pn by (simp add: assertValidContainerNetworkRef_iff)
    show ?thesis unfolding sandboxRefForNetwork_def net sum.case using t(1) by simp
  qed
  moreover have "assertValidManagedContainerRef (UString ?peer) = Inr ?peer"
    "assertValidManagedContainerRef (UString ?node) = Inr ?node"
    using pp pd unfolding assertValidManagedContainerRef_def isContainerPeerRef_def
      isContainerNodeRef_def by simp_all
  moreover have "isContainerNetworkRef (UString ?net)"
    using pn by (simp add: isContainerNetworkRef_def)
  moreover have "\<not> CONTAINER_SANDBOX_PATTERN ?net" "\<not> CONTAINER_SANDBOX_PATTERN ?peer"
    "\<not> CONTAINER_SANDBOX_PATTERN ?node"
    using container_patterns_disjoint(1,2) node_pattern_disjoint(1) pn pp pd by blast+
  ultimately show ?thesis unfolding isContainerSandboxRef_def unknown_value.case by blast
qed

theorem topology_names_roundtrip_witness:
  "\<exists>net peer node.
     networkRefForSandbox ''jtt-lab-3f9c1a7b2d40'' = Inr net \<and> isContainerNetworkRef (UString net) \<and>
     sandboxRefForNetwork net = Inr ''jtt-lab-3f9c1a7b2d40'' \<and>
     peerRefForSandbox ''jtt-lab-3f9c1a7b2d40'' = Inr peer \<and>
     assertValidManagedContainerRef (UString peer) = Inr peer \<and>
     nodeRefForSandbox ''jtt-lab-3f9c1a7b2d40'' 2 = Inr node \<and>
     assertValidManagedContainerRef (UString node) = Inr node \<and>
     \<not> isContainerSandboxRef (UString net) \<and> \<not> isContainerSandboxRef (UString peer) \<and>
     \<not> isContainerSandboxRef (UString node)"
  by (rule topology_names_roundtrip)
    (simp_all add: CONTAINER_SANDBOX_PATTERN_def prefix_hex_def starts_with_def is_hex_def)

end
