(* ===== verification/Js_Text.thy ===== *)
theory Js_Text
  imports Prelude
begin

text \<open>
  The string functions of the JavaScript standard library that the verifier, the
  entitlements and the billing code use: \<open>toLowerCase\<close>, \<open>trim\<close>, \<open>split\<close> and \<open>join\<close> on
  a separator of one character, decimal numerals with \<open>Number\<close> and \<open>String\<close>, and the
  values of \<open>JSON.parse\<close>.
  Strings are ASCII; \<open>trim\<close> removes the whitespace of that range.
\<close>

section \<open>Characters\<close>

definition is_upper :: "char \<Rightarrow> bool" where
  "is_upper c \<longleftrightarrow> c \<in> set ''ABCDEFGHIJKLMNOPQRSTUVWXYZ''"

definition is_digit :: "char \<Rightarrow> bool" where
  "is_digit c \<longleftrightarrow> c \<in> set ''0123456789''"

definition is_space :: "char \<Rightarrow> bool" where
  "is_space c \<longleftrightarrow> (let n = (of_char c :: nat) in n = 32 \<or> 9 \<le> n \<and> n \<le> 13)"

text \<open>\<open>toUpperCase\<close> and \<open>toLowerCase\<close>.\<close>

definition upper_char :: "char \<Rightarrow> char" where
  "upper_char c = (let n = (of_char c :: nat) in if 97 \<le> n \<and> n \<le> 122 then char_of (n - 32) else c)"

definition lower_char :: "char \<Rightarrow> char" where
  "lower_char c = (let n = (of_char c :: nat) in if 65 \<le> n \<and> n \<le> 90 then char_of (n + 32) else c)"

definition toUpperCase :: "string \<Rightarrow> string" where
  "toUpperCase s = map upper_char s"

definition toLowerCase :: "string \<Rightarrow> string" where
  "toLowerCase s = map lower_char s"

definition trim :: "string \<Rightarrow> string" where
  "trim s = rev (dropWhile is_space (rev (dropWhile is_space s)))"

lemma trim_id: "s \<noteq> [] \<Longrightarrow> \<not> is_space (hd s) \<Longrightarrow> \<not> is_space (last s) \<Longrightarrow> trim s = s"
proof -
  assume "s \<noteq> []" "\<not> is_space (hd s)" "\<not> is_space (last s)"
  then have "dropWhile is_space s = s" "dropWhile is_space (rev s) = rev s"
    by (simp_all add: dropWhile_eq_self_iff hd_rev)
  then show ?thesis by (simp add: trim_def)
qed

lemma lower_char_idem: "lower_char (lower_char c) = lower_char c"
proof (cases "65 \<le> (of_char c :: nat) \<and> (of_char c :: nat) \<le> 90")
  case True
  then have "(of_char (char_of ((of_char c :: nat) + 32)) :: nat) = of_char c + 32" by simp
  with True show ?thesis by (auto simp: lower_char_def Let_def)
qed (auto simp: lower_char_def Let_def)

lemma toLowerCase_idem [simp]: "toLowerCase (toLowerCase s) = toLowerCase s"
  by (simp add: toLowerCase_def lower_char_idem comp_def)

lemma upper_char_idem: "upper_char (upper_char c) = upper_char c"
proof (cases "97 \<le> (of_char c :: nat) \<and> (of_char c :: nat) \<le> 122")
  case True
  then have "(of_char (char_of ((of_char c :: nat) - 32)) :: nat) = of_char c - 32"
    by (simp add: of_char_of less_imp_diff_less)
  with True show ?thesis by (auto simp: upper_char_def Let_def)
qed (auto simp: upper_char_def Let_def)

lemma toUpperCase_idem: "toUpperCase (toUpperCase s) = toUpperCase s"
  by (simp add: toUpperCase_def upper_char_idem comp_def)

section \<open>Decimal numerals\<close>

definition digit_value :: "char \<Rightarrow> nat" where
  "digit_value c = of_char c - 48"

text \<open>\<open>Number(s)\<close> for a string of decimal digits.\<close>

definition read_nat :: "string \<Rightarrow> nat" where
  "read_nat s = foldl (\<lambda>n c. 10 * n + digit_value c) 0 s"

lemma is_digit_char: "(d :: nat) < 10 \<Longrightarrow> is_digit (char_of (48 + d))"
proof -
  assume "d < 10"
  then have "d = 0 \<or> d = 1 \<or> d = 2 \<or> d = 3 \<or> d = 4 \<or> d = 5 \<or> d = 6 \<or> d = 7 \<or> d = 8 \<or> d = 9"
    by presburger
  then show ?thesis by (elim disjE) (simp_all add: is_digit_def char_of_def bit_0)
qed

lemma digit_value_char: "d < 10 \<Longrightarrow> digit_value (char_of (48 + d)) = d"
  by (simp add: digit_value_def)

lemma show_nat_digits: "list_all is_digit (show_nat n)"
proof (induction n rule: show_nat.induct)
  case (1 n)
  then show ?case by (subst show_nat.simps) (simp add: is_digit_char)
qed

lemma show_nat_not_Nil [simp]: "show_nat n \<noteq> []"
  by (subst show_nat.simps) simp

lemma read_nat_snoc: "read_nat (s @ [c]) = 10 * read_nat s + digit_value c"
  by (simp add: read_nat_def)

lemma read_nat_show_nat [simp]: "read_nat (show_nat n) = n"
proof (induction n rule: show_nat.induct)
  case (1 n)
  show ?case
  proof (cases "n < 10")
    case True
    then show ?thesis by (simp add: show_nat_digit read_nat_def digit_value_char)
  next
    case False
    with 1 show ?thesis by (subst show_nat.simps) (simp add: read_nat_snoc digit_value_char)
  qed
qed

lemma length_show_nat: "n < 10 ^ k \<Longrightarrow> 0 < k \<Longrightarrow> length (show_nat n) \<le> k"
proof (induction n arbitrary: k rule: show_nat.induct)
  case (1 n)
  show ?case
  proof (cases "n < 10")
    case True
    with "1.prems" show ?thesis by (simp add: show_nat_digit)
  next
    case False
    with "1.prems" obtain k' where k: "k = Suc k'" "0 < k'" by (cases k; cases "k - 1") auto
    with "1.prems" have "n div 10 < 10 ^ k'" by auto
    from "1.IH" [OF False this k(2)] k False show ?thesis by (subst show_nat.simps) simp
  qed
qed

text \<open>No leading zeros.\<close>

lemma hd_show_nat: "hd (show_nat n) = CHR ''0'' \<Longrightarrow> n = 0"
proof (induction n rule: show_nat.induct)
  case (1 n)
  show ?case
  proof (cases "n < 10")
    case True
    with "1.prems" have "(of_char (char_of (48 + n)) :: nat) = of_char (CHR ''0'')"
      by (simp add: show_nat_digit)
    with True show ?thesis by simp
  next
    case False
    have "hd (show_nat n) = hd (show_nat (n div 10))"
      using False by (subst show_nat.simps) (simp add: hd_append)
    with 1 False have "n div 10 = 0" by simp
    with False show ?thesis by simp
  qed
qed

lemma show_nat_canonical: "length (show_nat n) \<le> 1 \<or> hd (show_nat n) \<noteq> CHR ''0''"
  using hd_show_nat [of n] by (cases "n = 0") (auto simp: show_nat_digit)

section \<open>Splitting and joining\<close>

fun split_on :: "char \<Rightarrow> string \<Rightarrow> string list" where
  "split_on sep [] = [[]]"
| "split_on sep (c # s) =
     (if c = sep then [] # split_on sep s
      else (case split_on sep s of
              w # ws \<Rightarrow> (c # w) # ws
            | [] \<Rightarrow> [[c]]))"

fun join_with :: "string \<Rightarrow> string list \<Rightarrow> string" where
  "join_with sep [] = []"
| "join_with sep [w] = w"
| "join_with sep (w # v # ws) = w @ sep @ join_with sep (v # ws)"

lemma join_with_split_on: "join_with [sep] (split_on sep s) = s"
proof (induction s)
  case (Cons c s)
  then show ?case by (cases "split_on sep s" rule: list.exhaust; cases "tl (split_on sep s)") auto
qed simp

lemma split_on_no_sep: "sep \<notin> set w \<Longrightarrow> split_on sep w = [w]"
  by (induction w) auto

lemma split_on_append: "sep \<notin> set w \<Longrightarrow> split_on sep (w @ sep # s) = w # split_on sep s"
  by (induction w) auto

lemma split_join:
  "ws \<noteq> [] \<Longrightarrow> \<forall>w\<in>set ws. sep \<notin> set w \<Longrightarrow> split_on sep (join_with [sep] ws) = ws"
proof (induction "[sep]" ws rule: join_with.induct)
  case (3 w v ws)
  then show ?case by (simp add: split_on_append)
qed (auto simp: split_on_no_sep)

section \<open>Sorting\<close>

text \<open>\<open>Array.prototype.sort\<close>, which is stable.\<close>

fun insert_by :: "('a \<Rightarrow> 'a \<Rightarrow> bool) \<Rightarrow> 'a \<Rightarrow> 'a list \<Rightarrow> 'a list" where
  "insert_by le x [] = [x]"
| "insert_by le x (y # ys) = (if le x y then x # y # ys else y # insert_by le x ys)"

definition sort_by :: "('a \<Rightarrow> 'a \<Rightarrow> bool) \<Rightarrow> 'a list \<Rightarrow> 'a list" where
  "sort_by le xs = foldr (insert_by le) xs []"

text \<open>The order of \<open>Array.prototype.sort\<close> on strings: by code units.\<close>

fun units_le :: "string \<Rightarrow> string \<Rightarrow> bool" where
  "units_le [] t = True"
| "units_le (c # s) [] = False"
| "units_le (c # s) (d # t) =
     ((of_char c :: nat) < of_char d \<or> c = d \<and> units_le s t)"

lemma set_insert_by: "set (insert_by le x ys) = insert x (set ys)"
  by (induction ys) auto

lemma set_sort_by: "set (sort_by le xs) = set xs"
  by (induction xs) (simp_all add: sort_by_def set_insert_by)

lemma sorted_insert_by:
  assumes "\<And>a b. le a b \<or> le b a" "\<And>a b c. le a b \<Longrightarrow> le b c \<Longrightarrow> le a c"
  shows "sorted_wrt le ys \<Longrightarrow> sorted_wrt le (insert_by le x ys)"
proof (induction ys)
  case (Cons y ys)
  show ?case
  proof (cases "le x y")
    case True
    with Cons.prems assms(2) show ?thesis by auto
  next
    case False
    then have "le y x" using assms(1) by blast
    with Cons False show ?thesis by (auto simp: set_insert_by)
  qed
qed simp

lemma sorted_sort_by:
  assumes "\<And>a b. le a b \<or> le b a" "\<And>a b c. le a b \<Longrightarrow> le b c \<Longrightarrow> le a c"
  shows "sorted_wrt le (sort_by le xs)"
  by (induction xs) (simp_all add: sort_by_def sorted_insert_by [OF assms])

lemma hd_sort_by:
  assumes "xs \<noteq> []" "\<And>a b. le a b \<or> le b a" "\<And>a b c. le a b \<Longrightarrow> le b c \<Longrightarrow> le a c"
  shows "hd (sort_by le xs) \<in> set xs \<and> (\<forall>x\<in>set xs. le (hd (sort_by le xs)) x)"
proof -
  have "sort_by le xs \<noteq> []" using set_sort_by [of le xs] assms(1) by (metis set_empty2)
  then obtain y ys where y: "sort_by le xs = y # ys" by (cases "sort_by le xs") auto
  have "sorted_wrt le (y # ys)" unfolding y [symmetric] by (rule sorted_sort_by) (use assms(2,3) in blast)+
  moreover have "set xs = set (y # ys)" using set_sort_by [of le xs] y by simp
  moreover have "le y y" using assms(2) by blast
  ultimately show ?thesis using y by auto
qed

lemma map_sort_by:
  assumes "\<And>x y. x \<in> set xs \<Longrightarrow> y \<in> set xs \<Longrightarrow> le' x y \<longleftrightarrow> le (f x) (f y)"
  shows "map f (sort_by le' xs) = sort_by le (map f xs)"
proof -
  have ins: "map f (insert_by le' x ys) = insert_by le (f x) (map f ys)"
    if "\<And>y. y \<in> set ys \<Longrightarrow> le' x y \<longleftrightarrow> le (f x) (f y)" for x ys
    using that by (induction ys) auto
  show ?thesis using assms
  proof (induction xs)
    case (Cons x xs)
    have "map f (insert_by le' x (sort_by le' xs)) = insert_by le (f x) (map f (sort_by le' xs))"
      using Cons.prems by (intro ins) (simp add: set_sort_by)
    with Cons show ?case by (simp add: sort_by_def)
  qed (simp add: sort_by_def)
qed

lemma filter_sort_by:
  assumes total: "\<And>a b. le a b \<or> le b a" and trans: "\<And>a b c. le a b \<Longrightarrow> le b c \<Longrightarrow> le a c"
  shows "filter P (sort_by le xs) = sort_by le (filter P xs)"
proof -
  have head: "insert_by le x zs = x # zs" if "\<forall>z\<in>set zs. le x z" for x zs
    using that by (cases zs) auto
  have ins: "filter P (insert_by le x ys) = (if P x then insert_by le x (filter P ys) else filter P ys)"
    if "sorted_wrt le ys" for x ys
    using that
  proof (induction ys)
    case (Cons y ys)
    show ?case
    proof (cases "le x y")
      case True
      with Cons.prems trans have "\<forall>z\<in>set (y # ys). le x z" by auto
      with True show ?thesis by (auto simp: head)
    qed (use Cons in auto)
  qed simp
  show ?thesis
    by (induction xs)
      (use ins [OF sorted_sort_by [OF total trans, unfolded sort_by_def]] in \<open>simp_all add: sort_by_def\<close>)
qed

section \<open>JSON values\<close>

text \<open>
  What \<open>JSON.parse\<close> gives. An object is its \<open>Object.entries\<close> in order; a number is
  kept as the text \<open>String\<close> gives for it.
\<close>

datatype json =
    JNull
  | JBool bool
  | JNumber string
  | JString string
  | JArray "json list"
  | JObject "(string \<times> json) list"

text \<open>
  The whole number a JSON numeral denotes, if it denotes one (\<open>10\<close>, \<open>10.0\<close> and \<open>1e1\<close>
  all denote ten): what \<open>Number.isInteger\<close> sees of it, short of the rounding of numerals
  with more digits than a double holds.
\<close>

fun exponent_value :: "string \<Rightarrow> int" where
  "exponent_value [] = 0"
| "exponent_value (c # s) =
     (if c = CHR ''-'' then - int (read_nat s)
      else if c = CHR ''+'' then int (read_nat s) else int (read_nat (c # s)))"

definition json_integer :: "string \<Rightarrow> int option" where
  "json_integer s =
     (let negative = (take 1 s = ''-'');
          parts = split_on CHR ''e'' (toLowerCase (if negative then drop 1 s else s));
          mantissa = split_on CHR ''.'' (hd parts);
          fraction = concat (tl mantissa);
          n = (if negative then -1 else 1) * int (read_nat (hd mantissa @ fraction));
          k = exponent_value (concat (tl parts)) - int (length fraction)
      in if 0 \<le> k then Some (n * 10 ^ nat k)
         else if 10 ^ nat (- k) dvd n then Some (n div 10 ^ nat (- k))
         else None)"

lemma json_integer_samples:
  "json_integer ''10'' = Some 10" "json_integer ''10.0'' = Some 10" "json_integer ''1e1'' = Some 10"
  "json_integer ''-3'' = Some (-3)" "json_integer ''0.5'' = None" "json_integer ''50E-1'' = Some 5"
  by code_simp+

end
