(* ===== verification/Lab_Registry.thy ===== *)
theory Lab_Registry
  imports Session_Types Session_Identifiers Js_Text
begin

text \<open>
  The lab registry: \<open>validation.ts\<close> and \<open>lab-registry.ts\<close> under
  \<open>services/lab-orchestrator/src\<close>. Lab ids from the network are canonicalised and
  checked against an allow-list; the definitions read from disk are registered
  unless their id or slug is taken; labs whose prerequisites are missing or form a
  cycle are unregistered, repeated to a fixed point. Reading the directory and
  parsing \<open>lab.yaml\<close> are outside the model: \<open>load\<close> starts from the definitions the
  files gave, in the order of their sorted paths. Error texts of the load report are
  kept as data (which lab, and why).
\<close>

section \<open>Lab ids\<close>

definition MAX_LAB_ID_LENGTH :: nat where "MAX_LAB_ID_LENGTH = 16"

text \<open>
  \<open>/^[A-Z][A-Z0-9]{1,9}-\d{3}$/\<close>: the last four characters are a dash and three
  digits, and what comes before is a letter and one to nine letters or digits.
\<close>

definition LAB_ID_PATTERN :: "string \<Rightarrow> bool" where
  "LAB_ID_PATTERN s \<longleftrightarrow>
     6 \<le> length s \<and> length s \<le> 14 \<and>
     is_upper (s ! 0) \<and>
     list_all (\<lambda>c. is_upper c \<or> is_digit c) (take (length s - 5) (drop 1 s)) \<and>
     s ! (length s - 4) = CHR ''-'' \<and>
     list_all is_digit (drop (length s - 3) s)"

datatype lab_error =
    InvalidLabIdError string string
  | LabNotFoundError string

definition assertValidLabId :: "unknown_value \<Rightarrow> lab_error + string" where
  "assertValidLabId input = (case input of
       UOther r \<Rightarrow> Inl (InvalidLabIdError r ''expected a string'')
     | UString s \<Rightarrow>
         if length s = 0 then Inl (InvalidLabIdError s ''must not be empty'')
         else if length s > MAX_LAB_ID_LENGTH
         then Inl (InvalidLabIdError s ''must be at most 16 characters'')
         else if CHR 0x00 \<in> set s
         then Inl (InvalidLabIdError ''<null-byte>'' ''must not contain null bytes'')
         else let canonical = toUpperCase s in
           if \<not> LAB_ID_PATTERN canonical
           then Inl (InvalidLabIdError s ''must match TRACK-NNN (for example K8S-001)'')
           else Inr canonical)"

definition isValidLabId :: "unknown_value \<Rightarrow> bool" where
  "isValidLabId input = (case assertValidLabId input of Inr _ \<Rightarrow> True | Inl _ \<Rightarrow> False)"

section \<open>Definitions and the registry\<close>

record Lab =
  lab_id :: string
  lab_slug :: string
  lab_title :: string
  lab_track :: string
  lab_topic :: string
  lab_difficulty :: string
  lab_level :: string
  lab_order :: int
  lab_provider :: LabProviderId
  lab_prerequisites :: "string list"
  lab_sourcePath :: string

datatype load_error =
    DuplicateId string string string
  | DuplicateSlug string string string string
  | UnknownPrerequisites string "string list" string
  | PrerequisiteCycle string "string list" string

record LabRegistry =
  labs :: "(string \<times> Lab) list"
  slugs :: "(string \<times> string) list"
  loadErrors :: "load_error list"

definition empty_registry :: LabRegistry where
  "empty_registry = \<lparr>labs = [], slugs = [], loadErrors = []\<rparr>"

definition registry_get :: "LabRegistry \<Rightarrow> string \<Rightarrow> lab_error + Lab" where
  "registry_get reg labid =
     (case assertValidLabId (UString labid) of
        Inl e \<Rightarrow> Inl e
      | Inr canonical \<Rightarrow>
          (case map_of (labs reg) canonical of
             None \<Rightarrow> Inl (LabNotFoundError canonical)
           | Some def \<Rightarrow> Inr def))"

definition getBySlug :: "LabRegistry \<Rightarrow> string \<Rightarrow> Lab option" where
  "getBySlug reg slug =
     (case map_of (slugs reg) slug of
        None \<Rightarrow> None
      | Some i \<Rightarrow> if i = [] then None else map_of (labs reg) i)"

definition registry_has :: "LabRegistry \<Rightarrow> string \<Rightarrow> bool" where
  "registry_has reg labid = (case registry_get reg labid of Inr _ \<Rightarrow> True | Inl _ \<Rightarrow> False)"

section \<open>Loading\<close>

text \<open>One definition of the loop of \<open>load\<close>, with the file it came from.\<close>

definition register_lab :: "Lab \<Rightarrow> LabRegistry \<Rightarrow> LabRegistry" where
  "register_lab def reg =
     (case map_of (labs reg) (lab_id def) of
        Some existing \<Rightarrow> reg\<lparr>loadErrors := loadErrors reg @
          [DuplicateId (lab_id def) (lab_sourcePath existing) (lab_sourcePath def)]\<rparr>
      | None \<Rightarrow>
          (case map_of (slugs reg) (lab_slug def) of
             Some slugOwner \<Rightarrow> reg\<lparr>loadErrors := loadErrors reg @
               [DuplicateSlug (lab_id def) (lab_slug def) slugOwner (lab_sourcePath def)]\<rparr>
           | None \<Rightarrow> reg\<lparr>labs := AList.update (lab_id def) def (labs reg),
                         slugs := AList.update (lab_slug def) (lab_id def) (slugs reg)\<rparr>))"

definition unregister :: "Lab \<Rightarrow> LabRegistry \<Rightarrow> LabRegistry" where
  "unregister def reg = reg\<lparr>labs := AList.delete (lab_id def) (labs reg),
                            slugs := AList.delete (lab_slug def) (slugs reg)\<rparr>"

definition missing_prerequisites :: "Lab \<Rightarrow> LabRegistry \<Rightarrow> string list" where
  "missing_prerequisites def reg =
     filter (\<lambda>i. map_of (labs reg) i = None) (lab_prerequisites def)"

definition drop_missing :: "Lab \<Rightarrow> LabRegistry \<times> bool \<Rightarrow> LabRegistry \<times> bool" where
  "drop_missing def = (\<lambda>(reg, removedAny).
     let missing = missing_prerequisites def reg in
     if missing = [] then (reg, removedAny)
     else (unregister def (reg\<lparr>loadErrors := loadErrors reg @
             [UnknownPrerequisites (lab_id def) missing (lab_sourcePath def)]\<rparr>), True))"

text \<open>
  \<open>walk\<close>: depth first from a lab, with the path walked so far. The source pushes
  and pops one path and mirrors it in a set; passing the path down is the same.
  Every recursive call extends a path of distinct registered ids, so the number of
  registered labs not on the path decreases.
\<close>

function (sequential) walk :: "LabRegistry \<Rightarrow> string list \<Rightarrow> string \<Rightarrow> string list option"
  and walk_all :: "LabRegistry \<Rightarrow> string list \<Rightarrow> string list \<Rightarrow> string list option" where
  "walk reg path i =
     (if i \<in> set path then Some (dropWhile (\<lambda>x. x \<noteq> i) path @ [i])
      else (case map_of (labs reg) i of
              None \<Rightarrow> None
            | Some def \<Rightarrow> walk_all reg (path @ [i]) (lab_prerequisites def)))"
| "walk_all reg path [] = None"
| "walk_all reg path (p # ps) =
     (case walk reg path p of
        Some found \<Rightarrow> Some found
      | None \<Rightarrow> walk_all reg path ps)"
  by pat_completeness auto

definition off_path :: "LabRegistry \<Rightarrow> string list \<Rightarrow> nat" where
  "off_path reg path = card (fst ` set (labs reg) - set path)"

lemma off_path_less:
  assumes "i \<notin> set path" and "map_of (labs reg) i = Some def"
  shows "off_path reg (path @ [i]) < off_path reg path"
proof -
  have "i \<in> fst ` set (labs reg)" using assms(2) by (force dest: map_of_SomeD)
  with assms(1) show ?thesis
    unfolding off_path_def by (intro psubset_card_mono) auto
qed

termination walk
proof (relation "measures
    [\<lambda>x. case x of Inl (reg, path, i) \<Rightarrow> off_path reg path | Inr (reg, path, ps) \<Rightarrow> off_path reg path,
     \<lambda>x. case x of Inl _ \<Rightarrow> 0 | Inr (reg, path, ps) \<Rightarrow> Suc (length ps)]")
qed (auto simp: off_path_less)

declare walk.simps [simp del]

definition findPrerequisiteCycle :: "LabRegistry \<Rightarrow> string \<Rightarrow> string list option" where
  "findPrerequisiteCycle reg start = walk reg [] start"

definition drop_cyclic :: "Lab \<Rightarrow> LabRegistry \<times> bool \<Rightarrow> LabRegistry \<times> bool" where
  "drop_cyclic def = (\<lambda>(reg, removedAny).
     case findPrerequisiteCycle reg (lab_id def) of
       None \<Rightarrow> (reg, removedAny)
     | Some cycle \<Rightarrow> (unregister def (reg\<lparr>loadErrors := loadErrors reg @
             [PrerequisiteCycle (lab_id def) cycle (lab_sourcePath def)]\<rparr>), True))"

text \<open>One round of \<open>#validatePrerequisites\<close>: each loop over a copy of the values.\<close>

definition validate_round :: "LabRegistry \<Rightarrow> LabRegistry \<times> bool" where
  "validate_round reg =
     (let (reg1, removed1) = fold drop_missing (map snd (labs reg)) (reg, False)
      in fold drop_cyclic (map snd (labs reg1)) (reg1, removed1))"

partial_function (option) validatePrerequisites :: "LabRegistry \<Rightarrow> LabRegistry option" where
  "validatePrerequisites reg =
     (let (reg', removedAny) = validate_round reg
      in if removedAny then validatePrerequisites reg' else Some reg')"

declare validatePrerequisites.simps [code]

definition load :: "Lab list \<Rightarrow> LabRegistry option" where
  "load defs = validatePrerequisites (fold register_lab defs empty_registry)"

section \<open>The prerequisite relation\<close>

definition prereq :: "LabRegistry \<Rightarrow> (string \<times> string) set" where
  "prereq reg = {(i, p). \<exists>def. map_of (labs reg) i = Some def \<and> p \<in> set (lab_prerequisites def)}"

text \<open>A lab nobody can reach: a prerequisite is missing, on a cycle, or itself unreachable.\<close>

inductive unsatisfiable :: "LabRegistry \<Rightarrow> string \<Rightarrow> bool" for reg where
  missing: "(i, p) \<in> prereq reg \<Longrightarrow> map_of (labs reg) p = None \<Longrightarrow> unsatisfiable reg i"
| cyclic: "(i, i) \<in> (prereq reg)\<^sup>+ \<Longrightarrow> unsatisfiable reg i"
| above: "(i, p) \<in> prereq reg \<Longrightarrow> unsatisfiable reg p \<Longrightarrow> unsatisfiable reg i"

definition reg_wf :: "LabRegistry \<Rightarrow> bool" where
  "reg_wf reg \<longleftrightarrow>
     distinct (map fst (labs reg)) \<and> (\<forall>i def. map_of (labs reg) i = Some def \<longrightarrow> lab_id def = i) \<and>
     distinct (map fst (slugs reg)) \<and>
     (\<forall>slug i. map_of (slugs reg) slug = Some i \<longleftrightarrow>
        (\<exists>def. map_of (labs reg) i = Some def \<and> lab_slug def = slug))"

lemma reg_wf_id: "reg_wf reg \<Longrightarrow> map_of (labs reg) i = Some def \<Longrightarrow> lab_id def = i"
  by (simp add: reg_wf_def)

lemma reg_wf_register:
  assumes "reg_wf reg"
  shows "reg_wf (register_lab def reg)"
proof (cases "map_of (labs reg) (lab_id def) = None \<and> map_of (slugs reg) (lab_slug def) = None")
  case False
  then have "labs (register_lab def reg) = labs reg" "slugs (register_lab def reg) = slugs reg"
    by (auto simp: register_lab_def split: option.splits)
  with assms show ?thesis by (simp add: reg_wf_def)
next
  case True
  then have labs: "labs (register_lab def reg) = AList.update (lab_id def) def (labs reg)"
    and slugs: "slugs (register_lab def reg) = AList.update (lab_slug def) (lab_id def) (slugs reg)"
    by (simp_all add: register_lab_def)
  have iff: "map_of (slugs reg) slug = Some i \<longleftrightarrow> (\<exists>d. map_of (labs reg) i = Some d \<and> lab_slug d = slug)" for slug i
    using assms by (simp add: reg_wf_def)
  have "map_of (slugs (register_lab def reg)) slug = Some i \<longleftrightarrow>
      (\<exists>d. map_of (labs (register_lab def reg)) i = Some d \<and> lab_slug d = slug)" for slug i
    unfolding labs slugs map_of_update
    by (cases "i = lab_id def"; cases "slug = lab_slug def")
      (use True iff [of slug i] iff [of "lab_slug def" i] in simp_all)
  moreover have "distinct (map fst (labs (register_lab def reg)))" "distinct (map fst (slugs (register_lab def reg)))"
    using assms unfolding labs slugs reg_wf_def by (simp_all add: distinct_update)
  moreover have "lab_id d = i" if "map_of (labs (register_lab def reg)) i = Some d" for i d
    using that reg_wf_id [OF assms] unfolding labs map_of_update by (auto split: if_splits)
  ultimately show ?thesis unfolding reg_wf_def by blast
qed

lemma reg_wf_load: "reg_wf (fold register_lab defs empty_registry)"
proof -
  have "reg_wf reg \<Longrightarrow> reg_wf (fold register_lab defs reg)" for reg
    by (induction defs arbitrary: reg) (auto simp: reg_wf_register)
  moreover have "reg_wf empty_registry" by (simp add: reg_wf_def empty_registry_def)
  ultimately show ?thesis by blast
qed

lemma inverse_maps_delete:
  assumes "\<And>s i. sm s = Some i \<longleftrightarrow> (\<exists>d. lm i = Some d \<and> f d = s)" and "lm k = Some def"
  shows "(sm(f def := None)) s = Some i \<longleftrightarrow> (\<exists>d. (lm(k := None)) i = Some d \<and> f d = s)"
proof (cases "i = k")
  case True
  have "sm (f def) = Some k" using assms(1) [of "f def" k] assms(2) by blast
  have "\<not> (s \<noteq> f def \<and> sm s = Some k)" using assms(1) [of s k] assms(2) by auto
  with True show ?thesis by auto
next
  case False
  have "sm (f def) = Some k" using assms(1) [of "f def" k] assms(2) by blast
  with False assms(1) [of s i] show ?thesis by (cases "s = f def") auto
qed

lemma reg_wf_unregister:
  assumes "reg_wf reg" and "map_of (labs reg) (lab_id def) = Some def"
  shows "reg_wf (unregister def reg)"
proof -
  have labs: "labs (unregister def reg) = AList.delete (lab_id def) (labs reg)"
    and slugs: "slugs (unregister def reg) = AList.delete (lab_slug def) (slugs reg)"
    by (simp_all add: unregister_def)
  have iff: "map_of (slugs reg) slug = Some i \<longleftrightarrow> (\<exists>d. map_of (labs reg) i = Some d \<and> lab_slug d = slug)" for slug i
    using assms(1) by (simp add: reg_wf_def)
  have "map_of (slugs (unregister def reg)) slug = Some i \<longleftrightarrow>
      (\<exists>d. map_of (labs (unregister def reg)) i = Some d \<and> lab_slug d = slug)" for slug i
    unfolding labs slugs map_of_delete by (rule inverse_maps_delete [where f = lab_slug, OF iff assms(2)])
  moreover have "distinct (map fst (labs (unregister def reg)))" "distinct (map fst (slugs (unregister def reg)))"
    unfolding labs slugs by (rule distinct_delete, use assms in \<open>simp add: reg_wf_def\<close>)+
  moreover have "lab_id d = i" if "map_of (labs (unregister def reg)) i = Some d" for i d
    using that reg_wf_id [OF assms(1)] unfolding labs map_of_delete by (auto split: if_splits)
  ultimately show ?thesis unfolding reg_wf_def by blast
qed

section \<open>The walk finds exactly the cycles\<close>

text \<open>A path of the walk: every id is a prerequisite of the one before.\<close>

lemma walk_finds:
  "walk reg path i = Some c \<Longrightarrow>
     sorted_wrt (\<lambda>a b. (a, b) \<in> (prereq reg)\<^sup>+) (path @ [i]) \<Longrightarrow>
     \<exists>j. (i, j) \<in> (prereq reg)\<^sup>* \<and> (j, j) \<in> (prereq reg)\<^sup>+"
  "walk_all reg path ps = Some c \<Longrightarrow>
     (\<And>p. p \<in> set ps \<Longrightarrow> sorted_wrt (\<lambda>a b. (a, b) \<in> (prereq reg)\<^sup>+) (path @ [p])) \<Longrightarrow>
     \<exists>p j. p \<in> set ps \<and> (p, j) \<in> (prereq reg)\<^sup>* \<and> (j, j) \<in> (prereq reg)\<^sup>+"
proof (induction reg path i and reg path ps rule: walk_walk_all.induct)
  case (1 reg path i)
  show ?case
  proof (cases "i \<in> set path")
    case True
    with "1.prems"(2) have "(i, i) \<in> (prereq reg)\<^sup>+" by (auto simp: sorted_wrt_append)
    then show ?thesis by blast
  next
    case False
    with "1.prems"(1) obtain def where def: "map_of (labs reg) i = Some def"
        and w: "walk_all reg (path @ [i]) (lab_prerequisites def) = Some c"
      by (auto simp: walk.simps split: option.splits)
    have step: "(i, p) \<in> prereq reg" if "p \<in> set (lab_prerequisites def)" for p
      using def that by (auto simp: prereq_def)
    have "sorted_wrt (\<lambda>a b. (a, b) \<in> (prereq reg)\<^sup>+) ((path @ [i]) @ [p])"
      if "p \<in> set (lab_prerequisites def)" for p
      using "1.prems"(2) step [OF that] by (auto simp: sorted_wrt_append intro: trancl.trancl_into_trancl)
    from "1.IH" [OF False def w this] obtain p j where "p \<in> set (lab_prerequisites def)"
        "(p, j) \<in> (prereq reg)\<^sup>*" "(j, j) \<in> (prereq reg)\<^sup>+" by blast
    with step show ?thesis by (meson converse_rtrancl_into_rtrancl)
  qed
next
  case (3 reg path p ps)
  then show ?case by (fastforce split: option.splits)
qed simp_all

lemma walk_complete:
  "walk reg path i = None \<Longrightarrow> (i, j) \<in> (prereq reg)\<^sup>* \<Longrightarrow> j \<notin> set path \<and> (j, j) \<notin> (prereq reg)\<^sup>+"
  "walk_all reg path ps = None \<Longrightarrow> p \<in> set ps \<Longrightarrow> (p, j) \<in> (prereq reg)\<^sup>* \<Longrightarrow>
     j \<notin> set path \<and> (j, j) \<notin> (prereq reg)\<^sup>+"
proof (induction reg path i and reg path ps arbitrary: j and p j rule: walk_walk_all.induct)
  case (1 reg path i)
  have off: "i \<notin> set path" using "1.prems"(1) by (auto simp: walk.simps split: if_splits)
  have tail: "j' \<notin> set (path @ [i]) \<and> (j', j') \<notin> (prereq reg)\<^sup>+"
    if "(i, p) \<in> prereq reg" "(p, j') \<in> (prereq reg)\<^sup>*" for p j'
  proof -
    from that(1) obtain def where def: "map_of (labs reg) i = Some def" "p \<in> set (lab_prerequisites def)"
      by (auto simp: prereq_def)
    with "1.prems"(1) off have "walk_all reg (path @ [i]) (lab_prerequisites def) = None"
      by (simp add: walk.simps)
    from "1.IH" [OF off def(1) this def(2) that(2)] show ?thesis .
  qed
  have self: "(i, i) \<notin> (prereq reg)\<^sup>+"
  proof
    assume "(i, i) \<in> (prereq reg)\<^sup>+"
    then obtain p where "(i, p) \<in> prereq reg" "(p, i) \<in> (prereq reg)\<^sup>*" by (meson tranclD)
    from tail [OF this] show False by simp
  qed
  show ?case
  proof (cases "j = i")
    case True
    with off self show ?thesis by simp
  next
    case False
    with "1.prems"(2) obtain p where "(i, p) \<in> prereq reg" "(p, j) \<in> (prereq reg)\<^sup>*"
      by (metis converse_rtranclE)
    from tail [OF this] show ?thesis by simp
  qed
next
  case (3 reg path q ps)
  then show ?case by (auto split: option.splits)
qed simp_all

section \<open>What the validation removes\<close>

text \<open>
  A registry the rounds reach from the one loaded: nothing changes but removals, and
  every removed lab could not have been reached.
\<close>

definition pruned :: "LabRegistry \<Rightarrow> LabRegistry \<Rightarrow> bool" where
  "pruned reg0 reg \<longleftrightarrow>
     reg_wf reg \<and> map_of (labs reg) \<subseteq>\<^sub>m map_of (labs reg0) \<and>
     (\<forall>i\<in>dom (map_of (labs reg0)). map_of (labs reg) i = None \<longrightarrow> unsatisfiable reg0 i)"

lemma pruned_refl: "reg_wf reg \<Longrightarrow> pruned reg reg"
  by (auto simp: pruned_def)

lemma prereq_mono: "map_of (labs reg) \<subseteq>\<^sub>m map_of (labs reg0) \<Longrightarrow> prereq reg \<subseteq> prereq reg0"
  unfolding prereq_def map_le_def by (auto simp: dom_def)

lemma unsatisfiable_rtrancl: "(i, j) \<in> (prereq reg)\<^sup>* \<Longrightarrow> unsatisfiable reg j \<Longrightarrow> unsatisfiable reg i"
  by (induction rule: converse_rtrancl_induct) (auto intro: unsatisfiable.above)

lemma pruned_unregister:
  assumes "pruned reg0 reg" and "map_of (labs reg) (lab_id def) = Some def"
    and "unsatisfiable reg0 (lab_id def)"
  shows "pruned reg0 (unregister def (reg\<lparr>loadErrors := es\<rparr>))"
proof -
  have wf: "reg_wf (reg\<lparr>loadErrors := es\<rparr>)" using assms(1) by (simp add: pruned_def reg_wf_def)
  have "reg_wf (unregister def (reg\<lparr>loadErrors := es\<rparr>))"
    by (rule reg_wf_unregister [OF wf]) (simp add: assms(2))
  moreover have "map_of (labs (unregister def (reg\<lparr>loadErrors := es\<rparr>))) = (map_of (labs reg))(lab_id def := None)"
    by (simp add: unregister_def delete_conv')
  ultimately show ?thesis using assms(1,3) by (auto simp: pruned_def map_le_def)
qed

lemma pruned_missing:
  assumes "pruned reg0 reg" and "map_of (labs reg) (lab_id def) = Some def"
    and "missing_prerequisites def reg \<noteq> []"
  shows "unsatisfiable reg0 (lab_id def)"
proof -
  from assms(3) obtain p where p: "p \<in> set (lab_prerequisites def)" "map_of (labs reg) p = None"
    by (auto simp: missing_prerequisites_def filter_empty_conv)
  have edge: "(lab_id def, p) \<in> prereq reg0"
    using assms(1,2) p(1) by (auto simp: prereq_def pruned_def map_le_def dom_def)
  show ?thesis
  proof (cases "map_of (labs reg0) p")
    case None
    with edge show ?thesis by (rule unsatisfiable.missing)
  next
    case (Some d)
    with assms(1) p(2) have "unsatisfiable reg0 p" by (auto simp: pruned_def)
    with edge show ?thesis by (rule unsatisfiable.above)
  qed
qed

lemma pruned_cyclic:
  assumes "pruned reg0 reg" and "findPrerequisiteCycle reg i = Some c"
  shows "unsatisfiable reg0 i"
proof -
  from walk_finds(1) [of reg "[]" i c] assms(2) obtain j
    where j: "(i, j) \<in> (prereq reg)\<^sup>*" "(j, j) \<in> (prereq reg)\<^sup>+"
    by (auto simp: findPrerequisiteCycle_def)
  have "prereq reg \<subseteq> prereq reg0" using assms(1) by (intro prereq_mono) (simp add: pruned_def)
  with j have "(i, j) \<in> (prereq reg0)\<^sup>*" "(j, j) \<in> (prereq reg0)\<^sup>+"
    by (meson rtrancl_mono subsetD, meson trancl_mono)
  then show ?thesis by (meson unsatisfiable.cyclic unsatisfiable_rtrancl)
qed

text \<open>
  Both loops over the definitions have the same shape: each definition is still
  registered when its turn comes, and is dropped or kept.
\<close>

definition drop_step :: "(Lab \<Rightarrow> LabRegistry \<times> bool \<Rightarrow> LabRegistry \<times> bool) \<Rightarrow>
    (Lab \<Rightarrow> LabRegistry \<Rightarrow> bool) \<Rightarrow> bool" where
  "drop_step f bad \<longleftrightarrow> (\<forall>def reg b. f def (reg, b) =
      (if bad def reg then (unregister def (reg\<lparr>loadErrors := loadErrors (fst (f def (reg, b)))\<rparr>), True)
       else (reg, b)))"

lemma drop_missing_step: "drop_step drop_missing (\<lambda>def reg. missing_prerequisites def reg \<noteq> [])"
  by (simp add: drop_step_def drop_missing_def unregister_def Let_def)

lemma drop_cyclic_step: "drop_step drop_cyclic (\<lambda>def reg. findPrerequisiteCycle reg (lab_id def) \<noteq> None)"
  unfolding drop_step_def
proof (intro allI)
  fix def reg b
  show "drop_cyclic def (reg, b) = (if findPrerequisiteCycle reg (lab_id def) \<noteq> None
      then (unregister def (reg\<lparr>loadErrors := loadErrors (fst (drop_cyclic def (reg, b)))\<rparr>), True) else (reg, b))"
    by (cases "findPrerequisiteCycle reg (lab_id def)") (simp_all add: drop_cyclic_def unregister_def)
qed

lemma drop_stepD:
  assumes "drop_step f bad"
  shows "bad def reg \<Longrightarrow> \<exists>es. f def (reg, b) = (unregister def (reg\<lparr>loadErrors := es\<rparr>), True)"
    and "\<not> bad def reg \<Longrightarrow> f def (reg, b) = (reg, b)"
  using assms unfolding drop_step_def by metis+

lemma length_unregister:
  assumes "map_of (labs reg) (lab_id def) = Some def"
  shows "length (labs (unregister def (reg\<lparr>loadErrors := es\<rparr>))) < length (labs reg)"
proof -
  have "(lab_id def, def) \<in> set (labs reg)" using assms by (rule map_of_SomeD)
  then have "length (filter (\<lambda>(k, _). lab_id def \<noteq> k) (labs reg)) < length (labs reg)"
    by (intro length_filter_less) auto
  then show ?thesis by (simp add: unregister_def AList.delete_eq)
qed

lemma fold_drop:
  assumes step: "drop_step f bad"
    and unsat: "\<And>def reg. \<lbrakk>pruned reg0 reg; map_of (labs reg) (lab_id def) = Some def; bad def reg\<rbrakk>
                  \<Longrightarrow> unsatisfiable reg0 (lab_id def)"
  shows "\<lbrakk>pruned reg0 reg; distinct (map lab_id ds);
          \<And>d. d \<in> set ds \<Longrightarrow> map_of (labs reg) (lab_id d) = Some d; fold f ds (reg, b) = (reg', b')\<rbrakk>
     \<Longrightarrow> pruned reg0 reg' \<and> (b \<longrightarrow> b') \<and> length (labs reg') \<le> length (labs reg) \<and>
         (b' \<and> \<not> b \<longrightarrow> length (labs reg') < length (labs reg)) \<and>
         (\<not> b' \<longrightarrow> reg' = reg \<and> (\<forall>d\<in>set ds. \<not> bad d reg))"
proof (induction ds arbitrary: reg b)
  case Nil
  then show ?case by simp
next
  case (Cons d ds)
  note reg_d = Cons.prems(3) [of d, simplified]
  show ?case
  proof (cases "bad d reg")
    case True
    from drop_stepD(1) [OF step True] obtain es
      where f: "f d (reg, b) = (unregister d (reg\<lparr>loadErrors := es\<rparr>), True)" by blast
    let ?reg = "unregister d (reg\<lparr>loadErrors := es\<rparr>)"
    have p: "pruned reg0 ?reg"
      by (rule pruned_unregister [OF Cons.prems(1) reg_d unsat [OF Cons.prems(1) reg_d True]])
    have others: "map_of (labs ?reg) (lab_id x) = Some x" if "x \<in> set ds" for x
    proof -
      have "lab_id x \<noteq> lab_id d" using Cons.prems(2) that by (simp add: image_iff) metis
      then show ?thesis using Cons.prems(3) that by (simp add: unregister_def delete_conv')
    qed
    have "distinct (map lab_id ds)" "fold f ds (?reg, True) = (reg', b')" using Cons.prems(2,4) f by simp_all
    from Cons.IH [OF p this(1) others this(2)] length_unregister [OF reg_d, of es]
    show ?thesis by fastforce
  next
    case False
    have "distinct (map lab_id ds)" "fold f ds (reg, b) = (reg', b')"
      using Cons.prems(2,4) drop_stepD(2) [OF step False] by simp_all
    from Cons.IH [OF Cons.prems(1) this(1) _ this(2)] Cons.prems(3) False
    show ?thesis by simp
  qed
qed

lemma registered_values:
  assumes "reg_wf reg"
  shows "distinct (map lab_id (map snd (labs reg)))"
    and "\<And>d. d \<in> set (map snd (labs reg)) \<Longrightarrow> map_of (labs reg) (lab_id d) = Some d"
proof -
  have key: "lab_id d = i" and look: "map_of (labs reg) i = Some d" if "(i, d) \<in> set (labs reg)" for i d
    using assms that by (auto simp: reg_wf_def)
  have "map lab_id (map snd (labs reg)) = map fst (labs reg)" using key by auto
  with assms show "distinct (map lab_id (map snd (labs reg)))" by (metis reg_wf_def)
  fix d
  assume "d \<in> set (map snd (labs reg))"
  then show "map_of (labs reg) (lab_id d) = Some d" using key look by auto
qed

lemma validate_round:
  assumes "pruned reg0 reg" and "validate_round reg = (reg', removedAny)"
  shows "pruned reg0 reg'"
    and "removedAny \<Longrightarrow> length (labs reg') < length (labs reg)"
    and "\<not> removedAny \<Longrightarrow> reg' = reg \<and> (\<forall>d\<in>set (map snd (labs reg)).
           missing_prerequisites d reg = [] \<and> findPrerequisiteCycle reg (lab_id d) = None)"
proof -
  obtain reg1 b1 where r1: "fold drop_missing (map snd (labs reg)) (reg, False) = (reg1, b1)" by fastforce
  with assms(2) have r2: "fold drop_cyclic (map snd (labs reg1)) (reg1, b1) = (reg', removedAny)"
    by (simp add: validate_round_def)
  have wf: "reg_wf reg" using assms(1) by (simp add: pruned_def)
  note f1 = fold_drop [OF drop_missing_step pruned_missing assms(1) registered_values [OF wf] r1]
  then have wf1: "reg_wf reg1" by (simp add: pruned_def)
  note f2 = fold_drop [OF drop_cyclic_step, of reg0, OF _ f1 [THEN conjunct1] registered_values [OF wf1] r2]
  have f2: "pruned reg0 reg' \<and> (b1 \<longrightarrow> removedAny) \<and> length (labs reg') \<le> length (labs reg1) \<and>
     (removedAny \<and> \<not> b1 \<longrightarrow> length (labs reg') < length (labs reg1)) \<and>
     (\<not> removedAny \<longrightarrow> reg' = reg1 \<and> (\<forall>d\<in>set (map snd (labs reg1)).
        \<not> findPrerequisiteCycle reg1 (lab_id d) \<noteq> None))"
    by (rule f2) (auto dest: pruned_cyclic)
  show "pruned reg0 reg'" using f2 by blast
  show "removedAny \<Longrightarrow> length (labs reg') < length (labs reg)" using f1 f2 by fastforce
  show "\<not> removedAny \<Longrightarrow> reg' = reg \<and> (\<forall>d\<in>set (map snd (labs reg)).
           missing_prerequisites d reg = [] \<and> findPrerequisiteCycle reg (lab_id d) = None)"
    using f1 f2 by auto
qed

text \<open>A registry a round leaves alone: closed under prerequisites, without cycles.\<close>

definition settled :: "LabRegistry \<Rightarrow> bool" where
  "settled reg \<longleftrightarrow> (\<forall>i p. (i, p) \<in> prereq reg \<longrightarrow> map_of (labs reg) p \<noteq> None) \<and> acyclic (prereq reg)"

lemma settled_round:
  assumes "reg_wf reg" and quiet: "\<forall>d\<in>set (map snd (labs reg)).
      missing_prerequisites d reg = [] \<and> findPrerequisiteCycle reg (lab_id d) = None"
  shows "settled reg"
proof -
  have d: "missing_prerequisites d reg = []" "findPrerequisiteCycle reg i = None"
    if "map_of (labs reg) i = Some d" for i d
    using quiet reg_wf_id [OF assms(1) that] map_of_SomeD [OF that] by force+
  have "(i, i) \<notin> (prereq reg)\<^sup>+" for i
  proof
    assume c: "(i, i) \<in> (prereq reg)\<^sup>+"
    then obtain p where "(i, p) \<in> prereq reg" by (meson tranclD)
    then obtain def where "map_of (labs reg) i = Some def" by (auto simp: prereq_def)
    with d(2) walk_complete(1) [of reg "[]" i i] c show False by (simp add: findPrerequisiteCycle_def)
  qed
  moreover have "map_of (labs reg) p \<noteq> None" if "(i, p) \<in> prereq reg" for i p
    using that d(1) by (fastforce simp: prereq_def missing_prerequisites_def filter_empty_conv)
  ultimately show ?thesis by (simp add: settled_def acyclic_def)
qed

lemma validatePrerequisites_result:
  "pruned reg0 reg \<Longrightarrow> \<exists>reg'. validatePrerequisites reg = Some reg' \<and> pruned reg0 reg' \<and> settled reg'"
proof (induction "length (labs reg)" arbitrary: reg rule: less_induct)
  case less
  obtain reg1 removedAny where r: "validate_round reg = (reg1, removedAny)" by fastforce
  note round = validate_round [OF less.prems r]
  show ?case
  proof (cases removedAny)
    case True
    with less.hyps [OF round(2) [OF True] round(1)] r show ?thesis
      by (subst validatePrerequisites.simps) simp
  next
    case False
    have "settled reg" using round(3) [OF False] less.prems by (intro settled_round) (auto simp: pruned_def)
    with r False round(3) [OF False] less.prems show ?thesis
      by (subst validatePrerequisites.simps) auto
  qed
qed

lemma settled_satisfiable:
  assumes "pruned reg0 reg" and "settled reg"
  shows "unsatisfiable reg0 i \<Longrightarrow> map_of (labs reg) i = None"
proof (induction rule: unsatisfiable.induct)
  have sub: "map_of (labs reg) \<subseteq>\<^sub>m map_of (labs reg0)" using assms(1) by (simp add: pruned_def)
  have edge: "(i, p) \<in> prereq reg" if "(i, p) \<in> prereq reg0" "map_of (labs reg) i \<noteq> None" for i p
  proof -
    from that(2) obtain def where def: "map_of (labs reg) i = Some def" by blast
    with sub have "map_of (labs reg0) i = Some def" by (metis domI map_le_def)
    with that(1) def show ?thesis by (simp add: prereq_def)
  qed
  have path: "(i, j) \<in> (prereq reg)\<^sup>+ \<and> map_of (labs reg) j \<noteq> None"
    if "(i, j) \<in> (prereq reg0)\<^sup>+" "map_of (labs reg) i \<noteq> None" for i j
    using that
  proof (induction rule: trancl.induct)
    case (r_into_trancl i j)
    with edge [of i j] assms(2) show ?case by (auto simp: settled_def)
  next
    case (trancl_into_trancl i j k)
    then have ij: "(i, j) \<in> (prereq reg)\<^sup>+" and "(j, k) \<in> prereq reg" using edge [of j k] by simp_all
    with assms(2) show ?case unfolding settled_def by (meson trancl.trancl_into_trancl)
  qed
  {
    case (missing i p)
    show ?case
    proof (rule ccontr)
      assume "map_of (labs reg) i \<noteq> None"
      with edge [OF missing(1)] assms(2) have "map_of (labs reg) p \<noteq> None" by (auto simp: settled_def)
      with sub missing(2) show False by (auto simp: map_le_def dom_def)
    qed
  next
    case (cyclic i)
    with path [of i i] assms(2) show ?case unfolding settled_def acyclic_def by blast
  next
    case (above i p)
    with edge [OF above(1)] assms(2) show ?case unfolding settled_def by blast
  }
qed

section \<open>The loaded registry\<close>

text \<open>The labs the files registered, before the prerequisites are checked.\<close>

definition registered :: "Lab list \<Rightarrow> LabRegistry" where
  "registered defs = fold register_lab defs empty_registry"

lemma load_result: "\<exists>reg. load defs = Some reg \<and> pruned (registered defs) reg \<and> settled reg"
  unfolding load_def registered_def
  by (rule validatePrerequisites_result) (rule pruned_refl [OF reg_wf_load])

text \<open>
  C9. Loading the registry always ends, whatever prerequisites the definitions name
  (unknown labs, cycles, labs that depend on themselves): the rounds of
  \<open>#validatePrerequisites\<close> reach a fixed point.
\<close>

theorem load_terminates: "\<exists>reg. load defs = Some reg"
  using load_result by blast

text \<open>
  C8. What loading keeps is exactly right: a registered definition survives if and
  only if it is not unsatisfiable (no chain of prerequisites leads from it to a
  missing lab or into a cycle). In the result every prerequisite is itself
  registered, the prerequisite relation is acyclic, and finding a lab by its slug is
  the inverse of its id.
\<close>

theorem load_keeps_exactly_the_reachable_labs:
  assumes "load defs = Some reg"
  shows "(map_of (labs reg) i = Some def \<longleftrightarrow>
            map_of (labs (registered defs)) i = Some def \<and> \<not> unsatisfiable (registered defs) i) \<and>
         (\<forall>p. (i, p) \<in> prereq reg \<longrightarrow> p \<in> dom (map_of (labs reg))) \<and>
         acyclic (prereq reg) \<and>
         (map_of (slugs reg) slug = Some i \<longleftrightarrow>
            (\<exists>d. map_of (labs reg) i = Some d \<and> lab_slug d = slug))"
proof (intro conjI)
  have p: "pruned (registered defs) reg" and s: "settled reg"
    using assms load_result [of defs] by simp_all
  show "map_of (labs reg) i = Some def \<longleftrightarrow>
      map_of (labs (registered defs)) i = Some def \<and> \<not> unsatisfiable (registered defs) i"
    using settled_satisfiable [OF p s, of i] p
    by (cases "map_of (labs reg) i") (auto simp: pruned_def map_le_def dom_def)
  show "\<forall>p. (i, p) \<in> prereq reg \<longrightarrow> p \<in> dom (map_of (labs reg))"
    using s by (auto simp: settled_def)
  show "acyclic (prereq reg)" using s by (simp add: settled_def)
  show "map_of (slugs reg) slug = Some i \<longleftrightarrow> (\<exists>d. map_of (labs reg) i = Some d \<and> lab_slug d = slug)"
    using p by (simp add: pruned_def reg_wf_def)
qed

text \<open>
  Six definitions: a chain \<open>A <- B\<close>, a pair on a cycle with a lab above it, and a
  lab whose prerequisite does not exist. Two survive.
\<close>

definition demo_lab :: "string \<Rightarrow> string \<Rightarrow> string list \<Rightarrow> Lab" where
  "demo_lab i slug ps = \<lparr>lab_id = i, lab_slug = slug, lab_title = i, lab_track = ''linux'',
     lab_topic = ''shell'', lab_difficulty = ''easy'', lab_level = ''1'', lab_order = 1,
     lab_provider = Linux, lab_prerequisites = ps, lab_sourcePath = slug @ ''/lab.yaml''\<rparr>"

definition demo_labs :: "Lab list" where
  "demo_labs = [demo_lab ''LINUX-001'' ''a'' [], demo_lab ''LINUX-002'' ''b'' [''LINUX-001''],
     demo_lab ''LINUX-003'' ''c'' [''LINUX-004''], demo_lab ''LINUX-004'' ''d'' [''LINUX-003''],
     demo_lab ''LINUX-005'' ''e'' [''LINUX-002'', ''LINUX-003''], demo_lab ''LINUX-006'' ''f'' [''AWS-001'']]"

definition demo_loaded :: LabRegistry where
  "demo_loaded = (case load demo_labs of Some reg \<Rightarrow> reg | None \<Rightarrow> empty_registry)"

theorem load_keeps_exactly_the_reachable_labs_witness:
  "load demo_labs = Some demo_loaded \<and> map fst (labs demo_loaded) = [''LINUX-001'', ''LINUX-002''] \<and>
   unsatisfiable (registered demo_labs) ''LINUX-005'' \<and> acyclic (prereq demo_loaded)"
proof -
  have l: "load demo_labs = Some demo_loaded"
    using load_result [of demo_labs] by (auto simp: demo_loaded_def)
  have ids: "map fst (labs demo_loaded) = [''LINUX-001'', ''LINUX-002'']" by code_simp
  have reg5: "map_of (labs (registered demo_labs)) ''LINUX-005'' =
      Some (demo_lab ''LINUX-005'' ''e'' [''LINUX-002'', ''LINUX-003''])" by code_simp
  have "''LINUX-005'' \<notin> fst ` set (labs demo_loaded)"
    using arg_cong [OF ids, of set] by simp
  then have "map_of (labs demo_loaded) ''LINUX-005'' = None" by (simp add: map_of_eq_None_iff)
  with reg5 load_keeps_exactly_the_reachable_labs [OF l, of "''LINUX-005''"] l ids
  show ?thesis by auto
qed

section \<open>Lab ids from the network\<close>

lemma LAB_ID_PATTERN_chars:
  assumes "LAB_ID_PATTERN s"
  shows "list_all (\<lambda>c. is_upper c \<or> is_digit c \<or> c = CHR ''-'') s"
proof -
  let ?n = "length s"
  have n: "6 \<le> ?n" using assms by (simp add: LAB_ID_PATTERN_def)
  have "is_upper (s ! i) \<or> is_digit (s ! i) \<or> s ! i = CHR ''-''" if i: "i < ?n" for i
  proof -
    consider "i = 0" | "0 < i" "i < ?n - 4" | "i = ?n - 4" | "?n - 4 < i" by linarith
    then show ?thesis
    proof cases
      case 2
      then have "s ! i = take (?n - 5) (drop 1 s) ! (i - 1)" "i - 1 < length (take (?n - 5) (drop 1 s))"
        using n by auto
      with assms show ?thesis by (metis LAB_ID_PATTERN_def list_all_length)
    next
      case 4
      then have "s ! i = drop (?n - 3) s ! (i - (?n - 3))" "i - (?n - 3) < length (drop (?n - 3) s)"
        using n i by auto
      with assms show ?thesis by (metis LAB_ID_PATTERN_def list_all_length)
    qed (use assms in \<open>auto simp: LAB_ID_PATTERN_def\<close>)
  qed
  then show ?thesis by (simp add: list_all_length)
qed

text \<open>
  A lab id that passes the check is safe to use as a path component and a map
  key: it is at most fourteen upper-case letters, digits and dashes (so no path
  separator, dot or null byte), it is the upper-case form of the input, and checking
  it again returns it unchanged. Every other input is refused with an
  \<open>InvalidLabIdError\<close>.
\<close>

theorem assertValidLabId_canonical:
  "case assertValidLabId input of
     Inl (InvalidLabIdError shown reason) \<Rightarrow> isValidLabId input = False
   | Inl (LabNotFoundError _) \<Rightarrow> False
   | Inr canonical \<Rightarrow>
       isValidLabId input \<and> 6 \<le> length canonical \<and> length canonical \<le> 14 \<and>
       list_all (\<lambda>c. is_upper c \<or> is_digit c \<or> c = CHR ''-'') canonical \<and>
       (\<exists>s. input = UString s \<and> canonical = toUpperCase s) \<and>
       assertValidLabId (UString canonical) = Inr canonical"
proof (cases "assertValidLabId input")
  case (Inl e)
  then show ?thesis
    by (auto simp: assertValidLabId_def isValidLabId_def Let_def split: unknown_value.splits if_splits)
next
  case (Inr canonical)
  then obtain s where s: "input = UString s" "canonical = toUpperCase s" and p: "LAB_ID_PATTERN canonical"
    by (auto simp: assertValidLabId_def Let_def split: unknown_value.splits if_splits)
  have len: "6 \<le> length canonical" "length canonical \<le> 14" using p by (simp_all add: LAB_ID_PATTERN_def)
  note chars = LAB_ID_PATTERN_chars [OF p]
  have "CHR 0x00 \<notin> set canonical"
  proof
    assume "CHR 0x00 \<in> set canonical"
    with chars have "is_upper (CHR 0x00) \<or> is_digit (CHR 0x00) \<or> CHR 0x00 = CHR ''-''"
      by (auto simp: list_all_iff)
    then show False by (simp add: is_upper_def is_digit_def)
  qed
  moreover have "toUpperCase canonical = canonical" using s(2) toUpperCase_idem by simp
  ultimately have "assertValidLabId (UString canonical) = Inr canonical"
    using p len by (auto simp: assertValidLabId_def MAX_LAB_ID_LENGTH_def Let_def)
  with s Inr len chars show ?thesis by (auto simp: isValidLabId_def)
qed

end
