(* ===== verification/Session_Program.thy ===== *)
theory Session_Program
  imports Session_Store Session_Identifiers Lab_Registry
begin

text \<open>
  Asynchronous methods as programs of effects.

  The methods of \<open>SessionManager\<close> and \<open>SessionReaper\<close> are async functions: between
  two awaits other requests, the reaper and other API instances run. A method is
  modelled as a \<open>prog\<close>: a tree whose nodes are the calls the code makes to what it
  shares with others (the session store, the clock, random ids, a provider, the
  terminal service, the listener, the in-flight maps of the process) and whose
  branches are the answers a call may get. \<open>await p f\<close> is \<open>f(await p)\<close>;
  \<open>attempt p h\<close> is \<open>try { p } catch (e) { h(e) }\<close>; \<open>eventually p q\<close> is
  \<open>try { p } finally { q }\<close>.

  One tree has two semantics: \<open>run\<close> executes it alone, with an environment that
  answers the calls outside the store and the process; the interleaving semantics
  of a whole system of such programs is in the theory of the system. Every tree is
  well-founded, so each method returns or throws after finitely many calls,
  whatever the answers are. Log lines and metrics hooks are not modelled: the code
  swallows whatever a hook does and reads nothing back from either.
\<close>

section \<open>What the calls exchange\<close>

datatype ProvisionStepStatus = Step_Pending | Step_Ok | Step_Failed

record ProvisionStep =
  step_id :: string
  step_label :: string
  step_status :: ProvisionStepStatus
  step_detail :: "string option"
  step_durationMs :: "int option"

datatype LabErrorCode =
    ENVIRONMENT_UNREACHABLE | ENVIRONMENT_NOT_CREATED | KUBECTL_UNAVAILABLE | PROVISION_FAILED
  | SETUP_FAILED | RESET_FAILED | DESTROY_FAILED | EXEC_FAILED | CREDENTIALS_FAILED
  | LAB_NOT_FOUND | INVALID_LAB_ID | LAB_PROVIDER_UNAVAILABLE | PROVIDER_NOT_REGISTERED
  | VERIFICATION_FAILED

record LabError =
  le_code :: LabErrorCode
  le_message :: string
  le_remediation :: "string option"

datatype EnvironmentPhase = Not_Created | Provisioning | Ready | Env_Degraded | Env_Error

record EnvironmentInfo =
  env_environmentId :: string
  env_phase :: EnvironmentPhase

record CreateResult =
  create_ok :: bool
  create_environment :: EnvironmentInfo
  create_steps :: "ProvisionStep list"
  create_error :: "LabError option"

record ResetResult =
  reset_ok :: bool
  reset_removed :: "string list"
  reset_restored :: "string list"
  reset_steps :: "ProvisionStep list"
  reset_environment :: EnvironmentInfo
  reset_error :: "LabError option"

record DestroyResult =
  destroy_ok :: bool
  namespaceGone :: bool
  destroy_steps :: "ProvisionStep list"
  destroy_error :: "LabError option"

record ProviderAvailability =
  available :: bool
  av_reason :: "string option"
  av_remediation :: "string option"
  studentReason :: "string option"

record ManagedSandbox =
  ms_sandboxRef :: string
  ms_labId :: string
  ms_expiresAtMs :: int
  ms_phase :: string

text \<open>
  The terminal binding of a session. The credential fields of the three variants
  are opaque to the manager, which reads the kind and sets the shell uid.
\<close>

datatype TerminalContext =
    T_Kubernetes (t_kubeconfig: string) (t_namespace: string) (t_serviceAccount: string)
      (t_expires: int) (t_shellUid: "int option")
  | T_Container (t_containerRef: string) (t_user: string) (t_workdir: string) (t_expires: int)
  | T_DockerDaemon (t_dockerHost: string) (t_sandbox: string) (t_expires: int)
      (t_shellUid: "int option")

text \<open>
  \<open>SessionTeardownContext\<close>; the policy it also carries is the same configuration
  value for every session. \<open>LabSessionContext\<close> adds the lab.
\<close>

record SessionTeardownContext =
  ctx_sessionId :: string
  ctx_labId :: string
  ctx_sandboxRef :: string
  ctx_namespace :: string
  ctx_serviceAccountName :: string
  ctx_expiresAtMs :: int

type_synonym LabSessionContext = "SessionTeardownContext \<times> Lab"

record SessionClosedEvent =
  ev_sessionId :: string
  ev_labId :: string
  ev_provider :: LabProviderId
  ev_status :: session_status
  ev_reason :: string

section \<open>Exceptions\<close>

datatype error_details =
    No_Details
  | D_Status session_status
  | D_Provider LabProviderId
  | D_Student nat int
  | D_Capacity nat int
  | D_Provision "ProvisionStep list" EnvironmentInfo "LabErrorCode option"

text \<open>
  A thrown value: a \<open>SessionError\<close> (code, message, remediation, details), a
  \<open>ProviderUnavailableError\<close> (provider, reason, remediation), a refusal by the
  store, the registry or the name derivation, or any other rejected promise, of
  which the code reads the message.
\<close>

datatype exn =
    SessionError SessionErrorCode string "string option" error_details
  | ProviderUnavailableError string string "string option"
  | StoreRefused store_error
  | IdentRefused ident_error
  | LabRefused lab_error
  | Rejected string
  | ProtocolError

fun ident_message :: "ident_error \<Rightarrow> string" where
  "ident_message (InvalidSessionIdError r) = ''Invalid session id: '' @ r"
| "ident_message (InvalidNamespaceError _ r) = ''Invalid lab namespace: '' @ r"
| "ident_message (InvalidSandboxRefError _ r) = ''Invalid sandbox reference: '' @ r"
| "ident_message (IdentError m) = m"

fun store_message :: "store_error \<Rightarrow> string" where
  "store_message (SessionExists sid) = ''session '' @ sid @ '' already exists''"
| "store_message (SandboxHeld ref sid) =
     ''sandbox '' @ ref @ '' is already held by session '' @ sid"
| "store_message ShellUidExhaustedError =
     ''every session shell uid from 1900000000 to 1900999999 has been assigned; '' @
     ''refusing to reuse one''"

fun lab_message :: "lab_error \<Rightarrow> string" where
  "lab_message (InvalidLabIdError _ r) = ''Invalid lab id: '' @ r"
| "lab_message (LabNotFoundError i) = ''Lab '' @ i @ '' not found''"

fun describeError :: "exn \<Rightarrow> string" where
  "describeError (SessionError _ m _ _) = m"
| "describeError (ProviderUnavailableError p r _) =
     ''Provider '' @ [CHR 0x27] @ p @ [CHR 0x27] @ '' is not available: '' @ r"
| "describeError (StoreRefused e) = store_message e"
| "describeError (IdentRefused e) = ident_message e"
| "describeError (LabRefused e) = lab_message e"
| "describeError (Rejected m) = m"
| "describeError ProtocolError = ''''"

section \<open>Calls and answers\<close>

datatype call =
    StoreGet string
  | StoreFindBySandboxRef string
  | StoreCreateWithinLimits LabSession CapacityLimits
  | StoreTransition string "session_status list" session_status LabSessionPatch TransitionGuard
  | StoreTouchActivity string int
  | StoreDelete string
  | StoreList
  | StoreListOccupying
  | StoreListOccupyingForOwner string
  | StoreCountOccupying
  | StartsInFlightSet string int
  | StartsInFlightDelete string
  | StartsInFlightEntries
  | ResetsInFlightSet string int
  | ResetsInFlightDelete string
  | ResetsInFlightEntries
  | ReadStopping
  | SetStopping
  | ReadSweeping
  | WriteSweeping bool
  | ReadLostLastSweep
  | WriteLostLastSweep "string list"
  | ClockNow
  | RandomSessionId
  | ProviderProbe LabProviderId
  | ProviderInvalidate LabProviderId
  | ProviderCreate LabProviderId LabSessionContext
  | ProviderReset LabProviderId LabSessionContext
  | ProviderDestroy LabProviderId SessionTeardownContext
  | ProviderEnvStatus LabProviderId LabSessionContext
  | ProviderTerminalContext LabProviderId LabSessionContext
  | ProviderListManaged LabProviderId
  | ProviderDestroySandbox LabProviderId string
  | TerminalTerminate string
  | TerminalReattach string
  | NotifyClosed SessionClosedEvent
  | HookOnAdmitted LabSession

datatype resp =
    R_Unit
  | R_Throw exn
  | R_Session "LabSession option"
  | R_Sessions "LabSession list"
  | R_Decision CapacityDecision
  | R_Count nat
  | R_Bool bool
  | R_Entries "(string \<times> int) list"
  | R_Ids "string list"
  | R_Time int
  | R_Id string
  | R_Probe "ProviderAvailability option"
  | R_Create CreateResult
  | R_Reset ResetResult
  | R_Destroy DestroyResult
  | R_Env EnvironmentInfo
  | R_Terminal TerminalContext
  | R_Managed "ManagedSandbox list"

section \<open>Programs\<close>

datatype 'a prog =
    Return 'a
  | Throw exn
  | Call call "resp \<Rightarrow> 'a prog"

primrec await :: "'a prog \<Rightarrow> ('a \<Rightarrow> 'b prog) \<Rightarrow> 'b prog" where
  "await (Return x) f = f x"
| "await (Throw e) f = Throw e"
| "await (Call c k) f = Call c (\<lambda>r. await (k r) f)"

primrec attempt :: "'a prog \<Rightarrow> (exn \<Rightarrow> 'a prog) \<Rightarrow> 'a prog" where
  "attempt (Return x) h = Return x"
| "attempt (Throw e) h = h e"
| "attempt (Call c k) h = Call c (\<lambda>r. attempt (k r) h)"

primrec eventually :: "'a prog \<Rightarrow> unit prog \<Rightarrow> 'a prog" where
  "eventually (Return x) q = await q (\<lambda>_. Return x)"
| "eventually (Throw e) q = await q (\<lambda>_. Throw e)"
| "eventually (Call c k) q = Call c (\<lambda>r. eventually (k r) q)"

text \<open>A loop over a list that was read before: \<open>for (const x of xs) await body(x)\<close>.\<close>

primrec for_each :: "'a list \<Rightarrow> ('a \<Rightarrow> 's \<Rightarrow> 's prog) \<Rightarrow> 's \<Rightarrow> 's prog" where
  "for_each [] body s = Return s"
| "for_each (x # xs) body s = await (body x s) (for_each xs body)"

definition of_result :: "('e \<Rightarrow> exn) \<Rightarrow> 'e + 'a \<Rightarrow> 'a prog" where
  "of_result f r = (case r of Inl e \<Rightarrow> Throw (f e) | Inr x \<Rightarrow> Return x)"

text \<open>Typed calls: an answer of another type is a protocol error no semantics produces.\<close>

definition call_unit :: "call \<Rightarrow> unit prog" where
  "call_unit c = Call c (\<lambda>r. case r of R_Unit \<Rightarrow> Return () | R_Throw e \<Rightarrow> Throw e
     | _ \<Rightarrow> Throw ProtocolError)"

definition call_session :: "call \<Rightarrow> LabSession option prog" where
  "call_session c = Call c (\<lambda>r. case r of R_Session s \<Rightarrow> Return s | R_Throw e \<Rightarrow> Throw e
     | _ \<Rightarrow> Throw ProtocolError)"

definition call_sessions :: "call \<Rightarrow> LabSession list prog" where
  "call_sessions c = Call c (\<lambda>r. case r of R_Sessions s \<Rightarrow> Return s | R_Throw e \<Rightarrow> Throw e
     | _ \<Rightarrow> Throw ProtocolError)"

definition call_decision :: "call \<Rightarrow> CapacityDecision prog" where
  "call_decision c = Call c (\<lambda>r. case r of R_Decision d \<Rightarrow> Return d | R_Throw e \<Rightarrow> Throw e
     | _ \<Rightarrow> Throw ProtocolError)"

definition call_count :: "call \<Rightarrow> nat prog" where
  "call_count c = Call c (\<lambda>r. case r of R_Count n \<Rightarrow> Return n | R_Throw e \<Rightarrow> Throw e
     | _ \<Rightarrow> Throw ProtocolError)"

definition call_bool :: "call \<Rightarrow> bool prog" where
  "call_bool c = Call c (\<lambda>r. case r of R_Bool b \<Rightarrow> Return b | R_Throw e \<Rightarrow> Throw e
     | _ \<Rightarrow> Throw ProtocolError)"

definition call_entries :: "call \<Rightarrow> (string \<times> int) list prog" where
  "call_entries c = Call c (\<lambda>r. case r of R_Entries es \<Rightarrow> Return es | R_Throw e \<Rightarrow> Throw e
     | _ \<Rightarrow> Throw ProtocolError)"

definition call_ids :: "call \<Rightarrow> string list prog" where
  "call_ids c = Call c (\<lambda>r. case r of R_Ids es \<Rightarrow> Return es | R_Throw e \<Rightarrow> Throw e
     | _ \<Rightarrow> Throw ProtocolError)"

definition call_time :: "call \<Rightarrow> int prog" where
  "call_time c = Call c (\<lambda>r. case r of R_Time t \<Rightarrow> Return t | R_Throw e \<Rightarrow> Throw e
     | _ \<Rightarrow> Throw ProtocolError)"

definition call_id :: "call \<Rightarrow> string prog" where
  "call_id c = Call c (\<lambda>r. case r of R_Id s \<Rightarrow> Return s | R_Throw e \<Rightarrow> Throw e
     | _ \<Rightarrow> Throw ProtocolError)"

definition call_probe :: "call \<Rightarrow> ProviderAvailability option prog" where
  "call_probe c = Call c (\<lambda>r. case r of R_Probe p \<Rightarrow> Return p | R_Throw e \<Rightarrow> Throw e
     | _ \<Rightarrow> Throw ProtocolError)"

definition call_create :: "call \<Rightarrow> CreateResult prog" where
  "call_create c = Call c (\<lambda>r. case r of R_Create x \<Rightarrow> Return x | R_Throw e \<Rightarrow> Throw e
     | _ \<Rightarrow> Throw ProtocolError)"

definition call_reset :: "call \<Rightarrow> ResetResult prog" where
  "call_reset c = Call c (\<lambda>r. case r of R_Reset x \<Rightarrow> Return x | R_Throw e \<Rightarrow> Throw e
     | _ \<Rightarrow> Throw ProtocolError)"

definition call_destroy :: "call \<Rightarrow> DestroyResult prog" where
  "call_destroy c = Call c (\<lambda>r. case r of R_Destroy x \<Rightarrow> Return x | R_Throw e \<Rightarrow> Throw e
     | _ \<Rightarrow> Throw ProtocolError)"

definition call_env :: "call \<Rightarrow> EnvironmentInfo prog" where
  "call_env c = Call c (\<lambda>r. case r of R_Env x \<Rightarrow> Return x | R_Throw e \<Rightarrow> Throw e
     | _ \<Rightarrow> Throw ProtocolError)"

definition call_terminal :: "call \<Rightarrow> TerminalContext prog" where
  "call_terminal c = Call c (\<lambda>r. case r of R_Terminal x \<Rightarrow> Return x | R_Throw e \<Rightarrow> Throw e
     | _ \<Rightarrow> Throw ProtocolError)"

definition call_managed :: "call \<Rightarrow> ManagedSandbox list prog" where
  "call_managed c = Call c (\<lambda>r. case r of R_Managed x \<Rightarrow> Return x | R_Throw e \<Rightarrow> Throw e
     | _ \<Rightarrow> Throw ProtocolError)"

lemmas call_defs =
  call_unit_def call_session_def call_sessions_def call_decision_def call_count_def call_bool_def
  call_entries_def call_ids_def call_time_def call_id_def call_probe_def call_create_def
  call_reset_def call_destroy_def call_env_def call_terminal_def call_managed_def

declare call_defs [prog_simps]

section \<open>What answers a call\<close>

text \<open>The store answers its own calls, and every process its own.\<close>

definition store_answer ::
  "call \<Rightarrow> InMemorySessionStore \<Rightarrow> (resp \<times> InMemorySessionStore) option" where
  "store_answer c st = (case c of
       StoreGet sid \<Rightarrow> Some (R_Session (store_get st sid), st)
     | StoreFindBySandboxRef ref \<Rightarrow> Some (R_Session (findBySandboxRef st ref), st)
     | StoreCreateWithinLimits s limits \<Rightarrow>
         (case createWithinLimits st s limits of
            (Inl e, st') \<Rightarrow> Some (R_Throw (StoreRefused e), st')
          | (Inr d, st') \<Rightarrow> Some (R_Decision d, st'))
     | StoreTransition sid from to patch guard \<Rightarrow>
         (case store_transition st sid from to patch guard of (r, st') \<Rightarrow> Some (R_Session r, st'))
     | StoreTouchActivity sid at \<Rightarrow>
         (case store_touchActivity st sid at of (r, st') \<Rightarrow> Some (R_Session r, st'))
     | StoreDelete sid \<Rightarrow> Some (R_Unit, store_delete st sid)
     | StoreList \<Rightarrow> Some (R_Sessions (store_list st), st)
     | StoreListOccupying \<Rightarrow> Some (R_Sessions (listOccupying st), st)
     | StoreListOccupyingForOwner ow \<Rightarrow> Some (R_Sessions (listOccupyingForOwner st ow), st)
     | StoreCountOccupying \<Rightarrow> Some (R_Count (countOccupying st), st)
     | _ \<Rightarrow> None)"

record process =
  startsInFlight :: "(string \<times> int) list"
  resetsInFlight :: "(string \<times> int) list"
  stopping :: bool
  sweeping :: bool
  lostLastSweep :: "string list"

definition fresh_process :: process where
  "fresh_process = \<lparr>startsInFlight = [], resetsInFlight = [], stopping = False, sweeping = False,
     lostLastSweep = []\<rparr>"

definition process_answer :: "call \<Rightarrow> process \<Rightarrow> (resp \<times> process) option" where
  "process_answer c p = (case c of
       StartsInFlightSet sid t \<Rightarrow>
         Some (R_Unit, p\<lparr>startsInFlight := AList.update sid t (startsInFlight p)\<rparr>)
     | StartsInFlightDelete sid \<Rightarrow>
         Some (R_Unit, p\<lparr>startsInFlight := AList.delete sid (startsInFlight p)\<rparr>)
     | StartsInFlightEntries \<Rightarrow> Some (R_Entries (startsInFlight p), p)
     | ResetsInFlightSet sid t \<Rightarrow>
         Some (R_Unit, p\<lparr>resetsInFlight := AList.update sid t (resetsInFlight p)\<rparr>)
     | ResetsInFlightDelete sid \<Rightarrow>
         Some (R_Unit, p\<lparr>resetsInFlight := AList.delete sid (resetsInFlight p)\<rparr>)
     | ResetsInFlightEntries \<Rightarrow> Some (R_Entries (resetsInFlight p), p)
     | ReadStopping \<Rightarrow> Some (R_Bool (stopping p), p)
     | SetStopping \<Rightarrow> Some (R_Unit, p\<lparr>stopping := True\<rparr>)
     | ReadSweeping \<Rightarrow> Some (R_Bool (sweeping p), p)
     | WriteSweeping b \<Rightarrow> Some (R_Unit, p\<lparr>sweeping := b\<rparr>)
     | ReadLostLastSweep \<Rightarrow> Some (R_Ids (lostLastSweep p), p)
     | WriteLostLastSweep ids \<Rightarrow> Some (R_Unit, p\<lparr>lostLastSweep := ids\<rparr>)
     | _ \<Rightarrow> None)"

text \<open>
  What the environment may answer: any value of the type of the call, or a
  rejection where the code can receive one. Reading the clock and dropping a
  memo never fail; a random id has the shape \<open>newSessionId\<close> gives it; a
  provider's probe never rejects.
\<close>

definition is_rejection :: "resp \<Rightarrow> bool" where
  "is_rejection r = (case r of R_Throw e \<Rightarrow> (case e of Rejected _ \<Rightarrow> True | _ \<Rightarrow> False) | _ \<Rightarrow> False)"

definition env_may :: "call \<Rightarrow> resp \<Rightarrow> bool" where
  "env_may c r = (case c of
       ClockNow \<Rightarrow> (case r of R_Time _ \<Rightarrow> True | _ \<Rightarrow> False)
     | RandomSessionId \<Rightarrow> (case r of R_Id sid \<Rightarrow> SESSION_ID_PATTERN sid | _ \<Rightarrow> False)
     | ProviderProbe _ \<Rightarrow> (case r of R_Probe _ \<Rightarrow> True | _ \<Rightarrow> False)
     | ProviderInvalidate _ \<Rightarrow> r = R_Unit
     | ProviderCreate _ _ \<Rightarrow> is_rejection r \<or> (case r of R_Create _ \<Rightarrow> True | _ \<Rightarrow> False)
     | ProviderReset _ _ \<Rightarrow> is_rejection r \<or> (case r of R_Reset _ \<Rightarrow> True | _ \<Rightarrow> False)
     | ProviderDestroy _ _ \<Rightarrow> is_rejection r \<or> (case r of R_Destroy _ \<Rightarrow> True | _ \<Rightarrow> False)
     | ProviderEnvStatus _ _ \<Rightarrow> is_rejection r \<or> (case r of R_Env _ \<Rightarrow> True | _ \<Rightarrow> False)
     | ProviderTerminalContext _ _ \<Rightarrow>
         is_rejection r \<or> (case r of R_Terminal _ \<Rightarrow> True | _ \<Rightarrow> False)
     | ProviderListManaged _ \<Rightarrow> is_rejection r \<or> (case r of R_Managed _ \<Rightarrow> True | _ \<Rightarrow> False)
     | ProviderDestroySandbox _ _ \<Rightarrow>
         is_rejection r \<or> (case r of R_Destroy _ \<Rightarrow> True | _ \<Rightarrow> False)
     | TerminalTerminate _ \<Rightarrow> is_rejection r \<or> r = R_Unit
     | TerminalReattach _ \<Rightarrow> is_rejection r \<or> r = R_Unit
     | NotifyClosed _ \<Rightarrow> is_rejection r \<or> r = R_Unit
     | HookOnAdmitted _ \<Rightarrow> is_rejection r \<or> r = R_Unit
     | _ \<Rightarrow> False)"

section \<open>Running one program alone\<close>

text \<open>
  \<open>run env p st pr\<close> executes \<open>p\<close> with nothing interleaved: the outcome, the store,
  the process state and the calls the environment saw, in order. There is no
  fuel: a program is a well-founded tree.
\<close>

primrec run :: "(call \<Rightarrow> resp) \<Rightarrow> 'a prog \<Rightarrow> InMemorySessionStore \<Rightarrow> process \<Rightarrow>
    (exn + 'a) \<times> InMemorySessionStore \<times> process \<times> call list" where
  "run env (Return x) = (\<lambda>st pr. (Inr x, st, pr, []))"
| "run env (Throw e) = (\<lambda>st pr. (Inl e, st, pr, []))"
| "run env (Call c k) = (\<lambda>st pr.
     case store_answer c st of
       Some (r, st') \<Rightarrow> run env (k r) st' pr
     | None \<Rightarrow>
         (case process_answer c pr of
            Some (r, pr') \<Rightarrow> run env (k r) st pr'
          | None \<Rightarrow>
              (case run env (k (env c)) st pr of
                 (out, st', pr', cs) \<Rightarrow> (out, st', pr', c # cs))))"

section \<open>Which calls a program can make\<close>

primrec all_calls :: "(call \<Rightarrow> bool) \<Rightarrow> 'a prog \<Rightarrow> bool" where
  "all_calls P (Return x) = True"
| "all_calls P (Throw e) = True"
| "all_calls P (Call c k) = (P c \<and> (\<forall>r. all_calls P (k r)))"

lemma all_calls_await [good_intros]:
  "all_calls P p \<Longrightarrow> (\<And>x. all_calls P (f x)) \<Longrightarrow> all_calls P (await p f)"
  by (induction p) simp_all

lemma all_calls_attempt [good_intros]:
  "all_calls P p \<Longrightarrow> (\<And>e. all_calls P (h e)) \<Longrightarrow> all_calls P (attempt p h)"
  by (induction p) simp_all

lemma all_calls_eventually [good_intros]:
  "all_calls P p \<Longrightarrow> all_calls P q \<Longrightarrow> all_calls P (eventually p q)"
  by (induction p) (simp_all add: all_calls_await)

lemma all_calls_for_each [good_intros]:
  "(\<And>x s. all_calls P (body x s)) \<Longrightarrow> all_calls P (for_each xs body s)"
  by (induction xs arbitrary: s) (simp_all add: all_calls_await)

lemma all_calls_of_result [good_intros]: "all_calls P (of_result f r)"
  by (simp add: of_result_def split: sum.splits)

lemma all_calls_call [simp]:
  "all_calls P (call_unit c) = P c" "all_calls P (call_session c) = P c"
  "all_calls P (call_sessions c) = P c" "all_calls P (call_decision c) = P c"
  "all_calls P (call_count c) = P c" "all_calls P (call_bool c) = P c"
  "all_calls P (call_entries c) = P c" "all_calls P (call_ids c) = P c"
  "all_calls P (call_time c) = P c" "all_calls P (call_id c) = P c"
  "all_calls P (call_probe c) = P c" "all_calls P (call_create c) = P c"
  "all_calls P (call_reset c) = P c" "all_calls P (call_destroy c) = P c"
  "all_calls P (call_env c) = P c" "all_calls P (call_terminal c) = P c"
  "all_calls P (call_managed c) = P c"
  by (auto simp: call_defs split: resp.splits)

lemma all_calls_mono: "all_calls P p \<Longrightarrow> (\<And>c. P c \<Longrightarrow> Q c) \<Longrightarrow> all_calls Q p"
  by (induction p) simp_all

end
