(* ===== verification/Program_Logic.thy ===== *)
theory Program_Logic
  imports Session_Program
begin

text \<open>
  A program logic for effect programs. A program is judged together with the history
  of the calls its own request has made and the answers it got. \<open>sat A P Q p h\<close>
  says: started with history \<open>h\<close>, as long as every answer satisfies \<open>A\<close>, the program
  makes no call that \<open>P\<close> forbids at that point of its history, and it ends in a
  history and an outcome that satisfy \<open>Q\<close>. It is defined by recursion on the program
  and is a weakest precondition: awaiting, catching and finally-blocks decompose it
  by equations.
\<close>

type_synonym history = "(call \<times> resp) list"

primrec sat ::
  "(call \<Rightarrow> resp \<Rightarrow> bool) \<Rightarrow> (history \<Rightarrow> call \<Rightarrow> bool) \<Rightarrow> (history \<Rightarrow> exn + 'a \<Rightarrow> bool) \<Rightarrow>
   'a prog \<Rightarrow> history \<Rightarrow> bool" where
  "sat A P Q (Return x) = (\<lambda>h. Q h (Inr x))"
| "sat A P Q (Throw e) = (\<lambda>h. Q h (Inl e))"
| "sat A P Q (Call c k) = (\<lambda>h. P h c \<and> (\<forall>r. A c r \<longrightarrow> sat A P Q (k r) (h @ [(c, r)])))"

lemma sat_await_eq:
  "sat A P Q (await p f) h =
     sat A P (\<lambda>h' out. case out of Inl e \<Rightarrow> Q h' (Inl e) | Inr x \<Rightarrow> sat A P Q (f x) h') p h"
  by (induction p arbitrary: h) simp_all

lemma sat_attempt_eq:
  "sat A P Q (attempt p hdl) h =
     sat A P (\<lambda>h' out. case out of Inl e \<Rightarrow> sat A P Q (hdl e) h' | Inr x \<Rightarrow> Q h' (Inr x)) p h"
  by (induction p arbitrary: h) simp_all

lemma sat_eventually_eq:
  "sat A P Q (eventually p q) h =
     sat A P (\<lambda>h' out. sat A P (\<lambda>h'' out'. case out' of Inl e \<Rightarrow> Q h'' (Inl e) | Inr _ \<Rightarrow> Q h'' out) q h') p h"
  by (induction p arbitrary: h) (simp_all add: sat_await_eq cong: sum.case_cong)

lemma sat_conseq:
  assumes "sat A P Q p h" and "\<And>h' out. \<exists>t. h' = h @ t \<Longrightarrow> Q h' out \<Longrightarrow> Q' h' out"
  shows "sat A P Q' p h"
  using assms
proof (induction p arbitrary: h)
  case (Call c k)
  have "sat A P Q' (k r) (h @ [(c, r)])" if "A c r" for r
  proof (rule Call.IH)
    show "sat A P Q (k r) (h @ [(c, r)])" using Call.prems(1) that by simp
    show "Q' h' out" if "\<exists>t. h' = (h @ [(c, r)]) @ t" "Q h' out" for h' out
      using that Call.prems(2) by auto
  qed simp_all
  with Call.prems(1) show ?case by simp
qed auto

lemma sat_prefix:
  assumes "sat A P Q p h"
  shows "sat A P (\<lambda>h' out. Q h' out \<and> (\<exists>t. h' = h @ t)) p h"
  by (rule sat_conseq [OF assms]) simp

text \<open>The sequencing rules; the history only grows.\<close>

lemma sat_await:
  assumes "sat A P R p h"
    and "\<And>t x. R (h @ t) (Inr x) \<Longrightarrow> sat A P Q (f x) (h @ t)"
    and "\<And>t e. R (h @ t) (Inl e) \<Longrightarrow> Q (h @ t) (Inl e)"
  shows "sat A P Q (await p f) h"
  unfolding sat_await_eq
  by (rule sat_conseq [OF assms(1)]) (use assms(2,3) in \<open>auto split: sum.splits\<close>)

lemma sat_attempt:
  assumes "sat A P R p h"
    and "\<And>t e. R (h @ t) (Inl e) \<Longrightarrow> sat A P Q (hdl e) (h @ t)"
    and "\<And>t x. R (h @ t) (Inr x) \<Longrightarrow> Q (h @ t) (Inr x)"
  shows "sat A P Q (attempt p hdl) h"
  unfolding sat_attempt_eq
  by (rule sat_conseq [OF assms(1)]) (use assms(2,3) in \<open>auto split: sum.splits\<close>)

lemma sat_for_each:
  assumes "\<And>t x s. x \<in> set xs \<Longrightarrow> sat A P (\<lambda>_ _. True) (body x s) (h @ t)"
  shows "sat A P (\<lambda>_ _. True) (for_each xs body s) h"
  using assms
proof (induction xs arbitrary: s h)
  case (Cons x xs)
  show ?case
  proof (simp, rule sat_await [where R = "\<lambda>_ _. True"])
    show "sat A P (\<lambda>_ _. True) (body x s) h" using Cons.prems [where t = "[]" and x = x] by simp
    show "sat A P (\<lambda>_ _. True) (for_each xs body s') (h @ t)" for t s'
    proof (rule Cons.IH)
      show "sat A P (\<lambda>_ _. True) (body y u) ((h @ t) @ t')" if "y \<in> set xs" for t' y u
        using Cons.prems [where t = "t @ t'" and x = y] that by simp
    qed
  qed simp
qed simp

lemma sat_of_result:
  "sat A P Q (of_result f r) h = (case r of Inl e \<Rightarrow> Q h (Inl (f e)) | Inr x \<Rightarrow> Q h (Inr x))"
  by (simp add: of_result_def split: sum.splits)

text \<open>A program whose calls are all harmless whatever came before.\<close>

definition always :: "(history \<Rightarrow> call \<Rightarrow> bool) \<Rightarrow> call \<Rightarrow> bool" where
  "always P c \<longleftrightarrow> (\<forall>h. P h c)"

lemma sat_harmless: "all_calls (always P) p \<Longrightarrow> sat A P (\<lambda>_ _. True) p h"
  by (induction p arbitrary: h) (simp_all add: always_def)

text \<open>A judgement survives a step: the next call is allowed, and the rest is judged after it.\<close>

lemma sat_step:
  "sat A P Q (Call c k) h \<Longrightarrow> P h c"
  "sat A P Q (Call c k) h \<Longrightarrow> A c r \<Longrightarrow> sat A P Q (k r) (h @ [(c, r)])"
  by simp_all

text \<open>
  Typed calls in the judgement. A normal outcome carries the answer; every other
  outcome leaves the history one entry longer.
\<close>

lemma sat_call_session:
  "sat A P Q (call_session c) h = (P h c \<and> (\<forall>r. A c r \<longrightarrow> (case r of
      R_Session s \<Rightarrow> Q (h @ [(c, r)]) (Inr s) | R_Throw e \<Rightarrow> Q (h @ [(c, r)]) (Inl e)
    | _ \<Rightarrow> Q (h @ [(c, r)]) (Inl ProtocolError))))"
  unfolding call_session_def by (auto split: resp.splits)

lemma sat_call_destroy:
  "sat A P Q (call_destroy c) h = (P h c \<and> (\<forall>r. A c r \<longrightarrow> (case r of
      R_Destroy d \<Rightarrow> Q (h @ [(c, r)]) (Inr d) | R_Throw e \<Rightarrow> Q (h @ [(c, r)]) (Inl e)
    | _ \<Rightarrow> Q (h @ [(c, r)]) (Inl ProtocolError))))"
  unfolding call_destroy_def by (auto split: resp.splits)

lemma sat_call_create:
  "sat A P Q (call_create c) h = (P h c \<and> (\<forall>r. A c r \<longrightarrow> (case r of
      R_Create d \<Rightarrow> Q (h @ [(c, r)]) (Inr d) | R_Throw e \<Rightarrow> Q (h @ [(c, r)]) (Inl e)
    | _ \<Rightarrow> Q (h @ [(c, r)]) (Inl ProtocolError))))"
  unfolding call_create_def by (auto split: resp.splits)

lemma sat_call_reset:
  "sat A P Q (call_reset c) h = (P h c \<and> (\<forall>r. A c r \<longrightarrow> (case r of
      R_Reset d \<Rightarrow> Q (h @ [(c, r)]) (Inr d) | R_Throw e \<Rightarrow> Q (h @ [(c, r)]) (Inl e)
    | _ \<Rightarrow> Q (h @ [(c, r)]) (Inl ProtocolError))))"
  unfolding call_reset_def by (auto split: resp.splits)

lemma sat_call_sessions:
  "sat A P Q (call_sessions c) h = (P h c \<and> (\<forall>r. A c r \<longrightarrow> (case r of
      R_Sessions s \<Rightarrow> Q (h @ [(c, r)]) (Inr s) | R_Throw e \<Rightarrow> Q (h @ [(c, r)]) (Inl e)
    | _ \<Rightarrow> Q (h @ [(c, r)]) (Inl ProtocolError))))"
  unfolding call_sessions_def by (auto split: resp.splits)

lemma sat_call_id:
  "sat A P Q (call_id c) h = (P h c \<and> (\<forall>r. A c r \<longrightarrow> (case r of
      R_Id s \<Rightarrow> Q (h @ [(c, r)]) (Inr s) | R_Throw e \<Rightarrow> Q (h @ [(c, r)]) (Inl e)
    | _ \<Rightarrow> Q (h @ [(c, r)]) (Inl ProtocolError))))"
  unfolding call_id_def by (auto split: resp.splits)

lemma sat_call_true:
  "P h c \<Longrightarrow> sat A P (\<lambda>_ _. True) (call_unit c) h"
  "P h c \<Longrightarrow> sat A P (\<lambda>_ _. True) (call_time c) h"
  "P h c \<Longrightarrow> sat A P (\<lambda>_ _. True) (call_bool c) h"
  "P h c \<Longrightarrow> sat A P (\<lambda>_ _. True) (call_count c) h"
  "P h c \<Longrightarrow> sat A P (\<lambda>_ _. True) (call_probe c) h"
  "P h c \<Longrightarrow> sat A P (\<lambda>_ _. True) (call_decision c) h"
  "P h c \<Longrightarrow> sat A P (\<lambda>_ _. True) (call_entries c) h"
  "P h c \<Longrightarrow> sat A P (\<lambda>_ _. True) (call_ids c) h"
  "P h c \<Longrightarrow> sat A P (\<lambda>_ _. True) (call_managed c) h"
  "P h c \<Longrightarrow> sat A P (\<lambda>_ _. True) (call_terminal c) h"
  "P h c \<Longrightarrow> sat A P (\<lambda>_ _. True) (call_env c) h"
  by (auto simp: call_defs split: resp.splits)

end
