(* ===== verification/Provider_Registry.thy ===== *)
theory Provider_Registry
  imports Session_Program
begin

text \<open>
  The provider registry: \<open>providers/registry.ts\<close>. Resolution is a pure lookup in the
  registrations; availability is a memo with a time to live, filled by probes that
  concurrent callers share. The shared probe is modelled as a state machine: a call
  of \<open>status\<close> either answers from the memo, joins the probe in flight or starts one,
  and a probe that ends writes the memo. Probes are numbered in the order they
  start, which stands for the identity of the promise the source compares.

  A provider is named by the id it is registered under; \<open>register\<close> refuses an
  implementation that reports an id outside the vocabulary.
\<close>

section \<open>Registrations\<close>

definition parse_provider :: "string \<Rightarrow> LabProviderId option" where
  "parse_provider s = find (\<lambda>p. provider_name p = s) LAB_PROVIDERS"

definition isLabProviderId :: "string \<Rightarrow> bool" where
  "isLabProviderId s \<longleftrightarrow> s \<in> set (map provider_name LAB_PROVIDERS)"

record ProviderRegistration =
  reg_id :: string
  reg_name :: string
  reg_sandboxKind :: SandboxKind
  reg_enabled :: "bool option"
  disabledReason :: "string option"
  reg_remediation :: "string option"

record ProviderStatus =
  ps_provider :: string
  ps_implementation :: string
  ps_registered :: bool
  ps_disabled :: bool
  ps_availability :: ProviderAvailability

record memo =
  memo_at :: int
  memo_status :: ProviderStatus
  memo_probe :: nat

record ProviderRegistry =
  registrations :: "(LabProviderId \<times> ProviderRegistration) list"
  cache :: "(LabProviderId \<times> memo) list"
  inFlight :: "(LabProviderId \<times> nat) list"
  ttlMs :: int
  probes :: nat

definition DEFAULT_AVAILABILITY_TTL_MS :: int where "DEFAULT_AVAILABILITY_TTL_MS = 30000"

definition new_registry :: "int option \<Rightarrow> ProviderRegistry" where
  "new_registry ttl = \<lparr>registrations = [], cache = [], inFlight = [],
     ttlMs = or_keep DEFAULT_AVAILABILITY_TTL_MS ttl, probes = 0\<rparr>"

definition unsupported_id :: "string \<Rightarrow> string" where
  "unsupported_id i = ''Provider implementation reports id '' @ i @
     '', which is not a supported provider''"

definition register :: "ProviderRegistration \<Rightarrow> ProviderRegistry \<Rightarrow> exn + ProviderRegistry" where
  "register registration reg =
     (case parse_provider (reg_id registration) of
        None \<Rightarrow> Inl (Rejected (unsupported_id (reg_id registration)))
      | Some i \<Rightarrow> Inr (reg\<lparr>registrations := AList.update i registration (registrations reg),
                          cache := AList.delete i (cache reg),
                          inFlight := AList.delete i (inFlight reg)\<rparr>))"

definition has_provider :: "ProviderRegistry \<Rightarrow> string \<Rightarrow> bool" where
  "has_provider reg s = (case parse_provider s of None \<Rightarrow> False
     | Some i \<Rightarrow> map_of (registrations reg) i \<noteq> None)"

definition registeredIds :: "ProviderRegistry \<Rightarrow> LabProviderId list" where
  "registeredIds reg = map fst (registrations reg)"

definition provider_join :: "string list \<Rightarrow> string" where
  "provider_join xs = (case xs of [] \<Rightarrow> [] | x # ys \<Rightarrow> x @ concat (map (\<lambda>y. '', '' @ y) ys))"

definition resolve :: "ProviderRegistry \<Rightarrow> string \<Rightarrow> exn + LabProviderId" where
  "resolve reg s =
     (case parse_provider s of
        None \<Rightarrow> Inl (ProviderUnavailableError s
          (''unknown provider (supported: '' @ provider_join (map provider_name LAB_PROVIDERS) @ '')'')
          None)
      | Some i \<Rightarrow>
          (case map_of (registrations reg) i of
             None \<Rightarrow> Inl (ProviderUnavailableError s
               ''no implementation is registered for this provider''
               (Some ''Register the provider in the API composition root (apps/api/src/providers.ts).''))
           | Some registration \<Rightarrow>
               if reg_enabled registration = Some False
               then Inl (ProviderUnavailableError s
                      (or_keep ''disabled by configuration'' (disabledReason registration))
                      (reg_remediation registration))
               else Inr i))"

definition peek :: "ProviderRegistry \<Rightarrow> string \<Rightarrow> LabProviderId option" where
  "peek reg s =
     (case parse_provider s of
        None \<Rightarrow> None
      | Some i \<Rightarrow> if map_of (registrations reg) i = None then None else Some i)"

definition all_providers :: "ProviderRegistry \<Rightarrow> LabProviderId list" where
  "all_providers reg = map fst (registrations reg)"

definition singleProviderRegistry :: "ProviderRegistration \<Rightarrow> exn + ProviderRegistry" where
  "singleProviderRegistry registration =
     register (registration\<lparr>reg_enabled := None, disabledReason := None, reg_remediation := None\<rparr>)
       (new_registry None)"

section \<open>Availability\<close>

text \<open>What a call of \<open>status\<close> gets: an answer now, or the number of the probe it waits for.\<close>

datatype status_answer = Answered ProviderStatus | Waiting nat

definition not_available :: "string \<Rightarrow> ProviderAvailability" where
  "not_available reason = \<lparr>available = False, av_reason = Some reason, av_remediation = None,
     studentReason = None\<rparr>"

definition provider_status ::
  "ProviderRegistry \<Rightarrow> int \<Rightarrow> string \<Rightarrow> status_answer \<times> ProviderRegistry" where
  "provider_status reg now s =
     (case parse_provider s of
        None \<Rightarrow> (Answered \<lparr>ps_provider = s, ps_implementation = ''none'', ps_registered = False,
             ps_disabled = False,
             ps_availability = not_available (''unknown provider '' @ [CHR 0x27] @ s @ [CHR 0x27])\<rparr>, reg)
      | Some i \<Rightarrow>
          (case map_of (registrations reg) i of
             None \<Rightarrow> (Answered \<lparr>ps_provider = s, ps_implementation = ''none'', ps_registered = False,
                  ps_disabled = False,
                  ps_availability = not_available ''no implementation is registered for this provider''\<rparr>,
                reg)
           | Some registration \<Rightarrow>
               (case map_of (cache reg) i of
                  Some m \<Rightarrow> if now - memo_at m < ttlMs reg then (Answered (memo_status m), reg)
                            else (case map_of (inFlight reg) i of
                                    Some pending \<Rightarrow> (Waiting pending, reg)
                                  | None \<Rightarrow> (Waiting (probes reg),
                                      reg\<lparr>inFlight := AList.update i (probes reg) (inFlight reg),
                                          probes := probes reg + 1\<rparr>))
                | None \<Rightarrow> (case map_of (inFlight reg) i of
                            Some pending \<Rightarrow> (Waiting pending, reg)
                          | None \<Rightarrow> (Waiting (probes reg),
                              reg\<lparr>inFlight := AList.update i (probes reg) (inFlight reg),
                                  probes := probes reg + 1\<rparr>)))))"

text \<open>
  The end of the probe numbered \<open>n\<close> of a registration: \<open>answer\<close> is what
  \<open>availability()\<close> gave, or its rejection. A disabled registration does not ask.
\<close>

definition probe_result ::
  "LabProviderId \<Rightarrow> ProviderRegistration \<Rightarrow> exn + ProviderAvailability \<Rightarrow> ProviderStatus" where
  "probe_result i registration answer =
     (let base = \<lparr>ps_provider = provider_name i, ps_implementation = reg_name registration,
                  ps_registered = True, ps_disabled = False, ps_availability = not_available []\<rparr> in
      if reg_enabled registration = Some False
      then base\<lparr>ps_disabled := True,
                ps_availability := \<lparr>available = False,
                  av_reason = Some (or_keep ''disabled by configuration'' (disabledReason registration)),
                  av_remediation = (if reg_remediation registration = Some [] then None
                                    else reg_remediation registration),
                  studentReason = None\<rparr>\<rparr>
      else (case answer of
              Inr probed \<Rightarrow> base\<lparr>ps_availability := probed\<rparr>
            | Inl e \<Rightarrow> base\<lparr>ps_availability := not_available (describeError e)\<rparr>))"

definition probe_done ::
  "ProviderRegistry \<Rightarrow> int \<Rightarrow> LabProviderId \<Rightarrow> ProviderRegistration \<Rightarrow> nat \<Rightarrow>
   exn + ProviderAvailability \<Rightarrow> ProviderStatus \<times> ProviderRegistry" where
  "probe_done reg now i registration n answer =
     (let st = probe_result i registration answer in
      (st, reg\<lparr>cache := AList.update i \<lparr>memo_at = now, memo_status = st, memo_probe = n\<rparr> (cache reg),
               inFlight := (if map_of (inFlight reg) i = Some n then AList.delete i (inFlight reg)
                            else inFlight reg)\<rparr>))"

definition invalidate :: "ProviderRegistry \<Rightarrow> string option \<Rightarrow> ProviderRegistry" where
  "invalidate reg s =
     (case Option.bind s parse_provider of
        Some i \<Rightarrow> reg\<lparr>cache := AList.delete i (cache reg), inFlight := AList.delete i (inFlight reg)\<rparr>
      | None \<Rightarrow> reg\<lparr>cache := [], inFlight := []\<rparr>)"

lemma parse_provider_iff: "parse_provider s = Some i \<longleftrightarrow> s = provider_name i"
  by (cases i) (auto simp: parse_provider_def LAB_PROVIDERS_def split: if_splits)

lemma isLabProviderId_parse: "isLabProviderId s \<longleftrightarrow> parse_provider s \<noteq> None"
  by (auto simp: isLabProviderId_def parse_provider_def LAB_PROVIDERS_def)

end
