(* ===== verification/Session_Manager.thy ===== *)
theory Session_Manager
  imports Provider_Registry
begin

text \<open>
  The session lifecycle manager: \<open>session/manager.ts\<close>, every method that reads or
  changes a session, as a program of effects. The manager's fields are the record
  \<open>SessionManager\<close>; its in-flight maps and its stopping flag are state of the process.
  The sandbox read ports (\<open>sandboxPort\<close>) only bind provider methods to a context and
  are not modelled.
\<close>

section \<open>Configuration\<close>

record SessionLifetimeConfig =
  maxSessionSeconds :: int
  cfg_idleTimeoutSeconds :: int
  warningSeconds :: int
  maxActiveSessions :: int
  maxActiveSessionsPerStudent :: "int option"

text \<open>
  \<open>hmac\<close> is the keyed hash of Node's crypto library; \<open>has_terminal\<close>, \<open>has_reattach\<close>
  and \<open>has_listener\<close> say which optional ports the composition root supplied.
\<close>

record SessionManager =
  registry :: LabRegistry
  providers :: ProviderRegistry
  policy_serviceAccountName :: string
  lifetimes :: SessionLifetimeConfig
  namespaceSecret :: string
  hmac :: "string \<Rightarrow> string \<Rightarrow> string"
  has_terminal :: bool
  has_reattach :: bool
  has_listener :: bool

record StartHooks =
  has_onAdmitted :: bool
  ownerSessionLimit :: "int option"

record StartSessionResult =
  start_session :: LabSession
  start_lab :: Lab
  start_environment :: EnvironmentInfo
  start_steps :: "ProvisionStep list"

record TeardownResult =
  td_session :: LabSession
  td_destroy :: DestroyResult

record SessionView =
  v_sessionId :: string
  v_labId :: string
  v_status :: session_status
  v_provider :: LabProviderId
  v_sandboxKind :: SandboxKind
  v_sandboxRef :: string
  v_namespace :: string
  v_createdAt :: int
  v_lastActivityAt :: int
  v_expiresAt :: int
  v_endedAt :: "int option"
  v_statusReason :: "string option"
  secondsRemaining :: int
  secondsUntilIdle :: int
  idleWarning :: bool
  v_idleTimeoutSeconds :: int
  v_warningSeconds :: int

datatype operation = Op_Start | Op_Reset

section \<open>Refusals and reasons\<close>

definition LIVE_STATUSES :: "session_status list" where
  "LIVE_STATUSES = [CREATING, ACTIVE, RESETTING, DEGRADED]"

definition RESET_RETRY_REMEDIATION :: string where
  "RESET_RETRY_REMEDIATION =
     ''The last reset did not finish, so this environment cannot be used as it is. '' @
     ''Reset the lab to rebuild it, or End Lab to release it.''"

fun status_name :: "session_status \<Rightarrow> string" where
  "status_name CREATING = ''CREATING''"
| "status_name ACTIVE = ''ACTIVE''"
| "status_name RESETTING = ''RESETTING''"
| "status_name DEGRADED = ''DEGRADED''"
| "status_name EXPIRING = ''EXPIRING''"
| "status_name EXPIRED = ''EXPIRED''"
| "status_name ENDING = ''ENDING''"
| "status_name ENDED = ''ENDED''"
| "status_name FAILED = ''FAILED''"

definition remediationFor :: "session_status \<Rightarrow> string" where
  "remediationFor s =
     (if isTerminalStatus s then ''Start the lab again to get a fresh environment.''
      else if s = DEGRADED then RESET_RETRY_REMEDIATION
      else ''The environment is busy; try again in a moment.'')"

definition notActive :: "session_status \<Rightarrow> exn" where
  "notActive s = SessionError SESSION_NOT_ACTIVE (''This lab session is '' @ status_name s @ ''.'')
     (Some (remediationFor s)) (D_Status s)"

definition restarting :: "operation \<Rightarrow> exn" where
  "restarting op = (case op of
       Op_Start \<Rightarrow> SessionError LAB_LAUNCHES_PAUSED
         ''The platform is restarting, so new labs cannot start for a moment.''
         (Some ''Labs that are already running keep working. Try again in a minute.'') No_Details
     | Op_Reset \<Rightarrow> SessionError SESSION_NOT_ACTIVE
         ''The platform is restarting, so this lab cannot be reset for a moment.''
         (Some ''Your lab is unchanged. Try Reset again in a minute.'') No_Details)"

definition OPERATOR_END_REASON :: string where
  "OPERATOR_END_REASON = ''ended by operator''"

definition ABANDONED_START_REASON :: string where
  "ABANDONED_START_REASON = ''the lab did not finish starting''"

fun str_includes :: "string \<Rightarrow> string \<Rightarrow> bool" where
  "str_includes s w = (starts_with w s \<or> (case s of [] \<Rightarrow> False | _ # t \<Rightarrow> str_includes t w))"

definition endReasonFor :: "session_status \<Rightarrow> string \<Rightarrow> string" where
  "endReasonFor done detail =
     (if done = ENDED then ''student''
      else if detail = OPERATOR_END_REASON then ''operator''
      else if detail = ABANDONED_START_REASON then ''failed''
      else let lowered = toLowerCase detail in
        if str_includes lowered ''idle'' then ''idle''
        else if str_includes lowered ''lifetime'' \<or> str_includes lowered ''expired'' then ''expired''
        else ''expired'')"

section \<open>Contexts\<close>

definition providerFor :: "SessionManager \<Rightarrow> LabSession \<Rightarrow> exn + LabProviderId" where
  "providerFor m session =
     (case peek (providers m) (provider_name (provider session)) of
        None \<Rightarrow> Inl (ProviderUnavailableError (provider_name (provider session))
          ''no implementation is registered for the provider that created this session'' None)
      | Some p \<Rightarrow> Inr p)"

text \<open>The stored row always has a sandbox handle, so \<open>sandboxRef ?? namespace\<close> is the handle.\<close>

definition teardownContextFor :: "LabSession \<Rightarrow> SessionTeardownContext" where
  "teardownContextFor session = \<lparr>ctx_sessionId = sessionId session, ctx_labId = labId session,
     ctx_sandboxRef = sandboxRef session, ctx_namespace = namespace session,
     ctx_serviceAccountName = serviceAccountName session, ctx_expiresAtMs = expiresAt session\<rparr>"

definition contextFor_lab :: "Lab \<Rightarrow> LabSession \<Rightarrow> LabSessionContext" where
  "contextFor_lab lab session = (teardownContextFor session, lab)"

definition contextFor :: "SessionManager \<Rightarrow> LabSession \<Rightarrow> exn + LabSessionContext" where
  "contextFor m session =
     (case registry_get (registry m) (labId session) of
        Inl e \<Rightarrow> Inl (LabRefused e)
      | Inr lab \<Rightarrow> Inr (contextFor_lab lab session))"

definition view :: "int \<Rightarrow> LabSession \<Rightarrow> SessionView" where
  "view now session =
     (let idleDeadlineMs = lastActivityAt session + idleTimeoutSeconds session * 1000;
          remaining = max 0 ((expiresAt session - now) div 1000);
          untilIdle = max 0 ((idleDeadlineMs - now) div 1000);
          live = (status session = ACTIVE \<or> status session = RESETTING)
      in \<lparr>v_sessionId = sessionId session, v_labId = labId session, v_status = status session,
          v_provider = provider session, v_sandboxKind = sandboxKind session,
          v_sandboxRef = sandboxRef session, v_namespace = namespace session,
          v_createdAt = createdAt session, v_lastActivityAt = lastActivityAt session,
          v_expiresAt = expiresAt session, v_endedAt = endedAt session,
          v_statusReason = (if statusReason session = Some [] then None else statusReason session),
          secondsRemaining = (if live then remaining else 0),
          secondsUntilIdle = (if live then untilIdle else 0),
          idleWarning = (live \<and> untilIdle \<le> idleWarningSeconds session \<and> 0 < remaining),
          v_idleTimeoutSeconds = idleTimeoutSeconds session,
          v_warningSeconds = idleWarningSeconds session\<rparr>)"

section \<open>The conditional write\<close>

definition transition ::
  "string \<Rightarrow> session_status list \<Rightarrow> session_status \<Rightarrow> LabSessionPatch \<Rightarrow> TransitionGuard \<Rightarrow>
   LabSession option prog" where
  "transition sid from to patch guard =
     await (call_time ClockNow) (\<lambda>t.
       call_session (StoreTransition sid from to (patch\<lparr>p_statusChangedAt := Some t\<rparr>) guard))"

definition with_reason :: "string \<Rightarrow> LabSessionPatch" where
  "with_reason reason = no_patch\<lparr>p_statusReason := Some reason\<rparr>"

definition with_activity :: "int \<Rightarrow> LabSessionPatch" where
  "with_activity t = no_patch\<lparr>p_lastActivityAt := Some t\<rparr>"

definition notifyClosed :: "SessionManager \<Rightarrow> SessionClosedEvent \<Rightarrow> unit prog" where
  "notifyClosed m event =
     (if \<not> has_listener m then Return ()
      else attempt (call_unit (NotifyClosed event)) (\<lambda>_. Return ()))"

section \<open>Retrieval\<close>

definition require :: "unknown_value \<Rightarrow> LabSession prog" where
  "require sid =
     (case assertValidSessionId sid of
        Inl _ \<Rightarrow> Throw (SessionError INVALID_SESSION_ID ''Session ids look like sess-<hex>.'' None No_Details)
      | Inr i \<Rightarrow>
          await (call_session (StoreGet i)) (\<lambda>found.
            case found of
              None \<Rightarrow> Throw (SessionError SESSION_NOT_FOUND
                ''That lab session does not exist, or it has already been cleaned up.''
                (Some ''Start the lab again to get a fresh environment.'') No_Details)
            | Some session \<Rightarrow> Return session))"

definition requireActive :: "SessionManager \<Rightarrow> unknown_value \<Rightarrow> (LabSession \<times> Lab) prog" where
  "requireActive m sid =
     await (require sid) (\<lambda>session.
       if status session \<noteq> ACTIVE then Throw (notActive (status session))
       else await (of_result LabRefused (registry_get (registry m) (labId session))) (\<lambda>lab.
              Return (session, lab)))"

definition get :: "string \<Rightarrow> LabSession option prog" where
  "get sid = call_session (StoreGet sid)"

definition env_status :: "SessionManager \<Rightarrow> LabSession \<Rightarrow> EnvironmentInfo prog" where
  "env_status m session =
     await (of_result id (providerFor m session)) (\<lambda>p.
     await (of_result id (contextFor m session)) (\<lambda>ctx.
       call_env (ProviderEnvStatus p ctx)))"

definition list_sessions :: "LabSession list prog" where
  "list_sessions = call_sessions StoreList"

definition activeCount :: "nat prog" where
  "activeCount = call_count StoreCountOccupying"

definition manager_listOccupying :: "LabSession list prog" where
  "manager_listOccupying = call_sessions StoreListOccupying"

definition manager_listOccupyingForOwner :: "string \<Rightarrow> LabSession list prog" where
  "manager_listOccupyingForOwner owner = call_sessions (StoreListOccupyingForOwner owner)"

definition forget :: "string \<Rightarrow> unit prog" where
  "forget sid = call_unit (StoreDelete sid)"

section \<open>Activity\<close>

definition touchActivity :: "string \<Rightarrow> LabSession option prog" where
  "touchActivity sid =
     await (call_time ClockNow) (\<lambda>t. call_session (StoreTouchActivity sid t))"

definition touch :: "string \<Rightarrow> LabSession option prog" where
  "touch sid =
     await (call_time ClockNow) (\<lambda>t.
     await (call_session (StoreTouchActivity sid t)) (\<lambda>touched.
       case touched of Some s \<Rightarrow> Return (Some s) | None \<Rightarrow> call_session (StoreGet sid)))"

section \<open>Teardown\<close>

definition destroy_failed :: "string \<Rightarrow> DestroyResult" where
  "destroy_failed msg = \<lparr>destroy_ok = False, namespaceGone = False, destroy_steps = [],
     destroy_error = Some \<lparr>le_code = DESTROY_FAILED, le_message = msg, le_remediation = None\<rparr>\<rparr>"

definition destroy_noted :: "bool \<Rightarrow> DestroyResult" where
  "destroy_noted gone = \<lparr>destroy_ok = True, namespaceGone = gone, destroy_steps = [],
     destroy_error = None\<rparr>"

text \<open>\<open>(await this.#store.get(id)) ?? fallback\<close>\<close>

definition get_or :: "string \<Rightarrow> LabSession \<Rightarrow> LabSession prog" where
  "get_or sid fallback =
     await (call_session (StoreGet sid)) (\<lambda>c. Return (or_keep fallback c))"

text \<open>
  \<open>#teardown\<close> from the claim on, in its phases: close the shell, destroy, and once
  the sandbox is verifiably gone record the ending and notify.
\<close>

definition close_shell :: "SessionManager \<Rightarrow> string \<Rightarrow> unit prog" where
  "close_shell m sid =
     (if has_terminal m then attempt (call_unit (TerminalTerminate sid)) (\<lambda>_. Return ())
      else Return ())"

definition destroy_stored :: "SessionManager \<Rightarrow> LabSession \<Rightarrow> DestroyResult prog" where
  "destroy_stored m row =
     attempt
       (await (of_result id (providerFor m row)) (\<lambda>p.
          call_destroy (ProviderDestroy p (teardownContextFor row))))
       (\<lambda>e. Return (destroy_failed (describeError e)))"

definition closed_event :: "LabSession \<Rightarrow> session_status \<Rightarrow> string \<Rightarrow> SessionClosedEvent" where
  "closed_event ended done reason = \<lparr>ev_sessionId = sessionId ended, ev_labId = labId ended,
     ev_provider = provider ended, ev_status = done, ev_reason = reason\<rparr>"

definition record_ending ::
  "SessionManager \<Rightarrow> LabSession \<Rightarrow> LabSession \<Rightarrow> session_status \<Rightarrow> session_status \<Rightarrow> string \<Rightarrow>
   DestroyResult \<Rightarrow> TeardownResult prog" where
  "record_ending m session marked inProgress done reason destroy =
     await (call_time ClockNow) (\<lambda>t.
     await (transition (sessionId session) [inProgress] done
              ((with_reason reason)\<lparr>p_endedAt := Some t\<rparr>) no_guard) (\<lambda>ended.
       case ended of
         None \<Rightarrow> await (get_or (sessionId session) marked) (\<lambda>current.
                   Return \<lparr>td_session = current, td_destroy = destroy\<rparr>)
       | Some e \<Rightarrow> await (notifyClosed m (closed_event e done reason)) (\<lambda>_.
                   Return \<lparr>td_session = e, td_destroy = destroy\<rparr>)))"

definition teardown_claimed ::
  "SessionManager \<Rightarrow> LabSession \<Rightarrow> LabSession \<Rightarrow> session_status \<Rightarrow> session_status \<Rightarrow> string \<Rightarrow>
   TeardownResult prog" where
  "teardown_claimed m session marked inProgress done reason =
     await (close_shell m (sessionId session)) (\<lambda>_.
     await (destroy_stored m marked) (\<lambda>destroy.
       if \<not> destroy_ok destroy \<or> \<not> namespaceGone destroy
       then await (get_or (sessionId session) marked) (\<lambda>current.
              Return \<lparr>td_session = current, td_destroy = destroy\<rparr>)
       else record_ending m session marked inProgress done reason destroy))"

definition claim_and_teardown ::
  "SessionManager \<Rightarrow> LabSession \<Rightarrow> session_status list \<Rightarrow> session_status \<Rightarrow> session_status \<Rightarrow>
   string \<Rightarrow> TransitionGuard \<Rightarrow> TeardownResult prog" where
  "claim_and_teardown m session claimable inProgress done reason claimGuard =
     await (transition (sessionId session) claimable inProgress (with_reason reason) claimGuard) (\<lambda>marked.
       case marked of
         None \<Rightarrow>
           await (get_or (sessionId session) session) (\<lambda>current.
             Return \<lparr>td_session = current, td_destroy = destroy_noted (isTerminalStatus (status current))\<rparr>)
       | Some mk \<Rightarrow> teardown_claimed m session mk inProgress done reason)"

definition teardown ::
  "SessionManager \<Rightarrow> LabSession \<Rightarrow> session_status list \<Rightarrow> session_status \<Rightarrow> session_status \<Rightarrow>
   string \<Rightarrow> TransitionGuard \<Rightarrow> bool \<Rightarrow> TeardownResult prog" where
  "teardown m session claimable inProgress done reason claimGuard deferToStart =
     (if isTerminalStatus (status session)
      then Return \<lparr>td_session = session, td_destroy = destroy_noted True\<rparr>
      else if deferToStart \<and> status session = CREATING
      then await (transition (sessionId session) [CREATING] inProgress (with_reason reason) claimGuard)
             (\<lambda>claimed.
             case claimed of
               Some c \<Rightarrow> Return \<lparr>td_session = c, td_destroy = destroy_noted False\<rparr>
             | None \<Rightarrow> claim_and_teardown m session claimable inProgress done reason claimGuard)
      else claim_and_teardown m session claimable inProgress done reason claimGuard)"

definition resumeAbandonedEnd :: "SessionManager \<Rightarrow> string \<Rightarrow> TeardownResult prog" where
  "resumeAbandonedEnd m sid =
     await (require (UString sid)) (\<lambda>session.
       teardown m session [ENDING] ENDING ENDED
         (or_keep ''ended by student'' (statusReason session)) no_guard False)"

definition end_session :: "SessionManager \<Rightarrow> string \<Rightarrow> TeardownResult prog" where
  "end_session m sid =
     await (require (UString sid)) (\<lambda>session.
       teardown m session (LIVE_STATUSES @ [ENDING]) ENDING ENDED ''ended by student'' no_guard True)"

definition expire :: "SessionManager \<Rightarrow> string \<Rightarrow> string \<Rightarrow> TransitionGuard \<Rightarrow> TeardownResult prog" where
  "expire m sid reason claimGuard =
     await (require (UString sid)) (\<lambda>session.
       teardown m session (LIVE_STATUSES @ [EXPIRING]) EXPIRING EXPIRED reason claimGuard False)"

definition endByOperator :: "SessionManager \<Rightarrow> string \<Rightarrow> TeardownResult prog" where
  "endByOperator m sid =
     await (require (UString sid)) (\<lambda>session.
       if status session = ENDING then resumeAbandonedEnd m (sessionId session)
       else if status session = EXPIRING
       then teardown m session [EXPIRING] EXPIRING EXPIRED
              (or_keep OPERATOR_END_REASON (statusReason session)) no_guard False
       else teardown m session LIVE_STATUSES EXPIRING EXPIRED OPERATOR_END_REASON no_guard True)"

definition reclaimFinishedSandbox :: "SessionManager \<Rightarrow> string \<Rightarrow> DestroyResult prog" where
  "reclaimFinishedSandbox m sid =
     await (call_session (StoreGet sid)) (\<lambda>found.
       case found of
         None \<Rightarrow> Return (destroy_failed (''session '' @ sid @ '' is unknown, not finished''))
       | Some session \<Rightarrow>
           if \<not> isTerminalStatus (status session)
           then Return (destroy_failed
                  (''session '' @ sid @ '' is '' @ status_name (status session) @ '', not finished''))
           else destroy_stored m session)"

section \<open>Start\<close>

text \<open>A best-effort destroy: its result and its failure go to the log only.\<close>

definition destroy_quietly :: "SessionManager \<Rightarrow> LabSession \<Rightarrow> LabSessionContext \<Rightarrow> unit prog" where
  "destroy_quietly m session ctx =
     attempt
       (await (of_result id (providerFor m session)) (\<lambda>p.
        await (call_destroy (ProviderDestroy p (fst ctx))) (\<lambda>_. Return ())))
       (\<lambda>_. Return ())"

definition discardLostWork :: "SessionManager \<Rightarrow> LabSession \<Rightarrow> LabSessionContext \<Rightarrow> unit prog" where
  "discardLostWork m session ctx =
     await (call_session (StoreGet (sessionId session))) (\<lambda>current.
       case current of
         Some c \<Rightarrow> if \<not> isTeardownOwned (status c) then Return () else destroy_quietly m session ctx
       | None \<Rightarrow> destroy_quietly m session ctx)"

definition finishTeardownOfLostStart :: "SessionManager \<Rightarrow> string \<Rightarrow> unit prog" where
  "finishTeardownOfLostStart m sid =
     attempt
       (await (call_session (StoreGet sid)) (\<lambda>current.
          case current of
            None \<Rightarrow> Return ()
          | Some c \<Rightarrow>
              if status c = ENDING then await (resumeAbandonedEnd m sid) (\<lambda>_. Return ())
              else if status c = EXPIRING
              then await (teardown m c [EXPIRING] EXPIRING EXPIRED
                            (or_keep ''expired'' (statusReason c)) no_guard False) (\<lambda>_. Return ())
              else Return ()))
       (\<lambda>_. Return ())"

definition closedDuringStart :: "string \<Rightarrow> exn prog" where
  "closedDuringStart sid =
     await (call_session (StoreGet sid)) (\<lambda>current.
       Return (SessionError SESSION_NOT_ACTIVE
         (''This lab session was closed while it was starting'' @
            (case current of Some c \<Rightarrow> '' ('' @ status_name (status c) @ '')'' | None \<Rightarrow> []) @ ''.'')
         (Some ''Start the lab again to get a fresh environment.'')
         (case current of Some c \<Rightarrow> D_Status (status c) | None \<Rightarrow> No_Details)))"

definition failSession ::
  "SessionManager \<Rightarrow> LabSession \<Rightarrow> LabSessionContext \<Rightarrow> string \<Rightarrow> unit prog" where
  "failSession m session ctx reason =
     await (call_unit (ProviderInvalidate (provider session))) (\<lambda>_.
     await (destroy_quietly m session ctx) (\<lambda>_.
     await (call_time ClockNow) (\<lambda>t.
     await (transition (sessionId session) [CREATING] FAILED
              ((with_reason reason)\<lparr>p_endedAt := Some t\<rparr>) no_guard) (\<lambda>failed.
       case failed of
         Some _ \<Rightarrow> Return ()
       | None \<Rightarrow>
           await (call_session (StoreGet (sessionId session))) (\<lambda>_.
             finishTeardownOfLostStart m (sessionId session))))))"

definition provision_failed :: "SessionManager \<Rightarrow> LabSession \<Rightarrow> LabSessionContext \<Rightarrow> CreateResult \<Rightarrow> 'a prog" where
  "provision_failed m session ctx result =
     (let message = (case create_error result of
                       Some e \<Rightarrow> le_message e
                     | None \<Rightarrow> ''Failed to create the lab environment'') in
      await (failSession m session ctx message) (\<lambda>_.
        Throw (SessionError SESSION_PROVISION_FAILED message
                 (Option.bind (create_error result) le_remediation)
                 (D_Provision (create_steps result) (create_environment result)
                    (map_option le_code (create_error result))))))"

definition provision_threw :: "SessionManager \<Rightarrow> LabSession \<Rightarrow> LabSessionContext \<Rightarrow> exn \<Rightarrow> 'a prog" where
  "provision_threw m session ctx e =
     await (failSession m session ctx (describeError e)) (\<lambda>_.
       Throw (SessionError SESSION_PROVISION_FAILED (describeError e) None No_Details))"

definition lost_start :: "SessionManager \<Rightarrow> LabSession \<Rightarrow> LabSessionContext \<Rightarrow> 'a prog" where
  "lost_start m session ctx =
     await (discardLostWork m session ctx) (\<lambda>_.
     await (finishTeardownOfLostStart m (sessionId session)) (\<lambda>_.
     await (closedDuringStart (sessionId session)) Throw))"

definition activate ::
  "SessionManager \<Rightarrow> Lab \<Rightarrow> LabSession \<Rightarrow> LabSessionContext \<Rightarrow> CreateResult \<Rightarrow> StartSessionResult prog" where
  "activate m lab session ctx result =
     await (call_time ClockNow) (\<lambda>t.
     await (transition (sessionId session) [CREATING] ACTIVE
              ((with_activity t)\<lparr>p_environmentId :=
                 Some (env_environmentId (create_environment result))\<rparr>) no_guard) (\<lambda>active.
       case active of
         None \<Rightarrow> lost_start m session ctx
       | Some a \<Rightarrow>
           await (attempt (await (call_count StoreCountOccupying) (\<lambda>_. Return ()))
                    (\<lambda>_. Return ())) (\<lambda>_.
           Return \<lparr>start_session = a, start_lab = lab,
                    start_environment = create_environment result,
                    start_steps = create_steps result\<rparr>)))"

definition buildAdmitted ::
  "SessionManager \<Rightarrow> Lab \<Rightarrow> LabProviderId \<Rightarrow> LabSession \<Rightarrow> StartHooks \<Rightarrow> StartSessionResult prog" where
  "buildAdmitted m lab prov session hooks =
     (let ctx = contextFor_lab lab session in
      await (if has_onAdmitted hooks
             then attempt (call_unit (HookOnAdmitted session)) (\<lambda>_. Return ())
             else Return ()) (\<lambda>_.
      await (attempt (call_create (ProviderCreate prov ctx))
               (provision_threw m session ctx)) (\<lambda>result.
        if \<not> create_ok result then provision_failed m session ctx result
        else activate m lab session ctx result)))"

text \<open>
  The lower of the plan's limit and the deployment's. A limit that is not a whole
  number is ignored, as an absent one is.
\<close>

definition perOwnerLimit :: "SessionManager \<Rightarrow> int option \<Rightarrow> int option" where
  "perOwnerLimit m limit =
     (let deploymentLimit = maxActiveSessionsPerStudent (lifetimes m) in
      case limit of
        Some l \<Rightarrow> if 1 \<le> l then Some (min l (or_keep l deploymentLimit)) else deploymentLimit
      | None \<Rightarrow> deploymentLimit)"

definition candidate_session ::
  "SessionManager \<Rightarrow> Lab \<Rightarrow> LabProviderId \<Rightarrow> string option \<Rightarrow> int \<Rightarrow> string \<Rightarrow> string \<Rightarrow> string \<Rightarrow>
   LabSession" where
  "candidate_session m lab prov owner createdAtMs sid ns ref = \<lparr>sessionId = sid, labId = lab_id lab,
     provider = prov, sandboxKind = PROVIDER_SANDBOX_KIND prov, sandboxRef = ref, namespace = ns,
     serviceAccountName = policy_serviceAccountName m, status = CREATING, environmentId = [],
     createdAt = createdAtMs, lastActivityAt = createdAtMs, statusChangedAt = createdAtMs,
     expiresAt = createdAtMs + maxSessionSeconds (lifetimes m) * 1000, endedAt = None,
     statusReason = None, ownerUserId = (if owner = Some [] then None else owner), shellUid = None,
     idleTimeoutSeconds = cfg_idleTimeoutSeconds (lifetimes m),
     idleWarningSeconds = warningSeconds (lifetimes m)\<rparr>"

definition owner_refusal :: "nat \<Rightarrow> int option \<Rightarrow> exn" where
  "owner_refusal ownerOcc perOwner =
     (let limit = or_keep (int ownerOcc) perOwner in
      SessionError STUDENT_SESSION_LIMIT_REACHED
        (if limit = 1 then ''You already have a practice environment running.''
         else ''You already have '' @ show_nat ownerOcc @
              '' practice environments running, the most one student can hold at once.'')
        (Some (''End a lab you have finished before starting another. '' @
               ''Idle environments are also released automatically.''))
        (D_Student ownerOcc limit))"

definition capacity_refusal :: "SessionManager \<Rightarrow> nat \<Rightarrow> exn" where
  "capacity_refusal m occ =
     SessionError LAB_CAPACITY_REACHED
       (''All '' @ show_int (maxActiveSessions (lifetimes m)) @
        '' practice environments are currently in use.'')
       (Some (''Try again shortly '' @ [CHR 0xE2, CHR 0x80, CHR 0x94] @
         '' environments are released automatically when students finish or go idle.''))
       (D_Capacity occ (maxActiveSessions (lifetimes m)))"

definition sandbox_prefix :: "LabProviderId \<Rightarrow> string" where
  "sandbox_prefix prov = (if PROVIDER_SANDBOX_KIND prov = Container then CONTAINER_SANDBOX_PREFIX
                          else NAMESPACE_PREFIX)"

definition derive_ref :: "SessionManager \<Rightarrow> LabProviderId \<Rightarrow> string \<Rightarrow> string \<Rightarrow> ident_error + string" where
  "derive_ref m prov sid ns =
     (if sandbox_prefix prov = NAMESPACE_PREFIX then Inr ns
      else deriveSandboxRef (hmac m) sid (namespaceSecret m) (Some (sandbox_prefix prov)) None)"

fun insert_attempts ::
  "nat \<Rightarrow> SessionManager \<Rightarrow> Lab \<Rightarrow> LabProviderId \<Rightarrow> string option \<Rightarrow> int option \<Rightarrow> int \<Rightarrow>
   LabSession prog" where
  "insert_attempts 0 m lab prov owner perOwner createdAtMs =
     Throw (SessionError SESSION_PROVISION_FAILED
       ''Could not allocate a unique lab sandbox after 5 attempts.'' None No_Details)"
| "insert_attempts (Suc n) m lab prov owner perOwner createdAtMs =
     await (call_id RandomSessionId) (\<lambda>sid.
     await (of_result IdentRefused (deriveNamespace (hmac m) sid (namespaceSecret m) None None)) (\<lambda>ns.
     await (of_result IdentRefused (derive_ref m prov sid ns)) (\<lambda>ref.
     await (call_session (StoreFindBySandboxRef ref)) (\<lambda>taken.
       if taken \<noteq> None then insert_attempts n m lab prov owner perOwner createdAtMs
       else
         let candidate = candidate_session m lab prov owner createdAtMs sid ns ref in
         await (call_decision (StoreCreateWithinLimits candidate
                  \<lparr>maxOccupying = maxActiveSessions (lifetimes m), maxOccupyingPerOwner = perOwner\<rparr>))
           (\<lambda>decision.
           case decision of
             Admitted \<Rightarrow> Return candidate
           | Refused by occ ownerOcc \<Rightarrow>
               (case by of
                  By_Owner \<Rightarrow> Throw (owner_refusal ownerOcc perOwner)
                | By_Global \<Rightarrow> Throw (capacity_refusal m occ)))))))"

definition insertSession ::
  "SessionManager \<Rightarrow> Lab \<Rightarrow> LabProviderId \<Rightarrow> string option \<Rightarrow> int option \<Rightarrow> LabSession prog" where
  "insertSession m lab prov owner limit =
     await (call_time ClockNow) (\<lambda>createdAtMs.
       insert_attempts 5 m lab prov owner (perOwnerLimit m limit) createdAtMs)"

definition is_down :: "ProviderAvailability option \<Rightarrow> bool" where
  "is_down av = (case av of None \<Rightarrow> False | Some a \<Rightarrow> \<not> available a)"

definition resolve_refusal :: "Lab \<Rightarrow> exn \<Rightarrow> exn" where
  "resolve_refusal lab e = (case e of
       ProviderUnavailableError p r rem \<Rightarrow>
         SessionError PROVIDER_UNAVAILABLE (describeError e)
           (Some (or_keep ''This lab needs a sandbox backend that is not available on this deployment.'' rem))
           (D_Provider (lab_provider lab))
     | _ \<Rightarrow> e)"

definition down_refusal :: "Lab \<Rightarrow> ProviderAvailability option \<Rightarrow> exn" where
  "down_refusal lab av =
     SessionError PROVIDER_UNAVAILABLE
       (case Option.bind av studentReason of
          Some (c # cs) \<Rightarrow> ''This lab'' @ [CHR 0x27] @ ''s environment cannot be created right now: '' @
            (c # cs) @ ''.''
        | _ \<Rightarrow> ''This lab'' @ [CHR 0x27] @ ''s environment cannot be created right now.'')
       (Some ''Try again in a few minutes. If it keeps happening, tell your instructor.'')
       (D_Provider (lab_provider lab))"

definition start ::
  "SessionManager \<Rightarrow> string \<Rightarrow> string option \<Rightarrow> StartHooks \<Rightarrow> StartSessionResult prog" where
  "start m labid owner hooks =
     await (of_result LabRefused (registry_get (registry m) labid)) (\<lambda>lab.
     await (of_result (resolve_refusal lab)
              (resolve (providers m) (provider_name (lab_provider lab)))) (\<lambda>prov.
     await (call_probe (ProviderProbe (lab_provider lab))) (\<lambda>first.
     await (if is_down first
            then await (call_unit (ProviderInvalidate (lab_provider lab))) (\<lambda>_.
                   call_probe (ProviderProbe (lab_provider lab)))
            else Return first) (\<lambda>availability.
       if is_down availability then Throw (down_refusal lab availability)
       else
         await (call_bool ReadStopping) (\<lambda>stop.
         if stop then Throw (restarting Op_Start)
         else
           await (insertSession m lab prov owner (ownerSessionLimit hooks)) (\<lambda>session.
           await (call_unit (StartsInFlightSet (sessionId session) (statusChangedAt session))) (\<lambda>_.
             eventually (buildAdmitted m lab prov session hooks)
               (call_unit (StartsInFlightDelete (sessionId session))))))))))"

section \<open>Reset\<close>

definition resetConflict :: "string \<Rightarrow> exn prog" where
  "resetConflict sid =
     await (call_session (StoreGet sid)) (\<lambda>current.
       Return (case current of
           None \<Rightarrow> SessionError SESSION_NOT_FOUND
             ''That lab session does not exist, or it has already been cleaned up.''
             (Some ''Start the lab again to get a fresh environment.'') No_Details
         | Some c \<Rightarrow> SessionError SESSION_NOT_ACTIVE
             (if status c = ACTIVE then ''This lab session was changed by another request.''
              else ''This lab session is '' @ status_name (status c) @ ''.'')
             (Some (remediationFor (status c))) (D_Status (status c))))"

definition degrade ::
  "string \<Rightarrow> string \<Rightarrow> TransitionGuard \<Rightarrow> bool \<Rightarrow> LabSession option prog" where
  "degrade sid reason guard studentAction =
     (if studentAction
      then await (call_time ClockNow) (\<lambda>t.
             transition sid [RESETTING] DEGRADED
               ((with_reason reason)\<lparr>p_lastActivityAt := Some t\<rparr>) guard)
      else transition sid [RESETTING] DEGRADED (with_reason reason) guard)"

definition lost_reset :: "SessionManager \<Rightarrow> LabSession \<Rightarrow> LabSessionContext \<Rightarrow> 'a prog" where
  "lost_reset m session ctx =
     await (discardLostWork m session ctx) (\<lambda>_.
     await (resetConflict (sessionId session)) Throw)"

definition reset_threw ::
  "SessionManager \<Rightarrow> LabSession \<Rightarrow> LabSessionContext \<Rightarrow> TransitionGuard \<Rightarrow> exn \<Rightarrow> 'a prog" where
  "reset_threw m session ctx fence e =
     await (degrade (sessionId session) (''The last reset did not finish: '' @ describeError e) fence True)
       (\<lambda>degraded.
       case degraded of
         None \<Rightarrow> lost_reset m session ctx
       | Some d \<Rightarrow> Throw (SessionError SESSION_RESET_FAILED (describeError e)
                          (Some RESET_RETRY_REMEDIATION) (D_Status (status d))))"

definition reset_refused ::
  "SessionManager \<Rightarrow> LabSession \<Rightarrow> LabSessionContext \<Rightarrow> TransitionGuard \<Rightarrow> ResetResult \<Rightarrow>
   (LabSession \<times> ResetResult) prog" where
  "reset_refused m session ctx fence result =
     await (degrade (sessionId session) (''The last reset did not finish: '' @
              (case reset_error result of Some e \<Rightarrow> le_message e | None \<Rightarrow> ''reset failed'')) fence True)
       (\<lambda>degraded.
       case degraded of
         None \<Rightarrow> lost_reset m session ctx
       | Some d \<Rightarrow> Return (d, result))"

definition reset_done ::
  "SessionManager \<Rightarrow> LabSession \<Rightarrow> LabSessionContext \<Rightarrow> TransitionGuard \<Rightarrow> ResetResult \<Rightarrow>
   (LabSession \<times> ResetResult) prog" where
  "reset_done m session ctx fence result =
     await (call_time ClockNow) (\<lambda>t.
     await (transition (sessionId session) [RESETTING] ACTIVE (with_activity t) fence) (\<lambda>updated.
       case updated of
         None \<Rightarrow> lost_reset m session ctx
       | Some u \<Rightarrow>
           await (if sandboxKind session = Container \<and> has_terminal m \<and> has_reattach m
                  then attempt (call_unit (TerminalReattach (sessionId session))) (\<lambda>_. Return ())
                  else Return ()) (\<lambda>_.
           Return (u, result))))"

definition rebuild ::
  "SessionManager \<Rightarrow> LabSession \<Rightarrow> LabSessionContext \<Rightarrow> TransitionGuard \<Rightarrow>
   (LabSession \<times> ResetResult) prog" where
  "rebuild m session ctx fence =
     await (attempt
              (await (of_result id (providerFor m session)) (\<lambda>p. call_reset (ProviderReset p ctx)))
              (reset_threw m session ctx fence))
       (\<lambda>result.
       if \<not> reset_ok result then reset_refused m session ctx fence result
       else reset_done m session ctx fence result)"

definition reset :: "SessionManager \<Rightarrow> string \<Rightarrow> (LabSession \<times> ResetResult) prog" where
  "reset m sid =
     await (require (UString sid)) (\<lambda>session.
       if status session \<notin> set RESETTABLE_STATUSES then Throw (notActive (status session))
       else
         await (call_bool ReadStopping) (\<lambda>stop.
         if stop then Throw (restarting Op_Reset)
         else
           await (of_result id (contextFor m session)) (\<lambda>ctx.
           await (call_time ClockNow) (\<lambda>t.
           await (transition sid RESETTABLE_STATUSES RESETTING (with_activity t) no_guard) (\<lambda>claimed.
             case claimed of
               None \<Rightarrow> await (resetConflict sid) Throw
             | Some c \<Rightarrow>
                 await (call_unit (ResetsInFlightSet sid (statusChangedAt c))) (\<lambda>_.
                   eventually (rebuild m session ctx (fence_on (statusChangedAt c)))
                     (call_unit (ResetsInFlightDelete sid))))))))"

definition recoverInterruptedReset :: "LabSession \<Rightarrow> LabSession option prog" where
  "recoverInterruptedReset observed =
     (if status observed \<noteq> RESETTING then Return None
      else degrade (sessionId observed) ''The last reset was interrupted before it finished.''
             (fence_on (statusChangedAt observed)) False)"

definition markSandboxStopped :: "LabSession \<Rightarrow> LabSession option prog" where
  "markSandboxStopped observed =
     (if status observed \<noteq> ACTIVE then Return None
      else transition (sessionId observed) [ACTIVE] DEGRADED
             (with_reason (''The lab environment stopped running, '' @
                ''for example because the server restarted.''))
             (fence_on (statusChangedAt observed)))"

section \<open>Shutdown\<close>

definition interrupt_start :: "string \<times> int \<Rightarrow> nat \<Rightarrow> nat prog" where
  "interrupt_start = (\<lambda>(sid, stamp) n.
     attempt
       (await (transition sid [CREATING] EXPIRING (with_reason ABANDONED_START_REASON) (fence_on stamp))
          (\<lambda>claimed. Return (if claimed = None then n else n + 1)))
       (\<lambda>_. Return n))"

definition interrupt_reset :: "string \<times> int \<Rightarrow> nat \<Rightarrow> nat prog" where
  "interrupt_reset = (\<lambda>(sid, stamp) n.
     attempt
       (await (degrade sid ''The last reset was interrupted by a platform restart.'' (fence_on stamp) True)
          (\<lambda>degraded. Return (if degraded = None then n else n + 1)))
       (\<lambda>_. Return n))"

text \<open>
  The hand-overs of \<open>interruptInFlight\<close> run under one \<open>Promise.all\<close>; each is one
  fenced write and none reads what another wrote, so here they run in turn. The
  system model also lets each run on its own.
\<close>

definition interruptInFlight :: "(nat \<times> nat) prog" where
  "interruptInFlight =
     await (call_unit SetStopping) (\<lambda>_.
     await (call_entries StartsInFlightEntries) (\<lambda>starting.
     await (call_entries ResetsInFlightEntries) (\<lambda>resetting.
     await (for_each starting interrupt_start 0) (\<lambda>s.
     await (for_each resetting interrupt_reset 0) (\<lambda>r.
       Return (s, r))))))"

section \<open>Credentials\<close>

definition getTerminalContext :: "SessionManager \<Rightarrow> string \<Rightarrow> TerminalContext prog" where
  "getTerminalContext m sid =
     await (requireActive m (UString sid)) (\<lambda>(session, lab).
     await (attempt
              (await (of_result id (providerFor m session)) (\<lambda>p.
                 call_terminal (ProviderTerminalContext p (contextFor_lab lab session))))
              (\<lambda>e. Throw (SessionError CREDENTIALS_UNAVAILABLE (describeError e) None No_Details)))
       (\<lambda>context.
       case context of
         T_Container r u w x \<Rightarrow> Return context
       | _ \<Rightarrow>
           if \<not> isValidShellUid (shellUid session)
           then Throw (SessionError CREDENTIALS_UNAVAILABLE
                  (''session '' @ sessionId session @
                   '' has no valid shell uid; refusing to open a shell it would share'') None No_Details)
           else Return (case context of
                T_Kubernetes k n a x _ \<Rightarrow> T_Kubernetes k n a x (shellUid session)
              | T_DockerDaemon h s x _ \<Rightarrow> T_DockerDaemon h s x (shellUid session)
              | other \<Rightarrow> other)))"

definition issueCredentials :: "SessionManager \<Rightarrow> string \<Rightarrow> (string \<times> string \<times> string \<times> int) prog" where
  "issueCredentials m sid =
     await (getTerminalContext m sid) (\<lambda>context.
       case context of
         T_Kubernetes k n a x _ \<Rightarrow> Return (k, n, a, x)
       | _ \<Rightarrow> Throw (SessionError CREDENTIALS_UNAVAILABLE
                (''This session'' @ [CHR 0x27] @ ''s sandbox is not a Kubernetes namespace, '' @
                 ''so it has no kubeconfig.'') None No_Details))"

end
