(* ===== verification/Session_Reaper.thy ===== *)
theory Session_Reaper
  imports Session_Manager
begin

text \<open>
  Automatic cleanup: \<open>session/reaper.ts\<close>. One sweep walks the sessions of the store
  (finishing abandoned Ends, tearing down expired, idle and abandoned sessions,
  degrading dead resets), then the sandboxes the providers report that no running
  session shields, then the ACTIVE sessions whose container has stopped, and last
  drops finished records past their retention. The interval timer, the log lines and
  the metrics hooks are not modelled.
\<close>

section \<open>Configuration and result\<close>

datatype SweepReason = Sw_Expired | Sw_Idle | Sw_Abandoned | Sw_Orphaned

record SessionReaper =
  sessions :: SessionManager
  reaper_providers :: "LabProviderId list"
  orphanGraceMs :: int
  resetRecoveryGraceMs :: int
  abandonedEndGraceMs :: int
  abandonedStartGraceMs :: int
  lostSandboxGraceMs :: int
  retentionMs :: int

record ReaperOptions =
  o_providers :: "LabProviderId list option"
  o_orphanGraceMs :: "int option"
  o_resetRecoveryGraceMs :: "int option"
  o_abandonedEndGraceMs :: "int option"
  o_abandonedStartGraceMs :: "int option"
  o_lostSandboxGraceMs :: "int option"
  o_retentionMs :: "int option"

definition new_reaper :: "SessionManager \<Rightarrow> ReaperOptions \<Rightarrow> SessionReaper" where
  "new_reaper m opts = \<lparr>sessions = m,
     reaper_providers = or_keep (all_providers (providers m)) (o_providers opts),
     orphanGraceMs = or_keep 60000 (o_orphanGraceMs opts),
     resetRecoveryGraceMs = max 1 (or_keep 600000 (o_resetRecoveryGraceMs opts)),
     abandonedEndGraceMs = or_keep 300000 (o_abandonedEndGraceMs opts),
     abandonedStartGraceMs = or_keep 600000 (o_abandonedStartGraceMs opts),
     lostSandboxGraceMs = or_keep 120000 (o_lostSandboxGraceMs opts),
     retentionMs = or_keep 900000 (o_retentionMs opts)\<rparr>"

record SweepResult =
  removed :: "string list"
  reasons :: "(string \<times> SweepReason) list"
  pending :: "string list"
  errors :: "string list"
  retained :: nat
  recovered :: "string list"
  forgotten :: "string list"

definition empty_sweep :: SweepResult where
  "empty_sweep = \<lparr>removed = [], reasons = [], pending = [], errors = [], retained = 0,
     recovered = [], forgotten = []\<rparr>"

definition push_error :: "string \<Rightarrow> SweepResult \<Rightarrow> SweepResult" where
  "push_error msg result = result\<lparr>errors := errors result @ [msg]\<rparr>"

definition push_removed :: "string \<Rightarrow> SweepReason \<Rightarrow> SweepResult \<Rightarrow> SweepResult" where
  "push_removed ref reason result = result\<lparr>removed := removed result @ [ref],
     reasons := AList.update ref reason (reasons result)\<rparr>"

definition push_pending :: "string \<Rightarrow> SweepResult \<Rightarrow> SweepResult" where
  "push_pending ref result = result\<lparr>pending := pending result @ [ref]\<rparr>"

definition push_retained :: "SweepResult \<Rightarrow> SweepResult" where
  "push_retained result = result\<lparr>retained := retained result + 1\<rparr>"

definition push_recovered :: "string \<Rightarrow> SweepResult \<Rightarrow> SweepResult" where
  "push_recovered sid result = result\<lparr>recovered := recovered result @ [sid]\<rparr>"

section \<open>Sessions the store knows about\<close>

definition finish ::
  "LabSession \<Rightarrow> SweepReason \<Rightarrow> TeardownResult prog \<Rightarrow> SweepResult \<Rightarrow> SweepResult prog" where
  "finish session reason teardown_prog result =
     (let ref = sandboxRef session in
      attempt
        (await teardown_prog (\<lambda>outcome.
           let st = status (td_session outcome); destroy = td_destroy outcome in
           if \<not> namespaceGone destroy \<and> \<not> isTerminalStatus st \<and> st \<noteq> EXPIRING \<and> st \<noteq> ENDING
           then Return (push_retained result)
           else if namespaceGone destroy then Return (push_removed ref reason result)
           else Return (case destroy_error destroy of
                  Some e \<Rightarrow> push_error (ref @ '': '' @ le_message e) (push_pending ref result)
                | None \<Rightarrow> push_pending ref result)))
        (\<lambda>e. Return (push_error (ref @ '': '' @ describeError e) result)))"

text \<open>What a sweep decides for one session it read, from the session and the time alone.\<close>

datatype sweep_action =
    Skip
  | Leave_Pending
  | Resume_End
  | Expire_Session SweepReason string TransitionGuard
  | Recover_Reset
  | Retain

definition idle_detail :: "LabSession \<Rightarrow> string" where
  "idle_detail session = ''idle for more than '' @ show_int (idleTimeoutSeconds session) @ ''s''"

definition sweep_decision :: "SessionReaper \<Rightarrow> int \<Rightarrow> LabSession \<Rightarrow> sweep_action" where
  "sweep_decision r now session =
     (let expired = isExpired session now; idle = isIdle session now;
          inStatusMs = now - statusChangedAt session in
      if isTerminalStatus (status session) then Skip
      else if status session = ENDING
      then (if inStatusMs < abandonedEndGraceMs r then Leave_Pending else Resume_End)
      else if status session = CREATING \<and> \<not> expired \<and> \<not> idle \<and> abandonedStartGraceMs r \<le> inStatusMs
      then Expire_Session Sw_Abandoned ABANDONED_START_REASON (fence_on (statusChangedAt session))
      else if status session = RESETTING \<and> \<not> expired \<and> \<not> idle \<and> resetRecoveryGraceMs r \<le> inStatusMs
      then Recover_Reset
      else
        let inFlight = (status session = EXPIRING) in
        if \<not> inFlight \<and> \<not> expired \<and> \<not> idle then Retain
        else
          let abandonedStart = (inFlight \<and> statusReason session = Some ABANDONED_START_REASON);
              reason = (if abandonedStart then Sw_Abandoned else if expired then Sw_Expired else Sw_Idle);
              detail = (if inFlight
                        then or_keep ''resuming an interrupted teardown'' (statusReason session)
                        else if expired then ''absolute session lifetime reached''
                        else idle_detail session);
              fence = (if \<not> inFlight \<and> \<not> expired
                       then no_guard\<lparr>g_lastActivityAt := Some (lastActivityAt session)\<rparr>
                       else no_guard)
          in Expire_Session reason detail fence)"

definition sweep_session ::
  "SessionReaper \<Rightarrow> int \<Rightarrow> LabSession \<Rightarrow> SweepResult \<Rightarrow> SweepResult prog" where
  "sweep_session r now session result = (case sweep_decision r now session of
       Skip \<Rightarrow> Return result
     | Leave_Pending \<Rightarrow> Return (push_pending (sandboxRef session) result)
     | Resume_End \<Rightarrow>
         finish session Sw_Abandoned (resumeAbandonedEnd (sessions r) (sessionId session)) result
     | Expire_Session reason detail fence \<Rightarrow>
         finish session reason (expire (sessions r) (sessionId session) detail fence) result
     | Recover_Reset \<Rightarrow>
         attempt
           (await (recoverInterruptedReset session) (\<lambda>rec.
              Return (if rec = None then push_retained result
                      else push_recovered (sessionId session) result)))
           (\<lambda>e. Return (push_error (sandboxRef session @ '': '' @ describeError e) result))
     | Retain \<Rightarrow> Return (push_retained result))"

definition sweepSessions :: "SessionReaper \<Rightarrow> SweepResult \<Rightarrow> SweepResult prog" where
  "sweepSessions r result =
     await (call_time ClockNow) (\<lambda>now.
     await (attempt (await list_sessions (\<lambda>ss. Return (Inr ss))) (\<lambda>e. Return (Inl e))) (\<lambda>listed.
       case listed of
         Inl e \<Rightarrow> Return (push_error (''listing sessions: '' @ describeError e) result)
       | Inr ss \<Rightarrow> for_each ss (sweep_session r now) result))"

section \<open>Sandboxes no running session shields\<close>

definition live_refs :: "LabSession list \<Rightarrow> string list" where
  "live_refs ss = concat (map (\<lambda>s. [sandboxRef s, namespace s])
     (filter (\<lambda>s. \<not> isTerminalStatus (status s)) ss))"

text \<open>A later row with the same handle replaces the earlier one in the map.\<close>

definition finished_by_ref :: "LabSession list \<Rightarrow> (string \<times> LabSession) list" where
  "finished_by_ref ss =
     fold (\<lambda>s m. if isTerminalStatus (status s) then AList.update (sandboxRef s) s m else m) ss []"

definition recordOrphanOutcome ::
  "ManagedSandbox \<Rightarrow> DestroyResult \<Rightarrow> SweepResult \<Rightarrow> SweepResult" where
  "recordOrphanOutcome sandbox outcome result =
     (if namespaceGone outcome then push_removed (ms_sandboxRef sandbox) Sw_Orphaned result
      else if destroy_ok outcome then push_pending (ms_sandboxRef sandbox) result
      else push_error (ms_sandboxRef sandbox @ '': '' @
             (case destroy_error outcome of Some e \<Rightarrow> le_message e | None \<Rightarrow> ''unknown error'')) result)"

datatype orphan_action = Not_Orphan | Reclaim string | No_Expiry | In_Grace | Destroy

definition orphan_decision ::
  "SessionReaper \<Rightarrow> int \<Rightarrow> LabSession list \<Rightarrow> ManagedSandbox \<Rightarrow> orphan_action" where
  "orphan_decision r now ss sandbox =
     (if ms_sandboxRef sandbox \<in> set (live_refs ss) then Not_Orphan
      else if ms_phase sandbox = ''Terminating'' \<or> ms_phase sandbox = ''removing'' then Not_Orphan
      else (case map_of (finished_by_ref ss) (ms_sandboxRef sandbox) of
              Some owner \<Rightarrow> Reclaim (sessionId owner)
            | None \<Rightarrow>
                if ms_expiresAtMs sandbox = 0 then No_Expiry
                else if now < ms_expiresAtMs sandbox + orphanGraceMs r then In_Grace
                else Destroy))"

definition sweep_sandbox ::
  "SessionReaper \<Rightarrow> int \<Rightarrow> LabSession list \<Rightarrow> LabProviderId \<Rightarrow> ManagedSandbox \<Rightarrow> SweepResult \<Rightarrow>
   SweepResult prog" where
  "sweep_sandbox r now ss p sandbox result = (case orphan_decision r now ss sandbox of
       Reclaim sid \<Rightarrow>
         await (reclaimFinishedSandbox (sessions r) sid) (\<lambda>outcome.
           Return (recordOrphanOutcome sandbox outcome result))
     | Destroy \<Rightarrow>
         await (call_destroy (ProviderDestroySandbox p (ms_sandboxRef sandbox))) (\<lambda>outcome.
           Return (recordOrphanOutcome sandbox outcome result))
     | _ \<Rightarrow> Return result)"

text \<open>
  The phase map is keyed by the template \<open>provider.id/sandboxRef\<close>, here by the pair;
  no provider id contains a slash.
\<close>

type_synonym phase_map = "((LabProviderId \<times> string) \<times> string) list"

definition record_phases :: "LabProviderId \<Rightarrow> ManagedSandbox list \<Rightarrow> phase_map \<Rightarrow> phase_map" where
  "record_phases p managed phases =
     fold (\<lambda>sb m. AList.update (p, ms_sandboxRef sb) (ms_phase sb) m) managed phases"

definition sweep_provider ::
  "SessionReaper \<Rightarrow> int \<Rightarrow> LabSession list \<Rightarrow> LabProviderId \<Rightarrow> SweepResult \<times> phase_map \<Rightarrow>
   (SweepResult \<times> phase_map) prog" where
  "sweep_provider r now ss p = (\<lambda>(result, phases).
     await (attempt (await (call_managed (ProviderListManaged p)) (\<lambda>ms. Return (Inr ms)))
              (\<lambda>e. Return (Inl e))) (\<lambda>listed.
       case listed of
         Inl e \<Rightarrow> Return (push_error (''listing '' @ provider_name p @ '' sandboxes: '' @ describeError e)
                           result, phases)
       | Inr managed \<Rightarrow>
           await (for_each managed (sweep_sandbox r now ss p) result) (\<lambda>result'.
           Return (result', record_phases p managed phases))))"

section \<open>Containers that stopped\<close>

definition container_stopped :: "SessionReaper \<Rightarrow> int \<Rightarrow> phase_map \<Rightarrow> LabSession \<Rightarrow> bool" where
  "container_stopped r now phases session \<longleftrightarrow>
     status session = ACTIVE \<and> sandboxKind session = Container \<and>
     map_of phases (provider session, sandboxRef session) \<in> {Some ''exited'', Some ''dead''} \<and>
     \<not> now - statusChangedAt session < lostSandboxGraceMs r"

definition reconcile_session ::
  "SessionReaper \<Rightarrow> int \<Rightarrow> phase_map \<Rightarrow> string list \<Rightarrow> LabSession \<Rightarrow> SweepResult \<times> string list \<Rightarrow>
   (SweepResult \<times> string list) prog" where
  "reconcile_session r now phases lost session = (\<lambda>(result, seen).
     if \<not> container_stopped r now phases session then Return (result, seen)
     else
       let seen' = seen @ [sessionId session] in
       if sessionId session \<notin> set lost then Return (result, seen')
       else
         await (attempt
                  (await (markSandboxStopped session) (\<lambda>degraded.
                     Return (if degraded = None then result
                             else push_recovered (sessionId session) result)))
                  (\<lambda>e. Return (push_error (sandboxRef session @ '': '' @ describeError e) result)))
           (\<lambda>result'. Return (result', seen')))"

definition reconcileStoppedSandboxes ::
  "SessionReaper \<Rightarrow> SweepResult \<Rightarrow> LabSession list \<Rightarrow> phase_map \<Rightarrow> int \<Rightarrow> SweepResult prog" where
  "reconcileStoppedSandboxes r result ss phases now =
     await (call_ids ReadLostLastSweep) (\<lambda>lost.
     await (for_each ss (reconcile_session r now phases lost) (result, [])) (\<lambda>(result', seen).
     await (call_unit (WriteLostLastSweep seen)) (\<lambda>_. Return result')))"

definition sweepOrphans :: "SessionReaper \<Rightarrow> SweepResult \<Rightarrow> SweepResult prog" where
  "sweepOrphans r result =
     await (call_time ClockNow) (\<lambda>now.
     await (attempt (await list_sessions (\<lambda>ss. Return (Inr ss))) (\<lambda>e. Return (Inl e))) (\<lambda>listed.
       case listed of
         Inl e \<Rightarrow> Return (push_error (''listing sessions: '' @ describeError e) result)
       | Inr ss \<Rightarrow>
           await (for_each (reaper_providers r) (sweep_provider r now ss) (result, [])) (\<lambda>(result', phases).
             reconcileStoppedSandboxes r result' ss phases now)))"

section \<open>Finished records\<close>

definition past_retention :: "SessionReaper \<Rightarrow> int \<Rightarrow> LabSession \<Rightarrow> bool" where
  "past_retention r now session \<longleftrightarrow>
     isTerminalStatus (status session) \<and>
     (let ended = or_keep 0 (endedAt session) in
      \<not> (ended = 0 \<or> now - ended < retentionMs r))"

definition retain_or_forget ::
  "SessionReaper \<Rightarrow> int \<Rightarrow> LabSession \<Rightarrow> SweepResult \<Rightarrow> SweepResult prog" where
  "retain_or_forget r now session result =
     (if \<not> past_retention r now session then Return result
      else await (forget (sessionId session)) (\<lambda>_.
             Return (result\<lparr>forgotten := forgotten result @ [sessionId session]\<rparr>)))"

definition sweepRetention :: "SessionReaper \<Rightarrow> SweepResult \<Rightarrow> SweepResult prog" where
  "sweepRetention r result =
     (if retentionMs r \<le> 0 then Return result
      else
        await (call_time ClockNow) (\<lambda>now.
        await list_sessions (\<lambda>ss.
          for_each ss (retain_or_forget r now) result)))"

section \<open>One pass\<close>

definition sweep :: "SessionReaper \<Rightarrow> SweepResult prog" where
  "sweep r =
     await (call_bool ReadSweeping) (\<lambda>busy.
     if busy then Return empty_sweep
     else
       await (call_unit (WriteSweeping True)) (\<lambda>_.
       eventually
         (await (sweepSessions r empty_sweep) (\<lambda>result1.
          await (sweepOrphans r result1) (\<lambda>result2.
            sweepRetention r result2)))
         (call_unit (WriteSweeping False))))"

text \<open>The bounded line a sweep logs about its problems.\<close>

definition PROBLEMS_LOGGED :: nat where "PROBLEMS_LOGGED = 5"
definition PROBLEM_CHARS :: nat where "PROBLEM_CHARS = 300"

definition ellipsis :: string where "ellipsis = [CHR 0xE2, CHR 0x80, CHR 0xA6]"

definition summarizeProblems :: "string list \<Rightarrow> string" where
  "summarizeProblems errs =
     (let named = map (\<lambda>e. if PROBLEM_CHARS < length e then take PROBLEM_CHARS e @ ellipsis else e)
                    (take PROBLEMS_LOGGED errs);
          more = (if PROBLEMS_LOGGED < length errs
                  then '' (+'' @ show_nat (length errs - PROBLEMS_LOGGED) @ '' more)'' else [])
      in ''sweep could not finish '' @ show_nat (length errs) @ '' item(s): '' @
         join_with ''; '' named @ more)"

end
