(* ===== verification/Session_Protocol.thy ===== *)
theory Session_Protocol
  imports Program_Logic Session_Reaper
begin

text \<open>
  The protocol every request of the manager and the reaper follows, whatever runs
  beside it. \<open>call_ok\<close> says what a request must have done or seen, in its own
  history, before it may write a status, admit a session, delete a record, destroy
  or rebuild a sandbox, or announce that a session closed. The theorems here prove,
  with the program logic, that every method obeys it on every branch; the theory of
  the system turns that into invariants of all interleavings.
\<close>

section \<open>The lifecycle\<close>

fun lifecycle_edge :: "session_status \<Rightarrow> session_status \<Rightarrow> bool" where
  "lifecycle_edge CREATING to = (to \<in> {ACTIVE, FAILED, ENDING, EXPIRING})"
| "lifecycle_edge ACTIVE to = (to \<in> {RESETTING, DEGRADED, ENDING, EXPIRING})"
| "lifecycle_edge RESETTING to = (to \<in> {ACTIVE, DEGRADED, ENDING, EXPIRING})"
| "lifecycle_edge DEGRADED to = (to \<in> {RESETTING, ENDING, EXPIRING})"
| "lifecycle_edge ENDING to = (to \<in> {ENDING, ENDED})"
| "lifecycle_edge EXPIRING to = (to \<in> {EXPIRING, EXPIRED})"
| "lifecycle_edge _ to = False"

lemma lifecycle_edge_terminal: "lifecycle_edge x y \<Longrightarrow> \<not> isTerminalStatus x"
  by (cases x) (simp_all add: session_simps)

lemma lifecycle_edge_teardown: "lifecycle_edge x y \<Longrightarrow> isTeardownOwned x \<Longrightarrow> isTeardownOwned y"
  by (cases x) (auto simp: session_simps)

section \<open>What a call needs\<close>

definition patch_ok :: "session_status \<Rightarrow> LabSessionPatch \<Rightarrow> bool" where
  "patch_ok to patch \<longleftrightarrow>
     p_labId patch = None \<and> p_createdAt patch = None \<and> p_expiresAt patch = None \<and>
     p_idleTimeoutSeconds patch = None \<and> p_idleWarningSeconds patch = None \<and>
     p_serviceAccountName patch = None \<and>
     (isTerminalStatus to \<longleftrightarrow> p_endedAt patch \<noteq> None)"

text \<open>
  Evidence for a target status: ACTIVE needs a provider that reported the sandbox
  built or rebuilt, ENDED and EXPIRED one that reported it verifiably gone.
\<close>

definition built :: "history \<Rightarrow> string \<Rightarrow> bool" where
  "built h sid \<longleftrightarrow>
     (\<exists>p ctx res. (ProviderCreate p ctx, R_Create res) \<in> set h \<and> create_ok res \<and>
        ctx_sessionId (fst ctx) = sid) \<or>
     (\<exists>p ctx res. (ProviderReset p ctx, R_Reset res) \<in> set h \<and> reset_ok res \<and>
        ctx_sessionId (fst ctx) = sid)"

definition gone :: "history \<Rightarrow> string \<Rightarrow> bool" where
  "gone h sid \<longleftrightarrow>
     (\<exists>p ctx res. (ProviderDestroy p ctx, R_Destroy res) \<in> set h \<and> destroy_ok res \<and>
        namespaceGone res \<and> ctx_sessionId ctx = sid)"

definition evidence :: "history \<Rightarrow> string \<Rightarrow> session_status \<Rightarrow> bool" where
  "evidence h sid to \<longleftrightarrow>
     (to = ACTIVE \<longrightarrow> built h sid) \<and> (to = ENDED \<or> to = EXPIRED \<longrightarrow> gone h sid)"

text \<open>
  A session's sandbox may be destroyed by a request that has claimed the session for
  teardown, has seen it owned by a teardown (or gone, having known it), or whose own
  build of it failed.
\<close>

definition holds_start :: "history \<Rightarrow> string \<Rightarrow> bool" where
  "holds_start h sid \<longleftrightarrow>
     (\<exists>s limits. (StoreCreateWithinLimits s limits, R_Decision Admitted) \<in> set h \<and> sessionId s = sid)"

definition known :: "history \<Rightarrow> string \<Rightarrow> bool" where
  "known h sid \<longleftrightarrow> holds_start h sid \<or> (\<exists>row. (StoreGet sid, R_Session (Some row)) \<in> set h)"

definition seen_torn :: "history \<Rightarrow> string \<Rightarrow> bool" where
  "seen_torn h sid \<longleftrightarrow>
     (\<exists>from to patch guard row. (StoreTransition sid from to patch guard, R_Session (Some row)) \<in> set h \<and>
        (to = ENDING \<or> to = EXPIRING)) \<or>
     (\<exists>row. (StoreGet sid, R_Session (Some row)) \<in> set h \<and> isTeardownOwned (status row)) \<or>
     (\<exists>h1 h2. h = h1 @ (StoreGet sid, R_Session None) # h2 \<and> known h1 sid)"

definition failed_build :: "history \<Rightarrow> string \<Rightarrow> bool" where
  "failed_build h sid \<longleftrightarrow>
     (\<exists>p ctx r. (ProviderCreate p ctx, r) \<in> set h \<and> ctx_sessionId (fst ctx) = sid \<and>
        (\<forall>res. r = R_Create res \<longrightarrow> \<not> create_ok res))"

definition may_destroy :: "history \<Rightarrow> string \<Rightarrow> bool" where
  "may_destroy h sid \<longleftrightarrow> seen_torn h sid \<or> failed_build h sid"

definition holds_reset :: "history \<Rightarrow> string \<Rightarrow> bool" where
  "holds_reset h sid \<longleftrightarrow>
     (\<exists>from patch guard row.
        (StoreTransition sid from RESETTING patch guard, R_Session (Some row)) \<in> set h)"

definition limits_ok :: "SessionManager \<Rightarrow> CapacityLimits \<Rightarrow> bool" where
  "limits_ok m limits \<longleftrightarrow>
     maxOccupying limits = maxActiveSessions (lifetimes m) \<and>
     (\<forall>d. maxActiveSessionsPerStudent (lifetimes m) = Some d \<longrightarrow>
        (\<exists>k. maxOccupyingPerOwner limits = Some k \<and> k \<le> d))"

text \<open>
  An admission: the id was drawn and its sandbox handle found free by the two calls
  just before, and the row is what the configuration prescribes for that id.
\<close>

definition candidate_ok :: "SessionManager \<Rightarrow> history \<Rightarrow> LabSession \<Rightarrow> bool" where
  "candidate_ok m h s \<longleftrightarrow>
     (\<exists>h0. h = h0 @ [(RandomSessionId, R_Id (sessionId s)),
                     (StoreFindBySandboxRef (sandboxRef s), R_Session None)]) \<and>
     deriveNamespace (hmac m) (sessionId s) (namespaceSecret m) None None = Inr (namespace s) \<and>
     derive_ref m (provider s) (sessionId s) (namespace s) = Inr (sandboxRef s) \<and>
     sandboxKind s = PROVIDER_SANDBOX_KIND (provider s) \<and>
     status s = CREATING \<and> wf_new s \<and> endedAt s = None \<and>
     lastActivityAt s = createdAt s \<and> statusChangedAt s = createdAt s \<and>
     expiresAt s = createdAt s + maxSessionSeconds (lifetimes m) * 1000"

text \<open>The announcement of a closing: the write that recorded it was the call just before.\<close>

definition announces :: "history \<Rightarrow> SessionClosedEvent \<Rightarrow> bool" where
  "announces h ev \<longleftrightarrow>
     (\<exists>h0 from patch guard row.
        h = h0 @ [(StoreTransition (ev_sessionId ev) from (ev_status ev) patch guard, R_Session (Some row))] \<and>
        (ev_status ev = ENDED \<or> ev_status ev = EXPIRED) \<and>
        ev_labId ev = labId row \<and> ev_provider ev = provider row \<and>
        p_statusReason patch = Some (ev_reason ev))"

definition saw_finished :: "history \<Rightarrow> string \<Rightarrow> bool" where
  "saw_finished h sid \<longleftrightarrow>
     (\<exists>ss s. (StoreList, R_Sessions ss) \<in> set h \<and> s \<in> set ss \<and> sessionId s = sid \<and>
        isTerminalStatus (status s))"

definition saw_unshielded :: "history \<Rightarrow> string \<Rightarrow> bool" where
  "saw_unshielded h ref \<longleftrightarrow> (\<exists>ss. (StoreList, R_Sessions ss) \<in> set h \<and>
     (\<forall>s \<in> set ss. sandboxRef s \<noteq> ref \<and> (\<not> isTerminalStatus (status s) \<longrightarrow> namespace s \<noteq> ref)))"

definition transition_ok ::
  "history \<Rightarrow> string \<Rightarrow> session_status list \<Rightarrow> session_status \<Rightarrow> LabSessionPatch \<Rightarrow> bool" where
  "transition_ok h sid from to patch \<longleftrightarrow>
     (\<forall>x \<in> set from. lifecycle_edge x to) \<and> patch_ok to patch \<and> evidence h sid to"

definition call_ok :: "SessionManager \<Rightarrow> history \<Rightarrow> call \<Rightarrow> bool" where
  "call_ok m h c = (case c of
       StoreTransition sid from to patch guard \<Rightarrow>
         transition_ok h sid from to patch \<and> p_statusChangedAt patch \<noteq> None
     | StoreCreateWithinLimits s limits \<Rightarrow> limits_ok m limits \<and> candidate_ok m h s
     | StoreDelete sid \<Rightarrow> saw_finished h sid
     | ProviderCreate p ctx \<Rightarrow> holds_start h (ctx_sessionId (fst ctx))
     | ProviderReset p ctx \<Rightarrow> holds_reset h (ctx_sessionId (fst ctx))
     | ProviderDestroy p ctx \<Rightarrow> may_destroy h (ctx_sessionId ctx)
     | ProviderDestroySandbox p ref \<Rightarrow> saw_unshielded h ref
     | NotifyClosed ev \<Rightarrow> announces h ev
     | _ \<Rightarrow> True)"

text \<open>What a request may rely on of the answers: a row is the row of the id that was asked for.\<close>

definition answer_ok :: "call \<Rightarrow> resp \<Rightarrow> bool" where
  "answer_ok c r = (case r of
       R_Session (Some row) \<Rightarrow>
         (case c of
            StoreGet sid \<Rightarrow> sessionId row = sid
          | StoreTransition sid from to patch guard \<Rightarrow> sessionId row = sid \<and> status row = to
          | StoreTouchActivity sid at \<Rightarrow> sessionId row = sid
          | _ \<Rightarrow> True)
     | _ \<Rightarrow> True)"

lemma history_mono:
  "built h sid \<Longrightarrow> built (h @ t) sid"
  "gone h sid \<Longrightarrow> gone (h @ t) sid"
  "may_destroy h sid \<Longrightarrow> may_destroy (h @ t) sid"
  "holds_reset h sid \<Longrightarrow> holds_reset (h @ t) sid"
  "holds_start h sid \<Longrightarrow> holds_start (h @ t) sid"
  "evidence h sid to \<Longrightarrow> evidence (h @ t) sid to"
  "transition_ok h sid from to patch \<Longrightarrow> transition_ok (h @ t) sid from to patch"
  "saw_finished h sid \<Longrightarrow> saw_finished (h @ t) sid"
  "saw_unshielded h ref \<Longrightarrow> saw_unshielded (h @ t) ref"
  "known h sid \<Longrightarrow> known (h @ t) sid"
proof -
  show built: "built h sid \<Longrightarrow> built (h @ t) sid" for h t sid
    unfolding built_def set_append by blast
  show gone: "gone h sid \<Longrightarrow> gone (h @ t) sid" for h t sid
    unfolding gone_def set_append by blast
  show known: "known h sid \<Longrightarrow> known (h @ t) sid" for h t
    unfolding known_def holds_start_def set_append by blast
  show "may_destroy h sid \<Longrightarrow> may_destroy (h @ t) sid"
    unfolding may_destroy_def seen_torn_def failed_build_def set_append
    by (metis Un_iff append.assoc append_Cons)
  show "holds_reset h sid \<Longrightarrow> holds_reset (h @ t) sid"
    unfolding holds_reset_def set_append by blast
  show "holds_start h sid \<Longrightarrow> holds_start (h @ t) sid"
    unfolding holds_start_def set_append by blast
  show ev: "evidence h sid to \<Longrightarrow> evidence (h @ t) sid to" for h t
    unfolding evidence_def using built gone by blast
  show "transition_ok h sid from to patch \<Longrightarrow> transition_ok (h @ t) sid from to patch"
    unfolding transition_ok_def using ev by blast
  show "saw_finished h sid \<Longrightarrow> saw_finished (h @ t) sid"
    unfolding saw_finished_def set_append by blast
  show "saw_unshielded h ref \<Longrightarrow> saw_unshielded (h @ t) ref"
    unfolding saw_unshielded_def set_append by blast
qed

text \<open>How a history gives evidence.\<close>

lemma built_create:
  "(ProviderCreate p ctx, R_Create res) \<in> set h \<Longrightarrow> create_ok res \<Longrightarrow>
   ctx_sessionId (fst ctx) = sid \<Longrightarrow> built h sid"
  unfolding built_def by blast

lemma built_reset:
  "(ProviderReset p ctx, R_Reset res) \<in> set h \<Longrightarrow> reset_ok res \<Longrightarrow>
   ctx_sessionId (fst ctx) = sid \<Longrightarrow> built h sid"
  unfolding built_def by blast

lemma goneI:
  "(ProviderDestroy p ctx, R_Destroy res) \<in> set h \<Longrightarrow> destroy_ok res \<Longrightarrow> namespaceGone res \<Longrightarrow>
   ctx_sessionId ctx = sid \<Longrightarrow> gone h sid"
  unfolding gone_def by blast

lemma may_destroy_claim:
  "(StoreTransition sid from to patch guard, R_Session (Some row)) \<in> set h \<Longrightarrow>
   to = ENDING \<or> to = EXPIRING \<Longrightarrow> may_destroy h sid"
  unfolding may_destroy_def seen_torn_def failed_build_def by blast

lemma may_destroy_seen:
  "(\<And>row. found = Some row \<Longrightarrow> isTeardownOwned (status row)) \<Longrightarrow> (found = None \<Longrightarrow> known h sid) \<Longrightarrow>
   may_destroy (h @ [(StoreGet sid, R_Session found)]) sid"
  unfolding may_destroy_def seen_torn_def by (cases found) auto

lemma may_destroy_failed:
  "(ProviderCreate p ctx, r) \<in> set h \<Longrightarrow> ctx_sessionId (fst ctx) = sid \<Longrightarrow>
   (\<And>res. r = R_Create res \<Longrightarrow> \<not> create_ok res) \<Longrightarrow> may_destroy h sid"
  unfolding may_destroy_def seen_torn_def failed_build_def by blast

lemma always_ok [simp]:
  "always (call_ok m) (StoreGet sid)" "always (call_ok m) (StoreFindBySandboxRef ref)"
  "always (call_ok m) (StoreTouchActivity sid at)" "always (call_ok m) StoreList"
  "always (call_ok m) StoreListOccupying" "always (call_ok m) (StoreListOccupyingForOwner ow)"
  "always (call_ok m) StoreCountOccupying" "always (call_ok m) (StartsInFlightSet sid at)"
  "always (call_ok m) (StartsInFlightDelete sid)" "always (call_ok m) StartsInFlightEntries"
  "always (call_ok m) (ResetsInFlightSet sid at)" "always (call_ok m) (ResetsInFlightDelete sid)"
  "always (call_ok m) ResetsInFlightEntries" "always (call_ok m) ReadStopping"
  "always (call_ok m) SetStopping" "always (call_ok m) ReadSweeping"
  "always (call_ok m) (WriteSweeping b)" "always (call_ok m) ReadLostLastSweep"
  "always (call_ok m) (WriteLostLastSweep ids)" "always (call_ok m) ClockNow"
  "always (call_ok m) RandomSessionId" "always (call_ok m) (ProviderProbe p)"
  "always (call_ok m) (ProviderInvalidate p)" "always (call_ok m) (ProviderEnvStatus p ctx)"
  "always (call_ok m) (ProviderTerminalContext p ctx)" "always (call_ok m) (ProviderListManaged p)"
  "always (call_ok m) (TerminalTerminate sid)" "always (call_ok m) (TerminalReattach sid)"
  "always (call_ok m) (HookOnAdmitted s)"
  by (simp_all add: always_def call_ok_def)

lemma always_call_ok: "always (call_ok m) c \<Longrightarrow> call_ok m h c"
  by (simp add: always_def)

abbreviation obeys :: "SessionManager \<Rightarrow> 'a prog \<Rightarrow> history \<Rightarrow> bool" where
  "obeys m p h \<equiv> sat answer_ok (call_ok m) (\<lambda>_ _. True) p h"

lemma obeys_harmless: "all_calls (always (call_ok m)) p \<Longrightarrow> obeys m p h"
  by (rule sat_harmless)

lemma obeys_await:
  "obeys m p h \<Longrightarrow> (\<And>t x. obeys m (f x) (h @ t)) \<Longrightarrow> obeys m (await p f) h"
  by (rule sat_await [where R = "\<lambda>_ _. True"]) auto

lemma obeys_attempt:
  "obeys m p h \<Longrightarrow> (\<And>t e. obeys m (hdl e) (h @ t)) \<Longrightarrow> obeys m (attempt p hdl) h"
  by (rule sat_attempt [where R = "\<lambda>_ _. True"]) auto

lemma obeys_eventually:
  assumes "obeys m p h" and "\<And>t. obeys m q (h @ t)"
  shows "obeys m (eventually p q) h"
  unfolding sat_eventually_eq
proof (rule sat_conseq [OF assms(1)])
  fix h' :: history and out :: "exn + 'a"
  assume "\<exists>t. h' = h @ t"
  then obtain t where "h' = h @ t" ..
  with assms(2) [of t] show "sat answer_ok (call_ok m)
      (\<lambda>h'' out'. case out' of Inl e \<Rightarrow> True | Inr xa \<Rightarrow> True) q h'"
    by (auto elim: sat_conseq split: sum.splits)
qed

lemma obeys_of_result: "obeys m (of_result f r) h"
  by (simp add: sat_of_result split: sum.splits)


section \<open>The conditional write\<close>

lemma sat_transition:
  assumes "transition_ok h sid from to patch"
    and "\<And>t e. Q (h @ t) (Inl e)"
    and "\<And>t. Q (h @ t) (Inr None)"
    and "\<And>h0 t row. sessionId row = sid \<Longrightarrow> status row = to \<Longrightarrow>
           Q (h @ [h0] @ [(StoreTransition sid from to (patch\<lparr>p_statusChangedAt := Some t\<rparr>) guard,
                           R_Session (Some row))]) (Inr (Some row))"
  shows "sat answer_ok (call_ok m) Q (transition sid from to patch guard) h"
  unfolding transition_def
proof (rule sat_await [where R = "\<lambda>h' _. \<exists>e. h' = h @ [e]"])
  show "sat answer_ok (call_ok m) (\<lambda>h' _. \<exists>e. h' = h @ [e]) (call_time ClockNow) h"
    by (auto simp: call_time_def call_ok_def split: resp.splits)
next
  fix t and now :: int
  assume "\<exists>e. h @ t = h @ [e]"
  then obtain e where t: "t = [e]" by auto
  have ok: "call_ok m (h @ [e]) (StoreTransition sid from to (patch\<lparr>p_statusChangedAt := Some now\<rparr>) guard)"
    using assms(1) history_mono(7) by (simp add: call_ok_def transition_ok_def evidence_def patch_ok_def
        history_mono(1,2))
  show "sat answer_ok (call_ok m) Q
      (call_session (StoreTransition sid from to (patch\<lparr>p_statusChangedAt := Some now\<rparr>) guard)) (h @ t)"
    unfolding t sat_call_session
  proof (intro conjI allI impI ok)
    fix r
    assume a: "answer_ok (StoreTransition sid from to (patch\<lparr>p_statusChangedAt := Some now\<rparr>) guard) r"
    have none: "Q ((h @ [e]) @ [x]) (Inl ex)" "Q ((h @ [e]) @ [x]) (Inr None)" for x ex
      using assms(2) [of "[e, x]" ex] assms(3) [of "[e, x]"] by simp_all
    show "case r of R_Session s \<Rightarrow> Q ((h @ [e]) @
           [(StoreTransition sid from to (patch\<lparr>p_statusChangedAt := Some now\<rparr>) guard, r)]) (Inr s)
        | R_Throw ex \<Rightarrow> Q ((h @ [e]) @
           [(StoreTransition sid from to (patch\<lparr>p_statusChangedAt := Some now\<rparr>) guard, r)]) (Inl ex)
        | _ \<Rightarrow> Q ((h @ [e]) @
           [(StoreTransition sid from to (patch\<lparr>p_statusChangedAt := Some now\<rparr>) guard, r)]) (Inl ProtocolError)"
    proof (cases r)
      case (R_Session s)
      with a assms(4) [of _ e now] none show ?thesis by (cases s) (auto simp: answer_ok_def)
    qed (use none in simp_all)
  qed
qed (use assms(2) in simp)

lemma obeys_transition: "transition_ok h sid from to patch \<Longrightarrow> obeys m (transition sid from to patch guard) h"
  by (rule sat_transition) auto

lemma evidence_trivial: "to \<notin> {ACTIVE, ENDED, EXPIRED} \<Longrightarrow> evidence h sid to"
  by (simp add: evidence_def)

lemma patch_ok_simps [simp]:
  "\<not> isTerminalStatus to \<Longrightarrow> patch_ok to (with_reason reason)"
  "\<not> isTerminalStatus to \<Longrightarrow> patch_ok to (with_activity t)"
  "\<not> isTerminalStatus to \<Longrightarrow> patch_ok to ((with_reason reason)\<lparr>p_lastActivityAt := Some t\<rparr>)"
  "\<not> isTerminalStatus to \<Longrightarrow> patch_ok to ((with_activity t)\<lparr>p_environmentId := e\<rparr>)"
  "isTerminalStatus to \<Longrightarrow> patch_ok to ((with_reason reason)\<lparr>p_endedAt := Some t\<rparr>)"
  by (simp_all add: patch_ok_def with_reason_def with_activity_def no_patch_def)

section \<open>Teardown obeys the protocol\<close>

lemma obeys_get_or: "obeys m (get_or sid x) h"
  by (rule obeys_harmless) (simp add: get_or_def good_intros)

lemma sat_destroy_stored:
  assumes "may_destroy h (sessionId s)"
  shows "sat answer_ok (call_ok m)
     (\<lambda>h' out. \<exists>d. out = Inr d \<and> (destroy_ok d \<longrightarrow> namespaceGone d \<longrightarrow> gone h' (sessionId s)))
     (destroy_stored m s) h"
proof (cases "providerFor m s")
  case (Inl e)
  then show ?thesis by (simp add: destroy_stored_def of_result_def destroy_failed_def)
next
  case (Inr p)
  have "gone (h @ [(ProviderDestroy p (teardownContextFor s), R_Destroy d)]) (sessionId s)"
    if "destroy_ok d" "namespaceGone d" for d
    by (rule goneI) (use that in \<open>auto simp: teardownContextFor_def\<close>)
  with Inr assms show ?thesis
    by (auto simp: destroy_stored_def of_result_def sat_attempt_eq sat_call_destroy call_ok_def
        teardownContextFor_def destroy_failed_def split: resp.splits)
qed

lemma obeys_destroy_stored: "may_destroy h (sessionId s) \<Longrightarrow> obeys m (destroy_stored m s) h"
  by (rule sat_conseq [OF sat_destroy_stored]) simp_all

lemma obeys_notify: "announces h ev \<Longrightarrow> obeys m (notifyClosed m ev) h"
  unfolding notifyClosed_def by (auto intro!: obeys_attempt sat_call_true simp: call_ok_def)

definition teardown_pair :: "session_status \<Rightarrow> session_status \<Rightarrow> bool" where
  "teardown_pair ip dn \<longleftrightarrow> (ip = ENDING \<and> dn = ENDED) \<or> (ip = EXPIRING \<and> dn = EXPIRED)"

lemma obeys_clock: "obeys m (call_time ClockNow) h"
  by (rule sat_call_true) (simp add: always_call_ok)

lemma obeys_record_ending:
  assumes pair: "teardown_pair ip dn" and g: "gone h (sessionId session)"
  shows "obeys m (record_ending m session marked ip dn reason destroy) h"
  unfolding record_ending_def
proof (rule obeys_await [OF obeys_clock])
  fix t and now :: int
  let ?p = "(with_reason reason)\<lparr>p_endedAt := Some now\<rparr>"
  let ?R = "\<lambda>h' (out :: exn + LabSession option). \<forall>row. out = Inr (Some row) \<longrightarrow>
      announces h' (closed_event row dn reason)"
  have ok: "transition_ok (h @ t) (sessionId session) [ip] dn ?p"
    using pair history_mono(2) [OF g, of t]
    by (auto simp: transition_ok_def teardown_pair_def evidence_def status_defs)
  show "obeys m (await (transition (sessionId session) [ip] dn ?p no_guard) (\<lambda>ended.
       case ended of
         None \<Rightarrow> await (get_or (sessionId session) marked) (\<lambda>current.
                   Return \<lparr>td_session = current, td_destroy = destroy\<rparr>)
       | Some e \<Rightarrow> await (notifyClosed m (closed_event e dn reason)) (\<lambda>_.
                   Return \<lparr>td_session = e, td_destroy = destroy\<rparr>))) (h @ t)"
  proof (rule sat_await [where R = ?R])
    show "sat answer_ok (call_ok m) ?R (transition (sessionId session) [ip] dn ?p no_guard) (h @ t)"
    proof (rule sat_transition [OF ok])
      fix h0 t0 and row :: LabSession
      assume "sessionId row = sessionId session"
      then show "?R ((h @ t) @ [h0] @ [(StoreTransition (sessionId session) [ip] dn
          (?p\<lparr>p_statusChangedAt := Some t0\<rparr>) no_guard, R_Session (Some row))]) (Inr (Some row))"
        using pair by (auto simp: announces_def closed_event_def teardown_pair_def with_reason_def)
    qed simp_all
  qed (auto split: option.splits intro!: obeys_await obeys_get_or obeys_notify)
qed

lemma obeys_teardown_claimed:
  assumes pair: "teardown_pair ip dn" and claim: "may_destroy h (sessionId session)"
    and same: "sessionId marked = sessionId session"
  shows "obeys m (teardown_claimed m session marked ip dn reason) h"
  unfolding teardown_claimed_def
proof (rule obeys_await)
  show "obeys m (close_shell m (sessionId session)) h"
    by (rule obeys_harmless) (simp add: close_shell_def good_intros)
next
  fix t
  have "may_destroy (h @ t) (sessionId marked)" using claim same history_mono(3) by simp
  from sat_destroy_stored [OF this, unfolded same]
  show "obeys m (await (destroy_stored m marked) (\<lambda>destroy.
       if \<not> destroy_ok destroy \<or> \<not> namespaceGone destroy
       then await (get_or (sessionId session) marked) (\<lambda>current.
              Return \<lparr>td_session = current, td_destroy = destroy\<rparr>)
       else record_ending m session marked ip dn reason destroy)) (h @ t)"
    by (rule sat_await) (auto intro!: obeys_await obeys_get_or obeys_record_ending [OF pair])
qed

lemma obeys_claim_and_teardown:
  assumes pair: "teardown_pair ip dn" and edges: "\<forall>x \<in> set claimable. lifecycle_edge x ip"
  shows "obeys m (claim_and_teardown m session claimable ip dn reason guard) h"
  unfolding claim_and_teardown_def
proof (rule sat_await)
  let ?R = "\<lambda>h' (out :: exn + LabSession option). \<forall>row. out = Inr (Some row) \<longrightarrow>
      sessionId row = sessionId session \<and> may_destroy h' (sessionId session)"
  have "transition_ok h (sessionId session) claimable ip (with_reason reason)"
    using pair edges by (auto simp: transition_ok_def teardown_pair_def evidence_def status_defs)
  then show "sat answer_ok (call_ok m) ?R
      (transition (sessionId session) claimable ip (with_reason reason) guard) h"
    by (rule sat_transition) (use pair in \<open>auto simp: teardown_pair_def intro: may_destroy_claim\<close>)
qed (auto split: option.splits intro!: obeys_await obeys_get_or obeys_teardown_claimed [OF pair])

lemma obeys_teardown:
  assumes pair: "teardown_pair ip dn" and edges: "\<forall>x \<in> set claimable. lifecycle_edge x ip"
  shows "obeys m (teardown m session claimable ip dn reason guard defer) h"
proof -
  have ok: "transition_ok h (sessionId session) [CREATING] ip (with_reason reason)"
    using pair by (auto simp: transition_ok_def teardown_pair_def evidence_def status_defs)
  show ?thesis
    unfolding teardown_def
    by (auto split: option.splits
        intro!: obeys_await obeys_transition [OF ok] obeys_claim_and_teardown [OF pair edges])
qed

lemma sat_require:
  "sat answer_ok (call_ok m)
     (\<lambda>h' out. \<forall>s. out = Inr s \<longrightarrow>
        known h' (sessionId s) \<and> (\<forall>x. sid = UString x \<longrightarrow> sessionId s = x)) (require sid) h"
proof -
  have kn: "known (h @ [(StoreGet i, R_Session (Some row))]) i" for i row
    by (auto simp: known_def)
  have eq: "i = x" if "assertValidSessionId (UString x) = Inr i" for x i
    using that by (auto simp: assertValidSessionId_def Let_def split: if_splits)
  show ?thesis
    unfolding require_def
    by (auto split: sum.splits option.splits resp.splits dest: eq intro: kn
        simp: sat_await_eq sat_call_session always_call_ok answer_ok_def)
qed

lemma obeys_require: "obeys m (require sid) h"
  by (rule sat_conseq [OF sat_require]) simp

lemma teardown_pairs [simp]: "teardown_pair ENDING ENDED" "teardown_pair EXPIRING EXPIRED"
  by (simp_all add: teardown_pair_def)

lemma live_edges:
  "\<forall>x \<in> set (LIVE_STATUSES @ [ENDING]). lifecycle_edge x ENDING"
  "\<forall>x \<in> set (LIVE_STATUSES @ [EXPIRING]). lifecycle_edge x EXPIRING"
  "\<forall>x \<in> set LIVE_STATUSES. lifecycle_edge x EXPIRING"
  by (simp_all add: LIVE_STATUSES_def)

lemma obeys_resumeAbandonedEnd: "obeys m (resumeAbandonedEnd m sid) h"
  unfolding resumeAbandonedEnd_def
  by (intro obeys_await obeys_require obeys_teardown) simp_all

lemma obeys_end_session: "obeys m (end_session m sid) h"
  unfolding end_session_def
  by (intro obeys_await obeys_require obeys_teardown live_edges teardown_pairs)

lemma obeys_expire: "obeys m (expire m sid reason guard) h"
  unfolding expire_def
  by (intro obeys_await obeys_require obeys_teardown live_edges teardown_pairs)

lemma obeys_endByOperator: "obeys m (endByOperator m sid) h"
proof -
  have "obeys m (if status s = ENDING then resumeAbandonedEnd m (sessionId s)
       else if status s = EXPIRING
       then teardown m s [EXPIRING] EXPIRING EXPIRED
              (or_keep OPERATOR_END_REASON (statusReason s)) no_guard False
       else teardown m s LIVE_STATUSES EXPIRING EXPIRED OPERATOR_END_REASON no_guard True) h'" for s h'
    using obeys_resumeAbandonedEnd obeys_teardown [OF teardown_pairs(2)] live_edges(3) by simp
  then show ?thesis
    unfolding endByOperator_def by (intro obeys_await obeys_require)
qed

lemma isTerminal_teardown: "isTerminalStatus s \<Longrightarrow> isTeardownOwned s"
  by (simp add: isTeardownOwned_def)

lemma obeys_reclaimFinishedSandbox: "obeys m (reclaimFinishedSandbox m sid) h"
proof -
  have "obeys m (destroy_stored m row) (h @ [(StoreGet sid, R_Session (Some row))])"
    if "sessionId row = sid" "isTerminalStatus (status row)" for row
    using that isTerminal_teardown may_destroy_seen [of "Some row" h sid]
    by (auto intro: obeys_destroy_stored)
  then show ?thesis
    unfolding reclaimFinishedSandbox_def
    by (auto simp: sat_await_eq sat_call_session always_call_ok answer_ok_def
        split: resp.splits option.splits)
qed

section \<open>Start obeys the protocol\<close>

lemma ctx_simps [simp]:
  "ctx_sessionId (teardownContextFor s) = sessionId s"
  "ctx_sessionId (fst (contextFor_lab lab s)) = sessionId s"
  by (simp_all add: teardownContextFor_def contextFor_lab_def)

lemma obeys_destroy_quietly:
  assumes "may_destroy h (ctx_sessionId (fst ctx))"
  shows "obeys m (destroy_quietly m session ctx) h"
  unfolding destroy_quietly_def
  using assms by (cases "providerFor m session")
    (auto simp: of_result_def sat_attempt_eq sat_await_eq sat_call_destroy call_ok_def split: resp.splits)

lemma obeys_discardLostWork:
  assumes "ctx_sessionId (fst ctx) = sessionId session" and "known h (sessionId session)"
  shows "obeys m (discardLostWork m session ctx) h"
proof -
  have "obeys m (destroy_quietly m session ctx) (h @ [(StoreGet (sessionId session), R_Session found)])"
    if "\<And>row. found = Some row \<Longrightarrow> isTeardownOwned (status row)" for found
    using that assms may_destroy_seen [of found h "sessionId session"]
    by (auto intro: obeys_destroy_quietly)
  then show ?thesis
    unfolding discardLostWork_def
    by (auto simp: sat_await_eq sat_call_session always_call_ok split: resp.splits option.splits)
qed

lemma obeys_get: "obeys m (call_session (StoreGet sid)) h"
  by (rule obeys_harmless) simp

lemma obeys_finishTeardownOfLostStart: "obeys m (finishTeardownOfLostStart m sid) h"
  unfolding finishTeardownOfLostStart_def
  by (auto split: option.splits
      intro!: obeys_attempt obeys_await obeys_get obeys_resumeAbandonedEnd obeys_teardown)

lemma obeys_closedDuringStart: "obeys m (await (closedDuringStart sid) Throw) h"
  unfolding closedDuringStart_def by (intro obeys_await obeys_get) simp_all

lemma obeys_failSession:
  assumes "may_destroy h (ctx_sessionId (fst ctx))"
  shows "obeys m (failSession m session ctx reason) h"
proof -
  have "transition_ok h' (sessionId session) [CREATING] FAILED ((with_reason reason)\<lparr>p_endedAt := Some t\<rparr>)"
    for h' t
    by (simp add: transition_ok_def evidence_trivial status_defs)
  then show ?thesis
    unfolding failSession_def using assms
    by (auto split: option.splits intro!: obeys_await sat_call_true obeys_destroy_quietly obeys_clock
        obeys_transition obeys_get obeys_finishTeardownOfLostStart history_mono(3) simp: always_call_ok)
qed

lemma obeys_lost_start:
  "known h (sessionId session) \<Longrightarrow> obeys m (lost_start m session (contextFor_lab lab session)) h"
  unfolding lost_start_def
  by (intro obeys_await obeys_discardLostWork obeys_finishTeardownOfLostStart obeys_closedDuringStart) simp_all

lemma obeys_provision_failed:
  "may_destroy h (ctx_sessionId (fst ctx)) \<Longrightarrow> obeys m (provision_failed m session ctx result) h"
  unfolding provision_failed_def Let_def by (intro obeys_await obeys_failSession) simp_all

lemma obeys_activate:
  assumes "built h (sessionId session)" and "known h (sessionId session)"
  shows "obeys m (activate m lab session (contextFor_lab lab session) result) h"
proof -
  have "transition_ok (h @ t) (sessionId session) [CREATING] ACTIVE ((with_activity u)\<lparr>p_environmentId := e\<rparr>)"
    for t u e
    using history_mono(1) [OF assms(1)] by (simp add: transition_ok_def evidence_def status_defs)
  then have tr: "obeys m (transition (sessionId session) [CREATING] ACTIVE
      ((with_activity u)\<lparr>p_environmentId := e\<rparr>) no_guard) (h @ t)" for t u e
    by (rule obeys_transition)
  have "obeys m (await (attempt (await (call_count StoreCountOccupying) (\<lambda>_. Return ()))
      (\<lambda>_. Return ())) (\<lambda>_. Return x)) h'" for h' and x :: StartSessionResult
    by (rule obeys_harmless) (simp add: good_intros)
  with tr show ?thesis
    unfolding activate_def
    by (auto split: option.splits intro!: obeys_await [OF obeys_clock] obeys_await [OF tr] obeys_lost_start
        history_mono(10) [OF assms(2)])
qed

lemma sat_provision_threw:
  assumes "may_destroy h (ctx_sessionId (fst ctx))"
  shows "sat answer_ok (call_ok m) (\<lambda>_ out. \<exists>e. out = Inl e) (provision_threw m session ctx e) h"
  unfolding provision_threw_def sat_await_eq
  by (rule sat_conseq [OF obeys_failSession [OF assms]]) (auto split: sum.splits)

lemma sat_provider_create:
  assumes "holds_start h (ctx_sessionId (fst ctx))"
  shows "sat answer_ok (call_ok m)
     (\<lambda>h' out. case out of Inr res \<Rightarrow> (ProviderCreate p ctx, R_Create res) \<in> set h'
                         | Inl e \<Rightarrow> may_destroy h' (ctx_sessionId (fst ctx)))
     (call_create (ProviderCreate p ctx)) h"
proof -
  have "may_destroy (h @ [(ProviderCreate p ctx, r)]) (ctx_sessionId (fst ctx))"
    if "\<And>res. r \<noteq> R_Create res" for r
    by (rule may_destroy_failed [where r = r]) (use that in auto)
  with assms show ?thesis
    by (auto simp: sat_call_create call_ok_def split: resp.splits)
qed

lemma obeys_buildAdmitted:
  assumes "holds_start h (sessionId session)"
  shows "obeys m (buildAdmitted m lab prov session hooks) h"
  unfolding buildAdmitted_def Let_def
proof (rule obeys_await)
  show "obeys m (if has_onAdmitted hooks
      then attempt (call_unit (HookOnAdmitted session)) (\<lambda>_. Return ()) else Return ()) h"
    by (rule obeys_harmless) (simp add: good_intros)
next
  fix t
  let ?ctx = "contextFor_lab lab session" and ?h = "h @ t"
  let ?c = "ProviderCreate prov ?ctx"
  let ?R = "\<lambda>h' (out :: exn + CreateResult). \<forall>res. out = Inr res \<longrightarrow> (?c, R_Create res) \<in> set h'"
  have start: "holds_start ?h (ctx_sessionId (fst ?ctx))" using assms history_mono(5) by simp
  have kn: "known h (sessionId session)" using assms by (simp add: known_def)
  show "obeys m (await (attempt (call_create ?c) (provision_threw m session ?ctx))
        (\<lambda>result. if \<not> create_ok result then provision_failed m session ?ctx result
                  else activate m lab session ?ctx result)) ?h"
  proof (rule sat_await [where R = ?R])
    show "sat answer_ok (call_ok m) ?R (attempt (call_create ?c) (provision_threw m session ?ctx)) ?h"
      by (rule sat_attempt [OF sat_provider_create [OF start]])
        (auto intro: sat_conseq [OF sat_provision_threw])
  qed (auto intro!: obeys_provision_failed obeys_activate history_mono(10) [OF kn]
        intro: may_destroy_failed built_create)
qed

lemma perOwnerLimit_ok:
  "limits_ok m \<lparr>maxOccupying = maxActiveSessions (lifetimes m), maxOccupyingPerOwner = perOwnerLimit m limit\<rparr>"
  by (auto simp: limits_ok_def perOwnerLimit_def Let_def split: option.splits)

lemma candidate_session_ok:
  assumes "deriveNamespace (hmac m) sid (namespaceSecret m) None None = Inr ns"
    and "derive_ref m prov sid ns = Inr ref"
  shows "candidate_ok m (h @ [(RandomSessionId, R_Id sid), (StoreFindBySandboxRef ref, R_Session None)])
           (candidate_session m lab prov owner at sid ns ref)"
  using assms by (simp add: candidate_ok_def candidate_session_def wf_new_def)

lemma sat_admit:
  assumes "candidate_ok m h s" and "limits_ok m limits"
  shows "sat answer_ok (call_ok m) (\<lambda>h' out. out = Inr Admitted \<longrightarrow> holds_start h' (sessionId s))
           (call_decision (StoreCreateWithinLimits s limits)) h"
  using assms by (auto simp: call_decision_def call_ok_def holds_start_def split: resp.splits)

lemma sat_draw:
  "sat answer_ok (call_ok m) (\<lambda>h' out. \<forall>sid. out = Inr sid \<longrightarrow> h' = h @ [(RandomSessionId, R_Id sid)])
     (call_id RandomSessionId) h"
  by (auto simp: sat_call_id always_call_ok split: resp.splits)

lemma sat_probe_ref:
  "sat answer_ok (call_ok m)
     (\<lambda>h' out. out = Inr None \<longrightarrow> h' = h @ [(StoreFindBySandboxRef ref, R_Session None)])
     (call_session (StoreFindBySandboxRef ref)) h"
  by (auto simp: sat_call_session always_call_ok split: resp.splits)

text \<open>The rest of one attempt, once the id is drawn and its names derived.\<close>

lemma sat_insert_attempts:
  "sat answer_ok (call_ok m) (\<lambda>h' out. \<forall>s. out = Inr s \<longrightarrow> holds_start h' (sessionId s))
     (insert_attempts n m lab prov owner (perOwnerLimit m limit) at) h"
proof (induction n arbitrary: h)
  case (Suc n)
  let ?Q = "\<lambda>h' (out :: exn + LabSession). \<forall>s. out = Inr s \<longrightarrow> holds_start h' (sessionId s)"
  let ?lim = "\<lparr>maxOccupying = maxActiveSessions (lifetimes m), maxOccupyingPerOwner = perOwnerLimit m limit\<rparr>"
  have admit: "sat answer_ok (call_ok m) ?Q
      (await (call_decision (StoreCreateWithinLimits (candidate_session m lab prov owner at sid ns ref) ?lim))
           (\<lambda>decision. case decision of
             Admitted \<Rightarrow> Return (candidate_session m lab prov owner at sid ns ref)
           | Refused by occ ownerOcc \<Rightarrow>
               (case by of
                  By_Owner \<Rightarrow> Throw (owner_refusal ownerOcc (perOwnerLimit m limit))
                | By_Global \<Rightarrow> Throw (capacity_refusal m occ))))
      (h0 @ [(RandomSessionId, R_Id sid), (StoreFindBySandboxRef ref, R_Session None)])"
    if "deriveNamespace (hmac m) sid (namespaceSecret m) None None = Inr ns"
      "derive_ref m prov sid ns = Inr ref" for h0 sid ns ref
    by (rule sat_await [OF sat_admit [OF candidate_session_ok [OF that] perOwnerLimit_ok]])
      (auto split: CapacityDecision.splits refused_by.splits)
  have find: "sat answer_ok (call_ok m) ?Q
      (await (call_session (StoreFindBySandboxRef ref)) (\<lambda>taken.
         if taken \<noteq> None then insert_attempts n m lab prov owner (perOwnerLimit m limit) at
         else
         let candidate = candidate_session m lab prov owner at sid ns ref in
         await (call_decision (StoreCreateWithinLimits candidate ?lim))
           (\<lambda>decision.
           case decision of
             Admitted \<Rightarrow> Return candidate
           | Refused by occ ownerOcc \<Rightarrow>
               (case by of
                  By_Owner \<Rightarrow> Throw (owner_refusal ownerOcc (perOwnerLimit m limit))
                | By_Global \<Rightarrow> Throw (capacity_refusal m occ)))))
      (h @ [(RandomSessionId, R_Id sid)])"
    if "deriveNamespace (hmac m) sid (namespaceSecret m) None None = Inr ns"
      "derive_ref m prov sid ns = Inr ref" for sid ns ref
    by (rule sat_await [OF sat_probe_ref]) (use Suc.IH admit [OF that, of h] in \<open>auto simp: Let_def\<close>)
  show ?case
    unfolding insert_attempts.simps
    by (rule sat_await [OF sat_draw])
      (use find in \<open>auto simp: sat_await_eq sat_of_result split: sum.splits\<close>)
qed simp

lemma sat_insertSession:
  "sat answer_ok (call_ok m) (\<lambda>h' out. \<forall>s. out = Inr s \<longrightarrow> holds_start h' (sessionId s))
     (insertSession m lab prov owner limit) h"
  unfolding insertSession_def
  by (rule sat_await [OF obeys_clock]) (auto intro: sat_insert_attempts)

lemma obeys_admitted:
  "obeys m (await (insertSession m lab prov owner limit) (\<lambda>session.
     await (call_unit (StartsInFlightSet (sessionId session) (statusChangedAt session))) (\<lambda>_.
       eventually (buildAdmitted m lab prov session hooks)
         (call_unit (StartsInFlightDelete (sessionId session)))))) h"
  by (rule sat_await [OF sat_insertSession])
    (auto intro!: obeys_await obeys_eventually obeys_buildAdmitted sat_call_true history_mono(5)
      simp: always_call_ok simp flip: append_assoc)

lemma obeys_start: "obeys m (start m labid owner hooks) h"
proof -
  have "obeys m (if is_down first
      then await (call_unit (ProviderInvalidate p)) (\<lambda>_. call_probe (ProviderProbe p))
      else Return first) h'" for first p h'
    by (rule obeys_harmless) (simp add: good_intros)
  then show ?thesis
    unfolding start_def
    by (auto intro!: obeys_await obeys_of_result obeys_admitted sat_call_true simp: always_call_ok)
qed

section \<open>Reset obeys the protocol\<close>

lemma obeys_resetConflict: "obeys m (await (resetConflict sid) Throw) h"
  unfolding resetConflict_def by (intro obeys_await obeys_get) simp_all

lemma obeys_lost_reset:
  "ctx_sessionId (fst ctx) = sessionId session \<Longrightarrow> known h (sessionId session) \<Longrightarrow>
   obeys m (lost_reset m session ctx) h"
  unfolding lost_reset_def by (intro obeys_await obeys_discardLostWork obeys_resetConflict)

lemma obeys_degrade: "obeys m (degrade sid reason guard b) h"
proof -
  have "transition_ok h' sid [RESETTING] DEGRADED p" if "patch_ok DEGRADED p" for h' p
    using that by (simp add: transition_ok_def evidence_trivial)
  then show ?thesis
    unfolding degrade_def
    by (auto intro!: obeys_await obeys_clock obeys_transition simp: status_defs)
qed

lemma sat_reset_threw:
  assumes "ctx_sessionId (fst ctx) = sessionId session" and "known h (sessionId session)"
  shows "sat answer_ok (call_ok m) (\<lambda>_ out. \<exists>e. out = Inl e) (reset_threw m session ctx fence ex) h"
proof -
  have "sat answer_ok (call_ok m) (\<lambda>_ out. \<exists>e. out = Inl e) (lost_reset m session ctx) (h @ t)" for t
    unfolding lost_reset_def resetConflict_def
    by (rule sat_await [OF obeys_discardLostWork [OF assms(1) history_mono(10) [OF assms(2)]]], rule sat_await [where R = "\<lambda>_ _. True"])
      (auto intro: obeys_await obeys_get)
  then show ?thesis
    unfolding reset_threw_def
    by (intro sat_await [OF obeys_degrade]) (auto split: option.splits)
qed

lemma obeys_reset_refused:
  "ctx_sessionId (fst ctx) = sessionId session \<Longrightarrow> known h (sessionId session) \<Longrightarrow>
   obeys m (reset_refused m session ctx fence result) h"
  unfolding reset_refused_def
  by (auto intro!: obeys_await obeys_degrade obeys_lost_reset history_mono(10) split: option.splits)

lemma obeys_reset_done:
  assumes "ctx_sessionId (fst ctx) = sessionId session" and "built h (sessionId session)"
    and kn: "known h (sessionId session)"
  shows "obeys m (reset_done m session ctx fence result) h"
proof -
  have "transition_ok (h @ t) (sessionId session) [RESETTING] ACTIVE (with_activity u)" for t u
    using history_mono(1) [OF assms(2)] by (simp add: transition_ok_def evidence_def status_defs)
  then have tr: "obeys m (transition (sessionId session) [RESETTING] ACTIVE (with_activity u) fence) (h @ t)" for t u
    by (rule obeys_transition)
  have "obeys m (await (if sandboxKind session = Container \<and> has_terminal m \<and> has_reattach m
      then attempt (call_unit (TerminalReattach (sessionId session))) (\<lambda>_. Return ())
      else Return ()) (\<lambda>_. Return x)) h'" for h' and x :: "LabSession \<times> ResetResult"
    by (rule obeys_harmless) (simp add: good_intros)
  with tr show ?thesis
    unfolding reset_done_def
    by (auto split: option.splits intro!: obeys_await [OF obeys_clock] obeys_await [OF tr]
        obeys_lost_reset [OF assms(1)] history_mono(10) [OF kn])
qed

lemma obeys_rebuild:
  assumes ctx: "ctx_sessionId (fst ctx) = sessionId session" and "holds_reset h (sessionId session)"
    and kn: "known h (sessionId session)"
  shows "obeys m (rebuild m session ctx fence) h"
  unfolding rebuild_def
proof (rule sat_await)
  let ?R = "\<lambda>h' (out :: exn + ResetResult). \<forall>res. out = Inr res \<longrightarrow> reset_ok res \<longrightarrow>
      built h' (sessionId session)"
  have "sat answer_ok (call_ok m) ?R (await (of_result id (providerFor m session))
      (\<lambda>p. call_reset (ProviderReset p ctx))) h"
    using assms by (auto simp: sat_await_eq sat_of_result sat_call_reset call_ok_def
        split: sum.splits resp.splits intro: built_reset)
  then show "sat answer_ok (call_ok m) ?R (attempt (await (of_result id (providerFor m session))
      (\<lambda>p. call_reset (ProviderReset p ctx))) (reset_threw m session ctx fence)) h"
    by (rule sat_attempt) (auto intro: sat_conseq [OF sat_reset_threw [OF ctx history_mono(10) [OF kn]]])
qed (auto intro!: obeys_reset_refused [OF ctx] obeys_reset_done [OF ctx] history_mono(10) [OF kn])

lemma contextFor_id: "contextFor m session = Inr ctx \<Longrightarrow> ctx_sessionId (fst ctx) = sessionId session"
  by (auto simp: contextFor_def split: sum.splits)

lemma obeys_reset: "obeys m (reset m sid) h"
  unfolding reset_def
proof (rule sat_await [OF sat_require], goal_cases)
  case (1 t session)
  then have sid: "sessionId session = sid" and kn: "known (h @ t) sid" by auto
  let ?R = "\<lambda>h' (out :: exn + LabSession option). \<forall>row. out = Inr (Some row) \<longrightarrow> holds_reset h' sid"
  have ok: "transition_ok h' sid RESETTABLE_STATUSES RESETTING (with_activity u)" for h' u
    by (simp add: transition_ok_def evidence_trivial status_defs)
  have tr: "sat answer_ok (call_ok m) ?R
      (transition sid RESETTABLE_STATUSES RESETTING (with_activity u) no_guard) h'" for h' u
    by (rule sat_transition [OF ok]) (auto simp: holds_reset_def)
  have claim: "known h' sid \<Longrightarrow> obeys m (await (transition sid RESETTABLE_STATUSES RESETTING (with_activity u) no_guard) (\<lambda>claimed.
             case claimed of
               None \<Rightarrow> await (resetConflict sid) Throw
             | Some c \<Rightarrow>
                 await (call_unit (ResetsInFlightSet sid (statusChangedAt c))) (\<lambda>_.
                   eventually (rebuild m session ctx (fence_on (statusChangedAt c)))
                     (call_unit (ResetsInFlightDelete sid))))) h'"
    if "contextFor m session = Inr ctx" for h' u ctx
  proof (rule sat_await [OF tr], goal_cases)
    case (1 t claimed)
    note kn = history_mono(10) [OF \<open>known h' sid\<close>]
    have "obeys m (rebuild m session ctx fence) ((h' @ t) @ t')" if "claimed = Some c" for c t' fence
      by (rule obeys_rebuild [OF contextFor_id [OF \<open>contextFor m session = Inr ctx\<close>]], rule history_mono(4))
        (use 1 sid that kn in \<open>simp_all\<close>)
    then show ?case
      by (auto split: option.splits intro!: obeys_resetConflict obeys_await obeys_eventually sat_call_true
          simp: always_call_ok simp del: append_assoc)
  qed simp
  have "obeys m (await (of_result id (contextFor m session)) (\<lambda>ctx.
           await (call_time ClockNow) (\<lambda>t.
           await (transition sid RESETTABLE_STATUSES RESETTING (with_activity t) no_guard) (\<lambda>claimed.
             case claimed of
               None \<Rightarrow> await (resetConflict sid) Throw
             | Some c \<Rightarrow>
                 await (call_unit (ResetsInFlightSet sid (statusChangedAt c))) (\<lambda>_.
                   eventually (rebuild m session ctx (fence_on (statusChangedAt c)))
                     (call_unit (ResetsInFlightDelete sid))))))) ((h @ t) @ t')" for t'
    using kn by (cases "contextFor m session")
      (simp_all add: of_result_def, intro obeys_await [OF obeys_clock] claim, simp_all add: history_mono(10)
        flip: append_assoc)
  then show ?case
    by (auto intro!: obeys_await sat_call_true simp: always_call_ok)
qed simp

lemma obeys_recoverInterruptedReset: "obeys m (recoverInterruptedReset observed) h"
  by (simp add: recoverInterruptedReset_def obeys_degrade)

lemma obeys_markSandboxStopped: "obeys m (markSandboxStopped observed) h"
  unfolding markSandboxStopped_def
  by (auto intro!: obeys_transition simp: transition_ok_def evidence_trivial status_defs)

section \<open>Shutdown, activity and credentials obey the protocol\<close>

lemma obeys_interrupt_start: "obeys m (interrupt_start e n) h"
  unfolding interrupt_start_def
  by (cases e) (auto intro!: obeys_attempt obeys_await obeys_transition
      simp: transition_ok_def evidence_trivial status_defs)

lemma obeys_interrupt_reset: "obeys m (interrupt_reset e n) h"
  unfolding interrupt_reset_def
  by (cases e) (auto intro!: obeys_attempt obeys_await obeys_degrade)

lemma obeys_interruptInFlight: "obeys m interruptInFlight h"
  unfolding interruptInFlight_def
  by (intro obeys_await sat_for_each obeys_interrupt_start obeys_interrupt_reset sat_call_true)
    (simp_all add: always_call_ok)

lemma obeys_touch: "obeys m (touch sid) h"
  by (rule obeys_harmless) (auto simp: touch_def intro!: good_intros split: option.splits)

lemma obeys_touchActivity: "obeys m (touchActivity sid) h"
  by (rule obeys_harmless) (simp add: touchActivity_def good_intros)

lemma calls_require: "all_calls (always (call_ok m)) (require sid)"
  by (auto simp: require_def intro!: good_intros split: sum.splits option.splits)

lemma obeys_getTerminalContext: "obeys m (getTerminalContext m sid) h"
  by (rule obeys_harmless)
    (auto simp: getTerminalContext_def requireActive_def calls_require intro!: good_intros
      split: TerminalContext.splits)

lemma obeys_issueCredentials: "obeys m (issueCredentials m sid) h"
  unfolding issueCredentials_def
  by (rule obeys_await [OF obeys_getTerminalContext]) (simp split: TerminalContext.splits)

lemma obeys_env_status: "obeys m (env_status m session) h"
  by (rule obeys_harmless) (simp add: env_status_def good_intros)

section \<open>The reaper obeys the protocol\<close>

lemma obeys_finish: "(\<And>t. obeys m p (h @ t)) \<Longrightarrow> obeys m (finish session reason p result) h"
  unfolding finish_def Let_def
  by (rule obeys_attempt, rule obeys_await [where h = h])
    (use append_Nil2 in \<open>metis\<close>, auto split: option.splits)

lemma obeys_sweep_session: "obeys (sessions r) (sweep_session r now session result) h"
  unfolding sweep_session_def
  by (auto split: sweep_action.splits intro!: obeys_finish obeys_resumeAbandonedEnd obeys_expire
      obeys_attempt obeys_await obeys_recoverInterruptedReset)

lemma obeys_list: "obeys m (attempt (await list_sessions (\<lambda>ss. Return (Inr ss))) (\<lambda>e. Return (Inl e))) h"
  by (rule obeys_harmless) (simp add: list_sessions_def good_intros)

lemma obeys_sweepSessions: "obeys (sessions r) (sweepSessions r result) h"
  unfolding sweepSessions_def
  by (auto intro!: obeys_await obeys_clock obeys_list sat_for_each obeys_sweep_session split: sum.splits)

lemma live_refs_iff:
  "ref \<in> set (live_refs ss) \<longleftrightarrow>
     (\<exists>s \<in> set ss. \<not> isTerminalStatus (status s) \<and> (sandboxRef s = ref \<or> namespace s = ref))"
  by (auto simp: live_refs_def)

lemma finished_by_ref_fold:
  "map_of (fold (\<lambda>s m. if isTerminalStatus (status s) then AList.update (sandboxRef s) s m else m) ss al) ref
     = None \<longleftrightarrow> map_of al ref = None \<and> (\<forall>s \<in> set ss. isTerminalStatus (status s) \<longrightarrow> sandboxRef s \<noteq> ref)"
  by (induction ss arbitrary: al) (auto split: if_splits)

lemma finished_by_ref_None:
  "map_of (finished_by_ref ss) ref = None \<longleftrightarrow>
     (\<forall>s \<in> set ss. isTerminalStatus (status s) \<longrightarrow> sandboxRef s \<noteq> ref)"
  by (simp add: finished_by_ref_def finished_by_ref_fold)

lemma orphan_destroy_unshielded:
  assumes "orphan_decision r now ss sandbox = Destroy"
  shows "\<forall>s \<in> set ss. sandboxRef s \<noteq> ms_sandboxRef sandbox \<and>
           (\<not> isTerminalStatus (status s) \<longrightarrow> namespace s \<noteq> ms_sandboxRef sandbox)"
  using assms
  by (auto simp: orphan_decision_def live_refs_iff finished_by_ref_None split: if_splits option.splits)

lemma obeys_sweep_sandbox:
  assumes "(StoreList, R_Sessions ss) \<in> set h"
  shows "obeys (sessions r) (sweep_sandbox r now ss p sandbox result) h"
proof (cases "orphan_decision r now ss sandbox")
  case (Reclaim sid)
  then show ?thesis
    by (simp add: sweep_sandbox_def) (intro obeys_await obeys_reclaimFinishedSandbox, simp)
next
  case Destroy
  have "saw_unshielded h (ms_sandboxRef sandbox)"
    using orphan_destroy_unshielded [OF Destroy] assms unfolding saw_unshielded_def by blast
  then have "obeys (sessions r) (call_destroy (ProviderDestroySandbox p (ms_sandboxRef sandbox))) h"
    by (auto simp: sat_call_destroy call_ok_def split: resp.splits)
  with Destroy show ?thesis
    by (simp add: sweep_sandbox_def) (rule obeys_await, auto)
qed (simp_all add: sweep_sandbox_def)

lemma obeys_sweep_provider:
  assumes "(StoreList, R_Sessions ss) \<in> set h"
  shows "obeys (sessions r) (sweep_provider r now ss p acc) h"
proof -
  have "obeys m (attempt (await (call_managed (ProviderListManaged p)) (\<lambda>ms. Return (Inr ms)))
              (\<lambda>e. Return (Inl e))) h'" for m h'
    by (rule obeys_harmless) (simp add: good_intros)
  with assms show ?thesis
    unfolding sweep_provider_def
    by (cases acc) (auto intro!: obeys_await sat_for_each obeys_sweep_sandbox split: sum.splits)
qed

lemma obeys_reconcile_session: "obeys m (reconcile_session r now phases lost session acc) h"
  unfolding reconcile_session_def
  by (cases acc) (auto simp: Let_def intro!: obeys_await obeys_attempt obeys_markSandboxStopped)

lemma obeys_reconcileStoppedSandboxes: "obeys m (reconcileStoppedSandboxes r result ss phases now) h"
  unfolding reconcileStoppedSandboxes_def
  by (auto intro!: obeys_await sat_for_each obeys_reconcile_session sat_call_true simp: always_call_ok)

lemma sat_list_sessions:
  "sat answer_ok (call_ok m)
     (\<lambda>h' out. \<forall>ss. out = Inr ss \<longrightarrow> (StoreList, R_Sessions ss) \<in> set h') list_sessions h"
  by (auto simp: list_sessions_def sat_call_sessions always_call_ok split: resp.splits)

lemma obeys_sweepOrphans: "obeys (sessions r) (sweepOrphans r result) h"
  unfolding sweepOrphans_def
proof (rule obeys_await [OF obeys_clock])
  fix t and now :: int
  let ?R = "\<lambda>h' (out :: exn + (exn + LabSession list)). \<forall>ss. out = Inr (Inr ss) \<longrightarrow>
      (StoreList, R_Sessions ss) \<in> set h'"
  have listed: "sat answer_ok (call_ok (sessions r)) ?R
      (attempt (await list_sessions (\<lambda>ss. Return (Inr ss))) (\<lambda>e. Return (Inl e))) (h @ t)"
    unfolding sat_attempt_eq sat_await_eq
    by (rule sat_conseq [OF sat_list_sessions]) (auto split: sum.splits)
  show "obeys (sessions r) (await (attempt (await list_sessions (\<lambda>ss. Return (Inr ss)))
      (\<lambda>e. Return (Inl e))) (\<lambda>listed.
       case listed of
         Inl e \<Rightarrow> Return (push_error (''listing sessions: '' @ describeError e) result)
       | Inr ss \<Rightarrow>
           await (for_each (reaper_providers r) (sweep_provider r now ss) (result, [])) (\<lambda>(result', phases).
             reconcileStoppedSandboxes r result' ss phases now))) (h @ t)"
    by (rule sat_await [OF listed])
      (auto split: sum.splits intro!: obeys_await sat_for_each obeys_sweep_provider
        obeys_reconcileStoppedSandboxes)
qed

lemma obeys_sweepRetention: "obeys (sessions r) (sweepRetention r result) h"
proof -
  have forget: "obeys (sessions r) (retain_or_forget r now s res) h'"
    if "(StoreList, R_Sessions ss) \<in> set h'" "s \<in> set ss" for now s res h' ss
  proof -
    have "past_retention r now s \<Longrightarrow> saw_finished h' (sessionId s)"
      using that unfolding saw_finished_def past_retention_def by blast
    then show ?thesis
      unfolding retain_or_forget_def forget_def
      by (auto intro!: obeys_await sat_call_true simp: call_ok_def)
  qed
  have "obeys (sessions r) (await list_sessions (\<lambda>ss. for_each ss (retain_or_forget r now) result)) h'"
    for now h'
    by (rule sat_await [OF sat_list_sessions]) (auto intro!: sat_for_each forget)
  then show ?thesis
    unfolding sweepRetention_def by (auto intro!: obeys_await [OF obeys_clock])
qed

lemma obeys_sweep: "obeys (sessions r) (sweep r) h"
  unfolding sweep_def
  by (auto intro!: obeys_await obeys_eventually obeys_sweepSessions obeys_sweepOrphans
      obeys_sweepRetention sat_call_true simp: always_call_ok)

end
