(* ===== verification/Session_System.thy ===== *)
theory Session_System
  imports Session_Protocol
begin

text \<open>
  The whole session service as one transition system: any number of API processes,
  each with its own in-flight maps, run any number of requests and sweeps against one
  shared store. Between any two calls of one request, any other may run; a store call
  may be answered, or fail before or after it took effect; a provider, the terminal
  service, the listener and the admission hook may answer anything or reject; a
  process may crash at any point and lose its requests and its memory.

  Four parts of the state are history only and influence nothing: the calls each
  request made, the ids drawn, the ids ever stored, and how often each session was
  announced closed. The one assumption about the environment beyond the types of its
  answers is that the random source does not draw a session id twice.
\<close>

section \<open>Requests\<close>

datatype request =
    Start_Lab string "string option" StartHooks
  | End_Lab string
  | End_By_Operator string
  | Reset_Lab string
  | Touch string
  | Touch_Activity string
  | Get_Terminal string
  | Issue_Credentials string
  | Environment_Status LabSession
  | Sweep
  | Shutdown
  | Interrupt_Start string int
  | Interrupt_Reset string int

definition drop_result :: "'a prog \<Rightarrow> unit prog" where
  "drop_result p = await p (\<lambda>_. Return ())"

primrec request_prog :: "SessionReaper \<Rightarrow> request \<Rightarrow> unit prog" where
  "request_prog r (Start_Lab labid owner hooks) = drop_result (start (sessions r) labid owner hooks)"
| "request_prog r (End_Lab sid) = drop_result (end_session (sessions r) sid)"
| "request_prog r (End_By_Operator sid) = drop_result (endByOperator (sessions r) sid)"
| "request_prog r (Reset_Lab sid) = drop_result (reset (sessions r) sid)"
| "request_prog r (Touch sid) = drop_result (touch sid)"
| "request_prog r (Touch_Activity sid) = drop_result (touchActivity sid)"
| "request_prog r (Get_Terminal sid) = drop_result (getTerminalContext (sessions r) sid)"
| "request_prog r (Issue_Credentials sid) = drop_result (issueCredentials (sessions r) sid)"
| "request_prog r (Environment_Status s) = drop_result (env_status (sessions r) s)"
| "request_prog r Sweep = drop_result (sweep r)"
| "request_prog r Shutdown = drop_result interruptInFlight"
| "request_prog r (Interrupt_Start sid stamp) = drop_result (interrupt_start (sid, stamp) 0)"
| "request_prog r (Interrupt_Reset sid stamp) = drop_result (interrupt_reset (sid, stamp) 0)"

lemma obeys_drop_result: "obeys m p h \<Longrightarrow> obeys m (drop_result p) h"
  unfolding drop_result_def by (rule obeys_await) simp_all

lemma obeys_request: "obeys (sessions r) (request_prog r req) h"
  by (cases req) (simp_all add: obeys_drop_result obeys_start obeys_end_session obeys_endByOperator
      obeys_reset obeys_touch obeys_touchActivity obeys_getTerminalContext obeys_issueCredentials
      obeys_env_status obeys_sweep obeys_interruptInFlight obeys_interrupt_start obeys_interrupt_reset)

section \<open>States and steps\<close>

record task =
  t_proc :: nat
  t_hist :: history
  t_prog :: "unit prog"

record system =
  s_store :: InMemorySessionStore
  s_procs :: "nat \<Rightarrow> process"
  s_tasks :: "nat \<rightharpoonup> task"
  s_issued :: "string set"
  s_stored :: "string set"
  s_notified :: "string \<Rightarrow> nat"

definition init_system :: system where
  "init_system = \<lparr>s_store = new_store None, s_procs = (\<lambda>_. fresh_process), s_tasks = Map.empty,
     s_issued = {}, s_stored = {}, s_notified = (\<lambda>_. 0)\<rparr>"

abbreviation row :: "system \<Rightarrow> string \<Rightarrow> LabSession option" where
  "row s sid \<equiv> store_get (s_store s) sid"

definition advance :: "nat \<Rightarrow> task \<Rightarrow> call \<Rightarrow> resp \<Rightarrow> unit prog \<Rightarrow> system \<Rightarrow> system" where
  "advance i t c a p s = s\<lparr>s_tasks := (s_tasks s)(i \<mapsto> t\<lparr>t_hist := t_hist t @ [(c, a)], t_prog := p\<rparr>)\<rparr>"

definition with_store :: "InMemorySessionStore \<Rightarrow> system \<Rightarrow> system" where
  "with_store st s = s\<lparr>s_store := st, s_stored := s_stored s \<union> set (map fst (bySessionId st))\<rparr>"

lemma with_store_eq: "with_store st s = s\<lparr>s_store := st, s_stored := s_stored s \<union> dom (store_get st)\<rparr>"
  by (simp add: with_store_def store_get_def [abs_def] dom_map_of_conv_image_fst)

fun drawn :: "resp \<Rightarrow> string set" where
  "drawn (R_Id sid) = {sid}"
| "drawn _ = {}"

fun announce :: "call \<Rightarrow> (string \<Rightarrow> nat) \<Rightarrow> string \<Rightarrow> nat" where
  "announce (NotifyClosed ev) n = n(ev_sessionId ev := n (ev_sessionId ev) + 1)"
| "announce _ n = n"

inductive sys_step :: "SessionReaper \<Rightarrow> system \<Rightarrow> system \<Rightarrow> bool" for r where
  spawn: "s_tasks s i = None \<Longrightarrow>
    sys_step r s (s\<lparr>s_tasks := (s_tasks s)(i \<mapsto>
      \<lparr>t_proc = pid, t_hist = [], t_prog = request_prog r req\<rparr>)\<rparr>)"
| store_call: "s_tasks s i = Some t \<Longrightarrow> t_prog t = Call c k \<Longrightarrow>
    store_answer c (s_store s) = Some (a, st') \<Longrightarrow>
    sys_step r s (advance i t c a (k a) (with_store st' s))"
| store_lost: "s_tasks s i = Some t \<Longrightarrow> t_prog t = Call c k \<Longrightarrow>
    store_answer c (s_store s) = Some (a, st') \<Longrightarrow> st'' = s_store s \<or> st'' = st' \<Longrightarrow>
    sys_step r s (advance i t c (R_Throw (Rejected msg)) (k (R_Throw (Rejected msg))) (with_store st'' s))"
| process_call: "s_tasks s i = Some t \<Longrightarrow> t_prog t = Call c k \<Longrightarrow>
    store_answer c (s_store s) = None \<Longrightarrow> process_answer c (s_procs s (t_proc t)) = Some (a, pr') \<Longrightarrow>
    sys_step r s (advance i t c a (k a) (s\<lparr>s_procs := (s_procs s)(t_proc t := pr')\<rparr>))"
| env_call: "s_tasks s i = Some t \<Longrightarrow> t_prog t = Call c k \<Longrightarrow> env_may c a \<Longrightarrow>
    drawn a \<inter> s_issued s = {} \<Longrightarrow>
    sys_step r s (advance i t c a (k a)
      (s\<lparr>s_issued := s_issued s \<union> drawn a, s_notified := announce c (s_notified s)\<rparr>))"
| finish: "s_tasks s i = Some t \<Longrightarrow> t_prog t = Return () \<or> t_prog t = Throw e \<Longrightarrow>
    sys_step r s (s\<lparr>s_tasks := (s_tasks s)(i := None)\<rparr>)"
| crash: "sys_step r s (s\<lparr>s_procs := (s_procs s)(pid := fresh_process),
      s_tasks := (\<lambda>i. case s_tasks s i of Some t \<Rightarrow> if t_proc t = pid then None else Some t | None \<Rightarrow> None)\<rparr>)"

definition reachable :: "SessionReaper \<Rightarrow> system \<Rightarrow> bool" where
  "reachable r s \<longleftrightarrow> (sys_step r)\<^sup>*\<^sup>* init_system s"

section \<open>What a store call does to the rows\<close>

text \<open>Every store call a request makes, as one of four effects on the rows.\<close>

lemma store_answer_cases:
  assumes "store_answer c st = Some (a, st')" and "mem_invar st" and "call_ok m h c"
  obtains (read) "st' = st" "\<And>new limits. c \<noteq> StoreCreateWithinLimits new limits"
    | (moved) sid "from" to patch guard cur nxt where
        "c = StoreTransition sid from to patch guard" "store_get st sid = Some cur"
        "a = R_Session (Some nxt)" "store_get st' = (store_get st)(sid \<mapsto> nxt)"
        "moved cur to patch nxt" "transition_allowed cur from guard" "mem_invar st'"
    | (touched) sid at cur where
        "c = StoreTouchActivity sid at" "store_get st sid = Some cur" "acceptsActivity (status cur)"
        "a = R_Session (Some (cur\<lparr>lastActivityAt := at\<rparr>))"
        "store_get st' = (store_get st)(sid \<mapsto> cur\<lparr>lastActivityAt := at\<rparr>)" "mem_invar st'"
    | (deleted) sid where
        "c = StoreDelete sid" "a = R_Unit" "store_get st' = (store_get st)(sid := None)" "mem_invar st'"
    | (admitted) s limits u where
        "c = StoreCreateWithinLimits s limits" "a = R_Decision Admitted"
        "createWithinLimits st s limits = (Inr Admitted, st')"
        "store_get st (sessionId s) = None" 
        "store_get st' = (store_get st)(sessionId s \<mapsto> s\<lparr>shellUid := Some u\<rparr>)" "mem_invar st'"
    | (refused) s limits where
        "c = StoreCreateWithinLimits s limits" "a \<noteq> R_Decision Admitted"
        "store_get st' = store_get st" "mem_invar st'"
proof (cases c)
  case (StoreTransition sid "from" to patch guard)
  obtain res st2 where tr: "store_transition st sid from to patch guard = (res, st2)" by fastforce
  with assms(1) StoreTransition have a: "a = R_Session res" "st' = st2" by (auto simp: store_answer_def)
  from assms(2) tr show thesis
  proof (cases rule: mem.transition_cases)
    case miss
    with a StoreTransition read show thesis by simp
  next
    case (hit cur nxt)
    with a StoreTransition moved show thesis by simp
  qed
next
  case (StoreTouchActivity sid at)
  obtain res st2 where tr: "store_touchActivity st sid at = (res, st2)" by fastforce
  with assms(1) StoreTouchActivity have a: "a = R_Session res" "st' = st2" by (auto simp: store_answer_def)
  from assms(2) tr show thesis
  proof (cases rule: mem.touch_cases)
    case miss
    with a StoreTouchActivity read show thesis by simp
  next
    case (hit cur)
    with a StoreTouchActivity touched show thesis by simp
  qed
next
  case (StoreDelete sid)
  with assms(1) have "a = R_Unit" "st' = store_delete st sid" by (auto simp: store_answer_def)
  with mem.remove_rows [OF assms(2), of sid] StoreDelete deleted show thesis by simp
next
  case (StoreCreateWithinLimits s limits)
  obtain res st2 where tr: "createWithinLimits st s limits = (res, st2)" by fastforce
  have wf: "wf_new s" using assms(3) StoreCreateWithinLimits by (simp add: call_ok_def candidate_ok_def)
  from assms(2) wf tr show thesis
  proof (cases rule: mem.admit_cases)
    case no
    with assms(1) tr StoreCreateWithinLimits refused show thesis
      by (cases res) (auto simp: store_answer_def)
  next
    case (yes u)
    with assms(1) tr StoreCreateWithinLimits admitted show thesis by (auto simp: store_answer_def)
  qed
qed (use assms(1) read in \<open>auto simp: store_answer_def split: prod.splits\<close>)

lemma store_answer_ok:
  assumes "store_answer c st = Some (a, st')" and "mem_invar st"
  shows "answer_ok c a"
proof (cases c)
  case (StoreGet sid)
  with assms show ?thesis
    by (auto simp: store_answer_def answer_ok_def split: option.splits dest: mem.row_id)
next
  case (StoreTransition sid "from" to patch guard)
  obtain res st2 where tr: "store_transition st sid from to patch guard = (res, st2)" by fastforce
  with assms(1) StoreTransition have a: "a = R_Session res" by (auto simp: store_answer_def)
  from assms(2) tr show ?thesis
  proof (cases rule: mem.transition_cases)
    case miss
    with a show ?thesis by (simp add: answer_ok_def)
  next
    case (hit cur nxt)
    with a StoreTransition mem.row_id [OF assms(2) hit(1)] show ?thesis
      by (simp add: answer_ok_def moved_def same_identity_def)
  qed
next
  case (StoreTouchActivity sid at)
  obtain res st2 where tr: "store_touchActivity st sid at = (res, st2)" by fastforce
  with assms(1) StoreTouchActivity have a: "a = R_Session res" by (auto simp: store_answer_def)
  from assms(2) tr show ?thesis
  proof (cases rule: mem.touch_cases)
    case miss
    with a show ?thesis by (simp add: answer_ok_def)
  next
    case (hit cur)
    with a StoreTouchActivity mem.row_id [OF assms(2) hit(1)] show ?thesis by (simp add: answer_ok_def)
  qed
qed (auto simp: answer_ok_def split: resp.splits option.splits)

lemma other_answer_ok:
  "process_answer c pr = Some (a, pr') \<Longrightarrow> answer_ok c a"
  "env_may c a \<Longrightarrow> answer_ok c a"
  "answer_ok c (R_Throw e)"
  by (auto simp: answer_ok_def process_answer_def env_may_def is_rejection_def
      split: call.splits resp.splits option.splits)

section \<open>Facts that stay true\<close>

definition torn :: "system \<Rightarrow> string \<Rightarrow> bool" where
  "torn s sid \<longleftrightarrow> sid \<in> s_stored s \<and> (\<forall>x. row s sid = Some x \<longrightarrow> isTeardownOwned (status x))"

definition over :: "system \<Rightarrow> string \<Rightarrow> bool" where
  "over s sid \<longleftrightarrow> sid \<in> s_stored s \<and> (\<forall>x. row s sid = Some x \<longrightarrow> isTerminalStatus (status x))"

text \<open>What a stored row keeps when it changes, and how the rows of a store may change.\<close>

definition kept :: "LabSession \<Rightarrow> LabSession \<Rightarrow> bool" where
  "kept x y \<longleftrightarrow> same_identity x y \<and> expiresAt y = expiresAt x \<and>
     idleTimeoutSeconds y = idleTimeoutSeconds x \<and>
     (lifecycle_edge (status x) (status y) \<or>
      status y = status x \<and> acceptsActivity (status x) \<and> y = x\<lparr>lastActivityAt := lastActivityAt y\<rparr>)"

inductive row_step :: "string set \<Rightarrow> (string \<rightharpoonup> LabSession) \<Rightarrow> (string \<rightharpoonup> LabSession) \<Rightarrow> bool"
  for stored rows where
  same: "row_step stored rows rows"
| changed: "rows sid = Some cur \<Longrightarrow> kept cur nxt \<Longrightarrow> row_step stored rows (rows(sid \<mapsto> nxt))"
| dropped: "(\<And>x. rows sid = Some x \<Longrightarrow> isTerminalStatus (status x)) \<Longrightarrow>
    row_step stored rows (rows(sid := None))"
| opened: "sid \<notin> stored \<Longrightarrow> sessionId new = sid \<Longrightarrow> status new = CREATING \<Longrightarrow>
    row_step stored rows (rows(sid \<mapsto> new))"

inductive_cases row_stepE: "row_step stored rows rows'"

lemma row_step_torn:
  assumes "row_step (s_stored s) (store_get (s_store s)) (store_get st')" and "torn s sid"
  shows "torn (with_store st' s) sid"
  using assms
proof cases
  case (changed sid' cur nxt)
  have "isTeardownOwned (status nxt)" if "isTeardownOwned (status cur)"
    using changed(3) that lifecycle_edge_teardown activity_not_teardown by (auto simp: kept_def)
  with changed assms(2) show ?thesis by (auto simp: torn_def with_store_eq)
qed (use assms(2) in \<open>auto simp: torn_def with_store_eq\<close>)

lemma row_step_over:
  assumes "row_step (s_stored s) (store_get (s_store s)) (store_get st')" and "over s sid"
  shows "over (with_store st' s) sid"
  using assms
proof cases
  case (changed sid' cur nxt)
  have "\<not> isTerminalStatus (status cur)"
    using changed(3) lifecycle_edge_terminal activity_not_teardown
    by (auto simp: kept_def isTeardownOwned_def)
  with changed assms(2) show ?thesis by (auto simp: over_def with_store_eq)
qed (use assms(2) in \<open>auto simp: over_def with_store_eq\<close>)

section \<open>The invariant\<close>

text \<open>An id drawn but not yet offered to the store, and a closing recorded but not yet announced.\<close>

definition pending_draw :: "history \<Rightarrow> string \<Rightarrow> bool" where
  "pending_draw h sid \<longleftrightarrow> (\<exists>h0. h = h0 @ [(RandomSessionId, R_Id sid)] \<or>
     (\<exists>ref a. h = h0 @ [(RandomSessionId, R_Id sid), (StoreFindBySandboxRef ref, a)]))"

definition owes :: "history \<Rightarrow> string \<Rightarrow> bool" where
  "owes h sid \<longleftrightarrow> (\<exists>h0 from to patch guard x.
     h = h0 @ [(StoreTransition sid from to patch guard, R_Session (Some x))] \<and> (to = ENDED \<or> to = EXPIRED))"

definition hist_true :: "system \<Rightarrow> history \<Rightarrow> bool" where
  "hist_true s h \<longleftrightarrow>
     (\<forall>sid. known h sid \<longrightarrow> sid \<in> s_stored s) \<and>
     (\<forall>sid. seen_torn h sid \<longrightarrow> torn s sid) \<and>
     (\<forall>sid. saw_finished h sid \<longrightarrow> over s sid)"

definition task_inv :: "SessionReaper \<Rightarrow> system \<Rightarrow> task \<Rightarrow> bool" where
  "task_inv r s t \<longleftrightarrow>
     obeys (sessions r) (t_prog t) (t_hist t) \<and> hist_true s (t_hist t) \<and>
     (\<forall>sid. pending_draw (t_hist t) sid \<longrightarrow> sid \<in> s_issued s - s_stored s) \<and>
     (\<forall>sid. owes (t_hist t) sid \<longrightarrow> over s sid \<and> s_notified s sid = 0)"

definition apart :: "(nat \<rightharpoonup> task) \<Rightarrow> bool" where
  "apart ts \<longleftrightarrow> (\<forall>i j ti tj sid. ts i = Some ti \<longrightarrow> ts j = Some tj \<longrightarrow> i \<noteq> j \<longrightarrow>
     \<not> (pending_draw (t_hist ti) sid \<and> pending_draw (t_hist tj) sid) \<and>
     \<not> (owes (t_hist ti) sid \<and> owes (t_hist tj) sid))"

definition store_inv :: "SessionReaper \<Rightarrow> system \<Rightarrow> bool" where
  "store_inv r s \<longleftrightarrow>
     mem_invar (s_store s) \<and> dom (store_get (s_store s)) \<subseteq> s_stored s \<and> s_stored s \<subseteq> s_issued s \<and>
     int (card (occupying_ids (store_get (s_store s)))) \<le> max 0 (maxActiveSessions (lifetimes (sessions r))) \<and>
     (\<forall>d ow. maxActiveSessionsPerStudent (lifetimes (sessions r)) = Some d \<longrightarrow>
        int (card (owner_ids (store_get (s_store s)) ow)) \<le> max 0 d) \<and>
     (\<forall>sid. s_notified s sid \<le> 1 \<and> (s_notified s sid = 1 \<longrightarrow> over s sid))"

definition sys_inv :: "SessionReaper \<Rightarrow> system \<Rightarrow> bool" where
  "sys_inv r s \<longleftrightarrow> store_inv r s \<and> apart (s_tasks s) \<and> (\<forall>i t. s_tasks s i = Some t \<longrightarrow> task_inv r s t)"

lemma last_entry:
  "pending_draw (h @ [(c, a)]) sid \<longleftrightarrow>
     c = RandomSessionId \<and> a = R_Id sid \<or>
     (\<exists>ref h0. c = StoreFindBySandboxRef ref \<and> h = h0 @ [(RandomSessionId, R_Id sid)])"
  "owes (h @ [(c, a)]) sid \<longleftrightarrow>
     (\<exists>from to patch guard x. c = StoreTransition sid from to patch guard \<and>
        a = R_Session (Some x) \<and> (to = ENDED \<or> to = EXPIRED))"
proof -
  have "(h @ [(c, a)] = h0 @ [x, y]) = (h = h0 @ [x] \<and> y = (c, a))" for h0 x y
    using append1_eq_conv [of h "(c, a)" "h0 @ [x]" y] by auto
  then show "pending_draw (h @ [(c, a)]) sid \<longleftrightarrow>
     c = RandomSessionId \<and> a = R_Id sid \<or>
     (\<exists>ref h0. c = StoreFindBySandboxRef ref \<and> h = h0 @ [(RandomSessionId, R_Id sid)])"
    unfolding pending_draw_def by auto
qed (auto simp: owes_def)

lemma init_inv: "sys_inv r init_system"
proof -
  have "mem_invar (new_store None)" by (rule mem_invar_new)
  moreover have "store_get (new_store None) = Map.empty"
    by (simp add: store_get_def [abs_def] new_store_def fun_eq_iff)
  ultimately show ?thesis
    by (simp add: sys_inv_def store_inv_def init_system_def apart_def over_def occupying_ids_def owner_ids_def)
qed

text \<open>A store call of a request that is judged by the protocol changes rows only as allowed.\<close>

lemma store_call_row_step:
  assumes inv: "sys_inv r s" and i: "s_tasks s i = Some t" and c: "t_prog t = Call c k"
    and ans: "store_answer c (s_store s) = Some (a, st')"
  shows "row_step (s_stored s) (store_get (s_store s)) (store_get st') \<and> mem_invar st'"
proof -
  have mi: "mem_invar (s_store s)" and ti: "task_inv r s t"
    using inv i by (auto simp: sys_inv_def store_inv_def)
  then have ok: "call_ok (sessions r) (t_hist t) c" using c by (auto simp: task_inv_def dest: sat_step)
  from ans mi ok show ?thesis
  proof (cases rule: store_answer_cases)
    case read
    with mi show ?thesis by (auto intro: row_step.same)
  next
    case (moved sid "from" to patch guard cur nxt)
    then have "lifecycle_edge (status cur) to" "p_expiresAt patch = None" "p_idleTimeoutSeconds patch = None"
      using ok by (auto simp: call_ok_def transition_ok_def patch_ok_def transition_allowed_def)
    with moved(5) have "kept cur nxt" by (auto simp: kept_def moved_def)
    with moved show ?thesis by (auto intro: row_step.changed)
  next
    case (touched sid at cur)
    then have "kept cur (cur\<lparr>lastActivityAt := at\<rparr>)" by (simp add: kept_def same_identity_def)
    with touched show ?thesis by (auto intro: row_step.changed)
  next
    case (deleted sid)
    then have "over s sid" using ok ti by (auto simp: call_ok_def task_inv_def hist_true_def)
    with deleted show ?thesis by (auto simp: over_def intro: row_step.dropped)
  next
    case (admitted new limits u)
    then have cand: "candidate_ok (sessions r) (t_hist t) new" using ok by (simp add: call_ok_def)
    then have "pending_draw (t_hist t) (sessionId new)" unfolding candidate_ok_def pending_draw_def by blast
    then have "sessionId new \<notin> s_stored s" using ti by (auto simp: task_inv_def)
    with admitted cand show ?thesis
      by (auto simp: candidate_ok_def intro: row_step.opened)
  next
    case (refused new limits)
    then show ?thesis by (auto intro: row_step.same)
  qed
qed

section \<open>The invariant is kept\<close>

lemma known_snoc:
  "known (h @ [(c, a)]) sid \<longleftrightarrow> known h sid \<or>
     (\<exists>new limits. c = StoreCreateWithinLimits new limits \<and> a = R_Decision Admitted \<and> sessionId new = sid) \<or>
     (\<exists>x. c = StoreGet sid \<and> a = R_Session (Some x))"
  unfolding known_def holds_start_def by auto

lemma seen_torn_snoc:
  "seen_torn (h @ [(c, a)]) sid \<longleftrightarrow> seen_torn h sid \<or>
     (\<exists>from to patch guard x. c = StoreTransition sid from to patch guard \<and> a = R_Session (Some x) \<and>
        (to = ENDING \<or> to = EXPIRING)) \<or>
     (\<exists>x. c = StoreGet sid \<and> a = R_Session (Some x) \<and> isTeardownOwned (status x)) \<or>
     (c = StoreGet sid \<and> a = R_Session None \<and> known h sid)"
proof -
  have "(\<exists>h1 h2. h @ [(c, a)] = h1 @ (StoreGet sid, R_Session None) # h2 \<and> known h1 sid) \<longleftrightarrow>
      (\<exists>h1 h2. h = h1 @ (StoreGet sid, R_Session None) # h2 \<and> known h1 sid) \<or>
      (c = StoreGet sid \<and> a = R_Session None \<and> known h sid)" (is "?L = ?R")
  proof
    assume ?L
    then obtain h1 h2 where e: "h @ [(c, a)] = h1 @ (StoreGet sid, R_Session None) # h2" and k: "known h1 sid"
      by blast
    from e k show ?R by (cases h2 rule: rev_cases) auto
  next
    assume ?R
    then show ?L
    proof
      assume "\<exists>h1 h2. h = h1 @ (StoreGet sid, R_Session None) # h2 \<and> known h1 sid"
      then obtain h1 h2 where "h @ [(c, a)] = h1 @ (StoreGet sid, R_Session None) # (h2 @ [(c, a)])" "known h1 sid"
        by auto
      then show ?L by blast
    qed blast
  qed
  then show ?thesis unfolding seen_torn_def
    by (simp add: ex_disj_distrib conj_disj_distribR) blast
qed

lemma saw_finished_snoc:
  "saw_finished (h @ [(c, a)]) sid \<longleftrightarrow> saw_finished h sid \<or>
     (\<exists>ss x. c = StoreList \<and> a = R_Sessions ss \<and> x \<in> set ss \<and> sessionId x = sid \<and> isTerminalStatus (status x))"
  unfolding saw_finished_def by auto

definition preserves :: "system \<Rightarrow> system \<Rightarrow> bool" where
  "preserves s s1 \<longleftrightarrow> (\<forall>sid. torn s sid \<longrightarrow> torn s1 sid) \<and> (\<forall>sid. over s sid \<longrightarrow> over s1 sid) \<and>
     s_stored s \<subseteq> s_stored s1 \<and> s_issued s \<subseteq> s_issued s1"

lemma hist_true_preserves: "preserves s s1 \<Longrightarrow> hist_true s h \<Longrightarrow> hist_true s1 h"
  unfolding preserves_def hist_true_def by blast

lemma preserves_with_store:
  "row_step (s_stored s) (store_get (s_store s)) (store_get st') \<Longrightarrow> preserves s (with_store st' s)"
  unfolding preserves_def using row_step_torn row_step_over by (auto simp: with_store_eq)

definition inert :: "resp \<Rightarrow> bool" where
  "inert a \<longleftrightarrow> (\<forall>x. a \<noteq> R_Session x) \<and> (\<forall>ss. a \<noteq> R_Sessions ss) \<and> (\<forall>d. a \<noteq> R_Decision d)"

lemma hist_true_inert: "inert a \<Longrightarrow> hist_true s h \<Longrightarrow> hist_true s (h @ [(c, a)])"
  by (auto simp: hist_true_def known_snoc seen_torn_snoc saw_finished_snoc inert_def)

lemma advance_simps [simp]:
  "s_store (advance i t c a p s) = s_store s" "s_stored (advance i t c a p s) = s_stored s"
  "s_issued (advance i t c a p s) = s_issued s" "s_notified (advance i t c a p s) = s_notified s"
  "s_tasks (advance i t c a p s) =
     (s_tasks s)(i \<mapsto> t\<lparr>t_hist := t_hist t @ [(c, a)], t_prog := p\<rparr>)"
  "torn (advance i t c a p s) = torn s" "over (advance i t c a p s) = over s"
  "hist_true (advance i t c a p s) = hist_true s"
  by (simp_all add: advance_def torn_def [abs_def] over_def [abs_def] hist_true_def [abs_def])

lemma advance_inv:
  assumes inv: "sys_inv r s" and i: "s_tasks s i = Some t" and c: "t_prog t = Call c k"
    and a: "answer_ok c a" and store: "store_inv r s1" and ts: "s_tasks s1 = s_tasks s"
    and pres: "preserves s s1"
    and others: "\<And>j u sid. j \<noteq> i \<Longrightarrow> s_tasks s j = Some u \<Longrightarrow>
        (pending_draw (t_hist u) sid \<longrightarrow> sid \<notin> s_stored s1 \<and> \<not> pending_draw (t_hist t @ [(c, a)]) sid) \<and>
        (owes (t_hist u) sid \<longrightarrow> s_notified s1 sid = 0 \<and> \<not> owes (t_hist t @ [(c, a)]) sid)"
    and own: "hist_true s1 (t_hist t @ [(c, a)])"
      "\<And>sid. pending_draw (t_hist t @ [(c, a)]) sid \<Longrightarrow> sid \<in> s_issued s1 - s_stored s1"
      "\<And>sid. owes (t_hist t @ [(c, a)]) sid \<Longrightarrow> over s1 sid \<and> s_notified s1 sid = 0"
  shows "sys_inv r (advance i t c a (k a) s1)"
proof -
  let ?t = "t\<lparr>t_hist := t_hist t @ [(c, a)], t_prog := k a\<rparr>"
  have "obeys (sessions r) (t_prog t) (t_hist t)" using inv i by (auto simp: sys_inv_def task_inv_def)
  then have "obeys (sessions r) (k a) (t_hist t @ [(c, a)])" using a unfolding c by (rule sat_step(2))
  then have "task_inv r s1 ?t"
    using own by (simp add: task_inv_def)
  moreover have "task_inv r s1 u" if "j \<noteq> i" "s_tasks s j = Some u" for j u
    using inv others [OF that] that(2) hist_true_preserves [OF pres] pres
    by (auto simp: sys_inv_def task_inv_def preserves_def)
  moreover have "apart ((s_tasks s)(i \<mapsto> ?t))"
    using inv others by (auto simp: sys_inv_def apart_def)
  ultimately show ?thesis
    using store ts by (auto simp: sys_inv_def store_inv_def task_inv_def)
qed

lemma row_step_shrinks:
  assumes "row_step stored rows rows'" and "\<And>sid. sid \<in> dom rows' \<Longrightarrow> sid \<in> stored"
  shows "occupying_ids rows' \<subseteq> occupying_ids rows \<and> owner_ids rows' ow \<subseteq> owner_ids rows ow"
  using assms
proof cases
  case (changed sid cur nxt)
  have "occupiesCapacity (status cur)" "ownerUserId nxt = ownerUserId cur"
    using changed(3) lifecycle_edge_terminal activity_not_teardown
    by (auto simp: kept_def same_identity_def occupies_iff_not_terminal isTeardownOwned_def)
  with changed show ?thesis by (auto simp: occupying_ids_def owner_ids_def split: if_splits)
qed (use assms(2) in \<open>auto simp: occupying_ids_def owner_ids_def split: if_splits\<close>)

lemma store_inv_with_store:
  assumes inv: "sys_inv r s" and i: "s_tasks s i = Some t" and c: "t_prog t = Call c k"
    and ans: "store_answer c (s_store s) = Some (a, st')"
  shows "store_inv r (with_store st' s)"
    and "\<And>sid. sid \<in> dom (store_get st') \<Longrightarrow> sid \<notin> s_stored s \<Longrightarrow> pending_draw (t_hist t) sid"
proof -
  have si: "store_inv r s" and ti: "task_inv r s t" using inv i by (auto simp: sys_inv_def)
  have ok: "call_ok (sessions r) (t_hist t) c" using ti c by (auto simp: task_inv_def dest: sat_step)
  have mi0: "mem_invar (s_store s)" using si by (simp add: store_inv_def)
  have rs: "row_step (s_stored s) (store_get (s_store s)) (store_get st')" and mi: "mem_invar st'"
    using store_call_row_step [OF inv i c ans] by auto
  have new: "pending_draw (t_hist t) sid" if "sid \<in> dom (store_get st')" "sid \<notin> s_stored s" for sid
    using ans mi0 ok
  proof (cases rule: store_answer_cases)
    case (admitted new limits u)
    then have "candidate_ok (sessions r) (t_hist t) new" using ok by (simp add: call_ok_def)
    then have "pending_draw (t_hist t) (sessionId new)" unfolding candidate_ok_def pending_draw_def by blast
    with admitted that si show ?thesis by (auto simp: store_inv_def split: if_splits)
  qed (use that si in \<open>auto simp: store_inv_def split: if_splits\<close>)
  then show "\<And>sid. sid \<in> dom (store_get st') \<Longrightarrow> sid \<notin> s_stored s \<Longrightarrow> pending_draw (t_hist t) sid" .
  let ?M = "max 0 (maxActiveSessions (lifetimes (sessions r)))"
  have fin: "finite (occupying_ids (store_get (s_store s)))" "finite (owner_ids (store_get (s_store s)) ow)" for ow
    using si mem.finite_occupying mem.finite_owner by (auto simp: store_inv_def)
  have cap: "int (card (occupying_ids (store_get st'))) \<le> ?M \<and>
      (\<forall>d ow. maxActiveSessionsPerStudent (lifetimes (sessions r)) = Some d \<longrightarrow>
         int (card (owner_ids (store_get st') ow)) \<le> max 0 d)"
  proof (cases "\<exists>new limits. c = StoreCreateWithinLimits new limits \<and>
      createWithinLimits (s_store s) new limits = (Inr Admitted, st')")
    case True
    then obtain new limits where c': "c = StoreCreateWithinLimits new limits"
        and cw: "createWithinLimits (s_store s) new limits = (Inr Admitted, st')" by blast
    have lim: "limits_ok (sessions r) limits" and wf: "wf_new new"
      using ok c' by (auto simp: call_ok_def candidate_ok_def)
    have "int (card (occupying_ids (store_get st'))) \<le> ?M"
      by (rule mem.admit_capacity [OF mi0 wf cw]) (use si lim in \<open>auto simp: store_inv_def limits_ok_def\<close>)
    moreover have "int (card (owner_ids (store_get st') ow)) \<le> max 0 d"
      if "maxActiveSessionsPerStudent (lifetimes (sessions r)) = Some d" for d ow
    proof -
      from lim that obtain k' where "maxOccupyingPerOwner limits = Some k'" "k' \<le> max 0 d"
        by (auto simp: limits_ok_def)
      with si that show ?thesis
        by (intro mem.admit_owner_capacity [OF mi0 wf cw]) (auto simp: store_inv_def)
    qed
    ultimately show ?thesis by blast
  next
    case False
    have dom: "sid \<in> s_stored s" if "sid \<in> dom (store_get st')" for sid
      using ans mi0 ok
    proof (cases rule: store_answer_cases)
      case (admitted new limits u)
      with False show ?thesis by blast
    qed (use that si in \<open>auto simp: store_inv_def split: if_splits\<close>)
    from row_step_shrinks [OF rs dom] fin si show ?thesis
      unfolding store_inv_def by (meson card_mono int_ops(1) of_nat_le_iff order_trans)
  qed
  have "dom (store_get st') \<subseteq> s_issued s"
  proof
    fix sid
    assume "sid \<in> dom (store_get st')"
    with new [of sid] ti si show "sid \<in> s_issued s"
      unfolding task_inv_def store_inv_def by (cases "sid \<in> s_stored s") blast+
  qed
  with si mi cap row_step_over [OF rs] show "store_inv r (with_store st' s)"
    by (auto simp: store_inv_def with_store_eq)
qed

lemma with_store_simps [simp]:
  "s_tasks (with_store st s) = s_tasks s" "s_notified (with_store st s) = s_notified s"
  "s_issued (with_store st s) = s_issued s" "s_store (with_store st s) = st"
  "s_stored (with_store st s) = s_stored s \<union> dom (store_get st)"
  by (simp_all add: with_store_eq)

text \<open>Other requests are untouched by a store call, unless it closes what they announce.\<close>

lemma others_after_store:
  assumes inv: "sys_inv r s" and i: "s_tasks s i = Some t" and c: "t_prog t = Call c k"
    and ans: "store_answer c (s_store s) = Some (a, st')"
    and j: "j \<noteq> i" "s_tasks s j = Some u" and p: "pending_draw (t_hist u) sid"
  shows "sid \<notin> s_stored (with_store st' s)"
proof -
  have "sid \<notin> s_stored s" using inv j p by (auto simp: sys_inv_def task_inv_def)
  moreover have "\<not> pending_draw (t_hist t) sid"
    using inv i j p unfolding sys_inv_def apart_def by blast
  ultimately show ?thesis
    using store_inv_with_store(2) [OF inv i c ans, of sid] by auto
qed

lemma closing_was_live:
  assumes inv: "sys_inv r s" and i: "s_tasks s i = Some t" and c: "t_prog t = Call c k"
    and ans: "store_answer c (s_store s) = Some (a, st')" and o: "owes (t_hist t @ [(c, a)]) sid"
  shows "\<not> over s sid \<and> over (with_store st' s) sid"
proof -
  have si: "store_inv r s" and ti: "task_inv r s t" using inv i by (auto simp: sys_inv_def)
  have ok: "call_ok (sessions r) (t_hist t) c" using ti c by (auto simp: task_inv_def dest: sat_step)
  from o obtain "from" to patch guard x where c': "c = StoreTransition sid from to patch guard"
      and a: "a = R_Session (Some x)" and to: "to = ENDED \<or> to = EXPIRED" by (auto simp: last_entry)
  have mi: "mem_invar (s_store s)" using si by (simp add: store_inv_def)
  obtain res st2 where tr: "store_transition (s_store s) sid from to patch guard = (res, st2)" by fastforce
  with ans c' a have st2: "res = Some x" "st2 = st'" by (auto simp: store_answer_def)
  from mi tr show ?thesis
  proof (cases rule: mem.transition_cases)
    case miss
    with st2 show ?thesis by simp
  next
    case (hit cur nxt)
    then have "\<not> isTerminalStatus (status cur)"
      using ok c' lifecycle_edge_terminal by (auto simp: call_ok_def transition_ok_def transition_allowed_def)
    moreover have "status nxt = to" using hit by (simp add: moved_def)
    ultimately show ?thesis
      using hit st2 to by (auto simp: over_def status_defs)
  qed
qed

lemma hist_true_store:
  assumes inv: "sys_inv r s" and i: "s_tasks s i = Some t" and c: "t_prog t = Call c k"
    and ans: "store_answer c (s_store s) = Some (a, st')"
  shows "hist_true (with_store st' s) (t_hist t @ [(c, a)])"
proof -
  let ?s1 = "with_store st' s" and ?h = "t_hist t"
  have si: "store_inv r s" and ti: "task_inv r s t" using inv i by (auto simp: sys_inv_def)
  have mi: "mem_invar (s_store s)" using si by (simp add: store_inv_def)
  have ok: "call_ok (sessions r) ?h c" using ti c by (auto simp: task_inv_def dest: sat_step)
  have pres: "preserves s ?s1"
    using store_call_row_step [OF inv i c ans] by (auto intro: preserves_with_store)
  have old: "hist_true ?s1 ?h" using ti hist_true_preserves [OF pres] by (simp add: task_inv_def)
  have get: "a = R_Session (row s sid) \<and> st' = s_store s" if "c = StoreGet sid" for sid
    using ans that by (auto simp: store_answer_def)
  have "sid \<in> s_stored ?s1" if kn: "known (?h @ [(c, a)]) sid" for sid
  proof -
    consider "known ?h sid" | new limits where "c = StoreCreateWithinLimits new limits"
        "a = R_Decision Admitted" "sessionId new = sid" | x where "c = StoreGet sid" "a = R_Session (Some x)"
      using kn unfolding known_snoc by blast
    then show ?thesis
    proof cases
      case 1
      with old show ?thesis by (simp add: hist_true_def)
    next
      case 2
      from ans mi ok 2 show ?thesis by (cases rule: store_answer_cases) (auto simp: store_answer_def split: prod.splits sum.splits)
    next
      case 3
      then have "row s sid = Some x" "st' = s_store s" using get [OF 3(1)] by auto
      then show ?thesis by auto
    qed
  qed
  moreover have "torn ?s1 sid" if sn: "seen_torn (?h @ [(c, a)]) sid" for sid
  proof -
    consider "seen_torn ?h sid"
      | "from" to patch guard x where "c = StoreTransition sid from to patch guard" "a = R_Session (Some x)"
          "to = ENDING \<or> to = EXPIRING"
      | x where "c = StoreGet sid" "a = R_Session (Some x)" "isTeardownOwned (status x)"
      | "c = StoreGet sid" "a = R_Session None" "known ?h sid"
      using sn unfolding seen_torn_snoc by blast
    then show ?thesis
    proof cases
      case 1
      with old show ?thesis by (simp add: hist_true_def)
    next
      case 2
      obtain res st2 where tr: "store_transition (s_store s) sid from to patch guard = (res, st2)" by fastforce
      with ans 2 have st2: "res = Some x" "st2 = st'" by (auto simp: store_answer_def)
      from mi tr show ?thesis
        by (cases rule: mem.transition_cases) (use st2 2(3) in \<open>auto simp: torn_def moved_def status_defs\<close>)
    next
      case 3
      then have "row s sid = Some x" "st' = s_store s" using get [OF 3(1)] by auto
      with 3 show ?thesis by (auto simp: torn_def)
    next
      case 4
      with get [OF 4(1)] old show ?thesis by (auto simp: torn_def hist_true_def)
    qed
  qed
  moreover have "over ?s1 sid" if "saw_finished (?h @ [(c, a)]) sid" for sid
  proof (cases "saw_finished ?h sid")
    case True
    with old show ?thesis by (simp add: hist_true_def)
  next
    case False
    with that obtain ss x where l: "c = StoreList" "a = R_Sessions ss" "x \<in> set ss" "sessionId x = sid"
        "isTerminalStatus (status x)" unfolding saw_finished_snoc by blast
    with ans have "ss = store_list (s_store s)" "st' = s_store s" by (auto simp: store_answer_def)
    with l mi have "row s sid = Some x"
      by (auto simp: store_list_def mem_invar_def store_get_def)
    with l \<open>st' = s_store s\<close> show ?thesis by (auto simp: over_def)
  qed
  ultimately show ?thesis by (simp add: hist_true_def)
qed

lemma inv_store_call:
  assumes inv: "sys_inv r s" and i: "s_tasks s i = Some t" and c: "t_prog t = Call c k"
    and ans: "store_answer c (s_store s) = Some (a, st')"
  shows "sys_inv r (advance i t c a (k a) (with_store st' s))"
proof (rule advance_inv [OF inv i c])
  have si: "store_inv r s" and ti: "task_inv r s t" using inv i by (auto simp: sys_inv_def)
  show "answer_ok c a" using store_answer_ok [OF ans] si by (simp add: store_inv_def)
  show "store_inv r (with_store st' s)" by (rule store_inv_with_store(1) [OF inv i c ans])
  show "preserves s (with_store st' s)"
    using store_call_row_step [OF inv i c ans] by (auto intro: preserves_with_store)
  show "hist_true (with_store st' s) (t_hist t @ [(c, a)])" by (rule hist_true_store [OF inv i c ans])
  have notid: "c \<noteq> RandomSessionId" using ans by (auto simp: store_answer_def)
  have draw: "st' = s_store s \<and> pending_draw (t_hist t) sid" if "pending_draw (t_hist t @ [(c, a)]) sid" for sid
    using that ans notid unfolding last_entry by (auto simp: store_answer_def pending_draw_def)
  show "sid \<in> s_issued (with_store st' s) - s_stored (with_store st' s)"
    if "pending_draw (t_hist t @ [(c, a)]) sid" for sid
    using draw [OF that] ti si by (auto simp: task_inv_def store_inv_def)
  show "over (with_store st' s) sid \<and> s_notified (with_store st' s) sid = 0"
    if "owes (t_hist t @ [(c, a)]) sid" for sid
  proof -
    from closing_was_live [OF inv i c ans that] have live: "\<not> over s sid" "over (with_store st' s) sid" by auto
    then have "s_notified s sid \<noteq> 1 \<and> s_notified s sid \<le> 1" using si by (auto simp: store_inv_def)
    then show ?thesis using live(2) by simp
  qed
  fix j u sid
  assume j: "j \<noteq> i" "s_tasks s j = Some u"
  have tu: "task_inv r s u" using inv j by (auto simp: sys_inv_def)
  have "\<not> owes (t_hist t @ [(c, a)]) sid" if "owes (t_hist u) sid"
    using closing_was_live [OF inv i c ans] tu that unfolding task_inv_def by blast
  moreover have "\<not> pending_draw (t_hist t @ [(c, a)]) sid" if "pending_draw (t_hist u) sid"
    using draw inv i j that unfolding sys_inv_def apart_def by blast
  ultimately show "(pending_draw (t_hist u) sid \<longrightarrow> sid \<notin> s_stored (with_store st' s) \<and>
        \<not> pending_draw (t_hist t @ [(c, a)]) sid) \<and>
      (owes (t_hist u) sid \<longrightarrow> s_notified (with_store st' s) sid = 0 \<and>
        \<not> owes (t_hist t @ [(c, a)]) sid)"
    using others_after_store [OF inv i c ans j] tu by (simp add: task_inv_def)
qed simp

text \<open>A step whose answer adds no fact: a lost store answer, a process call, an environment call.\<close>

lemma inv_inert:
  assumes inv: "sys_inv r s" and i: "s_tasks s i = Some t" and c: "t_prog t = Call c k"
    and a: "answer_ok c a" "inert a" and store: "store_inv r s1" and ts: "s_tasks s1 = s_tasks s"
    and pres: "preserves s s1"
    and others: "\<And>j u sid. j \<noteq> i \<Longrightarrow> s_tasks s j = Some u \<Longrightarrow>
        (pending_draw (t_hist u) sid \<longrightarrow> sid \<notin> s_stored s1 \<and> \<not> pending_draw (t_hist t @ [(c, a)]) sid) \<and>
        (owes (t_hist u) sid \<longrightarrow> s_notified s1 sid = 0)"
    and own: "\<And>sid. pending_draw (t_hist t @ [(c, a)]) sid \<Longrightarrow> sid \<in> s_issued s1 - s_stored s1"
  shows "sys_inv r (advance i t c a (k a) s1)"
proof (rule advance_inv [OF inv i c a(1) store ts pres])
  have no: "\<not> owes (t_hist t @ [(c, a)]) sid" for sid
    using a(2) unfolding last_entry by (auto simp: inert_def)
  then show "over s1 sid \<and> s_notified s1 sid = 0" if "owes (t_hist t @ [(c, a)]) sid" for sid
    using that by blast
  have "hist_true s1 (t_hist t)"
    using inv i hist_true_preserves [OF pres] by (auto simp: sys_inv_def task_inv_def)
  then show "hist_true s1 (t_hist t @ [(c, a)])" by (rule hist_true_inert [OF a(2)])
  show "sid \<in> s_issued s1 - s_stored s1" if "pending_draw (t_hist t @ [(c, a)]) sid" for sid
    by (rule own [OF that])
  show "(pending_draw (t_hist u) sid \<longrightarrow> sid \<notin> s_stored s1 \<and> \<not> pending_draw (t_hist t @ [(c, a)]) sid) \<and>
      (owes (t_hist u) sid \<longrightarrow> s_notified s1 sid = 0 \<and> \<not> owes (t_hist t @ [(c, a)]) sid)"
    if "j \<noteq> i" "s_tasks s j = Some u" for j u sid
    using others [OF that] no by blast
qed

lemma inert_throw: "inert (R_Throw e)"
  by (simp add: inert_def)

lemma with_store_same: "store_inv r s \<Longrightarrow> with_store (s_store s) s = s"
  by (cases s) (simp add: with_store_eq store_inv_def Un_absorb2)

lemma inv_store_lost:
  assumes inv: "sys_inv r s" and i: "s_tasks s i = Some t" and c: "t_prog t = Call c k"
    and ans: "store_answer c (s_store s) = Some (a, st')" and st: "st'' = s_store s \<or> st'' = st'"
  shows "sys_inv r (advance i t c (R_Throw e) (k (R_Throw e)) (with_store st'' s))"
proof (rule inv_inert [OF inv i c other_answer_ok(3) inert_throw])
  have si: "store_inv r s" and ti: "task_inv r s t" using inv i by (auto simp: sys_inv_def)
  have same: "with_store (s_store s) s = s" by (rule with_store_same [OF si])
  show "store_inv r (with_store st'' s)"
    using st si same store_inv_with_store(1) [OF inv i c ans] by auto
  have "preserves s s" by (simp add: preserves_def)
  then show "preserves s (with_store st'' s)"
    using st same store_call_row_step [OF inv i c ans] preserves_with_store by metis
  have notid: "c \<noteq> RandomSessionId" using ans by (auto simp: store_answer_def)
  have draw: "st' = s_store s \<and> pending_draw (t_hist t) sid"
    if "pending_draw (t_hist t @ [(c, R_Throw e)]) sid" for sid
    using that ans notid unfolding last_entry by (auto simp: store_answer_def pending_draw_def)
  show "sid \<in> s_issued (with_store st'' s) - s_stored (with_store st'' s)"
    if "pending_draw (t_hist t @ [(c, R_Throw e)]) sid" for sid
    using draw [OF that] st same ti by (auto simp: task_inv_def)
  fix j u sid
  assume j: "j \<noteq> i" "s_tasks s j = Some u"
  have tu: "task_inv r s u" using inv j by (auto simp: sys_inv_def)
  have "\<not> pending_draw (t_hist t @ [(c, R_Throw e)]) sid" if "pending_draw (t_hist u) sid"
    using draw inv i j that unfolding sys_inv_def apart_def by blast
  moreover have "sid \<notin> s_stored (with_store st'' s)" if "pending_draw (t_hist u) sid"
    using others_after_store [OF inv i c ans j that] st same tu that by (metis DiffD2 task_inv_def)
  ultimately show "(pending_draw (t_hist u) sid \<longrightarrow> sid \<notin> s_stored (with_store st'' s) \<and>
        \<not> pending_draw (t_hist t @ [(c, R_Throw e)]) sid) \<and>
      (owes (t_hist u) sid \<longrightarrow> s_notified (with_store st'' s) sid = 0)"
    using tu by (simp add: task_inv_def)
qed simp

lemma process_answer_inert: "process_answer c p = Some (a, p') \<Longrightarrow> inert a"
  by (auto simp: process_answer_def inert_def split: call.splits)

lemma env_answer_inert: "env_may c a \<Longrightarrow> inert a"
  by (auto simp: env_may_def is_rejection_def inert_def split: call.splits resp.splits)

lemma inv_process_call:
  assumes inv: "sys_inv r s" and i: "s_tasks s i = Some t" and c: "t_prog t = Call c k"
    and ans: "process_answer c (s_procs s (t_proc t)) = Some (a, pr')"
  shows "sys_inv r (advance i t c a (k a) (s\<lparr>s_procs := procs'\<rparr>))"
proof (rule inv_inert [OF inv i c other_answer_ok(1) [OF ans] process_answer_inert [OF ans]])
  have si: "store_inv r s" using inv by (auto simp: sys_inv_def)
  then show "store_inv r (s\<lparr>s_procs := procs'\<rparr>)" by (simp add: store_inv_def over_def)
  show "preserves s (s\<lparr>s_procs := procs'\<rparr>)" by (simp add: preserves_def torn_def over_def)
  have no: "\<not> pending_draw (t_hist t @ [(c, a)]) sid" for sid
    using ans unfolding last_entry by (auto simp: process_answer_def)
  then show "sid \<in> s_issued (s\<lparr>s_procs := procs'\<rparr>) - s_stored (s\<lparr>s_procs := procs'\<rparr>)"
    if "pending_draw (t_hist t @ [(c, a)]) sid" for sid
    using that by blast
  show "(pending_draw (t_hist u) sid \<longrightarrow> sid \<notin> s_stored (s\<lparr>s_procs := procs'\<rparr>) \<and>
        \<not> pending_draw (t_hist t @ [(c, a)]) sid) \<and>
      (owes (t_hist u) sid \<longrightarrow> s_notified (s\<lparr>s_procs := procs'\<rparr>) sid = 0)"
    if "j \<noteq> i" "s_tasks s j = Some u" for j u sid
    using inv that no by (auto simp: sys_inv_def task_inv_def)
qed simp

lemma announce_cases:
  "announce c n sid = n sid \<or> (\<exists>ev. c = NotifyClosed ev \<and> ev_sessionId ev = sid \<and> announce c n sid = n sid + 1)"
  by (cases c) auto

lemma inv_env_call:
  assumes inv: "sys_inv r s" and i: "s_tasks s i = Some t" and c: "t_prog t = Call c k"
    and ans: "env_may c a" and fresh: "drawn a \<inter> s_issued s = {}"
  shows "sys_inv r (advance i t c a (k a)
      (s\<lparr>s_issued := s_issued s \<union> drawn a, s_notified := announce c (s_notified s)\<rparr>))" (is "sys_inv r (advance i t c a (k a) ?s1)")
proof (rule inv_inert [OF inv i c other_answer_ok(2) [OF ans] env_answer_inert [OF ans]])
  have si: "store_inv r s" and ti: "task_inv r s t" and ap: "apart (s_tasks s)"
    using inv i by (auto simp: sys_inv_def)
  have ok: "call_ok (sessions r) (t_hist t) c" using ti c by (auto simp: task_inv_def dest: sat_step)
  have owed: "owes (t_hist t) (ev_sessionId ev)" if "c = NotifyClosed ev" for ev
    using ok that unfolding call_ok_def announces_def owes_def by auto
  have same: "over ?s1 = over s" "torn ?s1 = torn s" by (simp_all add: over_def [abs_def] torn_def [abs_def])
  have n1: "announce c (s_notified s) sid \<le> 1 \<and> (announce c (s_notified s) sid = 1 \<longrightarrow> over s sid)" for sid
    using announce_cases [of c "s_notified s" sid]
  proof
    assume "announce c (s_notified s) sid = s_notified s sid"
    with si show ?thesis by (simp add: store_inv_def)
  next
    assume "\<exists>ev. c = NotifyClosed ev \<and> ev_sessionId ev = sid \<and> announce c (s_notified s) sid = s_notified s sid + 1"
    with owed ti show ?thesis by (auto simp: task_inv_def)
  qed
  then show "store_inv r ?s1" using si same by (auto simp: store_inv_def)
  show "preserves s ?s1" using same by (auto simp: preserves_def)
  have draw: "a = R_Id sid" if "pending_draw (t_hist t @ [(c, a)]) sid" for sid
    using that ans unfolding last_entry by (auto simp: env_may_def)
  then show "sid \<in> s_issued ?s1 - s_stored ?s1" if "pending_draw (t_hist t @ [(c, a)]) sid" for sid
    using that fresh si by (force simp: store_inv_def)
  fix j u sid
  assume j: "j \<noteq> i" "s_tasks s j = Some u"
  have tu: "task_inv r s u" using inv j by (auto simp: sys_inv_def)
  have "\<not> pending_draw (t_hist t @ [(c, a)]) sid" if "pending_draw (t_hist u) sid"
    using draw [of sid] tu that fresh by (auto simp: task_inv_def)
  moreover have "announce c (s_notified s) sid = 0" if "owes (t_hist u) sid"
    using announce_cases [of c "s_notified s" sid] owed ap i j tu that
    unfolding apart_def task_inv_def by metis
  ultimately show "(pending_draw (t_hist u) sid \<longrightarrow> sid \<notin> s_stored ?s1 \<and>
        \<not> pending_draw (t_hist t @ [(c, a)]) sid) \<and>
      (owes (t_hist u) sid \<longrightarrow> s_notified ?s1 sid = 0)"
    using tu by (auto simp: task_inv_def)
qed simp

lemma task_inv_tasks: "task_inv r (s\<lparr>s_tasks := ts\<rparr>) t = task_inv r s t"
  by (simp add: task_inv_def hist_true_def torn_def over_def)

lemma task_inv_procs: "task_inv r (s\<lparr>s_procs := ps\<rparr>) t = task_inv r s t"
  by (simp add: task_inv_def hist_true_def torn_def over_def)

lemma inv_fewer_tasks:
  assumes "sys_inv r s" and "ts \<subseteq>\<^sub>m s_tasks s"
  shows "sys_inv r (s\<lparr>s_tasks := ts\<rparr>)" and "sys_inv r (s\<lparr>s_procs := ps, s_tasks := ts\<rparr>)"
proof -
  have le: "s_tasks s i = Some t" if "ts i = Some t" for i t
    using assms(2) that by (metis domI map_le_def)
  have "store_inv r (s\<lparr>s_procs := ps, s_tasks := ts\<rparr>)" "store_inv r (s\<lparr>s_tasks := ts\<rparr>)"
    using assms(1) by (simp_all add: sys_inv_def store_inv_def over_def)
  moreover have "apart ts" using assms(1) le unfolding sys_inv_def apart_def by blast
  ultimately show "sys_inv r (s\<lparr>s_tasks := ts\<rparr>)" "sys_inv r (s\<lparr>s_procs := ps, s_tasks := ts\<rparr>)"
    using assms(1) le by (auto simp: sys_inv_def task_inv_tasks task_inv_procs)
qed

lemma empty_history [simp]: "\<not> known [] sid" "\<not> seen_torn [] sid" "\<not> saw_finished [] sid"
  "\<not> pending_draw [] sid" "\<not> owes [] sid"
  by (simp_all add: known_def holds_start_def seen_torn_def saw_finished_def pending_draw_def owes_def)

lemma inv_spawn:
  assumes "sys_inv r s" and "s_tasks s i = None"
  shows "sys_inv r (s\<lparr>s_tasks := (s_tasks s)(i \<mapsto> \<lparr>t_proc = pid, t_hist = [], t_prog = request_prog r req\<rparr>)\<rparr>)"
proof -
  let ?t = "\<lparr>t_proc = pid, t_hist = [], t_prog = request_prog r req\<rparr>"
  have "task_inv r s ?t" by (simp add: task_inv_def hist_true_def obeys_request)
  moreover have "store_inv r (s\<lparr>s_tasks := (s_tasks s)(i \<mapsto> ?t)\<rparr>)"
    using assms(1) by (simp add: sys_inv_def store_inv_def over_def)
  moreover have "apart ((s_tasks s)(i \<mapsto> ?t))"
    using assms(1) by (auto simp: sys_inv_def apart_def)
  ultimately show ?thesis using assms(1) by (auto simp: sys_inv_def task_inv_tasks)
qed

lemma sys_step_inv: "sys_step r s s' \<Longrightarrow> sys_inv r s \<Longrightarrow> sys_inv r s'"
proof (induction rule: sys_step.induct)
  case (spawn s i pid req)
  then show ?case by (intro inv_spawn)
next
  case (finish s i t e)
  then show ?case by (intro inv_fewer_tasks(1)) (auto simp: map_le_def)
next
  case (crash s pid)
  then show ?case by (intro inv_fewer_tasks(2)) (auto simp: map_le_def split: option.splits if_splits)
qed (auto intro: inv_store_call inv_store_lost inv_process_call inv_env_call)

lemma reachable_inv: "reachable r s \<Longrightarrow> sys_inv r s"
  unfolding reachable_def
  by (induction rule: rtranclp_induct) (auto intro: init_inv sys_step_inv)

section \<open>A scheduler\<close>

text \<open>
  One task driven for a number of steps by an environment that answers as a function
  of the call; an illegal answer stops it. Every state it produces is reachable.
\<close>

definition drive_step :: "(call \<Rightarrow> resp) \<Rightarrow> nat \<Rightarrow> system \<Rightarrow> system" where
  "drive_step env i s = (case s_tasks s i of
       None \<Rightarrow> s
     | Some t \<Rightarrow>
         (case t_prog t of
            Call c k \<Rightarrow>
              (case store_answer c (s_store s) of
                 Some (a, st') \<Rightarrow> advance i t c a (k a) (with_store st' s)
               | None \<Rightarrow>
                   (case process_answer c (s_procs s (t_proc t)) of
                      Some (a, pr') \<Rightarrow> advance i t c a (k a) (s\<lparr>s_procs := (s_procs s)(t_proc t := pr')\<rparr>)
                    | None \<Rightarrow>
                        if env_may c (env c) \<and> drawn (env c) \<inter> s_issued s = {}
                        then advance i t c (env c) (k (env c))
                               (s\<lparr>s_issued := s_issued s \<union> drawn (env c),
                                  s_notified := announce c (s_notified s)\<rparr>)
                        else s))
          | _ \<Rightarrow> s))"

primrec drive :: "(call \<Rightarrow> resp) \<Rightarrow> nat \<Rightarrow> nat \<Rightarrow> system \<Rightarrow> system" where
  "drive env i 0 s = s"
| "drive env i (Suc n) s = drive env i n (drive_step env i s)"

definition submit :: "SessionReaper \<Rightarrow> nat \<Rightarrow> request \<Rightarrow> system \<Rightarrow> system" where
  "submit r i req s = (if s_tasks s i = None
     then s\<lparr>s_tasks := (s_tasks s)(i \<mapsto> \<lparr>t_proc = 0, t_hist = [], t_prog = request_prog r req\<rparr>)\<rparr> else s)"

lemma reachable_init: "reachable r init_system"
  by (simp add: reachable_def)

lemma reachable_step: "reachable r s \<Longrightarrow> sys_step r s s' \<Longrightarrow> reachable r s'"
  unfolding reachable_def by (rule rtranclp.rtrancl_into_rtrancl)

lemma drive_step_step: "(sys_step r)\<^sup>=\<^sup>= s (drive_step env i s)"
  unfolding drive_step_def
  by (auto split: option.splits prog.splits
      intro: sys_step.store_call sys_step.process_call sys_step.env_call)

lemma drive_steps: "(sys_step r)\<^sup>*\<^sup>* s (drive env i n s)"
proof (induction n arbitrary: s)
  case (Suc n)
  have "(sys_step r)\<^sup>*\<^sup>* s (drive_step env i s)" using drive_step_step [of r s env i] by (metis r_into_rtranclp rtranclp.rtrancl_refl sup2E)
  with Suc [of "drive_step env i s"] show ?case by simp
qed simp

lemma reachable_steps: "reachable r s \<Longrightarrow> (sys_step r)\<^sup>*\<^sup>* s s' \<Longrightarrow> reachable r s'"
  unfolding reachable_def by (rule rtranclp_trans)

lemma submit_steps: "(sys_step r)\<^sup>*\<^sup>* s (submit r i req s)"
  unfolding submit_def by (auto intro: r_into_rtranclp sys_step.spawn)

lemma drive_add: "drive env i (m + n) s = drive env i n (drive env i m s)"
  by (induction m arbitrary: s) simp_all

end
