(* ===== verification/Session_Safety.thy ===== *)
theory Session_Safety
  imports Session_System
begin

text \<open>
  What holds in every reachable state of the session service, whatever its requests,
  sweeps, processes and providers do: the capacity limits, the lifecycle, that a
  finished session stays finished, that identity and deadline are fixed at admission,
  that a closing is announced at most once, and that sandboxes are destroyed, rebuilt
  and declared gone only with cause. Each property is applied to a concrete run of the
  system, a Start followed by an End, evaluated in the kernel.
\<close>

section \<open>Steps and rows\<close>

lemma sys_step_rows:
  assumes "sys_step r s s'" and "sys_inv r s"
  shows "row_step (s_stored s) (store_get (s_store s)) (store_get (s_store s')) \<and> s_stored s \<subseteq> s_stored s'"
  using assms
proof (induction rule: sys_step.induct)
  case (store_call s i t c k a st')
  then show ?case using store_call_row_step by simp
next
  case (store_lost s i t c k a st' st'' msg)
  then show ?case using store_call_row_step by (auto intro: row_step.same)
qed (auto intro: row_step.same simp: advance_def)

lemma row_step_some:
  assumes "row_step stored rows rows'" and "rows sid = Some x" and "sid \<in> stored"
  shows "rows' sid = Some x \<or> (\<exists>y. rows' sid = Some y \<and> kept x y) \<or>
         (rows' sid = None \<and> isTerminalStatus (status x))"
  using assms by (cases rule: row_step.cases) auto

lemma row_step_none:
  assumes "row_step stored rows rows'" and "rows sid = None" and "rows' sid = Some y"
  shows "sid \<notin> stored \<and> status y = CREATING"
  using assms by (cases rule: row_step.cases) (auto split: if_splits)

lemma kept_live: "kept x y \<Longrightarrow> \<not> isTerminalStatus (status x)"
  using lifecycle_edge_terminal activity_not_teardown by (auto simp: kept_def isTeardownOwned_def)

lemma sys_steps_inv: "(sys_step r)\<^sup>*\<^sup>* s s' \<Longrightarrow> sys_inv r s \<Longrightarrow> sys_inv r s'"
  by (induction rule: rtranclp_induct) (auto intro: sys_step_inv)

lemma stored_dom: "sys_inv r s \<Longrightarrow> row s sid = Some x \<Longrightarrow> sid \<in> s_stored s"
  by (auto simp: sys_inv_def store_inv_def)

text \<open>A session that is gone never comes back, and one that is finished does not change.\<close>

lemma gone_stays:
  assumes "(sys_step r)\<^sup>*\<^sup>* s s'" and "sys_inv r s" and "sid \<in> s_stored s" and "row s sid = None"
  shows "row s' sid = None \<and> sid \<in> s_stored s'"
  using assms(1)
proof (induction rule: rtranclp_induct)
  case base
  with assms show ?case by simp
next
  case (step s1 s2)
  have "sys_inv r s1" using sys_steps_inv [OF step(1) assms(2)] .
  from sys_step_rows [OF step(2) this] step(3) show ?case
    by (auto elim!: row_stepE split: if_splits)
qed

lemma stored_stays:
  assumes "(sys_step r)\<^sup>*\<^sup>* s s'" and "sys_inv r s" and "sid \<in> s_stored s"
  shows "sid \<in> s_stored s'"
  using assms(1)
proof (induction rule: rtranclp_induct)
  case base
  with assms(3) show ?case .
next
  case (step s1 s2)
  with sys_step_rows [OF step(2) sys_steps_inv [OF step(1) assms(2)]] show ?case by blast
qed

lemma gone_next:
  assumes "(sys_step r)\<^sup>*\<^sup>* s s1" and "sys_inv r s" and "row s sid = Some x"
    and "sys_step r s1 s2" and "row s1 sid = None"
  shows "row s2 sid = None"
  using gone_stays [OF r_into_rtranclp [where r = "sys_step r", OF assms(4)] sys_steps_inv [OF assms(1,2)] _ assms(5)]
    stored_stays [OF assms(1,2) stored_dom [OF assms(2,3)]] by blast

lemma finished_stays:
  assumes "(sys_step r)\<^sup>*\<^sup>* s s'" and "sys_inv r s" and "row s sid = Some x" and "isTerminalStatus (status x)"
  shows "row s' sid = Some x \<or> row s' sid = None"
  using assms(1)
proof (induction rule: rtranclp_induct)
  case base
  with assms show ?case by simp
next
  case (step s1 s2)
  have inv: "sys_inv r s1" using sys_steps_inv [OF step(1) assms(2)] .
  have rs: "row_step (s_stored s1) (row s1) (row s2)" and sub: "s_stored s1 \<subseteq> s_stored s2"
    using sys_step_rows [OF step(2) inv] by auto
  show ?case
  proof (cases "row s1 sid")
    case None
    with gone_next [OF step(1) assms(2,3) step(2)] show ?thesis by simp
  next
    case (Some y)
    with step(3) have "y = x" by simp
    from row_step_some [OF rs Some stored_dom [OF inv Some]] show ?thesis
      using assms(4) kept_live unfolding \<open>y = x\<close> by metis
  qed
qed

lemma live_steps:
  assumes "(sys_step r)\<^sup>*\<^sup>* s s'" and "sys_inv r s" and "row s sid = Some x" and "row s' sid = Some y"
  shows "same_identity x y \<and> expiresAt y = expiresAt x \<and> idleTimeoutSeconds y = idleTimeoutSeconds x"
  using assms(1,4)
proof (induction arbitrary: y rule: rtranclp_induct)
  case base
  with assms(3) show ?case by (simp add: same_identity_def)
next
  case (step s1 s2)
  have inv: "sys_inv r s1" using sys_steps_inv [OF step(1) assms(2)] .
  have rs: "row_step (s_stored s1) (row s1) (row s2)" using sys_step_rows [OF step(2) inv] by auto
  show ?case
  proof (cases "row s1 sid")
    case None
    with gone_next [OF step(1) assms(2,3) step(2)] step(4) show ?thesis by simp
  next
    case (Some z)
    with step(3) have xz: "same_identity x z \<and> expiresAt z = expiresAt x \<and>
        idleTimeoutSeconds z = idleTimeoutSeconds x" by simp
    from row_step_some [OF rs Some stored_dom [OF inv Some]] step(4) have "y = z \<or> kept z y"
      by (metis option.distinct(1) option.inject)
    with xz show ?thesis by (auto simp: kept_def same_identity_def)
  qed
qed

lemma countOccupying_card:
  assumes "mem_invar st"
  shows "countOccupying st = card (occupying_ids (store_get st))"
proof -
  have "distinct (map fst (bySessionId st))" using assms by (simp add: mem_invar_def)
  from card_map_count [OF this, of "\<lambda>s. occupiesCapacity (status s)"] show ?thesis
    by (simp add: countOccupying_def listOccupying_def store_list_def store_get_def occupying_ids_def
        count_vals_def filter_map)
qed

lemma ownerOccupying_card:
  assumes "mem_invar st"
  shows "length (listOccupyingForOwner st ow) = card (owner_ids (store_get st) (Some ow))"
proof -
  have "distinct (map fst (bySessionId st))" using assms by (simp add: mem_invar_def)
  from card_map_count [OF this, of "\<lambda>s. occupiesCapacity (status s) \<and> ownerUserId s = Some ow"] show ?thesis
    by (simp add: listOccupyingForOwner_def collect_mine_filter store_list_def store_get_def owner_ids_def
        count_vals_def filter_map)
qed

section \<open>A concrete run\<close>

definition demo_lab :: Lab where
  "demo_lab = \<lparr>lab_id = ''LIN-001'', lab_slug = ''first'', lab_title = ''First'', lab_track = ''linux'',
     lab_topic = ''shell'', lab_difficulty = ''beginner'', lab_level = ''1'', lab_order = 1,
     lab_provider = Linux, lab_prerequisites = [], lab_sourcePath = ''labs/linux''\<rparr>"

definition demo_registration :: ProviderRegistration where
  "demo_registration = \<lparr>reg_id = ''linux'', reg_name = ''docker'', reg_sandboxKind = Container,
     reg_enabled = None, disabledReason = None, reg_remediation = None\<rparr>"

definition demo_manager :: SessionManager where
  "demo_manager = \<lparr>registry = \<lparr>labs = [(''LIN-001'', demo_lab)], slugs = [(''first'', ''LIN-001'')], loadErrors = []\<rparr>,
     providers = \<lparr>registrations = [(Linux, demo_registration)], cache = [], inFlight = [], ttlMs = 30000, probes = 0\<rparr>,
     policy_serviceAccountName = ''student'',
     lifetimes = \<lparr>maxSessionSeconds = 7200, cfg_idleTimeoutSeconds = 1200, warningSeconds = 120,
       maxActiveSessions = 1, maxActiveSessionsPerStudent = Some 1\<rparr>,
     namespaceSecret = ''a-long-secret'', hmac = (\<lambda>k m. replicate 40 (CHR ''a'')),
     has_terminal = True, has_reattach = True, has_listener = True\<rparr>"

definition demo_reaper :: SessionReaper where
  "demo_reaper = new_reaper demo_manager \<lparr>o_providers = None, o_orphanGraceMs = None, o_resetRecoveryGraceMs = None,
    o_abandonedEndGraceMs = None, o_abandonedStartGraceMs = None, o_lostSandboxGraceMs = None, o_retentionMs = None\<rparr>"

definition demo_env_info :: EnvironmentInfo where
  "demo_env_info = \<lparr>env_environmentId = ''env-1'', env_phase = Ready\<rparr>"

definition demo_sid :: string where "demo_sid = ''sess-'' @ replicate 20 (CHR ''1'')"

definition demo_env :: "call \<Rightarrow> resp" where
  "demo_env c = (case c of
      ClockNow \<Rightarrow> R_Time 1000
    | RandomSessionId \<Rightarrow> R_Id demo_sid
    | ProviderProbe p \<Rightarrow> R_Probe None
    | ProviderCreate p ctx \<Rightarrow> R_Create \<lparr>create_ok = True, create_environment = demo_env_info, create_steps = [], create_error = None\<rparr>
    | ProviderDestroy p ctx \<Rightarrow> R_Destroy \<lparr>destroy_ok = True, namespaceGone = True, destroy_steps = [], destroy_error = None\<rparr>
    | _ \<Rightarrow> R_Unit)"

definition demo_started :: system where
  "demo_started = drive demo_env 0 20 (submit demo_reaper 0
     (Start_Lab ''lin-001'' (Some ''ann'') \<lparr>has_onAdmitted = False, ownerSessionLimit = None\<rparr>) init_system)"

definition demo_ending :: "nat \<Rightarrow> system" where
  "demo_ending n = drive demo_env 1 n (submit demo_reaper 1 (End_Lab demo_sid) demo_started)"

lemma reachable_started: "reachable demo_reaper demo_started"
  unfolding demo_started_def
  by (rule reachable_steps [OF reachable_steps [OF reachable_init submit_steps] drive_steps])

lemma ending_steps: "(sys_step demo_reaper)\<^sup>*\<^sup>* demo_started (demo_ending n)"
  unfolding demo_ending_def by (rule rtranclp_trans [OF submit_steps drive_steps])

lemma ending_more: "(sys_step demo_reaper)\<^sup>*\<^sup>* (demo_ending m) (demo_ending (m + n))"
  unfolding demo_ending_def drive_add by (rule drive_steps)

lemma reachable_ending: "reachable demo_reaper (demo_ending n)"
  by (rule reachable_steps [OF reachable_started ending_steps])

definition at_destroy :: "system \<Rightarrow> nat \<Rightarrow> bool" where
  "at_destroy s i = (case s_tasks s i of
       Some t \<Rightarrow> (case t_prog t of Call c k \<Rightarrow>
           (case c of ProviderDestroy p ctx \<Rightarrow> ctx_sessionId ctx = demo_sid | _ \<Rightarrow> False)
         | _ \<Rightarrow> False)
     | None \<Rightarrow> False)"

definition at_ending :: "system \<Rightarrow> nat \<Rightarrow> bool" where
  "at_ending s i = (case s_tasks s i of
       Some t \<Rightarrow> (case t_prog t of Call c k \<Rightarrow>
           (case c of StoreTransition sid from to patch guard \<Rightarrow> sid = demo_sid \<and> to = ENDED | _ \<Rightarrow> False)
         | _ \<Rightarrow> False)
     | None \<Rightarrow> False)"

definition at_store :: "system \<Rightarrow> nat \<Rightarrow> bool" where
  "at_store s i = (case s_tasks s i of
       Some t \<Rightarrow> (case t_prog t of Call c k \<Rightarrow> store_answer c (s_store s) \<noteq> None | _ \<Rightarrow> False)
     | None \<Rightarrow> False)"

definition status_of :: "system \<Rightarrow> session_status option" where
  "status_of s = map_option status (row s demo_sid)"

lemma demo_started_row: "status_of demo_started = Some ACTIVE"
  by code_simp

lemma demo_ending_2: "status_of (demo_ending 2) = Some ACTIVE \<and> at_store (demo_ending 2) 1"
  by code_simp

lemma demo_ending_4: "at_destroy (demo_ending 4) 1 \<and> status_of (demo_ending 4) = Some ENDING"
  by code_simp

lemma demo_ending_3: "status_of (demo_ending 3) = Some ENDING"
  by code_simp

lemma demo_ending_7: "at_ending (demo_ending 7) 1"
  by code_simp

lemma demo_ending_8: "status_of (demo_ending 8) = Some ENDED"
  by code_simp

lemma demo_ended: "status_of (demo_ending 9) = Some ENDED \<and> s_notified (demo_ending 9) demo_sid = 1"
  by code_simp

lemma status_ofD: "status_of s = Some st \<Longrightarrow> \<exists>x. row s demo_sid = Some x \<and> status x = st"
  by (auto simp: status_of_def)

section \<open>Properties\<close>

text \<open>
  C1. Capacity is never exceeded. In every reachable state, however many processes
  start labs at once, crash or lose store answers, no more sessions hold a sandbox
  than the deployment allows, and no student holds more than the per-student limit.
\<close>

theorem capacity_never_exceeded:
  assumes "reachable r s"
  shows "int (countOccupying (s_store s)) \<le> max 0 (maxActiveSessions (lifetimes (sessions r))) \<and>
         (\<forall>limit owner. maxActiveSessionsPerStudent (lifetimes (sessions r)) = Some limit \<longrightarrow>
            int (length (listOccupyingForOwner (s_store s) owner)) \<le> max 0 limit)"
  using reachable_inv [OF assms] countOccupying_card ownerOccupying_card
  by (auto simp: sys_inv_def store_inv_def)

theorem capacity_never_exceeded_witness:
  "int (countOccupying (s_store demo_started)) \<le> 1 \<and>
   int (length (listOccupyingForOwner (s_store demo_started) ''ann'')) \<le> 1"
  using capacity_never_exceeded [OF reachable_started]
  by (auto simp: demo_reaper_def new_reaper_def demo_manager_def)

text \<open>
  C3. The lifecycle. One step of the system changes a stored session only along an
  edge of the lifecycle, or stamps activity on one that accepts it, keeping its
  identity, deadline and idle budget; it removes only a finished session's record;
  and it adds a record only as CREATING, under an id never stored before.
\<close>

theorem lifecycle_respected:
  assumes "reachable r s" and "sys_step r s s'"
  shows "(\<forall>sid x. row s sid = Some x \<longrightarrow>
            row s' sid = Some x \<or> (\<exists>y. row s' sid = Some y \<and> kept x y) \<or>
            (row s' sid = None \<and> isTerminalStatus (status x))) \<and>
         (\<forall>sid y. row s sid = None \<longrightarrow> row s' sid = Some y \<longrightarrow>
            status y = CREATING \<and> sid \<notin> s_stored s)"
proof -
  have inv: "sys_inv r s" by (rule reachable_inv [OF assms(1)])
  have rs: "row_step (s_stored s) (row s) (row s')" using sys_step_rows [OF assms(2) inv] by blast
  show ?thesis
    using row_step_some [OF rs] stored_dom [OF inv] row_step_none [OF rs] by blast
qed

theorem lifecycle_respected_witness:
  "\<exists>x y. row (demo_ending 2) demo_sid = Some x \<and> row (demo_ending 3) demo_sid = Some y \<and>
     status x = ACTIVE \<and> status y = ENDING \<and> kept x y"
proof -
  have d: "demo_ending 3 = drive_step demo_env 1 (demo_ending 2)"
    using drive_add [of demo_env 1 2 1] by (simp add: demo_ending_def)
  have "sys_step demo_reaper (demo_ending 2) (demo_ending 3)"
  proof -
    obtain t c k a st' where "s_tasks (demo_ending 2) 1 = Some t" "t_prog t = Call c k"
        "store_answer c (s_store (demo_ending 2)) = Some (a, st')"
      using demo_ending_2 by (auto simp: at_store_def split: option.splits prog.splits)
    then show ?thesis unfolding d drive_step_def by (simp add: sys_step.store_call)
  qed
  note life = lifecycle_respected [OF reachable_ending this]
  obtain x y where "row (demo_ending 2) demo_sid = Some x" "status x = ACTIVE"
      "row (demo_ending 3) demo_sid = Some y" "status y = ENDING"
    using demo_ending_2 demo_ending_3 by (auto dest!: status_ofD)
  note xy = this
  from life have "row (demo_ending 3) demo_sid = Some x \<or>
      (\<exists>z. row (demo_ending 3) demo_sid = Some z \<and> kept x z) \<or>
      (row (demo_ending 3) demo_sid = None \<and> isTerminalStatus (status x))"
    using xy(1) by blast
  with xy have "kept x y" by auto
  with xy show ?thesis by blast
qed

text \<open>
  C2. A finished session stays finished. Once a session is ENDED, EXPIRED or FAILED its
  record never changes again, whatever was in flight for it; it can only be dropped,
  and after that no session with its id ever exists again.
\<close>

theorem no_resurrection:
  assumes "reachable r s" and "row s sid = Some x" and "isTerminalStatus (status x)"
    and "(sys_step r)\<^sup>*\<^sup>* s s'"
  shows "row s' sid = Some x \<or>
         (row s' sid = None \<and> (\<forall>s''. (sys_step r)\<^sup>*\<^sup>* s' s'' \<longrightarrow> row s'' sid = None))"
proof -
  have inv: "sys_inv r s" by (rule reachable_inv [OF assms(1)])
  have "sid \<in> s_stored s'" using stored_stays [OF assms(4) inv stored_dom [OF inv assms(2)]] .
  with finished_stays [OF assms(4) inv assms(2,3)] gone_stays sys_steps_inv [OF assms(4) inv]
  show ?thesis by metis
qed

theorem no_resurrection_witness:
  "\<exists>x. row (demo_ending 8) demo_sid = Some x \<and> status x = ENDED \<and> row (demo_ending 9) demo_sid = Some x"
proof -
  obtain x where x: "row (demo_ending 8) demo_sid = Some x" "status x = ENDED"
    using status_ofD [OF demo_ending_8] by blast
  have "row (demo_ending 9) demo_sid \<noteq> None" using demo_ended by (auto dest!: status_ofD)
  moreover have "(sys_step demo_reaper)\<^sup>*\<^sup>* (demo_ending 8) (demo_ending 9)" using ending_more [of 8 1] by simp
  ultimately show ?thesis
    using no_resurrection [OF reachable_ending x(1), of "demo_ending 9"] x by (auto simp: status_defs)
qed

text \<open>
  Identity and deadline are fixed at admission. As long as a session is stored, its
  owner, provider, sandbox handle, namespace, shell uid, absolute deadline and idle
  budget are the ones it was admitted with: no activity extends the deadline.
\<close>

theorem identity_and_deadline_fixed:
  assumes "reachable r s" and "(sys_step r)\<^sup>*\<^sup>* s s'" and "row s sid = Some x" and "row s' sid = Some y"
  shows "same_identity x y \<and> expiresAt y = expiresAt x \<and> idleTimeoutSeconds y = idleTimeoutSeconds x"
  by (rule live_steps [OF assms(2) reachable_inv [OF assms(1)] assms(3,4)])

theorem identity_and_deadline_fixed_witness:
  "\<exists>x y. row demo_started demo_sid = Some x \<and> row (demo_ending 9) demo_sid = Some y \<and>
     same_identity x y \<and> expiresAt y = expiresAt x \<and> idleTimeoutSeconds y = idleTimeoutSeconds x"
proof -
  obtain x y where xy: "row demo_started demo_sid = Some x" "row (demo_ending 9) demo_sid = Some y"
    using demo_started_row demo_ended by (auto dest!: status_ofD)
  from identity_and_deadline_fixed [OF reachable_started ending_steps xy] xy show ?thesis by blast
qed

text \<open>
  C4. A session is announced closed at most once, and only when it is over: whatever
  teardowns race (End, the reaper, an operator, a start that lost its session), the
  listener hears of each session at most once, and then no stored record of it is live.
\<close>

theorem closed_at_most_once:
  assumes "reachable r s"
  shows "s_notified s sid \<le> 1 \<and>
         (s_notified s sid = 1 \<longrightarrow> (\<forall>x. row s sid = Some x \<longrightarrow> isTerminalStatus (status x)))"
  using reachable_inv [OF assms] by (auto simp: sys_inv_def store_inv_def over_def)

theorem closed_at_most_once_witness:
  "s_notified (demo_ending 9) demo_sid = 1 \<and>
   (\<exists>x. row (demo_ending 9) demo_sid = Some x \<and> isTerminalStatus (status x))"
proof -
  obtain x where x: "row (demo_ending 9) demo_sid = Some x" "s_notified (demo_ending 9) demo_sid = 1"
    using demo_ended by (auto dest!: status_ofD)
  with closed_at_most_once [OF reachable_ending, of 9 demo_sid] show ?thesis by auto
qed

text \<open>
  C6. No status is claimed without cause. A request about to write ACTIVE has been told
  by the provider that this session's sandbox was built or rebuilt, and one about to
  write ENDED or EXPIRED that it is verifiably gone; and every status a request offers
  to leave has a lifecycle edge to the one it writes.
\<close>

theorem status_needs_evidence:
  assumes "reachable r s" and "s_tasks s i = Some t"
    and "t_prog t = Call (StoreTransition sid from to patch guard) k"
  shows "(\<forall>x \<in> set from. lifecycle_edge x to) \<and>
         (to = ACTIVE \<longrightarrow> built (t_hist t) sid) \<and>
         (to = ENDED \<or> to = EXPIRED \<longrightarrow> gone (t_hist t) sid)"
proof -
  have "task_inv r s t" using reachable_inv [OF assms(1)] assms(2) by (auto simp: sys_inv_def)
  then have "call_ok (sessions r) (t_hist t) (StoreTransition sid from to patch guard)"
    using assms(3) by (auto simp: task_inv_def dest: sat_step)
  then show ?thesis by (auto simp: call_ok_def transition_ok_def evidence_def)
qed

theorem status_needs_evidence_witness:
  "\<exists>t. s_tasks (demo_ending 7) 1 = Some t \<and> gone (t_hist t) demo_sid"
proof -
  obtain t "from" patch guard k where t: "s_tasks (demo_ending 7) 1 = Some t"
      "t_prog t = Call (StoreTransition demo_sid from ENDED patch guard) k"
    using demo_ending_7 by (auto simp: at_ending_def split: option.splits prog.splits call.splits)
  from status_needs_evidence [OF reachable_ending t] t show ?thesis by simp
qed

text \<open>
  C5. A sandbox is destroyed only when its session is being torn down, finished or
  gone, or when the destroying request's own build of it failed: at the moment any
  request calls the provider's session destroy, the stored session, if there is one,
  is owned by a teardown, except for a start that cleans up after its failed build.
\<close>

theorem destroy_only_torn_down:
  assumes "reachable r s" and "s_tasks s i = Some t"
    and "t_prog t = Call (ProviderDestroy p ctx) k"
  shows "(\<forall>x. row s (ctx_sessionId ctx) = Some x \<longrightarrow> isTeardownOwned (status x)) \<or>
         failed_build (t_hist t) (ctx_sessionId ctx)"
proof -
  have ti: "task_inv r s t" using reachable_inv [OF assms(1)] assms(2) by (auto simp: sys_inv_def)
  then have "call_ok (sessions r) (t_hist t) (ProviderDestroy p ctx)"
    using assms(3) by (auto simp: task_inv_def dest: sat_step)
  with ti show ?thesis by (auto simp: call_ok_def may_destroy_def task_inv_def hist_true_def torn_def)
qed

theorem destroy_only_torn_down_witness:
  "\<exists>t p ctx k x. s_tasks (demo_ending 4) 1 = Some t \<and> t_prog t = Call (ProviderDestroy p ctx) k \<and>
     row (demo_ending 4) (ctx_sessionId ctx) = Some x \<and>
     (isTeardownOwned (status x) \<or> failed_build (t_hist t) (ctx_sessionId ctx))"
proof -
  obtain t p ctx k where t: "s_tasks (demo_ending 4) 1 = Some t" "t_prog t = Call (ProviderDestroy p ctx) k"
      "ctx_sessionId ctx = demo_sid"
    using demo_ending_4 by (auto simp: at_destroy_def split: option.splits prog.splits call.splits)
  obtain x where x: "row (demo_ending 4) demo_sid = Some x" using demo_ending_4 by (auto dest!: status_ofD)
  from destroy_only_torn_down [OF reachable_ending t(1,2)] t x show ?thesis by auto
qed

end
