(* ===== verification/Cidr.thy ===== *)
theory Cidr
  imports Js_Text Session_Identifiers "HOL-Library.Word"
begin

text \<open>
  IPv4 CIDR arithmetic of the verifier: \<open>services/verifier/src/cidr.ts\<close>. The
  unsigned 32-bit numbers of the source are \<open>32 word\<close>, its bitwise operators the
  word operations; address counts, which go up to \<open>2 ^ 32\<close>, are natural numbers.
  The reference semantics of a block is the set of its addresses, and containment,
  overlap and the count of free addresses are proved to be what they say of these
  sets.
\<close>

unbundle bit_operations_syntax

section \<open>The model\<close>

definition AWS_RESERVED_ADDRESSES_PER_SUBNET :: int where
  "AWS_RESERVED_ADDRESSES_PER_SUBNET = 5"

definition RFC_1918_RANGES :: "string list" where
  "RFC_1918_RANGES = [''10.0.0.0/8'', ''172.16.0.0/12'', ''192.168.0.0/16'']"

record Ipv4Cidr =
  cidr_text :: string
  network :: "32 word"
  broadcast :: "32 word"
  prefixLength :: nat
  addressCount :: nat
  normalised :: bool

definition toInt :: "nat list \<Rightarrow> 32 word" where
  "toInt octets = push_bit 24 (of_nat (octets ! 0)) OR push_bit 16 (of_nat (octets ! 1)) OR
     push_bit 8 (of_nat (octets ! 2)) OR of_nat (octets ! 3)"

definition octets_of :: "32 word \<Rightarrow> nat list" where
  "octets_of v = [unat (drop_bit 24 v AND 0xff), unat (drop_bit 16 v AND 0xff),
                  unat (drop_bit 8 v AND 0xff), unat (v AND 0xff)]"

definition toDotted :: "32 word \<Rightarrow> string" where
  "toDotted v = join_with ''.'' (map show_nat (octets_of v))"

definition maskFor :: "nat \<Rightarrow> 32 word" where
  "maskFor prefixLen = (if prefixLen = 0 then 0 else push_bit (32 - prefixLen) 0xffffffff)"

text \<open>The loop over the four parts of the address.\<close>

fun parse_octets :: "string list \<Rightarrow> nat list option" where
  "parse_octets [] = Some []"
| "parse_octets (part # parts) =
     (if \<not> (1 \<le> length part \<and> length part \<le> 3 \<and> list_all is_digit part) then None
      else if length part > 1 \<and> hd part = CHR ''0'' then None
      else let octet = read_nat part in
        if octet > 255 then None
        else (case parse_octets parts of None \<Rightarrow> None | Some octets \<Rightarrow> Some (octet # octets)))"

definition block_of :: "32 word \<Rightarrow> nat \<Rightarrow> Ipv4Cidr" where
  "block_of raw prefixLen =
     (let mask = maskFor prefixLen;
          net = raw AND mask;
          bcast = net OR NOT mask
      in \<lparr>cidr_text = toDotted net @ ''/'' @ show_nat prefixLen, network = net, broadcast = bcast,
          prefixLength = prefixLen, addressCount = 2 ^ (32 - prefixLen), normalised = (net \<noteq> raw)\<rparr>)"

definition parseIpv4Cidr :: "unknown_value \<Rightarrow> Ipv4Cidr option" where
  "parseIpv4Cidr input = (case input of
       UOther _ \<Rightarrow> None
     | UString s \<Rightarrow>
         let text = trim s in
         if text \<noteq> trim s \<or> length text = 0 \<or> length text > 18 then None
         else (case split_on CHR ''/'' text of
             [address, prefix] \<Rightarrow>
               if \<not> (1 \<le> length prefix \<and> length prefix \<le> 2 \<and> list_all is_digit prefix) then None
               else let prefixLen = read_nat prefix in
                 if prefixLen > 32 then None
                 else let parts = split_on CHR ''.'' address in
                   if length parts \<noteq> 4 then None
                   else (case parse_octets parts of
                       None \<Rightarrow> None
                     | Some octets \<Rightarrow> Some (block_of (toInt octets) prefixLen))
           | _ \<Rightarrow> None))"

definition cidrContains :: "Ipv4Cidr \<Rightarrow> Ipv4Cidr \<Rightarrow> bool" where
  "cidrContains outer inner \<longleftrightarrow> network outer \<le> network inner \<and> broadcast inner \<le> broadcast outer"

definition cidrsOverlap :: "Ipv4Cidr \<Rightarrow> Ipv4Cidr \<Rightarrow> bool" where
  "cidrsOverlap a b \<longleftrightarrow> network a \<le> broadcast b \<and> network b \<le> broadcast a"

definition usableAddresses :: "Ipv4Cidr \<Rightarrow> int" where
  "usableAddresses c = max 0 (int (addressCount c) - AWS_RESERVED_ADDRESSES_PER_SUBNET)"

definition isRfc1918 :: "Ipv4Cidr \<Rightarrow> bool" where
  "isRfc1918 c = list_ex (\<lambda>range. case parseIpv4Cidr (UString range) of
       None \<Rightarrow> False | Some parsed \<Rightarrow> cidrContains parsed c) RFC_1918_RANGES"

definition freeAddresses :: "Ipv4Cidr \<Rightarrow> Ipv4Cidr list \<Rightarrow> int" where
  "freeAddresses parent children =
     (let used = foldl (\<lambda>u child. if cidrContains parent child then u + int (addressCount child) else u)
                   0 children
      in max 0 (int (addressCount parent) - used))"

fun overlaps_with :: "('a \<Rightarrow> Ipv4Cidr) \<Rightarrow> 'a \<Rightarrow> 'a list \<Rightarrow> ('a \<times> 'a) option" where
  "overlaps_with cidr e [] = None"
| "overlaps_with cidr e (f # fs) =
     (if cidrsOverlap (cidr e) (cidr f) then Some (e, f) else overlaps_with cidr e fs)"

fun firstOverlappingPair :: "('a \<Rightarrow> Ipv4Cidr) \<Rightarrow> 'a list \<Rightarrow> ('a \<times> 'a) option" where
  "firstOverlappingPair cidr [] = None"
| "firstOverlappingPair cidr (e # es) =
     (case overlaps_with cidr e es of
        Some pair \<Rightarrow> Some pair
      | None \<Rightarrow> firstOverlappingPair cidr es)"

section \<open>Blocks as sets of addresses\<close>

definition addresses :: "Ipv4Cidr \<Rightarrow> 32 word set" where
  "addresses c = {network c .. broadcast c}"

lemma all_ones: "(0xffffffff :: 32 word) = - 1"
  by simp

lemma maskFor_not_mask:
  assumes "p \<le> 32"
  shows "maskFor p = NOT (mask (32 - p))"
proof (cases "p = 0")
  case True
  have "(mask 32 :: 32 word) = -1" by (simp add: mask_eq_exp_minus_1)
  with True show ?thesis by (simp add: maskFor_def)
next
  case False
  then have "maskFor p = push_bit (32 - p) (- 1)" unfolding maskFor_def all_ones by simp
  then show ?thesis by (simp only: push_bit_minus_one_eq_not_mask)
qed

lemma unat_and_not_mask: "unat (w AND NOT (mask n) :: 32 word) = (unat w div 2 ^ n) * 2 ^ n"
proof -
  have "w AND NOT (mask n) = push_bit n (drop_bit n w)"
    by (rule bit_word_eqI) (auto simp: bit_simps)
  then have "unat (w AND NOT (mask n)) = take_bit 32 (push_bit n (drop_bit n (unat w)))"
    by (simp only: unsigned_push_bit_eq unat_drop_bit_eq) simp
  also have "push_bit n (drop_bit n (unat w)) = unat w div 2 ^ n * 2 ^ n"
    by (simp only: push_bit_eq_mult drop_bit_eq_div)
  also have "take_bit 32 (unat w div 2 ^ n * 2 ^ n) = unat w div 2 ^ n * 2 ^ n"
  proof -
    have "unat w div 2 ^ n * 2 ^ n \<le> unat w" by simp
    also have "\<dots> < 2 ^ 32" using unsigned_less [of w, where ?'a = nat] by simp
    finally show ?thesis by (simp add: take_bit_nat_eq_self_iff)
  qed
  finally show ?thesis .
qed

lemma unat_or_mask:
  assumes "n \<le> 32"
  shows "unat ((w AND NOT (mask n)) OR mask n :: 32 word) = (unat w div 2 ^ n) * 2 ^ n + (2 ^ n - 1)"
proof -
  let ?net = "w AND NOT (mask n) :: 32 word"
  have "?net AND mask n = 0" by (rule bit_word_eqI) (auto simp: bit_simps)
  then have "?net OR mask n = ?net + mask n" by (simp add: disjunctive_add_eq_or)
  moreover have "unat (mask n :: 32 word) = 2 ^ n - 1"
  proof -
    have "(2 :: nat) ^ n \<le> 2 ^ 32" using assms by (intro power_increasing) auto
    then have "(mask n :: nat) mod 2 ^ 32 = 2 ^ n - 1" by (simp add: mask_eq_exp_minus_1)
    moreover have "unat (of_nat (mask n) :: 32 word) = mask n mod 2 ^ 32"
      by (simp only: unat_of_nat) simp
    ultimately show ?thesis by (simp only: of_nat_mask_eq)
  qed
  moreover have "unat ?net + (2 ^ n - 1) < 2 ^ 32"
  proof -
    have "unat w div 2 ^ n < 2 ^ (32 - n)"
      using unsigned_less [of w, where ?'a = nat] assms by (simp add: less_mult_imp_div_less flip: power_add)
    then have "(unat w div 2 ^ n + 1) * 2 ^ n \<le> 2 ^ (32 - n) * 2 ^ n" by (intro mult_right_mono) auto
    also have "\<dots> = 2 ^ 32" using assms by (simp flip: power_add)
    finally show ?thesis by (simp add: unat_and_not_mask algebra_simps)
  qed
  ultimately show ?thesis by (simp add: unat_word_ariths unat_and_not_mask)
qed

text \<open>What the parser promises of a block: it is the aligned range of its prefix.\<close>

definition aligned :: "Ipv4Cidr \<Rightarrow> bool" where
  "aligned c \<longleftrightarrow> prefixLength c \<le> 32 \<and> addressCount c = 2 ^ (32 - prefixLength c) \<and>
     (\<exists>q. unat (network c) = q * addressCount c \<and>
          unat (broadcast c) = q * addressCount c + (addressCount c - 1)) \<and>
     cidr_text c = toDotted (network c) @ ''/'' @ show_nat (prefixLength c)"

lemma aligned_block_of:
  assumes "p \<le> 32"
  shows "aligned (block_of raw p)"
proof -
  have "32 - p \<le> 32" by simp
  from unat_and_not_mask [of raw "32 - p"] unat_or_mask [OF this, of raw] assms show ?thesis
    by (auto simp: aligned_def block_of_def maskFor_not_mask Let_def)
qed

lemma alignedE:
  assumes "aligned c"
  obtains q k where "k \<le> 32" "addressCount c = 2 ^ k" "unat (network c) = q * 2 ^ k"
    "unat (broadcast c) = q * 2 ^ k + (2 ^ k - 1)"
  using assms unfolding aligned_def by (metis diff_le_self)

lemma aligned_le: "aligned c \<Longrightarrow> network c \<le> broadcast c"
  by (elim alignedE) (simp only: word_le_nat_alt le_add1)

lemma mem_addresses: "w \<in> addresses c \<longleftrightarrow> unat (network c) \<le> unat w \<and> unat w \<le> unat (broadcast c)"
  by (simp add: addresses_def word_le_nat_alt)

text \<open>An address belongs to an aligned block exactly when its leading bits do.\<close>

lemma mem_addresses_prefix:
  assumes "aligned c"
  shows "w \<in> addresses c \<longleftrightarrow> unat w div addressCount c = unat (network c) div addressCount c"
proof -
  from assms obtain q k where c: "addressCount c = 2 ^ k" "unat (network c) = q * 2 ^ k"
      "unat (broadcast c) = q * 2 ^ k + (2 ^ k - 1)" by (rule alignedE)
  have "q * 2 ^ k \<le> n \<and> n \<le> q * 2 ^ k + (2 ^ k - 1) \<longleftrightarrow> n div 2 ^ k = q" for n :: nat
  proof -
    have "n \<le> q * 2 ^ k + (2 ^ k - 1) \<longleftrightarrow> n < Suc q * 2 ^ k"
      using zero_less_power [of "2::nat" k] by (simp, linarith)
    moreover have "n div 2 ^ k = q \<longleftrightarrow> q \<le> n div 2 ^ k \<and> n div 2 ^ k < Suc q" by linarith
    ultimately show ?thesis by (simp only: less_eq_div_iff_mult_less_eq div_less_iff_less_mult zero_less_power)
  qed
  with c show ?thesis by (simp add: mem_addresses)
qed

lemma card_addresses:
  assumes "aligned c"
  shows "card (addresses c) = addressCount c"
proof -
  from assms obtain q k where c: "addressCount c = 2 ^ k" "unat (network c) = q * 2 ^ k"
      "unat (broadcast c) = q * 2 ^ k + (2 ^ k - 1)" by (rule alignedE)
  have "unat ` addresses c = {unat (network c) .. unat (broadcast c)}"
  proof (intro equalityI subsetI)
    fix n
    assume n: "n \<in> {unat (network c) .. unat (broadcast c)}"
    then have "n < 2 ^ 32" using unsigned_less [of "broadcast c", where ?'a = nat] by simp
    then have "unat (of_nat n :: 32 word) = n" by (simp add: unat_of_nat)
    with n show "n \<in> unat ` addresses c"
      by (intro image_eqI [of _ _ "of_nat n"]) (simp_all add: mem_addresses)
  qed (auto simp: mem_addresses)
  moreover have "inj_on unat (addresses c)" by (rule inj_onI) (rule unsigned_word_eqI)
  ultimately have "card (addresses c) = card {unat (network c) .. unat (broadcast c)}"
    by (metis card_image)
  with c show ?thesis by simp
qed

lemma contains_iff_subset:
  assumes "aligned inner"
  shows "cidrContains outer inner \<longleftrightarrow> addresses inner \<subseteq> addresses outer"
  using aligned_le [OF assms] by (auto simp: cidrContains_def addresses_def)

lemma overlap_iff_meet:
  assumes "aligned a" "aligned b"
  shows "cidrsOverlap a b \<longleftrightarrow> addresses a \<inter> addresses b \<noteq> {}"
proof
  assume o: "cidrsOverlap a b"
  have "max (network a) (network b) \<in> addresses a \<inter> addresses b"
    using o aligned_le [OF assms(1)] aligned_le [OF assms(2)]
    by (auto simp: cidrsOverlap_def addresses_def max_def)
  then show "addresses a \<inter> addresses b \<noteq> {}" by blast
qed (auto simp: cidrsOverlap_def addresses_def)

text \<open>Two aligned blocks are nested or disjoint.\<close>

lemma aligned_nested:
  assumes "aligned a" "aligned b" "w \<in> addresses a" "w \<in> addresses b" "addressCount a \<le> addressCount b"
  shows "addresses a \<subseteq> addresses b"
proof
  fix v
  assume v: "v \<in> addresses a"
  from assms(1,2) obtain j k where jk: "addressCount a = 2 ^ j" "addressCount b = 2 ^ k" by (metis alignedE)
  with assms(5) have "j \<le> k" by simp
  then have "(2 :: nat) ^ k = 2 ^ j * 2 ^ (k - j)" by (simp flip: power_add)
  then have "n div addressCount b = n div addressCount a div 2 ^ (k - j)" for n
    by (simp add: jk div_mult2_eq)
  with assms v show "v \<in> addresses b" by (simp add: mem_addresses_prefix)
qed

section \<open>Parsing and printing\<close>

lemma byte_mask: "(0xff :: 32 word) = mask 8"
  by (simp add: mask_eq_exp_minus_1)

lemma length_octets_of [simp]: "length (octets_of v) = 4"
  by (simp add: octets_of_def)

lemma octets_of_less: "list_all (\<lambda>n. n < 256) (octets_of v)"
proof -
  have "unat (w AND mask 8 :: 32 word) < 256" for w
  proof -
    have "unat (take_bit 8 w) = take_bit 8 (unat w)" by (simp add: unsigned_take_bit_eq)
    also have "\<dots> < 2 ^ 8" by (rule take_bit_nat_less_exp)
    finally show ?thesis by (simp add: take_bit_eq_mask)
  qed
  then show ?thesis by (simp add: octets_of_def byte_mask del: mask_numeral)
qed

lemma toInt_octets_of: "toInt (octets_of v) = v"
proof -
  have "toInt (octets_of v) = push_bit 24 (drop_bit 24 v AND mask 8) OR push_bit 16 (drop_bit 16 v AND mask 8)
      OR push_bit 8 (drop_bit 8 v AND mask 8) OR (v AND mask 8)"
    by (simp add: toInt_def octets_of_def byte_mask del: mask_numeral)
  also have "\<dots> = v"
  proof (rule bit_word_eqI)
    fix n :: nat
    assume n: "n < LENGTH(32)"
    then have "n < 8 \<or> 8 \<le> n \<and> n < 16 \<or> 16 \<le> n \<and> n < 24 \<or> 24 \<le> n \<and> n < 32" by auto
    then show "bit (push_bit 24 (drop_bit 24 v AND mask 8) OR push_bit 16 (drop_bit 16 v AND mask 8)
        OR push_bit 8 (drop_bit 8 v AND mask 8) OR (v AND mask 8)) n = bit v n"
      using n by (elim disjE) (auto simp: bit_simps)
  qed
  finally show ?thesis .
qed

lemma parse_octets_show: "list_all (\<lambda>n. n < 256) ns \<Longrightarrow> parse_octets (map show_nat ns) = Some ns"
proof (induction ns)
  case (Cons n ns)
  then have n: "n < 256" by simp
  then have "length (show_nat n) \<le> 3" by (intro length_show_nat) auto
  moreover have "1 \<le> length (show_nat n)" by (simp add: Suc_le_eq)
  ultimately show ?case
    using Cons n show_nat_canonical [of n] show_nat_digits [of n] by (auto simp: Let_def)
qed simp

lemma digits_no_sep: "list_all is_digit s \<Longrightarrow> \<not> is_digit c \<Longrightarrow> c \<notin> set s"
  by (auto simp: list_all_iff)

lemma is_digit_misc [simp]: "\<not> is_digit CHR ''.''" "\<not> is_digit CHR ''/''"
  by (simp_all add: is_digit_def)

lemma show_nat_no_sep [simp]: "CHR ''.'' \<notin> set (show_nat n)" "CHR ''/'' \<notin> set (show_nat n)"
  by (rule digits_no_sep [OF show_nat_digits], simp)+

lemma is_digit_not_space: "is_digit c \<Longrightarrow> \<not> is_space c"
  by (auto simp: is_digit_def is_space_def)

lemma toDotted_split: "split_on CHR ''.'' (toDotted v) = map show_nat (octets_of v)"
proof -
  have "octets_of v \<noteq> []" by (simp add: octets_of_def)
  then show ?thesis unfolding toDotted_def
    by (intro split_join) auto
qed

lemma set_toDotted: "c \<in> set (toDotted v) \<Longrightarrow> is_digit c \<or> c = CHR ''.''"
  using show_nat_digits by (auto simp: toDotted_def octets_of_def list_all_iff)

lemma length_toDotted: "1 \<le> length (toDotted v) \<and> length (toDotted v) \<le> 15"
proof -
  have "length (show_nat n) \<le> 3" if "n \<in> set (octets_of v)" for n
    using octets_of_less [of v] that by (intro length_show_nat) (auto simp: list_all_iff)
  then have "sum_list (map (length \<circ> show_nat) (octets_of v)) \<le> sum_list (map (\<lambda>_. 3) (octets_of v))"
    by (intro sum_list_mono) simp
  then show ?thesis by (simp add: toDotted_def octets_of_def)
qed

lemma hd_toDotted: "is_digit (hd (toDotted v))"
proof -
  have "hd (toDotted v) = hd (show_nat (octets_of v ! 0))"
    by (simp add: toDotted_def octets_of_def hd_append)
  then show ?thesis using show_nat_digits [of "octets_of v ! 0"] by (metis hd_in_set list_all_iff show_nat_not_Nil)
qed

lemma parse_canonical:
  assumes "p \<le> 32"
  shows "parseIpv4Cidr (UString (toDotted v @ ''/'' @ show_nat p)) = Some (block_of v p)"
proof -
  let ?s = "toDotted v @ ''/'' @ show_nat p"
  have p2: "length (show_nat p) \<le> 2" using assms by (intro length_show_nat) auto
  have "is_digit (hd ?s)" "is_digit (last ?s)"
    using hd_toDotted [of v] length_toDotted [of v] show_nat_digits [of p]
    by (auto simp: hd_append list_all_iff Suc_le_eq)
  then have trim: "trim ?s = ?s" by (intro trim_id) (auto dest: is_digit_not_space)
  have "CHR ''/'' \<notin> set (toDotted v)" using set_toDotted [of "CHR ''/''" v] by auto
  then have split: "split_on CHR ''/'' ?s = [toDotted v, show_nat p]"
    by (simp add: split_on_append split_on_no_sep)
  have "1 \<le> length (show_nat p)" by (simp add: Suc_le_eq)
  moreover have "length ?s \<le> 18" using length_toDotted [of v] p2 by simp
  moreover note parse_octets_show [OF octets_of_less [of v]]
  ultimately show ?thesis
    using assms p2 show_nat_digits [of p] unfolding parseIpv4Cidr_def unknown_value.case trim Let_def split
    by (simp add: toDotted_split toInt_octets_of)
qed

lemma block_of_network: "p \<le> 32 \<Longrightarrow> block_of (network (block_of raw p)) p = (block_of raw p)\<lparr>normalised := False\<rparr>"
  by (simp add: block_of_def Let_def ac_simps)

lemma parse_block:
  assumes "parseIpv4Cidr input = Some c"
  obtains raw where "prefixLength c \<le> 32" "c = block_of raw (prefixLength c)"
proof -
  from assms have "\<exists>octets p. \<not> 32 < p \<and> c = block_of (toInt octets) p"
    by (auto simp: parseIpv4Cidr_def Let_def split: unknown_value.splits if_splits option.splits list.splits)
  then obtain octets p where "p \<le> 32" "c = block_of (toInt octets) p" by (auto simp: not_less)
  moreover from this have "prefixLength c = p" by (simp add: block_of_def Let_def)
  ultimately show thesis by (intro that [of "toInt octets"]) simp_all
qed

lemma parse_aligned: "parseIpv4Cidr input = Some c \<Longrightarrow> aligned c"
  by (elim parse_block) (metis aligned_block_of)

text \<open>
  A parsed block is the aligned range of its prefix: \<open>addressCount\<close> addresses from
  \<open>network\<close> to \<open>broadcast\<close>, and an address belongs to it exactly when it agrees with
  the network on the leading bits. Its text is canonical: parsing it again gives the
  same block, with nothing left to normalise.
\<close>

theorem cidr_roundtrip:
  assumes "parseIpv4Cidr input = Some c"
  shows "parseIpv4Cidr (UString (cidr_text c)) = Some (c\<lparr>normalised := False\<rparr>) \<and>
     prefixLength c \<le> 32 \<and> card (addresses c) = addressCount c \<and>
     (\<forall>w. w \<in> addresses c \<longleftrightarrow>
        unat w div 2 ^ (32 - prefixLength c) = unat (network c) div 2 ^ (32 - prefixLength c))"
proof -
  from assms obtain raw where p: "prefixLength c \<le> 32" and c: "c = block_of raw (prefixLength c)"
    by (rule parse_block)
  have al: "aligned c" using assms by (rule parse_aligned)
  have "cidr_text c = toDotted (network c) @ ''/'' @ show_nat (prefixLength c)"
    using al by (simp add: aligned_def)
  then have "parseIpv4Cidr (UString (cidr_text c)) = Some (block_of (network c) (prefixLength c))"
    using parse_canonical [OF p] by simp
  moreover have "block_of (network c) (prefixLength c) = c\<lparr>normalised := False\<rparr>"
    using block_of_network [OF p, of raw] c by simp
  ultimately show ?thesis
    using p al card_addresses [OF al] mem_addresses_prefix [OF al] by (simp add: aligned_def)
qed

theorem cidr_roundtrip_witness:
  "parseIpv4Cidr (UString ''100.68.0.18/18'') = Some (block_of 0x64440012 18) \<and>
   parseIpv4Cidr (UString (cidr_text (block_of 0x64440012 18))) =
     Some ((block_of 0x64440012 18)\<lparr>normalised := False\<rparr>) \<and>
   cidr_text (block_of 0x64440012 18) = ''100.68.0.0/18''"
proof -
  have p: "parseIpv4Cidr (UString ''100.68.0.18/18'') = Some (block_of 0x64440012 18)" by code_simp
  have t: "cidr_text (block_of 0x64440012 18) = ''100.68.0.0/18''" by code_simp
  from p t cidr_roundtrip [OF p] show ?thesis by blast
qed

text \<open>
  C13. Containment and overlap mean what they say of the addresses: \<open>cidrContains\<close> is
  inclusion, \<open>cidrsOverlap\<close> is a common address, and two overlapping blocks are always
  nested, so a plan whose subnets do not overlap is a partition.
\<close>

theorem cidr_relations_are_set_relations:
  assumes "parseIpv4Cidr x = Some a" and "parseIpv4Cidr y = Some b"
  shows "(cidrContains a b \<longleftrightarrow> addresses b \<subseteq> addresses a) \<and>
     (cidrsOverlap a b \<longleftrightarrow> addresses a \<inter> addresses b \<noteq> {}) \<and>
     (cidrsOverlap a b \<longleftrightarrow> cidrContains a b \<or> cidrContains b a)"
proof -
  have a: "aligned a" and b: "aligned b" using assms by (auto intro: parse_aligned)
  note rel = contains_iff_subset [OF a, of b] contains_iff_subset [OF b, of a] overlap_iff_meet [OF a b]
  have ne: "network a \<in> addresses a" "network b \<in> addresses b"
    using aligned_le [OF a] aligned_le [OF b] by (auto simp: addresses_def)
  have "addresses a \<inter> addresses b \<noteq> {} \<longleftrightarrow> addresses b \<subseteq> addresses a \<or> addresses a \<subseteq> addresses b"
    using ne aligned_nested [OF a b] aligned_nested [OF b a] by (metis disjoint_iff le_cases subsetD)
  with rel show ?thesis by simp
qed

theorem cidr_relations_are_set_relations_witness:
  "cidrContains (block_of 0x0a000000 20) (block_of 0x0a000100 24) \<and>
   addresses (block_of 0x0a000100 24) \<subseteq> addresses (block_of 0x0a000000 20)"
proof -
  have a: "parseIpv4Cidr (UString ''10.0.0.0/20'') = Some (block_of 0x0a000000 20)" by code_simp
  have b: "parseIpv4Cidr (UString ''10.0.1.0/24'') = Some (block_of 0x0a000100 24)" by code_simp
  have "cidrContains (block_of 0x0a000000 20) (block_of 0x0a000100 24)" by code_simp
  with cidr_relations_are_set_relations [OF a b] show ?thesis by blast
qed

section \<open>Plans of several blocks\<close>

lemma overlaps_with_None:
  "overlaps_with cidr e fs = None \<longleftrightarrow> (\<forall>f\<in>set fs. \<not> cidrsOverlap (cidr e) (cidr f))"
  by (induction fs) auto

lemma firstOverlappingPair_None:
  "firstOverlappingPair cidr es = None \<longleftrightarrow>
     sorted_wrt (\<lambda>e f. \<not> cidrsOverlap (cidr e) (cidr f)) es"
proof (induction es)
  case (Cons e es)
  then show ?case
    by (cases "overlaps_with cidr e es") (use overlaps_with_None [of cidr e es] in auto)
qed simp

lemma used_addresses:
  assumes "\<forall>c\<in>set cs. aligned c" "sorted_wrt (\<lambda>a b. \<not> cidrsOverlap a b) cs"
    "\<forall>c\<in>set cs. cidrContains parent c"
  shows "foldl (\<lambda>u child. if cidrContains parent child then u + int (addressCount child) else u) n cs =
     n + int (card (\<Union>(addresses ` set cs)))"
  using assms
proof (induction cs arbitrary: n)
  case (Cons c cs)
  have "addresses c \<inter> addresses d = {}" if "d \<in> set cs" for d
    using Cons.prems that overlap_iff_meet [of c d] by auto
  then have "addresses c \<inter> \<Union>(addresses ` set cs) = {}" by blast
  then have "card (\<Union>(addresses ` set (c # cs))) = addressCount c + card (\<Union>(addresses ` set cs))"
    using Cons.prems(1) by (simp add: card_Un_disjoint card_addresses)
  with Cons show ?case by simp
qed simp

text \<open>
  For a plan in which \<open>firstOverlappingPair\<close> finds nothing and every child lies in
  the parent, \<open>freeAddresses\<close> is exactly the number of addresses of the parent that no
  child covers.
\<close>

theorem freeAddresses_counts_uncovered:
  assumes "parseIpv4Cidr x = Some parent"
    and "\<forall>c\<in>set children. (\<exists>y. parseIpv4Cidr y = Some c) \<and> cidrContains parent c"
    and "firstOverlappingPair (\<lambda>c. c) children = None"
  shows "freeAddresses parent children = int (card (addresses parent - \<Union>(addresses ` set children)))"
proof -
  have al: "\<forall>c\<in>set children. aligned c" and p: "aligned parent"
    using assms(1,2) parse_aligned by auto
  have sub: "\<Union>(addresses ` set children) \<subseteq> addresses parent"
    using assms(2) al contains_iff_subset by blast
  have "card (addresses parent - \<Union>(addresses ` set children)) =
      card (addresses parent) - card (\<Union>(addresses ` set children))"
    using sub by (intro card_Diff_subset) auto
  moreover have "card (\<Union>(addresses ` set children)) \<le> card (addresses parent)"
    using sub by (intro card_mono) auto
  ultimately show ?thesis
    using used_addresses [OF al _, of parent 0] assms(2,3) card_addresses [OF p]
    by (simp add: freeAddresses_def firstOverlappingPair_None Let_def)
qed

theorem freeAddresses_counts_uncovered_witness:
  "freeAddresses (block_of 0x0a000000 24) [block_of 0x0a000000 25, block_of 0x0a000080 26] = 64 \<and>
   int (card (addresses (block_of 0x0a000000 24) - \<Union>(addresses ` set
     [block_of 0x0a000000 25, block_of 0x0a000080 26]))) = 64"
proof -
  let ?p = "block_of 0x0a000000 24" and ?c = "block_of 0x0a000000 25" and ?d = "block_of 0x0a000080 26"
  have p: "parseIpv4Cidr (UString ''10.0.0.0/24'') = Some ?p" by code_simp
  have c: "parseIpv4Cidr (UString ''10.0.0.0/25'') = Some ?c" by code_simp
  have d: "parseIpv4Cidr (UString ''10.0.0.128/26'') = Some ?d" by code_simp
  have "cidrContains ?p ?c" "cidrContains ?p ?d" by code_simp+
  with c d have ch: "\<forall>c\<in>set [?c, ?d]. (\<exists>y. parseIpv4Cidr y = Some c) \<and> cidrContains ?p c" by auto
  have no: "firstOverlappingPair (\<lambda>c. c) [?c, ?d] = None" by code_simp
  have "freeAddresses ?p [?c, ?d] = 64" by code_simp
  with freeAddresses_counts_uncovered [OF p ch no] show ?thesis by simp
qed

section \<open>Syntax the parser accepts against its documentation\<close>

text \<open>
  \<open>parseIpv4Cidr\<close> is documented to be strict about syntax, with no whitespace and
  no leading zeros. The test of the trimmed text against itself never fails, so
  surrounding whitespace is accepted, and a prefix with a leading zero is too.
\<close>

lemma parseI:
  assumes "split_on CHR ''/'' (trim s) = [address, prefix]" "trim s \<noteq> [] \<and> length (trim s) \<le> 18"
    "1 \<le> length prefix \<and> length prefix \<le> 2 \<and> list_all is_digit prefix" "read_nat prefix = p" "p \<le> 32"
    "parse_octets (split_on CHR ''.'' address) = Some octets" "length (split_on CHR ''.'' address) = 4"
  shows "parseIpv4Cidr (UString s) = Some (block_of (toInt octets) p)"
  using assms by (simp add: parseIpv4Cidr_def)

theorem cidr_accepts_whitespace_and_zero_prefix:
  "parseIpv4Cidr (UString '' 10.0.0.0/8 '') = parseIpv4Cidr (UString ''10.0.0.0/8'') \<and>
   parseIpv4Cidr (UString ''10.0.0.0/08'') = parseIpv4Cidr (UString ''10.0.0.0/8'') \<and>
   parseIpv4Cidr (UString ''10.0.0.0/8'') \<noteq> None \<and>
   parseIpv4Cidr (UString ''10.0.0.00/8'') = None"
proof -
  let ?b = "Some (block_of (toInt [10, 0, 0, 0]) 8)"
  have "parseIpv4Cidr (UString '' 10.0.0.0/8 '') = ?b"
    by (rule parseI [where address = "''10.0.0.0''" and prefix = "''8''"]; code_simp)
  moreover have "parseIpv4Cidr (UString ''10.0.0.0/8'') = ?b"
    by (rule parseI [where address = "''10.0.0.0''" and prefix = "''8''"]; code_simp)
  moreover have "parseIpv4Cidr (UString ''10.0.0.0/08'') = ?b"
    by (rule parseI [where address = "''10.0.0.0''" and prefix = "''08''"]; code_simp)
  moreover have "parseIpv4Cidr (UString ''10.0.0.00/8'') = None" by code_simp
  ultimately show ?thesis by simp
qed

end
