(* ===== verification/Iam_Policy.thy ===== *)
theory Iam_Policy
  imports Cidr
begin

text \<open>
  IAM policy documents of the verifier: \<open>services/verifier/src/iam-policy.ts\<close>. The
  value \<open>JSON.parse\<close> gives is a \<open>json\<close>, an object being its \<open>Object.entries\<close> in order;
  \<open>parseIamPolicy\<close> is given the parser. The two error classes are the constructors of
  \<open>iam_error\<close>. \<open>Number(s)\<close> in the numeric operators is the parameter \<open>num\<close>, \<open>None\<close>
  where the number is not finite; the theorems hold for every such function.

  The wildcard matcher is the loop of the source, with its four variables. It is
  proved equal to the recursive meaning of the two wildcards for values without a
  star, and its number of iterations is bounded by the product of the lengths.
\<close>

section \<open>Documents\<close>

datatype iam_error =
    IamPolicyParseError string
  | IamConditionUnsupportedError string

datatype Effect = Allow | Deny

datatype principal_type = P_AWS | P_Service | P_Federated | P_CanonicalUser

record IamCondition =
  cond_operator :: string
  cond_key :: string
  cond_values :: "string list"

record IamPrincipal =
  principal_type :: principal_type
  principal_id :: string

record IamStatement =
  stmt_index :: nat
  sid :: "string option"
  effect :: Effect
  actions :: "string list"
  notActions :: "string list"
  resources :: "string list"
  notResources :: "string list"
  principals :: "IamPrincipal list"
  notPrincipals :: "IamPrincipal list"
  conditions :: "IamCondition list"

record IamPolicy =
  version :: "string option"
  statements :: "IamStatement list"

definition IAM_PRINCIPAL_TYPES :: "(string \<times> principal_type) list" where
  "IAM_PRINCIPAL_TYPES = [(''AWS'', P_AWS), (''Service'', P_Service), (''Federated'', P_Federated),
     (''CanonicalUser'', P_CanonicalUser)]"

section \<open>Parsing\<close>

text \<open>A thrown error ends the function; \<open>and_then\<close> is the sequence of two statements.\<close>

fun string_entry :: "string \<Rightarrow> json \<Rightarrow> iam_error + string" where
  "string_entry field (JString s) = Inr s"
| "string_entry field _ = Inl (IamPolicyParseError (field @ '' must contain only strings''))"

fun asArray :: "json option \<Rightarrow> string \<Rightarrow> iam_error + string list" where
  "asArray None field = Inr []"
| "asArray (Some (JString s)) field = Inr [s]"
| "asArray (Some (JArray entries)) field = each (string_entry field) entries"
| "asArray (Some _) field = Inl (IamPolicyParseError (field @ '' must be a string or an array of strings''))"

definition at_statement :: "nat \<Rightarrow> string \<Rightarrow> string" where
  "at_statement i rest = ''statement '' @ show_nat i @ rest"

fun condition_values :: "json \<Rightarrow> string \<Rightarrow> iam_error + string list" where
  "condition_values (JNumber n) field = Inr [n]"
| "condition_values (JBool b) field = Inr [if b then ''true'' else ''false'']"
| "condition_values v field = asArray (Some v) field"

fun parse_operator :: "nat \<Rightarrow> string \<times> json \<Rightarrow> iam_error + IamCondition list" where
  "parse_operator i (operator, JObject byKey) =
     each (\<lambda>(key, value).
        and_then (condition_values value (at_statement i ('': Condition '' @ operator @ ''.'' @ key)))
          (\<lambda>vs. Inr \<lparr>cond_operator = operator, cond_key = key, cond_values = vs\<rparr>)) byKey"
| "parse_operator i (operator, _) = Inl (IamPolicyParseError (at_statement i
     ('': Condition operator '' @ [CHR 0x27] @ operator @ [CHR 0x27] @ '' must map keys to values'')))"

fun parseConditions :: "json option \<Rightarrow> nat \<Rightarrow> iam_error + IamCondition list" where
  "parseConditions None i = Inr []"
| "parseConditions (Some (JObject entries)) i =
     and_then (each (parse_operator i) entries) (\<lambda>cs. Inr (concat cs))"
| "parseConditions (Some _) i = Inl (IamPolicyParseError (at_statement i '': Condition must be an object''))"

definition expandAccountId :: "string \<Rightarrow> string" where
  "expandAccountId i = (if length i = 12 \<and> list_all is_digit i
     then ''arn:aws:iam::'' @ i @ '':root'' else i)"

definition parse_principal_entry ::
    "nat \<Rightarrow> string \<Rightarrow> string \<times> json \<Rightarrow> iam_error + IamPrincipal list" where
  "parse_principal_entry i field = (\<lambda>(type, value).
     case map_of IAM_PRINCIPAL_TYPES type of
       None \<Rightarrow> Inl (IamPolicyParseError (at_statement i ('': '' @ field @ '' type '' @ [CHR 0x27] @ type @
           [CHR 0x27] @ '' is not one of AWS, Service, Federated, CanonicalUser'')))
     | Some t \<Rightarrow>
         and_then (asArray (Some value) (at_statement i ('': '' @ field @ ''.'' @ type)))
           (\<lambda>ids. Inr (map (\<lambda>x. \<lparr>principal_type = t,
              principal_id = (if t = P_AWS then expandAccountId x else x)\<rparr>) ids)))"

fun parsePrincipals :: "json option \<Rightarrow> nat \<Rightarrow> string \<Rightarrow> iam_error + IamPrincipal list" where
  "parsePrincipals None i field = Inr []"
| "parsePrincipals (Some (JString s)) i field =
     (if s \<noteq> ''*'' then Inl (IamPolicyParseError (at_statement i ('': '' @ field @
           '' as a bare string may only be '' @ [CHR 0x22, CHR ''*'', CHR 0x22])))
      else Inr [\<lparr>principal_type = P_AWS, principal_id = ''*''\<rparr>])"
| "parsePrincipals (Some (JObject entries)) i field =
     (if entries = [] then Inl (IamPolicyParseError (at_statement i ('': '' @ field @ '' is empty'')))
      else and_then (each (parse_principal_entry i field) entries) (\<lambda>ps. Inr (concat ps)))"
| "parsePrincipals (Some _) i field =
     Inl (IamPolicyParseError (at_statement i ('': '' @ field @ '' must be '' @ [CHR 0x22, CHR ''*'', CHR 0x22] @ '' or an object'')))"

definition parse_effect :: "nat \<Rightarrow> json option \<Rightarrow> iam_error + Effect" where
  "parse_effect i raw = (case raw of
       Some (JString s) \<Rightarrow>
         let normalised = toLowerCase (trim s) in
         if normalised = ''allow'' then Inr Allow
         else if normalised = ''deny'' then Inr Deny
         else Inl (IamPolicyParseError (at_statement i ('' has Effect '' @ [CHR 0x27] @ s @ [CHR 0x27] @
                '', which is neither Allow nor Deny'')))
     | _ \<Rightarrow> Inl (IamPolicyParseError (at_statement i '' has no Effect'')))"

text \<open>An optional string: anything else is as good as absent.\<close>

definition string_field :: "(string \<times> json) list \<Rightarrow> string \<Rightarrow> string option" where
  "string_field source key = (case map_of source key of Some (JString s) \<Rightarrow> Some s | _ \<Rightarrow> None)"

definition parseStatement :: "nat \<Rightarrow> json \<Rightarrow> iam_error + IamStatement" where
  "parseStatement i raw = (case raw of
     JObject source \<Rightarrow>
       and_then (parse_effect i (map_of source ''Effect'')) (\<lambda>eff.
       and_then (asArray (map_of source ''Action'') (at_statement i '': Action'')) (\<lambda>acts.
       and_then (asArray (map_of source ''NotAction'') (at_statement i '': NotAction'')) (\<lambda>nacts.
       and_then (unless (\<not> (acts \<noteq> [] \<and> nacts \<noteq> [])) (IamPolicyParseError (at_statement i
           '' has both Action and NotAction, which is not allowed''))) (\<lambda>_.
       and_then (unless (\<not> (acts = [] \<and> nacts = [])) (IamPolicyParseError (at_statement i
           '' has neither Action nor NotAction''))) (\<lambda>_.
       and_then (asArray (map_of source ''Resource'') (at_statement i '': Resource'')) (\<lambda>ress.
       and_then (asArray (map_of source ''NotResource'') (at_statement i '': NotResource'')) (\<lambda>nress.
       and_then (unless (\<not> (ress \<noteq> [] \<and> nress \<noteq> [])) (IamPolicyParseError (at_statement i
           '' has both Resource and NotResource, which is not allowed''))) (\<lambda>_.
       and_then (parsePrincipals (map_of source ''Principal'') i ''Principal'') (\<lambda>ps.
       and_then (parsePrincipals (map_of source ''NotPrincipal'') i ''NotPrincipal'') (\<lambda>nps.
       and_then (unless (\<not> (ps \<noteq> [] \<and> nps \<noteq> [])) (IamPolicyParseError (at_statement i
           '' has both Principal and NotPrincipal, which is not allowed''))) (\<lambda>_.
       and_then (unless (\<not> (nps \<noteq> [] \<and> eff = Allow)) (IamPolicyParseError (at_statement i
           '' uses NotPrincipal with Effect Allow, which is not supported''))) (\<lambda>_.
       let resourceBased = ps \<noteq> [] \<or> nps \<noteq> [] in
       and_then (unless (\<not> (\<not> resourceBased \<and> ress = [] \<and> nress = [])) (IamPolicyParseError (at_statement i
           '' has neither Resource nor NotResource''))) (\<lambda>_.
       and_then (parseConditions (map_of source ''Condition'') i) (\<lambda>conds.
       Inr \<lparr>stmt_index = i,
            sid = string_field source ''Sid'',
            effect = eff, actions = acts, notActions = nacts, resources = ress, notResources = nress,
            principals = ps, notPrincipals = nps, conditions = conds\<rparr>))))))))))))))
   | _ \<Rightarrow> Inl (IamPolicyParseError (at_statement i '' must be an object'')))"

definition raw_statements :: "json \<Rightarrow> json list" where
  "raw_statements st = (case st of JArray xs \<Rightarrow> xs | _ \<Rightarrow> [st])"

definition parseIamPolicy :: "(string \<Rightarrow> string + json) \<Rightarrow> string \<Rightarrow> iam_error + IamPolicy" where
  "parseIamPolicy JSON_parse text = (case JSON_parse text of
       Inl message \<Rightarrow> Inl (IamPolicyParseError (''the document is not valid JSON ('' @ message @ '')''))
     | Inr (JObject source) \<Rightarrow>
         (case map_of source ''Statement'' of
            None \<Rightarrow> Inl (IamPolicyParseError ''the document has no Statement'')
          | Some st \<Rightarrow>
              let rawStatements = raw_statements st in
              if rawStatements = []
              then Inl (IamPolicyParseError ''the document has an empty Statement list'')
              else and_then (each (\<lambda>(i, s). parseStatement i s) (enumerate 0 rawStatements)) (\<lambda>sts.
                Inr \<lparr>version = string_field source ''Version'',
                     statements = sts\<rparr>))
     | Inr _ \<Rightarrow> Inl (IamPolicyParseError ''a policy document must be a JSON object''))"

section \<open>The wildcard matcher\<close>

text \<open>One iteration of the loop, on \<open>(pi, vi, starAt, matchAt)\<close>; \<open>None\<close> is \<open>return false\<close>.\<close>

type_synonym match_state = "nat \<times> nat \<times> nat option \<times> nat"

fun match_step :: "string \<Rightarrow> string \<Rightarrow> match_state \<Rightarrow> match_state option" where
  "match_step p v (pi, vi, starAt, matchAt) =
     (if pi < length p \<and> (p ! pi = CHR ''?'' \<or> p ! pi = v ! vi) then Some (pi + 1, vi + 1, starAt, matchAt)
      else if pi < length p \<and> p ! pi = CHR ''*'' then Some (pi + 1, vi, Some pi, vi)
      else (case starAt of
              Some star \<Rightarrow> Some (star + 1, matchAt + 1, starAt, matchAt + 1)
            | None \<Rightarrow> None))"

text \<open>The loop ends because of the order in which \<open>matchAt\<close> and \<open>pi\<close> advance.\<close>

definition behind :: "match_state \<Rightarrow> bool" where
  "behind = (\<lambda>(pi, vi, starAt, matchAt). vi < matchAt)"

function match_loop :: "string \<Rightarrow> string \<Rightarrow> match_state \<Rightarrow> nat option" where
  "match_loop p v (pi, vi, starAt, matchAt) =
     (if vi < length v
      then (case match_step p v (pi, vi, starAt, matchAt) of
              None \<Rightarrow> None
            | Some s \<Rightarrow> match_loop p v s)
      else Some pi)"
  by pat_completeness auto
termination
  by (relation "measures [\<lambda>(p, v, s). if behind s then 1 else 0,
       \<lambda>(p, v, (pi, vi, starAt, matchAt)). length v - (if vi < matchAt then vi else matchAt),
       \<lambda>(p, v, (pi, vi, starAt, matchAt)). length p - pi]")
    (auto simp: behind_def split: if_splits option.splits)

declare match_loop.simps [simp del] match_step.simps [simp del]

definition matchesIamPattern :: "string \<Rightarrow> string \<Rightarrow> bool \<Rightarrow> bool" where
  "matchesIamPattern pattern value caseSensitive =
     (let p = (if caseSensitive then pattern else toLowerCase pattern);
          v = (if caseSensitive then value else toLowerCase value)
      in case match_loop p v (0, 0, None, 0) of
           None \<Rightarrow> False
         | Some pi \<Rightarrow> dropWhile (\<lambda>c. c = CHR ''*'') (drop pi p) = [])"

section \<open>What a statement covers\<close>

definition statementCoversAction :: "IamStatement \<Rightarrow> string \<Rightarrow> bool" where
  "statementCoversAction s action =
     (if actions s \<noteq> [] then list_ex (\<lambda>pattern. matchesIamPattern pattern action False) (actions s)
      else if notActions s \<noteq> []
      then \<not> list_ex (\<lambda>pattern. matchesIamPattern pattern action False) (notActions s)
      else False)"

definition statementCoversResource :: "IamStatement \<Rightarrow> string \<Rightarrow> bool" where
  "statementCoversResource s resource =
     (if resources s \<noteq> [] then list_ex (\<lambda>pattern. matchesIamPattern pattern resource True) (resources s)
      else if notResources s \<noteq> []
      then \<not> list_ex (\<lambda>pattern. matchesIamPattern pattern resource True) (notResources s)
      else False)"

definition principalMatches :: "IamPrincipal \<Rightarrow> IamPrincipal \<Rightarrow> bool" where
  "principalMatches p selector \<longleftrightarrow>
     principal_type p = principal_type selector \<and> principal_id p = principal_id selector"

definition statementHasPrincipal :: "IamStatement \<Rightarrow> IamPrincipal \<Rightarrow> bool" where
  "statementHasPrincipal s selector = list_ex (\<lambda>p. principalMatches p selector) (principals s)"

definition statementHasNotPrincipal :: "IamStatement \<Rightarrow> IamPrincipal \<Rightarrow> bool" where
  "statementHasNotPrincipal s selector = list_ex (\<lambda>p. principalMatches p selector) (notPrincipals s)"

record ConditionSelector =
  cs_operator :: string
  cs_key :: string
  cs_value :: "string option"

definition statementHasCondition :: "IamStatement \<Rightarrow> ConditionSelector \<Rightarrow> bool" where
  "statementHasCondition s selector = list_ex (\<lambda>c.
     if toLowerCase (cond_operator c) \<noteq> toLowerCase (cs_operator selector) then False
     else if toLowerCase (cond_key c) \<noteq> toLowerCase (cs_key selector) then False
     else (case cs_value selector of None \<Rightarrow> True | Some v \<Rightarrow> v \<in> set (cond_values c))) (conditions s)"

text \<open>An absent boolean option of the selector is \<open>False\<close>.\<close>

record StatementSelector =
  sel_effect :: "Effect option"
  sel_actions :: "string list option"
  exactActions :: bool
  sel_resources :: "string list option"
  sel_condition :: "ConditionSelector option"
  sel_principals :: "IamPrincipal list option"
  exactPrincipals :: bool
  sel_notPrincipals :: "IamPrincipal list option"
  unconditional :: bool
  sel_sid :: "string option"

definition some_of :: "'a list option \<Rightarrow> ('a \<Rightarrow> bool) \<Rightarrow> bool" where
  "some_of xs P = (case xs of None \<Rightarrow> False | Some ys \<Rightarrow> list_ex P ys)"

definition selects :: "StatementSelector \<Rightarrow> IamStatement \<Rightarrow> bool" where
  "selects sel s =
     (if (case sel_effect sel of None \<Rightarrow> False | Some e \<Rightarrow> effect s \<noteq> e) then False
      else if (case sel_sid sel of None \<Rightarrow> False | Some i \<Rightarrow> sid s \<noteq> Some i) then False
      else if some_of (sel_actions sel) (\<lambda>action. \<not> statementCoversAction s action) then False
      else if exactActions sel \<and> sel_actions sel \<noteq> None \<and>
         (notActions s \<noteq> [] \<or>
          list_ex (\<lambda>own. \<not> some_of (sel_actions sel) (\<lambda>wanted. toLowerCase wanted = toLowerCase own)) (actions s))
      then False
      else if some_of (sel_resources sel) (\<lambda>resource. \<not> statementCoversResource s resource) then False
      else if (case sel_condition sel of None \<Rightarrow> False | Some c \<Rightarrow> \<not> statementHasCondition s c) then False
      else if some_of (sel_principals sel) (\<lambda>p. \<not> statementHasPrincipal s p) then False
      else if exactPrincipals sel \<and> sel_principals sel \<noteq> None \<and>
         list_ex (\<lambda>own. \<not> some_of (sel_principals sel) (principalMatches own)) (principals s)
      then False
      else if some_of (sel_notPrincipals sel) (\<lambda>p. \<not> statementHasNotPrincipal s p) then False
      else if unconditional sel \<and> conditions s \<noteq> [] then False
      else True)"

definition findStatements :: "IamPolicy \<Rightarrow> StatementSelector \<Rightarrow> IamStatement list" where
  "findStatements policy sel = filter (selects sel) (statements policy)"

section \<open>Conditions\<close>

definition NEGATED :: "string list" where
  "NEGATED = [''stringnotequals'', ''stringnotequalsignorecase'', ''stringnotlike'', ''arnnotequals'',
     ''arnnotlike'', ''numericnotequals'', ''notipaddress'']"

definition NUMERIC :: "string list" where
  "NUMERIC = [''numericequals'', ''numericnotequals'', ''numericlessthan'', ''numericlessthanequals'',
     ''numericgreaterthan'', ''numericgreaterthanequals'']"

definition KNOWN :: "string list" where
  "KNOWN = NEGATED @ NUMERIC @ [''stringequals'', ''stringequalsignorecase'', ''stringlike'',
     ''arnequals'', ''arnlike'', ''bool'', ''ipaddress'']"

datatype set_qualifier = Any_Value | All_Values

text \<open>The prefix and suffix of an operator, and the lower-case name between them.\<close>

definition strip_qualifier :: "string \<Rightarrow> set_qualifier option \<times> string" where
  "strip_qualifier operator =
     (if starts_with ''foranyvalue:'' (toLowerCase operator)
      then (Some Any_Value, drop (length ''ForAnyValue:'') operator)
      else if starts_with ''forallvalues:'' (toLowerCase operator)
      then (Some All_Values, drop (length ''ForAllValues:'') operator)
      else (None, operator))"

definition strip_if_exists :: "string \<Rightarrow> bool \<times> string" where
  "strip_if_exists operator =
     (if starts_with (rev ''ifexists'') (rev (toLowerCase operator))
      then (True, take (length operator - length ''IfExists'') operator)
      else (False, operator))"

definition numeric_compare :: "(string \<Rightarrow> 'n :: linorder option) \<Rightarrow> string \<Rightarrow> string \<Rightarrow> string \<Rightarrow> bool" where
  "numeric_compare num op value v = (case (num value, num v) of
       (Some actual, Some bound) \<Rightarrow>
         if op = ''numericequals'' then actual = bound
         else if op = ''numericnotequals'' then actual \<noteq> bound
         else if op = ''numericlessthan'' then actual < bound
         else if op = ''numericlessthanequals'' then actual \<le> bound
         else if op = ''numericgreaterthan'' then actual > bound
         else actual \<ge> bound
     | _ \<Rightarrow> False)"

definition as_block :: "string \<Rightarrow> Ipv4Cidr option" where
  "as_block v = parseIpv4Cidr (UString (if CHR ''/'' \<in> set v then v else v @ ''/32''))"

definition ip_inside :: "string \<Rightarrow> string list \<Rightarrow> bool" where
  "ip_inside value expected =
     list_ex (\<lambda>v. case (as_block v, as_block value) of
         (Some block, Some address) \<Rightarrow> cidrContains block address
       | _ \<Rightarrow> False) expected"

text \<open>The test of an operator whose key is present.\<close>

definition operator_holds ::
    "(string \<Rightarrow> 'n :: linorder option) \<Rightarrow> string \<Rightarrow> string \<Rightarrow> string list \<Rightarrow> bool" where
  "operator_holds num op value expected =
     (if op \<in> set NUMERIC
      then (if op = ''numericnotequals'' then list_all (numeric_compare num op value) expected
            else list_ex (numeric_compare num op value) expected)
      else if op \<in> {''stringequals'', ''arnequals''} then list_ex (\<lambda>v. v = value) expected
      else if op \<in> {''stringnotequals'', ''arnnotequals''} then \<not> list_ex (\<lambda>v. v = value) expected
      else if op = ''stringequalsignorecase''
      then list_ex (\<lambda>v. toLowerCase v = toLowerCase value) expected
      else if op = ''stringnotequalsignorecase''
      then \<not> list_ex (\<lambda>v. toLowerCase v = toLowerCase value) expected
      else if op \<in> {''stringlike'', ''arnlike''}
      then list_ex (\<lambda>v. matchesIamPattern v value True) expected
      else if op \<in> {''stringnotlike'', ''arnnotlike''}
      then \<not> list_ex (\<lambda>v. matchesIamPattern v value True) expected
      else if op = ''bool'' then list_ex (\<lambda>v. toLowerCase v = toLowerCase value) expected
      else if op = ''ipaddress'' then ip_inside value expected
      else \<not> ip_inside value expected)"

definition conditionHolds ::
    "(string \<Rightarrow> 'n :: linorder option) \<Rightarrow> string \<Rightarrow> string option \<Rightarrow> string list \<Rightarrow> iam_error + bool" where
  "conditionHolds num rawOperator value expected =
     (let (setQualifier, operator1) = strip_qualifier rawOperator;
          (ifExists, operator2) = strip_if_exists operator1;
          op = toLowerCase operator2
      in if op \<noteq> ''null'' \<and> op \<notin> set KNOWN then Inl (IamConditionUnsupportedError rawOperator)
         else if op = ''null''
         then let wantMissing = list_ex (\<lambda>v. toLowerCase v = ''true'') expected in
           Inr (if wantMissing then value = None else value \<noteq> None)
         else (case value of
             None \<Rightarrow>
               if ifExists \<or> setQualifier = Some All_Values then Inr True
               else if setQualifier = Some Any_Value then Inr False
               else Inr (op \<in> set NEGATED)
           | Some actual \<Rightarrow> Inr (operator_holds num op actual expected)))"

text \<open>\<open>every\<close> and \<open>filter\<close> with a callback that may throw.\<close>

fun every :: "('a \<Rightarrow> 'e + bool) \<Rightarrow> 'a list \<Rightarrow> 'e + bool" where
  "every f [] = Inr True"
| "every f (x # xs) = and_then (f x) (\<lambda>b. if b then every f xs else Inr False)"

fun filter_r :: "('a \<Rightarrow> 'e + bool) \<Rightarrow> 'a list \<Rightarrow> 'e + 'a list" where
  "filter_r f [] = Inr []"
| "filter_r f (x # xs) = and_then (f x) (\<lambda>b. and_then (filter_r f xs) (\<lambda>ys. Inr (if b then x # ys else ys)))"

definition context_get :: "(string \<times> string) list \<Rightarrow> string \<Rightarrow> string option" where
  "context_get context key =
     map_of (rev (map (\<lambda>(k, v). (toLowerCase k, v)) context)) (toLowerCase key)"

definition conditionsHold ::
    "(string \<Rightarrow> 'n :: linorder option) \<Rightarrow> IamStatement \<Rightarrow> (string \<times> string) list \<Rightarrow> iam_error + bool" where
  "conditionsHold num s context = every (\<lambda>c.
     conditionHolds num (cond_operator c) (context_get context (cond_key c)) (cond_values c)) (conditions s)"

section \<open>Decisions\<close>

datatype IamDecision = D_allow | D_explicitDeny | D_implicitDeny

record iam_request =
  req_action :: string
  req_resource :: string
  req_context :: "(string \<times> string) list option"

definition covers :: "IamStatement \<Rightarrow> iam_request \<Rightarrow> bool" where
  "covers s r \<longleftrightarrow> statementCoversAction s (req_action r) \<and> statementCoversResource s (req_resource r)"

definition applies :: "(string \<Rightarrow> 'n :: linorder option) \<Rightarrow> iam_request \<Rightarrow> IamStatement \<Rightarrow> iam_error + bool" where
  "applies num r s =
     (if covers s r
      then (case req_context r of None \<Rightarrow> Inr True | Some context \<Rightarrow> conditionsHold num s context)
      else Inr False)"

definition evaluateIamPolicy ::
    "(string \<Rightarrow> 'n :: linorder option) \<Rightarrow> IamPolicy \<Rightarrow> iam_request \<Rightarrow> iam_error + IamDecision" where
  "evaluateIamPolicy num policy r =
     and_then (filter_r (applies num r) (statements policy)) (\<lambda>matching.
       if list_ex (\<lambda>s. effect s = Deny) matching then Inr D_explicitDeny
       else if list_ex (\<lambda>s. effect s = Allow) matching then Inr D_allow
       else Inr D_implicitDeny)"

definition mayAllowInAnyContext :: "IamPolicy \<Rightarrow> iam_request \<Rightarrow> bool" where
  "mayAllowInAnyContext policy r =
     (let covering = filter (\<lambda>s. covers s r) (statements policy) in
      if list_ex (\<lambda>s. effect s = Deny \<and> conditions s = []) covering then False
      else list_ex (\<lambda>s. effect s = Allow) covering)"

datatype wildcard_field = F_Action | F_Resource | F_Principal

definition wildcardStatements :: "IamPolicy \<Rightarrow> wildcard_field \<Rightarrow> Effect option \<Rightarrow> IamStatement list" where
  "wildcardStatements policy field eff = filter (\<lambda>s.
     if (case eff of None \<Rightarrow> False | Some e \<Rightarrow> effect s \<noteq> e) then False
     else (case field of
         F_Principal \<Rightarrow> list_ex (\<lambda>p. principal_id p = ''*'') (principals s)
       | F_Action \<Rightarrow> ''*'' \<in> set (actions s)
       | F_Resource \<Rightarrow> ''*'' \<in> set (resources s))) (statements policy)"

section \<open>The wildcards against their meaning\<close>

text \<open>The reference: a star stands for any sequence, a question mark for one character.\<close>

definition one_char :: "char \<Rightarrow> char \<Rightarrow> bool" where
  "one_char c x \<longleftrightarrow> c = CHR ''?'' \<or> c = x"

fun glob :: "string \<Rightarrow> string \<Rightarrow> bool" where
  "glob [] v \<longleftrightarrow> v = []"
| "glob (c # p) [] \<longleftrightarrow> c = CHR ''*'' \<and> glob p []"
| "glob (c # p) (x # v) \<longleftrightarrow>
     (if c = CHR ''*'' then glob p (x # v) \<or> glob (c # p) v else one_char c x \<and> glob p v)"

lemma glob_star: "glob (CHR ''*'' # p) v \<longleftrightarrow> (\<exists>k\<le>length v. glob p (drop k v))"
proof (induction v)
  case (Cons x v)
  have "(\<exists>k\<le>length (x # v). glob p (drop k (x # v))) \<longleftrightarrow>
      glob p (x # v) \<or> (\<exists>k\<le>length v. glob p (drop k v))"
    by (metis Suc_le_mono drop_0 drop_Suc_Cons le0 length_Cons not0_implies_Suc)
  with Cons show ?case by simp
qed simp

lemma glob_star_from:
  assumes "j \<le> length v"
  shows "glob (CHR ''*'' # p) (drop j v) \<longleftrightarrow> (\<exists>k\<ge>j. k \<le> length v \<and> glob p (drop k v))"
proof
  assume "glob (CHR ''*'' # p) (drop j v)"
  then obtain k where "k \<le> length v - j" "glob p (drop (k + j) v)" by (auto simp: glob_star)
  with assms show "\<exists>k\<ge>j. k \<le> length v \<and> glob p (drop k v)" by (intro exI [of _ "k + j"]) simp
next
  assume "\<exists>k\<ge>j. k \<le> length v \<and> glob p (drop k v)"
  then obtain k where "j \<le> k" "k \<le> length v" "glob p (drop k v)" by blast
  then show "glob (CHR ''*'' # p) (drop j v)" unfolding glob_star by (intro exI [of _ "k - j"]) simp
qed

lemma glob_Nil: "glob p [] \<longleftrightarrow> dropWhile (\<lambda>c. c = CHR ''*'') p = []"
  by (induction p) auto

lemma glob_segment:
  "CHR ''*'' \<notin> set seg \<Longrightarrow>
     glob (seg @ p) v \<longleftrightarrow> length seg \<le> length v \<and>
       (\<forall>i<length seg. one_char (seg ! i) (v ! i)) \<and> glob p (drop (length seg) v)"
proof (induction seg arbitrary: v)
  case (Cons c seg)
  show ?case
  proof (cases v)
    case (Cons x w)
    with Cons.prems Cons.IH [of w] show ?thesis by (auto simp: nth_Cons less_Suc_eq_0_disj split: nat.splits)
  qed (use Cons.prems in auto)
qed simp

text \<open>
  The invariant of the loop: since the last star, at \<open>s\<close>, the pattern read has no
  star and is as long as the value read, and the value matches if the rest matches
  from here or the last star swallows more.
\<close>

definition retry :: "string \<Rightarrow> string \<Rightarrow> nat option \<Rightarrow> nat \<Rightarrow> bool" where
  "retry p v starAt matchAt \<longleftrightarrow> (\<exists>s k. starAt = Some s \<and> matchAt < k \<and> k \<le> length v \<and>
     glob (drop (Suc s) p) (drop k v))"

definition match_inv :: "string \<Rightarrow> string \<Rightarrow> match_state \<Rightarrow> bool" where
  "match_inv p v = (\<lambda>(pi, vi, starAt, matchAt).
     pi \<le> length p \<and> vi \<le> length v \<and>
     (case starAt of None \<Rightarrow> True | Some s \<Rightarrow> matchAt \<le> vi \<and> pi = Suc s + (vi - matchAt) \<and>
        CHR ''*'' \<notin> set (take (vi - matchAt) (drop (Suc s) p))) \<and>
     (glob p v \<longleftrightarrow> glob (drop pi p) (drop vi v) \<or> retry p v starAt matchAt))"

text \<open>The pattern after the last star is what was read since, then the rest.\<close>

lemma retry_needs:
  assumes "match_inv p v (pi, vi, starAt, matchAt)" and "retry p v starAt matchAt"
  shows "\<exists>j. vi < j \<and> j \<le> length v \<and> glob (drop pi p) (drop j v)"
proof -
  from assms(2) obtain s k where s: "starAt = Some s" and k: "matchAt < k" "k \<le> length v"
      and g: "glob (drop (Suc s) p) (drop k v)" by (auto simp: retry_def)
  let ?seg = "take (vi - matchAt) (drop (Suc s) p)"
  from assms(1) s have inv: "matchAt \<le> vi" "pi = Suc s + (vi - matchAt)" "CHR ''*'' \<notin> set ?seg" "pi \<le> length p"
    by (auto simp: match_inv_def)
  have "?seg @ drop (vi - matchAt) (drop (Suc s) p) = drop (Suc s) p" by (rule append_take_drop_id)
  also have "drop (vi - matchAt) (drop (Suc s) p) = drop pi p" by (simp add: inv(2) add.commute)
  finally have split: "?seg @ drop pi p = drop (Suc s) p" .
  have len: "length ?seg = vi - matchAt" using inv by simp
  from g glob_segment [OF inv(3), of "drop pi p" "drop k v"]
  have "length ?seg \<le> length v - k" "glob (drop pi p) (drop (length ?seg) (drop k v))"
    unfolding split by simp_all
  moreover from this len inv(1) k have "vi < k + (vi - matchAt)" "k + (vi - matchAt) \<le> length v" by linarith+
  ultimately show ?thesis using len by (intro exI [of _ "k + (vi - matchAt)"]) (simp add: add.commute)
qed

lemma match_inv_step:
  assumes inv: "match_inv p v (pi, vi, starAt, matchAt)" and "vi < length v" and v: "CHR ''*'' \<notin> set v"
    and step: "match_step p v (pi, vi, starAt, matchAt) = Some s'"
  shows "match_inv p v s'"
proof -
  have dv: "drop vi v = v ! vi # drop (Suc vi) v" using assms(2) by (simp add: Cons_nth_drop_Suc)
  have vx: "v ! vi \<noteq> CHR ''*''" using v assms(2) by (metis nth_mem)
  consider (eat) "pi < length p" "one_char (p ! pi) (v ! vi)"
    | (star) "pi < length p" "p ! pi = CHR ''*''" "\<not> one_char (p ! pi) (v ! vi)"
    | (again) s where "starAt = Some s" "\<not> (pi < length p \<and> (one_char (p ! pi) (v ! vi) \<or> p ! pi = CHR ''*''))"
    using step by (auto simp: match_step.simps one_char_def split: if_splits option.splits)
  then show ?thesis
  proof cases
    case eat
    have dp: "drop pi p = p ! pi # drop (Suc pi) p" using eat(1) by (simp add: Cons_nth_drop_Suc)
    have px: "p ! pi \<noteq> CHR ''*''" using eat(2) vx by (auto simp: one_char_def)
    have s': "s' = (Suc pi, Suc vi, starAt, matchAt)"
      using step eat by (auto simp: match_step.simps one_char_def)
    have "glob (drop pi p) (drop vi v) \<longleftrightarrow> glob (drop (Suc pi) p) (drop (Suc vi) v)"
      using eat px unfolding dp dv by simp
    moreover have "CHR ''*'' \<notin> set (take (Suc vi - matchAt) (drop (Suc s) p))"
      if "starAt = Some s" "matchAt \<le> vi" "pi = Suc s + (vi - matchAt)"
        "CHR ''*'' \<notin> set (take (vi - matchAt) (drop (Suc s) p))" for s
      using that px eat(1) by (simp add: Suc_diff_le take_Suc_conv_app_nth)
    ultimately show ?thesis
      using inv eat(1) assms(2) unfolding s' match_inv_def by (auto simp: Suc_diff_le split: option.splits)
  next
    case star
    have dp: "drop pi p = CHR ''*'' # drop (Suc pi) p"
      using star(1,2) Cons_nth_drop_Suc [of pi p] by simp
    have s': "s' = (Suc pi, vi, Some pi, vi)"
      using step star by (auto simp: match_step.simps one_char_def)
    have here: "glob (drop pi p) (drop j v) \<longleftrightarrow> (\<exists>k\<ge>j. k \<le> length v \<and> glob (drop (Suc pi) p) (drop k v))"
      if "j \<le> length v" for j
      using that glob_star_from [of j v] by (simp add: dp)
    have "glob (drop pi p) (drop vi v)" if "retry p v starAt matchAt"
      using retry_needs [OF inv that] here assms(2) by (meson less_imp_le order_trans)
    then have "glob p v \<longleftrightarrow> glob (drop pi p) (drop vi v)" using inv by (auto simp: match_inv_def)
    also have "\<dots> \<longleftrightarrow> glob (drop (Suc pi) p) (drop vi v) \<or> retry p v (Some pi) vi"
      using here [of vi] assms(2) by (auto simp: retry_def order_le_less)
    finally show ?thesis using inv star(1) unfolding s' match_inv_def by auto
  next
    case (again s)
    have s': "s' = (Suc s, Suc matchAt, starAt, Suc matchAt)"
      using step again by (auto simp: match_step.simps one_char_def split: if_splits)
    have "\<not> glob (drop pi p) (drop vi v)"
    proof (cases "pi < length p")
      case True
      then have "drop pi p = p ! pi # drop (Suc pi) p" by (simp add: Cons_nth_drop_Suc)
      with again(2) True show ?thesis by (simp add: dv)
    qed (simp add: dv)
    moreover have "retry p v starAt matchAt \<longleftrightarrow>
        glob (drop (Suc s) p) (drop (Suc matchAt) v) \<or> retry p v starAt (Suc matchAt)" if "matchAt < length v"
    proof -
      have "retry p v starAt m \<longleftrightarrow> (\<exists>k>m. k \<le> length v \<and> glob (drop (Suc s) p) (drop k v))" for m
        by (simp add: retry_def again(1))
      with that show ?thesis by (metis Suc_leI Suc_lessD Suc_lessI lessI)
    qed
    ultimately show ?thesis
      using inv again(1) assms(2) unfolding s' match_inv_def by (auto simp del: drop_Suc)
  qed
qed

lemma match_loop_glob:
  "match_inv p v s \<Longrightarrow> CHR ''*'' \<notin> set v \<Longrightarrow>
     glob p v \<longleftrightarrow> (case match_loop p v s of None \<Rightarrow> False | Some pi \<Rightarrow> glob (drop pi p) [])"
proof (induction p v s rule: match_loop.induct)
  case (1 p v pi vi starAt matchAt)
  show ?case
  proof (cases "vi < length v")
    case True
    show ?thesis
    proof (cases "match_step p v (pi, vi, starAt, matchAt)")
      case None
      then have n: "starAt = None" "\<not> (pi < length p \<and> (one_char (p ! pi) (v ! vi) \<or> p ! pi = CHR ''*''))"
        by (auto simp: match_step.simps one_char_def split: if_splits option.splits)
      have "\<not> glob (drop pi p) (drop vi v)"
      proof (cases "pi < length p")
        case pl: True
        then have "drop pi p = p ! pi # drop (Suc pi) p" "drop vi v = v ! vi # drop (Suc vi) v"
          using True by (simp_all add: Cons_nth_drop_Suc)
        with n(2) pl show ?thesis by simp
      qed (use True in simp)
      with "1.prems"(1) n(1) None True show ?thesis
        by (auto simp: match_inv_def retry_def match_loop.simps [of p v pi])
    next
      case (Some s')
      with 1 True match_inv_step [OF "1.prems"(1) True "1.prems"(2) Some] show ?thesis
        by (simp add: match_loop.simps [of p v pi])
    qed
  next
    case False
    with "1.prems"(1) have "vi = length v" by (auto simp: match_inv_def)
    moreover have "\<not> retry p v starAt matchAt"
      using retry_needs [OF "1.prems"(1)] \<open>vi = length v\<close> by auto
    ultimately show ?thesis
      using "1.prems"(1) by (simp add: match_inv_def match_loop.simps [of p v pi])
  qed
qed

text \<open>Iterations of the loop, the same recursion with a counter.\<close>

function match_iterations :: "string \<Rightarrow> string \<Rightarrow> match_state \<Rightarrow> nat" where
  "match_iterations p v (pi, vi, starAt, matchAt) =
     (if vi < length v
      then Suc (case match_step p v (pi, vi, starAt, matchAt) of
                  None \<Rightarrow> 0
                | Some s \<Rightarrow> match_iterations p v s)
      else 0)"
  by pat_completeness auto
termination
  by (relation "measures [\<lambda>(p, v, s). if behind s then 1 else 0,
       \<lambda>(p, v, (pi, vi, starAt, matchAt)). length v - (if vi < matchAt then vi else matchAt),
       \<lambda>(p, v, (pi, vi, starAt, matchAt)). length p - pi]")
    (auto simp: behind_def match_step.simps split: if_splits option.splits)

declare match_iterations.simps [simp del]

definition potential :: "string \<Rightarrow> string \<Rightarrow> match_state \<Rightarrow> nat" where
  "potential p v = (\<lambda>(pi, vi, starAt, matchAt). (length v - matchAt) * Suc (length p) + (length p - pi))"

lemma potential_step:
  assumes "matchAt \<le> vi" "vi < length v" "match_step p v (pi, vi, starAt, matchAt) = Some s'"
  shows "potential p v s' < potential p v (pi, vi, starAt, matchAt) \<and> \<not> behind s'"
proof -
  consider (eat) "pi < length p" "s' = (Suc pi, Suc vi, starAt, matchAt)"
    | (star) "pi < length p" "s' = (Suc pi, vi, Some pi, vi)"
    | (again) s where "s' = (Suc s, Suc matchAt, starAt, Suc matchAt)"
    using assms(3) by (auto simp: match_step.simps split: if_splits option.splits)
  then show ?thesis
  proof cases
    case star
    have "(length v - vi) * Suc (length p) \<le> (length v - matchAt) * Suc (length p)"
      using assms(1) by (intro mult_right_mono) auto
    then have "(length v - vi) * Suc (length p) + (length p - Suc pi) <
        (length v - matchAt) * Suc (length p) + (length p - pi)" using star(1) by linarith
    with star show ?thesis by (simp only: potential_def behind_def split) simp
  next
    case (again s)
    have "length v - matchAt = Suc (length v - Suc matchAt)" using assms(1,2) by simp
    with again show ?thesis by (simp add: potential_def behind_def del: mult_Suc_right)
  qed (use assms in \<open>simp add: potential_def behind_def\<close>)
qed

lemma match_iterations_potential: "\<not> behind s \<Longrightarrow> match_iterations p v s \<le> potential p v s"
proof (induction p v s rule: match_iterations.induct)
  case (1 p v pi vi starAt matchAt)
  show ?case
  proof (cases "vi < length v")
    case True
    from "1.prems" have le: "matchAt \<le> vi" by (simp add: behind_def)
    show ?thesis
    proof (cases "match_step p v (pi, vi, starAt, matchAt)")
      case None
      have "length v - matchAt \<noteq> 0" using le True by simp
      then have "1 \<le> potential p v (pi, vi, starAt, matchAt)" by (simp add: potential_def)
      with None True show ?thesis by (simp add: match_iterations.simps)
    next
      case (Some s')
      from "1.IH" [OF True Some] potential_step [OF le True Some] Some True show ?thesis
        by (simp add: match_iterations.simps [of p v pi])
    qed
  qed (simp add: match_iterations.simps)
qed

lemma lower_char_star: "lower_char c = CHR ''*'' \<longleftrightarrow> c = CHR ''*''"
proof
  assume l: "lower_char c = CHR ''*''"
  show "c = CHR ''*''"
  proof (cases "65 \<le> (of_char c :: nat) \<and> (of_char c :: nat) \<le> 90")
    case True
    then have "(of_char (lower_char c) :: nat) = of_char c + 32" by (simp add: lower_char_def)
    with l True show ?thesis by simp
  next
    case False
    with l show ?thesis by (auto simp: lower_char_def Let_def split: if_splits)
  qed
qed (simp add: lower_char_def)

lemma match_loop_start:
  assumes "CHR ''*'' \<notin> set v"
  shows "(case match_loop p v (0, 0, None, 0) of None \<Rightarrow> False
          | Some pi \<Rightarrow> dropWhile (\<lambda>c. c = CHR ''*'') (drop pi p) = []) \<longleftrightarrow> glob p v"
proof -
  have "match_inv p v (0, 0, None, 0)" by (simp add: match_inv_def retry_def)
  from match_loop_glob [OF this assms] show ?thesis by (simp add: glob_Nil split: option.splits)
qed

text \<open>
  C12. The wildcard matcher computes the documented meaning of the two wildcards for
  every value without a star: \<open>*\<close> is any sequence, \<open>?\<close> one character, and everything
  else is literal, without regard to case unless asked for. The single remembered
  star position loses nothing.
\<close>

theorem matchesIamPattern_correct:
  assumes "CHR ''*'' \<notin> set value"
  shows "(matchesIamPattern pattern value True \<longleftrightarrow> glob pattern value) \<and>
     (matchesIamPattern pattern value False \<longleftrightarrow> glob (toLowerCase pattern) (toLowerCase value))"
proof -
  have "CHR ''*'' \<notin> set (toLowerCase value)"
    using assms unfolding toLowerCase_def set_map by (metis imageE lower_char_star)
  with assms show ?thesis by (simp add: matchesIamPattern_def match_loop_start)
qed

theorem matchesIamPattern_correct_witness:
  "matchesIamPattern ''b/*/a?.t'' ''b/x/ab.t'' True \<and>
   glob ''b/*/a?.t'' ''b/x/ab.t'' \<and>
   \<not> glob ''s3:get*'' ''s3:put''"
proof -
  have a: "CHR ''*'' \<notin> set ''b/x/ab.t''" and b: "CHR ''*'' \<notin> set ''s3:put''" by simp_all
  have "matchesIamPattern ''b/*/a?.t'' ''b/x/ab.t'' True" by code_simp
  moreover have "\<not> matchesIamPattern ''s3:get*'' ''s3:put'' True" by code_simp
  ultimately show ?thesis
    using matchesIamPattern_correct [OF a] matchesIamPattern_correct [OF b] by blast
qed

text \<open>
  A student's pattern cannot make the matcher slow: the loop runs at most
  \<open>(|pattern| + 1) * (|value| + 1)\<close> times, whatever the pattern.
\<close>

theorem matchesIamPattern_bounded:
  "match_iterations p v (0, 0, None, 0) \<le> (length p + 1) * (length v + 1)"
proof -
  have "match_iterations p v (0, 0, None, 0) \<le> potential p v (0, 0, None, 0)"
    by (rule match_iterations_potential) (simp add: behind_def)
  also have "\<dots> \<le> (length p + 1) * (length v + 1)" by (simp add: potential_def algebra_simps)
  finally show ?thesis .
qed

text \<open>
  A star in the value is taken for a literal match of a star in the pattern, and
  the wildcard is lost: the pattern \<open>s3:*\<close> does not match the value \<open>s3:*Object\<close>,
  although a star stands for any sequence.
\<close>

theorem star_in_value_is_lost:
  "\<not> matchesIamPattern ''s3:*'' ''s3:*Object'' True \<and> glob ''s3:*'' ''s3:*Object'' \<and>
   matchesIamPattern ''s3:*'' ''s3:GetObject'' True"
proof -
  have "\<not> matchesIamPattern ''s3:*'' ''s3:*Object'' True" by code_simp
  moreover have "glob ''s3:*'' ''s3:*Object''" by (simp add: one_char_def)
  moreover have "matchesIamPattern ''s3:*'' ''s3:GetObject'' True" by code_simp
  ultimately show ?thesis by blast
qed

section \<open>Parsed policies\<close>

definition statement_wf :: "IamStatement \<Rightarrow> bool" where
  "statement_wf s \<longleftrightarrow>
     (actions s = []) \<noteq> (notActions s = []) \<and>
     (resources s = [] \<or> notResources s = []) \<and>
     (principals s = [] \<or> notPrincipals s = []) \<and>
     (effect s = Allow \<longrightarrow> notPrincipals s = []) \<and>
     (resources s = [] \<and> notResources s = [] \<longrightarrow> principals s \<noteq> [] \<or> notPrincipals s \<noteq> []) \<and>
     (\<forall>p\<in>set (principals s @ notPrincipals s). principal_type p = P_AWS \<longrightarrow>
        expandAccountId (principal_id p) = principal_id p)"

lemma expandAccountId_idem: "expandAccountId (expandAccountId i) = expandAccountId i"
  by (simp add: expandAccountId_def)

lemma principal_entry_expanded:
  "parse_principal_entry i field e = Inr ps \<Longrightarrow> p \<in> set ps \<Longrightarrow> principal_type p = P_AWS \<Longrightarrow>
     expandAccountId (principal_id p) = principal_id p"
  by (auto simp: parse_principal_entry_def expandAccountId_idem split: option.splits prod.splits)

lemma principals_expanded:
  assumes "parsePrincipals raw i field = Inr ps" "p \<in> set ps" "principal_type p = P_AWS"
  shows "expandAccountId (principal_id p) = principal_id p"
  using assms
proof (cases rule: parsePrincipals.cases [of "(raw, i, field)"])
  case (3 entries i' field')
  with assms(1) obtain pss where "each (parse_principal_entry i field) entries = Inr pss" "ps = concat pss"
    by (auto split: if_splits)
  with assms(2,3) show ?thesis
    by (fastforce simp: each_Inr list_all2_conv_all_nth in_set_conv_nth intro: principal_entry_expanded)
qed (auto simp: expandAccountId_def split: if_splits)

lemma parseStatement_wf:
  assumes "parseStatement i raw = Inr s"
  shows "statement_wf s \<and> stmt_index s = i"
proof -
  from assms obtain source where raw: "raw = JObject source"
    by (auto simp: parseStatement_def split: json.splits)
  from assms obtain ps nps where
      ps: "parsePrincipals (map_of source ''Principal'') i ''Principal'' = Inr ps" "principals s = ps"
      and nps: "parsePrincipals (map_of source ''NotPrincipal'') i ''NotPrincipal'' = Inr nps" "notPrincipals s = nps"
    by (auto simp: parseStatement_def raw Let_def)
  from assms have "(actions s = []) \<noteq> (notActions s = [])" "resources s = [] \<or> notResources s = []"
    "principals s = [] \<or> notPrincipals s = []" "effect s = Allow \<longrightarrow> notPrincipals s = []"
    "resources s = [] \<and> notResources s = [] \<longrightarrow> principals s \<noteq> [] \<or> notPrincipals s \<noteq> []" "stmt_index s = i"
    by (auto simp: parseStatement_def raw Let_def)
  with principals_expanded [OF ps(1)] principals_expanded [OF nps(1)] ps(2) nps(2) show ?thesis
    by (auto simp: statement_wf_def)
qed

lemma enumerate_statements:
  "each (\<lambda>(i, s). parseStatement i s) (enumerate n raws) = Inr sts \<Longrightarrow>
     length sts = length raws \<and> (\<forall>k<length sts. statement_wf (sts ! k) \<and> stmt_index (sts ! k) = n + k)"
  by (auto simp: each_Inr list_all2_conv_all_nth nth_enumerate_eq dest: parseStatement_wf)

text \<open>The parser throws nothing but parse errors.\<close>

definition parse_only :: "iam_error + 'a \<Rightarrow> bool" where
  "parse_only r \<longleftrightarrow> (\<forall>e. r = Inl e \<longrightarrow> (\<exists>reason. e = IamPolicyParseError reason))"

named_theorems parse_only_intros \<open>which functions throw nothing but parse errors\<close>

lemma parse_only_base [parse_only_intros]: "parse_only (Inr x)" "parse_only (Inl (IamPolicyParseError reason))"
  by (simp_all add: parse_only_def)

lemma parse_only_unless [parse_only_intros]: "parse_only (unless ok (IamPolicyParseError reason))"
  by (simp add: parse_only_def unless_def)

lemma parse_only_and_then [parse_only_intros]:
  "parse_only r \<Longrightarrow> (\<And>x. parse_only (f x)) \<Longrightarrow> parse_only (and_then r f)"
  by (auto simp: parse_only_def and_then_def split: sum.splits)

lemma parse_only_each [parse_only_intros]: "(\<And>x. parse_only (f x)) \<Longrightarrow> parse_only (each f xs)"
  by (induction xs) (auto intro!: parse_only_intros)

lemma parse_only_string [parse_only_intros]: "parse_only (string_entry field x)"
  by (cases x) (auto intro: parse_only_intros)

lemma parse_only_asArray [parse_only_intros]: "parse_only (asArray raw field)"
  by (cases "(raw, field)" rule: asArray.cases) (auto intro: parse_only_intros)

lemma parse_only_conditions [parse_only_intros]: "parse_only (parseConditions raw i)"
proof -
  have "parse_only (condition_values v field)" for v field
    by (cases v) (auto intro: parse_only_intros)
  then have "parse_only (parse_operator i entry)" for entry
    by (cases "(i, entry)" rule: parse_operator.cases) (auto intro!: parse_only_intros)
  then show ?thesis by (cases "(raw, i)" rule: parseConditions.cases) (auto intro!: parse_only_intros)
qed

lemma parse_only_principals [parse_only_intros]: "parse_only (parsePrincipals raw i field)"
proof -
  have "parse_only (parse_principal_entry i field entry)" for entry
    by (auto simp: parse_principal_entry_def split: prod.splits option.splits intro!: parse_only_intros)
  then show ?thesis by (cases "(raw, i, field)" rule: parsePrincipals.cases) (auto intro!: parse_only_intros)
qed

lemma parse_only_effect [parse_only_intros]: "parse_only (parse_effect i raw)"
  by (auto simp: parse_effect_def Let_def split: option.splits json.splits intro!: parse_only_intros)

lemma parse_only_statement [parse_only_intros]: "parse_only (parseStatement i raw)"
  unfolding parseStatement_def Let_def
  by (cases raw) (simp_all, (intro parse_only_intros)+)

lemma parse_only_policy: "parse_only (parseIamPolicy JSON_parse text)"
  unfolding parseIamPolicy_def Let_def
  by (auto split: sum.splits json.splits option.splits intro!: parse_only_intros)

text \<open>
  A policy that parses is well formed: it has a statement; each statement has
  exactly one of \<open>Action\<close> and \<open>NotAction\<close>, at most one of \<open>Resource\<close> and
  \<open>NotResource\<close> and of \<open>Principal\<close> and \<open>NotPrincipal\<close>, names a resource unless it is
  resource based, never allows with \<open>NotPrincipal\<close>, and carries its position; account
  ids are expanded to root ARNs. Everything else is refused with a parse error.
\<close>

theorem parseIamPolicy_wellformed:
  "case parseIamPolicy JSON_parse text of
      Inr policy \<Rightarrow> statements policy \<noteq> [] \<and> list_all statement_wf (statements policy) \<and>
        map stmt_index (statements policy) = [0..<length (statements policy)]
    | Inl e \<Rightarrow> (\<exists>reason. e = IamPolicyParseError reason)"
proof (cases "parseIamPolicy JSON_parse text")
  case (Inl e)
  with parse_only_policy [of JSON_parse "text"] show ?thesis by (simp add: parse_only_def)
next
  case (Inr policy)
  then obtain raws where "raws \<noteq> []"
      "each (\<lambda>(i, s). parseStatement i s) (enumerate 0 raws) = Inr (statements policy)"
    by (atomize_elim, auto simp: parseIamPolicy_def Let_def split: sum.splits json.splits option.splits if_splits)
  with enumerate_statements [of 0 raws "statements policy"] Inr show ?thesis
    by (auto simp: list_all_length intro: nth_equalityI)
qed

section \<open>Decisions\<close>

lemma every_Inr_True: "every f xs = Inr True \<Longrightarrow> \<forall>x\<in>set xs. f x = Inr True"
  by (induction xs) (auto split: if_splits)

lemma every_Inl: "every f xs = Inl e \<Longrightarrow> \<exists>x\<in>set xs. f x = Inl e"
  by (induction xs) (auto simp: and_then_def split: if_splits sum.splits)

lemma filter_r_Inr:
  "filter_r f xs = Inr ys \<longleftrightarrow> (\<forall>x\<in>set xs. \<exists>b. f x = Inr b) \<and> ys = filter (\<lambda>x. f x = Inr True) xs"
proof (induction xs arbitrary: ys)
  case (Cons x xs)
  then show ?case by (cases "f x"; cases "filter_r f xs") (auto simp: and_then_def)
qed auto

lemma filter_r_Inl: "filter_r f xs = Inl e \<Longrightarrow> \<exists>x\<in>set xs. f x = Inl e"
  by (induction xs) (auto simp: and_then_def split: sum.splits)

text \<open>The statements that apply to a request, with an effect.\<close>

definition applicable ::
    "(string \<Rightarrow> 'n :: linorder option) \<Rightarrow> IamPolicy \<Rightarrow> iam_request \<Rightarrow> Effect \<Rightarrow> bool" where
  "applicable num policy r e \<longleftrightarrow>
     (\<exists>s\<in>set (statements policy). effect s = e \<and> applies num r s = Inr True)"

lemma evaluate_Inr:
  "evaluateIamPolicy num policy r = Inr d \<longleftrightarrow>
     (\<forall>s\<in>set (statements policy). \<exists>b. applies num r s = Inr b) \<and>
     d = (if applicable num policy r Deny then D_explicitDeny
          else if applicable num policy r Allow then D_allow else D_implicitDeny)"
  by (auto simp: evaluateIamPolicy_def filter_r_Inr applicable_def list_ex_iff)


text \<open>A bucket policy: read everything, but never without encryption in transit.\<close>

definition demo_statement :: "Effect \<Rightarrow> string \<Rightarrow> IamCondition list \<Rightarrow> IamStatement" where
  "demo_statement e action conds = \<lparr>stmt_index = 0, sid = None, effect = e, actions = [action],
     notActions = [], resources = [''b/*''], notResources = [], principals = [], notPrincipals = [],
     conditions = conds\<rparr>"

definition demo_policy :: IamPolicy where
  "demo_policy = \<lparr>version = None, statements = [demo_statement Allow ''s3:*'' [],
     demo_statement Deny ''*'' [\<lparr>cond_operator = ''Bool'', cond_key = ''t'', cond_values = [''false'']\<rparr>]]\<rparr>"

definition demo_request :: "string \<Rightarrow> iam_request" where
  "demo_request secure = \<lparr>req_action = ''s3:Get'', req_resource = ''b/k'', req_context = Some [(''T'', secure)]\<rparr>"

definition demo_num :: "string \<Rightarrow> nat option" where
  "demo_num s = (if s \<noteq> [] \<and> list_all is_digit s then Some (read_nat s) else None)"

lemma demo_decisions:
  "evaluateIamPolicy demo_num demo_policy (demo_request ''true'') = Inr D_allow"
  "evaluateIamPolicy demo_num demo_policy (demo_request ''false'') = Inr D_explicitDeny"
  by code_simp+


text \<open>
  C11. \<open>mayAllowInAnyContext\<close> errs only in the safe direction: if any request context
  makes the policy allow the action on the resource, it answers true. For a policy
  without conditions it is exact.
\<close>

theorem mayAllowInAnyContext_sound:
  "(evaluateIamPolicy num policy (r\<lparr>req_context := ctx\<rparr>) = Inr D_allow \<longrightarrow> mayAllowInAnyContext policy r) \<and>
   ((\<forall>s\<in>set (statements policy). conditions s = []) \<longrightarrow>
      (mayAllowInAnyContext policy r \<longleftrightarrow> evaluateIamPolicy num policy (r\<lparr>req_context := ctx\<rparr>) = Inr D_allow))"
proof -
  let ?r = "r\<lparr>req_context := ctx\<rparr>"
  have cov: "covers s ?r = covers s r" for s by (simp add: covers_def)
  have appl: "applies num ?r s = Inr True \<Longrightarrow> covers s r" for s
    by (auto simp: applies_def cov split: if_splits)
  have plain: "applies num ?r s = Inr (covers s r)" if "conditions s = []" for s
    using that by (simp add: applies_def cov conditionsHold_def split: option.splits)
  have "mayAllowInAnyContext policy r" if "evaluateIamPolicy num policy ?r = Inr D_allow"
    using that plain appl
    by (fastforce simp: evaluate_Inr mayAllowInAnyContext_def applicable_def list_ex_iff split: if_splits)
  moreover have "mayAllowInAnyContext policy r \<longleftrightarrow> evaluateIamPolicy num policy ?r = Inr D_allow"
    if "\<forall>s\<in>set (statements policy). conditions s = []"
    using that plain
    by (auto simp: evaluate_Inr mayAllowInAnyContext_def applicable_def list_ex_iff split: if_splits)
  ultimately show ?thesis by blast
qed

theorem mayAllowInAnyContext_sound_witness:
  "evaluateIamPolicy demo_num demo_policy (demo_request ''true'') = Inr D_allow \<and>
   mayAllowInAnyContext demo_policy (demo_request ''false'')"
proof -
  have "demo_request ''true'' = (demo_request ''false'')\<lparr>req_context := Some [(''T'', ''true'')]\<rparr>"
    by (simp add: demo_request_def)
  with demo_decisions(1)
    mayAllowInAnyContext_sound [where num = demo_num and policy = demo_policy and
      r = "demo_request ''false''" and ctx = "Some [(''T'', ''true'')]"]
  show ?thesis by simp
qed

lemma conditionHolds_Inl:
  "conditionHolds num operator value expected = Inl e \<Longrightarrow> e = IamConditionUnsupportedError operator"
  by (auto simp: conditionHolds_def Let_def split: prod.splits if_splits option.splits)

text \<open>
  Evaluation fails only for a condition it does not implement: without a context it
  always decides, and an error names the operator of a condition of a statement that
  covers the request.
\<close>

theorem evaluate_error:
  "(req_context r = None \<longrightarrow> evaluateIamPolicy num policy r \<noteq> Inl e) \<and>
   (evaluateIamPolicy num policy r = Inl e \<longrightarrow>
      (\<exists>s\<in>set (statements policy). covers s r \<and>
         (\<exists>c\<in>set (conditions s). e = IamConditionUnsupportedError (cond_operator c))))"
proof -
  have "\<exists>s\<in>set (statements policy). applies num r s = Inl e" if "evaluateIamPolicy num policy r = Inl e"
    using that filter_r_Inl [of "applies num r" "statements policy" e]
    by (auto simp: evaluateIamPolicy_def and_then_def split: sum.splits if_splits)
  moreover have "req_context r \<noteq> None \<and> covers s r \<and>
      (\<exists>c\<in>set (conditions s). e = IamConditionUnsupportedError (cond_operator c))"
    if "applies num r s = Inl e" for s
    using that
    by (auto simp: applies_def conditionsHold_def split: if_splits option.splits dest!: every_Inl)
      (blast dest: conditionHolds_Inl)
  ultimately show ?thesis by blast
qed

definition demo_unsupported :: IamPolicy where
  "demo_unsupported = \<lparr>version = None, statements = [demo_statement Allow ''*''
     [\<lparr>cond_operator = ''DateLessThan'', cond_key = ''t'', cond_values = []\<rparr>]]\<rparr>"

theorem evaluate_error_witness:
  "evaluateIamPolicy demo_num demo_unsupported (demo_request ''true'') =
     Inl (IamConditionUnsupportedError ''DateLessThan'') \<and>
   (\<exists>s\<in>set (statements demo_unsupported). covers s (demo_request ''true''))"
proof -
  have e: "evaluateIamPolicy demo_num demo_unsupported (demo_request ''true'') =
     Inl (IamConditionUnsupportedError ''DateLessThan'')" by code_simp
  with evaluate_error [of "demo_request ''true''" demo_num demo_unsupported
      "IamConditionUnsupportedError ''DateLessThan''"] show ?thesis by blast
qed

end
