(* ===== verification/Progress_Repository.thy ===== *)
theory Progress_Repository
  imports Js_Text Session_Identifiers
begin

text \<open>
  Learning history: \<open>services/progress/src\<close>. This theory holds the domain types of
  \<open>types.ts\<close>, the student ids of \<open>identity.ts\<close> and the in-memory repository of
  \<open>memory-repository.ts\<close>; \<open>Progress_Service\<close> adds the use cases on top.

  The four \<open>Map\<close>s of the repository are insertion-ordered association lists under the
  string keys the source builds, joined with a null character. A timestamp is its
  number of milliseconds. Every repository method runs without an \<open>await\<close> inside, so
  it is one atomic step; a trace of such steps in any order covers the interleavings
  of concurrent requests.
\<close>

section \<open>Types\<close>

datatype AttemptStatus = A_IN_PROGRESS | A_PASSED | A_FAILED | A_ENDED | A_EXPIRED

definition CLOSED_ATTEMPT_STATUSES :: "AttemptStatus list" where
  "CLOSED_ATTEMPT_STATUSES = [A_PASSED, A_FAILED, A_ENDED, A_EXPIRED]"

definition isClosedAttempt :: "AttemptStatus \<Rightarrow> bool" where
  "isClosedAttempt s \<longleftrightarrow> s \<in> set CLOSED_ATTEMPT_STATUSES"

datatype AttemptOutcome = O_ENDED | O_EXPIRED | O_FAILED

fun outcome_status :: "AttemptOutcome \<Rightarrow> AttemptStatus" where
  "outcome_status O_ENDED = A_ENDED"
| "outcome_status O_EXPIRED = A_EXPIRED"
| "outcome_status O_FAILED = A_FAILED"

datatype ProgressStatus = P_IN_PROGRESS | P_COMPLETED

record Student =
  st_studentId :: string
  st_displayName :: "string option"
  st_identitySource :: string
  st_createdAt :: int
  st_lastSeenAt :: int

record LabAttempt =
  attemptId :: string
  a_studentId :: string
  a_labId :: string
  a_track :: string
  a_sessionId :: "string option"
  a_status :: AttemptStatus
  a_statusReason :: "string option"
  a_startedAt :: int
  a_completedAt :: "int option"
  a_endedAt :: "int option"
  checkCount :: nat
  resetCount :: nat
  a_updatedAt :: int

record LabProgress =
  p_studentId :: string
  p_labId :: string
  p_track :: string
  p_status :: ProgressStatus
  attemptCount :: nat
  completionCount :: nat
  firstCompletedAt :: "int option"
  lastCompletedAt :: "int option"
  lastAttemptId :: "string option"
  firstAttemptAt :: int
  p_updatedAt :: int

record HintUsage =
  hintUsageId :: string
  h_studentId :: string
  h_attemptId :: string
  h_labId :: string
  hintIndex :: int
  revealedAt :: int

datatype progress_error = INVALID_STUDENT_ID | INVALID_HINT_INDEX | ATTEMPT_NOT_FOUND string

record CheckOutcome =
  co_attempt :: LabAttempt
  co_passed :: bool
  newlyCompleted :: bool
  co_progress :: LabProgress

record HintOutcome =
  ho_usage :: HintUsage
  recorded :: bool
  revealedCount :: nat

section \<open>Student ids\<close>

definition is_student_char :: "char \<Rightarrow> bool" where
  "is_student_char c \<longleftrightarrow> is_lower_alnum c \<or> c \<in> set ''._-''"

definition STUDENT_ID_PATTERN :: "string \<Rightarrow> bool" where
  "STUDENT_ID_PATTERN s \<longleftrightarrow> 3 \<le> length s \<and> length s \<le> 64 \<and> is_lower_alnum (hd s) \<and>
     list_all is_student_char (tl s)"

definition assertValidStudentId :: "unknown_value \<Rightarrow> progress_error + string" where
  "assertValidStudentId value =
     (let raw = (case value of UString s \<Rightarrow> toLowerCase (trim s) | UOther _ \<Rightarrow> [])
      in if \<not> STUDENT_ID_PATTERN raw then Inl INVALID_STUDENT_ID else Inr raw)"

definition studentIdForUser :: "string \<Rightarrow> progress_error + string" where
  "studentIdForUser userId =
     (let normal = toLowerCase (trim userId);
          safe = map (\<lambda>c. if is_student_char c then c else CHR ''-'') normal;
          padded = (if 3 \<le> length safe then safe else ''usr-'' @ safe)
      in assertValidStudentId (UString (take 64 padded)))"

record StudentIdentity =
  id_studentId :: string
  id_authenticated :: bool
  id_source :: string

record DevStudentIdentity =
  dev_studentId :: string
  allowHeader :: bool

definition DEFAULT_DEV_STUDENT_ID :: string where
  "DEFAULT_DEV_STUDENT_ID = ''dev-student-001''"

definition newDevStudentIdentity :: "unknown_value option \<Rightarrow> bool option \<Rightarrow> progress_error + DevStudentIdentity" where
  "newDevStudentIdentity studentId allowHeaderOverride =
     (case assertValidStudentId (case studentId of None \<Rightarrow> UString DEFAULT_DEV_STUDENT_ID | Some v \<Rightarrow> v) of
        Inl e \<Rightarrow> Inl e
      | Inr sid \<Rightarrow> Inr \<lparr>dev_studentId = sid,
                       allowHeader = (case allowHeaderOverride of None \<Rightarrow> False | Some b \<Rightarrow> b)\<rparr>)"

definition dev_resolve :: "DevStudentIdentity \<Rightarrow> string option \<Rightarrow> progress_error + StudentIdentity" where
  "dev_resolve d header = (case header of
       Some h \<Rightarrow>
         if allowHeader d \<and> trim h \<noteq> []
         then (case assertValidStudentId (UString h) of
                 Inl e \<Rightarrow> Inl e
               | Inr sid \<Rightarrow> Inr \<lparr>id_studentId = sid, id_authenticated = False, id_source = ''development-header''\<rparr>)
         else Inr \<lparr>id_studentId = dev_studentId d, id_authenticated = False, id_source = ''development-default''\<rparr>
     | None \<Rightarrow>
         Inr \<lparr>id_studentId = dev_studentId d, id_authenticated = False, id_source = ''development-default''\<rparr>)"

section \<open>The in-memory repository\<close>

record ProgressRepo =
  students :: "(string \<times> Student) list"
  attempts :: "(string \<times> LabAttempt) list"
  progress :: "(string \<times> LabProgress) list"
  hints :: "(string \<times> HintUsage) list"
  sequence :: "(string \<times> nat) list"
  nextSequence :: nat

definition empty_repo :: ProgressRepo where
  "empty_repo = \<lparr>students = [], attempts = [], progress = [], hints = [], sequence = [], nextSequence = 1\<rparr>"

definition progressKey :: "string \<Rightarrow> string \<Rightarrow> string" where
  "progressKey studentId lab = studentId @ [CHR 0x00] @ lab"

definition hintKey :: "string \<Rightarrow> int \<Rightarrow> string" where
  "hintKey aid hint = aid @ [CHR 0x00] @ show_int hint"

definition repo_ensureStudent ::
    "string \<Rightarrow> string \<Rightarrow> string option \<Rightarrow> int \<Rightarrow> ProgressRepo \<Rightarrow> Student \<times> ProgressRepo" where
  "repo_ensureStudent studentId identitySource displayName at r =
     (case map_of (students r) studentId of
        Some existing \<Rightarrow>
          let updated = existing\<lparr>st_lastSeenAt := at\<rparr>
          in (updated, r\<lparr>students := AList.update studentId updated (students r)\<rparr>)
      | None \<Rightarrow>
          let student = \<lparr>st_studentId = studentId, st_displayName = displayName,
                st_identitySource = identitySource, st_createdAt = at, st_lastSeenAt = at\<rparr>
          in (student, r\<lparr>students := AList.update studentId student (students r)\<rparr>))"

definition first_progress :: "LabAttempt \<Rightarrow> int \<Rightarrow> LabProgress" where
  "first_progress a at = \<lparr>p_studentId = a_studentId a, p_labId = a_labId a, p_track = a_track a,
     p_status = P_IN_PROGRESS, attemptCount = 1, completionCount = 0, firstCompletedAt = None,
     lastCompletedAt = None, lastAttemptId = Some (attemptId a), firstAttemptAt = a_startedAt a,
     p_updatedAt = at\<rparr>"

definition attempt_key :: "LabAttempt \<Rightarrow> string" where
  "attempt_key a = progressKey (a_studentId a) (a_labId a)"

definition touchProgressOnStart :: "LabAttempt \<Rightarrow> ProgressRepo \<Rightarrow> ProgressRepo" where
  "touchProgressOnStart a r =
     (let key = attempt_key a in
      case map_of (progress r) key of
        None \<Rightarrow> r\<lparr>progress := AList.update key (first_progress a (a_startedAt a)) (progress r)\<rparr>
      | Some existing \<Rightarrow> r\<lparr>progress := AList.update key
          (existing\<lparr>p_status := (if p_status existing = P_COMPLETED then P_COMPLETED else P_IN_PROGRESS),
             attemptCount := attemptCount existing + 1, lastAttemptId := Some (attemptId a),
             p_updatedAt := a_startedAt a\<rparr>) (progress r)\<rparr>)"

definition createAttempt ::
    "string \<Rightarrow> string \<Rightarrow> string \<Rightarrow> string \<Rightarrow> int \<Rightarrow> ProgressRepo \<Rightarrow> LabAttempt \<times> ProgressRepo" where
  "createAttempt aid studentId lab track startedAt r =
     (let a = \<lparr>attemptId = aid, a_studentId = studentId, a_labId = lab, a_track = track,
            a_sessionId = None, a_status = A_IN_PROGRESS, a_statusReason = None, a_startedAt = startedAt,
            a_completedAt = None, a_endedAt = None, checkCount = 0, resetCount = 0, a_updatedAt = startedAt\<rparr>
      in (a, touchProgressOnStart a
               (r\<lparr>attempts := AList.update aid a (attempts r),
                  sequence := AList.update aid (nextSequence r) (sequence r),
                  nextSequence := nextSequence r + 1\<rparr>)))"

definition put_attempt :: "LabAttempt \<Rightarrow> ProgressRepo \<Rightarrow> ProgressRepo" where
  "put_attempt a r = r\<lparr>attempts := AList.update (attemptId a) a (attempts r)\<rparr>"

definition repo_bindSession :: "string \<Rightarrow> string \<Rightarrow> int \<Rightarrow> ProgressRepo \<Rightarrow> LabAttempt option \<times> ProgressRepo" where
  "repo_bindSession aid sess at r =
     (case map_of (attempts r) aid of
        None \<Rightarrow> (None, r)
      | Some a \<Rightarrow>
          let updated = a\<lparr>a_sessionId := Some sess, a_updatedAt := at\<rparr>
          in (Some updated, r\<lparr>attempts := AList.update aid updated (attempts r)\<rparr>))"

definition findAttempt :: "string \<Rightarrow> ProgressRepo \<Rightarrow> LabAttempt option" where
  "findAttempt aid r = map_of (attempts r) aid"

definition sequence_of :: "ProgressRepo \<Rightarrow> LabAttempt \<Rightarrow> nat" where
  "sequence_of r a = (case map_of (sequence r) (attemptId a) of None \<Rightarrow> 0 | Some n \<Rightarrow> n)"

text \<open>Newest first, the later inserted first among equal times.\<close>

definition newer :: "ProgressRepo \<Rightarrow> LabAttempt \<Rightarrow> LabAttempt \<Rightarrow> bool" where
  "newer r a b \<longleftrightarrow> a_startedAt b < a_startedAt a \<or>
     a_startedAt b = a_startedAt a \<and> sequence_of r b \<le> sequence_of r a"

definition ordered :: "ProgressRepo \<Rightarrow> LabAttempt list" where
  "ordered r = sort_by (newer r) (map snd (attempts r))"

definition findAttemptBySession :: "string \<Rightarrow> ProgressRepo \<Rightarrow> LabAttempt option" where
  "findAttemptBySession sess r = find (\<lambda>a. a_sessionId a = Some sess) (ordered r)"

definition progressFor :: "LabAttempt \<Rightarrow> ProgressRepo \<Rightarrow> LabProgress \<times> ProgressRepo" where
  "progressFor a r = (case map_of (progress r) (attempt_key a) of
       Some existing \<Rightarrow> (existing, r)
     | None \<Rightarrow>
         let created = first_progress a (a_updatedAt a)
         in (created, r\<lparr>progress := AList.update (attempt_key a) created (progress r)\<rparr>))"

definition markCompleted :: "LabAttempt \<Rightarrow> int \<Rightarrow> ProgressRepo \<Rightarrow> LabProgress \<times> ProgressRepo" where
  "markCompleted a at r =
     (let (current, r1) = progressFor a r;
          updated = current\<lparr>p_status := P_COMPLETED, completionCount := completionCount current + 1,
            firstCompletedAt := (case firstCompletedAt current of None \<Rightarrow> Some at | t \<Rightarrow> t),
            lastCompletedAt := Some at, p_updatedAt := at\<rparr>
      in (updated, r1\<lparr>progress := AList.update (attempt_key a) updated (progress r1)\<rparr>))"

definition checked :: "bool \<Rightarrow> int \<Rightarrow> LabAttempt \<Rightarrow> LabAttempt" where
  "checked passed at a =
     (let b = a\<lparr>checkCount := checkCount a + 1, a_updatedAt := at\<rparr>
      in if passed then b\<lparr>a_status := A_PASSED,
           a_completedAt := (case a_completedAt a of None \<Rightarrow> Some at | t \<Rightarrow> t)\<rparr>
         else b)"

definition repo_recordCheck ::
    "string \<Rightarrow> bool \<Rightarrow> int \<Rightarrow> ProgressRepo \<Rightarrow> (progress_error + CheckOutcome) \<times> ProgressRepo" where
  "repo_recordCheck aid passed at r =
     (case map_of (attempts r) aid of
        None \<Rightarrow> (Inl (ATTEMPT_NOT_FOUND aid), r)
      | Some a \<Rightarrow>
          let newly = passed \<and> a_completedAt a = None;
              updated = checked passed at a;
              r1 = put_attempt updated r;
              (prog, r2) = (if newly then markCompleted updated at r1 else progressFor updated r1)
          in (Inr \<lparr>co_attempt = updated, co_passed = passed, newlyCompleted = newly, co_progress = prog\<rparr>, r2))"

definition repo_recordReset :: "string \<Rightarrow> int \<Rightarrow> ProgressRepo \<Rightarrow> LabAttempt option \<times> ProgressRepo" where
  "repo_recordReset aid at r =
     (case map_of (attempts r) aid of
        None \<Rightarrow> (None, r)
      | Some a \<Rightarrow>
          let updated = a\<lparr>resetCount := resetCount a + 1, a_updatedAt := at\<rparr>
          in (Some updated, r\<lparr>attempts := AList.update aid updated (attempts r)\<rparr>))"

definition finished :: "AttemptOutcome \<Rightarrow> string option \<Rightarrow> int \<Rightarrow> LabAttempt \<Rightarrow> LabAttempt" where
  "finished outcome reason at a =
     (let stillOpen = (a_status a = A_IN_PROGRESS)
      in a\<lparr>a_status := (if stillOpen then outcome_status outcome else a_status a),
           a_statusReason := (if stillOpen then reason else a_statusReason a),
           a_endedAt := (case a_endedAt a of None \<Rightarrow> Some at | t \<Rightarrow> t),
           a_updatedAt := at\<rparr>)"

definition finishAttempt ::
    "string \<Rightarrow> AttemptOutcome \<Rightarrow> string option \<Rightarrow> int \<Rightarrow> ProgressRepo \<Rightarrow> LabAttempt option \<times> ProgressRepo" where
  "finishAttempt aid outcome reason at r =
     (case map_of (attempts r) aid of
        None \<Rightarrow> (None, r)
      | Some a \<Rightarrow>
          let updated = finished outcome reason at a
          in (Some updated, r\<lparr>attempts := AList.update aid updated (attempts r)\<rparr>))"

text \<open>An attempt the sweep closes.\<close>

definition stale :: "int \<Rightarrow> string list \<Rightarrow> LabAttempt \<Rightarrow> bool" where
  "stale cutoff live a \<longleftrightarrow> a_status a = A_IN_PROGRESS \<and> a_startedAt a < cutoff \<and>
     (case a_sessionId a of None \<Rightarrow> True | Some s \<Rightarrow> s \<notin> set live)"

definition expired :: "string \<Rightarrow> int \<Rightarrow> LabAttempt \<Rightarrow> LabAttempt" where
  "expired reason at a = a\<lparr>a_status := A_EXPIRED, a_statusReason := Some reason,
     a_endedAt := (case a_endedAt a of None \<Rightarrow> Some at | t \<Rightarrow> t), a_updatedAt := at\<rparr>"

definition expireStaleAttempts ::
    "int \<Rightarrow> string \<Rightarrow> int \<Rightarrow> string list \<Rightarrow> ProgressRepo \<Rightarrow> nat \<times> ProgressRepo" where
  "expireStaleAttempts startedBefore reason at live r =
     fold (\<lambda>a (closed, s).
         if stale startedBefore live a
         then (closed + 1, put_attempt (expired reason at a) s)
         else (closed, s))
       (map snd (attempts r)) (0, r)"

definition countHints :: "string \<Rightarrow> ProgressRepo \<Rightarrow> nat" where
  "countHints aid r = length (filter (\<lambda>h. h_attemptId h = aid) (map snd (hints r)))"

definition repo_recordHint ::
    "string \<Rightarrow> string \<Rightarrow> int \<Rightarrow> int \<Rightarrow> ProgressRepo \<Rightarrow> (progress_error + HintOutcome) \<times> ProgressRepo" where
  "repo_recordHint hid aid hint at r =
     (case map_of (attempts r) aid of
        None \<Rightarrow> (Inl (ATTEMPT_NOT_FOUND aid), r)
      | Some a \<Rightarrow>
          (case map_of (hints r) (hintKey aid hint) of
             Some existing \<Rightarrow>
               (Inr \<lparr>ho_usage = existing, recorded = False, revealedCount = countHints aid r\<rparr>, r)
           | None \<Rightarrow>
               let usage = \<lparr>hintUsageId = hid, h_studentId = a_studentId a, h_attemptId = attemptId a,
                     h_labId = a_labId a, hintIndex = hint, revealedAt = at\<rparr>;
                   r1 = r\<lparr>hints := AList.update (hintKey aid hint) usage (hints r)\<rparr>
               in (Inr \<lparr>ho_usage = usage, recorded = True, revealedCount = countHints aid r1\<rparr>, r1)))"

definition repo_listAttempts :: "string \<Rightarrow> int \<Rightarrow> ProgressRepo \<Rightarrow> LabAttempt list" where
  "repo_listAttempts studentId limit r =
     take (nat (max 0 limit)) (filter (\<lambda>a. a_studentId a = studentId) (ordered r))"

definition getAttempt :: "string \<Rightarrow> string \<Rightarrow> ProgressRepo \<Rightarrow> LabAttempt option" where
  "getAttempt studentId aid r = (case map_of (attempts r) aid of
       Some found \<Rightarrow> if a_studentId found = studentId then Some found else None
     | None \<Rightarrow> None)"

definition listHintUsage :: "string \<Rightarrow> ProgressRepo \<Rightarrow> HintUsage list" where
  "listHintUsage aid r = sort_by (\<lambda>a b. hintIndex a \<le> hintIndex b)
     (filter (\<lambda>h. h_attemptId h = aid) (map snd (hints r)))"

text \<open>\<open>localeCompare\<close> depends on the locale of the process; its order is a parameter.\<close>

definition listProgress :: "(string \<Rightarrow> string \<Rightarrow> bool) \<Rightarrow> string \<Rightarrow> ProgressRepo \<Rightarrow> LabProgress list" where
  "listProgress locale_le studentId r = sort_by (\<lambda>a b. locale_le (p_labId a) (p_labId b))
     (filter (\<lambda>p. p_studentId p = studentId) (map snd (progress r)))"

section \<open>Traces of repository operations\<close>

datatype repo_op =
    Op_Ensure string string "string option" int
  | Op_Create string string string string int
  | Op_Bind string string int
  | Op_Check string bool int
  | Op_Reset string int
  | Op_Finish string AttemptOutcome "string option" int
  | Op_Expire int string int "string list"
  | Op_Hint string string int int

fun apply_op :: "repo_op \<Rightarrow> ProgressRepo \<Rightarrow> ProgressRepo" where
  "apply_op (Op_Ensure s src name at) r = snd (repo_ensureStudent s src name at r)"
| "apply_op (Op_Create i s l tr at) r = snd (createAttempt i s l tr at r)"
| "apply_op (Op_Bind i sess at) r = snd (repo_bindSession i sess at r)"
| "apply_op (Op_Check i passed at) r = snd (repo_recordCheck i passed at r)"
| "apply_op (Op_Reset i at) r = snd (repo_recordReset i at r)"
| "apply_op (Op_Finish i out reason at) r = snd (finishAttempt i out reason at r)"
| "apply_op (Op_Expire before reason at live) r = snd (expireStaleAttempts before reason at live r)"
| "apply_op (Op_Hint h i idx at) r = snd (repo_recordHint h i idx at r)"

text \<open>
  What the callers guarantee: an attempt id is a fresh random id, and a student id
  has passed \<open>assertValidStudentId\<close>, so neither contains the null character of the keys.
\<close>

definition op_ok :: "repo_op \<Rightarrow> ProgressRepo \<Rightarrow> bool" where
  "op_ok op r = (case op of
       Op_Create i s l tr at \<Rightarrow> map_of (attempts r) i = None \<and> CHR 0x00 \<notin> set i \<and> STUDENT_ID_PATTERN s
     | _ \<Rightarrow> True)"

inductive repo_steps :: "ProgressRepo \<Rightarrow> ProgressRepo \<Rightarrow> bool" where
  refl: "repo_steps r r"
| step: "repo_steps r r' \<Longrightarrow> op_ok op r' \<Longrightarrow> repo_steps r (apply_op op r')"

section \<open>The history invariant\<close>

lemma is_student_char_null: "\<not> is_student_char CHR 0x00"
  by (simp add: is_student_char_def is_lower_alnum_def)

lemma STUDENT_ID_PATTERN_null:
  assumes "STUDENT_ID_PATTERN s"
  shows "CHR 0x00 \<notin> set s"
proof -
  from assms obtain c t where "s = c # t" "is_lower_alnum c" "list_all is_student_char t"
    by (cases s) (auto simp: STUDENT_ID_PATTERN_def)
  then show ?thesis using is_student_char_null by (auto simp: list_all_iff is_lower_alnum_def)
qed

lemma progressKey_inj:
  assumes "CHR 0x00 \<notin> set s" "CHR 0x00 \<notin> set s'"
  shows "progressKey s l = progressKey s' l' \<longleftrightarrow> s = s' \<and> l = l'"
proof -
  have key: "takeWhile (\<lambda>c. c \<noteq> CHR 0x00) (progressKey u l) = u \<and> drop (Suc (length u)) (progressKey u l) = l"
    if "CHR 0x00 \<notin> set u" for u l
    using that by (auto simp: progressKey_def takeWhile_append)
  show ?thesis using key [OF assms(1), of l] key [OF assms(2), of l'] by metis
qed

definition is_completed :: "LabAttempt \<Rightarrow> bool" where
  "is_completed a \<longleftrightarrow> a_completedAt a \<noteq> None"

definition attempt_inv :: "string \<Rightarrow> LabAttempt \<Rightarrow> bool" where
  "attempt_inv i a \<longleftrightarrow> attemptId a = i \<and> CHR 0x00 \<notin> set (a_studentId a) \<and>
     (a_status a = A_PASSED \<longleftrightarrow> is_completed a)"

text \<open>A row counts the attempts stored under its key, and those completed.\<close>

definition row_inv :: "(string \<times> LabAttempt) list \<Rightarrow> string \<Rightarrow> LabProgress \<Rightarrow> bool" where
  "row_inv al k p \<longleftrightarrow> k = progressKey (p_studentId p) (p_labId p) \<and> CHR 0x00 \<notin> set (p_studentId p) \<and>
     attemptCount p = count_vals (\<lambda>a. attempt_key a = k) al \<and>
     completionCount p = count_vals (\<lambda>a. attempt_key a = k \<and> is_completed a) al \<and>
     (p_status p = P_COMPLETED \<longleftrightarrow> 0 < completionCount p) \<and>
     (firstCompletedAt p \<noteq> None \<longleftrightarrow> 0 < completionCount p)"

definition repo_inv :: "ProgressRepo \<Rightarrow> bool" where
  "repo_inv r \<longleftrightarrow> distinct (map fst (attempts r)) \<and>
     (\<forall>i a. map_of (attempts r) i = Some a \<longrightarrow>
        attempt_inv i a \<and> attempt_key a \<in> dom (map_of (progress r))) \<and>
     (\<forall>k p. map_of (progress r) k = Some p \<longrightarrow> row_inv (attempts r) k p)"

lemma repo_invD:
  assumes "repo_inv r"
  shows "distinct (map fst (attempts r))"
    and "map_of (attempts r) i = Some a \<Longrightarrow> attempt_inv i a"
    and "map_of (attempts r) i = Some a \<Longrightarrow> \<exists>p. map_of (progress r) (attempt_key a) = Some p"
    and "map_of (progress r) k = Some p \<Longrightarrow> row_inv (attempts r) k p"
  using assms unfolding repo_inv_def by blast+

lemma repo_inv_empty: "repo_inv empty_repo"
  by (simp add: repo_inv_def empty_repo_def)

text \<open>The invariant reads the attempts and the rows only.\<close>

lemma repo_inv_cong:
  "repo_inv r \<Longrightarrow> attempts r' = attempts r \<Longrightarrow> progress r' = progress r \<Longrightarrow> repo_inv r'"
  by (simp add: repo_inv_def)

text \<open>Replacing an attempt by one of the same lab and the same completion.\<close>

lemma row_inv_update:
  assumes "distinct (map fst al)" "map_of al i = Some a" "attempt_key b = attempt_key a"
    "is_completed b = is_completed a" "row_inv al k p"
  shows "row_inv (AList.update i b al) k p"
proof -
  have "count_vals P (AList.update i b al) = count_vals P al" if "P b = P a" for P
    using count_vals_update_present [OF assms(1,2), of P b] that by simp
  with assms(3-5) show ?thesis by (simp add: row_inv_def)
qed

lemma repo_inv_neutral:
  assumes "repo_inv r" "map_of (attempts r) i = Some a" "attempt_inv i b"
    "attempt_key b = attempt_key a" "is_completed b = is_completed a"
  shows "repo_inv (r\<lparr>attempts := AList.update i b (attempts r)\<rparr>)"
proof -
  have "row_inv (AList.update i b (attempts r)) k p" if "map_of (progress r) k = Some p" for k p
    by (rule row_inv_update [OF repo_invD(1) [OF assms(1)] assms(2,4,5) repo_invD(4) [OF assms(1) that]])
  moreover have "attempt_inv j c \<and> attempt_key c \<in> dom (map_of (progress r))"
    if "map_of (AList.update i b (attempts r)) j = Some c" for j c
    using that repo_invD(2,3) [OF assms(1)] assms by (auto split: if_splits)
  ultimately show ?thesis
    using distinct_keys_update [OF repo_invD(1) [OF assms(1)]] by (simp add: repo_inv_def del: map_of_update)
qed

lemma progressFor_present:
  "map_of (progress r) (attempt_key a) = Some p \<Longrightarrow> progressFor a r = (p, r)"
  by (simp add: progressFor_def)

lemma put_attempt_progress [simp]: "progress (put_attempt a r) = progress r"
  by (simp add: put_attempt_def)

lemma attempt_inv_keeps:
  assumes "attempt_inv i a" "attemptId b = attemptId a" "a_studentId b = a_studentId a"
    "a_completedAt b = a_completedAt a" "a_status b = A_PASSED \<longleftrightarrow> a_status a = A_PASSED"
  shows "attempt_inv i b"
  using assms by (simp add: attempt_inv_def is_completed_def)

lemma checked_facts:
  "attemptId (checked p at a) = attemptId a" "a_studentId (checked p at a) = a_studentId a"
  "a_labId (checked p at a) = a_labId a" "attempt_key (checked p at a) = attempt_key a"
  "is_completed (checked p at a) \<longleftrightarrow> p \<or> is_completed a"
  "a_status (checked p at a) = (if p then A_PASSED else a_status a)"
  "a_completedAt (checked p at a) =
     (if p then (case a_completedAt a of None \<Rightarrow> Some at | t \<Rightarrow> t) else a_completedAt a)"
  by (auto simp: checked_def attempt_key_def is_completed_def Let_def split: option.splits)

lemma finished_facts:
  "attemptId (finished out reason at a) = attemptId a" "a_studentId (finished out reason at a) = a_studentId a"
  "a_labId (finished out reason at a) = a_labId a" "a_completedAt (finished out reason at a) = a_completedAt a"
  "attempt_key (finished out reason at a) = attempt_key a"
  "a_status (finished out reason at a) = A_PASSED \<longleftrightarrow> a_status a = A_PASSED"
  by (cases out; simp add: finished_def attempt_key_def Let_def)+

lemma expired_facts:
  "attemptId (expired reason at a) = attemptId a" "a_studentId (expired reason at a) = a_studentId a"
  "a_labId (expired reason at a) = a_labId a" "a_completedAt (expired reason at a) = a_completedAt a"
  "attempt_key (expired reason at a) = attempt_key a" "a_status (expired reason at a) = A_EXPIRED"
  by (simp_all add: expired_def attempt_key_def)

lemma check_attempt_inv: "attempt_inv i a \<Longrightarrow> attempt_inv i (checked p at a)"
  by (auto simp: attempt_inv_def checked_facts)

lemma row_inv_complete:
  assumes "distinct (map fst al)" "map_of al i = Some a" "\<not> is_completed a" "attempt_key b = attempt_key a"
    "is_completed b" "row_inv al k p"
  shows "if k = attempt_key a
     then row_inv (AList.update i b al) k (p\<lparr>p_status := P_COMPLETED, completionCount := completionCount p + 1,
            firstCompletedAt := (case firstCompletedAt p of None \<Rightarrow> Some at | t \<Rightarrow> t),
            lastCompletedAt := Some at, p_updatedAt := at\<rparr>)
     else row_inv (AList.update i b al) k p"
proof -
  note upd = count_vals_update_present [OF assms(1,2), where v = b]
  have "count_vals (\<lambda>a. attempt_key a = k) (AList.update i b al) = count_vals (\<lambda>a. attempt_key a = k) al"
    using upd [of "\<lambda>a. attempt_key a = k"] assms(4) by simp
  moreover have "count_vals (\<lambda>a. attempt_key a = k \<and> is_completed a) (AList.update i b al) =
      count_vals (\<lambda>a. attempt_key a = k \<and> is_completed a) al + (if k = attempt_key a then 1 else 0)"
    using upd [of "\<lambda>a. attempt_key a = k \<and> is_completed a"] assms(3-5) by (auto split: if_splits)
  ultimately show ?thesis using assms(6) by (auto simp: row_inv_def split: option.splits)
qed

lemma repo_inv_check:
  assumes "repo_inv r"
  shows "repo_inv (snd (repo_recordCheck i passed at r))"
proof (cases "map_of (attempts r) i")
  case None
  with assms show ?thesis by (simp add: repo_recordCheck_def)
next
  case (Some a)
  note ai = repo_invD(2) [OF assms Some]
  then have id: "attemptId a = i" by (simp add: attempt_inv_def)
  obtain p where p: "map_of (progress r) (attempt_key a) = Some p" using repo_invD(3) [OF assms Some] by blast
  let ?b = "checked passed at a"
  let ?r1 = "put_attempt ?b r"
  have r1: "?r1 = r\<lparr>attempts := AList.update i ?b (attempts r)\<rparr>" by (simp add: put_attempt_def checked_facts id)
  have p1: "map_of (progress ?r1) (attempt_key ?b) = Some p" by (simp add: r1 checked_facts p)
  show ?thesis
  proof (cases "passed \<and> a_completedAt a = None")
    case False
    then have "is_completed ?b = is_completed a" by (auto simp: checked_facts is_completed_def)
    then have "repo_inv ?r1"
      unfolding r1 by (intro repo_inv_neutral [OF assms Some check_attempt_inv [OF ai]]) (simp_all add: checked_facts)
    moreover have "snd (repo_recordCheck i passed at r) = ?r1"
      using False Some unfolding repo_recordCheck_def by (auto simp: progressFor_present [OF p1] Let_def)
    ultimately show ?thesis by simp
  next
    case True
    let ?p = "p\<lparr>p_status := P_COMPLETED, completionCount := completionCount p + 1,
      firstCompletedAt := (case firstCompletedAt p of None \<Rightarrow> Some at | t \<Rightarrow> t),
      lastCompletedAt := Some at, p_updatedAt := at\<rparr>"
    have res: "snd (repo_recordCheck i passed at r) =
        ?r1\<lparr>progress := AList.update (attempt_key a) ?p (progress r)\<rparr>"
      using True Some p1 by (simp add: repo_recordCheck_def markCompleted_def progressFor_present Let_def checked_facts r1)
    have row: "row_inv (AList.update i ?b (attempts r)) k (if k = attempt_key a then ?p else q)"
      if "map_of (progress r) k = Some q" "k = attempt_key a \<longrightarrow> q = p" for k q
      using row_inv_complete [OF repo_invD(1) [OF assms] Some, of ?b k q at] True
        repo_invD(4) [OF assms that(1)] that(2) by (auto simp: checked_facts is_completed_def split: if_splits)
    have "attempt_inv j c \<and> attempt_key c \<in> dom (map_of (AList.update (attempt_key a) ?p (progress r)))"
      if "map_of (AList.update i ?b (attempts r)) j = Some c" for j c
      using that repo_invD(2,3) [OF assms] check_attempt_inv [OF ai, of passed at]
      by (auto simp: checked_facts split: if_splits)
    moreover have "row_inv (AList.update i ?b (attempts r)) k q"
      if "map_of (AList.update (attempt_key a) ?p (progress r)) k = Some q" for k q
      using that row [of k q] row [OF p] by (auto split: if_splits)
    ultimately show ?thesis unfolding res r1
      using distinct_keys_update [OF repo_invD(1) [OF assms]] by (simp add: repo_inv_def del: map_of_update)
  qed
qed

lemma count_vals_mono: "(\<And>v. P v \<Longrightarrow> Q v) \<Longrightarrow> count_vals P al \<le> count_vals Q al"
  by (induction al) (auto simp: le_SucI)

lemma repo_inv_create:
  assumes "repo_inv r" "map_of (attempts r) i = None" "CHR 0x00 \<notin> set s"
  shows "repo_inv (snd (createAttempt i s l tr at r))"
proof -
  define a where "a = fst (createAttempt i s l tr at r)"
  have a: "attemptId a = i" "a_studentId a = s" "a_labId a = l" "\<not> is_completed a" "a_status a = A_IN_PROGRESS"
    by (simp_all add: a_def createAttempt_def is_completed_def Let_def)
  let ?al = "AList.update i a (attempts r)"
  define q where "q = (case map_of (progress r) (attempt_key a) of
      None \<Rightarrow> first_progress a (a_startedAt a)
    | Some e \<Rightarrow> e\<lparr>p_status := (if p_status e = P_COMPLETED then P_COMPLETED else P_IN_PROGRESS),
        attemptCount := attemptCount e + 1, lastAttemptId := Some (attemptId a), p_updatedAt := a_startedAt a\<rparr>)"
  have res: "attempts (snd (createAttempt i s l tr at r)) = ?al"
    "progress (snd (createAttempt i s l tr at r)) = AList.update (attempt_key a) q (progress r)"
    by (auto simp: createAttempt_def touchProgressOnStart_def a_def q_def Let_def split: option.splits)
  note cnt = count_vals_update_absent [OF assms(2), where v = a]
  have other: "row_inv ?al k p" if "map_of (progress r) k = Some p" "k \<noteq> attempt_key a" for k p
    using repo_invD(4) [OF assms(1) that(1)] that(2) by (simp add: row_inv_def cnt)
  have none: "count_vals (\<lambda>b. attempt_key b = attempt_key a) (attempts r) = 0"
    if "map_of (progress r) (attempt_key a) = None"
  proof -
    have "attempt_key b \<noteq> attempt_key a" if "(j, b) \<in> set (attempts r)" for j b
    proof -
      have "map_of (attempts r) j = Some b" using repo_invD(1) [OF assms(1)] that by simp
      from repo_invD(3) [OF assms(1) this] show ?thesis
        using \<open>map_of (progress r) (attempt_key a) = None\<close> by auto
    qed
    then show ?thesis by (auto simp: count_vals_def filter_empty_conv)
  qed
  have "row_inv ?al (attempt_key a) q"
  proof (cases "map_of (progress r) (attempt_key a)")
    case None
    have le: "count_vals (\<lambda>b. attempt_key b = attempt_key a \<and> is_completed b) (attempts r)
        \<le> count_vals (\<lambda>b. attempt_key b = attempt_key a) (attempts r)"
      by (rule count_vals_mono) simp
    with None none a assms(3) show ?thesis
      by (simp add: q_def row_inv_def cnt first_progress_def attempt_key_def)
  next
    case (Some e)
    from repo_invD(4) [OF assms(1) Some] Some a show ?thesis by (auto simp: q_def row_inv_def cnt)
  qed
  moreover have "attempt_inv i a" using a assms(3) by (simp add: attempt_inv_def)
  ultimately show ?thesis
    unfolding repo_inv_def res using other repo_invD [OF assms(1)]
    by (auto simp: distinct_keys_update split: if_splits)
qed

text \<open>The sweep replaces every stale attempt and counts them.\<close>

lemma update_is_map:
  "distinct (map fst al) \<Longrightarrow> i \<in> fst ` set al \<Longrightarrow>
     AList.update i b al = map (\<lambda>(k, v). (k, if k = i then b else v)) al"
proof (induction al)
  case (Cons e al)
  obtain k v where e: "e = (k, v)" by (cases e)
  show ?case
  proof (cases "k = i")
    case True
    with Cons.prems e have "i \<notin> fst ` set al" by simp
    then have "map (\<lambda>(k, v). (k, if k = i then b else v)) al = al" by (intro map_idI) force
    with True e show ?thesis by simp
  qed (use Cons e in auto)
qed simp

lemma expire_fold:
  assumes "distinct (map fst (attempts s))" "distinct (map attemptId ds)"
    "\<forall>d\<in>set ds. map_of (attempts s) (attemptId d) = Some d"
  shows "fold (\<lambda>a (closed, s). if stale before live a then (closed + 1, put_attempt (expired reason at a) s)
           else (closed, s)) ds (n, s) =
     (n + length (filter (stale before live) ds),
      s\<lparr>attempts := map (\<lambda>(k, v). (k, if k \<in> attemptId ` set ds \<and> stale before live v then expired reason at v else v))
         (attempts s)\<rparr>)"
  using assms
proof (induction ds arbitrary: n s)
  case Nil
  then show ?case by (simp add: case_prod_beta)
next
  case (Cons d ds)
  let ?f = "\<lambda>D (k, v). (k, if k \<in> attemptId ` set D \<and> stale before live v then expired reason at v else v)"
  have d: "map_of (attempts s) (attemptId d) = Some d" using Cons.prems(3) by simp
  have notin: "attemptId d \<notin> attemptId ` set ds" using Cons.prems(2) by simp
  have uniq: "v = d" if "(attemptId d, v) \<in> set (attempts s)" for v
    using map_of_is_SomeI [OF Cons.prems(1) that] d by simp
  show ?case
  proof (cases "stale before live d")
    case False
    have "map (?f (d # ds)) (attempts s) = map (?f ds) (attempts s)"
      using False by (intro map_cong) (auto simp: case_prod_beta dest: uniq)
    with False Cons show ?thesis by simp
  next
    case True
    let ?s = "put_attempt (expired reason at d) s"
    have al: "attempts ?s = map (\<lambda>(k, v). (k, if k = attemptId d then expired reason at d else v)) (attempts s)"
    proof -
      have "attemptId d \<in> fst ` set (attempts s)" by (metis d domI dom_map_of_conv_image_fst)
      from update_is_map [OF Cons.prems(1) this] show ?thesis by (simp add: put_attempt_def expired_facts)
    qed
    have "map fst (attempts ?s) = map fst (attempts s)" unfolding al by (simp add: case_prod_beta comp_def)
    then have dist: "distinct (map fst (attempts ?s))" using Cons.prems(1) by simp
    have others: "\<forall>e\<in>set ds. map_of (attempts ?s) (attemptId e) = Some e"
    proof
      fix e
      assume e: "e \<in> set ds"
      with notin have "attemptId e \<noteq> attemptId d" by (metis imageI)
      moreover have "map_of (attempts s) (attemptId e) = Some e" using Cons.prems(3) e by simp
      ultimately show "map_of (attempts ?s) (attemptId e) = Some e"
        by (simp add: put_attempt_def expired_facts)
    qed
    have "map (?f ds) (attempts ?s) = map (?f (d # ds)) (attempts s)"
      unfolding al using True notin by (auto simp: comp_def case_prod_beta dest: uniq)
    with Cons.IH [OF dist _ others, of "Suc n"] Cons.prems(2) True show ?thesis
      by (simp add: put_attempt_def)
  qed
qed

lemma attempt_values:
  assumes "repo_inv r"
  shows "distinct (map attemptId (map snd (attempts r)))"
    "\<forall>d\<in>set (map snd (attempts r)). map_of (attempts r) (attemptId d) = Some d"
proof -
  have k: "attemptId a = i \<and> map_of (attempts r) i = Some a" if "(i, a) \<in> set (attempts r)" for i a
    using that repo_invD(1,2) [OF assms] by (simp add: attempt_inv_def)
  have "map attemptId (map snd (attempts r)) = map fst (attempts r)" using k by auto
  then show "distinct (map attemptId (map snd (attempts r)))" using repo_invD(1) [OF assms] by metis
  show "\<forall>d\<in>set (map snd (attempts r)). map_of (attempts r) (attemptId d) = Some d" using k by auto
qed

lemma expire_eq:
  assumes "repo_inv r"
  shows "expireStaleAttempts before reason at live r =
     (length (filter (stale before live) (map snd (attempts r))),
      r\<lparr>attempts := map (\<lambda>(k, v). (k, if stale before live v then expired reason at v else v)) (attempts r)\<rparr>)"
proof -
  have "k \<in> attemptId ` set (map snd (attempts r))" if "(k, v) \<in> set (attempts r)" for k v
    using that repo_invD(1,2) [OF assms] by (force simp: attempt_inv_def)
  then have "map (\<lambda>(k, v). (k, if k \<in> attemptId ` set (map snd (attempts r)) \<and> stale before live v
        then expired reason at v else v)) (attempts r) =
      map (\<lambda>(k, v). (k, if stale before live v then expired reason at v else v)) (attempts r)"
    by (intro map_cong) auto
  with expire_fold [OF repo_invD(1) [OF assms] attempt_values [OF assms], of before live reason at 0]
  show ?thesis by (simp add: expireStaleAttempts_def)
qed

lemma count_vals_map:
  "(\<And>v. P (f v) = P v) \<Longrightarrow> count_vals P (map (\<lambda>(k, v). (k, f v)) al) = count_vals P al"
  by (induction al) auto

lemma map_of_map_values: "map_of (map (\<lambda>(k, v). (k, f v)) al) = map_option f \<circ> map_of al"
  by (simp add: map_of_map)

lemma repo_inv_expire:
  assumes "repo_inv r"
  shows "repo_inv (snd (expireStaleAttempts before reason at live r))"
proof -
  let ?f = "\<lambda>v. if stale before live v then expired reason at v else v"
  have f: "attempt_key (?f v) = attempt_key v" "is_completed (?f v) = is_completed v" for v
    by (simp_all add: expired_facts is_completed_def)
  have ai: "attempt_inv i (?f a)" if "attempt_inv i a" for i a
    using that by (auto simp: attempt_inv_def expired_facts is_completed_def stale_def)
  have "row_inv (map (\<lambda>(k, v). (k, ?f v)) (attempts r)) k p" if "row_inv (attempts r) k p" for k p
    using that count_vals_map [of "\<lambda>a. attempt_key a = k" ?f "attempts r"]
      count_vals_map [of "\<lambda>a. attempt_key a = k \<and> is_completed a" ?f "attempts r"]
    by (simp add: f row_inv_def)
  moreover have "attempt_inv i a \<and> attempt_key a \<in> dom (map_of (progress r))"
    if "map_of (map (\<lambda>(k, v). (k, ?f v)) (attempts r)) i = Some a" for i a
    using that repo_invD(2,3) [OF assms] ai f(1) unfolding map_of_map_values by fastforce
  moreover have "distinct (map fst (map (\<lambda>(k, v). (k, ?f v)) (attempts r)))"
    using repo_invD(1) [OF assms] by (simp add: case_prod_beta comp_def)
  ultimately show ?thesis
    unfolding expire_eq [OF assms] using repo_invD(4) [OF assms] by (simp add: repo_inv_def)
qed

lemma repo_inv_step:
  assumes "repo_inv r" "op_ok op r"
  shows "repo_inv (apply_op op r)"
proof (cases op)
  case (Op_Ensure s src name at)
  then show ?thesis
    by (auto simp: repo_ensureStudent_def Let_def intro!: repo_inv_cong [OF assms(1)] split: option.splits)
next
  case (Op_Create i s l tr at)
  with assms repo_inv_create show ?thesis by (simp add: op_ok_def STUDENT_ID_PATTERN_null)
next
  case (Op_Bind i sess at)
  show ?thesis
  proof (cases "map_of (attempts r) i")
    case (Some a)
    have "repo_inv (r\<lparr>attempts := AList.update i (a\<lparr>a_sessionId := Some sess, a_updatedAt := at\<rparr>) (attempts r)\<rparr>)"
      using repo_invD(2) [OF assms(1) Some]
      by (intro repo_inv_neutral [OF assms(1) Some]) (simp_all add: attempt_inv_def attempt_key_def is_completed_def)
    with Some Op_Bind show ?thesis by (simp add: repo_bindSession_def Let_def)
  qed (use assms Op_Bind in \<open>simp add: repo_bindSession_def\<close>)
next
  case (Op_Check i passed at)
  with repo_inv_check [OF assms(1)] show ?thesis by simp
next
  case (Op_Reset i at)
  show ?thesis
  proof (cases "map_of (attempts r) i")
    case (Some a)
    have "repo_inv (r\<lparr>attempts := AList.update i (a\<lparr>resetCount := resetCount a + 1, a_updatedAt := at\<rparr>) (attempts r)\<rparr>)"
      using repo_invD(2) [OF assms(1) Some]
      by (intro repo_inv_neutral [OF assms(1) Some]) (simp_all add: attempt_inv_def attempt_key_def is_completed_def)
    with Some Op_Reset show ?thesis by (simp add: repo_recordReset_def Let_def)
  qed (use assms Op_Reset in \<open>simp add: repo_recordReset_def\<close>)
next
  case (Op_Finish i out reason at)
  show ?thesis
  proof (cases "map_of (attempts r) i")
    case (Some a)
    have "repo_inv (r\<lparr>attempts := AList.update i (finished out reason at a) (attempts r)\<rparr>)"
      using repo_invD(2) [OF assms(1) Some]
      by (intro repo_inv_neutral [OF assms(1) Some])
        (simp_all add: attempt_inv_def finished_facts is_completed_def)
    with Some Op_Finish show ?thesis by (simp add: finishAttempt_def Let_def)
  qed (use assms Op_Finish in \<open>simp add: finishAttempt_def\<close>)
next
  case (Op_Expire before reason at live)
  with repo_inv_expire [OF assms(1)] show ?thesis by simp
next
  case (Op_Hint h i idx at)
  then show ?thesis
    by (auto simp: repo_recordHint_def Let_def intro!: repo_inv_cong [OF assms(1)] split: option.splits)
qed

lemma repo_inv_steps: "repo_steps r r' \<Longrightarrow> repo_inv r \<Longrightarrow> repo_inv r'"
  by (induction rule: repo_steps.induct) (auto intro: repo_inv_step)

section \<open>Properties of the history\<close>

definition attempts_at :: "ProgressRepo \<Rightarrow> string \<Rightarrow> string \<Rightarrow> LabAttempt list" where
  "attempts_at r s l = filter (\<lambda>a. a_studentId a = s \<and> a_labId a = l) (map snd (attempts r))"

lemma count_attempts_at:
  assumes "repo_inv r" "CHR 0x00 \<notin> set s"
  shows "count_vals (\<lambda>a. attempt_key a = progressKey s l \<and> P a) (attempts r) = length (filter P (attempts_at r s l))"
proof -
  have "attempt_key a = progressKey s l \<longleftrightarrow> a_studentId a = s \<and> a_labId a = l" if "(i, a) \<in> set (attempts r)" for i a
  proof -
    have "map_of (attempts r) i = Some a" using repo_invD(1) [OF assms(1)] that by simp
    from repo_invD(2) [OF assms(1) this] show ?thesis
      by (simp add: attempt_key_def progressKey_inj assms(2) attempt_inv_def)
  qed
  then have "filter ((\<lambda>a. attempt_key a = progressKey s l \<and> P a) \<circ> snd) (attempts r) =
      filter ((\<lambda>a. (a_studentId a = s \<and> a_labId a = l) \<and> P a) \<circ> snd) (attempts r)"
    by (intro filter_cong) auto
  then show ?thesis
    by (simp add: count_vals_def attempts_at_def filter_map comp_def conj_commute)
qed

text \<open>
  C14. A progress row is always the truth about the attempts: after any sequence of
  repository operations, in any order, the row of a student and a lab counts exactly
  that student's attempts at that lab and those that passed, is \<open>COMPLETED\<close> exactly
  when at least one passed, and exists for every lab the student started. An attempt
  has a completion time exactly when it is \<open>PASSED\<close>.
\<close>

theorem history_consistent:
  assumes "repo_steps empty_repo r" and "map_of (progress r) k = Some p"
  shows "attemptCount p = length (attempts_at r (p_studentId p) (p_labId p)) \<and>
     completionCount p =
       length (filter (\<lambda>a. a_status a = A_PASSED) (attempts_at r (p_studentId p) (p_labId p))) \<and>
     (p_status p = P_COMPLETED \<longleftrightarrow> 0 < completionCount p) \<and>
     (firstCompletedAt p \<noteq> None \<longleftrightarrow> 0 < completionCount p) \<and>
     (\<forall>a\<in>set (map snd (attempts r)). (a_status a = A_PASSED \<longleftrightarrow> a_completedAt a \<noteq> None) \<and>
        map_of (progress r) (progressKey (a_studentId a) (a_labId a)) \<noteq> None)"
proof -
  have inv: "repo_inv r" using repo_inv_steps [OF assms(1) repo_inv_empty] .
  note row = repo_invD(4) [OF inv assms(2)]
  then have k: "k = progressKey (p_studentId p) (p_labId p)" and n: "CHR 0x00 \<notin> set (p_studentId p)"
    by (simp_all add: row_inv_def)
  have att: "(a_status a = A_PASSED \<longleftrightarrow> a_completedAt a \<noteq> None) \<and>
      map_of (progress r) (progressKey (a_studentId a) (a_labId a)) \<noteq> None"
    if "a \<in> set (map snd (attempts r))" for a
  proof -
    from that attempt_values(2) [OF inv] have m: "map_of (attempts r) (attemptId a) = Some a" by blast
    from repo_invD(2) [OF inv m] repo_invD(3) [OF inv m] show ?thesis
      by (simp add: attempt_inv_def is_completed_def attempt_key_def)
  qed
  have "filter is_completed (attempts_at r s l) = filter (\<lambda>a. a_status a = A_PASSED) (attempts_at r s l)" for s l
    using att by (intro filter_cong) (auto simp: attempts_at_def is_completed_def)
  with row count_attempts_at [OF inv n, of "p_labId p" "\<lambda>_. True"]
    count_attempts_at [OF inv n, of "p_labId p" is_completed] att show ?thesis
    by (simp add: row_inv_def k)
qed

text \<open>A closed witness run: two attempts of one student at one lab, the second passes twice.\<close>

definition demo_ops :: "repo_op list" where
  "demo_ops = [Op_Ensure ''stu-1'' ''authenticated'' None 10, Op_Create ''at-1'' ''stu-1'' ''LINUX-001'' ''linux'' 10,
     Op_Bind ''at-1'' ''sess-a'' 11, Op_Check ''at-1'' False 12, Op_Finish ''at-1'' O_ENDED None 13,
     Op_Create ''at-2'' ''stu-1'' ''LINUX-001'' ''linux'' 20, Op_Bind ''at-2'' ''sess-b'' 21,
     Op_Check ''at-2'' True 22, Op_Check ''at-2'' True 23, Op_Finish ''at-2'' O_EXPIRED (Some ''idle'') 24]"

fun run_ops :: "repo_op list \<Rightarrow> ProgressRepo \<Rightarrow> ProgressRepo option" where
  "run_ops [] r = Some r"
| "run_ops (op # ops) r = (if op_ok op r then run_ops ops (apply_op op r) else None)"

lemma repo_steps_trans: "repo_steps s t \<Longrightarrow> repo_steps r s \<Longrightarrow> repo_steps r t"
  by (induction rule: repo_steps.induct) (auto intro: repo_steps.intros)

lemma run_ops_steps: "run_ops ops r = Some r' \<Longrightarrow> repo_steps r r'"
proof (induction ops arbitrary: r)
  case (Cons op ops)
  then have ok: "op_ok op r" and run: "run_ops ops (apply_op op r) = Some r'" by (auto split: if_splits)
  have "repo_steps r (apply_op op r)" using ok by (intro repo_steps.step repo_steps.refl)
  with Cons.IH [OF run] show ?case by (rule repo_steps_trans)
qed (auto intro: repo_steps.refl)

definition demo_repo :: ProgressRepo where
  "demo_repo = (case run_ops demo_ops empty_repo of Some r \<Rightarrow> r | None \<Rightarrow> empty_repo)"

lemma demo_repo_steps: "repo_steps empty_repo demo_repo"
proof -
  have "run_ops demo_ops empty_repo \<noteq> None" by code_simp
  then have "run_ops demo_ops empty_repo = Some demo_repo" by (auto simp: demo_repo_def)
  then show ?thesis by (rule run_ops_steps)
qed

definition demo_row :: LabProgress where
  "demo_row = \<lparr>p_studentId = ''stu-1'', p_labId = ''LINUX-001'', p_track = ''linux'', p_status = P_COMPLETED,
     attemptCount = 2, completionCount = 1, firstCompletedAt = Some 22, lastCompletedAt = Some 22,
     lastAttemptId = Some ''at-2'', firstAttemptAt = 10, p_updatedAt = 22\<rparr>"

lemma demo_row: "map_of (progress demo_repo) (progressKey ''stu-1'' ''LINUX-001'') = Some demo_row"
  by code_simp

theorem history_consistent_witness:
  "attemptCount demo_row = 2 \<and> length (attempts_at demo_repo ''stu-1'' ''LINUX-001'') = 2 \<and>
   length (filter (\<lambda>a. a_status a = A_PASSED) (attempts_at demo_repo ''stu-1'' ''LINUX-001'')) = 1"
  using history_consistent [OF demo_repo_steps demo_row] by (simp add: demo_row_def)

section \<open>Nothing is withdrawn\<close>

definition keeps_attempt :: "LabAttempt \<Rightarrow> LabAttempt \<Rightarrow> bool" where
  "keeps_attempt a b \<longleftrightarrow> a_studentId b = a_studentId a \<and> a_labId b = a_labId a \<and>
     a_startedAt b = a_startedAt a \<and> checkCount a \<le> checkCount b \<and> resetCount a \<le> resetCount b \<and>
     (a_completedAt a \<noteq> None \<longrightarrow> a_status b = A_PASSED \<and> a_completedAt b = a_completedAt a) \<and>
     (a_endedAt a \<noteq> None \<longrightarrow> a_endedAt b = a_endedAt a)"

definition keeps_row :: "LabProgress \<Rightarrow> LabProgress \<Rightarrow> bool" where
  "keeps_row p q \<longleftrightarrow> attemptCount p \<le> attemptCount q \<and> completionCount p \<le> completionCount q \<and>
     (p_status p = P_COMPLETED \<longrightarrow> p_status q = P_COMPLETED) \<and>
     (firstCompletedAt p \<noteq> None \<longrightarrow> firstCompletedAt q = firstCompletedAt p)"

definition keeps_history :: "ProgressRepo \<Rightarrow> ProgressRepo \<Rightarrow> bool" where
  "keeps_history r s \<longleftrightarrow>
     (\<forall>i a. map_of (attempts r) i = Some a \<longrightarrow> (\<exists>b. map_of (attempts s) i = Some b \<and> keeps_attempt a b)) \<and>
     (\<forall>k p. map_of (progress r) k = Some p \<longrightarrow> (\<exists>q. map_of (progress s) k = Some q \<and> keeps_row p q)) \<and>
     map_of (hints r) \<subseteq>\<^sub>m map_of (hints s)"

lemma keeps_row_refl [simp]: "keeps_row p p"
  by (simp add: keeps_row_def)

lemma keeps_attempt_refl: "attempt_inv i a \<Longrightarrow> keeps_attempt a a"
  by (auto simp: keeps_attempt_def attempt_inv_def is_completed_def)

lemma keeps_history_trans:
  assumes "keeps_history r s" "keeps_history s t" shows "keeps_history r t"
proof -
  have a: "keeps_attempt x y \<Longrightarrow> keeps_attempt y z \<Longrightarrow> keeps_attempt x z" for x y z
    by (auto simp: keeps_attempt_def)
  have p: "keeps_row x y \<Longrightarrow> keeps_row y z \<Longrightarrow> keeps_row x z" for x y z
    by (auto simp: keeps_row_def)
  from assms show ?thesis unfolding keeps_history_def by (meson a p map_le_trans)
qed

text \<open>One attempt replaced, the rows kept.\<close>

lemma keeps_history_update:
  assumes "repo_inv r" "map_of (attempts r) i = Some a" "keeps_attempt a b"
    "map_of (attempts s) = (map_of (attempts r))(i \<mapsto> b)" "hints s = hints r"
    "\<And>k p. map_of (progress r) k = Some p \<Longrightarrow> \<exists>q. map_of (progress s) k = Some q \<and> keeps_row p q"
  shows "keeps_history r s"
  unfolding keeps_history_def using assms keeps_attempt_refl [OF repo_invD(2) [OF assms(1)]] by auto

lemma keeps_history_same:
  assumes "repo_inv r" "attempts s = attempts r" "progress s = progress r" "map_of (hints r) \<subseteq>\<^sub>m map_of (hints s)"
  shows "keeps_history r s"
  unfolding keeps_history_def using assms keeps_attempt_refl [OF repo_invD(2) [OF assms(1)]] by auto

lemma keeps_history_check:
  assumes "repo_inv r"
  shows "keeps_history r (snd (repo_recordCheck i passed at r))"
proof (cases "map_of (attempts r) i")
  case None
  with assms show ?thesis by (simp add: repo_recordCheck_def keeps_history_same)
next
  case (Some a)
  let ?b = "checked passed at a"
  let ?s = "snd (repo_recordCheck i passed at r)"
  note ai = repo_invD(2) [OF assms Some]
  obtain p where p: "map_of (progress r) (attempt_key a) = Some p" using repo_invD(3) [OF assms Some] by blast
  then have p1: "map_of (progress (put_attempt ?b r)) (attempt_key ?b) = Some p" by (simp add: checked_facts)
  have res: "map_of (attempts ?s) = (map_of (attempts r))(i \<mapsto> ?b)" "hints ?s = hints r"
    using Some ai p1
    by (auto simp: repo_recordCheck_def markCompleted_def progressFor_present put_attempt_def Let_def
        attempt_inv_def checked_facts)
  have "\<exists>q'. map_of (progress ?s) k = Some q' \<and> keeps_row q q'" if "map_of (progress r) k = Some q" for k q
    using that Some p p1
    by (auto simp: repo_recordCheck_def markCompleted_def progressFor_present Let_def checked_facts keeps_row_def)
  moreover have "keeps_attempt a ?b"
    using ai by (auto simp: keeps_attempt_def checked_def attempt_inv_def is_completed_def Let_def)
  ultimately show ?thesis using keeps_history_update [OF assms Some _ res] by blast
qed

lemma keeps_history_step:
  assumes "repo_inv r" "op_ok op r"
  shows "keeps_history r (apply_op op r)"
proof (cases op)
  case (Op_Ensure s src name at)
  then show ?thesis
    by (auto simp: repo_ensureStudent_def Let_def intro!: keeps_history_same [OF assms(1)] split: option.splits)
next
  case (Op_Create i s l tr at)
  with assms(2) have fresh: "map_of (attempts r) i = None" by (simp add: op_ok_def)
  with Op_Create show ?thesis
    using keeps_attempt_refl [OF repo_invD(2) [OF assms(1)]]
    by (auto simp: createAttempt_def touchProgressOnStart_def keeps_history_def keeps_row_def Let_def
        split: option.splits)
next
  case (Op_Check i passed at)
  with keeps_history_check [OF assms(1)] show ?thesis by simp
next
  case (Op_Expire before reason at live)
  have "keeps_attempt a (if stale before live a then expired reason at a else a)"
    if "map_of (attempts r) i = Some a" for i a
    using repo_invD(2) [OF assms(1) that]
    by (auto simp: keeps_attempt_def expired_def stale_def attempt_inv_def is_completed_def)
  with Op_Expire show ?thesis
    by (simp add: expire_eq [OF assms(1)] keeps_history_def map_of_map_values del: if_split)
next
  case (Op_Hint h i idx at)
  then show ?thesis
    by (auto simp: repo_recordHint_def Let_def map_le_def intro!: keeps_history_same [OF assms(1)] split: option.splits)
next
  case (Op_Bind i sess at)
  show ?thesis
  proof (cases "map_of (attempts r) i")
    case (Some a)
    with Op_Bind keeps_attempt_refl [OF repo_invD(2) [OF assms(1) Some]] show ?thesis
      by (intro keeps_history_update [OF assms(1) Some, where b = "a\<lparr>a_sessionId := Some sess, a_updatedAt := at\<rparr>"])
        (auto simp: repo_bindSession_def Let_def keeps_attempt_def)
  qed (use Op_Bind in \<open>simp add: repo_bindSession_def keeps_history_same [OF assms(1)]\<close>)
next
  case (Op_Reset i at)
  show ?thesis
  proof (cases "map_of (attempts r) i")
    case (Some a)
    with Op_Reset keeps_attempt_refl [OF repo_invD(2) [OF assms(1) Some]] show ?thesis
      by (intro keeps_history_update [OF assms(1) Some, where b = "a\<lparr>resetCount := resetCount a + 1, a_updatedAt := at\<rparr>"])
        (auto simp: repo_recordReset_def Let_def keeps_attempt_def)
  qed (use Op_Reset in \<open>simp add: repo_recordReset_def keeps_history_same [OF assms(1)]\<close>)
next
  case (Op_Finish i out reason at)
  show ?thesis
  proof (cases "map_of (attempts r) i")
    case (Some a)
    with Op_Finish keeps_attempt_refl [OF repo_invD(2) [OF assms(1) Some]] show ?thesis
      by (intro keeps_history_update [OF assms(1) Some, where b = "finished out reason at a"])
        (auto simp: finishAttempt_def Let_def keeps_attempt_def finished_def)
  qed (use Op_Finish in \<open>simp add: finishAttempt_def keeps_history_same [OF assms(1)]\<close>)
qed

section \<open>The interface of a progress repository\<close>

text \<open>
  What the rest of the program may rely on of a repository, in memory or durable: its
  contents stay consistent, and no step loses recorded history. The lemmas hold of
  every implementation of that contract.
\<close>

locale learning_history =
  fixes contents :: "'s \<Rightarrow> ProgressRepo"
    and valid :: "'s \<Rightarrow> bool"
    and step :: "'s \<Rightarrow> 's \<Rightarrow> bool"
  assumes contents_inv: "valid s \<Longrightarrow> repo_inv (contents s)"
    and step_valid: "valid s \<Longrightarrow> step s t \<Longrightarrow> valid t"
    and step_keeps: "valid s \<Longrightarrow> step s t \<Longrightarrow> keeps_history (contents s) (contents t)"
begin

lemma run_valid: "step\<^sup>*\<^sup>* s t \<Longrightarrow> valid s \<Longrightarrow> valid t"
  by (induction rule: rtranclp_induct) (auto intro: step_valid)

lemma run_keeps: "step\<^sup>*\<^sup>* s t \<Longrightarrow> valid s \<Longrightarrow> keeps_history (contents s) (contents t)"
proof (induction rule: rtranclp_induct)
  case base
  then show ?case using contents_inv by (simp add: keeps_history_same)
next
  case (step t u)
  then show ?case using step_keeps run_valid keeps_history_trans by blast
qed

lemma passed_kept:
  assumes "step\<^sup>*\<^sup>* s t" "valid s" "map_of (attempts (contents s)) i = Some a" "a_status a = A_PASSED"
  shows "\<exists>b q. map_of (attempts (contents t)) i = Some b \<and> a_status b = A_PASSED \<and> a_completedAt b = a_completedAt a \<and>
     a_studentId b = a_studentId a \<and> a_labId b = a_labId a \<and>
     map_of (progress (contents t)) (progressKey (a_studentId a) (a_labId a)) = Some q \<and> p_status q = P_COMPLETED"
proof -
  have inv: "repo_inv (contents s)" "repo_inv (contents t)" using contents_inv run_valid assms(1,2) by blast+
  have comp: "a_completedAt a \<noteq> None"
    using repo_invD(2) [OF inv(1) assms(3)] assms(4) by (simp add: attempt_inv_def is_completed_def)
  from run_keeps [OF assms(1,2)] assms(3) obtain b where
      b: "map_of (attempts (contents t)) i = Some b" "keeps_attempt a b" unfolding keeps_history_def by blast
  obtain q where q: "map_of (progress (contents t)) (attempt_key b) = Some q" using repo_invD(3) [OF inv(2) b(1)] by blast
  have fin: "is_completed b" using b(2) comp by (auto simp: keeps_attempt_def is_completed_def)
  have "0 < count_vals (\<lambda>c. attempt_key c = attempt_key b \<and> is_completed c) (attempts (contents t))"
    using fin map_of_SomeD [OF b(1)] by (force simp: count_vals_def filter_empty_conv)
  then have "p_status q = P_COMPLETED" using repo_invD(4) [OF inv(2) q] by (simp add: row_inv_def)
  with b q comp show ?thesis by (auto simp: keeps_attempt_def attempt_key_def)
qed

end

text \<open>The in-memory repository provides it.\<close>

definition repo_step :: "ProgressRepo \<Rightarrow> ProgressRepo \<Rightarrow> bool" where
  "repo_step r r' \<longleftrightarrow> (\<exists>op. op_ok op r \<and> r' = apply_op op r)"

interpretation mem_history: learning_history "\<lambda>r. r" repo_inv repo_step
  by unfold_locales (auto simp: repo_step_def intro: repo_inv_step keeps_history_step)

lemma repo_steps_run: "repo_steps r s \<Longrightarrow> repo_step\<^sup>*\<^sup>* r s"
proof (induction rule: repo_steps.induct)
  case (step r r' op)
  then have "repo_step r' (apply_op op r')" by (auto simp: repo_step_def)
  with step.IH show ?case by (rule rtranclp.rtrancl_into_rtrancl)
qed simp

text \<open>
  C15. Learning results are never lost: whatever happens afterwards (further checks, a
  reset, the end or expiry of the sandbox, the sweep of stale attempts, new attempts at
  the same lab), an attempt that passed stays \<open>PASSED\<close> with its first completion time,
  keeps its student and lab, and the row of that lab stays completed.
\<close>

theorem passed_is_permanent:
  assumes "repo_steps empty_repo r" and "repo_steps r s"
    and "map_of (attempts r) i = Some a" and "a_status a = A_PASSED"
  shows "\<exists>b q. map_of (attempts s) i = Some b \<and> a_status b = A_PASSED \<and> a_completedAt b = a_completedAt a \<and>
     a_studentId b = a_studentId a \<and> a_labId b = a_labId a \<and>
     map_of (progress s) (progressKey (a_studentId a) (a_labId a)) = Some q \<and> p_status q = P_COMPLETED"
  by (rule mem_history.passed_kept [OF repo_steps_run [OF assms(2)] repo_inv_steps [OF assms(1) repo_inv_empty] assms(3,4)])

theorem passed_is_permanent_witness:
  "\<exists>b q. map_of (attempts (apply_op (Op_Finish ''at-2'' O_FAILED None 99) demo_repo)) ''at-2'' = Some b \<and>
     a_status b = A_PASSED \<and> a_completedAt b = Some 22 \<and>
     map_of (progress (apply_op (Op_Finish ''at-2'' O_FAILED None 99) demo_repo))
       (progressKey ''stu-1'' ''LINUX-001'') = Some q \<and> p_status q = P_COMPLETED"
proof -
  let ?s = "apply_op (Op_Finish ''at-2'' O_FAILED None 99) demo_repo"
  have "map_option (\<lambda>a. (a_status a, a_completedAt a, a_studentId a, a_labId a)) (map_of (attempts demo_repo) ''at-2'')
      = Some (A_PASSED, Some 22, ''stu-1'', ''LINUX-001'')" by code_simp
  then obtain a where a: "map_of (attempts demo_repo) ''at-2'' = Some a" "a_status a = A_PASSED"
      "a_completedAt a = Some 22" "a_studentId a = ''stu-1''" "a_labId a = ''LINUX-001''" by auto
  have "repo_steps demo_repo ?s" by (intro repo_steps.step repo_steps.refl) (simp add: op_ok_def)
  from passed_is_permanent [OF demo_repo_steps this a(1,2)] a(3-5) show ?thesis by metis
qed

section \<open>The sweep, and what a closed attempt can still become\<close>

text \<open>
  The sweep of abandoned attempts closes exactly the attempts that are still open,
  started before the cutoff and not backed by a live session; it returns their number
  and leaves every other attempt and every progress row as it was.
\<close>

theorem expireStaleAttempts_exact:
  assumes "repo_steps empty_repo r"
    and "expireStaleAttempts before reason at live r = (closed, s)"
  shows "closed = length (filter (stale before live) (map snd (attempts r))) \<and> progress s = progress r \<and>
     map_of (attempts s) i = map_option (\<lambda>a. if a_status a = A_IN_PROGRESS \<and> a_startedAt a < before \<and>
         (a_sessionId a \<notin> Some ` set live) then expired reason at a else a) (map_of (attempts r) i)"
proof -
  have inv: "repo_inv r" using repo_inv_steps [OF assms(1) repo_inv_empty] .
  have st: "stale before live a \<longleftrightarrow> a_status a = A_IN_PROGRESS \<and> a_startedAt a < before \<and>
      a_sessionId a \<notin> Some ` set live" for a
    by (auto simp: stale_def split: option.splits)
  from assms(2) show ?thesis unfolding expire_eq [OF inv] by (auto simp: map_of_map_values st)
qed

definition demo_open :: ProgressRepo where
  "demo_open = apply_op (Op_Create ''at-3'' ''stu-1'' ''LINUX-002'' ''linux'' 50) demo_repo"

theorem expireStaleAttempts_exact_witness:
  "fst (expireStaleAttempts 1000 ''gone'' 2000 [] demo_open) = 1 \<and>
   progress (snd (expireStaleAttempts 1000 ''gone'' 2000 [] demo_open)) = progress demo_open"
proof -
  have "op_ok (Op_Create ''at-3'' ''stu-1'' ''LINUX-002'' ''linux'' 50) demo_repo" by code_simp
  then have steps: "repo_steps empty_repo demo_open"
    unfolding demo_open_def by (rule repo_steps.step [OF demo_repo_steps])
  have "length (filter (stale 1000 []) (map snd (attempts demo_open))) = 1" by code_simp
  with expireStaleAttempts_exact [OF steps surjective_pairing, of 1000 "''gone''" 2000 "[]"] show ?thesis by simp
qed

text \<open>
  A closed attempt is not closed for good: \<open>CLOSED_ATTEMPT_STATUSES\<close> is documented as
  the statuses from which an attempt can no longer change, but a passing check recorded
  on an attempt that \<open>ENDED\<close> moves it to \<open>PASSED\<close>.
\<close>

theorem closed_attempt_can_pass:
  "let r = apply_op (Op_Finish ''at-1'' O_ENDED None 13) demo_repo;
       before = map_option a_status (map_of (attempts r) ''at-1'');
       after = map_option a_status (map_of (attempts (apply_op (Op_Check ''at-1'' True 30) r)) ''at-1'')
   in before = Some A_ENDED \<and> isClosedAttempt A_ENDED \<and> after = Some A_PASSED"
  by code_simp

text \<open>
  An authenticated user can be refused a student id: \<open>studentIdForUser\<close> folds the
  characters the pattern excludes, because refusing a signed-in user their own history
  would be a bug, but it does not fold a first character the pattern excludes.
\<close>

theorem studentIdForUser_can_refuse:
  "studentIdForUser ''_alice'' = Inl INVALID_STUDENT_ID \<and> studentIdForUser ''@lice'' = Inl INVALID_STUDENT_ID \<and>
   studentIdForUser ''al@ce'' = Inr ''al-ce''"
  by code_simp

end
