(* ===== verification/Progress_Service.thy ===== *)
theory Progress_Service
  imports Progress_Repository
begin

text \<open>
  The use cases of \<open>services/progress/src/service.ts\<close> over the repository. The clock
  and \<open>randomUUID\<close> are arguments: \<open>now\<close> is the value the clock gives, \<open>uuid\<close> the fresh
  id. A method addressed by a session id looks the attempt up first and does nothing
  when there is none. Every use case is a sequence of repository operations, so the
  properties of repository traces hold of the service too.
\<close>

section \<open>The use cases\<close>

definition MAX_HINT_INDEX :: int where "MAX_HINT_INDEX = 50"
definition MAX_ATTEMPT_PAGE :: int where "MAX_ATTEMPT_PAGE = 100"
definition DEFAULT_ATTEMPT_PAGE :: int where "DEFAULT_ATTEMPT_PAGE = 20"

text \<open>\<open>Number.parseInt(s, 10)\<close>: whitespace, a sign, and the longest run of digits; \<open>None\<close> is NaN.\<close>

definition parse_digits :: "string \<Rightarrow> int option" where
  "parse_digits s = (let ds = takeWhile is_digit s in if ds = [] then None else Some (int (read_nat ds)))"

definition parseInt :: "string \<Rightarrow> int option" where
  "parseInt s = (case dropWhile is_space s of
       c # t \<Rightarrow> if c = CHR ''-'' then map_option uminus (parse_digits t)
                else if c = CHR ''+'' then parse_digits t
                else parse_digits (c # t)
     | [] \<Rightarrow> None)"

text \<open>A hint index from the network: a number that is an integer or not, or text.\<close>

datatype hint_value = Hint_Integer int | Hint_Fraction | Hint_Text string

definition assertValidHintIndex :: "hint_value \<Rightarrow> progress_error + int" where
  "assertValidHintIndex value =
     (let index = (case value of
          Hint_Integer i \<Rightarrow> Some i
        | Hint_Fraction \<Rightarrow> None
        | Hint_Text s \<Rightarrow> parseInt s)
      in case index of
           None \<Rightarrow> Inl INVALID_HINT_INDEX
         | Some i \<Rightarrow> if i < 1 \<or> i > MAX_HINT_INDEX then Inl INVALID_HINT_INDEX else Inr i)"

definition ensureStudent ::
    "StudentIdentity \<Rightarrow> int \<Rightarrow> ProgressRepo \<Rightarrow> (progress_error + Student) \<times> ProgressRepo" where
  "ensureStudent identity now r =
     (case assertValidStudentId (UString (id_studentId identity)) of
        Inl e \<Rightarrow> (Inl e, r)
      | Inr s \<Rightarrow> apfst Inr (repo_ensureStudent s (id_source identity) None now r))"

definition startAttempt ::
    "string \<Rightarrow> string \<Rightarrow> string \<Rightarrow> string \<Rightarrow> string \<Rightarrow> int \<Rightarrow> ProgressRepo \<Rightarrow>
      (progress_error + LabAttempt) \<times> ProgressRepo" where
  "startAttempt student lab track identitySource uuid now r =
     (case assertValidStudentId (UString student) of
        Inl e \<Rightarrow> (Inl e, r)
      | Inr s \<Rightarrow>
          let (_, r1) = repo_ensureStudent s identitySource None now r
          in apfst Inr (createAttempt uuid s lab track now r1))"

definition bindSession :: "string \<Rightarrow> string \<Rightarrow> int \<Rightarrow> ProgressRepo \<Rightarrow> LabAttempt option \<times> ProgressRepo" where
  "bindSession aid sess now r = repo_bindSession aid sess now r"

definition failAttempt :: "string \<Rightarrow> string \<Rightarrow> int \<Rightarrow> ProgressRepo \<Rightarrow> LabAttempt option \<times> ProgressRepo" where
  "failAttempt aid reason now r = finishAttempt aid O_FAILED (Some reason) now r"

definition attemptForSession :: "string \<Rightarrow> ProgressRepo \<Rightarrow> LabAttempt option" where
  "attemptForSession sess r = findAttemptBySession sess r"

definition recordCheck ::
    "string \<Rightarrow> bool \<Rightarrow> int \<Rightarrow> ProgressRepo \<Rightarrow> (progress_error + CheckOutcome option) \<times> ProgressRepo" where
  "recordCheck sess passed now r = (case findAttemptBySession sess r of
       None \<Rightarrow> (Inr None, r)
     | Some a \<Rightarrow> apfst (map_sum (\<lambda>e. e) Some) (repo_recordCheck (attemptId a) passed now r))"

definition recordReset :: "string \<Rightarrow> int \<Rightarrow> ProgressRepo \<Rightarrow> LabAttempt option \<times> ProgressRepo" where
  "recordReset sess now r = (case findAttemptBySession sess r of
       None \<Rightarrow> (None, r)
     | Some a \<Rightarrow> repo_recordReset (attemptId a) now r)"

definition closeSession ::
    "string \<Rightarrow> AttemptOutcome \<Rightarrow> string option \<Rightarrow> int \<Rightarrow> ProgressRepo \<Rightarrow> LabAttempt option \<times> ProgressRepo" where
  "closeSession sess outcome reason now r = (case findAttemptBySession sess r of
       None \<Rightarrow> (None, r)
     | Some a \<Rightarrow> finishAttempt (attemptId a) outcome reason now r)"

definition expireAbandonedAttempts ::
    "int \<Rightarrow> int option \<Rightarrow> string option \<Rightarrow> string list option \<Rightarrow> int \<Rightarrow> ProgressRepo \<Rightarrow> nat \<times> ProgressRepo" where
  "expireAbandonedAttempts maxSessionSeconds graceSeconds reason liveSessionIds now r =
     (let grace = (case graceSeconds of None \<Rightarrow> 300 | Some g \<Rightarrow> g) in
      expireStaleAttempts (now - (maxSessionSeconds + grace) * 1000)
        (case reason of None \<Rightarrow> ''the lab environment is no longer running'' | Some t \<Rightarrow> t) now
        (case liveSessionIds of None \<Rightarrow> [] | Some ids \<Rightarrow> ids) r)"

definition recordHint ::
    "string \<Rightarrow> hint_value \<Rightarrow> string \<Rightarrow> int \<Rightarrow> ProgressRepo \<Rightarrow> (progress_error + HintOutcome option) \<times> ProgressRepo" where
  "recordHint sess value uuid now r = (case assertValidHintIndex value of
       Inl e \<Rightarrow> (Inl e, r)
     | Inr index \<Rightarrow>
         (case findAttemptBySession sess r of
            None \<Rightarrow> (Inr None, r)
          | Some a \<Rightarrow> apfst (map_sum (\<lambda>e. e) Some) (repo_recordHint uuid (attemptId a) index now r)))"

definition progressForStudent ::
    "(string \<Rightarrow> string \<Rightarrow> bool) \<Rightarrow> string \<Rightarrow> ProgressRepo \<Rightarrow> progress_error + LabProgress list" where
  "progressForStudent locale_le student r = (case assertValidStudentId (UString student) of
       Inl e \<Rightarrow> Inl e
     | Inr s \<Rightarrow> Inr (listProgress locale_le s r))"

definition listAttempts :: "string \<Rightarrow> int option \<Rightarrow> ProgressRepo \<Rightarrow> progress_error + LabAttempt list" where
  "listAttempts student limit r =
     (let bounded = min MAX_ATTEMPT_PAGE (max 1 (case limit of None \<Rightarrow> DEFAULT_ATTEMPT_PAGE | Some l \<Rightarrow> l))
      in case assertValidStudentId (UString student) of
           Inl e \<Rightarrow> Inl e
         | Inr s \<Rightarrow> Inr (repo_listAttempts s bounded r))"

definition attemptDetail ::
    "string \<Rightarrow> string \<Rightarrow> ProgressRepo \<Rightarrow> progress_error + (LabAttempt \<times> HintUsage list) option" where
  "attemptDetail student aid r = (case assertValidStudentId (UString student) of
       Inl e \<Rightarrow> Inl e
     | Inr s \<Rightarrow>
         (case getAttempt s aid r of
            None \<Rightarrow> Inr None
          | Some a \<Rightarrow> Inr (Some (a, listHintUsage (attemptId a) r))))"

section \<open>Use cases as traces\<close>

datatype use_case =
    U_Ensure StudentIdentity int
  | U_Start string string string string string int
  | U_Bind string string int
  | U_Fail string string int
  | U_Check string bool int
  | U_Reset string int
  | U_Close string AttemptOutcome "string option" int
  | U_Expire int "int option" "string option" "string list option" int
  | U_Hint string hint_value string int

fun serve :: "use_case \<Rightarrow> ProgressRepo \<Rightarrow> ProgressRepo" where
  "serve (U_Ensure who now) r = snd (ensureStudent who now r)"
| "serve (U_Start s l tr src uuid now) r = snd (startAttempt s l tr src uuid now r)"
| "serve (U_Bind i sess now) r = snd (bindSession i sess now r)"
| "serve (U_Fail i reason now) r = snd (failAttempt i reason now r)"
| "serve (U_Check sess passed now) r = snd (recordCheck sess passed now r)"
| "serve (U_Reset sess now) r = snd (recordReset sess now r)"
| "serve (U_Close sess out reason now) r = snd (closeSession sess out reason now r)"
| "serve (U_Expire m g reason live now) r = snd (expireAbandonedAttempts m g reason live now r)"
| "serve (U_Hint sess v uuid now) r = snd (recordHint sess v uuid now r)"

fun fresh_ids :: "use_case \<Rightarrow> ProgressRepo \<Rightarrow> bool" where
  "fresh_ids (U_Start s l tr src uuid now) r \<longleftrightarrow> map_of (attempts r) uuid = None \<and> CHR 0x00 \<notin> set uuid"
| "fresh_ids _ r \<longleftrightarrow> True"

lemma assertValidStudentId_Inr: "assertValidStudentId v = Inr s \<Longrightarrow> STUDENT_ID_PATTERN s"
  by (auto simp: assertValidStudentId_def Let_def split: if_splits)

lemma one_step: "op_ok op r \<Longrightarrow> apply_op op r = s \<Longrightarrow> repo_steps r s"
  using repo_steps.step [OF repo_steps.refl] by blast

lemma serve_steps:
  assumes "fresh_ids u r"
  shows "repo_steps r (serve u r)"
proof (cases u)
  case (U_Ensure who now)
  show ?thesis
  proof (cases "assertValidStudentId (UString (id_studentId who))")
    case (Inr s)
    with U_Ensure show ?thesis
      by (intro one_step [where op = "Op_Ensure s (id_source who) None now"]) (simp_all add: op_ok_def ensureStudent_def)
  qed (simp add: U_Ensure ensureStudent_def repo_steps.refl)
next
  case (U_Start s l tr src uuid now)
  show ?thesis
  proof (cases "assertValidStudentId (UString s)")
    case (Inr s')
    let ?r1 = "apply_op (Op_Ensure s' src None now) r"
    have "repo_steps r ?r1" by (rule one_step [where op = "Op_Ensure s' src None now"]) (simp_all add: op_ok_def)
    moreover have "op_ok (Op_Create uuid s' l tr now) ?r1"
      using assms U_Start assertValidStudentId_Inr [OF Inr]
      by (auto simp: op_ok_def repo_ensureStudent_def Let_def split: option.splits)
    ultimately have "repo_steps r (apply_op (Op_Create uuid s' l tr now) ?r1)" by (rule repo_steps.step)
    with Inr U_Start show ?thesis by (simp add: startAttempt_def case_prod_beta)
  qed (simp add: U_Start startAttempt_def repo_steps.refl)
next
  case (U_Bind i sess now)
  then show ?thesis
    by (intro one_step [where op = "Op_Bind i sess now"]) (simp_all add: op_ok_def bindSession_def)
next
  case (U_Fail i reason now)
  then show ?thesis
    by (intro one_step [where op = "Op_Finish i O_FAILED (Some reason) now"]) (simp_all add: op_ok_def failAttempt_def)
next
  case (U_Check sess passed now)
  then show ?thesis
    by (cases "findAttemptBySession sess r")
      (auto simp: recordCheck_def repo_steps.refl op_ok_def intro!: one_step [where op = "Op_Check _ passed now"])
next
  case (U_Reset sess now)
  then show ?thesis
    by (cases "findAttemptBySession sess r")
      (auto simp: recordReset_def repo_steps.refl op_ok_def intro!: one_step [where op = "Op_Reset _ now"])
next
  case (U_Close sess out reason now)
  then show ?thesis
    by (cases "findAttemptBySession sess r")
      (auto simp: closeSession_def repo_steps.refl op_ok_def intro!: one_step [where op = "Op_Finish _ out reason now"])
next
  case (U_Expire m g reason live now)
  then show ?thesis
    by (auto simp: expireAbandonedAttempts_def Let_def op_ok_def intro!: one_step [where op = "Op_Expire _ _ now _"])
next
  case (U_Hint sess v uuid now)
  then show ?thesis
    by (cases "findAttemptBySession sess r"; cases "assertValidHintIndex v")
      (auto simp: recordHint_def repo_steps.refl op_ok_def intro!: one_step [where op = "Op_Hint uuid _ _ now"])
qed

text \<open>A run of use cases, each with fresh ids.\<close>

inductive served :: "ProgressRepo \<Rightarrow> bool" where
  empty: "served empty_repo"
| serve: "served r \<Longrightarrow> fresh_ids u r \<Longrightarrow> served (serve u r)"

lemma served_steps: "served r \<Longrightarrow> repo_steps empty_repo r"
  by (induction rule: served.induct) (blast intro: repo_steps.refl repo_steps_trans serve_steps)+

section \<open>Reads\<close>

lemma sorted_ordered: "sorted_wrt (newer r) (ordered r)"
  unfolding ordered_def by (rule sorted_sort_by) (auto simp: newer_def)

lemma set_ordered: "set (ordered r) = set (map snd (attempts r))"
  by (simp add: ordered_def set_sort_by)

text \<open>
  A page of attempts is bounded and private: whatever limit the request asks for
  (absent, negative or huge), the answer has at most \<open>MAX_ATTEMPT_PAGE\<close> entries, newest
  first, all of them attempts of the student asked for; when it is shorter than the
  limit it holds every attempt of that student.
\<close>

theorem listAttempts_bounded:
  assumes "listAttempts student limit r = Inr page"
  shows "length page \<le> 100 \<and> sorted_wrt (newer r) page \<and>
     set page \<subseteq> {a \<in> set (map snd (attempts r)). assertValidStudentId (UString student) = Inr (a_studentId a)} \<and>
     (length page < nat (min 100 (max 1 (case limit of None \<Rightarrow> 20 | Some l \<Rightarrow> l))) \<longrightarrow>
        {a \<in> set (map snd (attempts r)). assertValidStudentId (UString student) = Inr (a_studentId a)} \<subseteq> set page)"
proof -
  let ?n = "min 100 (max 1 (case limit of None \<Rightarrow> 20 | Some l \<Rightarrow> l))"
  from assms obtain s where s: "assertValidStudentId (UString student) = Inr s"
      and page: "page = take (nat (max 0 ?n)) (filter (\<lambda>a. a_studentId a = s) (ordered r))"
    unfolding listAttempts_def repo_listAttempts_def MAX_ATTEMPT_PAGE_def DEFAULT_ATTEMPT_PAGE_def Let_def
    by (auto split: sum.splits)
  let ?own = "filter (\<lambda>a. a_studentId a = s) (ordered r)"
  have n: "max 0 ?n = ?n" by simp
  have own: "set ?own = {a \<in> set (map snd (attempts r)). assertValidStudentId (UString student) = Inr (a_studentId a)}"
    using s set_ordered [of r] by auto
  have "length page \<le> 100" unfolding page by simp
  moreover have "sorted_wrt (newer r) page"
    unfolding page by (intro sorted_wrt_take sorted_wrt_filter sorted_ordered)
  moreover have "set page \<subseteq> set ?own" unfolding page by (rule set_take_subset)
  moreover have "set ?own \<subseteq> set page" if "length page < nat ?n"
    using that unfolding page n by (simp add: min_def split: if_splits)
  ultimately show ?thesis unfolding own by blast
qed

theorem listAttempts_bounded_witness:
  "map attemptId (case listAttempts ''Stu-1'' (Some 100000) demo_repo of Inr page \<Rightarrow> page | Inl _ \<Rightarrow> []) =
     [''at-2'', ''at-1''] \<and>
   length (case listAttempts ''Stu-1'' (Some 100000) demo_repo of Inr page \<Rightarrow> page | Inl _ \<Rightarrow> []) \<le> 100"
proof -
  obtain page where page: "listAttempts ''Stu-1'' (Some 100000) demo_repo = Inr page"
  proof -
    have "assertValidStudentId (UString ''Stu-1'') = Inr ''stu-1''" by code_simp
    then show thesis using that by (simp add: listAttempts_def)
  qed
  have "map attemptId (repo_listAttempts ''stu-1'' 100 demo_repo) = [''at-2'', ''at-1'']" by code_simp
  moreover have "page = repo_listAttempts ''stu-1'' 100 demo_repo"
  proof -
    have "assertValidStudentId (UString ''Stu-1'') = Inr ''stu-1''" by code_simp
    with page show ?thesis by (simp add: listAttempts_def MAX_ATTEMPT_PAGE_def)
  qed
  ultimately show ?thesis using listAttempts_bounded [OF page] page by simp
qed

section \<open>Completions\<close>

lemma recordCheck_passed:
  assumes "repo_inv r" "map_of (attempts r) i = Some a"
    "repo_recordCheck i True now r = (Inr out, s)" "map_of (progress r) (attempt_key a) = Some p"
  shows "newlyCompleted out \<longleftrightarrow> a_completedAt a = None"
    and "newlyCompleted out \<Longrightarrow> completionCount (co_progress out) = completionCount p + 1"
    and "\<not> newlyCompleted out \<Longrightarrow> progress s = progress r \<and> co_progress out = p"
    and "map_of (attempts s) i = Some (checked True now a)"
proof -
  let ?b = "checked True now a"
  have id: "attemptId a = i" using repo_invD(2) [OF assms(1,2)] by (simp add: attempt_inv_def)
  have p1: "map_of (progress (put_attempt ?b r)) (attempt_key ?b) = Some p" using assms(4) by (simp add: checked_facts)
  have al: "map_of (attempts (put_attempt ?b r)) i = Some ?b" by (simp add: put_attempt_def checked_facts id)
  note defs = repo_recordCheck_def assms(2) option.case Let_def
  have newly: "newlyCompleted out \<longleftrightarrow> a_completedAt a = None"
    using assms(3) unfolding defs by (auto split: prod.splits)
  then show "newlyCompleted out \<longleftrightarrow> a_completedAt a = None" .
  show "newlyCompleted out \<Longrightarrow> completionCount (co_progress out) = completionCount p + 1"
    using assms(3) newly unfolding defs
    by (auto simp: markCompleted_def progressFor_present [OF p1] Let_def split: if_splits)
  show "\<not> newlyCompleted out \<Longrightarrow> progress s = progress r \<and> co_progress out = p"
    using assms(3) newly unfolding defs by (auto simp: progressFor_present [OF p1])
  show "map_of (attempts s) i = Some (checked True now a)"
    using assms(3) al unfolding defs
    by (auto simp: markCompleted_def progressFor_present [OF p1] Let_def split: if_splits)
qed

lemma recordCheck_returns:
  "map_of (attempts r) i = Some a \<Longrightarrow> \<exists>out s. repo_recordCheck i passed now r = (Inr out, s)"
  by (auto simp: repo_recordCheck_def Let_def case_prod_beta)

text \<open>
  A completion is counted exactly once. In a history produced by the service, the
  first passing check of an attempt reports \<open>newlyCompleted\<close> and adds one completion to
  the row of its lab; a second one, however much later and whatever happened in
  between, reports false and leaves every progress row as it was.
\<close>

theorem completion_counted_once:
  assumes "served r" and "map_of (attempts r) i = Some a"
    and "repo_recordCheck i True now r = (Inr out, s)"
    and "repo_steps s t" and "repo_recordCheck i True later t = (Inr out', u)"
  shows "(newlyCompleted out \<longleftrightarrow> a_status a \<noteq> A_PASSED) \<and>
     completionCount (co_progress out) =
       completionCount (the (map_of (progress r) (attempt_key a))) + (if newlyCompleted out then 1 else 0) \<and>
     \<not> newlyCompleted out' \<and> progress u = progress t"
proof -
  have inv: "repo_inv r" using repo_inv_steps [OF served_steps [OF assms(1)] repo_inv_empty] .
  obtain p where p: "map_of (progress r) (attempt_key a) = Some p" using repo_invD(3) [OF inv assms(2)] by blast
  note first = recordCheck_passed [OF inv assms(2,3) p]
  have stat: "a_status a = A_PASSED \<longleftrightarrow> a_completedAt a \<noteq> None"
    using repo_invD(2) [OF inv assms(2)] by (simp add: attempt_inv_def is_completed_def)
  have "s = apply_op (Op_Check i True now) r" using assms(3) by simp
  then have inv_s: "repo_inv s" using repo_inv_check [OF inv, of i True now] by simp
  note inv_t = repo_inv_steps [OF assms(4) inv_s]
  from mem_history.run_keeps [OF repo_steps_run [OF assms(4)] inv_s] first(4) obtain b where
      b: "map_of (attempts t) i = Some b" "keeps_attempt (checked True now a) b"
    unfolding keeps_history_def by blast
  then have comp: "a_completedAt b \<noteq> None"
    by (auto simp: keeps_attempt_def checked_facts split: option.splits)
  obtain q where q: "map_of (progress t) (attempt_key b) = Some q" using repo_invD(3) [OF inv_t b(1)] by blast
  note second = recordCheck_passed [OF inv_t b(1) assms(5) q]
  show ?thesis using first(1-3) second(1,3) comp stat p by auto
qed

lemma demo_served: "served (serve (U_Start ''Stu-1'' ''LINUX-001'' ''linux'' ''authenticated'' ''at-1'' 10) empty_repo)"
  by (intro served.intros) (simp add: empty_repo_def)

theorem completion_counted_once_witness:
  "\<exists>out s out' u. let r = serve (U_Start ''Stu-1'' ''LINUX-001'' ''linux'' ''authenticated'' ''at-1'' 10) empty_repo in
     repo_recordCheck ''at-1'' True 20 r = (Inr out, s) \<and> newlyCompleted out \<and>
     repo_recordCheck ''at-1'' True 30 s = (Inr out', u) \<and> \<not> newlyCompleted out' \<and> progress u = progress s"
proof -
  let ?r = "serve (U_Start ''Stu-1'' ''LINUX-001'' ''linux'' ''authenticated'' ''at-1'' 10) empty_repo"
  have "map_option a_status (map_of (attempts ?r) ''at-1'') = Some A_IN_PROGRESS" by code_simp
  then obtain a where a: "map_of (attempts ?r) ''at-1'' = Some a" "a_status a = A_IN_PROGRESS" by auto
  obtain out s where f: "repo_recordCheck ''at-1'' True 20 ?r = (Inr out, s)"
    using recordCheck_returns [OF a(1)] by blast
  have "map_of (attempts (snd (repo_recordCheck ''at-1'' True 20 ?r))) ''at-1'' \<noteq> None" by code_simp
  with f obtain b where "map_of (attempts s) ''at-1'' = Some b" by auto
  then obtain out' u where g: "repo_recordCheck ''at-1'' True 30 s = (Inr out', u)"
    using recordCheck_returns by blast
  from completion_counted_once [OF demo_served a(1) f repo_steps.refl g] a(2) f g show ?thesis
    unfolding Let_def by (intro exI [of _ out] exI [of _ s] exI [of _ out'] exI [of _ u]) simp
qed

end
