(* ===== verification/Postgres_Progress.thy ===== *)
theory Postgres_Progress
  imports Progress_Repository
begin

text \<open>
  The PostgreSQL implementation of the learning history:
  \<open>services/progress/src/postgres/repository.ts\<close> over the tables of
  \<open>services/progress/migrations\<close>.

  A table is the list of its rows in the order they were inserted; a \<open>SELECT\<close> without
  \<open>ORDER BY\<close> is used by the source only where at most one row matches. An operation
  answers a value or an error, and a failed operation leaves every table as it was:
  a statement is atomic and a transaction is rolled back. Only the \<open>BIGSERIAL\<close> counter
  is not rolled back. The input function of the column type \<open>uuid\<close> is the parameter
  \<open>uuid_in\<close>. Counters and instants are unbounded: the \<open>INTEGER\<close> columns count single
  clicks.
\<close>

section \<open>Tables\<close>

datatype pg_error =
    Progress_Error progress_error
  | Invalid_Uuid | Unique_Violation | Foreign_Key_Violation | Check_Violation
  | Negative_Limit | Missing_Row

record AttemptRow =
  row_seq :: nat
  row_attempt :: LabAttempt

record ProgressDb =
  t_students :: "Student list"
  t_attempts :: "AttemptRow list"
  t_progress :: "LabProgress list"
  t_hints :: "HintUsage list"
  next_seq :: nat

type_synonym 'a answer = "(pg_error + 'a) \<times> ProgressDb"

definition empty_db :: ProgressDb where
  "empty_db = \<lparr>t_students = [], t_attempts = [], t_progress = [], t_hints = [], next_seq = 1\<rparr>"

definition row_id :: "AttemptRow \<Rightarrow> string" where
  "row_id row = attemptId (row_attempt row)"

text \<open>\<open>UPDATE\<close> of the rows that satisfy a condition.\<close>

definition update_where :: "('r \<Rightarrow> bool) \<Rightarrow> ('r \<Rightarrow> 'r) \<Rightarrow> 'r list \<Rightarrow> 'r list" where
  "update_where P f = map (\<lambda>row. if P row then f row else row)"

definition UUID_PATTERN :: "string \<Rightarrow> bool" where
  "UUID_PATTERN s \<longleftrightarrow> (let groups = split_on CHR ''-'' s in
     map length groups = [8, 4, 4, 4, 12] \<and> list_all (list_all is_hex) groups)"

definition isUuid :: "string \<Rightarrow> bool" where
  "isUuid value \<longleftrightarrow> UUID_PATTERN (toLowerCase value)"

definition with_uuid :: "(string \<Rightarrow> string option) \<Rightarrow> string \<Rightarrow> ProgressDb \<Rightarrow> (string \<Rightarrow> 'a answer) \<Rightarrow> 'a answer" where
  "with_uuid uuid_in given db statement = (case uuid_in given of
       None \<Rightarrow> (Inl Invalid_Uuid, db)
     | Some i \<Rightarrow> statement i)"

text \<open>The check \<open>lab_attempts_completed_at_matches_status\<close>.\<close>

definition attempt_check :: "LabAttempt \<Rightarrow> bool" where
  "attempt_check a \<longleftrightarrow> (a_status a = A_PASSED) = (a_completedAt a \<noteq> None)"

definition select_attempt :: "string \<Rightarrow> ProgressDb \<Rightarrow> LabAttempt option" where
  "select_attempt i db = map_option row_attempt (find (\<lambda>row. row_id row = i) (t_attempts db))"

text \<open>\<open>UPDATE lab_attempts SET ... WHERE attempt_id = i RETURNING ...\<close>\<close>

definition update_attempt :: "string \<Rightarrow> (LabAttempt \<Rightarrow> LabAttempt) \<Rightarrow> ProgressDb \<Rightarrow> LabAttempt option answer" where
  "update_attempt i f db =
     (let db' = db\<lparr>t_attempts := update_where (\<lambda>row. row_id row = i)
            (\<lambda>row. row\<lparr>row_attempt := f (row_attempt row)\<rparr>) (t_attempts db)\<rparr>
      in if list_ex (\<lambda>row. row_id row = i \<and> \<not> attempt_check (row_attempt row)) (t_attempts db')
         then (Inl Check_Violation, db)
         else (Inr (select_attempt i db'), db'))"

section \<open>Operations\<close>

definition pg_ensureStudent ::
    "string \<Rightarrow> string \<Rightarrow> string option \<Rightarrow> int \<Rightarrow> ProgressDb \<Rightarrow> Student answer" where
  "pg_ensureStudent studentId identitySource displayName at db =
     (if \<not> STUDENT_ID_PATTERN studentId then (Inl Check_Violation, db)
      else (case find (\<lambda>s. st_studentId s = studentId) (t_students db) of
        Some existing \<Rightarrow>
          (Inr (existing\<lparr>st_lastSeenAt := at\<rparr>),
           db\<lparr>t_students := update_where (\<lambda>s. st_studentId s = studentId) (st_lastSeenAt_update (\<lambda>_. at)) (t_students db)\<rparr>)
      | None \<Rightarrow>
          let student = \<lparr>st_studentId = studentId, st_displayName = displayName,
                st_identitySource = identitySource, st_createdAt = at, st_lastSeenAt = at\<rparr>
          in (Inr student, db\<lparr>t_students := t_students db @ [student]\<rparr>)))"

text \<open>
  \<open>INSERT INTO lab_progress ... ON CONFLICT (student_id, lab_id) DO UPDATE\<close>, with the row
  to insert and the update of an existing one; the row is returned.
\<close>

definition same_lab :: "string \<Rightarrow> string \<Rightarrow> LabProgress \<Rightarrow> bool" where
  "same_lab studentId lab p \<longleftrightarrow> p_studentId p = studentId \<and> p_labId p = lab"

definition upsert_progress :: "LabProgress \<Rightarrow> (LabProgress \<Rightarrow> LabProgress) \<Rightarrow> ProgressDb \<Rightarrow> LabProgress \<times> ProgressDb" where
  "upsert_progress row on_conflict db =
     (let conflict = same_lab (p_studentId row) (p_labId row) in
      case find conflict (t_progress db) of
        None \<Rightarrow> (row, db\<lparr>t_progress := t_progress db @ [row]\<rparr>)
      | Some existing \<Rightarrow>
          (on_conflict existing, db\<lparr>t_progress := update_where conflict on_conflict (t_progress db)\<rparr>))"

definition started_row :: "string \<Rightarrow> string \<Rightarrow> string \<Rightarrow> string \<Rightarrow> int \<Rightarrow> LabProgress" where
  "started_row studentId lab track i at = \<lparr>p_studentId = studentId, p_labId = lab, p_track = track,
     p_status = P_IN_PROGRESS, attemptCount = 1, completionCount = 0, firstCompletedAt = None,
     lastCompletedAt = None, lastAttemptId = Some i, firstAttemptAt = at, p_updatedAt = at\<rparr>"

definition pg_touchProgressOnStart :: "string \<Rightarrow> string \<Rightarrow> string \<Rightarrow> string \<Rightarrow> int \<Rightarrow> ProgressDb \<Rightarrow> ProgressDb" where
  "pg_touchProgressOnStart i studentId lab track startedAt db =
     snd (upsert_progress (started_row studentId lab track i startedAt)
       (\<lambda>p. p\<lparr>p_status := (if p_status p = P_COMPLETED then P_COMPLETED else P_IN_PROGRESS),
          attemptCount := attemptCount p + 1, lastAttemptId := Some i, p_updatedAt := startedAt\<rparr>) db)"

definition pg_createAttempt ::
    "(string \<Rightarrow> string option) \<Rightarrow> string \<Rightarrow> string \<Rightarrow> string \<Rightarrow> string \<Rightarrow> int \<Rightarrow> ProgressDb \<Rightarrow> LabAttempt answer" where
  "pg_createAttempt uuid_in aid studentId lab track startedAt db =
     with_uuid uuid_in aid db (\<lambda>i.
       let failed = db\<lparr>next_seq := next_seq db + 1\<rparr>;
           a = \<lparr>attemptId = i, a_studentId = studentId, a_labId = lab, a_track = track,
             a_sessionId = None, a_status = A_IN_PROGRESS, a_statusReason = None, a_startedAt = startedAt,
             a_completedAt = None, a_endedAt = None, checkCount = 0, resetCount = 0, a_updatedAt = startedAt\<rparr>
       in if select_attempt i db \<noteq> None then (Inl Unique_Violation, failed)
          else if \<not> list_ex (\<lambda>s. st_studentId s = studentId) (t_students db) then (Inl Foreign_Key_Violation, failed)
          else (Inr a, pg_touchProgressOnStart i studentId lab track startedAt
                 (db\<lparr>t_attempts := t_attempts db @ [\<lparr>row_seq = next_seq db, row_attempt = a\<rparr>],
                     next_seq := next_seq db + 1\<rparr>)))"

text \<open>The unique index \<open>lab_attempts_by_session\<close> refuses a session bound to another attempt.\<close>

definition pg_bindSession ::
    "(string \<Rightarrow> string option) \<Rightarrow> string \<Rightarrow> string \<Rightarrow> int \<Rightarrow> ProgressDb \<Rightarrow> LabAttempt option answer" where
  "pg_bindSession uuid_in aid sess at db =
     with_uuid uuid_in aid db (\<lambda>i.
       if select_attempt i db \<noteq> None \<and>
          list_ex (\<lambda>row. row_id row \<noteq> i \<and> a_sessionId (row_attempt row) = Some sess) (t_attempts db)
       then (Inl Unique_Violation, db)
       else update_attempt i (\<lambda>a. a\<lparr>a_sessionId := Some sess, a_updatedAt := at\<rparr>) db)"

definition pg_findAttempt ::
    "(string \<Rightarrow> string option) \<Rightarrow> string \<Rightarrow> ProgressDb \<Rightarrow> pg_error + LabAttempt option" where
  "pg_findAttempt uuid_in aid db =
     (if \<not> isUuid aid then Inr None
      else fst (with_uuid uuid_in aid db (\<lambda>i. (Inr (select_attempt i db), db))))"

definition pg_findAttemptBySession :: "string \<Rightarrow> ProgressDb \<Rightarrow> LabAttempt option" where
  "pg_findAttemptBySession sess db =
     find (\<lambda>a. a_sessionId a = Some sess) (map row_attempt (t_attempts db))"

definition pg_markCompleted :: "LabAttempt \<Rightarrow> int \<Rightarrow> ProgressDb \<Rightarrow> LabProgress \<times> ProgressDb" where
  "pg_markCompleted a at =
     upsert_progress
       ((started_row (a_studentId a) (a_labId a) (a_track a) (attemptId a) at)
          \<lparr>p_status := P_COMPLETED, completionCount := 1, firstCompletedAt := Some at, lastCompletedAt := Some at\<rparr>)
       (\<lambda>p. p\<lparr>p_status := P_COMPLETED, completionCount := completionCount p + 1,
          firstCompletedAt := (case firstCompletedAt p of None \<Rightarrow> Some at | t \<Rightarrow> t),
          lastCompletedAt := Some at, p_updatedAt := at\<rparr>)"

definition pg_readProgress :: "LabAttempt \<Rightarrow> ProgressDb \<Rightarrow> LabProgress \<times> ProgressDb" where
  "pg_readProgress a db =
     (case find (same_lab (a_studentId a) (a_labId a)) (t_progress db) of
        Some found \<Rightarrow> (found, db)
      | None \<Rightarrow> upsert_progress
          (started_row (a_studentId a) (a_labId a) (a_track a) (attemptId a) (a_updatedAt a))
          (\<lambda>p. p\<lparr>p_updatedAt := a_updatedAt a\<rparr>) db)"

definition pg_recordCheck ::
    "(string \<Rightarrow> string option) \<Rightarrow> string \<Rightarrow> bool \<Rightarrow> int \<Rightarrow> ProgressDb \<Rightarrow> CheckOutcome answer" where
  "pg_recordCheck uuid_in aid passed at db =
     with_uuid uuid_in aid db (\<lambda>i.
       case select_attempt i db of
         None \<Rightarrow> (Inl (Progress_Error (ATTEMPT_NOT_FOUND aid)), db)
       | Some before \<Rightarrow>
           let newly = passed \<and> a_completedAt before = None in
           (case update_attempt i (\<lambda>a. a\<lparr>checkCount := checkCount a + 1, a_updatedAt := at,
                    a_status := (if passed then A_PASSED else a_status a),
                    a_completedAt := (if passed then (case a_completedAt a of None \<Rightarrow> Some at | t \<Rightarrow> t)
                                      else a_completedAt a)\<rparr>) db of
              (Inl e, _) \<Rightarrow> (Inl e, db)
            | (Inr None, _) \<Rightarrow> (Inl Missing_Row, db)
            | (Inr (Some a), db1) \<Rightarrow>
                let (prog, db2) = (if newly then pg_markCompleted a at db1 else pg_readProgress a db1)
                in (Inr \<lparr>co_attempt = a, co_passed = passed, newlyCompleted = newly, co_progress = prog\<rparr>, db2)))"

definition pg_recordReset ::
    "(string \<Rightarrow> string option) \<Rightarrow> string \<Rightarrow> int \<Rightarrow> ProgressDb \<Rightarrow> LabAttempt option answer" where
  "pg_recordReset uuid_in aid at db =
     with_uuid uuid_in aid db (\<lambda>i.
       update_attempt i (\<lambda>a. a\<lparr>resetCount := resetCount a + 1, a_updatedAt := at\<rparr>) db)"

definition pg_finishAttempt ::
    "(string \<Rightarrow> string option) \<Rightarrow> string \<Rightarrow> AttemptOutcome \<Rightarrow> string option \<Rightarrow> int \<Rightarrow> ProgressDb \<Rightarrow> LabAttempt option answer" where
  "pg_finishAttempt uuid_in aid outcome reason at db =
     with_uuid uuid_in aid db (\<lambda>i.
       update_attempt i (\<lambda>a. a\<lparr>
         a_status := (if a_status a = A_IN_PROGRESS then outcome_status outcome else a_status a),
         a_statusReason := (if a_status a = A_IN_PROGRESS then reason else a_statusReason a),
         a_endedAt := (case a_endedAt a of None \<Rightarrow> Some at | t \<Rightarrow> t),
         a_updatedAt := at\<rparr>) db)"

definition pg_expireStaleAttempts ::
    "int \<Rightarrow> string \<Rightarrow> int \<Rightarrow> string list \<Rightarrow> ProgressDb \<Rightarrow> nat answer" where
  "pg_expireStaleAttempts startedBefore reason at live db =
     (let due = (\<lambda>row. a_status (row_attempt row) = A_IN_PROGRESS \<and> a_startedAt (row_attempt row) < startedBefore \<and>
            (case a_sessionId (row_attempt row) of None \<Rightarrow> True | Some s \<Rightarrow> s \<notin> set live));
          close = (\<lambda>row. row\<lparr>row_attempt := (row_attempt row)\<lparr>a_status := A_EXPIRED, a_statusReason := Some reason,
            a_endedAt := (case a_endedAt (row_attempt row) of None \<Rightarrow> Some at | t \<Rightarrow> t), a_updatedAt := at\<rparr>\<rparr>)
      in if list_ex (\<lambda>row. due row \<and> \<not> attempt_check (row_attempt (close row))) (t_attempts db)
         then (Inl Check_Violation, db)
         else (Inr (length (filter due (t_attempts db))),
               db\<lparr>t_attempts := update_where due close (t_attempts db)\<rparr>))"

text \<open>
  The insert checks \<open>hint_index >= 1\<close> first, then conflicts on the pair of attempt and
  index (which writes nothing) or on the primary key (which fails).
\<close>

definition pg_recordHint ::
    "(string \<Rightarrow> string option) \<Rightarrow> string \<Rightarrow> string \<Rightarrow> int \<Rightarrow> int \<Rightarrow> ProgressDb \<Rightarrow> HintOutcome answer" where
  "pg_recordHint uuid_in hid aid hint at db =
     with_uuid uuid_in aid db (\<lambda>i.
       case select_attempt i db of
         None \<Rightarrow> (Inl (Progress_Error (ATTEMPT_NOT_FOUND aid)), db)
       | Some a \<Rightarrow> with_uuid uuid_in hid db (\<lambda>h.
           let usage = \<lparr>hintUsageId = h, h_studentId = a_studentId a, h_attemptId = i, h_labId = a_labId a,
                 hintIndex = hint, revealedAt = at\<rparr>;
               counted = (\<lambda>d. length (filter (\<lambda>u. h_attemptId u = i) (t_hints d)))
           in if hint < 1 then (Inl Check_Violation, db)
              else (case find (\<lambda>u. h_attemptId u = i \<and> hintIndex u = hint) (t_hints db) of
                Some existing \<Rightarrow>
                  (Inr \<lparr>ho_usage = existing, recorded = False, revealedCount = counted db\<rparr>, db)
              | None \<Rightarrow>
                  if list_ex (\<lambda>u. hintUsageId u = h) (t_hints db) then (Inl Unique_Violation, db)
                  else let db' = db\<lparr>t_hints := t_hints db @ [usage]\<rparr>
                       in (Inr \<lparr>ho_usage = usage, recorded = True, revealedCount = counted db'\<rparr>, db'))))"

definition pg_listAttempts :: "string \<Rightarrow> int \<Rightarrow> ProgressDb \<Rightarrow> pg_error + LabAttempt list" where
  "pg_listAttempts studentId limit db =
     (if limit < 0 then Inl Negative_Limit
      else Inr (map row_attempt (take (nat limit)
        (sort_by (\<lambda>r s. a_startedAt (row_attempt s) < a_startedAt (row_attempt r) \<or>
              a_startedAt (row_attempt s) = a_startedAt (row_attempt r) \<and> row_seq s \<le> row_seq r)
           (filter (\<lambda>row. a_studentId (row_attempt row) = studentId) (t_attempts db))))))"

definition pg_getAttempt ::
    "(string \<Rightarrow> string option) \<Rightarrow> string \<Rightarrow> string \<Rightarrow> ProgressDb \<Rightarrow> pg_error + LabAttempt option" where
  "pg_getAttempt uuid_in studentId aid db =
     (if \<not> isUuid aid then Inr None
      else fst (with_uuid uuid_in aid db (\<lambda>i.
        (Inr (map_option row_attempt
           (find (\<lambda>row. row_id row = i \<and> a_studentId (row_attempt row) = studentId) (t_attempts db))), db))))"

definition pg_listHintUsage ::
    "(string \<Rightarrow> string option) \<Rightarrow> string \<Rightarrow> ProgressDb \<Rightarrow> pg_error + HintUsage list" where
  "pg_listHintUsage uuid_in aid db =
     (if \<not> isUuid aid then Inr []
      else fst (with_uuid uuid_in aid db (\<lambda>i.
        (Inr (sort_by (\<lambda>a b. hintIndex a \<le> hintIndex b) (filter (\<lambda>u. h_attemptId u = i) (t_hints db))), db))))"

text \<open>The order of \<open>ORDER BY lab_id\<close> is that of the collation of the database.\<close>

definition pg_listProgress :: "(string \<Rightarrow> string \<Rightarrow> bool) \<Rightarrow> string \<Rightarrow> ProgressDb \<Rightarrow> LabProgress list" where
  "pg_listProgress collate studentId db =
     sort_by (\<lambda>a b. collate (p_labId a) (p_labId b)) (filter (\<lambda>p. p_studentId p = studentId) (t_progress db))"

section \<open>The maps behind the tables\<close>

definition kv :: "('r \<Rightarrow> 'k) \<Rightarrow> ('r \<Rightarrow> 'v) \<Rightarrow> 'r list \<Rightarrow> ('k \<times> 'v) list" where
  "kv key val = map (\<lambda>row. (key row, val row))"

definition progress_key :: "LabProgress \<Rightarrow> string" where
  "progress_key p = progressKey (p_studentId p) (p_labId p)"

definition hint_key :: "HintUsage \<Rightarrow> string" where
  "hint_key u = hintKey (h_attemptId u) (hintIndex u)"

text \<open>The in-memory repository with the same contents.\<close>

definition mem_of :: "ProgressDb \<Rightarrow> ProgressRepo" where
  "mem_of db = \<lparr>students = kv st_studentId (\<lambda>s. s) (t_students db), attempts = kv row_id row_attempt (t_attempts db),
     progress = kv progress_key (\<lambda>p. p) (t_progress db), hints = kv hint_key (\<lambda>u. u) (t_hints db),
     sequence = kv row_id row_seq (t_attempts db), nextSequence = next_seq db\<rparr>"

lemma mem_of_simps [simp]:
  "students (mem_of db) = kv st_studentId (\<lambda>s. s) (t_students db)"
  "attempts (mem_of db) = kv row_id row_attempt (t_attempts db)"
  "progress (mem_of db) = kv progress_key (\<lambda>p. p) (t_progress db)"
  "hints (mem_of db) = kv hint_key (\<lambda>u. u) (t_hints db)"
  "sequence (mem_of db) = kv row_id row_seq (t_attempts db)"
  "nextSequence (mem_of db) = next_seq db"
  by (simp_all add: mem_of_def)

lemma map_of_kv: "map_of (kv f g rows) k = map_option g (find (\<lambda>x. f x = k) rows)"
  by (induction rows) (auto simp: kv_def)

lemma map_fst_kv [simp]: "map fst (kv f g rows) = map f rows"
  by (simp add: kv_def)

lemma map_snd_kv [simp]: "map snd (kv f g rows) = map g rows"
  by (simp add: kv_def)

lemma find_key:
  "distinct (map f rows) \<Longrightarrow> find (\<lambda>x. f x = k) rows = Some x \<longleftrightarrow> x \<in> set rows \<and> f x = k"
  by (induction rows) auto

lemma find_key_None: "find (\<lambda>x. f x = k) rows = None \<longleftrightarrow> k \<notin> f ` set rows"
  by (auto simp: find_None_iff)

lemma kv_insert: "find (\<lambda>x. f x = k) rows = None \<Longrightarrow> f y = k \<Longrightarrow> AList.update k (g y) (kv f g rows) = kv f g (rows @ [y])"
  by (induction rows) (auto simp: kv_def split: if_splits)

lemma kv_update:
  assumes "distinct (map f rows)" "find (\<lambda>x. f x = k) rows = Some x" "f (h x) = k"
  shows "AList.update k (g (h x)) (kv f g rows) = kv f g (update_where (\<lambda>x. f x = k) h rows)"
  using assms
proof (induction rows)
  case (Cons r rows)
  show ?case
  proof (cases "f r = k")
    case True
    with Cons.prems have "k \<notin> f ` set rows" by auto
    then have "update_where (\<lambda>x. f x = k) h rows = rows" unfolding update_where_def by (intro map_idI) auto
    with True Cons.prems show ?thesis by (simp add: kv_def update_where_def)
  qed (use Cons in \<open>simp add: kv_def update_where_def\<close>)
qed simp

lemma map_update_where:
  assumes "\<And>x. x \<in> set rows \<Longrightarrow> P x \<Longrightarrow> f (h x) = f x"
  shows "map f (update_where P h rows) = map f rows"
  using assms by (auto simp: update_where_def)

lemma set_update_where: "y \<in> set (update_where P h rows) \<longleftrightarrow> (\<exists>x\<in>set rows. y = (if P x then h x else x))"
  by (auto simp: update_where_def)

section \<open>What the schema keeps\<close>

text \<open>
  The constraints of the tables: the primary keys, the unique index on the session, the
  reference from an attempt to its student, the two checks, and that an attempt id is
  the text of a \<open>uuid\<close>.
\<close>

definition sessions_unique :: "AttemptRow list \<Rightarrow> bool" where
  "sessions_unique rows \<longleftrightarrow> (\<forall>row\<in>set rows. \<forall>row'\<in>set rows. \<forall>x. a_sessionId (row_attempt row) = Some x \<longrightarrow>
     a_sessionId (row_attempt row') = Some x \<longrightarrow> row_id row = row_id row')"

definition attempts_ok :: "(string \<Rightarrow> string option) \<Rightarrow> string set \<Rightarrow> AttemptRow list \<Rightarrow> bool" where
  "attempts_ok uuid_in studentIds rows \<longleftrightarrow> distinct (map row_id rows) \<and>
     (\<forall>row\<in>set rows. uuid_in (row_id row) = Some (row_id row)) \<and>
     (\<forall>row\<in>set rows. attempt_check (row_attempt row)) \<and>
     (\<forall>row\<in>set rows. a_studentId (row_attempt row) \<in> studentIds) \<and>
     sessions_unique rows"

definition hints_ok :: "(string \<Rightarrow> string option) \<Rightarrow> HintUsage list \<Rightarrow> bool" where
  "hints_ok uuid_in rows \<longleftrightarrow> distinct (map hint_key rows) \<and>
     (\<forall>u\<in>set rows. uuid_in (h_attemptId u) = Some (h_attemptId u) \<and> 1 \<le> hintIndex u)"

definition tables_ok :: "(string \<Rightarrow> string option) \<Rightarrow> ProgressDb \<Rightarrow> bool" where
  "tables_ok uuid_in db \<longleftrightarrow>
     distinct (map st_studentId (t_students db)) \<and> (\<forall>s\<in>set (t_students db). STUDENT_ID_PATTERN (st_studentId s)) \<and>
     attempts_ok uuid_in (st_studentId ` set (t_students db)) (t_attempts db) \<and>
     distinct (map progress_key (t_progress db)) \<and> hints_ok uuid_in (t_hints db)"

definition db_inv :: "(string \<Rightarrow> string option) \<Rightarrow> ProgressDb \<Rightarrow> bool" where
  "db_inv uuid_in db \<longleftrightarrow> tables_ok uuid_in db \<and> repo_inv (mem_of db)"

text \<open>
  What the column type does with a text: it accepts the usual notation in either case,
  and what it keeps is the lower-case notation.
\<close>

definition uuid_type :: "(string \<Rightarrow> string option) \<Rightarrow> bool" where
  "uuid_type uuid_in \<longleftrightarrow> (\<forall>s. isUuid s \<longrightarrow> uuid_in s = Some (toLowerCase s)) \<and>
     (\<forall>s u. uuid_in s = Some u \<longrightarrow> UUID_PATTERN u \<and> uuid_in u = Some u)"

lemma UUID_PATTERN_chars:
  assumes "UUID_PATTERN s" shows "list_all (\<lambda>c. is_hex c \<or> c = CHR ''-'') s"
proof -
  have join: "list_all (\<lambda>c. is_hex c \<or> c = CHR ''-'') (join_with ''-'' ws)" if "list_all (list_all is_hex) ws" for ws
    using that by (induction "''-''" ws rule: join_with.induct) (auto simp: list_all_iff)
  from assms have "list_all (list_all is_hex) (split_on CHR ''-'' s)" by (simp add: UUID_PATTERN_def Let_def)
  from join [OF this] show ?thesis by (simp add: join_with_split_on)
qed

lemma uuid_no_null:
  assumes "uuid_type uuid_in" "uuid_in s = Some u" shows "CHR 0x00 \<notin> set u"
proof -
  have "UUID_PATTERN u" using assms unfolding uuid_type_def by blast
  then have "\<forall>c\<in>set u. is_hex c \<or> c = CHR ''-''" using UUID_PATTERN_chars by (simp add: list_all_iff)
  then have "CHR 0x00 \<in> set u \<Longrightarrow> is_hex CHR 0x00 \<or> CHR 0x00 = CHR ''-''" by (rule bspec)
  moreover have "\<not> (is_hex CHR 0x00 \<or> CHR 0x00 = CHR ''-'')" by (simp add: is_hex_def)
  ultimately show ?thesis by blast
qed

lemma hintKey_inj:
  assumes "CHR 0x00 \<notin> set i" "CHR 0x00 \<notin> set j" "0 \<le> m" "0 \<le> n"
  shows "hintKey i m = hintKey j n \<longleftrightarrow> i = j \<and> m = n"
proof -
  have "hintKey a k = progressKey a (show_int k)" for a k by (simp add: hintKey_def progressKey_def)
  moreover have "show_int m = show_int n \<longleftrightarrow> m = n"
    using assms(3,4) by (auto simp: show_int_def) (metis nat_eq_iff2 read_nat_show_nat)
  ultimately show ?thesis using progressKey_inj [OF assms(1,2)] by simp
qed

lemma tables_okD:
  assumes "tables_ok uuid_in db"
  shows "distinct (map st_studentId (t_students db))"
    and "s \<in> set (t_students db) \<Longrightarrow> STUDENT_ID_PATTERN (st_studentId s)"
    and "distinct (map row_id (t_attempts db))"
    and "row \<in> set (t_attempts db) \<Longrightarrow> uuid_in (row_id row) = Some (row_id row)"
    and "row \<in> set (t_attempts db) \<Longrightarrow> attempt_check (row_attempt row)"
    and "row \<in> set (t_attempts db) \<Longrightarrow> a_studentId (row_attempt row) \<in> st_studentId ` set (t_students db)"
    and "row \<in> set (t_attempts db) \<Longrightarrow> row' \<in> set (t_attempts db) \<Longrightarrow> a_sessionId (row_attempt row) = Some x \<Longrightarrow>
      a_sessionId (row_attempt row') = Some x \<Longrightarrow> row_id row = row_id row'"
    and "distinct (map progress_key (t_progress db))"
    and "distinct (map hint_key (t_hints db))"
    and "u \<in> set (t_hints db) \<Longrightarrow> uuid_in (h_attemptId u) = Some (h_attemptId u)"
    and "u \<in> set (t_hints db) \<Longrightarrow> 1 \<le> hintIndex u"
  using assms unfolding tables_ok_def attempts_ok_def sessions_unique_def hints_ok_def by blast+

lemma attempts_ok_mono: "attempts_ok uuid_in A rows \<Longrightarrow> A \<subseteq> B \<Longrightarrow> attempts_ok uuid_in B rows"
  unfolding attempts_ok_def by blast

lemma sessions_unique_insert:
  assumes "sessions_unique rows" "a_sessionId (row_attempt row) = None"
  shows "sessions_unique (rows @ [row])"
  unfolding sessions_unique_def
proof (intro ballI allI impI)
  fix x y s
  assume xy: "x \<in> set (rows @ [row])" "y \<in> set (rows @ [row])"
    and s: "a_sessionId (row_attempt x) = Some s" "a_sessionId (row_attempt y) = Some s"
  with assms(2) have "x \<in> set rows" "y \<in> set rows" by auto
  with assms(1) s show "row_id x = row_id y" unfolding sessions_unique_def by blast
qed

lemma attempts_ok_insert:
  assumes "attempts_ok uuid_in S rows" "row_id row \<notin> row_id ` set rows" "uuid_in (row_id row) = Some (row_id row)"
    "attempt_check (row_attempt row)" "a_studentId (row_attempt row) \<in> S" "a_sessionId (row_attempt row) = None"
  shows "attempts_ok uuid_in S (rows @ [row])"
  using assms sessions_unique_insert unfolding attempts_ok_def by simp

lemma attempts_ok_map:
  assumes "attempts_ok uuid_in S rows"
    and h: "\<And>row. row_id (h row) = row_id row" "\<And>row. a_studentId (row_attempt (h row)) = a_studentId (row_attempt row)"
      "\<And>row. a_sessionId (row_attempt (h row)) = a_sessionId (row_attempt row)"
      "\<And>row. row \<in> set rows \<Longrightarrow> attempt_check (row_attempt (h row))"
  shows "attempts_ok uuid_in S (map h rows)"
proof -
  have "row_id x = row_id y" if "x \<in> set rows" "y \<in> set rows" "a_sessionId (row_attempt x) = Some s"
    "a_sessionId (row_attempt y) = Some s" for x y s
    using assms(1) that unfolding attempts_ok_def sessions_unique_def by blast
  then have "sessions_unique (map h rows)" unfolding sessions_unique_def set_map ball_simps(9) h(1,3) by blast
  then show ?thesis using assms(1) h unfolding attempts_ok_def by (auto simp: comp_def)
qed

lemma select_attempt_mem: "select_attempt i db = map_of (attempts (mem_of db)) i"
  by (simp add: select_attempt_def map_of_kv)

lemma select_attempt_Some:
  assumes "tables_ok uuid_in db"
  shows "select_attempt i db = Some a \<longleftrightarrow> (\<exists>row\<in>set (t_attempts db). row_id row = i \<and> row_attempt row = a)"
  using find_key [OF tables_okD(3) [OF assms], of i] by (auto simp: select_attempt_def)

lemma update_attempt_None: "select_attempt i db = None \<Longrightarrow> update_attempt i f db = (Inr None, db)"
proof -
  assume n: "select_attempt i db = None"
  then have "i \<notin> row_id ` set (t_attempts db)" by (simp add: select_attempt_def find_key_None)
  then have "update_where (\<lambda>row. row_id row = i) g (t_attempts db) = t_attempts db" for g
    unfolding update_where_def by (intro map_idI) auto
  moreover have "\<not> list_ex (\<lambda>row. row_id row = i \<and> \<not> attempt_check (row_attempt row)) (t_attempts db)"
    using \<open>i \<notin> row_id ` set (t_attempts db)\<close> by (auto simp: list_ex_iff)
  ultimately show ?thesis using n by (simp add: update_attempt_def)
qed

text \<open>One row replaced by another of the same id: the constraints, then the tables and the map.\<close>

lemma set_replace:
  assumes "distinct (map f rows)" "row \<in> set rows" "f row = i"
  shows "set (update_where (\<lambda>x. f x = i) h rows) = insert (h row) {x \<in> set rows. f x \<noteq> i}"
proof -
  have only: "x = row" if "x \<in> set rows" "f x = i" for x
    using find_key [OF assms(1), of i x] find_key [OF assms(1), of i row] that assms(2,3) by simp
  show ?thesis
  proof (intro set_eqI iffI)
    fix x
    assume "x \<in> set (update_where (\<lambda>x. f x = i) h rows)"
    then obtain y where "y \<in> set rows" "x = (if f y = i then h y else y)" unfolding set_update_where by blast
    then show "x \<in> insert (h row) {x \<in> set rows. f x \<noteq> i}" using only [of y] by (cases "f y = i") simp_all
  next
    fix x
    assume "x \<in> insert (h row) {x \<in> set rows. f x \<noteq> i}"
    then show "x \<in> set (update_where (\<lambda>x. f x = i) h rows)"
      unfolding set_update_where using assms(2,3) by (auto intro: bexI [of _ row] bexI [of _ x])
  qed
qed

lemma sessions_unique_replace:
  assumes "sessions_unique rows" "set rows' = insert row' {x \<in> set rows. row_id x \<noteq> i}"
    and sess: "\<And>row x. row \<in> set rows \<Longrightarrow> row_id row \<noteq> i \<Longrightarrow> a_sessionId (row_attempt row') = Some x \<Longrightarrow>
      a_sessionId (row_attempt row) \<noteq> Some x"
  shows "sessions_unique rows'"
  unfolding sessions_unique_def
proof (intro ballI allI impI)
  fix x y s
  assume xy: "x \<in> set rows'" "y \<in> set rows'" "a_sessionId (row_attempt x) = Some s" "a_sessionId (row_attempt y) = Some s"
  then consider "x = row'" "y = row'" | "x = row'" "y \<in> set rows" "row_id y \<noteq> i"
    | "y = row'" "x \<in> set rows" "row_id x \<noteq> i" | "x \<in> set rows" "y \<in> set rows"
    unfolding assms(2) by blast
  then show "row_id x = row_id y"
  proof cases
    case 2
    with sess [of y s] xy(3,4) show ?thesis by simp
  next
    case 3
    with sess [of x s] xy(3,4) show ?thesis by simp
  next
    case 4
    with assms(1) xy(3,4) show ?thesis unfolding sessions_unique_def by blast
  qed simp
qed

lemma attempts_ok_replace:
  assumes ok: "attempts_ok uuid_in S rows" and row: "row \<in> set rows" "row_id row = i" "row_id (h row) = i"
    and new: "attempt_check (row_attempt (h row))" "a_studentId (row_attempt (h row)) = a_studentId (row_attempt row)"
    and sess: "\<And>x s. x \<in> set rows \<Longrightarrow> row_id x \<noteq> i \<Longrightarrow> a_sessionId (row_attempt (h row)) = Some s \<Longrightarrow>
      a_sessionId (row_attempt x) \<noteq> Some s"
    and ids: "map row_id (update_where (\<lambda>x. row_id x = i) h rows) = map row_id rows"
  shows "attempts_ok uuid_in S (update_where (\<lambda>x. row_id x = i) h rows)"
proof -
  have dist: "distinct (map row_id rows)" using ok by (simp add: attempts_ok_def)
  note rows = set_replace [OF dist row(1,2), of h]
  have "sessions_unique (update_where (\<lambda>x. row_id x = i) h rows)"
    by (rule sessions_unique_replace [OF _ rows sess]) (use ok in \<open>simp_all add: attempts_ok_def\<close>)
  moreover have "uuid_in i = Some i" "a_studentId (row_attempt row) \<in> S"
    using ok row(1,2) unfolding attempts_ok_def by blast+
  ultimately show ?thesis
    using ok dist ids row(3) new unfolding attempts_ok_def rows by simp
qed

text \<open>An update of one attempt is the same update of the map, and keeps the constraints.\<close>

lemma update_attempt_Some:
  assumes ok: "tables_ok uuid_in db" and a: "select_attempt i db = Some a"
    and f: "attemptId (f a) = i" "a_studentId (f a) = a_studentId a" "attempt_check (f a)"
    and sess: "\<And>row x. row \<in> set (t_attempts db) \<Longrightarrow> row_id row \<noteq> i \<Longrightarrow>
      a_sessionId (f a) = Some x \<Longrightarrow> a_sessionId (row_attempt row) \<noteq> Some x"
  shows "\<exists>db'. update_attempt i f db = (Inr (Some (f a)), db') \<and> tables_ok uuid_in db' \<and>
    mem_of db' = (mem_of db)\<lparr>attempts := AList.update i (f a) (attempts (mem_of db))\<rparr>"
proof -
  let ?h = "\<lambda>row. row\<lparr>row_attempt := f (row_attempt row)\<rparr>"
  let ?rows = "update_where (\<lambda>row. row_id row = i) ?h (t_attempts db)"
  let ?db = "db\<lparr>t_attempts := ?rows\<rparr>"
  note dist = tables_okD(3) [OF ok]
  obtain row where row: "find (\<lambda>row. row_id row = i) (t_attempts db) = Some row" "row_attempt row = a"
    using a by (auto simp: select_attempt_def)
  then have r: "row \<in> set (t_attempts db)" "row_id row = i" using find_key [OF dist] by auto
  have h: "row_id (?h row) = i" "row_attempt (?h row) = f a" using f(1) row(2) by (simp_all add: row_id_def)
  have same: "row_id (?h x) = row_id x" if "x \<in> set (t_attempts db)" "row_id x = i" for x
    using find_key [OF dist, of i x] that row(1) h r(2) by simp
  then have ids: "map row_id ?rows = map row_id (t_attempts db)" by (rule map_update_where)
  note rows = set_replace [OF dist r, of ?h]
  have "select_attempt i ?db = Some (f a)"
    using find_key [of row_id ?rows i "?h row"] dist ids h row(2) by (simp add: select_attempt_def rows)
  moreover have "\<not> list_ex (\<lambda>x. row_id x = i \<and> \<not> attempt_check (row_attempt x)) ?rows"
    using f(3) row(2) by (auto simp: list_ex_iff rows)
  ultimately have upd: "update_attempt i f db = (Inr (Some (f a)), ?db)" by (simp add: update_attempt_def Let_def)
  have "kv row_id row_attempt ?rows = AList.update i (f a) (kv row_id row_attempt (t_attempts db))"
    using kv_update [OF dist row(1), where g = row_attempt and h = ?h] h row(2) by simp
  moreover have "kv row_id row_seq ?rows = kv row_id row_seq (t_attempts db)"
    using same by (auto simp: kv_def update_where_def)
  ultimately have mem: "mem_of ?db = (mem_of db)\<lparr>attempts := AList.update i (f a) (attempts (mem_of db))\<rparr>"
    by (simp add: mem_of_def)
  have "attempts_ok uuid_in (st_studentId ` set (t_students db)) ?rows"
    by (rule attempts_ok_replace [OF _ r h(1) _ _ _ ids]) (use ok f row(2) sess in \<open>simp_all add: tables_ok_def\<close>)
  then have "tables_ok uuid_in ?db" using ok unfolding tables_ok_def by simp
  with upd mem show ?thesis by blast
qed

section \<open>The two repositories\<close>

text \<open>One operation of the interface on either repository, with its answer.\<close>

datatype reply =
    R_Student Student | R_Attempt LabAttempt | R_Found "LabAttempt option" | R_Check CheckOutcome
  | R_Closed nat | R_Hint HintOutcome

definition as_reply :: "('a \<Rightarrow> reply) \<Rightarrow> ('e + 'a) \<times> 's \<Rightarrow> ('e + reply) \<times> 's" where
  "as_reply c r = (map_sum id c (fst r), snd r)"

definition plain :: "('a \<Rightarrow> reply) \<Rightarrow> 'a \<times> 's \<Rightarrow> (progress_error + reply) \<times> 's" where
  "plain c r = (Inr (c (fst r)), snd r)"

fun mem_run :: "repo_op \<Rightarrow> ProgressRepo \<Rightarrow> (progress_error + reply) \<times> ProgressRepo" where
  "mem_run (Op_Ensure s src name at) r = plain R_Student (repo_ensureStudent s src name at r)"
| "mem_run (Op_Create i s l tr at) r = plain R_Attempt (createAttempt i s l tr at r)"
| "mem_run (Op_Bind i sess at) r = plain R_Found (repo_bindSession i sess at r)"
| "mem_run (Op_Check i passed at) r = as_reply R_Check (repo_recordCheck i passed at r)"
| "mem_run (Op_Reset i at) r = plain R_Found (repo_recordReset i at r)"
| "mem_run (Op_Finish i out reason at) r = plain R_Found (finishAttempt i out reason at r)"
| "mem_run (Op_Expire before reason at live) r = plain R_Closed (expireStaleAttempts before reason at live r)"
| "mem_run (Op_Hint h i idx at) r = as_reply R_Hint (repo_recordHint h i idx at r)"

fun pg_run :: "(string \<Rightarrow> string option) \<Rightarrow> repo_op \<Rightarrow> ProgressDb \<Rightarrow> reply answer" where
  "pg_run uuid_in (Op_Ensure s src name at) db = as_reply R_Student (pg_ensureStudent s src name at db)"
| "pg_run uuid_in (Op_Create i s l tr at) db = as_reply R_Attempt (pg_createAttempt uuid_in i s l tr at db)"
| "pg_run uuid_in (Op_Bind i sess at) db = as_reply R_Found (pg_bindSession uuid_in i sess at db)"
| "pg_run uuid_in (Op_Check i passed at) db = as_reply R_Check (pg_recordCheck uuid_in i passed at db)"
| "pg_run uuid_in (Op_Reset i at) db = as_reply R_Found (pg_recordReset uuid_in i at db)"
| "pg_run uuid_in (Op_Finish i out reason at) db = as_reply R_Found (pg_finishAttempt uuid_in i out reason at db)"
| "pg_run uuid_in (Op_Expire before reason at live) db = as_reply R_Closed (pg_expireStaleAttempts before reason at live db)"
| "pg_run uuid_in (Op_Hint h i idx at) db = as_reply R_Hint (pg_recordHint uuid_in h i idx at db)"

lemma snd_mem_run: "snd (mem_run op r) = apply_op op r"
  by (cases op) (simp_all add: plain_def as_reply_def)

text \<open>The ids of an operation are in the notation the database keeps, as \<open>randomUUID\<close> gives them.\<close>

fun canonical :: "(string \<Rightarrow> string option) \<Rightarrow> repo_op \<Rightarrow> bool" where
  "canonical uuid_in (Op_Create i s l tr at) \<longleftrightarrow> uuid_in i = Some i"
| "canonical uuid_in (Op_Bind i sess at) \<longleftrightarrow> uuid_in i = Some i"
| "canonical uuid_in (Op_Check i passed at) \<longleftrightarrow> uuid_in i = Some i"
| "canonical uuid_in (Op_Reset i at) \<longleftrightarrow> uuid_in i = Some i"
| "canonical uuid_in (Op_Finish i out reason at) \<longleftrightarrow> uuid_in i = Some i"
| "canonical uuid_in (Op_Hint h i idx at) \<longleftrightarrow> uuid_in i = Some i \<and> uuid_in h = Some h"
| "canonical uuid_in _ \<longleftrightarrow> True"

text \<open>What the constraints of the schema refuse and the maps in memory take.\<close>

fun schema_refuses :: "repo_op \<Rightarrow> ProgressDb \<Rightarrow> bool" where
  "schema_refuses (Op_Ensure s src name at) db \<longleftrightarrow> \<not> STUDENT_ID_PATTERN s"
| "schema_refuses (Op_Create i s l tr at) db \<longleftrightarrow>
     select_attempt i db \<noteq> None \<or> \<not> list_ex (\<lambda>st. st_studentId st = s) (t_students db)"
| "schema_refuses (Op_Bind i sess at) db \<longleftrightarrow> select_attempt i db \<noteq> None \<and>
     list_ex (\<lambda>row. row_id row \<noteq> i \<and> a_sessionId (row_attempt row) = Some sess) (t_attempts db)"
| "schema_refuses (Op_Hint h i idx at) db \<longleftrightarrow> select_attempt i db \<noteq> None \<and>
     (idx < 1 \<or> \<not> list_ex (\<lambda>u. h_attemptId u = i \<and> hintIndex u = idx) (t_hints db) \<and>
       list_ex (\<lambda>u. hintUsageId u = h) (t_hints db))"
| "schema_refuses _ db \<longleftrightarrow> False"

text \<open>The answer of the database is that of the memory on the same contents.\<close>

definition refines :: "(string \<Rightarrow> string option) \<Rightarrow> 'a answer \<Rightarrow> (progress_error + 'a) \<times> ProgressRepo \<Rightarrow> bool" where
  "refines uuid_in answer reference \<longleftrightarrow> tables_ok uuid_in (snd answer) \<and>
     reference = (map_sum (\<lambda>e. case e of Progress_Error p \<Rightarrow> p) id (fst answer), mem_of (snd answer)) \<and>
     (\<forall>e. fst answer = Inl e \<longrightarrow> (\<exists>p. e = Progress_Error p))"

lemma refines_as_reply:
  "refines uuid_in answer reference \<Longrightarrow> refines uuid_in (as_reply c answer) (as_reply c reference)"
  by (cases "fst answer") (auto simp: refines_def as_reply_def)

lemma refines_Inr:
  "tables_ok uuid_in db' \<Longrightarrow> r = mem_of db' \<Longrightarrow> refines uuid_in (Inr x, db') (Inr x, r)"
  by (simp add: refines_def)

lemma refines_ensure:
  assumes ok: "tables_ok uuid_in db" and s: "STUDENT_ID_PATTERN s"
  shows "refines uuid_in (as_reply R_Student (pg_ensureStudent s src name at db))
     (plain R_Student (repo_ensureStudent s src name at (mem_of db)))"
proof (cases "find (\<lambda>st. st_studentId st = s) (t_students db)")
  case None
  let ?st = "\<lparr>st_studentId = s, st_displayName = name, st_identitySource = src, st_createdAt = at, st_lastSeenAt = at\<rparr>"
  have "s \<notin> st_studentId ` set (t_students db)" using None by (simp add: find_key_None)
  then have "tables_ok uuid_in (db\<lparr>t_students := t_students db @ [?st]\<rparr>)"
    using ok s unfolding tables_ok_def by (auto elim: attempts_ok_mono)
  with None kv_insert [OF None, of ?st "\<lambda>x. x"] s show ?thesis
    by (simp add: pg_ensureStudent_def repo_ensureStudent_def as_reply_def plain_def map_of_kv Let_def
        refines_Inr mem_of_def)
next
  case (Some st)
  let ?rows = "update_where (\<lambda>x. st_studentId x = s) (st_lastSeenAt_update (\<lambda>_. at)) (t_students db)"
  have ids: "map st_studentId ?rows = map st_studentId (t_students db)" by (rule map_update_where) simp
  then have img: "st_studentId ` set ?rows = st_studentId ` set (t_students db)" by (metis list.set_map)
  have "tables_ok uuid_in (db\<lparr>t_students := ?rows\<rparr>)"
    using ok ids img s unfolding tables_ok_def by (auto simp: set_update_where)
  moreover have "st_studentId st = s" using Some by (auto simp: find_Some_iff)
  ultimately show ?thesis
    using Some s kv_update [OF tables_okD(1) [OF ok] Some, where g = "\<lambda>x. x" and h = "st_lastSeenAt_update (\<lambda>_. at)"]
    by (simp add: pg_ensureStudent_def repo_ensureStudent_def as_reply_def plain_def map_of_kv Let_def
        refines_Inr mem_of_def)
qed

lemma progress_no_null:
  assumes "tables_ok uuid_in db" "repo_inv (mem_of db)" "p \<in> set (t_progress db)"
  shows "CHR 0x00 \<notin> set (p_studentId p)"
proof -
  have "find (\<lambda>q. progress_key q = progress_key p) (t_progress db) = Some p"
    using find_key [OF tables_okD(8) [OF assms(1)]] assms(3) by simp
  then have "map_of (progress (mem_of db)) (progress_key p) = Some p" by (simp add: map_of_kv)
  from repo_invD(4) [OF assms(2) this] show ?thesis by (simp add: row_inv_def)
qed

lemma find_same_lab:
  assumes "CHR 0x00 \<notin> set s" "\<And>p. p \<in> set rows \<Longrightarrow> CHR 0x00 \<notin> set (p_studentId p)"
  shows "find (same_lab s l) rows = find (\<lambda>p. progress_key p = progressKey s l) rows"
    and "update_where (same_lab s l) g rows = update_where (\<lambda>p. progress_key p = progressKey s l) g rows"
proof -
  have "same_lab s l p \<longleftrightarrow> progress_key p = progressKey s l" if "p \<in> set rows" for p
    using progressKey_inj [OF assms(2) [OF that] assms(1)] by (simp add: same_lab_def progress_key_def)
  then show "find (same_lab s l) rows = find (\<lambda>p. progress_key p = progressKey s l) rows"
    "update_where (same_lab s l) g rows = update_where (\<lambda>p. progress_key p = progressKey s l) g rows"
    by (auto simp: update_where_def intro: find_cong)
qed

text \<open>An upsert is an update of the map.\<close>

lemma upsert_progress_mem:
  assumes ok: "tables_ok uuid_in db" and null: "\<And>p. p \<in> set (t_progress db) \<Longrightarrow> CHR 0x00 \<notin> set (p_studentId p)"
    and row: "CHR 0x00 \<notin> set (p_studentId row)" "k = progress_key row"
    and g: "\<And>p. progress_key (g p) = progress_key p"
    and v: "v = (case map_of (progress (mem_of db)) k of None \<Rightarrow> row | Some p \<Rightarrow> g p)"
  shows "\<exists>db'. upsert_progress row g db = (v, db') \<and> tables_ok uuid_in db' \<and>
    mem_of db' = (mem_of db)\<lparr>progress := AList.update k v (progress (mem_of db))\<rparr>"
proof (cases "find (\<lambda>p. progress_key p = k) (t_progress db)")
  case None
  have "tables_ok uuid_in (db\<lparr>t_progress := t_progress db @ [row]\<rparr>)"
    using ok None row(2) unfolding tables_ok_def by (auto simp: find_key_None)
  moreover have "upsert_progress row g db = (v, db\<lparr>t_progress := t_progress db @ [row]\<rparr>)"
    using None find_same_lab(1) [OF row(1) null, where l = "p_labId row"] row(2)
    by (simp add: upsert_progress_def Let_def v map_of_kv progress_key_def [symmetric])
  ultimately show ?thesis
    using None kv_insert [OF None, of row "\<lambda>p. p"] row(2) by (simp add: v map_of_kv mem_of_def)
next
  case (Some p)
  let ?rows = "update_where (\<lambda>q. progress_key q = k) g (t_progress db)"
  have ids: "map progress_key ?rows = map progress_key (t_progress db)" by (rule map_update_where) (rule g)
  then have "tables_ok uuid_in (db\<lparr>t_progress := ?rows\<rparr>)" using ok unfolding tables_ok_def by simp
  moreover have "upsert_progress row g db = (v, db\<lparr>t_progress := ?rows\<rparr>)"
    using Some find_same_lab [OF row(1) null, where l = "p_labId row"] row(2)
    by (simp add: upsert_progress_def Let_def v map_of_kv progress_key_def [symmetric])
  moreover have "progress_key (g p) = k" using Some g by (auto simp: find_Some_iff)
  ultimately show ?thesis
    using Some kv_update [OF tables_okD(8) [OF ok] Some, where g = "\<lambda>p. p" and h = g]
    by (simp add: v map_of_kv mem_of_def)
qed

lemma progress_key_updates [simp]:
  "progress_key (p\<lparr>p_status := st\<rparr>) = progress_key p"
  "progress_key (p\<lparr>attemptCount := n\<rparr>) = progress_key p"
  "progress_key (p\<lparr>completionCount := n\<rparr>) = progress_key p"
  "progress_key (p\<lparr>firstCompletedAt := t\<rparr>) = progress_key p"
  "progress_key (p\<lparr>lastCompletedAt := t\<rparr>) = progress_key p"
  "progress_key (p\<lparr>lastAttemptId := i\<rparr>) = progress_key p"
  "progress_key (p\<lparr>p_updatedAt := u\<rparr>) = progress_key p"
  by (simp_all add: progress_key_def)

lemma refines_create:
  assumes inv: "db_inv uuid_in db" and i: "uuid_in i = Some i" and ok: "\<not> schema_refuses (Op_Create i s l tr at) db"
  shows "refines uuid_in (as_reply R_Attempt (pg_createAttempt uuid_in i s l tr at db))
     (plain R_Attempt (createAttempt i s l tr at (mem_of db)))"
proof -
  define a where "a = fst (createAttempt i s l tr at (mem_of db))"
  let ?row = "\<lparr>row_seq = next_seq db, row_attempt = a\<rparr>"
  let ?db = "db\<lparr>t_attempts := t_attempts db @ [?row], next_seq := next_seq db + 1\<rparr>"
  from inv have t: "tables_ok uuid_in db" and r: "repo_inv (mem_of db)" by (simp_all add: db_inv_def)
  have fresh: "find (\<lambda>row. row_id row = i) (t_attempts db) = None" using ok by (simp add: select_attempt_def)
  have known: "s \<in> st_studentId ` set (t_students db)" using ok by (auto simp: list_ex_iff)
  then have null: "CHR 0x00 \<notin> set s" using tables_okD(2) [OF t] STUDENT_ID_PATTERN_null by auto
  have a_cols: "attemptId a = i" "a_studentId a = s" "a_labId a = l" "a_sessionId a = None" "attempt_check a" "a_startedAt a = at"
    by (simp_all add: a_def createAttempt_def Let_def attempt_check_def)
  have "attempts_ok uuid_in (st_studentId ` set (t_students db)) (t_attempts db @ [?row])"
  proof (rule attempts_ok_insert)
    show "attempts_ok uuid_in (st_studentId ` set (t_students db)) (t_attempts db)" using t by (simp add: tables_ok_def)
    show "row_id ?row \<notin> row_id ` set (t_attempts db)" using fresh a_cols(1) by (simp add: find_key_None row_id_def)
  qed (use a_cols i known in \<open>simp_all add: row_id_def\<close>)
  then have t1: "tables_ok uuid_in ?db" using t by (simp add: tables_ok_def)
  have m1: "mem_of ?db = (mem_of db)\<lparr>attempts := AList.update i a (attempts (mem_of db)),
      sequence := AList.update i (next_seq db) (sequence (mem_of db)), nextSequence := next_seq db + 1\<rparr>"
    using kv_insert [OF fresh, of ?row row_attempt] kv_insert [OF fresh, of ?row row_seq] a_cols(1) row_id_def [of ?row]
    by (simp add: mem_of_def)
  define g where "g = (\<lambda>p :: LabProgress. p\<lparr>p_status := (if p_status p = P_COMPLETED then P_COMPLETED else P_IN_PROGRESS),
    attemptCount := attemptCount p + 1, lastAttemptId := Some i, p_updatedAt := at\<rparr>)"
  define v where "v = (case map_of (progress (mem_of ?db)) (progressKey s l) of None \<Rightarrow> started_row s l tr i at | Some p \<Rightarrow> g p)"
  obtain db' where up: "upsert_progress (started_row s l tr i at) g ?db = (v, db')" and t2: "tables_ok uuid_in db'"
    and m2: "mem_of db' = (mem_of ?db)\<lparr>progress := AList.update (progressKey s l) v (progress (mem_of ?db))\<rparr>"
    using upsert_progress_mem [OF t1 _ _ _ _ v_def] null progress_no_null [OF t r]
    by (auto simp: started_row_def progress_key_def g_def)
  have "pg_createAttempt uuid_in i s l tr at db = (Inr a, db')"
    using ok i up unfolding g_def
    by (simp add: pg_createAttempt_def with_uuid_def pg_touchProgressOnStart_def a_def createAttempt_def Let_def)
  moreover have "snd (createAttempt i s l tr at (mem_of db)) = mem_of db'"
    unfolding m2 m1 v_def
    by (auto simp: createAttempt_def touchProgressOnStart_def attempt_key_def first_progress_def started_row_def a_def g_def
        Let_def split: option.splits)
  ultimately show ?thesis using t2 by (simp add: as_reply_def plain_def refines_Inr a_def)
qed

lemma refines_update:
  assumes ok: "tables_ok uuid_in db"
    and f: "\<And>a. attemptId (f a) = attemptId a" "\<And>a. a_studentId (f a) = a_studentId a" "\<And>a. attempt_check a \<Longrightarrow> attempt_check (f a)"
    and sess: "\<And>a row x. select_attempt i db = Some a \<Longrightarrow> row \<in> set (t_attempts db) \<Longrightarrow> row_id row \<noteq> i \<Longrightarrow>
      a_sessionId (f a) = Some x \<Longrightarrow> a_sessionId (row_attempt row) \<noteq> Some x"
  shows "refines uuid_in (as_reply R_Found (update_attempt i f db))
     (plain R_Found (case map_of (attempts (mem_of db)) i of
        None \<Rightarrow> (None, mem_of db)
      | Some a \<Rightarrow> (Some (f a), (mem_of db)\<lparr>attempts := AList.update i (f a) (attempts (mem_of db))\<rparr>)))"
proof (cases "select_attempt i db")
  case None
  with ok show ?thesis
    by (simp add: update_attempt_None as_reply_def plain_def refines_Inr select_attempt_mem)
next
  case (Some a)
  then obtain row where row: "row \<in> set (t_attempts db)" "row_id row = i" "row_attempt row = a"
    using select_attempt_Some [OF ok] by auto
  have "attempt_check (f a)" "attemptId (f a) = i" using f(1,3) tables_okD(5) [OF ok row(1)] row(2,3) by (auto simp: row_id_def)
  from update_attempt_Some [where f = f, OF ok Some this(2) f(2) this(1) sess [OF Some]]
  obtain db' where "update_attempt i f db = (Inr (Some (f a)), db')" "tables_ok uuid_in db'"
    "mem_of db' = (mem_of db)\<lparr>attempts := AList.update i (f a) (attempts (mem_of db))\<rparr>" by blast
  with Some show ?thesis by (simp add: as_reply_def plain_def refines_Inr select_attempt_mem)
qed

lemma session_elsewhere:
  assumes "tables_ok uuid_in db" "select_attempt i db = Some a" "row \<in> set (t_attempts db)" "row_id row \<noteq> i"
    "a_sessionId a = Some x"
  shows "a_sessionId (row_attempt row) \<noteq> Some x"
proof
  assume s: "a_sessionId (row_attempt row) = Some x"
  obtain row' where r: "row' \<in> set (t_attempts db)" "row_id row' = i" "row_attempt row' = a"
    using assms(2) select_attempt_Some [OF assms(1)] by auto
  then have "row_id row = row_id row'" using tables_okD(7) [OF assms(1,3) r(1) s] assms(5) by simp
  with r assms(4) show False by simp
qed

lemma refines_bind:
  assumes ok: "tables_ok uuid_in db" and i: "uuid_in i = Some i" and new: "\<not> schema_refuses (Op_Bind i sess at) db"
  shows "refines uuid_in (as_reply R_Found (pg_bindSession uuid_in i sess at db))
     (plain R_Found (repo_bindSession i sess at (mem_of db)))"
proof -
  have "refines uuid_in (as_reply R_Found (update_attempt i (\<lambda>a. a\<lparr>a_sessionId := Some sess, a_updatedAt := at\<rparr>) db))
     (plain R_Found (case map_of (attempts (mem_of db)) i of
        None \<Rightarrow> (None, mem_of db)
      | Some a \<Rightarrow> (Some (a\<lparr>a_sessionId := Some sess, a_updatedAt := at\<rparr>),
          (mem_of db)\<lparr>attempts := AList.update i (a\<lparr>a_sessionId := Some sess, a_updatedAt := at\<rparr>) (attempts (mem_of db))\<rparr>)))"
    by (rule refines_update [OF ok]) (use new in \<open>auto simp: attempt_check_def list_ex_iff\<close>)
  with new i show ?thesis by (auto simp: pg_bindSession_def with_uuid_def repo_bindSession_def Let_def cong: option.case_cong)
qed

lemma refines_reset:
  assumes ok: "tables_ok uuid_in db" and i: "uuid_in i = Some i"
  shows "refines uuid_in (as_reply R_Found (pg_recordReset uuid_in i at db))
     (plain R_Found (repo_recordReset i at (mem_of db)))"
proof -
  have "refines uuid_in (as_reply R_Found (update_attempt i (\<lambda>a. a\<lparr>resetCount := resetCount a + 1, a_updatedAt := at\<rparr>) db))
     (plain R_Found (case map_of (attempts (mem_of db)) i of
        None \<Rightarrow> (None, mem_of db)
      | Some a \<Rightarrow> (Some (a\<lparr>resetCount := resetCount a + 1, a_updatedAt := at\<rparr>),
          (mem_of db)\<lparr>attempts := AList.update i (a\<lparr>resetCount := resetCount a + 1, a_updatedAt := at\<rparr>) (attempts (mem_of db))\<rparr>)))"
    by (rule refines_update [OF ok]) (use session_elsewhere [OF ok] in \<open>auto simp: attempt_check_def\<close>)
  with i show ?thesis by (simp add: pg_recordReset_def with_uuid_def repo_recordReset_def Let_def cong: option.case_cong)
qed

lemma refines_finish:
  assumes ok: "tables_ok uuid_in db" and i: "uuid_in i = Some i"
  shows "refines uuid_in (as_reply R_Found (pg_finishAttempt uuid_in i out reason at db))
     (plain R_Found (finishAttempt i out reason at (mem_of db)))"
proof -
  have "refines uuid_in (as_reply R_Found (update_attempt i (finished out reason at) db))
     (plain R_Found (case map_of (attempts (mem_of db)) i of
        None \<Rightarrow> (None, mem_of db)
      | Some a \<Rightarrow> (Some (finished out reason at a),
          (mem_of db)\<lparr>attempts := AList.update i (finished out reason at a) (attempts (mem_of db))\<rparr>)))"
  proof (rule refines_update [OF ok])
    show "attempt_check (finished out reason at a)" if "attempt_check a" for a
      using that by (simp add: attempt_check_def finished_facts)
  qed (use session_elsewhere [OF ok] in \<open>simp_all add: finished_def Let_def\<close>)
  moreover have "pg_finishAttempt uuid_in i out reason at db = update_attempt i (finished out reason at) db"
    using i by (simp add: pg_finishAttempt_def with_uuid_def finished_def [abs_def] Let_def)
  ultimately show ?thesis by (simp add: finishAttempt_def Let_def cong: option.case_cong)
qed

lemma refines_expire:
  assumes "db_inv uuid_in db"
  shows "refines uuid_in (as_reply R_Closed (pg_expireStaleAttempts before reason at live db))
     (plain R_Closed (expireStaleAttempts before reason at live (mem_of db)))"
proof -
  let ?due = "\<lambda>row. stale before live (row_attempt row)"
  let ?close = "\<lambda>row. row\<lparr>row_attempt := expired reason at (row_attempt row)\<rparr>"
  let ?rows = "update_where ?due ?close (t_attempts db)"
  from assms have ok: "tables_ok uuid_in db" and r: "repo_inv (mem_of db)" by (simp_all add: db_inv_def)
  have chk: "attempt_check (row_attempt (?close row))" if "row \<in> set (t_attempts db)" "?due row" for row
    using tables_okD(5) [OF ok that(1)] that(2) by (auto simp: attempt_check_def stale_def expired_def)
  have pg: "pg_expireStaleAttempts before reason at live db =
      (Inr (length (filter ?due (t_attempts db))), db\<lparr>t_attempts := ?rows\<rparr>)"
    using chk by (auto simp: pg_expireStaleAttempts_def Let_def stale_def expired_def list_ex_iff
        cong: option.case_cong)
  have "attempts_ok uuid_in (st_studentId ` set (t_students db)) ?rows"
    unfolding update_where_def
    by (rule attempts_ok_map)
      (use ok chk tables_okD(5) [OF ok] in \<open>auto simp: tables_ok_def row_id_def expired_def\<close>)
  then have "tables_ok uuid_in (db\<lparr>t_attempts := ?rows\<rparr>)" using ok by (simp add: tables_ok_def)
  moreover have "expireStaleAttempts before reason at live (mem_of db) =
      (length (filter ?due (t_attempts db)), mem_of (db\<lparr>t_attempts := ?rows\<rparr>))"
    unfolding expire_eq [OF r]
    by (auto simp: mem_of_def kv_def update_where_def row_id_def expired_facts filter_map comp_def)
  ultimately show ?thesis unfolding pg by (simp add: as_reply_def plain_def refines_Inr)
qed

lemma find_hint:
  assumes ty: "uuid_type uuid_in" and ok: "tables_ok uuid_in db" and i: "uuid_in i = Some i" "1 \<le> idx"
  shows "find (\<lambda>u. h_attemptId u = i \<and> hintIndex u = idx) (t_hints db) = map_of (hints (mem_of db)) (hintKey i idx)"
proof -
  have "hint_key u = hintKey i idx \<longleftrightarrow> h_attemptId u = i \<and> hintIndex u = idx" if "u \<in> set (t_hints db)" for u
  proof -
    have "0 \<le> hintIndex u" using tables_okD(11) [OF ok that] by simp
    then show ?thesis unfolding hint_key_def
      using hintKey_inj [OF uuid_no_null [OF ty tables_okD(10) [OF ok that]] uuid_no_null [OF ty i(1)]] i(2) by simp
  qed
  then have "find (\<lambda>u. hint_key u = hintKey i idx) (t_hints db) = find (\<lambda>u. h_attemptId u = i \<and> hintIndex u = idx) (t_hints db)"
    by (intro find_cong) auto
  then show ?thesis by (simp add: map_of_kv option.map_ident)
qed

lemma refines_hint:
  assumes ty: "uuid_type uuid_in" and ok: "tables_ok uuid_in db" and i: "uuid_in i = Some i" "uuid_in h = Some h"
    and new: "\<not> schema_refuses (Op_Hint h i idx at) db"
  shows "refines uuid_in (as_reply R_Hint (pg_recordHint uuid_in h i idx at db))
     (as_reply R_Hint (repo_recordHint h i idx at (mem_of db)))"
proof (cases "select_attempt i db")
  case None
  with ok i show ?thesis
    by (simp add: pg_recordHint_def with_uuid_def repo_recordHint_def select_attempt_mem as_reply_def refines_def)
next
  case (Some a)
  then have aid: "attemptId a = i" using select_attempt_Some [OF ok] by (auto simp: row_id_def)
  from new Some have idx: "1 \<le> idx" by auto
  note found = find_hint [OF ty ok i(1) idx]
  let ?u = "\<lparr>hintUsageId = h, h_studentId = a_studentId a, h_attemptId = i, h_labId = a_labId a,
    hintIndex = idx, revealedAt = at\<rparr>"
  show ?thesis
  proof (cases "find (\<lambda>u. h_attemptId u = i \<and> hintIndex u = idx) (t_hints db)")
    case (Some u)
    from Some [unfolded found] have "repo_recordHint h i idx at (mem_of db) =
        (Inr \<lparr>ho_usage = u, recorded = False, revealedCount = countHints i (mem_of db)\<rparr>, mem_of db)"
      using \<open>select_attempt i db = Some a\<close> by (simp add: repo_recordHint_def select_attempt_mem)
    with \<open>select_attempt i db = Some a\<close> Some ok i idx show ?thesis
      by (simp add: pg_recordHint_def with_uuid_def as_reply_def countHints_def refines_Inr)
  next
    case None
    have key: "find (\<lambda>u. hint_key u = hintKey i idx) (t_hints db) = None"
      using None unfolding found by (simp add: map_of_kv)
    then have "hints_ok uuid_in (t_hints db @ [?u])"
      using ok i(1) idx by (auto simp: tables_ok_def hints_ok_def find_key_None hint_key_def)
    then have ok': "tables_ok uuid_in (db\<lparr>t_hints := t_hints db @ [?u]\<rparr>)" using ok by (simp add: tables_ok_def)
    have mem: "mem_of (db\<lparr>t_hints := t_hints db @ [?u]\<rparr>) =
        (mem_of db)\<lparr>hints := AList.update (hintKey i idx) ?u (hints (mem_of db))\<rparr>"
      using kv_insert [OF key, of ?u "\<lambda>u. u"] hint_key_def [of ?u] by (simp add: mem_of_def)
    have fresh: "\<not> list_ex (\<lambda>u. hintUsageId u = h) (t_hints db)"
      using new None \<open>select_attempt i db = Some a\<close> idx by (auto simp: list_ex_iff find_None_iff)
    have "pg_recordHint uuid_in h i idx at db =
        (Inr \<lparr>ho_usage = ?u, recorded = True, revealedCount = Suc (countHints i (mem_of db))\<rparr>,
         db\<lparr>t_hints := t_hints db @ [?u]\<rparr>)"
      using \<open>select_attempt i db = Some a\<close> i idx None fresh
      by (simp add: pg_recordHint_def with_uuid_def Let_def countHints_def)
    moreover have "repo_recordHint h i idx at (mem_of db) =
        (Inr \<lparr>ho_usage = ?u, recorded = True, revealedCount = Suc (countHints i (mem_of db))\<rparr>,
         mem_of (db\<lparr>t_hints := t_hints db @ [?u]\<rparr>))"
    proof -
      have "countHints i (mem_of (db\<lparr>t_hints := t_hints db @ [?u]\<rparr>)) = Suc (countHints i (mem_of db))"
        by (simp add: countHints_def)
      with \<open>select_attempt i db = Some a\<close> None [unfolded found] aid show ?thesis
        unfolding mem by (simp add: repo_recordHint_def select_attempt_mem Let_def)
    qed
    ultimately show ?thesis using ok' by (simp add: as_reply_def refines_Inr)
  qed
qed

text \<open>The progress row of a check: present, so the fallback inserts of the source are not reached.\<close>

lemma check_progress_mem:
  assumes ok: "tables_ok uuid_in db" and null: "\<And>p. p \<in> set (t_progress db) \<Longrightarrow> CHR 0x00 \<notin> set (p_studentId p)"
    and a: "CHR 0x00 \<notin> set (a_studentId a)" and p: "map_of (progress (mem_of db)) (attempt_key a) = Some p"
  shows "\<exists>db'. pg_markCompleted a at db = (fst (markCompleted a at (mem_of db)), db') \<and> tables_ok uuid_in db' \<and>
      mem_of db' = snd (markCompleted a at (mem_of db))"
    and "pg_readProgress a db = (p, db)"
proof -
  let ?row = "(started_row (a_studentId a) (a_labId a) (a_track a) (attemptId a) at)
    \<lparr>p_status := P_COMPLETED, completionCount := 1, firstCompletedAt := Some at, lastCompletedAt := Some at\<rparr>"
  let ?g = "\<lambda>p. p\<lparr>p_status := P_COMPLETED, completionCount := completionCount p + 1,
    firstCompletedAt := (case firstCompletedAt p of None \<Rightarrow> Some at | t \<Rightarrow> t), lastCompletedAt := Some at, p_updatedAt := at\<rparr>"
  have key: "attempt_key a = progress_key ?row" by (simp add: attempt_key_def progress_key_def started_row_def)
  have v: "?g p = (case map_of (progress (mem_of db)) (attempt_key a) of None \<Rightarrow> ?row | Some q \<Rightarrow> ?g q)" using p by simp
  have "\<exists>db'. upsert_progress ?row ?g db = (?g p, db') \<and> tables_ok uuid_in db' \<and>
      mem_of db' = (mem_of db)\<lparr>progress := AList.update (attempt_key a) (?g p) (progress (mem_of db))\<rparr>"
    by (rule upsert_progress_mem [OF ok null _ key _ v]) (use a in \<open>simp_all add: started_row_def\<close>)
  moreover have "markCompleted a at (mem_of db) =
      (?g p, (mem_of db)\<lparr>progress := AList.update (attempt_key a) (?g p) (progress (mem_of db))\<rparr>)"
    unfolding markCompleted_def by (simp add: progressFor_present [OF p] Let_def)
  ultimately show "\<exists>db'. pg_markCompleted a at db = (fst (markCompleted a at (mem_of db)), db') \<and> tables_ok uuid_in db' \<and>
      mem_of db' = snd (markCompleted a at (mem_of db))"
    by (simp add: pg_markCompleted_def)
  have "find (same_lab (a_studentId a) (a_labId a)) (t_progress db) = Some p"
    using p find_same_lab(1) [OF a null, where l = "a_labId a"] by (simp add: map_of_kv attempt_key_def option.map_ident)
  then show "pg_readProgress a db = (p, db)" by (simp add: pg_readProgress_def)
qed

lemma refines_check:
  assumes inv: "db_inv uuid_in db" and i: "uuid_in i = Some i"
  shows "refines uuid_in (as_reply R_Check (pg_recordCheck uuid_in i passed at db))
     (as_reply R_Check (repo_recordCheck i passed at (mem_of db)))"
proof (cases "select_attempt i db")
  case None
  with inv i show ?thesis
    by (simp add: pg_recordCheck_def with_uuid_def repo_recordCheck_def select_attempt_mem as_reply_def refines_def db_inv_def)
next
  case (Some a)
  let ?b = "checked passed at a"
  from inv have ok: "tables_ok uuid_in db" and r: "repo_inv (mem_of db)" by (simp_all add: db_inv_def)
  have map_a: "map_of (attempts (mem_of db)) i = Some a" using Some by (simp add: select_attempt_mem)
  have ai: "attempt_inv i a" using repo_invD(2) [OF r map_a] .
  obtain p where p: "map_of (progress (mem_of db)) (attempt_key a) = Some p" using repo_invD(3) [OF r map_a] by blast
  have b: "attemptId ?b = i" "a_studentId ?b = a_studentId a" "attempt_key ?b = attempt_key a" "a_sessionId ?b = a_sessionId a"
    "attempt_check ?b"
    using ai by (auto simp: checked_def attempt_inv_def attempt_key_def attempt_check_def is_completed_def Let_def)
  let ?f = "\<lambda>a. a\<lparr>checkCount := checkCount a + 1, a_updatedAt := at, a_status := (if passed then A_PASSED else a_status a),
    a_completedAt := (if passed then (case a_completedAt a of None \<Rightarrow> Some at | t \<Rightarrow> t) else a_completedAt a)\<rparr>"
  have f: "?f a = ?b" by (simp add: checked_def Let_def)
  obtain db1 where u: "update_attempt i ?f db = (Inr (Some ?b), db1)" and ok1: "tables_ok uuid_in db1"
    and m1: "mem_of db1 = put_attempt ?b (mem_of db)"
    using update_attempt_Some [where f = ?f, OF ok Some] session_elsewhere [OF ok Some] b
    unfolding f put_attempt_def b(1,4) by blast
  have null1: "CHR 0x00 \<notin> set (p_studentId q)" if "q \<in> set (t_progress db1)" for q
  proof -
    have "progress (mem_of db1) = progress (mem_of db)" unfolding m1 by simp
    then have "map snd (progress (mem_of db1)) = map snd (progress (mem_of db))" by simp
    then have "t_progress db1 = t_progress db" by simp
    with that progress_no_null [OF ok r] show ?thesis by simp
  qed
  have p1: "map_of (progress (mem_of db1)) (attempt_key ?b) = Some p" unfolding m1 b(3) using p by simp
  have s1: "CHR 0x00 \<notin> set (a_studentId ?b)" using ai b(2) by (simp add: attempt_inv_def)
  note prog = check_progress_mem [OF ok1 null1 s1 p1]
  obtain db2 where mark: "pg_markCompleted ?b at db1 = (fst (markCompleted ?b at (mem_of db1)), db2)"
    "tables_ok uuid_in db2" "mem_of db2 = snd (markCompleted ?b at (mem_of db1))"
    using prog(1) by blast
  have mem: "repo_recordCheck i passed at (mem_of db) =
     (let (prog, r2) = (if passed \<and> a_completedAt a = None then markCompleted ?b at (mem_of db1) else (p, mem_of db1))
      in (Inr \<lparr>co_attempt = ?b, co_passed = passed, newlyCompleted = (passed \<and> a_completedAt a = None), co_progress = prog\<rparr>, r2))"
    unfolding m1 using map_a progressFor_present [OF p1 [unfolded m1]] by (simp add: repo_recordCheck_def Let_def)
  have "pg_recordCheck uuid_in i passed at db =
     (let (prog, db') = (if passed \<and> a_completedAt a = None then pg_markCompleted ?b at db1 else (p, db1))
      in (Inr \<lparr>co_attempt = ?b, co_passed = passed, newlyCompleted = (passed \<and> a_completedAt a = None), co_progress = prog\<rparr>, db'))"
    using i Some u prog(2) by (simp add: pg_recordCheck_def with_uuid_def Let_def)
  with mem mark ok1 show ?thesis
    by (cases "passed \<and> a_completedAt a = None")
      (simp_all add: as_reply_def refines_Inr case_prod_beta)
qed

lemma pg_run_refines:
  assumes "uuid_type uuid_in" "db_inv uuid_in db" "canonical uuid_in op" "\<not> schema_refuses op db"
  shows "refines uuid_in (pg_run uuid_in op db) (mem_run op (mem_of db))"
  using assms by (cases op)
    (auto simp: db_inv_def intro: refines_ensure refines_create refines_bind refines_check refines_reset refines_finish
      refines_expire refines_hint)

lemma same_seq [simp]: "\<exists>n. db = db\<lparr>next_seq := n\<rparr>" for db :: ProgressDb
  by (rule exI [of _ "next_seq db"]) simp

lemma pg_run_refused:
  assumes "canonical uuid_in op" "schema_refuses op db"
  shows "\<exists>e n. pg_run uuid_in op db = (Inl e, db\<lparr>next_seq := n\<rparr>) \<and>
    e \<in> {Unique_Violation, Foreign_Key_Violation, Check_Violation}"
proof (cases op)
  case (Op_Create i s l tr at)
  with assms show ?thesis
    by (cases "select_attempt i db") (auto simp: pg_createAttempt_def with_uuid_def as_reply_def Let_def)
next
  case (Op_Hint h i idx at)
  have none: "\<not> list_ex P xs \<Longrightarrow> find P xs = None" for P and xs :: "HintUsage list"
    by (auto simp: find_None_iff list_ex_iff)
  from Op_Hint assms show ?thesis
    by (auto simp: pg_recordHint_def with_uuid_def as_reply_def none Let_def)
next
  case (Op_Ensure s src name at)
  with assms show ?thesis by (auto simp: pg_ensureStudent_def as_reply_def)
next
  case (Op_Bind i sess at)
  with assms show ?thesis
    by (auto simp: pg_bindSession_def with_uuid_def as_reply_def)
qed (use assms in auto)

text \<open>Everything an operation keeps, refused or not.\<close>

lemma refines_state: "refines uuid_in answer reference \<Longrightarrow> mem_of (snd answer) = snd reference \<and> tables_ok uuid_in (snd answer)"
  by (auto simp: refines_def)

lemma not_refused_op_ok:
  assumes "uuid_type uuid_in" "tables_ok uuid_in db" "canonical uuid_in op" "\<not> schema_refuses op db"
  shows "op_ok op (mem_of db)"
proof (cases op)
  case (Op_Create i s l tr at)
  with assms have i: "uuid_in i = Some i" and new: "map_of (attempts (mem_of db)) i = None"
    and s: "\<exists>st\<in>set (t_students db). st_studentId st = s"
    by (auto simp: select_attempt_mem list_ex_iff)
  then have "STUDENT_ID_PATTERN s" using tables_okD(2) [OF assms(2)] by auto
  with Op_Create new uuid_no_null [OF assms(1) i] show ?thesis by (simp add: op_ok_def)
qed (simp_all add: op_ok_def)

lemma pg_run_keeps:
  assumes "uuid_type uuid_in" "db_inv uuid_in db" "canonical uuid_in op"
  shows "db_inv uuid_in (snd (pg_run uuid_in op db)) \<and> keeps_history (mem_of db) (mem_of (snd (pg_run uuid_in op db)))"
proof (cases "schema_refuses op db")
  case True
  from pg_run_refused [OF assms(3) this] obtain n where "snd (pg_run uuid_in op db) = db\<lparr>next_seq := n\<rparr>" by auto
  with assms(2) show ?thesis
    by (auto simp: db_inv_def tables_ok_def intro!: keeps_history_same elim: repo_inv_cong)
next
  case False
  from assms(2) have ok: "tables_ok uuid_in db" and inv: "repo_inv (mem_of db)" by (simp_all add: db_inv_def)
  note st = refines_state [OF pg_run_refines [OF assms False], unfolded snd_mem_run]
  note op = not_refused_op_ok [OF assms(1) ok assms(3) False]
  show ?thesis
    using st repo_inv_step [OF inv op] keeps_history_step [OF inv op] by (simp add: db_inv_def)
qed

inductive pg_reachable :: "(string \<Rightarrow> string option) \<Rightarrow> ProgressDb \<Rightarrow> bool" for uuid_in where
  empty: "pg_reachable uuid_in empty_db"
| run: "pg_reachable uuid_in db \<Longrightarrow> canonical uuid_in op \<Longrightarrow> pg_reachable uuid_in (snd (pg_run uuid_in op db))"

lemma pg_reachable_inv: "pg_reachable uuid_in db \<Longrightarrow> uuid_type uuid_in \<Longrightarrow> db_inv uuid_in db"
proof (induction rule: pg_reachable.induct)
  case empty
  show ?case
    by (simp add: db_inv_def tables_ok_def attempts_ok_def sessions_unique_def hints_ok_def repo_inv_def mem_of_def kv_def empty_db_def)
qed (use pg_run_keeps in blast)

text \<open>The contract of a progress repository holds of the database too.\<close>

definition pg_step :: "(string \<Rightarrow> string option) \<Rightarrow> ProgressDb \<Rightarrow> ProgressDb \<Rightarrow> bool" where
  "pg_step uuid_in db db' \<longleftrightarrow> (\<exists>op. canonical uuid_in op \<and> db' = snd (pg_run uuid_in op db))"

interpretation pg_history: learning_history mem_of "\<lambda>db. uuid_type uuid_in \<and> db_inv uuid_in db" "pg_step uuid_in" for uuid_in
  by unfold_locales (auto simp: pg_step_def db_inv_def dest: pg_run_keeps [unfolded db_inv_def])

lemma postgres_passed_is_permanent:
  assumes "uuid_type uuid_in" "pg_reachable uuid_in db" "(pg_step uuid_in)\<^sup>*\<^sup>* db db'"
    and "select_attempt i db = Some a" "a_status a = A_PASSED"
  shows "\<exists>b. select_attempt i db' = Some b \<and> a_status b = A_PASSED \<and> a_completedAt b = a_completedAt a \<and>
    a_studentId b = a_studentId a \<and> a_labId b = a_labId a"
  using pg_history.passed_kept [OF assms(3) _ _ assms(5), of i] pg_reachable_inv [OF assms(2,1)] assms(1,4)
  unfolding select_attempt_mem by blast

text \<open>
  C16. The PostgreSQL repository is the in-memory one on the same contents. In every state
  its operations can reach, an operation that no constraint of the schema forbids gives
  exactly the answer (a value, or the error of an unknown attempt) and the state of the
  in-memory operation; no query fails in any other way. An operation a constraint
  forbids fails with that violation and leaves every table as it was. Either way the
  recorded history is kept: no passed attempt, completed lab or revealed hint is lost.
\<close>

theorem postgres_progress_refines_memory:
  assumes "uuid_type uuid_in" "pg_reachable uuid_in db" "canonical uuid_in op"
    and "pg_run uuid_in op db = (answer, db')"
  shows "keeps_history (mem_of db) (mem_of db') \<and>
    (if schema_refuses op db
     then answer \<in> Inl ` {Unique_Violation, Foreign_Key_Violation, Check_Violation} \<and> db' = db\<lparr>next_seq := next_seq db'\<rparr>
     else (\<exists>reply. answer = Inr reply \<and> mem_run op (mem_of db) = (Inr reply, mem_of db')) \<or>
       (\<exists>e. answer = Inl (Progress_Error e) \<and> mem_run op (mem_of db) = (Inl e, mem_of db')))"
proof -
  note inv = pg_reachable_inv [OF assms(2,1)]
  have "keeps_history (mem_of db) (mem_of db')" using pg_run_keeps [OF assms(1) inv assms(3)] assms(4) by simp
  moreover have "answer \<in> Inl ` {Unique_Violation, Foreign_Key_Violation, Check_Violation} \<and> db' = db\<lparr>next_seq := next_seq db'\<rparr>"
    if "schema_refuses op db"
    using pg_run_refused [OF assms(3) that] assms(4) by auto
  moreover have "(\<exists>reply. answer = Inr reply \<and> mem_run op (mem_of db) = (Inr reply, mem_of db')) \<or>
       (\<exists>e. answer = Inl (Progress_Error e) \<and> mem_run op (mem_of db) = (Inl e, mem_of db'))"
    if "\<not> schema_refuses op db"
    using pg_run_refines [OF assms(1) inv assms(3) that] assms(4)
    by (cases answer) (auto simp: refines_def)
  ultimately show ?thesis by simp
qed

definition uuid_text :: "string \<Rightarrow> string option" where
  "uuid_text s = (if isUuid s then Some (toLowerCase s) else None)"

lemma uuid_type_text: "uuid_type uuid_text"
  by (auto simp: uuid_type_def uuid_text_def isUuid_def split: if_splits)

definition demo_uuid :: string where
  "demo_uuid = ''0a1b2c3d-0000-4000-8000-0a1b2c3d4e5f''"

lemma demo_uuid: "uuid_text demo_uuid = Some demo_uuid"
  by code_simp

definition demo_db :: ProgressDb where
  "demo_db = snd (pg_run uuid_text (Op_Create demo_uuid ''stu-1'' ''LINUX-001'' ''linux'' 10)
     (snd (pg_run uuid_text (Op_Ensure ''stu-1'' ''dev'' None 5) empty_db)))"

lemma demo_db_reachable: "pg_reachable uuid_text demo_db"
  unfolding demo_db_def by (intro pg_reachable.intros) (simp_all add: demo_uuid)

theorem postgres_progress_refines_memory_witness:
  "keeps_history (mem_of demo_db) (mem_of (snd (pg_run uuid_text (Op_Check demo_uuid True 20) demo_db))) \<and>
    \<not> schema_refuses (Op_Check demo_uuid True 20) demo_db \<and>
    fst (mem_run (Op_Check demo_uuid True 20) (mem_of demo_db)) \<noteq> Inl (ATTEMPT_NOT_FOUND demo_uuid)"
proof -
  have "keeps_history (mem_of demo_db) (mem_of (snd (pg_run uuid_text (Op_Check demo_uuid True 20) demo_db)))"
    using postgres_progress_refines_memory [OF uuid_type_text demo_db_reachable, of "Op_Check demo_uuid True 20"] demo_uuid
    by (metis canonical.simps(3) prod.collapse)
  moreover have "fst (mem_run (Op_Check demo_uuid True 20) (mem_of demo_db)) \<noteq> Inl (ATTEMPT_NOT_FOUND demo_uuid)"
    by code_simp
  ultimately show ?thesis by simp
qed

section \<open>Queries\<close>

lemma find_unique:
  assumes "set xs = set ys" "\<And>a b. a \<in> set xs \<Longrightarrow> b \<in> set xs \<Longrightarrow> P a \<Longrightarrow> P b \<Longrightarrow> a = b"
  shows "find P xs = find P ys"
proof (cases "\<exists>a\<in>set xs. P a")
  case True
  then obtain a where a: "a \<in> set xs" "P a" by blast
  have "find P zs = Some a" if "set zs = set xs" for zs
  proof -
    have "find P zs \<noteq> None" using a that by (auto simp: find_None_iff)
    then obtain b where b: "find P zs = Some b" by auto
    then have "b \<in> set xs" "P b" using that by (auto simp: find_Some_iff)
    with b a assms(2) show ?thesis by blast
  qed
  with assms(1) show ?thesis by simp
next
  case False
  with assms(1) have "find P xs = None" "find P ys = None" by (auto simp: find_None_iff)
  then show ?thesis by simp
qed

lemma query_listAttempts:
  assumes "tables_ok uuid_in db" "0 \<le> limit"
  shows "pg_listAttempts s limit db = Inr (repo_listAttempts s limit (mem_of db))"
proof -
  let ?le = "\<lambda>r s. a_startedAt (row_attempt s) < a_startedAt (row_attempt r) \<or>
    a_startedAt (row_attempt s) = a_startedAt (row_attempt r) \<and> row_seq s \<le> row_seq r"
  let ?P = "\<lambda>a. a_studentId a = s"
  have sequences: "sequence_of (mem_of db) (row_attempt row) = row_seq row" if "row \<in> set (t_attempts db)" for row
    using find_key [OF tables_okD(3) [OF assms(1)], of "row_id row" row] that
    by (simp add: sequence_of_def map_of_kv row_id_def)
  have "map row_attempt (sort_by ?le (filter (?P \<circ> row_attempt) (t_attempts db))) =
      sort_by (newer (mem_of db)) (map row_attempt (filter (?P \<circ> row_attempt) (t_attempts db)))"
    by (rule map_sort_by) (auto simp: newer_def sequences)
  also have "\<dots> = sort_by (newer (mem_of db)) (filter ?P (map row_attempt (t_attempts db)))"
    by (simp add: filter_map)
  also have "\<dots> = filter ?P (ordered (mem_of db))"
    unfolding ordered_def mem_of_simps map_snd_kv by (rule filter_sort_by [symmetric]) (auto simp: newer_def)
  finally show ?thesis
    using assms(2) by (simp add: pg_listAttempts_def repo_listAttempts_def comp_def take_map [symmetric])
qed

lemma query_bySession:
  assumes "tables_ok uuid_in db"
  shows "pg_findAttemptBySession sess db = findAttemptBySession sess (mem_of db)"
  unfolding pg_findAttemptBySession_def findAttemptBySession_def
proof (rule find_unique)
  show "set (map row_attempt (t_attempts db)) = set (ordered (mem_of db))" by (simp add: ordered_def set_sort_by)
  fix a b
  assume a: "a \<in> set (map row_attempt (t_attempts db))" "a_sessionId a = Some sess"
    and b: "b \<in> set (map row_attempt (t_attempts db))" "a_sessionId b = Some sess"
  obtain r r' where r: "r \<in> set (t_attempts db)" "row_attempt r = a" "r' \<in> set (t_attempts db)" "row_attempt r' = b"
    using a(1) b(1) by auto
  then have "row_id r = row_id r'" using tables_okD(7) [OF assms r(1,3)] a(2) b(2) by simp
  then have "r = r'" using tables_okD(3) [OF assms] r(1,3) by (simp add: distinct_map inj_on_def)
  with r show "a = b" by simp
qed

lemma canonical_isUuid:
  assumes "uuid_type uuid_in" "uuid_in j = Some j" shows "isUuid j"
proof -
  have j: "UUID_PATTERN j" using assms unfolding uuid_type_def by blast
  have "lower_char c = c" if "is_hex c \<or> c = CHR ''-''" for c
    using that by (elim disjE) (auto simp: is_hex_def lower_char_def)
  then have "toLowerCase j = j" using UUID_PATTERN_chars [OF j] by (auto simp: toLowerCase_def list_all_iff intro: map_idI)
  with j show ?thesis by (simp add: isUuid_def)
qed

lemma find_conj_key:
  "distinct (map f rows) \<Longrightarrow> find (\<lambda>x. f x = k \<and> P x) rows =
     (case find (\<lambda>x. f x = k) rows of Some x \<Rightarrow> if P x then Some x else None | None \<Rightarrow> None)"
proof (induction rows)
  case (Cons r rows)
  then have "f r = k \<Longrightarrow> find (\<lambda>x. f x = k) rows = None" by (simp add: find_key_None)
  with Cons show ?case by auto
qed simp

text \<open>An id in the notation of the database, or in none.\<close>

lemma query_ids:
  assumes ty: "uuid_type uuid_in" and ok: "tables_ok uuid_in db" and i: "isUuid i \<longrightarrow> toLowerCase i = i"
  shows "pg_findAttempt uuid_in i db = Inr (findAttempt i (mem_of db))"
    and "pg_getAttempt uuid_in s i db = Inr (getAttempt s i (mem_of db))"
    and "pg_listHintUsage uuid_in i db = Inr (listHintUsage i (mem_of db))"
proof -
  have found: "select_attempt i db = None" if "\<not> isUuid i"
    using that tables_okD(4) [OF ok] canonical_isUuid [OF ty] by (auto simp: select_attempt_def find_None_iff)
  have hints: "filter (\<lambda>u. h_attemptId u = i) (t_hints db) = []" if "\<not> isUuid i"
    using that tables_okD(10) [OF ok] canonical_isUuid [OF ty] by (auto simp: filter_empty_conv)
  have uuid: "uuid_in i = Some i" if "isUuid i" using ty i that unfolding uuid_type_def by simp
  show "pg_findAttempt uuid_in i db = Inr (findAttempt i (mem_of db))"
    using found uuid by (auto simp: pg_findAttempt_def with_uuid_def findAttempt_def select_attempt_mem)
  have both: "find (\<lambda>row. row_id row = i \<and> a_studentId (row_attempt row) = s) (t_attempts db) =
      (case find (\<lambda>row. row_id row = i) (t_attempts db) of
         Some row \<Rightarrow> if a_studentId (row_attempt row) = s then Some row else None | None \<Rightarrow> None)"
    using tables_okD(3) [OF ok] by (rule find_conj_key)
  show "pg_getAttempt uuid_in s i db = Inr (getAttempt s i (mem_of db))"
    using found uuid
    by (auto simp: pg_getAttempt_def with_uuid_def getAttempt_def select_attempt_def map_of_kv both split: option.splits)
  show "pg_listHintUsage uuid_in i db = Inr (listHintUsage i (mem_of db))"
    using hints uuid by (auto simp: pg_listHintUsage_def with_uuid_def listHintUsage_def sort_by_def)
qed

text \<open>
  The queries of the PostgreSQL repository answer what the in-memory repository
  answers on the same contents, in every reachable state, for an attempt id in lower
  case or in no \<open>uuid\<close> notation at all: one attempt, an attempt of a student, the
  attempt of a session (unique in the table, newest first in memory), the newest
  attempts of a student with their limit, the hints of an attempt in order, and the
  progress rows under the same collation. None of them fails.
\<close>

theorem postgres_progress_queries_agree:
  assumes "uuid_type uuid_in" "pg_reachable uuid_in db" "isUuid i \<longrightarrow> toLowerCase i = i" "0 \<le> limit"
  shows "pg_findAttempt uuid_in i db = Inr (findAttempt i (mem_of db)) \<and>
    pg_getAttempt uuid_in s i db = Inr (getAttempt s i (mem_of db)) \<and>
    pg_findAttemptBySession sess db = findAttemptBySession sess (mem_of db) \<and>
    pg_listAttempts s limit db = Inr (repo_listAttempts s limit (mem_of db)) \<and>
    pg_listHintUsage uuid_in i db = Inr (listHintUsage i (mem_of db)) \<and>
    pg_listProgress collate s db = listProgress collate s (mem_of db)"
proof -
  have ok: "tables_ok uuid_in db" using pg_reachable_inv [OF assms(2,1)] by (simp add: db_inv_def)
  show ?thesis
    using query_ids [OF assms(1) ok assms(3)] query_bySession [OF ok] query_listAttempts [OF ok assms(4)]
    by (simp add: pg_listProgress_def listProgress_def)
qed

theorem postgres_progress_queries_agree_witness:
  "pg_findAttempt uuid_text demo_uuid demo_db = Inr (findAttempt demo_uuid (mem_of demo_db)) \<and>
    findAttempt demo_uuid (mem_of demo_db) \<noteq> None \<and>
    pg_listAttempts ''stu-1'' 5 demo_db = Inr (repo_listAttempts ''stu-1'' 5 (mem_of demo_db))"
proof -
  have lower: "toLowerCase demo_uuid = demo_uuid" by code_simp
  have "findAttempt demo_uuid (mem_of demo_db) \<noteq> None" by code_simp
  moreover have "isUuid demo_uuid \<longrightarrow> toLowerCase demo_uuid = demo_uuid" using lower by blast
  note postgres_progress_queries_agree [OF uuid_type_text demo_db_reachable this, where limit = 5 and s = "''stu-1''"]
  ultimately show ?thesis by simp
qed

end
