(* ===== verification/Plans.thy ===== *)
theory Plans
  imports Js_Text
begin

text \<open>
  Plans: \<open>apps/api/src/access/plans.ts\<close>. The plan document is the parsed JSON value;
  its validation refuses anything it does not understand, and the refusals are the
  constructors of \<open>plan_error\<close> with the index of the entry. Reading the environment
  and the file is \<open>plansFromEnv\<close>, given the two variables, the file reader and the
  JSON parser.
\<close>

section \<open>The model\<close>

definition is_plan_char :: "char \<Rightarrow> bool" where
  "is_plan_char c \<longleftrightarrow> is_lower_alnum c \<or> c = CHR ''-''"

text \<open>\<open>/^[a-z0-9][a-z0-9-]{0,31}$/\<close>, for plan ids and for track ids.\<close>

definition PLAN_ID_SHAPE :: "string \<Rightarrow> bool" where
  "PLAN_ID_SHAPE s \<longleftrightarrow> (case s of [] \<Rightarrow> False
     | c # t \<Rightarrow> is_lower_alnum c \<and> length t \<le> 31 \<and> list_all is_plan_char t)"

definition MAX_PLANS :: nat where "MAX_PLANS = 50"
definition MAX_NAME :: nat where "MAX_NAME = 80"
definition MAX_DESCRIPTION :: nat where "MAX_DESCRIPTION = 500"

datatype plan_tracks = All_Tracks | Some_Tracks "string list"

record Plan =
  plan_id :: string
  plan_name :: string
  plan_description :: "string option"
  plan_tracks :: plan_tracks
  maxConcurrentSessions :: "int option"

datatype plan_error =
    Not_An_Object
  | Unknown_Top_Level "string list"
  | No_Plans_Array
  | Too_Many_Plans
  | Entry_Not_An_Object nat
  | Unknown_Fields nat "string list"
  | Bad_Id nat
  | Defined_Twice nat string
  | Bad_Name nat
  | Bad_Description nat
  | Bad_Tracks nat
  | Bad_Session_Limit nat
  | Unknown_Tracks string "string list"
  | Both_Sources
  | Invalid_JSON string
  | Unreadable_File string string
  | Bad_Trial_Days
  | Trial_Plan_Unknown string
  | Trial_Plan_Without_Days

text \<open>A catalog is its plans, in order; ids are distinct in a parsed one.\<close>

type_synonym PlanCatalog = "Plan list"

text \<open>\<open>new Map(plans.map((plan) => [plan.id, plan]))\<close>: the last plan of an id wins.\<close>

definition plan_get :: "PlanCatalog \<Rightarrow> string \<Rightarrow> Plan option" where
  "plan_get plans i = map_of (rev (map (\<lambda>p. (plan_id p, p)) plans)) i"

fun assertTracksExist :: "PlanCatalog \<Rightarrow> string list \<Rightarrow> plan_error + unit" where
  "assertTracksExist [] known = Inr ()"
| "assertTracksExist (p # ps) known = (case plan_tracks p of
       All_Tracks \<Rightarrow> assertTracksExist ps known
     | Some_Tracks ts \<Rightarrow>
         let unknown = filter (\<lambda>t. t \<notin> set known) ts in
         if unknown \<noteq> [] then Inl (Unknown_Tracks (plan_id p) unknown)
         else assertTracksExist ps known)"

definition planIncludesTrack :: "Plan option \<Rightarrow> string option \<Rightarrow> bool" where
  "planIncludesTrack plan track = (case plan of
       None \<Rightarrow> True
     | Some p \<Rightarrow>
         (case plan_tracks p of
            All_Tracks \<Rightarrow> True
          | Some_Tracks ts \<Rightarrow> (case track of None \<Rightarrow> False | Some t \<Rightarrow> t \<in> set ts)))"

definition effectiveSessionLimit :: "int option \<Rightarrow> Plan option \<Rightarrow> int option" where
  "effectiveSessionLimit deploymentLimit plan =
     (let planLimit = (case plan of None \<Rightarrow> None | Some p \<Rightarrow> maxConcurrentSessions p) in
      case planLimit of
        None \<Rightarrow> deploymentLimit
      | Some l \<Rightarrow> (case deploymentLimit of None \<Rightarrow> Some l | Some d \<Rightarrow> Some (min d l)))"

definition plan_fields :: "string list" where
  "plan_fields = [''id'', ''name'', ''description'', ''tracks'', ''maxConcurrentSessions'']"

text \<open>\<open>[...new Set(xs)]\<close>: the first occurrence of each.\<close>

definition dedup :: "'a list \<Rightarrow> 'a list" where
  "dedup xs = rev (remdups (rev xs))"

fun track_text :: "json \<Rightarrow> string option" where
  "track_text (JString t) = (if PLAN_ID_SHAPE t then Some t else None)"
| "track_text _ = None"

definition parse_tracks :: "nat \<Rightarrow> json option \<Rightarrow> plan_error + plan_tracks" where
  "parse_tracks i raw = (case raw of
       Some (JString s) \<Rightarrow> if s = ''all'' then Inr All_Tracks else Inl (Bad_Tracks i)
     | Some (JArray xs) \<Rightarrow>
         if xs \<noteq> [] \<and> list_all (\<lambda>x. track_text x \<noteq> None) xs
         then Inr (Some_Tracks (dedup (map (the \<circ> track_text) xs)))
         else Inl (Bad_Tracks i)
     | _ \<Rightarrow> Inl (Bad_Tracks i))"

definition parse_limit :: "nat \<Rightarrow> json option \<Rightarrow> plan_error + int option" where
  "parse_limit i raw = (case raw of
       None \<Rightarrow> Inr None
     | Some (JNumber n) \<Rightarrow>
         (case json_integer n of
            None \<Rightarrow> Inl (Bad_Session_Limit i)
          | Some v \<Rightarrow> if v < 1 \<or> v > 100 then Inl (Bad_Session_Limit i) else Inr (Some v))
     | Some _ \<Rightarrow> Inl (Bad_Session_Limit i))"

definition parse_plan :: "nat \<Rightarrow> string list \<Rightarrow> json \<Rightarrow> plan_error + Plan" where
  "parse_plan i seen raw = (case raw of
     JObject entry \<Rightarrow>
       let extra = filter (\<lambda>k. k \<notin> set plan_fields) (map fst entry) in
       if extra \<noteq> [] then Inl (Unknown_Fields i extra)
       else (case map_of entry ''id'' of
         Some (JString pid) \<Rightarrow>
           if \<not> PLAN_ID_SHAPE pid then Inl (Bad_Id i)
           else if pid \<in> set seen then Inl (Defined_Twice i pid)
           else (case map_of entry ''name'' of
             Some (JString name) \<Rightarrow>
               if trim name = [] \<or> length name > MAX_NAME then Inl (Bad_Name i)
               else
                 (case (case map_of entry ''description'' of
                    None \<Rightarrow> Inr None
                  | Some (JString d) \<Rightarrow>
                      if length d > MAX_DESCRIPTION then Inl (Bad_Description i)
                      else Inr (if trim d = [] then None else Some (trim d))
                  | Some _ \<Rightarrow> Inl (Bad_Description i)) of
                    Inl e \<Rightarrow> Inl e
                  | Inr description \<Rightarrow>
                      (case parse_tracks i (map_of entry ''tracks'') of
                         Inl e \<Rightarrow> Inl e
                       | Inr tracks \<Rightarrow>
                           (case parse_limit i (map_of entry ''maxConcurrentSessions'') of
                              Inl e \<Rightarrow> Inl e
                            | Inr limit \<Rightarrow> Inr \<lparr>plan_id = pid, plan_name = trim name,
                                plan_description = description, plan_tracks = tracks,
                                maxConcurrentSessions = limit\<rparr>)))
           | _ \<Rightarrow> Inl (Bad_Name i))
       | _ \<Rightarrow> Inl (Bad_Id i))
   | _ \<Rightarrow> Inl (Entry_Not_An_Object i))"

fun parse_entries :: "nat \<Rightarrow> Plan list \<Rightarrow> json list \<Rightarrow> plan_error + Plan list" where
  "parse_entries i plans [] = Inr plans"
| "parse_entries i plans (raw # raws) =
     (case parse_plan i (map plan_id plans) raw of
        Inl e \<Rightarrow> Inl e
      | Inr p \<Rightarrow> parse_entries (i + 1) (plans @ [p]) raws)"

definition parsePlans :: "json \<Rightarrow> plan_error + PlanCatalog" where
  "parsePlans document = (case document of
       JObject doc \<Rightarrow>
         let extraTop = filter (\<lambda>k. k \<noteq> ''plans'') (map fst doc) in
         if extraTop \<noteq> [] then Inl (Unknown_Top_Level extraTop)
         else (case map_of doc ''plans'' of
             Some (JArray raws) \<Rightarrow>
               if length raws > MAX_PLANS then Inl Too_Many_Plans else parse_entries 0 [] raws
           | _ \<Rightarrow> Inl No_Plans_Array)
     | _ \<Rightarrow> Inl Not_An_Object)"

text \<open>An environment variable that is unset or blank is as good as absent.\<close>

definition env_text :: "string option \<Rightarrow> string option" where
  "env_text v = (case v of None \<Rightarrow> None | Some s \<Rightarrow> if trim s = [] then None else Some (trim s))"

definition plansFromEnv ::
    "string option \<Rightarrow> string option \<Rightarrow> (string \<Rightarrow> string + string) \<Rightarrow> (string \<Rightarrow> json option) \<Rightarrow>
      plan_error + PlanCatalog" where
  "plansFromEnv ACCESS_PLANS_FILE ACCESS_PLANS_JSON read JSON_parse =
     (case (env_text ACCESS_PLANS_FILE, env_text ACCESS_PLANS_JSON) of
        (Some _, Some _) \<Rightarrow> Inl Both_Sources
      | (_, Some inline) \<Rightarrow>
          (case JSON_parse inline of
             None \<Rightarrow> Inl (Invalid_JSON ''ACCESS_PLANS_JSON'')
           | Some document \<Rightarrow> parsePlans document)
      | (None, None) \<Rightarrow> Inr []
      | (Some file, None) \<Rightarrow>
          (case read file of
             Inl reason \<Rightarrow> Inl (Unreadable_File file reason)
           | Inr txt \<Rightarrow>
               (case JSON_parse txt of
                  None \<Rightarrow> Inl (Invalid_JSON file)
                | Some document \<Rightarrow> parsePlans document)))"

record TrialConfig =
  trial_durationDays :: "nat option"
  trial_planId :: "string option"

definition trialFromEnv :: "string option \<Rightarrow> string option \<Rightarrow> PlanCatalog \<Rightarrow> plan_error + TrialConfig" where
  "trialFromEnv TRIAL_DURATION_DAYS TRIAL_PLAN plans =
     (case (case env_text TRIAL_DURATION_DAYS of
              None \<Rightarrow> Inr None
            | Some raw \<Rightarrow>
                if \<not> (1 \<le> length raw \<and> length raw \<le> 3 \<and> list_all is_digit raw) \<or>
                   read_nat raw < 1 \<or> read_nat raw > 365
                then Inl Bad_Trial_Days else Inr (Some (read_nat raw))) of
        Inl e \<Rightarrow> Inl e
      | Inr days \<Rightarrow>
          (case env_text TRIAL_PLAN of
             None \<Rightarrow> Inr \<lparr>trial_durationDays = days, trial_planId = None\<rparr>
           | Some p \<Rightarrow>
               if plan_get plans p = None then Inl (Trial_Plan_Unknown p)
               else if days = None then Inl Trial_Plan_Without_Days
               else Inr \<lparr>trial_durationDays = days, trial_planId = Some p\<rparr>))"

section \<open>A parsed catalog\<close>

definition plan_wf :: "Plan \<Rightarrow> bool" where
  "plan_wf p \<longleftrightarrow> PLAN_ID_SHAPE (plan_id p) \<and> plan_name p \<noteq> [] \<and>
     (case plan_tracks p of All_Tracks \<Rightarrow> True
      | Some_Tracks ts \<Rightarrow> ts \<noteq> [] \<and> distinct ts \<and> list_all PLAN_ID_SHAPE ts) \<and>
     (case maxConcurrentSessions p of None \<Rightarrow> True | Some l \<Rightarrow> 1 \<le> l \<and> l \<le> 100)"

definition catalog_wf :: "PlanCatalog \<Rightarrow> bool" where
  "catalog_wf plans \<longleftrightarrow> list_all plan_wf plans \<and> distinct (map plan_id plans)"

lemma set_dedup [simp]: "set (dedup xs) = set xs"
  by (simp add: dedup_def)

lemma distinct_dedup [simp]: "distinct (dedup xs)"
  by (simp add: dedup_def)

lemma parse_tracks_wf:
  "parse_tracks i raw = Inr (Some_Tracks ts) \<Longrightarrow> ts \<noteq> [] \<and> distinct ts \<and> list_all PLAN_ID_SHAPE ts"
proof -
  assume "parse_tracks i raw = Inr (Some_Tracks ts)"
  then obtain xs where xs: "xs \<noteq> []" "list_all (\<lambda>x. track_text x \<noteq> None) xs" "ts = dedup (map (the \<circ> track_text) xs)"
    by (auto simp: parse_tracks_def split: option.splits json.splits if_splits)
  have "PLAN_ID_SHAPE (the (track_text x))" if "x \<in> set xs" for x
    using xs(2) that by (cases x) (auto simp: list_all_iff split: if_splits)
  with xs show ?thesis by (auto simp: list_all_iff dedup_def)
qed

lemma parse_plan_wf:
  assumes "parse_plan i seen raw = Inr p"
  shows "plan_wf p \<and> plan_id p \<notin> set seen"
proof -
  from assms obtain entry name description where
      "PLAN_ID_SHAPE (plan_id p)" "plan_id p \<notin> set seen" "trim name \<noteq> []" "plan_name p = trim name"
      "parse_tracks i (map_of entry ''tracks'') = Inr (plan_tracks p)"
      "parse_limit i (map_of entry ''maxConcurrentSessions'') = Inr (maxConcurrentSessions p)"
    unfolding parse_plan_def Let_def
    by (cases raw) (auto split: option.splits json.splits if_splits sum.splits)
  moreover from this(6) have "case maxConcurrentSessions p of None \<Rightarrow> True | Some l \<Rightarrow> 1 \<le> l \<and> l \<le> 100"
    by (auto simp: parse_limit_def split: option.splits json.splits if_splits)
  ultimately show ?thesis
    by (auto simp: plan_wf_def split: plan_tracks.splits dest!: parse_tracks_wf)
qed

lemma parse_entries_wf: "parse_entries i plans raws = Inr cat \<Longrightarrow> catalog_wf plans \<Longrightarrow> catalog_wf cat"
proof (induction i plans raws rule: parse_entries.induct)
  case (2 i plans raw raws)
  then obtain p where p: "parse_plan i (map plan_id plans) raw = Inr p"
    and rest: "parse_entries (i + 1) (plans @ [p]) raws = Inr cat" by (auto split: sum.splits)
  have "catalog_wf (plans @ [p])" using "2.prems"(2) parse_plan_wf [OF p] by (auto simp: catalog_wf_def)
  with 2 p rest show ?case by simp
qed simp

lemma parsePlans_wf: "parsePlans document = Inr cat \<Longrightarrow> catalog_wf cat"
  unfolding parsePlans_def Let_def
  by (auto simp: catalog_wf_def [of "[]"] split: json.splits option.splits if_splits intro: parse_entries_wf)

lemma plan_get_Some: "catalog_wf plans \<Longrightarrow> plan_get plans i = Some p \<longleftrightarrow> p \<in> set plans \<and> plan_id p = i"
proof -
  assume wf: "catalog_wf plans"
  have "distinct (map fst (rev (map (\<lambda>p. (plan_id p, p)) plans)))"
    using wf by (simp add: catalog_wf_def comp_def rev_map [symmetric])
  then show ?thesis by (auto simp: plan_get_def)
qed

lemma effectiveSessionLimit_le:
  "effectiveSessionLimit (Some d) plan = Some l \<Longrightarrow> l \<le> d"
  by (auto simp: effectiveSessionLimit_def Let_def split: option.splits)

end
