(* ===== verification/Entitlements.thy ===== *)
theory Entitlements
  imports Plans Session_Identifiers
begin

text \<open>
  Lab access: \<open>apps/api/src/access/entitlements.ts\<close>. Entitlement rows, what they mean at
  an instant, the transition rules of an account, the in-memory store with its audit
  events, and the decision every lab route asks for. A timestamp is its number of
  milliseconds. The store's \<open>mutate\<close> runs its callers one after the other (a promise
  chain), so it is one atomic step; the accounts the directory lists are an argument.
\<close>

section \<open>Types\<close>

datatype EntitlementStatus = E_ACTIVE | E_SUSPENDED | E_REVOKED

datatype AccessState = S_NONE | S_SCHEDULED | S_ACTIVE | S_EXPIRED | S_SUSPENDED | S_REVOKED

datatype GrantedVia = Via_Operator | Via_Billing

definition GRANT_SOURCES :: "GrantedVia list" where
  "GRANT_SOURCES = [Via_Operator, Via_Billing]"

datatype GrantKind = K_STANDARD | K_BETA | K_TRIAL | K_SUBSCRIPTION

record Entitlement =
  e_userId :: string
  e_status :: EntitlementStatus
  e_startsAt :: int
  e_expiresAt :: "int option"
  e_grantedVia :: GrantedVia
  e_kind :: GrantKind
  e_planId :: "string option"
  e_createdAt :: int
  e_updatedAt :: int

datatype AccessAction = GRANT | TRIAL | SUSPEND | RESTORE | REVOKE | SYNC

record EntitlementSnapshot =
  sn_status :: EntitlementStatus
  sn_startsAt :: int
  sn_expiresAt :: "int option"
  sn_kind :: GrantKind
  sn_planId :: "string option"

record AccessEvent =
  ev_eventId :: nat
  ev_userId :: string
  ev_source :: GrantedVia
  ev_action :: AccessAction
  ev_actor :: string
  ev_reason :: string
  ev_before :: "EntitlementSnapshot option"
  ev_after :: EntitlementSnapshot
  ev_occurredAt :: int

datatype access_error =
    INVALID_USER_ID | INVALID_ACTOR | INVALID_REASON | INVALID_WINDOW | EXPIRY_REQUIRED
  | USER_NOT_FOUND | NO_ENTITLEMENT | ENTITLEMENT_SUSPENDED | ENTITLEMENT_REVOKED | INVALID_KIND
  | TRIALS_DISABLED | TRIAL_ALREADY_USED | ALREADY_ACTIVE | INVALID_REQUEST

section \<open>What a row means now\<close>

definition evaluateAccess :: "Entitlement option \<Rightarrow> int \<Rightarrow> AccessState \<times> bool" where
  "evaluateAccess entitlement nowMs = (case entitlement of
       None \<Rightarrow> (S_NONE, False)
     | Some e \<Rightarrow>
         if e_status e = E_REVOKED then (S_REVOKED, False)
         else if e_status e = E_SUSPENDED then (S_SUSPENDED, False)
         else if nowMs < e_startsAt e then (S_SCHEDULED, False)
         else if (case e_expiresAt e of None \<Rightarrow> False | Some t \<Rightarrow> nowMs \<ge> t) then (S_EXPIRED, False)
         else (S_ACTIVE, True))"

definition rank :: "Entitlement \<Rightarrow> nat" where
  "rank g = (if e_kind g = K_TRIAL then 0 else if e_grantedVia g = Via_Operator then 2 else 1)"

text \<open>\<open>end(a) >= end(b)\<close>, no end date being infinity.\<close>

definition ends_later :: "Entitlement \<Rightarrow> Entitlement \<Rightarrow> bool" where
  "ends_later a b = (case (e_expiresAt a, e_expiresAt b) of
       (None, _) \<Rightarrow> True
     | (Some _, None) \<Rightarrow> False
     | (Some s, Some t) \<Rightarrow> t \<le> s)"

definition answers_before :: "Entitlement \<Rightarrow> Entitlement \<Rightarrow> bool" where
  "answers_before a b \<longleftrightarrow> rank b < rank a \<or> rank b = rank a \<and> ends_later a b"

definition evaluateAccount :: "Entitlement list \<Rightarrow> int \<Rightarrow> AccessState \<times> bool \<times> Entitlement option" where
  "evaluateAccount grants nowMs =
     (if grants = [] then (S_NONE, False, None)
      else (case find (\<lambda>g. e_status g = E_SUSPENDED) grants of
          Some suspended \<Rightarrow> (S_SUSPENDED, False, Some suspended)
        | None \<Rightarrow>
            let active = filter (\<lambda>g. snd (evaluateAccess (Some g) nowMs)) grants in
            if active \<noteq> [] then (S_ACTIVE, True, Some (hd (sort_by answers_before active)))
            else let latest = hd (sort_by (\<lambda>a b. e_updatedAt b \<le> e_updatedAt a) grants);
                     (state, act) = evaluateAccess (Some latest) nowMs
                 in (state, act, Some latest)))"

section \<open>Input validation\<close>

definition hex_group :: "nat \<Rightarrow> string \<Rightarrow> bool" where
  "hex_group n s \<longleftrightarrow> length s = n \<and> list_all is_hex s"

definition USER_ID_SHAPE :: "string \<Rightarrow> bool" where
  "USER_ID_SHAPE s \<longleftrightarrow>
     (case split_on CHR ''-'' s of
        [a, b, c, d, e] \<Rightarrow> hex_group 8 a \<and> hex_group 4 b \<and> hex_group 4 c \<and> hex_group 4 d \<and> hex_group 12 e
      | [a, b] \<Rightarrow> a = ''usr'' \<and> length b = 8 \<and> list_all is_digit b
      | _ \<Rightarrow> False)"

definition raw_text :: "unknown_value \<Rightarrow> string" where
  "raw_text v = (case v of UString s \<Rightarrow> trim s | UOther _ \<Rightarrow> [])"

definition assertUserId :: "unknown_value \<Rightarrow> access_error + string" where
  "assertUserId value = (let raw = toLowerCase (raw_text value) in
     if \<not> USER_ID_SHAPE raw then Inl INVALID_USER_ID else Inr raw)"

definition is_actor_char :: "char \<Rightarrow> bool" where
  "is_actor_char c \<longleftrightarrow> is_lower_alnum c \<or> is_upper c \<or> c \<in> set ''._@+-''"

definition ACTOR_SHAPE :: "string \<Rightarrow> bool" where
  "ACTOR_SHAPE s \<longleftrightarrow> (case s of [] \<Rightarrow> False
     | c # t \<Rightarrow> (is_lower_alnum c \<or> is_upper c) \<and> length t \<le> 63 \<and> list_all is_actor_char t)"

definition assertActor :: "unknown_value \<Rightarrow> access_error + string" where
  "assertActor value = (let raw = raw_text value in
     if \<not> ACTOR_SHAPE raw then Inl INVALID_ACTOR else Inr raw)"

definition MAX_REASON_LENGTH :: nat where "MAX_REASON_LENGTH = 500"

definition is_control :: "char \<Rightarrow> bool" where
  "is_control c \<longleftrightarrow> (of_char c :: nat) \<le> 31 \<or> (of_char c :: nat) = 127"

definition assertReason :: "unknown_value \<Rightarrow> access_error + string" where
  "assertReason value = (let raw = raw_text value in
     if length raw = 0 \<or> length raw > MAX_REASON_LENGTH then Inl INVALID_REASON
     else if list_ex is_control raw then Inl INVALID_REASON
     else Inr raw)"

definition assertKind :: "unknown_value \<Rightarrow> access_error + GrantKind" where
  "assertKind value = (let raw = toUpperCase (raw_text value) in
     if raw = ''STANDARD'' then Inr K_STANDARD
     else if raw = ''BETA'' then Inr K_BETA
     else if raw = ''TRIAL'' then Inr K_TRIAL
     else Inl INVALID_KIND)"

section \<open>Transitions\<close>

record GrantRequest =
  gr_startsAt :: "int option"
  gr_expiresAt :: "int option"
  gr_kind :: "GrantKind option"
  gr_planId :: "string option option"

record TrialRequest =
  tr_durationDays :: nat
  tr_planId :: "string option"

record SyncRequest =
  sy_active :: bool
  sy_startsAt :: int
  sy_expiresAt :: int
  sy_kind :: GrantKind
  sy_planId :: "string option"

datatype MutationPlan = Write AccessAction EntitlementSnapshot | Unchanged AccessAction

definition snapshot :: "Entitlement \<Rightarrow> EntitlementSnapshot" where
  "snapshot e = \<lparr>sn_status = e_status e, sn_startsAt = e_startsAt e, sn_expiresAt = e_expiresAt e,
     sn_kind = e_kind e, sn_planId = e_planId e\<rparr>"

definition has_status :: "Entitlement option \<Rightarrow> EntitlementStatus \<Rightarrow> bool" where
  "has_status cur s = (case cur of None \<Rightarrow> False | Some e \<Rightarrow> e_status e = s)"

definition is_trial :: "Entitlement option \<Rightarrow> bool" where
  "is_trial cur = (case cur of None \<Rightarrow> False | Some e \<Rightarrow> e_kind e = K_TRIAL)"

definition plan_trial ::
    "Entitlement option \<Rightarrow> int \<Rightarrow> TrialRequest option \<Rightarrow> bool \<Rightarrow> access_error + MutationPlan" where
  "plan_trial current now trial hadTrial = (case trial of
       None \<Rightarrow> Inl TRIALS_DISABLED
     | Some t \<Rightarrow>
         if has_status current E_SUSPENDED then Inl ENTITLEMENT_SUSPENDED
         else if hadTrial then Inl TRIAL_ALREADY_USED
         else if snd (evaluateAccess current now) then Inl ALREADY_ACTIVE
         else Inr (Write TRIAL \<lparr>sn_status = E_ACTIVE, sn_startsAt = now,
                sn_expiresAt = Some (now + int (tr_durationDays t) * 86400000),
                sn_kind = K_TRIAL, sn_planId = tr_planId t\<rparr>))"

definition plan_grant :: "Entitlement option \<Rightarrow> int \<Rightarrow> GrantRequest option \<Rightarrow> access_error + MutationPlan" where
  "plan_grant current now grant = (case grant of
       None \<Rightarrow> Inl EXPIRY_REQUIRED
     | Some g \<Rightarrow>
         if has_status current E_SUSPENDED then Inl ENTITLEMENT_SUSPENDED
         else if gr_kind g = Some K_TRIAL \<and> (\<not> is_trial current \<or> has_status current E_REVOKED)
         then Inl INVALID_KIND
         else if gr_kind g = None \<and> is_trial current \<and> \<not> has_status current E_REVOKED
         then Inl INVALID_KIND
         else
           let kind = (case gr_kind g of Some k \<Rightarrow> k
                 | None \<Rightarrow> (case current of
                     Some e \<Rightarrow> if e_status e \<noteq> E_REVOKED then e_kind e else K_STANDARD
                   | None \<Rightarrow> K_STANDARD));
               planId = (case gr_planId g of Some p \<Rightarrow> p
                 | None \<Rightarrow> (case current of Some e \<Rightarrow> e_planId e | None \<Rightarrow> None));
               startsAt = (case gr_startsAt g of Some s \<Rightarrow> s
                 | None \<Rightarrow> (case current of
                     Some e \<Rightarrow> if e_status e = E_ACTIVE then e_startsAt e else now
                   | None \<Rightarrow> now))
           in if (case gr_expiresAt g of None \<Rightarrow> False | Some t \<Rightarrow> t \<le> startsAt) then Inl INVALID_WINDOW
              else if (case gr_expiresAt g of None \<Rightarrow> False | Some t \<Rightarrow> t \<le> now) then Inl INVALID_WINDOW
              else
                let next = \<lparr>sn_status = E_ACTIVE, sn_startsAt = startsAt, sn_expiresAt = gr_expiresAt g,
                      sn_kind = kind, sn_planId = planId\<rparr>
                in if (case current of None \<Rightarrow> False | Some e \<Rightarrow> e_status e = E_ACTIVE \<and> snapshot e = next)
                   then Inr (Unchanged GRANT)
                   else Inr (Write GRANT next))"

fun planMutation ::
    "Entitlement option \<Rightarrow> AccessAction \<Rightarrow> int \<Rightarrow> GrantRequest option \<Rightarrow> TrialRequest option \<Rightarrow> bool \<Rightarrow>
      access_error + MutationPlan" where
  "planMutation current TRIAL now grant trial hadTrial = plan_trial current now trial hadTrial"
| "planMutation current GRANT now grant trial hadTrial = plan_grant current now grant"
| "planMutation current SUSPEND now grant trial hadTrial = (case current of
       None \<Rightarrow> Inl NO_ENTITLEMENT
     | Some e \<Rightarrow>
         if e_status e = E_SUSPENDED then Inr (Unchanged SUSPEND)
         else if e_status e = E_REVOKED then Inl ENTITLEMENT_REVOKED
         else Inr (Write SUSPEND ((snapshot e)\<lparr>sn_status := E_SUSPENDED\<rparr>)))"
| "planMutation current RESTORE now grant trial hadTrial = (case current of
       None \<Rightarrow> Inl NO_ENTITLEMENT
     | Some e \<Rightarrow>
         if e_status e = E_ACTIVE then Inr (Unchanged RESTORE)
         else if e_status e = E_REVOKED then Inl ENTITLEMENT_REVOKED
         else Inr (Write RESTORE ((snapshot e)\<lparr>sn_status := E_ACTIVE\<rparr>)))"
| "planMutation current REVOKE now grant trial hadTrial = (case current of
       None \<Rightarrow> Inl NO_ENTITLEMENT
     | Some e \<Rightarrow>
         if e_status e = E_REVOKED then Inr (Unchanged REVOKE)
         else Inr (Write REVOKE ((snapshot e)\<lparr>sn_status := E_REVOKED\<rparr>)))"
| "planMutation current SYNC now grant trial hadTrial = Inl INVALID_REQUEST"

record RowChange =
  rc_source :: GrantedVia
  rc_before :: "Entitlement option"
  rc_action :: AccessAction
  rc_next :: EntitlementSnapshot

record MutationInput =
  mi_userId :: string
  mi_action :: AccessAction
  mi_actor :: string
  mi_reason :: string
  mi_grant :: "GrantRequest option"
  mi_trial :: "TrialRequest option"
  mi_source :: "GrantedVia option"
  mi_sync :: "SyncRequest option"

definition bySource :: "Entitlement list \<Rightarrow> GrantedVia \<Rightarrow> Entitlement option" where
  "bySource rows wanted = find (\<lambda>row. e_grantedVia row = wanted) rows"

definition of_plan :: "GrantedVia \<Rightarrow> Entitlement option \<Rightarrow> access_error + MutationPlan \<Rightarrow> access_error + RowChange list" where
  "of_plan source current plan = (case plan of
       Inl e \<Rightarrow> Inl e
     | Inr (Unchanged _) \<Rightarrow> Inr []
     | Inr (Write action next) \<Rightarrow>
         Inr [\<lparr>rc_source = source, rc_before = current, rc_action = action, rc_next = next\<rparr>])"

text \<open>What an inactive \<open>SYNC\<close> leaves: a window that covers no instant from now on.\<close>

definition closed_window :: "Entitlement \<Rightarrow> SyncRequest \<Rightarrow> int \<Rightarrow> EntitlementSnapshot" where
  "closed_window current sync now =
     (let startMs = min (e_startsAt current) (min (sy_startsAt sync) (now - 1));
          endMs = max (startMs + 1) (min (sy_expiresAt sync) now)
      in \<lparr>sn_status = e_status current, sn_startsAt = startMs, sn_expiresAt = Some endMs,
          sn_kind = sy_kind sync, sn_planId = sy_planId sync\<rparr>)"

definition plan_sync :: "Entitlement list \<Rightarrow> SyncRequest \<Rightarrow> int \<Rightarrow> access_error + RowChange list" where
  "plan_sync rows sync now =
     (if sy_expiresAt sync \<le> sy_startsAt sync then Inl INVALID_WINDOW
      else
        let current = bySource rows Via_Billing;
            next = (if sy_active sync
              then Some \<lparr>sn_status = (if list_ex (\<lambda>row. e_status row = E_SUSPENDED) rows then E_SUSPENDED else E_ACTIVE),
                     sn_startsAt = sy_startsAt sync, sn_expiresAt = Some (sy_expiresAt sync),
                     sn_kind = sy_kind sync, sn_planId = sy_planId sync\<rparr>
              else map_option (\<lambda>e. closed_window e sync now) current)
        in case next of
             None \<Rightarrow> Inr []
           | Some n \<Rightarrow>
               if map_option snapshot current = Some n then Inr []
               else Inr [\<lparr>rc_source = Via_Billing, rc_before = current, rc_action = SYNC, rc_next = n\<rparr>])"

definition set_status :: "AccessAction \<Rightarrow> EntitlementStatus \<Rightarrow> Entitlement \<Rightarrow> RowChange" where
  "set_status action s row = \<lparr>rc_source = e_grantedVia row, rc_before = Some row, rc_action = action,
     rc_next = (snapshot row)\<lparr>sn_status := s\<rparr>\<rparr>"

definition planAccountMutation ::
    "Entitlement list \<Rightarrow> MutationInput \<Rightarrow> int \<Rightarrow> bool \<Rightarrow> access_error + RowChange list" where
  "planAccountMutation rows input now hadTrial =
     (let source = (case mi_source input of None \<Rightarrow> Via_Operator | Some s \<Rightarrow> s);
          suspended = filter (\<lambda>row. e_status row = E_SUSPENDED) rows;
          current = bySource rows Via_Operator
      in if mi_action input = SYNC
         then (if source \<noteq> Via_Billing then Inl INVALID_REQUEST
               else (case mi_sync input of None \<Rightarrow> Inl INVALID_REQUEST | Some sync \<Rightarrow> plan_sync rows sync now))
         else if source \<noteq> Via_Operator then Inl INVALID_REQUEST
         else if mi_action input = GRANT \<or> mi_action input = TRIAL
         then (if list_ex (\<lambda>row. e_grantedVia row \<noteq> Via_Operator) suspended then Inl ENTITLEMENT_SUSPENDED
               else if mi_action input = TRIAL \<and>
                  list_ex (\<lambda>row. e_grantedVia row \<noteq> Via_Operator \<and> snd (evaluateAccess (Some row) now)) rows
               then Inl ALREADY_ACTIVE
               else of_plan Via_Operator current
                 (planMutation current (mi_action input) now (mi_grant input) (mi_trial input) hadTrial))
         else if mi_action input = REVOKE
         then (if current = None \<and> bySource rows Via_Billing \<noteq> None then Inl NO_ENTITLEMENT
               else of_plan Via_Operator current (planMutation current REVOKE now None None False))
         else if mi_action input = SUSPEND
         then (if rows = [] then Inl NO_ENTITLEMENT
               else let active = filter (\<lambda>row. e_status row = E_ACTIVE) rows in
                 if active = [] then (if suspended \<noteq> [] then Inr [] else Inl ENTITLEMENT_REVOKED)
                 else Inr (map (set_status SUSPEND E_SUSPENDED) active))
         else (if rows = [] then Inl NO_ENTITLEMENT
               else if suspended = []
               then (if list_ex (\<lambda>row. e_status row = E_ACTIVE) rows then Inr [] else Inl ENTITLEMENT_REVOKED)
               else Inr (map (set_status RESTORE E_ACTIVE) suspended)))"

section \<open>The in-memory store\<close>

record access_store =
  as_rows :: "(string \<times> Entitlement) list"
  as_events :: "AccessEvent list"
  nextEvent :: nat

definition empty_access :: access_store where
  "empty_access = \<lparr>as_rows = [], as_events = [], nextEvent = 0\<rparr>"

fun source_name :: "GrantedVia \<Rightarrow> string" where
  "source_name Via_Operator = ''operator''"
| "source_name Via_Billing = ''billing''"

definition access_key :: "string \<Rightarrow> GrantedVia \<Rightarrow> string" where
  "access_key user source = user @ ''|'' @ source_name source"

definition access_get :: "access_store \<Rightarrow> string \<Rightarrow> Entitlement option" where
  "access_get st user = map_of (as_rows st) (access_key user Via_Operator)"

definition grantsOf :: "access_store \<Rightarrow> string \<Rightarrow> Entitlement list" where
  "grantsOf st user = List.map_filter (\<lambda>source. map_of (as_rows st) (access_key user source)) GRANT_SOURCES"

definition written_row :: "MutationInput \<Rightarrow> int \<Rightarrow> RowChange \<Rightarrow> Entitlement" where
  "written_row input at change = \<lparr>e_userId = mi_userId input, e_status = sn_status (rc_next change),
     e_startsAt = sn_startsAt (rc_next change), e_expiresAt = sn_expiresAt (rc_next change),
     e_grantedVia = rc_source change, e_kind = sn_kind (rc_next change), e_planId = sn_planId (rc_next change),
     e_createdAt = (case rc_before change of None \<Rightarrow> at | Some e \<Rightarrow> e_createdAt e), e_updatedAt = at\<rparr>"

definition written_event :: "MutationInput \<Rightarrow> int \<Rightarrow> nat \<Rightarrow> RowChange \<Rightarrow> AccessEvent" where
  "written_event input at n change = \<lparr>ev_eventId = n, ev_userId = mi_userId input,
     ev_source = rc_source change, ev_action = rc_action change, ev_actor = mi_actor input,
     ev_reason = mi_reason input, ev_before = map_option snapshot (rc_before change),
     ev_after = rc_next change, ev_occurredAt = at\<rparr>"

definition write_change :: "MutationInput \<Rightarrow> int \<Rightarrow> RowChange \<Rightarrow> access_store \<Rightarrow> access_store" where
  "write_change input at change st = st\<lparr>
     as_rows := AList.update (access_key (mi_userId input) (rc_source change)) (written_row input at change) (as_rows st),
     as_events := as_events st @ [written_event input at (nextEvent st + 1) change],
     nextEvent := nextEvent st + 1\<rparr>"

definition had_trial :: "access_store \<Rightarrow> string \<Rightarrow> bool" where
  "had_trial st user = list_ex (\<lambda>ev. ev_userId ev = user \<and> sn_kind (ev_after ev) = K_TRIAL) (as_events st)"

text \<open>
  The answer of \<open>mutate\<close> is the list of row changes. The \<open>MutationResult\<close> the source makes of
  it (before, after and event of the row of the caller's source, and the account's rows)
  is a function of that list and the state left behind; the theory of the tables
  builds it field by field.
\<close>

definition mutate :: "string list \<Rightarrow> MutationInput \<Rightarrow> int \<Rightarrow> access_store \<Rightarrow>
    (access_error + RowChange list) \<times> access_store" where
  "mutate directory input at st =
     (if mi_userId input \<notin> set directory then (Inl USER_NOT_FOUND, st)
      else (case planAccountMutation (grantsOf st (mi_userId input)) input at (had_trial st (mi_userId input)) of
          Inl e \<Rightarrow> (Inl e, st)
        | Inr changes \<Rightarrow> (Inr changes, fold (write_change input at) changes st)))"

text \<open>\<open>slice(-limit).reverse()\<close>; \<open>slice(-0)\<close> is everything.\<close>

definition access_events :: "access_store \<Rightarrow> string \<Rightarrow> nat \<Rightarrow> AccessEvent list" where
  "access_events st user limit =
     (let evs = filter (\<lambda>ev. ev_userId ev = user) (as_events st)
      in rev (if limit = 0 then evs else drop (length evs - limit) evs))"

section \<open>Enforcement\<close>

datatype AccessPolicy = Policy_Open | Policy_Entitlement

datatype AccessDecision =
    Allowed_Open "int option"
  | Allowed_Entitlement "Plan option" "int option"
  | Not_Active AccessState
  | Lab_Not_In_Plan string string
  | Plan_Unavailable string

record LabContext =
  lc_track :: "string option"
  lc_labId :: "string option"

record AccessControl =
  ac_policy :: AccessPolicy
  ac_plans :: PlanCatalog
  deploymentSessionLimit :: "int option"

definition context_track :: "(string \<Rightarrow> string option) \<Rightarrow> LabContext \<Rightarrow> string option" where
  "context_track trackOfLab lab = (case lc_track lab of
       Some t \<Rightarrow> Some t
     | None \<Rightarrow> (case lc_labId lab of Some i \<Rightarrow> trackOfLab i | None \<Rightarrow> None))"

definition decide ::
    "AccessControl \<Rightarrow> (string \<Rightarrow> string option) \<Rightarrow> Entitlement list \<Rightarrow> int \<Rightarrow> LabContext \<Rightarrow> AccessDecision" where
  "decide ac trackOfLab grants now lab =
     (if ac_policy ac = Policy_Open then Allowed_Open (deploymentSessionLimit ac)
      else (case evaluateAccount grants now of
          (state, active, effective) \<Rightarrow>
            if \<not> active then Not_Active state
            else (case (case effective of None \<Rightarrow> None | Some e \<Rightarrow> e_planId e) of
                Some pid \<Rightarrow>
                  (case plan_get (ac_plans ac) pid of
                     None \<Rightarrow> Plan_Unavailable pid
                   | Some plan \<Rightarrow>
                       (case context_track trackOfLab lab of
                          Some track \<Rightarrow>
                            if \<not> planIncludesTrack (Some plan) (Some track)
                            then Lab_Not_In_Plan (plan_id plan) track
                            else Allowed_Entitlement (Some plan) (effectiveSessionLimit (deploymentSessionLimit ac) (Some plan))
                        | None \<Rightarrow>
                            Allowed_Entitlement (Some plan) (effectiveSessionLimit (deploymentSessionLimit ac) (Some plan))))
              | None \<Rightarrow> Allowed_Entitlement None (effectiveSessionLimit (deploymentSessionLimit ac) None))))"

definition LAB_USE_ACTIONS :: "string list" where
  "LAB_USE_ACTIONS = [''session:start'', ''session:terminal'', ''session:check'', ''session:reset'',
     ''session:hint'', ''session:activity'']"

definition requiresLabAccess :: "string \<Rightarrow> bool" where
  "requiresLabAccess action \<longleftrightarrow> action \<in> set LAB_USE_ACTIONS"

fun refusal_code :: "AccessDecision \<Rightarrow> string option" where
  "refusal_code (Not_Active _) = Some ''ACCESS_NOT_ACTIVE''"
| "refusal_code (Lab_Not_In_Plan _ _) = Some ''LAB_NOT_IN_PLAN''"
| "refusal_code (Plan_Unavailable _) = Some ''ACCESS_PLAN_UNAVAILABLE''"
| "refusal_code _ = None"

section \<open>Decisions\<close>

lemma evaluateAccess_active:
  "snd (evaluateAccess (Some e) now) \<longleftrightarrow> e_status e = E_ACTIVE \<and> e_startsAt e \<le> now \<and>
     (case e_expiresAt e of None \<Rightarrow> True | Some t \<Rightarrow> now < t)"
  by (cases "e_status e") (auto simp: evaluateAccess_def split: option.splits)

lemma answers_before_total: "answers_before a b \<or> answers_before b a"
  by (auto simp: answers_before_def ends_later_def split: option.splits)

lemma answers_before_trans: "answers_before a b \<Longrightarrow> answers_before b c \<Longrightarrow> answers_before a c"
  by (auto simp: answers_before_def ends_later_def split: option.splits)

lemma evaluateAccount_active:
  assumes "evaluateAccount grants now = (state, True, effective)"
  shows "state = S_ACTIVE \<and> (\<forall>g\<in>set grants. e_status g \<noteq> E_SUSPENDED) \<and>
     (\<exists>g. effective = Some g \<and> g \<in> set grants \<and> snd (evaluateAccess (Some g) now) \<and>
        (\<forall>h\<in>set grants. snd (evaluateAccess (Some h) now) \<longrightarrow> answers_before g h))"
proof -
  let ?act = "filter (\<lambda>g. snd (evaluateAccess (Some g) now)) grants"
  have none: "find (\<lambda>g. e_status g = E_SUSPENDED) grants = None"
    using assms by (auto simp: evaluateAccount_def split: option.splits if_splits)
  then have sus: "\<forall>g\<in>set grants. e_status g \<noteq> E_SUSPENDED" by (auto simp: find_None_iff)
  have ne: "?act \<noteq> []"
  proof
    assume e: "?act = []"
    then have "\<not> snd (evaluateAccess (Some (hd (sort_by (\<lambda>a b. e_updatedAt b \<le> e_updatedAt a) grants))) now)"
      if "grants \<noteq> []"
    proof -
      have "hd (sort_by (\<lambda>a b. e_updatedAt b \<le> e_updatedAt a) grants) \<in> set grants"
        by (rule hd_sort_by [THEN conjunct1, OF that]) auto
      with e show ?thesis by (simp add: filter_empty_conv)
    qed
    with assms none e show False
      by (auto simp: evaluateAccount_def Let_def case_prod_beta split: if_splits)
  qed
  then have eff: "state = S_ACTIVE" "effective = Some (hd (sort_by answers_before ?act))"
    using assms none by (auto simp: evaluateAccount_def Let_def split: if_splits)
  from hd_sort_by [OF ne answers_before_total answers_before_trans] have
    "hd (sort_by answers_before ?act) \<in> set ?act \<and> (\<forall>h\<in>set ?act. answers_before (hd (sort_by answers_before ?act)) h)" .
  with eff sus show ?thesis by auto
qed

text \<open>
  C21. Lab use is allowed only on standing access. Under the entitlement policy an
  allowing decision means that no row of the account is suspended, some row is
  \<open>ACTIVE\<close> with its window open at this instant, and the row that answers is the best
  of those; that its plan, if it names one, is still configured and includes the
  lab's track; and that the session limit never exceeds the deployment's.
\<close>

theorem decide_allows_only_standing_access:
  assumes "ac_policy ac = Policy_Entitlement" and "catalog_wf (ac_plans ac)"
    and "decide ac trackOfLab grants now lab = Allowed_Entitlement plan limit"
  shows "(\<forall>g\<in>set grants. e_status g \<noteq> E_SUSPENDED) \<and>
     (\<exists>g\<in>set grants. e_status g = E_ACTIVE \<and> e_startsAt g \<le> now \<and>
        (case e_expiresAt g of None \<Rightarrow> True | Some t \<Rightarrow> now < t) \<and>
        (\<forall>h\<in>set grants. snd (evaluateAccess (Some h) now) \<longrightarrow> answers_before g h) \<and>
        map_option plan_id plan = e_planId g \<and> set_option plan \<subseteq> set (ac_plans ac)) \<and>
     (context_track trackOfLab lab \<noteq> None \<longrightarrow> planIncludesTrack plan (context_track trackOfLab lab)) \<and>
     (\<forall>d. deploymentSessionLimit ac = Some d \<longrightarrow> (\<exists>l\<le>d. limit = Some l))"
proof -
  obtain state active effective where ev: "evaluateAccount grants now = (state, active, effective)"
    by (cases "evaluateAccount grants now") auto
  with assms(1,3) have active: "active" by (auto simp: decide_def split: if_splits)
  from ev active have "evaluateAccount grants now = (state, True, effective)" by simp
  from evaluateAccount_active [OF this] obtain g where
      sus: "\<forall>g\<in>set grants. e_status g \<noteq> E_SUSPENDED" and g: "effective = Some g" "g \<in> set grants"
        "snd (evaluateAccess (Some g) now)"
        "\<forall>h\<in>set grants. snd (evaluateAccess (Some h) now) \<longrightarrow> answers_before g h" by blast
  have plan: "map_option plan_id plan = e_planId g" "set_option plan \<subseteq> set (ac_plans ac)"
    using assms ev active g(1)
    by (auto simp: decide_def plan_get_Some split: option.splits if_splits)
  have track: "planIncludesTrack plan (context_track trackOfLab lab)" if "context_track trackOfLab lab \<noteq> None"
    using assms(1,3) ev active that by (auto simp: decide_def planIncludesTrack_def [of None] split: option.splits if_splits)
  have limit: "limit = effectiveSessionLimit (deploymentSessionLimit ac) plan"
    using assms(1,3) ev active by (auto simp: decide_def split: option.splits if_splits)
  have "\<exists>l\<le>d. limit = Some l" if "deploymentSessionLimit ac = Some d" for d
    using that unfolding limit by (auto simp: effectiveSessionLimit_def Let_def split: option.splits)
  with sus g plan track show ?thesis unfolding evaluateAccess_active by blast
qed

text \<open>A student on a subscription, under a configured plan.\<close>

definition demo_plan :: Plan where
  "demo_plan = \<lparr>plan_id = ''linux'', plan_name = ''Linux only'', plan_description = None,
     plan_tracks = Some_Tracks [''linux''], maxConcurrentSessions = Some 5\<rparr>"

definition demo_grant :: Entitlement where
  "demo_grant = \<lparr>e_userId = ''usr-00000001'', e_status = E_ACTIVE, e_startsAt = 100, e_expiresAt = Some 900,
     e_grantedVia = Via_Billing, e_kind = K_SUBSCRIPTION, e_planId = Some ''linux'', e_createdAt = 100, e_updatedAt = 100\<rparr>"

definition demo_control :: AccessControl where
  "demo_control = \<lparr>ac_policy = Policy_Entitlement, ac_plans = [demo_plan], deploymentSessionLimit = Some 2\<rparr>"

definition demo_context :: LabContext where
  "demo_context = \<lparr>lc_track = None, lc_labId = Some ''LINUX-001''\<rparr>"

theorem decide_allows_only_standing_access_witness:
  "decide demo_control (\<lambda>_. Some ''linux'') [demo_grant] 500 demo_context =
     Allowed_Entitlement (Some demo_plan) (Some 2) \<and>
   planIncludesTrack (Some demo_plan) (Some ''linux'') \<and> (\<exists>l\<le>2. Some (2 :: int) = Some l)"
proof -
  have d: "decide demo_control (\<lambda>_. Some ''linux'') [demo_grant] 500 demo_context =
     Allowed_Entitlement (Some demo_plan) (Some 2)" by code_simp
  have wf: "catalog_wf (ac_plans demo_control)" by code_simp
  have p: "ac_policy demo_control = Policy_Entitlement" by (simp add: demo_control_def)
  have c: "context_track (\<lambda>_. Some ''linux'') demo_context = Some ''linux''"
    by (simp add: context_track_def demo_context_def)
  from decide_allows_only_standing_access [OF p wf d] d c show ?thesis by (simp add: demo_control_def)
qed

section \<open>The account invariant\<close>

lemma access_key_inj: "access_key u s = access_key v t \<longleftrightarrow> u = v \<and> s = t"
proof -
  have "last (access_key u s) = (case s of Via_Operator \<Rightarrow> CHR ''r'' | Via_Billing \<Rightarrow> CHR ''g'')" for u s
    by (cases s) (simp_all add: access_key_def)
  then have "s = t" if "access_key u s = access_key v t"
    using arg_cong [OF that, of last] by (cases s; cases t) simp_all
  then show ?thesis by (auto simp: access_key_def)
qed

definition row :: "access_store \<Rightarrow> string \<Rightarrow> GrantedVia \<Rightarrow> Entitlement option" where
  "row st u s = map_of (as_rows st) (access_key u s)"

definition two_rows :: "(GrantedVia \<Rightarrow> Entitlement option) \<Rightarrow> Entitlement list" where
  "two_rows f = (case f Via_Operator of None \<Rightarrow> [] | Some o1 \<Rightarrow> [o1]) @
     (case f Via_Billing of None \<Rightarrow> [] | Some b \<Rightarrow> [b])"

lemma grantsOf_rows: "grantsOf st u = two_rows (row st u)"
  by (simp add: grantsOf_def two_rows_def row_def GRANT_SOURCES_def map_filter_def split: option.splits)

text \<open>
  An account in order: rows carry their source, every window ends after it starts, and
  suspension is account-wide (no row is active while another is suspended).
\<close>

definition window_ok :: "int \<Rightarrow> int option \<Rightarrow> bool" where
  "window_ok s e = (case e of None \<Rightarrow> True | Some t \<Rightarrow> s < t)"

definition account_ok :: "(GrantedVia \<Rightarrow> Entitlement option) \<Rightarrow> bool" where
  "account_ok f \<longleftrightarrow> (\<forall>s e. f s = Some e \<longrightarrow> e_grantedVia e = s \<and> window_ok (e_startsAt e) (e_expiresAt e)) \<and>
     (\<forall>s t d e. f s = Some d \<and> f t = Some e \<and> e_status d = E_SUSPENDED \<longrightarrow> e_status e \<noteq> E_ACTIVE)"

definition apply_changes ::
    "MutationInput \<Rightarrow> int \<Rightarrow> RowChange list \<Rightarrow> (GrantedVia \<Rightarrow> Entitlement option) \<Rightarrow> GrantedVia \<Rightarrow> Entitlement option" where
  "apply_changes input at cs f s = (case find (\<lambda>c. rc_source c = s) cs of
       Some c \<Rightarrow> Some (written_row input at c)
     | None \<Rightarrow> f s)"

definition changes_ok :: "(GrantedVia \<Rightarrow> Entitlement option) \<Rightarrow> RowChange list \<Rightarrow> bool" where
  "changes_ok f cs \<longleftrightarrow> distinct (map rc_source cs) \<and> (\<forall>c\<in>set cs. rc_before c = f (rc_source c))"

lemma two_rows_bySource:
  assumes "account_ok f"
  shows "bySource (two_rows f) s = f s"
  using assms by (cases s) (auto simp: two_rows_def bySource_def account_ok_def split: option.splits)

lemma in_two_rows: "account_ok f \<Longrightarrow> e \<in> set (two_rows f) \<longleftrightarrow> f (e_grantedVia e) = Some e"
  by (cases "e_grantedVia e") (auto simp: two_rows_def account_ok_def split: option.splits)

lemma distinct_two_rows: "account_ok f \<Longrightarrow> distinct (map e_grantedVia (two_rows f))"
  by (auto simp: two_rows_def account_ok_def split: option.splits)

definition input_ok :: "MutationInput \<Rightarrow> bool" where
  "input_ok input \<longleftrightarrow> (\<forall>t. mi_trial input = Some t \<longrightarrow> 1 \<le> tr_durationDays t)"

lemma account_ok_one:
  assumes "account_ok f" "rc_source c = s" "window_ok (sn_startsAt (rc_next c)) (sn_expiresAt (rc_next c))"
    and "sn_status (rc_next c) = E_ACTIVE \<Longrightarrow> (\<forall>t e. t \<noteq> s \<and> f t = Some e \<longrightarrow> e_status e \<noteq> E_SUSPENDED)"
    and "sn_status (rc_next c) = E_SUSPENDED \<Longrightarrow> (\<forall>t e. t \<noteq> s \<and> f t = Some e \<longrightarrow> e_status e \<noteq> E_ACTIVE)"
  shows "account_ok (apply_changes input at [c] f)"
  using assms unfolding account_ok_def apply_changes_def
  by (auto simp: written_row_def split: if_splits) metis+

lemma plan_sync_ok:
  assumes "account_ok f" "plan_sync (two_rows f) sync now = Inr cs"
  shows "changes_ok f cs \<and> account_ok (apply_changes input at cs f) \<and> (\<forall>c\<in>set cs. rc_action c = SYNC)"
proof (cases cs)
  case Nil
  with assms(1) show ?thesis by (simp add: changes_ok_def apply_changes_def [abs_def])
next
  case (Cons c cs')
  have bs: "bySource (two_rows f) Via_Billing = f Via_Billing" by (rule two_rows_bySource [OF assms(1)])
  from assms(2) Cons have cs': "cs' = []" and c: "rc_source c = Via_Billing" "rc_before c = f Via_Billing" "rc_action c = SYNC"
      and w: "sy_startsAt sync < sy_expiresAt sync"
    by (auto simp: plan_sync_def Let_def bs split: if_splits option.splits)
  have "account_ok (apply_changes input at [c] f)"
  proof (cases "sy_active sync")
    case True
    have n: "rc_next c = \<lparr>sn_status = (if list_ex (\<lambda>row. e_status row = E_SUSPENDED) (two_rows f) then E_SUSPENDED else E_ACTIVE),
        sn_startsAt = sy_startsAt sync, sn_expiresAt = Some (sy_expiresAt sync),
        sn_kind = sy_kind sync, sn_planId = sy_planId sync\<rparr>"
      using assms(2) Cons True by (auto simp: plan_sync_def Let_def split: if_splits)
    have sus: "list_ex (\<lambda>row. e_status row = E_SUSPENDED) (two_rows f) \<longleftrightarrow>
        (\<exists>s e. f s = Some e \<and> e_status e = E_SUSPENDED)"
      using in_two_rows [OF assms(1)] assms(1) by (fastforce simp: list_ex_iff account_ok_def)
    show ?thesis
      by (rule account_ok_one [OF assms(1) c(1)])
        (use w assms(1) sus in \<open>auto simp: n window_ok_def account_ok_def split: if_splits\<close>)
  next
    case False
    then obtain e where e: "f Via_Billing = Some e" and n: "rc_next c = closed_window e sync now"
      using assms(2) Cons by (auto simp: plan_sync_def Let_def bs split: if_splits option.splits)
    show ?thesis
      by (rule account_ok_one [OF assms(1) c(1)])
        (use e assms(1) in \<open>auto simp: n closed_window_def window_ok_def Let_def account_ok_def\<close>)
  qed
  with Cons cs' c show ?thesis by (simp add: changes_ok_def)
qed

lemma find_member: "find P xs = Some x \<Longrightarrow> x \<in> set xs \<and> P x"
  by (metis find_Some_iff nth_mem)

lemma of_plan_ok:
  assumes "account_ok f" "of_plan Via_Operator (f Via_Operator) plan = Inr cs"
    and "\<And>action nxt. plan = Inr (Write action nxt) \<Longrightarrow> window_ok (sn_startsAt nxt) (sn_expiresAt nxt) \<and>
       sn_status nxt \<noteq> E_SUSPENDED \<and> P action \<and>
       (sn_status nxt = E_ACTIVE \<longrightarrow> (\<forall>e. f Via_Billing = Some e \<longrightarrow> e_status e \<noteq> E_SUSPENDED))"
  shows "changes_ok f cs \<and> account_ok (apply_changes input at cs f) \<and> (\<forall>c\<in>set cs. P (rc_action c)) \<and> length cs \<le> 1"
proof (cases cs)
  case Nil
  with assms(1) show ?thesis by (simp add: changes_ok_def apply_changes_def [abs_def])
next
  case (Cons c cs')
  with assms(2) obtain action nxt where plan: "plan = Inr (Write action nxt)" and cs: "cs' = []"
      and c: "c = \<lparr>rc_source = Via_Operator, rc_before = f Via_Operator, rc_action = action, rc_next = nxt\<rparr>"
    by (auto simp: of_plan_def split: sum.splits MutationPlan.splits)
  note nxt = assms(3) [OF plan]
  have other: "t \<noteq> Via_Operator \<longleftrightarrow> t = Via_Billing" for t by (cases t) simp_all
  have "account_ok (apply_changes input at [c] f)"
    by (rule account_ok_one [OF assms(1), where s = Via_Operator]) (use nxt c other in auto)
  with nxt Cons cs c show ?thesis by (simp add: changes_ok_def)
qed

lemma suspended_elsewhere:
  assumes "account_ok f" "\<not> list_ex (\<lambda>row. e_grantedVia row \<noteq> Via_Operator)
      (filter (\<lambda>row. e_status row = E_SUSPENDED) (two_rows f))"
  shows "\<forall>e. f Via_Billing = Some e \<longrightarrow> e_status e \<noteq> E_SUSPENDED"
proof (intro allI impI notI)
  fix e
  assume e: "f Via_Billing = Some e" "e_status e = E_SUSPENDED"
  then have "e_grantedVia e = Via_Billing" using assms(1) by (auto simp: account_ok_def)
  then have "e \<in> set (two_rows f)" using in_two_rows [OF assms(1), of e] e(1) by simp
  with e(2) \<open>e_grantedVia e = Via_Billing\<close> assms(2) show False by (auto simp: list_ex_iff)
qed

lemma status_changes_ok:
  assumes "account_ok f" and "\<And>e. Q e \<longleftrightarrow> e_status e = old" and "old \<noteq> s"
    and "\<And>e. e \<in> set (two_rows f) \<Longrightarrow> e_status e \<in> {old, s} \<union> {E_REVOKED}"
    and "s \<in> {E_ACTIVE, E_SUSPENDED}" "old \<in> {E_ACTIVE, E_SUSPENDED}"
  shows "changes_ok f (map (set_status action s) (filter Q (two_rows f))) \<and>
     account_ok (apply_changes input at (map (set_status action s) (filter Q (two_rows f))) f)"
proof
  let ?cs = "map (set_status action s) (filter Q (two_rows f))"
  have src: "map rc_source ?cs = map e_grantedVia (filter Q (two_rows f))" by (simp add: set_status_def comp_def)
  show "changes_ok f ?cs"
    unfolding changes_ok_def src
    using distinct_two_rows [OF assms(1)] in_two_rows [OF assms(1)]
    by (auto simp: distinct_map_filter set_status_def)
  have app: "apply_changes input at ?cs f t = (case f t of None \<Rightarrow> None
      | Some e \<Rightarrow> if e_status e = old then Some (written_row input at (set_status action s e)) else Some e)" for t
  proof (cases "find (\<lambda>c. rc_source c = t) ?cs")
    case (Some c)
    then have "c \<in> set ?cs" "rc_source c = t" by (auto dest: find_member)
    then obtain e where "e \<in> set (two_rows f)" "Q e" "c = set_status action s e" "rc_source c = t" by auto
    then show ?thesis using Some in_two_rows [OF assms(1), of e] assms(2)
      by (simp add: apply_changes_def set_status_def)
  next
    case None
    then have "e_grantedVia e \<noteq> t" if "e \<in> set (two_rows f)" "Q e" for e
      using that by (auto simp: find_None_iff set_status_def)
    then have "e_status e \<noteq> old" if "f t = Some e" for e
      using that in_two_rows [OF assms(1), of e] assms(1,2) by (auto simp: account_ok_def)
    then show ?thesis using None by (simp add: apply_changes_def split: option.splits)
  qed
  have st: "e_status e \<in> {old, s} \<union> {E_REVOKED}" if "f t = Some e" for t e
  proof -
    have "e_grantedVia e = t" using assms(1) that by (simp add: account_ok_def)
    then have "e \<in> set (two_rows f)" using in_two_rows [OF assms(1), of e] that by simp
    then show ?thesis by (rule assms(4))
  qed
  have new: "\<exists>d. f t = Some d \<and> (e_status e = s \<or> e_status e = E_REVOKED) \<and> e_grantedVia e = t \<and>
      window_ok (e_startsAt e) (e_expiresAt e)"
    if "apply_changes input at ?cs f t = Some e" for t e
    using that st [of t] assms(1) unfolding app
    by (auto simp: account_ok_def written_row_def set_status_def snapshot_def split: option.splits if_splits)
  show "account_ok (apply_changes input at ?cs f)"
    unfolding account_ok_def using new assms(5) by fastforce
qed

lemma plan_trial_write:
  assumes "plan_trial cur now trial hadTrial = Inr (Write action nxt)" "\<forall>t. trial = Some t \<longrightarrow> 1 \<le> tr_durationDays t"
  shows "window_ok (sn_startsAt nxt) (sn_expiresAt nxt) \<and> sn_status nxt = E_ACTIVE \<and> action = TRIAL \<and>
     \<not> hadTrial \<and> sn_kind nxt = K_TRIAL"
  using assms by (auto simp: plan_trial_def window_ok_def split: option.splits if_splits)

lemma plan_grant_write:
  assumes "plan_grant cur now grant = Inr (Write action nxt)"
  shows "window_ok (sn_startsAt nxt) (sn_expiresAt nxt) \<and> sn_status nxt = E_ACTIVE \<and> action = GRANT"
proof -
  from assms obtain g where g: "grant = Some g" by (auto simp: plan_grant_def split: option.splits)
  from assms show ?thesis unfolding plan_grant_def g Let_def
    by (auto simp: window_ok_def not_le split: if_splits option.splits)
qed

text \<open>What a planned mutation does to an account in order.\<close>

definition plan_ok ::
    "(GrantedVia \<Rightarrow> Entitlement option) \<Rightarrow> MutationInput \<Rightarrow> int \<Rightarrow> bool \<Rightarrow> RowChange list \<Rightarrow> bool" where
  "plan_ok f input at hadTrial cs \<longleftrightarrow> changes_ok f cs \<and> account_ok (apply_changes input at cs f) \<and>
     (\<forall>c\<in>set cs. rc_action c = TRIAL \<longrightarrow> \<not> hadTrial \<and> sn_kind (rc_next c) = K_TRIAL \<and> cs = [c])"

lemma of_plan_single: "of_plan s cur plan = Inr cs \<Longrightarrow> c \<in> set cs \<Longrightarrow>
    cs = [c] \<and> plan = Inr (Write (rc_action c) (rc_next c))"
  by (auto simp: of_plan_def split: sum.splits MutationPlan.splits)

lemma plan_ok_of_plan:
  assumes "account_ok f" "of_plan Via_Operator (f Via_Operator) plan = Inr cs"
    and "\<And>action nxt. plan = Inr (Write action nxt) \<Longrightarrow> window_ok (sn_startsAt nxt) (sn_expiresAt nxt) \<and>
       sn_status nxt \<noteq> E_SUSPENDED \<and> (action = TRIAL \<longrightarrow> \<not> hadTrial \<and> sn_kind nxt = K_TRIAL) \<and>
       (sn_status nxt = E_ACTIVE \<longrightarrow> (\<forall>e. f Via_Billing = Some e \<longrightarrow> e_status e \<noteq> E_SUSPENDED))"
  shows "plan_ok f input at hadTrial cs"
proof -
  have "changes_ok f cs \<and> account_ok (apply_changes input at cs f) \<and> (\<forall>c\<in>set cs. True) \<and> length cs \<le> 1"
    by (rule of_plan_ok [OF assms(1,2), where P = "\<lambda>_. True"]) (use assms(3) in blast)
  moreover have "rc_action c = TRIAL \<longrightarrow> \<not> hadTrial \<and> sn_kind (rc_next c) = K_TRIAL \<and> cs = [c]" if "c \<in> set cs" for c
    using of_plan_single [OF assms(2) that] assms(3) by blast
  ultimately show ?thesis by (simp add: plan_ok_def)
qed

lemma plan_account_ok:
  assumes ok: "account_ok f" and inp: "input_ok input"
    and plan: "planAccountMutation (two_rows f) input now hadTrial = Inr cs"
  shows "plan_ok f input at hadTrial cs"
proof -
  have cur: "bySource (two_rows f) Via_Operator = f Via_Operator" by (rule two_rows_bySource [OF ok])
  note plan' = plan [unfolded planAccountMutation_def Let_def cur]
  have nil: "plan_ok f input at hadTrial []"
    using ok by (simp add: plan_ok_def changes_ok_def apply_changes_def [abs_def])
  have src: "mi_source input = Some Via_Billing" if "mi_action input = SYNC"
    using plan' that by (auto split: if_splits option.splits)
  show ?thesis
  proof (cases "mi_action input")
    case SYNC
    with plan' src obtain sync where "plan_sync (two_rows f) sync now = Inr cs"
      by (auto split: if_splits option.splits)
    from plan_sync_ok [OF ok this, of input at] show ?thesis by (auto simp: plan_ok_def)
  next
    case GRANT
    with plan' have ne: "\<not> list_ex (\<lambda>row. e_grantedVia row \<noteq> Via_Operator)
          (filter (\<lambda>row. e_status row = E_SUSPENDED) (two_rows f))"
        and o: "of_plan Via_Operator (f Via_Operator) (plan_grant (f Via_Operator) now (mi_grant input)) = Inr cs"
      by (auto split: if_splits)
    note els = suspended_elsewhere [OF ok ne]
    show ?thesis by (rule plan_ok_of_plan [OF ok o]) (use els in \<open>auto dest: plan_grant_write\<close>)
  next
    case TRIAL
    with plan' have ne: "\<not> list_ex (\<lambda>row. e_grantedVia row \<noteq> Via_Operator)
          (filter (\<lambda>row. e_status row = E_SUSPENDED) (two_rows f))"
        and o: "of_plan Via_Operator (f Via_Operator) (plan_trial (f Via_Operator) now (mi_trial input) hadTrial) = Inr cs"
      by (auto split: if_splits)
    note els = suspended_elsewhere [OF ok ne]
    show ?thesis
      by (rule plan_ok_of_plan [OF ok o])
        (use els inp in \<open>auto simp: input_ok_def dest: plan_trial_write\<close>)
  next
    case REVOKE
    with plan' have o: "of_plan Via_Operator (f Via_Operator)
        (planMutation (f Via_Operator) REVOKE now None None False) = Inr cs" by (auto split: if_splits)
    show ?thesis
      by (rule plan_ok_of_plan [OF ok o])
        (use ok in \<open>auto simp: snapshot_def account_ok_def split: option.splits if_splits\<close>)
  next
    case SUSPEND
    let ?Q = "\<lambda>row. e_status row = E_ACTIVE"
    from SUSPEND plan' nil consider "cs = []" | "cs = map (set_status SUSPEND E_SUSPENDED) (filter ?Q (two_rows f))"
      by (auto split: if_splits)
    then show ?thesis
    proof cases
      case 2
      have "changes_ok f cs \<and> account_ok (apply_changes input at cs f)"
        unfolding 2 by (rule status_changes_ok [OF ok, where old = E_ACTIVE]) (auto intro: EntitlementStatus.exhaust)
      with 2 show ?thesis by (auto simp: plan_ok_def set_status_def)
    qed (use nil in simp)
  next
    case RESTORE
    let ?Q = "\<lambda>row. e_status row = E_SUSPENDED"
    from RESTORE plan' nil consider "cs = []" | "cs = map (set_status RESTORE E_ACTIVE) (filter ?Q (two_rows f))"
      by (auto split: if_splits)
    then show ?thesis
    proof cases
      case 2
      have "changes_ok f cs \<and> account_ok (apply_changes input at cs f)"
        unfolding 2 by (rule status_changes_ok [OF ok, where old = E_SUSPENDED]) (auto intro: EntitlementStatus.exhaust)
      with 2 show ?thesis by (auto simp: plan_ok_def set_status_def)
    qed (use nil in simp)
  qed
qed

section \<open>The store and its audit trail\<close>

text \<open>What the last event of a row says the row is.\<close>

definition last_after :: "AccessEvent list \<Rightarrow> string \<Rightarrow> GrantedVia \<Rightarrow> EntitlementSnapshot option" where
  "last_after evs u s = (let xs = filter (\<lambda>ev. ev_userId ev = u \<and> ev_source ev = s) evs
     in if xs = [] then None else Some (ev_after (last xs)))"

definition audit_ok :: "access_store \<Rightarrow> bool" where
  "audit_ok st \<longleftrightarrow> nextEvent st = length (as_events st) \<and>
     (\<forall>u s. map_option snapshot (row st u s) = last_after (as_events st) u s) \<and>
     (\<forall>i<length (as_events st). ev_eventId (as_events st ! i) = i + 1 \<and>
        ev_before (as_events st ! i) =
          last_after (take i (as_events st)) (ev_userId (as_events st ! i)) (ev_source (as_events st ! i)))"

lemma last_after_snoc:
  "last_after (evs @ [ev]) u s = (if ev_userId ev = u \<and> ev_source ev = s then Some (ev_after ev) else last_after evs u s)"
  by (simp add: last_after_def)

lemma row_write:
  "row (write_change input at c st) u s =
     (if u = mi_userId input \<and> s = rc_source c then Some (written_row input at c) else row st u s)"
  by (auto simp: row_def write_change_def access_key_inj)

lemma snapshot_written: "snapshot (written_row input at c) = rc_next c"
  by (simp add: snapshot_def written_row_def)

lemma written_event_fields [simp]:
  "ev_userId (written_event input at n c) = mi_userId input" "ev_source (written_event input at n c) = rc_source c"
  "ev_after (written_event input at n c) = rc_next c" "ev_action (written_event input at n c) = rc_action c"
  "ev_before (written_event input at n c) = map_option snapshot (rc_before c)"
  "ev_eventId (written_event input at n c) = n"
  by (simp_all add: written_event_def)

lemma audit_write:
  assumes "audit_ok st" "row st (mi_userId input) (rc_source c) = rc_before c"
  shows "audit_ok (write_change input at c st)"
proof -
  let ?ev = "written_event input at (nextEvent st + 1) c"
  have evs: "as_events (write_change input at c st) = as_events st @ [?ev]" by (simp add: write_change_def)
  have rows: "map_option snapshot (row (write_change input at c st) u s) = last_after (as_events st @ [?ev]) u s" for u s
    using assms(1) by (auto simp: row_write last_after_snoc snapshot_written audit_ok_def)
  have bef: "ev_before ?ev = last_after (as_events st) (mi_userId input) (rc_source c)"
    using assms by (metis audit_ok_def written_event_fields(5))
  show ?thesis unfolding audit_ok_def evs
    using assms(1) rows bef by (auto simp: audit_ok_def nth_append less_Suc_eq write_change_def)
qed

lemma fold_write:
  assumes "changes_ok (row st (mi_userId input)) cs" "audit_ok st"
  shows "audit_ok (fold (write_change input at) cs st) \<and>
     (\<forall>u s. row (fold (write_change input at) cs st) u s =
        (if u = mi_userId input then apply_changes input at cs (row st u) s else row st u s)) \<and>
     (\<exists>evs. as_events (fold (write_change input at) cs st) = as_events st @ evs \<and>
        map (\<lambda>ev. (ev_userId ev, ev_action ev, ev_after ev)) evs = map (\<lambda>c. (mi_userId input, rc_action c, rc_next c)) cs)"
  using assms
proof (induction cs arbitrary: st)
  case Nil
  then show ?case by (simp add: apply_changes_def)
next
  case (Cons c cs)
  let ?st = "write_change input at c st"
  have ok: "changes_ok (row ?st (mi_userId input)) cs"
    using Cons.prems(1) by (auto simp: changes_ok_def row_write image_iff)
  have au: "audit_ok ?st" using Cons.prems by (intro audit_write) (auto simp: changes_ok_def)
  have ev: "as_events ?st = as_events st @ [written_event input at (nextEvent st + 1) c]" by (simp add: write_change_def)
  have notin: "find (\<lambda>d. rc_source d = rc_source c) cs = None"
    using Cons.prems(1) by (auto simp: changes_ok_def find_None_iff image_iff)
  have app: "apply_changes input at cs (row ?st (mi_userId input)) s =
      apply_changes input at (c # cs) (row st (mi_userId input)) s" for s
    using notin by (auto simp: apply_changes_def row_write split: option.splits)
  from Cons.IH [OF ok au] obtain evs where
      evs: "as_events (fold (write_change input at) cs ?st) = as_events ?st @ evs"
        "map (\<lambda>ev. (ev_userId ev, ev_action ev, ev_after ev)) evs = map (\<lambda>c. (mi_userId input, rc_action c, rc_next c)) cs"
    by blast
  have "\<exists>evs. as_events (fold (write_change input at) (c # cs) st) = as_events st @ evs \<and>
      map (\<lambda>ev. (ev_userId ev, ev_action ev, ev_after ev)) evs =
        map (\<lambda>c. (mi_userId input, rc_action c, rc_next c)) (c # cs)"
    using evs ev by (intro exI [of _ "written_event input at (nextEvent st + 1) c # evs"]) simp
  with Cons.IH [OF ok au] show ?case by (simp add: app row_write)
qed

inductive access_steps :: "access_store \<Rightarrow> bool" where
  start: "access_steps empty_access"
| mutate: "access_steps st \<Longrightarrow> input_ok input \<Longrightarrow> access_steps (snd (mutate directory input at st))"

text \<open>The start of an operator's trial: no earlier event of the account, of either row, left a trial.\<close>

definition trial_is_first :: "AccessEvent list \<Rightarrow> nat \<Rightarrow> bool" where
  "trial_is_first evs i \<longleftrightarrow> sn_kind (ev_after (evs ! i)) = K_TRIAL \<and>
     (\<forall>j<i. ev_userId (evs ! j) = ev_userId (evs ! i) \<longrightarrow> sn_kind (ev_after (evs ! j)) \<noteq> K_TRIAL)"

definition store_ok :: "access_store \<Rightarrow> bool" where
  "store_ok st \<longleftrightarrow> audit_ok st \<and> (\<forall>u. account_ok (row st u)) \<and>
     (\<forall>i<length (as_events st). ev_action (as_events st ! i) = TRIAL \<longrightarrow> trial_is_first (as_events st) i)"

lemma trial_is_first_append: "i < length evs \<Longrightarrow> trial_is_first (evs @ later) i = trial_is_first evs i"
  by (auto simp: trial_is_first_def nth_append)

lemma store_ok_empty: "store_ok empty_access"
  by (simp add: store_ok_def audit_ok_def account_ok_def row_def empty_access_def last_after_def)

lemma store_ok_changes:
  assumes "store_ok st" "plan_ok (row st (mi_userId input)) input at (had_trial st (mi_userId input)) cs"
  shows "store_ok (fold (write_change input at) cs st)"
proof -
  let ?st = "fold (write_change input at) cs st"
  from assms have ch: "changes_ok (row st (mi_userId input)) cs" and au: "audit_ok st"
    by (simp_all add: plan_ok_def store_ok_def)
  from fold_write [OF ch au, of at] obtain evs where
      a: "audit_ok ?st" and r: "\<And>u s. row ?st u s =
        (if u = mi_userId input then apply_changes input at cs (row st u) s else row st u s)"
      and e: "as_events ?st = as_events st @ evs"
        "map (\<lambda>ev. (ev_userId ev, ev_action ev, ev_after ev)) evs = map (\<lambda>c. (mi_userId input, rc_action c, rc_next c)) cs"
    by blast
  have acc: "account_ok (row ?st u)" for u
  proof -
    have "row ?st u = (if u = mi_userId input then apply_changes input at cs (row st u) else row st u)"
      using r by (auto simp: fun_eq_iff)
    with assms show ?thesis by (simp add: plan_ok_def store_ok_def)
  qed
  have evc: "\<exists>c\<in>set cs. ev_userId ev = mi_userId input \<and> ev_action ev = rc_action c \<and> ev_after ev = rc_next c"
    if "ev \<in> set evs" for ev
  proof -
    have "(ev_userId ev, ev_action ev, ev_after ev) \<in> set (map (\<lambda>ev. (ev_userId ev, ev_action ev, ev_after ev)) evs)"
      using that by (simp add: rev_image_eqI)
    then show ?thesis unfolding e(2) by auto
  qed
  have len: "length evs = length cs" using arg_cong [OF e(2), of length] by simp
  have tr: "trial_is_first (as_events ?st) i" if i: "i < length (as_events ?st)" "ev_action (as_events ?st ! i) = TRIAL" for i
  proof (cases "i < length (as_events st)")
    case True
    with i assms(1) show ?thesis by (simp add: e(1) store_ok_def trial_is_first_append nth_append)
  next
    case False
    let ?ev = "as_events ?st ! i"
    have "?ev \<in> set evs" using i(1) False by (simp add: e(1) nth_append)
    from evc [OF this] i(2) obtain c where c: "c \<in> set cs" "rc_action c = TRIAL" "ev_after ?ev = rc_next c"
        and u: "ev_userId ?ev = mi_userId input" by auto
    from assms(2) c have one: "cs = [c]" "sn_kind (rc_next c) = K_TRIAL" "\<not> had_trial st (mi_userId input)"
      by (auto simp: plan_ok_def)
    have "length (as_events ?st) = length (as_events st) + 1" unfolding e(1) using len one(1) by simp
    then have "i = length (as_events st)" using i(1) False by linarith
    then have "sn_kind (ev_after (as_events ?st ! j)) \<noteq> K_TRIAL"
      if "j < i" "ev_userId (as_events ?st ! j) = ev_userId ?ev" for j
      using that one(3) nth_mem [of j "as_events st"] u by (auto simp: e(1) nth_append had_trial_def list_ex_iff)
    then show ?thesis using c(3) one(2) by (simp add: trial_is_first_def)
  qed
  from a acc tr show ?thesis by (simp add: store_ok_def)
qed

lemma store_ok_mutate:
  assumes "store_ok st" "input_ok input"
  shows "store_ok (snd (mutate directory input at st))"
proof (cases "snd (mutate directory input at st) = st")
  case False
  then obtain cs where cs: "planAccountMutation (grantsOf st (mi_userId input)) input at
        (had_trial st (mi_userId input)) = Inr cs"
      and st: "snd (mutate directory input at st) = fold (write_change input at) cs st"
    by (auto simp: mutate_def split: if_splits sum.splits)
  have "account_ok (row st (mi_userId input))" using assms(1) by (simp add: store_ok_def)
  from plan_account_ok [OF this assms(2) cs [unfolded grantsOf_rows], of at]
  show ?thesis unfolding st by (rule store_ok_changes [OF assms(1)])
qed (use assms in simp)

lemma store_ok_steps: "access_steps st \<Longrightarrow> store_ok st"
  by (induction rule: access_steps.induct) (simp_all add: store_ok_empty store_ok_mutate)

text \<open>
  C22. Every account stays in order under any sequence of operator and billing
  mutations: suspension is account-wide (no row is active while another is
  suspended, whatever billing adds), every window ends after it starts, and the audit
  trail is complete: events are numbered without gaps, each one's \<open>before\<close> is the
  previous event's \<open>after\<close> for that row, and the stored row is exactly what its last
  event says.
\<close>

theorem accounts_in_order:
  assumes "access_steps st"
  shows "account_ok (row st u) \<and> audit_ok st"
  using store_ok_steps [OF assms] by (simp add: store_ok_def)

text \<open>
  C23. An operator's trial is the account's first: whatever was granted, suspended,
  restored, revoked or synchronised before, when the audit trail records that an
  operator started a trial, the row then holds a trial and no earlier event of that
  account, whether an operator's or one the billing provider synchronised, had left
  either row a trial. So an operator never starts a second trial, and none after a trial
  through the provider. (The other order is not guarded: see
  \<open>provider_trial_after_operator_trial\<close>.)
\<close>

theorem operator_trial_is_first:
  assumes "access_steps st" "i < length (as_events st)" "ev_action (as_events st ! i) = TRIAL"
  shows "sn_kind (ev_after (as_events st ! i)) = K_TRIAL \<and>
    (\<forall>j<i. ev_userId (as_events st ! j) = ev_userId (as_events st ! i) \<longrightarrow>
       sn_kind (ev_after (as_events st ! j)) \<noteq> K_TRIAL)"
  using store_ok_steps [OF assms(1)] assms(2,3) by (simp add: store_ok_def trial_is_first_def)

text \<open>A trial, its suspension, a subscription bought meanwhile, and a second trial refused.\<close>

definition demo_input :: "AccessAction \<Rightarrow> MutationInput" where
  "demo_input action = \<lparr>mi_userId = ''usr-00000001'', mi_action = action, mi_actor = ''ops'', mi_reason = ''demo'',
     mi_grant = None, mi_trial = Some \<lparr>tr_durationDays = 14, tr_planId = None\<rparr>,
     mi_source = (if action = SYNC then Some Via_Billing else None),
     mi_sync = Some \<lparr>sy_active = True, sy_startsAt = 10, sy_expiresAt = 2000, sy_kind = K_SUBSCRIPTION, sy_planId = None\<rparr>\<rparr>"

definition demo_access :: access_store where
  "demo_access = fold (\<lambda>a st. snd (mutate [''usr-00000001''] (demo_input a) 100 st))
     [TRIAL, SUSPEND, SYNC, REVOKE, TRIAL] empty_access"

lemma demo_access_steps: "access_steps demo_access"
proof -
  have "input_ok (demo_input a)" for a by (simp add: input_ok_def demo_input_def)
  then show ?thesis unfolding demo_access_def by (simp add: access_steps.intros)
qed

theorem accounts_in_order_witness:
  "map_option e_status (row demo_access ''usr-00000001'' Via_Billing) = Some E_SUSPENDED \<and>
   account_ok (row demo_access ''usr-00000001'') \<and> length (as_events demo_access) = 4"
proof -
  have "map_option e_status (row demo_access ''usr-00000001'' Via_Billing) = Some E_SUSPENDED" by code_simp
  moreover have "length (as_events demo_access) = 4" by code_simp
  ultimately show ?thesis using accounts_in_order [OF demo_access_steps] by blast
qed

text \<open>
  Two accounts: one is given a trial and asks for a second after it was revoked; the
  other has a trial through the provider and asks for one from the operator.
\<close>

definition demo_trial_of :: "string \<Rightarrow> AccessAction \<Rightarrow> MutationInput" where
  "demo_trial_of user action = (demo_input action)\<lparr>mi_userId := user,
     mi_sync := Some \<lparr>sy_active = True, sy_startsAt = 10, sy_expiresAt = 2000, sy_kind = K_TRIAL, sy_planId = None\<rparr>\<rparr>"

definition demo_trials :: "(string \<times> AccessAction) list \<Rightarrow> access_store" where
  "demo_trials calls = fold (\<lambda>(u, a) st. snd (mutate [''usr-00000001'', ''usr-00000002''] (demo_trial_of u a) 100 st))
     calls empty_access"

lemma demo_trials_steps: "access_steps (demo_trials calls)"
proof -
  have "input_ok (demo_trial_of u a)" for u a by (simp add: input_ok_def demo_trial_of_def demo_input_def)
  then have "access_steps st \<Longrightarrow> access_steps (fold (\<lambda>(u, a) st. snd (mutate [''usr-00000001'', ''usr-00000002'']
      (demo_trial_of u a) 100 st)) calls st)" for st
    by (induction calls arbitrary: st) (auto intro!: access_steps.mutate)
  then show ?thesis unfolding demo_trials_def by (simp add: access_steps.start)
qed

definition demo_two_accounts :: access_store where
  "demo_two_accounts = demo_trials [(''usr-00000002'', SYNC), (''usr-00000001'', TRIAL), (''usr-00000001'', REVOKE),
     (''usr-00000001'', TRIAL), (''usr-00000002'', TRIAL)]"

theorem operator_trial_is_first_witness:
  "map (\<lambda>ev. (ev_userId ev, ev_action ev)) (as_events demo_two_accounts) =
     [(''usr-00000002'', SYNC), (''usr-00000001'', TRIAL), (''usr-00000001'', REVOKE)] \<and>
   sn_kind (ev_after (as_events demo_two_accounts ! 1)) = K_TRIAL"
proof -
  have trail: "map (\<lambda>ev. (ev_userId ev, ev_action ev)) (as_events demo_two_accounts) =
      [(''usr-00000002'', SYNC), (''usr-00000001'', TRIAL), (''usr-00000001'', REVOKE)]" by code_simp
  from arg_cong [OF this, of length] have len: "1 < length (as_events demo_two_accounts)" by simp
  from arg_cong [OF trail, of "\<lambda>xs. snd (xs ! 1)"] len have "ev_action (as_events demo_two_accounts ! 1) = TRIAL" by simp
  moreover have "access_steps demo_two_accounts" unfolding demo_two_accounts_def by (rule demo_trials_steps)
  ultimately show ?thesis using operator_trial_is_first [of demo_two_accounts 1] len trail by blast
qed

text \<open>
  The guard is one-sided: \<open>plan_sync\<close> does not ask whether the account had a trial, so a
  trial through the provider is accepted after an operator's trial was used up.
\<close>

lemma provider_trial_after_operator_trial:
  "map (\<lambda>ev. (ev_action ev, sn_kind (ev_after ev)))
     (as_events (demo_trials [(''usr-00000001'', TRIAL), (''usr-00000001'', REVOKE), (''usr-00000001'', SYNC)])) =
   [(TRIAL, K_TRIAL), (REVOKE, K_TRIAL), (SYNC, K_TRIAL)]"
  by code_simp

section \<open>Billing closes its own row\<close>

text \<open>
  When billing says that nothing paid entitles the account any more, its row covers
  no instant from now on, whatever the period it names: the change it plans is for the
  billing row alone, keeps its status, has a valid window, and the row written is not
  active at any later time.
\<close>

theorem inactive_sync_ends_paid_access:
  assumes "account_ok f" and "sy_active sync = False" and "plan_sync (two_rows f) sync now = Inr cs"
    and "now \<le> later"
  shows "list_all (\<lambda>c. rc_source c = Via_Billing \<and> map_option e_status (rc_before c) = Some (sn_status (rc_next c)) \<and>
     window_ok (sn_startsAt (rc_next c)) (sn_expiresAt (rc_next c)) \<and>
     snd (evaluateAccess (Some (written_row input now c)) later) = False) cs"
proof (cases cs)
  case (Cons c cs')
  have bs: "bySource (two_rows f) Via_Billing = f Via_Billing" by (rule two_rows_bySource [OF assms(1)])
  from assms(2,3) Cons obtain e where e: "f Via_Billing = Some e" "cs' = []"
      and c: "rc_source c = Via_Billing" "rc_before c = Some e" "rc_next c = closed_window e sync now"
    by (auto simp: plan_sync_def Let_def bs split: if_splits option.splits)
  have "snd (evaluateAccess (Some (written_row input now c)) later) = False"
    using assms(4) unfolding evaluateAccess_active by (auto simp: written_row_def c(3) closed_window_def Let_def)
  with Cons e c show ?thesis by (simp add: closed_window_def window_ok_def Let_def)
qed simp

theorem inactive_sync_ends_paid_access_witness:
  "\<exists>c. plan_sync (two_rows (\<lambda>s. if s = Via_Billing then Some demo_grant else None))
       \<lparr>sy_active = False, sy_startsAt = 400, sy_expiresAt = 900, sy_kind = K_SUBSCRIPTION, sy_planId = None\<rparr> 400 = Inr [c] \<and>
     sn_expiresAt (rc_next c) = Some 400 \<and>
     snd (evaluateAccess (Some (written_row (demo_input SYNC) 400 c)) 400) = False"
proof -
  let ?f = "\<lambda>s. if s = Via_Billing then Some demo_grant else None"
  let ?s = "\<lparr>sy_active = False, sy_startsAt = 400, sy_expiresAt = 900, sy_kind = K_SUBSCRIPTION, sy_planId = None\<rparr>"
  have ok: "account_ok ?f" by (auto simp: account_ok_def demo_grant_def window_ok_def split: if_splits)
  obtain c where c: "plan_sync (two_rows ?f) ?s 400 = Inr [c]" "sn_expiresAt (rc_next c) = Some 400"
    by (simp add: plan_sync_def two_rows_def bySource_def demo_grant_def closed_window_def snapshot_def)
  from inactive_sync_ends_paid_access [OF ok _ c(1), of 400 "demo_input SYNC"] c show ?thesis by auto
qed

end
