(* ===== verification/Billing.thy ===== *)
theory Billing
  imports Entitlements
begin

text \<open>
  Billing: \<open>apps/api/src/billing\<close>. The provider-neutral types (\<open>types.ts\<close>), the mapping
  from provider state to what an account may use (\<open>lifecycle.ts\<close>), the in-memory store
  and its transactions (\<open>store.ts\<close>), and the processing of verified provider events
  (\<open>processor.ts\<close>), which ends in the access mutation of \<open>Entitlements\<close>. Instants are
  milliseconds. Transactions of the store run one after the other (a promise chain), so
  processing an event is one step on the pair of the billing store and the access store;
  a transaction that throws puts the billing tables back. Log lines and metrics are not
  modelled.
\<close>

section \<open>Types\<close>

datatype SubscriptionStatus =
    Sub_incomplete | Sub_incomplete_expired | Sub_trialing | Sub_active
  | Sub_past_due | Sub_unpaid | Sub_canceled | Sub_paused

record SubscriptionSnapshot =
  ss_subscriptionRef :: string
  ss_customerRef :: string
  ss_priceRef :: string
  ss_status :: SubscriptionStatus
  ss_currentPeriodStart :: int
  ss_currentPeriodEnd :: int
  ss_cancelAtPeriodEnd :: bool
  ss_endedAt :: "int option"
  ss_clientReference :: "string option"

datatype event_kind =
    Checkout_Completed string string "string option"
  | Subscription_Changed SubscriptionSnapshot
  | Ignored_Event

record BillingEvent =
  be_eventId :: string
  be_eventType :: string
  be_occurredAt :: int
  be_kind :: event_kind

datatype offer_interval = Per_Month | Per_Year

record Offer =
  offer_id :: string
  offer_planId :: "string option"
  offer_priceRef :: string
  offer_name :: string
  offer_description :: "string option"
  offer_priceLabel :: "string option"
  offer_interval :: "offer_interval option"
  offer_features :: "string list"

record BillingPolicy =
  renewalLeewayHours :: int
  pastDueGraceHours :: int

datatype billing_error =
    BILLING_DISABLED | OFFER_NOT_FOUND | ALREADY_SUBSCRIBED | NO_BILLING_ACCOUNT
  | CHECKOUT_NOT_FOUND | SUBSCRIPTION_NOT_FOUND | PROVIDER_UNAVAILABLE | UNMAPPED_PRICE
  | UNMAPPED_SUBSCRIPTION | OWNERSHIP_CONFLICT | ACCOUNT_SUSPENDED | TOO_MANY_CHECKOUTS
  | BILLING_INVALID_REQUEST
  | Access_Failed access_error

section \<open>From provider state to product state\<close>

record StoredSubscription =
  sub_provider :: string
  sub_subscriptionRef :: string
  sub_userId :: string
  sub_customerRef :: string
  sub_priceRef :: string
  sub_planId :: "string option"
  sub_status :: SubscriptionStatus
  sub_currentPeriodStart :: int
  sub_currentPeriodEnd :: int
  sub_cancelAtPeriodEnd :: bool
  sub_endedAt :: "int option"
  sub_providerStateAt :: int
  sub_updatedAt :: int

datatype CommercialStatus = C_NONE | C_TRIAL | C_ACTIVE | C_CANCELING | C_PAYMENT_PROBLEM | C_PAUSED | C_ENDED

definition commercialStatus :: "StoredSubscription option \<Rightarrow> CommercialStatus" where
  "commercialStatus subscription = (case subscription of
       None \<Rightarrow> C_NONE
     | Some s \<Rightarrow>
         (case sub_status s of
            Sub_trialing \<Rightarrow> if sub_cancelAtPeriodEnd s then C_CANCELING else C_TRIAL
          | Sub_active \<Rightarrow> if sub_cancelAtPeriodEnd s then C_CANCELING else C_ACTIVE
          | Sub_past_due \<Rightarrow> C_PAYMENT_PROBLEM
          | Sub_unpaid \<Rightarrow> C_PAYMENT_PROBLEM
          | Sub_incomplete \<Rightarrow> C_PAYMENT_PROBLEM
          | Sub_paused \<Rightarrow> C_PAUSED
          | Sub_canceled \<Rightarrow> C_ENDED
          | Sub_incomplete_expired \<Rightarrow> C_ENDED))"

definition HOUR :: int where "HOUR = 3600000"

definition entitlementFor :: "StoredSubscription \<Rightarrow> BillingPolicy \<Rightarrow> SyncRequest" where
  "entitlementFor s policy =
     (let start = sub_currentPeriodStart s;
          end = sub_currentPeriodEnd s;
          kind = (if sub_status s = Sub_trialing then K_TRIAL else K_SUBSCRIPTION);
          request = (\<lambda>active expires. \<lparr>sy_active = active, sy_startsAt = start, sy_expiresAt = expires,
                       sy_kind = kind, sy_planId = sub_planId s\<rparr>)
      in if sub_status s = Sub_trialing \<or> sub_status s = Sub_active
         then request True (end + (if sub_cancelAtPeriodEnd s then 0 else renewalLeewayHours policy * HOUR))
         else if sub_status s = Sub_past_due \<and> pastDueGraceHours policy > 0
         then request True (start + pastDueGraceHours policy * HOUR)
         else request False end)"

definition byEnd :: "SyncRequest \<Rightarrow> SyncRequest \<Rightarrow> bool" where
  "byEnd a b \<longleftrightarrow> sy_expiresAt b \<le> sy_expiresAt a"

definition desiredEntitlement :: "StoredSubscription list \<Rightarrow> BillingPolicy \<Rightarrow> SyncRequest option" where
  "desiredEntitlement subscriptions policy =
     (if subscriptions = [] then None
      else let everything = map (\<lambda>s. entitlementFor s policy) subscriptions;
               entitling = sort_by byEnd (filter sy_active everything)
           in if entitling \<noteq> [] then Some (hd entitling) else Some (hd (sort_by byEnd everything)))"

text \<open>Entitling before not, then the later end, then the later update.\<close>

definition ranked_before :: "StoredSubscription \<times> SyncRequest \<Rightarrow> StoredSubscription \<times> SyncRequest \<Rightarrow> bool" where
  "ranked_before = (\<lambda>(s, p) (t, q).
     if sy_active p \<noteq> sy_active q then sy_active p
     else if sy_expiresAt p \<noteq> sy_expiresAt q then sy_expiresAt q < sy_expiresAt p
     else sub_updatedAt t \<le> sub_updatedAt s)"

definition primarySubscription :: "StoredSubscription list \<Rightarrow> BillingPolicy \<Rightarrow> StoredSubscription option" where
  "primarySubscription subscriptions policy =
     (if subscriptions = [] then None
      else Some (fst (hd (sort_by ranked_before (map (\<lambda>s. (s, entitlementFor s policy)) subscriptions)))))"

section \<open>The store\<close>

datatype EventOutcome = O_applied | O_stale | O_ignored

record StoredEvent =
  se_provider :: string
  se_eventId :: string
  se_eventType :: string
  se_outcome :: EventOutcome
  se_subscriptionRef :: "string option"
  se_occurredAt :: int
  se_processedAt :: int

record StoredCheckout =
  sc_provider :: string
  sc_checkoutRef :: string
  sc_userId :: string
  sc_offerId :: string
  sc_createdAt :: int
  sc_completedAt :: "int option"

text \<open>The four maps, in insertion order; a customer is its account and when it was bound.\<close>

record billing_store =
  bs_customers :: "(string \<times> (string \<times> int)) list"
  bs_checkouts :: "(string \<times> StoredCheckout) list"
  bs_subscriptions :: "(string \<times> StoredSubscription) list"
  bs_events :: "(string \<times> StoredEvent) list"

definition empty_billing :: billing_store where
  "empty_billing = \<lparr>bs_customers = [], bs_checkouts = [], bs_subscriptions = [], bs_events = []\<rparr>"

definition billing_key :: "string \<Rightarrow> string \<Rightarrow> string" where
  "billing_key prov ref = prov @ ''|'' @ ref"

text \<open>The operations of a transaction.\<close>

definition claimEvent ::
    "string \<Rightarrow> BillingEvent \<Rightarrow> string option \<Rightarrow> int \<Rightarrow> billing_store \<Rightarrow> bool \<times> billing_store" where
  "claimEvent prov event subscriptionRef at st =
     (let k = billing_key prov (be_eventId event) in
      if map_of (bs_events st) k \<noteq> None then (False, st)
      else (True, st\<lparr>bs_events := AList.update k
             \<lparr>se_provider = prov, se_eventId = be_eventId event, se_eventType = be_eventType event,
              se_outcome = O_applied, se_subscriptionRef = subscriptionRef,
              se_occurredAt = be_occurredAt event, se_processedAt = at\<rparr> (bs_events st)\<rparr>))"

definition setEventOutcome :: "string \<Rightarrow> string \<Rightarrow> EventOutcome \<Rightarrow> billing_store \<Rightarrow> billing_store" where
  "setEventOutcome prov eventId outcome st =
     (case map_of (bs_events st) (billing_key prov eventId) of
        None \<Rightarrow> st
      | Some e \<Rightarrow> st\<lparr>bs_events := AList.update (billing_key prov eventId) (e\<lparr>se_outcome := outcome\<rparr>) (bs_events st)\<rparr>)"

definition customerUser :: "string \<Rightarrow> string \<Rightarrow> billing_store \<Rightarrow> string option" where
  "customerUser prov customerRef st = map_option fst (map_of (bs_customers st) (billing_key prov customerRef))"

datatype bind_result = Bound | Exists | Conflict

definition bindCustomer ::
    "string \<Rightarrow> string \<Rightarrow> string \<Rightarrow> int \<Rightarrow> billing_store \<Rightarrow> bind_result \<times> billing_store" where
  "bindCustomer prov customerRef userId at st =
     (case map_of (bs_customers st) (billing_key prov customerRef) of
        Some existing \<Rightarrow> (if fst existing = userId then Exists else Conflict, st)
      | None \<Rightarrow>
          if list_ex (\<lambda>(k, v). starts_with (prov @ ''|'') k \<and> fst v = userId) (bs_customers st)
          then (Conflict, st)
          else (Bound, st\<lparr>bs_customers :=
                  AList.update (billing_key prov customerRef) (userId, at) (bs_customers st)\<rparr>))"

definition tx_checkout :: "string \<Rightarrow> string \<Rightarrow> billing_store \<Rightarrow> StoredCheckout option" where
  "tx_checkout prov checkoutRef st = map_of (bs_checkouts st) (billing_key prov checkoutRef)"

definition hasCheckoutFor :: "string \<Rightarrow> string \<Rightarrow> billing_store \<Rightarrow> bool" where
  "hasCheckoutFor prov userId st =
     list_ex (\<lambda>(k, c). sc_provider c = prov \<and> sc_userId c = userId) (bs_checkouts st)"

definition completeCheckout :: "string \<Rightarrow> string \<Rightarrow> int \<Rightarrow> billing_store \<Rightarrow> billing_store" where
  "completeCheckout prov checkoutRef at st =
     (case map_of (bs_checkouts st) (billing_key prov checkoutRef) of
        Some c \<Rightarrow>
          if sc_completedAt c = None
          then st\<lparr>bs_checkouts :=
                 AList.update (billing_key prov checkoutRef) (c\<lparr>sc_completedAt := Some at\<rparr>) (bs_checkouts st)\<rparr>
          else st
      | None \<Rightarrow> st)"

definition tx_subscription :: "string \<Rightarrow> string \<Rightarrow> billing_store \<Rightarrow> StoredSubscription option" where
  "tx_subscription prov ref st = map_of (bs_subscriptions st) (billing_key prov ref)"

definition putSubscription :: "StoredSubscription \<Rightarrow> billing_store \<Rightarrow> billing_store" where
  "putSubscription s st = st\<lparr>bs_subscriptions :=
     AList.update (billing_key (sub_provider s) (sub_subscriptionRef s)) s (bs_subscriptions st)\<rparr>"

definition subscriptionsOf :: "string \<Rightarrow> billing_store \<Rightarrow> StoredSubscription list" where
  "subscriptionsOf userId st = filter (\<lambda>s. sub_userId s = userId) (map snd (bs_subscriptions st))"

text \<open>The operations outside a transaction.\<close>

definition recordCheckout ::
    "string \<Rightarrow> string \<Rightarrow> string \<Rightarrow> string \<Rightarrow> int \<Rightarrow> billing_store \<Rightarrow> billing_store" where
  "recordCheckout prov checkoutRef userId offerId created st = st\<lparr>bs_checkouts :=
     AList.update (billing_key prov checkoutRef)
       \<lparr>sc_provider = prov, sc_checkoutRef = checkoutRef, sc_userId = userId, sc_offerId = offerId,
        sc_createdAt = created, sc_completedAt = None\<rparr> (bs_checkouts st)\<rparr>"

definition countCheckoutsSince :: "string \<Rightarrow> string \<Rightarrow> int \<Rightarrow> billing_store \<Rightarrow> nat" where
  "countCheckoutsSince prov userId since st =
     length (filter (\<lambda>c. sc_provider c = prov \<and> sc_userId c = userId \<and> since \<le> sc_createdAt c)
       (map snd (bs_checkouts st)))"

fun customer_entry :: "string \<Rightarrow> string \<Rightarrow> (string \<times> (string \<times> int)) list \<Rightarrow> string option" where
  "customer_entry prov userId [] = None"
| "customer_entry prov userId ((k, v) # rest) =
     (if starts_with (prov @ ''|'') k \<and> fst v = userId then Some (drop (length prov + 1) k)
      else customer_entry prov userId rest)"

definition customerOf :: "string \<Rightarrow> string \<Rightarrow> billing_store \<Rightarrow> string option" where
  "customerOf prov userId st = customer_entry prov userId (bs_customers st)"

definition subscriptions :: "string \<Rightarrow> nat \<Rightarrow> billing_store \<Rightarrow> StoredSubscription list" where
  "subscriptions prov limit st =
     take limit (sort_by (\<lambda>a b. sub_updatedAt b \<le> sub_updatedAt a)
       (filter (\<lambda>s. sub_provider s = prov) (map snd (bs_subscriptions st))))"

definition recentEvents :: "string \<Rightarrow> nat \<Rightarrow> billing_store \<Rightarrow> StoredEvent list" where
  "recentEvents prov limit st =
     take limit (sort_by (\<lambda>a b. se_processedAt b \<le> se_processedAt a)
       (filter (\<lambda>e. se_provider e = prov) (map snd (bs_events st))))"

text \<open>
  A transaction: the billing tables are put back when the work throws; the access store
  is not part of the snapshot.
\<close>

type_synonym billing_state = "billing_store \<times> access_store"

definition transaction ::
    "(billing_state \<Rightarrow> (billing_error + 'a) \<times> billing_state) \<Rightarrow> billing_state \<Rightarrow> (billing_error + 'a) \<times> billing_state" where
  "transaction work s = (case work s of
       (Inl e, (_, access)) \<Rightarrow> (Inl e, (fst s, access))
     | (Inr x, s') \<Rightarrow> (Inr x, s'))"

section \<open>Webhook processing\<close>

datatype ProcessOutcome = P_applied | P_duplicate | P_stale | P_ignored

record process_result =
  pr_outcome :: ProcessOutcome
  pr_userId :: "string option"
  pr_reason :: "string option"

record BillingProcessorDeps =
  bd_provider :: string
  bd_offers :: "Offer list"
  bd_plans :: PlanCatalog
  bd_policy :: BillingPolicy

definition reasonFor :: "BillingEvent \<Rightarrow> string" where
  "reasonFor event = take 500 (''billing event '' @ be_eventType event @ '' '' @ be_eventId event)"

fun process_outcome :: "EventOutcome \<Rightarrow> ProcessOutcome" where
  "process_outcome O_applied = P_applied"
| "process_outcome O_stale = P_stale"
| "process_outcome O_ignored = P_ignored"

definition settle ::
    "string \<Rightarrow> BillingEvent \<Rightarrow> EventOutcome \<Rightarrow> string option \<Rightarrow> string option \<Rightarrow> billing_state \<Rightarrow>
      (billing_error + process_result) \<times> billing_state" where
  "settle prov event outcome userId reason = (\<lambda>(st, access).
     (Inr \<lparr>pr_outcome = process_outcome outcome, pr_userId = userId, pr_reason = reason\<rparr>,
      setEventOutcome prov (be_eventId event) outcome st, access))"

definition process_checkout ::
    "BillingProcessorDeps \<Rightarrow> BillingEvent \<Rightarrow> string \<Rightarrow> string \<Rightarrow> string option \<Rightarrow> int \<Rightarrow> billing_state \<Rightarrow>
      (billing_error + process_result) \<times> billing_state" where
  "process_checkout d event checkoutRef customerRef clientReference at = (\<lambda>(st, access).
     let prov = bd_provider d in
     case tx_checkout prov checkoutRef st of
       None \<Rightarrow> settle prov event O_ignored None (Some ''checkout_not_ours'') (st, access)
     | Some checkout \<Rightarrow>
         if clientReference \<noteq> None \<and> clientReference \<noteq> Some (sc_userId checkout)
         then settle prov event O_ignored None (Some ''checkout_not_ours'') (st, access)
         else (case bindCustomer prov customerRef (sc_userId checkout) at st of
             (Conflict, st1) \<Rightarrow>
               settle prov event O_ignored (Some (sc_userId checkout)) (Some ''ownership_conflict'') (st1, access)
           | (_, st1) \<Rightarrow>
               settle prov event O_applied (Some (sc_userId checkout)) None
                 (completeCheckout prov checkoutRef at st1, access)))"

text \<open>
  Whose subscription it is: the bound customer, or the account it names if this platform
  started a checkout for it. \<open>None\<close> is an ownership conflict.
\<close>

definition subscription_owner ::
    "BillingProcessorDeps \<Rightarrow> SubscriptionSnapshot \<Rightarrow> int \<Rightarrow> billing_store \<Rightarrow>
      billing_error + string option \<times> billing_store" where
  "subscription_owner d s at st =
     (let prov = bd_provider d in
      case (case customerUser prov (ss_customerRef s) st of Some u \<Rightarrow> if u = [] then None else Some u | None \<Rightarrow> None) of
        Some userId \<Rightarrow> Inr (Some userId, st)
      | None \<Rightarrow>
          (case ss_clientReference s of
             Some ref \<Rightarrow>
               if ref \<noteq> [] \<and> hasCheckoutFor prov ref st
               then (case bindCustomer prov (ss_customerRef s) ref at st of
                   (Conflict, st1) \<Rightarrow> Inr (None, st1)
                 | (_, st1) \<Rightarrow> Inr (Some ref, st1))
               else Inl UNMAPPED_SUBSCRIPTION
           | None \<Rightarrow> Inl UNMAPPED_SUBSCRIPTION))"

definition offer_for :: "BillingProcessorDeps \<Rightarrow> string \<Rightarrow> Offer option" where
  "offer_for d priceRef = (case find (\<lambda>offer. offer_priceRef offer = priceRef) (bd_offers d) of
       None \<Rightarrow> None
     | Some offer \<Rightarrow>
         (case offer_planId offer of
            None \<Rightarrow> Some offer
          | Some p \<Rightarrow> if plan_get (bd_plans d) p = None then None else Some offer))"

definition stored_subscription ::
    "string \<Rightarrow> SubscriptionSnapshot \<Rightarrow> string \<Rightarrow> Offer \<Rightarrow> int \<Rightarrow> int \<Rightarrow> StoredSubscription" where
  "stored_subscription prov s userId offer occurredAt at =
     \<lparr>sub_provider = prov, sub_subscriptionRef = ss_subscriptionRef s, sub_userId = userId,
      sub_customerRef = ss_customerRef s, sub_priceRef = ss_priceRef s, sub_planId = offer_planId offer,
      sub_status = ss_status s, sub_currentPeriodStart = ss_currentPeriodStart s,
      sub_currentPeriodEnd = ss_currentPeriodEnd s, sub_cancelAtPeriodEnd = ss_cancelAtPeriodEnd s,
      sub_endedAt = ss_endedAt s, sub_providerStateAt = occurredAt, sub_updatedAt = at\<rparr>"

definition sync_input :: "string \<Rightarrow> string \<Rightarrow> BillingEvent \<Rightarrow> SyncRequest \<Rightarrow> MutationInput" where
  "sync_input prov userId event desired =
     \<lparr>mi_userId = userId, mi_action = SYNC, mi_actor = ''billing.'' @ prov, mi_reason = reasonFor event,
      mi_grant = None, mi_trial = None, mi_source = Some Via_Billing, mi_sync = Some desired\<rparr>"

text \<open>Storing the subscription and bringing the entitlement row of billing in line.\<close>

definition apply_subscription ::
    "BillingProcessorDeps \<Rightarrow> string list \<Rightarrow> BillingEvent \<Rightarrow> SubscriptionSnapshot \<Rightarrow> string \<Rightarrow> Offer \<Rightarrow> int \<Rightarrow> int \<Rightarrow>
      billing_state \<Rightarrow> (billing_error + process_result) \<times> billing_state" where
  "apply_subscription d directory event s userId offer at later = (\<lambda>(st, access).
     let prov = bd_provider d;
         st1 = putSubscription (stored_subscription prov s userId offer (be_occurredAt event) at) st
     in case desiredEntitlement (subscriptionsOf userId st1) (bd_policy d) of
          None \<Rightarrow> settle prov event O_applied (Some userId) None (st1, access)
        | Some desired \<Rightarrow>
            (case mutate directory (sync_input prov userId event desired) later access of
               (Inl e, access1) \<Rightarrow> (Inl (Access_Failed e), (st1, access1))
             | (Inr _, access1) \<Rightarrow> settle prov event O_applied (Some userId) None (st1, access1)))"

definition process_subscription ::
    "BillingProcessorDeps \<Rightarrow> string list \<Rightarrow> BillingEvent \<Rightarrow> SubscriptionSnapshot \<Rightarrow> int \<Rightarrow> int \<Rightarrow>
      billing_state \<Rightarrow> (billing_error + process_result) \<times> billing_state" where
  "process_subscription d directory event s at later = (\<lambda>(st, access).
     let prov = bd_provider d in
     case subscription_owner d s at st of
       Inl e \<Rightarrow> (Inl e, (st, access))
     | Inr (None, st1) \<Rightarrow> settle prov event O_ignored None (Some ''ownership_conflict'') (st1, access)
     | Inr (Some userId, st1) \<Rightarrow>
         let existing = tx_subscription prov (ss_subscriptionRef s) st1 in
         if (case existing of None \<Rightarrow> False | Some old \<Rightarrow> sub_userId old \<noteq> userId)
         then settle prov event O_ignored None (Some ''ownership_conflict'') (st1, access)
         else if (case existing of None \<Rightarrow> False | Some old \<Rightarrow> be_occurredAt event < sub_providerStateAt old)
         then settle prov event O_stale (Some userId) (Some ''older_than_stored'') (st1, access)
         else (case offer_for d (ss_priceRef s) of
             None \<Rightarrow> (Inl UNMAPPED_PRICE, (st1, access))
           | Some offer \<Rightarrow> apply_subscription d directory event s userId offer at later (st1, access)))"

text \<open>
  The clock is read when processing begins and again when access is changed; \<open>directory\<close>
  is the accounts the access store knows of at that moment.
\<close>

definition process ::
    "BillingProcessorDeps \<Rightarrow> string list \<Rightarrow> BillingEvent \<Rightarrow> int \<Rightarrow> int \<Rightarrow> billing_state \<Rightarrow>
      (billing_error + process_result) \<times> billing_state" where
  "process d directory event at later = transaction (\<lambda>(st, access).
     let subscriptionRef = (case be_kind event of Subscription_Changed s \<Rightarrow> Some (ss_subscriptionRef s) | _ \<Rightarrow> None);
         (claimed, st1) = claimEvent (bd_provider d) event subscriptionRef at st
     in if \<not> claimed then (Inr \<lparr>pr_outcome = P_duplicate, pr_userId = None, pr_reason = None\<rparr>, (st1, access))
        else (case be_kind event of
            Ignored_Event \<Rightarrow> settle (bd_provider d) event O_ignored None (Some ''event_type_not_used'') (st1, access)
          | Checkout_Completed checkoutRef customerRef clientReference \<Rightarrow>
              process_checkout d event checkoutRef customerRef clientReference at (st1, access)
          | Subscription_Changed s \<Rightarrow> process_subscription d directory event s at later (st1, access)))"

datatype webhook_error = SIGNATURE_MISSING | SIGNATURE_INVALID | TIMESTAMP_OUT_OF_TOLERANCE | MALFORMED

text \<open>The answer to a delivery: refused, processed, or to be retried.\<close>

datatype WebhookReply = Rejected_400 | Received_200 ProcessOutcome | Retry_500

definition handleWebhook ::
    "BillingProcessorDeps \<Rightarrow> ('body \<Rightarrow> 'headers \<Rightarrow> int \<Rightarrow> webhook_error + BillingEvent) \<Rightarrow> string list \<Rightarrow>
      'body \<Rightarrow> 'headers \<Rightarrow> int \<Rightarrow> int \<Rightarrow> int \<Rightarrow> billing_state \<Rightarrow> WebhookReply \<times> billing_state" where
  "handleWebhook d verifyWebhook directory rawBody headers received at later s =
     (case verifyWebhook rawBody headers received of
        Inl _ \<Rightarrow> (Rejected_400, s)
      | Inr event \<Rightarrow>
          (case process d directory event at later s of
             (Inl _, s') \<Rightarrow> (Retry_500, s')
           | (Inr result, s') \<Rightarrow> (Received_200 (pr_outcome result), s')))"

section \<open>What an account can do\<close>

definition MAX_CHECKOUTS_PER_HOUR :: nat where "MAX_CHECKOUTS_PER_HOUR = 5"

record billing_view =
  bv_status :: CommercialStatus
  bv_planId :: "string option"
  bv_planName :: "string option"
  bv_currentPeriodEnd :: int
  bv_cancelAtPeriodEnd :: bool
  bv_accessUntil :: "int option"

definition view_subscription :: "BillingProcessorDeps \<Rightarrow> string \<Rightarrow> int \<Rightarrow> billing_store \<Rightarrow> billing_view option" where
  "view_subscription d userId now st =
     (case primarySubscription (subscriptionsOf userId st) (bd_policy d) of
        None \<Rightarrow> None
      | Some primary \<Rightarrow>
          let request = entitlementFor primary (bd_policy d);
              covers = sy_active request \<and> now < sy_expiresAt request
          in Some \<lparr>bv_status = commercialStatus (Some primary), bv_planId = sub_planId primary,
               bv_planName = (case sub_planId primary of None \<Rightarrow> None
                  | Some p \<Rightarrow> if p = [] then None else map_option plan_name (plan_get (bd_plans d) p)),
               bv_currentPeriodEnd = sub_currentPeriodEnd primary,
               bv_cancelAtPeriodEnd = sub_cancelAtPeriodEnd primary,
               bv_accessUntil = (if covers then Some (sy_expiresAt request) else None)\<rparr>)"

definition suspended_account :: "string \<Rightarrow> int \<Rightarrow> access_store \<Rightarrow> bool" where
  "suspended_account userId now access \<longleftrightarrow> fst (evaluateAccount (grantsOf access userId) now) = S_SUSPENDED"

definition canManageBilling :: "BillingProcessorDeps \<Rightarrow> string \<Rightarrow> billing_store \<Rightarrow> bool" where
  "canManageBilling d userId st \<longleftrightarrow> customerOf (bd_provider d) userId st \<noteq> None"

definition canSubscribe :: "BillingProcessorDeps \<Rightarrow> string \<Rightarrow> int \<Rightarrow> billing_state \<Rightarrow> bool" where
  "canSubscribe d userId now = (\<lambda>(st, access).
     bd_offers d \<noteq> [] \<and>
     (case view_subscription d userId now st of None \<Rightarrow> True | Some v \<Rightarrow> bv_accessUntil v = None) \<and>
     \<not> suspended_account userId now access)"

text \<open>
  \<open>createCheckout\<close> is the call of the provider with the account, the offer and the
  customer it already has: a checkout reference and a page, or a failure. Every failure
  but a billing error of another kind is reported as the provider being unavailable.
\<close>

definition provider_call :: "billing_error option + 'a \<Rightarrow> billing_error + 'a" where
  "provider_call answer = (case answer of
       Inr x \<Rightarrow> Inr x
     | Inl (Some e) \<Rightarrow> Inl e
     | Inl None \<Rightarrow> Inl PROVIDER_UNAVAILABLE)"

definition startCheckout ::
    "BillingProcessorDeps \<Rightarrow> (string \<Rightarrow> Offer \<Rightarrow> string option \<Rightarrow> billing_error option + string \<times> string) \<Rightarrow>
      string \<Rightarrow> unknown_value \<Rightarrow> int \<Rightarrow> billing_state \<Rightarrow> (billing_error + string) \<times> billing_state" where
  "startCheckout d createCheckout userId offerId now = (\<lambda>(st, access).
     let prov = bd_provider d in
     case (case offerId of UString i \<Rightarrow> find (\<lambda>offer. offer_id offer = i) (bd_offers d) | UOther _ \<Rightarrow> None) of
       None \<Rightarrow> (Inl OFFER_NOT_FOUND, (st, access))
     | Some offer \<Rightarrow>
         if suspended_account userId now access then (Inl ACCOUNT_SUSPENDED, (st, access))
         else if (case view_subscription d userId now st of None \<Rightarrow> False | Some v \<Rightarrow> bv_accessUntil v \<noteq> None)
         then (Inl ALREADY_SUBSCRIBED, (st, access))
         else if countCheckoutsSince prov userId (now - 3600000) st \<ge> MAX_CHECKOUTS_PER_HOUR
         then (Inl TOO_MANY_CHECKOUTS, (st, access))
         else (case provider_call (createCheckout userId offer (customerOf prov userId st)) of
             Inl e \<Rightarrow> (Inl e, (st, access))
           | Inr (checkoutRef, url) \<Rightarrow>
               (Inr url, (recordCheckout prov checkoutRef userId (offer_id offer) now st, access))))"

definition openPortal ::
    "BillingProcessorDeps \<Rightarrow> (string \<Rightarrow> billing_error option + string) \<Rightarrow> string \<Rightarrow> billing_store \<Rightarrow> billing_error + string" where
  "openPortal d createPortal userId st =
     (case customerOf (bd_provider d) userId st of
        None \<Rightarrow> Inl NO_BILLING_ACCOUNT
      | Some customerRef \<Rightarrow> if customerRef = [] then Inl NO_BILLING_ACCOUNT else provider_call (createPortal customerRef))"

end
