(* ===== verification/Billing_Safety.thy ===== *)
theory Billing_Safety
  imports Billing
begin

text \<open>
  Billing and access together. The runs of the system are the sequences of processed
  provider events, checkouts that accounts start, and access mutations of the operator;
  what may be said of every run: an event is applied once or leaves no trace, references
  never change hands, newer provider state is never overwritten by older, and the
  entitlement row of billing says what the stored subscriptions say.
\<close>

section \<open>What each operation touches\<close>

named_theorems billing_frame

lemma claimEvent_frame [billing_frame]:
  "bs_customers (snd (claimEvent p e r at st)) = bs_customers st"
  "bs_checkouts (snd (claimEvent p e r at st)) = bs_checkouts st"
  "bs_subscriptions (snd (claimEvent p e r at st)) = bs_subscriptions st"
  by (simp_all add: claimEvent_def Let_def)

lemma setEventOutcome_frame [billing_frame]:
  "bs_customers (setEventOutcome p i o1 st) = bs_customers st"
  "bs_checkouts (setEventOutcome p i o1 st) = bs_checkouts st"
  "bs_subscriptions (setEventOutcome p i o1 st) = bs_subscriptions st"
  by (simp_all add: setEventOutcome_def split: option.splits)

lemma setEventOutcome_dom [billing_frame]:
  "dom (map_of (bs_events (setEventOutcome p i o1 st))) = dom (map_of (bs_events st))"
  by (auto simp: setEventOutcome_def update_conv' split: option.splits if_splits)

lemma bindCustomer_frame [billing_frame]:
  "bs_checkouts (snd (bindCustomer p c u at st)) = bs_checkouts st"
  "bs_subscriptions (snd (bindCustomer p c u at st)) = bs_subscriptions st"
  "bs_events (snd (bindCustomer p c u at st)) = bs_events st"
  by (simp_all add: bindCustomer_def split: option.splits)

lemma completeCheckout_frame [billing_frame]:
  "bs_customers (completeCheckout p c at st) = bs_customers st"
  "bs_subscriptions (completeCheckout p c at st) = bs_subscriptions st"
  "bs_events (completeCheckout p c at st) = bs_events st"
  by (simp_all add: completeCheckout_def split: option.splits)

lemma putSubscription_frame [billing_frame]:
  "bs_customers (putSubscription s st) = bs_customers st"
  "bs_checkouts (putSubscription s st) = bs_checkouts st"
  "bs_events (putSubscription s st) = bs_events st"
  by (simp_all add: putSubscription_def)

lemma recordCheckout_frame [billing_frame]:
  "bs_customers (recordCheckout p c u i at st) = bs_customers st"
  "bs_subscriptions (recordCheckout p c u i at st) = bs_subscriptions st"
  "bs_events (recordCheckout p c u i at st) = bs_events st"
  by (simp_all add: recordCheckout_def)

lemma billing_key_inj [simp]: "billing_key p r = billing_key p r' \<longleftrightarrow> r = r'"
  by (simp add: billing_key_def)

lemma claimEvent_claimed:
  "claimEvent p e r at st = (True, st') \<Longrightarrow>
     map_of (bs_events st) (billing_key p (be_eventId e)) = None \<and>
     dom (map_of (bs_events st')) = insert (billing_key p (be_eventId e)) (dom (map_of (bs_events st)))"
  by (auto simp: claimEvent_def Let_def update_conv' split: if_splits)

lemma claimEvent_duplicate:
  "claimEvent p e r at st = (False, st') \<longleftrightarrow>
     st' = st \<and> map_of (bs_events st) (billing_key p (be_eventId e)) \<noteq> None"
  by (auto simp: claimEvent_def Let_def)

section \<open>Tables only grow\<close>

text \<open>What is kept from one state of the tables to a later one.\<close>

definition keeps_customers :: "billing_store \<Rightarrow> billing_store \<Rightarrow> bool" where
  "keeps_customers st st' \<longleftrightarrow> map_of (bs_customers st) \<subseteq>\<^sub>m map_of (bs_customers st')"

definition keeps_checkouts :: "billing_store \<Rightarrow> billing_store \<Rightarrow> bool" where
  "keeps_checkouts st st' \<longleftrightarrow> (\<forall>p u. hasCheckoutFor p u st \<longrightarrow> hasCheckoutFor p u st')"

definition keeps_events :: "billing_store \<Rightarrow> billing_store \<Rightarrow> bool" where
  "keeps_events st st' \<longleftrightarrow> dom (map_of (bs_events st)) \<subseteq> dom (map_of (bs_events st'))"

definition keeps_subscriptions :: "billing_store \<Rightarrow> billing_store \<Rightarrow> bool" where
  "keeps_subscriptions st st' \<longleftrightarrow> (\<forall>k s. map_of (bs_subscriptions st) k = Some s \<longrightarrow>
     (\<exists>s'. map_of (bs_subscriptions st') k = Some s' \<and> sub_userId s' = sub_userId s \<and>
        sub_providerStateAt s \<le> sub_providerStateAt s'))"

definition extends :: "billing_store \<Rightarrow> billing_store \<Rightarrow> bool" where
  "extends st st' \<longleftrightarrow> keeps_customers st st' \<and> keeps_checkouts st st' \<and> keeps_events st st' \<and> keeps_subscriptions st st'"

lemmas keeps_defs = keeps_customers_def keeps_checkouts_def keeps_events_def keeps_subscriptions_def

lemma extends_refl [simp]: "extends st st"
  by (auto simp: extends_def keeps_defs)

lemma extends_trans:
  assumes "extends a b" "extends b c"
  shows "extends a c"
proof -
  have "keeps_customers a c" "keeps_checkouts a c"
    using assms by (auto simp: extends_def keeps_customers_def keeps_checkouts_def intro: map_le_trans)
  moreover have "keeps_events a c"
    using assms unfolding extends_def keeps_events_def by (meson subset_trans)
  moreover have "keeps_subscriptions a c"
    using assms unfolding extends_def keeps_subscriptions_def by (metis order_trans)
  ultimately show ?thesis by (simp add: extends_def)
qed

lemma extends_claim: "extends st (snd (claimEvent p e r at st))"
  by (auto simp: extends_def keeps_customers_def keeps_checkouts_def keeps_subscriptions_def
      hasCheckoutFor_def billing_frame)
     (auto simp: keeps_events_def claimEvent_def Let_def update_conv')

lemma extends_outcome: "extends st (setEventOutcome p i o1 st)"
  by (auto simp: extends_def keeps_customers_def keeps_checkouts_def keeps_subscriptions_def
      keeps_events_def hasCheckoutFor_def billing_frame)

lemma extends_bind: "extends st (snd (bindCustomer p c u at st))"
  by (auto simp: extends_def keeps_checkouts_def keeps_subscriptions_def keeps_events_def hasCheckoutFor_def billing_frame)
     (auto simp: keeps_customers_def bindCustomer_def map_le_def update_conv' split: option.splits)

lemma hasCheckoutFor_set:
  "hasCheckoutFor p u st \<longleftrightarrow> (\<exists>c\<in>snd ` set (bs_checkouts st). sc_provider c = p \<and> sc_userId c = u)"
  by (force simp: hasCheckoutFor_def list_ex_iff)

lemma update_keeps_entry:
  assumes "c \<in> snd ` set xs" "\<And>old. map_of xs k = Some old \<Longrightarrow> P old \<Longrightarrow> P new" "P c"
  shows "\<exists>d\<in>snd ` set (AList.update k new xs). P d"
  using assms
proof (induction xs)
  case (Cons x xs)
  show ?case
  proof (cases "fst x = k")
    case True
    with Cons.prems show ?thesis by (cases x) auto
  next
    case False
    with Cons show ?thesis by (cases x) force
  qed
qed simp

lemma extends_complete: "extends st (completeCheckout p c at st)"
proof -
  have "hasCheckoutFor q u (completeCheckout p c at st)" if "hasCheckoutFor q u st" for q u
  proof (cases "\<exists>d. map_of (bs_checkouts st) (billing_key p c) = Some d \<and> sc_completedAt d = None")
    case True
    then obtain d where d: "map_of (bs_checkouts st) (billing_key p c) = Some d" "sc_completedAt d = None" by blast
    from that obtain e where e: "e \<in> snd ` set (bs_checkouts st)" "sc_provider e = q \<and> sc_userId e = u"
      by (auto simp: hasCheckoutFor_set)
    have "\<exists>f\<in>snd ` set (AList.update (billing_key p c) (d\<lparr>sc_completedAt := Some at\<rparr>) (bs_checkouts st)).
        sc_provider f = q \<and> sc_userId f = u"
      by (rule update_keeps_entry [where P = "\<lambda>f. sc_provider f = q \<and> sc_userId f = u", OF e(1) _ e(2)]) (use d in auto)
    with d show ?thesis by (simp add: completeCheckout_def hasCheckoutFor_set)
  next
    case False
    with that show ?thesis by (auto simp: completeCheckout_def split: option.splits)
  qed
  then show ?thesis
    by (auto simp: extends_def keeps_customers_def keeps_checkouts_def keeps_events_def keeps_subscriptions_def billing_frame)
qed

lemma extends_put:
  assumes "\<And>old. tx_subscription (sub_provider s) (sub_subscriptionRef s) st = Some old \<Longrightarrow>
      sub_userId old = sub_userId s \<and> sub_providerStateAt old \<le> sub_providerStateAt s"
  shows "extends st (putSubscription s st)"
  using assms unfolding tx_subscription_def
  by (auto simp: extends_def keeps_customers_def keeps_checkouts_def keeps_events_def hasCheckoutFor_def billing_frame)
     (auto simp: keeps_subscriptions_def putSubscription_def update_conv')

lemma extends_record:
  assumes "map_of (bs_checkouts st) (billing_key p c) = None"
  shows "extends st (recordCheckout p c u i at st)"
proof -
  have "hasCheckoutFor q v (recordCheckout p c u i at st)" if "hasCheckoutFor q v st" for q v
  proof -
    from that obtain e where e: "e \<in> snd ` set (bs_checkouts st)" "sc_provider e = q \<and> sc_userId e = v"
      by (auto simp: hasCheckoutFor_set)
    have "\<exists>f\<in>snd ` set (AList.update (billing_key p c) new (bs_checkouts st)). sc_provider f = q \<and> sc_userId f = v" for new
      by (rule update_keeps_entry [where P = "\<lambda>f. sc_provider f = q \<and> sc_userId f = v", OF e(1) _ e(2)]) (use assms in simp)
    then show ?thesis by (simp add: hasCheckoutFor_set recordCheckout_def)
  qed
  then show ?thesis
    by (auto simp: extends_def keeps_customers_def keeps_checkouts_def keeps_events_def keeps_subscriptions_def billing_frame)
qed

section \<open>Processing\<close>

lemma settle_simp [simp]:
  "settle p e o1 u r (st, access) =
     (Inr \<lparr>pr_outcome = process_outcome o1, pr_userId = u, pr_reason = r\<rparr>, setEventOutcome p (be_eventId e) o1 st, access)"
  by (simp add: settle_def)

lemma mutate_error: "mutate directory input at access = (Inl e, access') \<Longrightarrow> access' = access"
  by (auto simp: mutate_def split: if_splits sum.splits)

lemma subscription_owner_extends:
  "subscription_owner d s at st = Inr (u, st1) \<Longrightarrow> extends st st1 \<and> bs_events st1 = bs_events st \<and>
     bs_subscriptions st1 = bs_subscriptions st"
  using extends_bind [of st "bd_provider d" "ss_customerRef s" "the (ss_clientReference s)" at]
    bindCustomer_frame [of "bd_provider d" "ss_customerRef s" "the (ss_clientReference s)" at st]
  by (auto simp: subscription_owner_def Let_def split: option.splits if_splits prod.splits bind_result.splits)

text \<open>The steps an applied subscription event takes.\<close>

lemma apply_subscription_cases:
  assumes "apply_subscription d directory event s u offer at later (st, access) = (r, (st', access'))"
  obtains (failed) e where "r = Inl e" "access' = access"
  | (stored) new where "new = stored_subscription (bd_provider d) s u offer (be_occurredAt event) at"
      "st' = setEventOutcome (bd_provider d) (be_eventId event) O_applied (putSubscription new st)"
      "r = Inr \<lparr>pr_outcome = P_applied, pr_userId = Some u, pr_reason = None\<rparr>"
      "(case desiredEntitlement (subscriptionsOf u (putSubscription new st)) (bd_policy d) of
          None \<Rightarrow> access' = access
        | Some desired \<Rightarrow> (\<exists>cs. mutate directory (sync_input (bd_provider d) u event desired) later access = (Inr cs, access')))"
proof (cases r)
  case (Inl e)
  with assms show ?thesis
    by (intro failed [of e]) (auto simp: apply_subscription_def Let_def dest: mutate_error
        split: option.splits prod.splits sum.splits)
next
  case (Inr x)
  with assms show ?thesis
    by (intro stored [OF refl]) (auto simp: apply_subscription_def Let_def split: option.splits prod.splits sum.splits)
qed

lemma process_subscription_cases:
  assumes "process_subscription d directory event s at later (st, access) = (r, (st', access'))"
  obtains (failed) e where "r = Inl e" "access' = access"
  | (refused) u st1 o1 reason u' where "subscription_owner d s at st = Inr (u, st1)" "o1 \<noteq> O_applied"
      "st' = setEventOutcome (bd_provider d) (be_eventId event) o1 st1" "access' = access"
      "r = Inr \<lparr>pr_outcome = process_outcome o1, pr_userId = u', pr_reason = Some reason\<rparr>"
  | (applied) u st1 offer where "subscription_owner d s at st = Inr (Some u, st1)"
      "\<forall>old. tx_subscription (bd_provider d) (ss_subscriptionRef s) st1 = Some old \<longrightarrow>
         sub_userId old = u \<and> sub_providerStateAt old \<le> be_occurredAt event"
      "offer_for d (ss_priceRef s) = Some offer"
      "apply_subscription d directory event s u offer at later (st1, access) = (r, (st', access'))"
proof -
  show ?thesis
  proof (cases "subscription_owner d s at st")
    case (Inl e)
    with assms show ?thesis by (intro failed [of e]) (auto simp: process_subscription_def Let_def)
  next
    case (Inr us)
    obtain u st1 where us: "us = (u, st1)" by (cases us) auto
    show ?thesis
    proof (cases u)
      case None
      with assms Inr us show ?thesis
        by (intro refused [of u st1 O_ignored]) (auto simp: process_subscription_def Let_def)
    next
      case (Some v)
      let ?old = "tx_subscription (bd_provider d) (ss_subscriptionRef s) st1"
      consider (moved) old where "?old = Some old" "sub_userId old \<noteq> v"
        | (stale) old where "?old = Some old" "sub_userId old = v" "be_occurredAt event < sub_providerStateAt old"
        | (ok) "\<forall>old. ?old = Some old \<longrightarrow> sub_userId old = v \<and> sub_providerStateAt old \<le> be_occurredAt event"
        by force
      then show ?thesis
      proof cases
        case moved
        with assms Inr us Some show ?thesis
          by (intro refused [of u st1 O_ignored]) (auto simp: process_subscription_def Let_def)
      next
        case stale
        with assms Inr us Some show ?thesis
          by (intro refused [of u st1 O_stale]) (auto simp: process_subscription_def Let_def)
      next
        case ok
        have tests: "\<not> (case ?old of None \<Rightarrow> False | Some old \<Rightarrow> sub_userId old \<noteq> v)"
            "\<not> (case ?old of None \<Rightarrow> False | Some old \<Rightarrow> be_occurredAt event < sub_providerStateAt old)"
          using ok by (auto split: option.splits)
        show ?thesis
        proof (cases "offer_for d (ss_priceRef s)")
          case None
          with assms Inr us Some tests show ?thesis
            by (intro failed [of UNMAPPED_PRICE]) (auto simp: process_subscription_def Let_def)
        next
          case (Some offer)
          with assms Inr us \<open>u = Some v\<close> tests ok show ?thesis
            by (intro applied [of v st1 offer]) (auto simp: process_subscription_def Let_def)
        qed
      qed
    qed
  qed
qed

text \<open>What a transaction of the processor does: nothing, a repetition, or one claimed event.\<close>

definition event_ref :: "BillingEvent \<Rightarrow> string option" where
  "event_ref event = (case be_kind event of Subscription_Changed s \<Rightarrow> Some (ss_subscriptionRef s) | _ \<Rightarrow> None)"

definition duplicate :: process_result where
  "duplicate = \<lparr>pr_outcome = P_duplicate, pr_userId = None, pr_reason = None\<rparr>"

lemma process_cases:
  assumes "process d directory event at later (st, access) = (r, (st', access'))"
  obtains (failed) e where "r = Inl e" "st' = st" "access' = access"
  | (repeated) "r = Inr duplicate" "st' = st" "access' = access"
      "map_of (bs_events st) (billing_key (bd_provider d) (be_eventId event)) \<noteq> None"
  | (claimed) st1 x where "claimEvent (bd_provider d) event (event_ref event) at st = (True, st1)" "r = Inr x"
      "(case be_kind event of
          Ignored_Event \<Rightarrow>
            settle (bd_provider d) event O_ignored None (Some ''event_type_not_used'') (st1, access)
        | Checkout_Completed c k u \<Rightarrow> process_checkout d event c k u at (st1, access)
        | Subscription_Changed s \<Rightarrow> process_subscription d directory event s at later (st1, access)) = (r, (st', access'))"
proof -
  obtain claimed' st1 where c: "claimEvent (bd_provider d) event (event_ref event) at st = (claimed', st1)"
    by (cases "claimEvent (bd_provider d) event (event_ref event) at st") auto
  show ?thesis
  proof (cases claimed')
    case False
    with c have "process d directory event at later (st, access) = (Inr duplicate, (st1, access))"
      unfolding process_def transaction_def duplicate_def event_ref_def [symmetric] Let_def by simp
    moreover have "st1 = st \<and> map_of (bs_events st) (billing_key (bd_provider d) (be_eventId event)) \<noteq> None"
    proof -
      from c False have "claimEvent (bd_provider d) event (event_ref event) at st = (False, st1)" by simp
      then show ?thesis unfolding claimEvent_duplicate .
    qed
    ultimately show ?thesis using assms by (intro repeated) auto
  next
    case True
    let ?w = "(case be_kind event of
          Ignored_Event \<Rightarrow>
            settle (bd_provider d) event O_ignored None (Some ''event_type_not_used'') (st1, access)
        | Checkout_Completed c k u \<Rightarrow> process_checkout d event c k u at (st1, access)
        | Subscription_Changed s \<Rightarrow> process_subscription d directory event s at later (st1, access))"
    obtain r2 st2 access2 where w: "?w = (r2, (st2, access2))" by (cases ?w) auto
    have p: "process d directory event at later (st, access) =
        (case r2 of Inl e \<Rightarrow> (Inl e, (st, access2)) | Inr x \<Rightarrow> (Inr x, (st2, access2)))"
      using c True w unfolding process_def transaction_def event_ref_def [symmetric] Let_def by (cases r2) simp_all
    show ?thesis
    proof (cases r2)
      case (Inl e)
      have "access2 = access"
      proof (cases "be_kind event")
        case (Subscription_Changed s)
        then have "process_subscription d directory event s at later (st1, access) = (r2, (st2, access2))" using w by simp
        then show ?thesis
          by (cases rule: process_subscription_cases) (auto simp: Inl elim: apply_subscription_cases)
      next
        case (Checkout_Completed c k u)
        with w Inl show ?thesis
          by (auto simp: process_checkout_def Let_def split: option.splits if_splits prod.splits bind_result.splits)
      qed (use w Inl in auto)
      with p assms Inl show ?thesis by (intro failed [of e]) auto
    next
      case (Inr x)
      with p assms w c True show ?thesis by (intro claimed [of st1 x]) auto
    qed
  qed
qed

lemma extends_keeps_claim: "extends st1 st' \<Longrightarrow> dom (map_of (bs_events st1)) \<subseteq> dom (map_of (bs_events st'))"
  by (simp add: extends_def keeps_events_def)

lemma process_checkout_extends:
  "process_checkout d event c k u at (st, access) = (r, (st', access')) \<Longrightarrow> extends st st' \<and> access' = access"
  using extends_bind [of st "bd_provider d" k _ at] extends_outcome extends_complete
  unfolding process_checkout_def Let_def
  by (auto split: option.splits if_splits prod.splits bind_result.splits) (metis extends_trans snd_conv)+

lemma process_subscription_extends:
  assumes "process_subscription d directory event s at later (st, access) = (Inr x, (st', access'))"
  shows "extends st st'"
  using assms
proof (cases rule: process_subscription_cases)
  case (refused u st1 o1 reason u')
  then show ?thesis using subscription_owner_extends [OF refused(1)] extends_outcome extends_trans by metis
next
  case (applied u st1 offer)
  from applied(4) show ?thesis
  proof (cases rule: apply_subscription_cases)
    case (stored new)
    have "extends st1 (putSubscription new st1)"
      by (rule extends_put) (use stored(1) applied(2) in \<open>auto simp: stored_subscription_def\<close>)
    then show ?thesis
      using subscription_owner_extends [OF applied(1)] extends_outcome extends_trans stored(2) by metis
  qed simp
qed simp

lemma process_extends:
  assumes "process d directory event at later (st, access) = (r, (st', access'))"
  shows "extends st st'"
  using assms
proof (cases rule: process_cases)
  case (claimed st1 x)
  have "extends st st1" using extends_claim [of st "bd_provider d" event "event_ref event" at] claimed(1) by simp
  moreover have "extends st1 st'"
    using claimed(2,3) extends_outcome
    by (auto split: event_kind.splits dest: process_subscription_extends process_checkout_extends)
  ultimately show ?thesis by (rule extends_trans)
qed simp_all

section \<open>Runs\<close>

inductive billing_run :: "BillingProcessorDeps \<Rightarrow> billing_state \<Rightarrow> billing_state \<Rightarrow> bool" for d where
  here: "billing_run d s s"
| event: "billing_run d s t \<Longrightarrow> billing_run d s (snd (process d directory event at later t))"
| checkout: "billing_run d s (st, access) \<Longrightarrow>
    (\<forall>u offer c ref url. createCheckout u offer c = Inr (ref, url) \<longrightarrow>
       map_of (bs_checkouts st) (billing_key (bd_provider d) ref) = None) \<Longrightarrow>
    billing_run d s (snd (startCheckout d createCheckout userId offerId now (st, access)))"
| operator: "billing_run d s (st, access) \<Longrightarrow> input_ok input \<Longrightarrow>
    billing_run d s (st, snd (mutate directory input at access))"

lemma startCheckout_cases:
  obtains (refused) "snd (startCheckout d createCheckout u i now (st, access)) = (st, access)"
  | (recorded) offer ref url where "createCheckout u offer (customerOf (bd_provider d) u st) = Inr (ref, url)"
      "snd (startCheckout d createCheckout u i now (st, access)) =
         (recordCheckout (bd_provider d) ref u (offer_id offer) now st, access)"
proof (cases "snd (startCheckout d createCheckout u i now (st, access)) = (st, access)")
  case False
  then have "\<exists>offer ref url. createCheckout u offer (customerOf (bd_provider d) u st) = Inr (ref, url) \<and>
      snd (startCheckout d createCheckout u i now (st, access)) =
        (recordCheckout (bd_provider d) ref u (offer_id offer) now st, access)"
    unfolding startCheckout_def Let_def provider_call_def
    by (auto split: option.splits if_splits sum.splits prod.splits)
  then show ?thesis using recorded by blast
qed (rule refused)

lemma run_extends: "billing_run d s t \<Longrightarrow> extends (fst s) (fst t)"
proof (induction rule: billing_run.induct)
  case (event s t directory ev at later)
  obtain st access r st' access' where
      "t = (st, access)" "process d directory ev at later (st, access) = (r, (st', access'))"
    by (cases t, cases "process d directory ev at later t") auto
  with event.IH show ?case by (auto intro: extends_trans process_extends)
next
  case (checkout s st access createCheckout userId offerId now)
  show ?case
  proof (cases rule: startCheckout_cases [of d createCheckout userId offerId now st access])
    case refused
    with checkout.IH show ?thesis by simp
  next
    case (recorded offer ref url)
    then have "extends st (recordCheckout (bd_provider d) ref userId (offer_id offer) now st)"
      using checkout.hyps(2) by (intro extends_record) blast
    with checkout.IH recorded show ?thesis by (auto intro: extends_trans)
  qed
qed simp_all

text \<open>
  C34. A provider event takes effect at most once, and wholly or not at all. Processing
  that fails leaves both stores exactly as they were, so the retry of the provider starts
  over; once an event was processed, every later delivery of the same event id, whatever
  it carries and whatever ran in between, is recognised as a duplicate and changes nothing.
\<close>

theorem webhook_exactly_once:
  shows "(process d directory event at later s = (Inl e, s') \<longrightarrow> s' = s) \<and>
    (process d directory event at later s = (Inr x, s') \<and> billing_run d s' t \<and> be_eventId again = be_eventId event \<longrightarrow>
       process d directory' again at' later' t = (Inr duplicate, t))"
proof (intro conjI impI; (elim conjE)?)
  assume "process d directory event at later s = (Inl e, s')"
  then show "s' = s" by (cases s; cases s') (auto elim: process_cases)
next
  assume p: "process d directory event at later s = (Inr x, s')" and run: "billing_run d s' t"
    and same: "be_eventId again = be_eventId event"
  let ?k = "billing_key (bd_provider d) (be_eventId event)"
  obtain st access st' access' where s: "s = (st, access)" "s' = (st', access')" by (cases s; cases s') auto
  have "?k \<in> dom (map_of (bs_events st'))"
    using p [unfolded s]
  proof (cases rule: process_cases)
    case (claimed st1 y)
    have "extends st1 st'"
      using claimed(2,3) extends_outcome
      by (auto split: event_kind.splits dest: process_subscription_extends process_checkout_extends)
    with claimEvent_claimed [OF claimed(1)] show ?thesis using extends_keeps_claim by blast
  qed auto
  with run_extends [OF run] s have "?k \<in> dom (map_of (bs_events (fst t)))"
    using extends_keeps_claim by (metis fst_conv subsetD)
  then have "claimEvent (bd_provider d) again (event_ref again) at' (fst t) = (False, fst t)"
    by (auto simp: claimEvent_duplicate same)
  then show "process d directory' again at' later' t = (Inr duplicate, t)"
    by (cases t) (simp add: process_def transaction_def duplicate_def event_ref_def)
qed

section \<open>Who owns what\<close>

definition checkouts_ok :: "string \<Rightarrow> billing_store \<Rightarrow> bool" where
  "checkouts_ok p st \<longleftrightarrow> (\<forall>c\<in>snd ` set (bs_checkouts st). sc_provider c = p)"

definition customers_ok :: "string \<Rightarrow> billing_store \<Rightarrow> bool" where
  "customers_ok p st \<longleftrightarrow>
     (\<forall>k u t. map_of (bs_customers st) k = Some (u, t) \<longrightarrow> (\<exists>c. k = billing_key p c) \<and> hasCheckoutFor p u st) \<and>
     (\<forall>k k' u t t'. map_of (bs_customers st) k = Some (u, t) \<and> map_of (bs_customers st) k' = Some (u, t') \<longrightarrow> k = k')"

definition subscriptions_ok :: "string \<Rightarrow> billing_store \<Rightarrow> bool" where
  "subscriptions_ok p st \<longleftrightarrow> (\<forall>k s. map_of (bs_subscriptions st) k = Some s \<longrightarrow>
     k = billing_key p (sub_subscriptionRef s) \<and> customerUser p (sub_customerRef s) st = Some (sub_userId s))"

definition billing_inv :: "string \<Rightarrow> billing_store \<Rightarrow> bool" where
  "billing_inv p st \<longleftrightarrow> checkouts_ok p st \<and> customers_ok p st \<and> subscriptions_ok p st"

lemma billing_inv_empty: "billing_inv p empty_billing"
  by (simp add: billing_inv_def checkouts_ok_def customers_ok_def subscriptions_ok_def empty_billing_def)

lemma inv_frame:
  assumes "billing_inv p st" "bs_customers st' = bs_customers st" "bs_subscriptions st' = bs_subscriptions st"
    and "keeps_checkouts st st'" "checkouts_ok p st'"
  shows "billing_inv p st'"
proof -
  have "customers_ok p st'"
    using assms(1,2,4) unfolding billing_inv_def customers_ok_def keeps_checkouts_def by metis
  moreover have "subscriptions_ok p st'"
    using assms(1,2,3) by (simp add: billing_inv_def subscriptions_ok_def customerUser_def)
  ultimately show ?thesis using assms(5) by (simp add: billing_inv_def)
qed

lemma inv_claim: "billing_inv p st \<Longrightarrow> billing_inv p (snd (claimEvent q e r at st))"
  by (rule inv_frame [where st = st])
     (auto simp: billing_frame billing_inv_def checkouts_ok_def keeps_checkouts_def hasCheckoutFor_def)

lemma inv_outcome: "billing_inv p st \<Longrightarrow> billing_inv p (setEventOutcome q i o1 st)"
  by (rule inv_frame [where st = st])
     (auto simp: billing_frame billing_inv_def checkouts_ok_def keeps_checkouts_def hasCheckoutFor_def)

lemma values_update: "snd ` set (AList.update k v xs) \<subseteq> insert v (snd ` set xs)"
  by (induction xs) auto

lemma inv_complete:
  assumes "billing_inv p st"
  shows "billing_inv p (completeCheckout q c at st)"
proof (rule inv_frame [OF assms])
  show "keeps_checkouts st (completeCheckout q c at st)" using extends_complete by (simp add: extends_def)
  have "sc_provider d = p" if "map_of (bs_checkouts st) k = Some d" for k d
    using assms map_of_SomeD [OF that] by (force simp: billing_inv_def checkouts_ok_def)
  then show "checkouts_ok p (completeCheckout q c at st)"
    using assms values_update [of "billing_key q c" _ "bs_checkouts st"]
    by (fastforce simp: billing_inv_def checkouts_ok_def completeCheckout_def split: option.splits)
qed (simp_all add: billing_frame)

lemma inv_record:
  assumes "billing_inv p st" "map_of (bs_checkouts st) (billing_key p c) = None"
  shows "billing_inv p (recordCheckout p c u i at st)"
proof (rule inv_frame [OF assms(1)])
  show "keeps_checkouts st (recordCheckout p c u i at st)" using extends_record [OF assms(2)] by (simp add: extends_def)
  show "checkouts_ok p (recordCheckout p c u i at st)"
    using assms values_update [of "billing_key p c" _ "bs_checkouts st"]
    by (fastforce simp: billing_inv_def checkouts_ok_def recordCheckout_def)
qed (simp_all add: billing_frame)

lemma customerUser_extends: "extends st st' \<Longrightarrow> customerUser p c st = Some u \<Longrightarrow> customerUser p c st' = Some u"
  by (force simp: extends_def keeps_customers_def customerUser_def map_le_def dom_def)

lemma inv_bind:
  assumes "billing_inv p st" "hasCheckoutFor p u st"
  shows "billing_inv p (snd (bindCustomer p c u at st))"
proof (cases "fst (bindCustomer p c u at st) = Bound")
  case False
  then have "snd (bindCustomer p c u at st) = st" by (auto simp: bindCustomer_def split: option.splits if_splits)
  with assms(1) show ?thesis by simp
next
  case True
  let ?st = "snd (bindCustomer p c u at st)"
  from True have cs: "bs_customers ?st = AList.update (billing_key p c) (u, at) (bs_customers st)"
      and free: "\<not> list_ex (\<lambda>(k, v). starts_with (p @ ''|'') k \<and> fst v = u) (bs_customers st)"
    by (auto simp: bindCustomer_def split: option.splits if_splits)
  have ext: "extends st ?st" by (rule extends_bind)
  have other: "v \<noteq> u" if "map_of (bs_customers st) k = Some (v, t)" for k v t
  proof -
    obtain c' where "k = billing_key p c'" using assms(1) \<open>map_of (bs_customers st) k = Some (v, t)\<close>
      unfolding billing_inv_def customers_ok_def by blast
    then have "starts_with (p @ ''|'') k" using starts_with_append [of "p @ ''|''" c'] by (simp add: billing_key_def)
    with free map_of_SomeD [OF that] show ?thesis by (force simp: list_ex_iff)
  qed
  have check: "hasCheckoutFor p v ?st" if "hasCheckoutFor p v st" for v
    using ext that by (simp add: extends_def keeps_checkouts_def)
  have "customers_ok p ?st"
    unfolding customers_ok_def cs update_conv'
    using assms(1) [unfolded billing_inv_def customers_ok_def] check [OF assms(2)] check other
    by (auto split: if_splits)
  moreover have "subscriptions_ok p ?st"
    using assms(1) customerUser_extends [OF ext] by (auto simp: billing_inv_def subscriptions_ok_def billing_frame)
  moreover have "checkouts_ok p ?st" using assms(1) by (simp add: billing_inv_def checkouts_ok_def billing_frame)
  ultimately show ?thesis by (simp add: billing_inv_def)
qed

lemma inv_put:
  assumes "billing_inv p st" "sub_provider s = p" "customerUser p (sub_customerRef s) st = Some (sub_userId s)"
  shows "billing_inv p (putSubscription s st)"
proof -
  have "customers_ok p (putSubscription s st)" "checkouts_ok p (putSubscription s st)"
    using assms(1) by (simp_all add: billing_inv_def customers_ok_def checkouts_ok_def hasCheckoutFor_def billing_frame)
  moreover have "subscriptions_ok p (putSubscription s st)"
    using assms by (auto simp: billing_inv_def subscriptions_ok_def customerUser_def putSubscription_def update_conv')
  ultimately show ?thesis by (simp add: billing_inv_def)
qed

lemma bindCustomer_bound:
  "bindCustomer p c u at st = (b, st') \<Longrightarrow> b \<noteq> Conflict \<Longrightarrow> customerUser p c st' = Some u"
  by (auto simp: bindCustomer_def customerUser_def split: option.splits if_splits)

lemma subscription_owner_bound:
  "subscription_owner d s at st = Inr (Some u, st1) \<Longrightarrow> customerUser (bd_provider d) (ss_customerRef s) st1 = Some u"
  by (auto simp: subscription_owner_def Let_def split: option.splits if_splits prod.splits bind_result.splits
      dest: bindCustomer_bound)

lemma subscription_owner_inv:
  assumes "subscription_owner d s at st = Inr (u, st1)" "billing_inv (bd_provider d) st"
  shows "billing_inv (bd_provider d) st1"
proof -
  have "st1 = st \<or> (\<exists>ref. hasCheckoutFor (bd_provider d) ref st \<and>
      st1 = snd (bindCustomer (bd_provider d) (ss_customerRef s) ref at st))"
    using assms(1) unfolding subscription_owner_def Let_def
    by (auto split: option.splits if_splits prod.splits bind_result.splits)
  with assms(2) inv_bind show ?thesis by auto
qed

lemma process_checkout_inv:
  assumes "process_checkout d event c k u at (st, access) = (r, (st', access'))" "billing_inv (bd_provider d) st"
  shows "billing_inv (bd_provider d) st'"
proof (cases "tx_checkout (bd_provider d) c st")
  case None
  with assms show ?thesis by (auto simp: process_checkout_def intro: inv_outcome)
next
  case (Some checkout)
  have "checkout \<in> snd ` set (bs_checkouts st)" using map_of_SomeD [OF Some [unfolded tx_checkout_def]] by force
  with assms(2) have "hasCheckoutFor (bd_provider d) (sc_userId checkout) st"
    by (auto simp: hasCheckoutFor_set billing_inv_def checkouts_ok_def)
  then have "billing_inv (bd_provider d) (snd (bindCustomer (bd_provider d) k (sc_userId checkout) at st))"
    by (rule inv_bind [OF assms(2)])
  with assms Some show ?thesis
    by (auto simp: process_checkout_def Let_def intro!: inv_outcome inv_complete
        split: if_splits prod.splits bind_result.splits)
qed

lemma process_subscription_inv:
  assumes "process_subscription d directory event s at later (st, access) = (Inr x, (st', access'))"
    and "billing_inv (bd_provider d) st"
  shows "billing_inv (bd_provider d) st'"
  using assms(1)
proof (cases rule: process_subscription_cases)
  case (refused u st1 o1 reason u')
  then show ?thesis using subscription_owner_inv [OF refused(1) assms(2)] by (simp add: inv_outcome)
next
  case (applied u st1 offer)
  from applied(4) show ?thesis
  proof (cases rule: apply_subscription_cases)
    case (stored new)
    have "billing_inv (bd_provider d) (putSubscription new st1)"
      by (rule inv_put [OF subscription_owner_inv [OF applied(1) assms(2)]])
        (use stored(1) subscription_owner_bound [OF applied(1)] in \<open>simp_all add: stored_subscription_def\<close>)
    then show ?thesis unfolding stored(2) by (rule inv_outcome)
  qed simp
qed simp

lemma process_inv:
  assumes "process d directory event at later (st, access) = (r, (st', access'))" "billing_inv (bd_provider d) st"
  shows "billing_inv (bd_provider d) st'"
  using assms(1)
proof (cases rule: process_cases)
  case (claimed st1 x)
  have "billing_inv (bd_provider d) st1"
    using inv_claim [OF assms(2), of "bd_provider d" event "event_ref event" at] claimed(1) by simp
  with claimed(2,3) show ?thesis
    by (auto split: event_kind.splits intro: inv_outcome dest: process_subscription_inv process_checkout_inv)
qed (use assms(2) in simp_all)

text \<open>Access stays in order: a processed event is at most one synchronisation.\<close>

lemma input_ok_sync: "input_ok (sync_input p u event desired)"
  by (simp add: input_ok_def sync_input_def)

lemma process_access:
  assumes "process d directory event at later (st, access) = (r, (st', access'))"
  shows "access' = access \<or> (\<exists>u desired. access' = snd (mutate directory (sync_input (bd_provider d) u event desired) later access))"
  using assms
proof (cases rule: process_cases)
  case (claimed st1 x)
  show ?thesis
  proof (cases "be_kind event")
    case (Subscription_Changed s)
    with claimed(3) have "process_subscription d directory event s at later (st1, access) = (r, (st', access'))" by simp
    then show ?thesis
    proof (cases rule: process_subscription_cases)
      case (applied u st2 offer)
      from applied(4) show ?thesis
      proof (cases rule: apply_subscription_cases)
        case (stored new)
        show ?thesis
        proof (cases "desiredEntitlement (subscriptionsOf u (putSubscription new st2)) (bd_policy d)")
          case (Some desired)
          with stored(4) obtain cs where "mutate directory (sync_input (bd_provider d) u event desired) later access = (Inr cs, access')"
            by auto
          then have "access' = snd (mutate directory (sync_input (bd_provider d) u event desired) later access)" by simp
          then show ?thesis by blast
        qed (use stored(4) in simp)
      qed simp
    qed simp_all
  qed (use claimed(3) process_checkout_extends in auto)
qed simp_all

definition billing_reachable :: "BillingProcessorDeps \<Rightarrow> billing_state \<Rightarrow> bool" where
  "billing_reachable d s \<longleftrightarrow> billing_run d (empty_billing, empty_access) s"

lemma run_inv:
  assumes "billing_run d s t" "billing_inv (bd_provider d) (fst s)" "store_ok (snd s)"
  shows "billing_inv (bd_provider d) (fst t) \<and> store_ok (snd t)"
  using assms
proof (induction rule: billing_run.induct)
  case (event s t directory ev at later)
  obtain st access r st' access' where t: "t = (st, access)"
      and p: "process d directory ev at later (st, access) = (r, (st', access'))"
    by (cases t, cases "process d directory ev at later t") auto
  from event.IH event.prems t have "billing_inv (bd_provider d) st" "store_ok access" by simp_all
  moreover have "store_ok access'"
    using process_access [OF p] \<open>store_ok access\<close> store_ok_mutate input_ok_sync by auto
  ultimately show ?case using process_inv [OF p] p t by simp
next
  case (checkout s st access createCheckout userId offerId now)
  show ?case
  proof (cases rule: startCheckout_cases [of d createCheckout userId offerId now st access])
    case (recorded offer ref url)
    have "map_of (bs_checkouts st) (billing_key (bd_provider d) ref) = None"
      using checkout.hyps(2) recorded(1) by blast
    with checkout recorded show ?thesis using inv_record by auto
  qed (use checkout in simp)
next
  case (operator s st access input directory at)
  then show ?case using store_ok_mutate by auto
qed simp

lemma billing_reachable_inv: "billing_reachable d s \<Longrightarrow> billing_inv (bd_provider d) (fst s) \<and> store_ok (snd s)"
  unfolding billing_reachable_def by (erule run_inv) (simp_all add: billing_inv_empty store_ok_empty)

text \<open>
  C35. Subscriptions never change hands and never go back in time. In every reachable
  state a stored subscription belongs to the account its provider customer is bound to,
  that account started a checkout here, and it has no other customer; and in every later
  state the customer is still bound to that account, and the subscription is still
  stored, for the same account, with a provider state that is no older.
\<close>

theorem subscriptions_keep_their_owner:
  assumes "billing_reachable d s" and "map_of (bs_subscriptions (fst s)) k = Some sub" and "billing_run d s t"
  shows "customerUser (bd_provider d) (sub_customerRef sub) (fst s) = Some (sub_userId sub) \<and>
     hasCheckoutFor (bd_provider d) (sub_userId sub) (fst s) \<and>
     (\<forall>c. customerUser (bd_provider d) c (fst s) = Some (sub_userId sub) \<longrightarrow> c = sub_customerRef sub) \<and>
     customerUser (bd_provider d) (sub_customerRef sub) (fst t) = Some (sub_userId sub) \<and>
     (\<exists>sub'. map_of (bs_subscriptions (fst t)) k = Some sub' \<and> sub_userId sub' = sub_userId sub \<and>
        sub_providerStateAt sub \<le> sub_providerStateAt sub')"
proof -
  let ?p = "bd_provider d"
  from billing_reachable_inv [OF assms(1)] have inv: "customers_ok ?p (fst s)" "subscriptions_ok ?p (fst s)"
    by (simp_all add: billing_inv_def)
  from inv(2) assms(2) have owner: "customerUser ?p (sub_customerRef sub) (fst s) = Some (sub_userId sub)"
    by (simp add: subscriptions_ok_def)
  then obtain at where bound: "map_of (bs_customers (fst s)) (billing_key ?p (sub_customerRef sub)) = Some (sub_userId sub, at)"
    by (auto simp: customerUser_def)
  have ext: "extends (fst s) (fst t)" by (rule run_extends [OF assms(3)])
  have "hasCheckoutFor ?p (sub_userId sub) (fst s)" using inv(1) bound unfolding customers_ok_def by blast
  moreover have "c = sub_customerRef sub" if "customerUser ?p c (fst s) = Some (sub_userId sub)" for c
  proof -
    from that obtain at' where "map_of (bs_customers (fst s)) (billing_key ?p c) = Some (sub_userId sub, at')"
      by (auto simp: customerUser_def)
    with bound inv(1) have "billing_key ?p c = billing_key ?p (sub_customerRef sub)" unfolding customers_ok_def by blast
    then show ?thesis by simp
  qed
  moreover have "customerUser ?p (sub_customerRef sub) (fst t) = Some (sub_userId sub)"
    by (rule customerUser_extends [OF ext owner])
  moreover have "\<exists>sub'. map_of (bs_subscriptions (fst t)) k = Some sub' \<and> sub_userId sub' = sub_userId sub \<and>
      sub_providerStateAt sub \<le> sub_providerStateAt sub'"
    using ext assms(2) by (simp add: extends_def keeps_subscriptions_def)
  ultimately show ?thesis using owner by blast
qed

section \<open>Access says what the subscriptions say\<close>

lemma byEnd_order: "byEnd a b \<or> byEnd b a" "byEnd a b \<Longrightarrow> byEnd b c \<Longrightarrow> byEnd a c"
  by (auto simp: byEnd_def)

text \<open>The request of an entitling subscription if there is one, and of those the one that ends last.\<close>

definition best_request :: "StoredSubscription list \<Rightarrow> BillingPolicy \<Rightarrow> SyncRequest \<Rightarrow> bool" where
  "best_request subs policy desired \<longleftrightarrow> desired \<in> (\<lambda>s. entitlementFor s policy) ` set subs \<and>
     (sy_active desired \<longleftrightarrow> (\<exists>s\<in>set subs. sy_active (entitlementFor s policy))) \<and>
     (\<forall>s\<in>set subs. sy_active (entitlementFor s policy) = sy_active desired \<longrightarrow>
        sy_expiresAt (entitlementFor s policy) \<le> sy_expiresAt desired)"

lemma desiredEntitlement_best:
  assumes "desiredEntitlement subs policy = Some desired"
  shows "best_request subs policy desired"
proof -
  let ?all = "map (\<lambda>s. entitlementFor s policy) subs"
  have sorted: "hd (sort_by byEnd xs) \<in> set xs \<and> (\<forall>x\<in>set xs. byEnd (hd (sort_by byEnd xs)) x)" if "xs \<noteq> []" for xs
    by (rule hd_sort_by) (use that byEnd_order in blast)+
  have empty: "sort_by byEnd xs = [] \<longleftrightarrow> xs = []" for xs using set_sort_by [of byEnd xs] by (metis set_empty)
  show ?thesis
  proof (cases "filter sy_active ?all = []")
    case True
    with assms have ne: "subs \<noteq> []" and d: "desired = hd (sort_by byEnd ?all)"
      by (auto simp: desiredEntitlement_def Let_def empty split: if_splits)
    from True have off: "\<forall>r\<in>set ?all. \<not> sy_active r" by (auto simp: filter_empty_conv)
    from sorted [of ?all] ne d have "desired \<in> set ?all" "\<forall>r\<in>set ?all. byEnd desired r" by auto
    with off show ?thesis by (auto simp: best_request_def byEnd_def)
  next
    case False
    then have "subs \<noteq> []" by auto
    with False assms have d: "desired = hd (sort_by byEnd (filter sy_active ?all))"
      by (simp add: desiredEntitlement_def Let_def empty split: if_splits)
    from sorted [OF False] d have "desired \<in> set (filter sy_active ?all)" "\<forall>r\<in>set (filter sy_active ?all). byEnd desired r"
      by auto
    then show ?thesis by (auto simp: best_request_def byEnd_def)
  qed
qed

lemma desiredEntitlement_None: "desiredEntitlement subs policy = None \<longleftrightarrow> subs = []"
  by (simp add: desiredEntitlement_def Let_def)

text \<open>What the row of billing is after it was synchronised with a request.\<close>

definition row_follows :: "SyncRequest \<Rightarrow> bool \<Rightarrow> int \<Rightarrow> Entitlement option \<Rightarrow> bool" where
  "row_follows desired held now r =
     (if sy_active desired
      then map_option snapshot r = Some \<lparr>sn_status = (if held then E_SUSPENDED else E_ACTIVE),
             sn_startsAt = sy_startsAt desired, sn_expiresAt = Some (sy_expiresAt desired),
             sn_kind = sy_kind desired, sn_planId = sy_planId desired\<rparr>
      else (\<forall>t\<ge>now. \<not> snd (evaluateAccess r t)))"

lemma evaluateAccess_snapshot: "snapshot e = snapshot e' \<Longrightarrow> evaluateAccess (Some e) t = evaluateAccess (Some e') t"
  by (simp add: evaluateAccess_def snapshot_def)

lemma plan_sync_follows:
  assumes "account_ok f" "plan_sync (two_rows f) desired now = Inr cs"
  shows "row_follows desired (\<exists>s e. f s = Some e \<and> e_status e = E_SUSPENDED) now (apply_changes input now cs f Via_Billing) \<and>
    apply_changes input now cs f Via_Operator = f Via_Operator"
proof -
  have bs: "bySource (two_rows f) Via_Billing = f Via_Billing" by (rule two_rows_bySource [OF assms(1)])
  have held: "list_ex (\<lambda>row. e_status row = E_SUSPENDED) (two_rows f) \<longleftrightarrow>
      (\<exists>s e. f s = Some e \<and> e_status e = E_SUSPENDED)"
  proof -
    have "list_ex (\<lambda>row. e_status row = E_SUSPENDED) (two_rows f) \<longleftrightarrow>
        (\<exists>e. f (e_grantedVia e) = Some e \<and> e_status e = E_SUSPENDED)"
      using in_two_rows [OF assms(1)] by (auto simp: list_ex_iff)
    then show ?thesis using assms(1) unfolding account_ok_def by metis
  qed
  have op: "apply_changes input now cs f Via_Operator = f Via_Operator"
    using assms(2) by (auto simp: plan_sync_def Let_def apply_changes_def split: if_splits option.splits)
  show ?thesis
  proof (cases "sy_active desired")
    case True
    with assms(2) op show ?thesis
      by (auto simp: plan_sync_def Let_def bs held row_follows_def apply_changes_def snapshot_written split: if_splits)
  next
    case False
    have closed: "\<not> snd (evaluateAccess (Some e') t)"
      if "snapshot e' = closed_window e desired now" "now \<le> t" for e e' t
      using that unfolding evaluateAccess_active by (auto simp: snapshot_def closed_window_def Let_def)
    show ?thesis
    proof (cases "f Via_Billing")
      case None
      with False assms(2) op show ?thesis
        by (auto simp: plan_sync_def Let_def bs row_follows_def apply_changes_def evaluateAccess_def split: if_splits)
    next
      case (Some e)
      have "\<exists>e'. apply_changes input now cs f Via_Billing = Some e' \<and> snapshot e' = closed_window e desired now"
        using False assms(2) Some
        by (auto simp: plan_sync_def Let_def bs apply_changes_def snapshot_written split: if_splits)
      with False op closed show ?thesis by (auto simp: row_follows_def)
    qed
  qed
qed

lemma sync_rows:
  assumes "store_ok access" "mutate directory (sync_input p u event desired) now access = (Inr cs, access')"
  shows "row_follows desired (\<exists>s e. row access u s = Some e \<and> e_status e = E_SUSPENDED) now (row access' u Via_Billing) \<and>
    row access' u Via_Operator = row access u Via_Operator \<and> (\<forall>v. v \<noteq> u \<longrightarrow> row access' v = row access v)"
proof -
  let ?i = "sync_input p u event desired"
  have u: "mi_userId ?i = u" by (simp add: sync_input_def)
  have acc: "account_ok (row access u)" "audit_ok access" using assms(1) by (simp_all add: store_ok_def)
  from assms(2) have plan: "plan_sync (two_rows (row access u)) desired now = Inr cs"
      and st: "access' = fold (write_change ?i now) cs access"
    by (auto simp: mutate_def planAccountMutation_def grantsOf_rows sync_input_def split: if_splits sum.splits)
  have ch: "changes_ok (row access (mi_userId ?i)) cs" using plan_sync_ok [OF acc(1) plan] u by simp
  have rows: "row access' v s = (if v = u then apply_changes ?i now cs (row access v) s else row access v s)" for v s
    using fold_write [OF ch acc(2), of now] u st by simp
  from plan_sync_follows [OF acc(1) plan, of ?i] show ?thesis by (auto simp: rows fun_eq_iff)
qed

text \<open>
  C36. Paid access follows the subscriptions. When a subscription event is applied, the
  subscription is stored as the event reports it, and the row of billing for that account
  becomes what its stored subscriptions are worth: if any entitles, exactly the window,
  kind and plan of the entitling one that ends last (held suspended while the account is
  suspended); if none does, a row that is active at no instant from then on. The operator's
  row of that account and all rows of other accounts stay as they were.
\<close>

theorem applied_event_syncs_access:
  assumes "billing_reachable d (st, access)"
    and "process d directory event at later (st, access) = (Inr x, (st', access'))"
    and "be_kind event = Subscription_Changed s" and "pr_outcome x = P_applied"
  shows "\<exists>u sub desired. pr_userId x = Some u \<and>
     tx_subscription (bd_provider d) (ss_subscriptionRef s) st' = Some sub \<and> sub_userId sub = u \<and>
     sub_status sub = ss_status s \<and> sub_providerStateAt sub = be_occurredAt event \<and>
     sub \<in> set (subscriptionsOf u st') \<and>
     best_request (subscriptionsOf u st') (bd_policy d) desired \<and>
     row_follows desired (\<exists>t e. row access u t = Some e \<and> e_status e = E_SUSPENDED) later (row access' u Via_Billing) \<and>
     row access' u Via_Operator = row access u Via_Operator \<and> (\<forall>v. v \<noteq> u \<longrightarrow> row access' v = row access v)"
  using assms(2)
proof (cases rule: process_cases)
  case repeated
  with assms(4) show ?thesis by (simp add: duplicate_def)
next
  case (claimed st1 y)
  with assms(3) have "process_subscription d directory event s at later (st1, access) = (Inr x, (st', access'))" by simp
  then show ?thesis
  proof (cases rule: process_subscription_cases)
    case (refused u st2 o1 reason u')
    with assms(4) show ?thesis by (cases o1) auto
  next
    case (applied u st2 offer)
    from applied(4) show ?thesis
    proof (cases rule: apply_subscription_cases)
      case (stored new)
      let ?st = "putSubscription new st2"
      have same: "bs_subscriptions st' = bs_subscriptions ?st" by (simp add: stored(2) billing_frame)
      then have subs: "subscriptionsOf u st' = subscriptionsOf u ?st" by (simp add: subscriptionsOf_def)
      have tx: "tx_subscription (bd_provider d) (ss_subscriptionRef s) st' = Some new"
        by (simp add: tx_subscription_def same stored(1) putSubscription_def stored_subscription_def update_conv')
      have fields: "sub_userId new = u" "sub_status new = ss_status s" "sub_providerStateAt new = be_occurredAt event"
        by (simp_all add: stored(1) stored_subscription_def)
      have mem: "new \<in> set (subscriptionsOf u st')"
        using map_of_SomeD [OF tx [unfolded tx_subscription_def]] fields by (force simp: subscriptionsOf_def)
      then have "desiredEntitlement (subscriptionsOf u ?st) (bd_policy d) \<noteq> None"
        by (auto simp: desiredEntitlement_None subs)
      then obtain desired where d: "desiredEntitlement (subscriptionsOf u ?st) (bd_policy d) = Some desired" by blast
      with stored(4) obtain cs where m: "mutate directory (sync_input (bd_provider d) u event desired) later access = (Inr cs, access')"
        by auto
      have "store_ok access" using billing_reachable_inv [OF assms(1)] by simp
      from sync_rows [OF this m] tx fields mem desiredEntitlement_best [OF d] stored(3) subs show ?thesis by auto
    qed simp
  qed simp
qed simp

section \<open>An account that subscribes\<close>

definition demo_deps :: BillingProcessorDeps where
  "demo_deps = \<lparr>bd_provider = ''test'',
     bd_offers = [\<lparr>offer_id = ''basic'', offer_planId = None, offer_priceRef = ''p1'', offer_name = ''Basic'',
        offer_description = None, offer_priceLabel = None, offer_interval = Some Per_Month, offer_features = []\<rparr>],
     bd_plans = [], bd_policy = \<lparr>renewalLeewayHours = 24, pastDueGraceHours = 0\<rparr>\<rparr>"

definition demo_event :: "string \<Rightarrow> string \<Rightarrow> SubscriptionStatus \<Rightarrow> int \<Rightarrow> BillingEvent" where
  "demo_event i price sstatus at = \<lparr>be_eventId = i, be_eventType = ''subscription.updated'', be_occurredAt = at,
     be_kind = Subscription_Changed \<lparr>ss_subscriptionRef = ''s1'', ss_customerRef = ''c1'', ss_priceRef = price,
       ss_status = sstatus, ss_currentPeriodStart = 1000, ss_currentPeriodEnd = 9000, ss_cancelAtPeriodEnd = False,
       ss_endedAt = None, ss_clientReference = Some ''u1''\<rparr>\<rparr>"

definition demo_checked_out :: billing_state where
  "demo_checked_out = snd (startCheckout demo_deps (\<lambda>_ _ _. Inr (''cs1'', ''url'')) ''u1'' (UString ''basic'') 1000
     (empty_billing, empty_access))"

definition demo_subscribed :: billing_state where
  "demo_subscribed = snd (process demo_deps [''u1''] (demo_event ''e1'' ''p1'' Sub_active 2000) 2000 2001 demo_checked_out)"

lemma demo_reachable: "billing_reachable demo_deps demo_checked_out" "billing_reachable demo_deps demo_subscribed"
proof -
  show r: "billing_reachable demo_deps demo_checked_out"
    unfolding billing_reachable_def demo_checked_out_def
    by (rule billing_run.checkout [OF billing_run.here]) (simp add: empty_billing_def)
  show "billing_reachable demo_deps demo_subscribed"
    using r unfolding billing_reachable_def demo_subscribed_def by (rule billing_run.event)
qed

lemma demo_processed:
  "process demo_deps [''u1''] (demo_event ''e1'' ''p1'' Sub_active 2000) 2000 2001 demo_checked_out =
     (Inr \<lparr>pr_outcome = P_applied, pr_userId = Some ''u1'', pr_reason = None\<rparr>, demo_subscribed)"
proof (rule prod_eqI)
  show "fst (process demo_deps [''u1''] (demo_event ''e1'' ''p1'' Sub_active 2000) 2000 2001 demo_checked_out) =
     fst (Inr \<lparr>pr_outcome = P_applied, pr_userId = Some ''u1'', pr_reason = None\<rparr>, demo_subscribed)" by code_simp
qed (simp add: demo_subscribed_def)

theorem webhook_exactly_once_witness:
  "process demo_deps [] (demo_event ''e1'' ''p9'' Sub_canceled 3000) 5000 5001 demo_subscribed = (Inr duplicate, demo_subscribed) \<and>
   fst (process demo_deps [''u1''] (demo_event ''e2'' ''p9'' Sub_active 2000) 2000 2001 demo_checked_out) = Inl UNMAPPED_PRICE \<and>
   snd (process demo_deps [''u1''] (demo_event ''e2'' ''p9'' Sub_active 2000) 2000 2001 demo_checked_out) = demo_checked_out"
proof -
  let ?p = "process demo_deps [''u1''] (demo_event ''e2'' ''p9'' Sub_active 2000) 2000 2001 demo_checked_out"
  have e: "fst ?p = Inl UNMAPPED_PRICE" by code_simp
  then have "?p = (Inl UNMAPPED_PRICE, snd ?p)" by (simp add: prod_eq_iff)
  with webhook_exactly_once have "snd ?p = demo_checked_out" by blast
  moreover have "be_eventId (demo_event ''e1'' ''p9'' Sub_canceled 3000) = be_eventId (demo_event ''e1'' ''p1'' Sub_active 2000)"
    by (simp add: demo_event_def)
  then have "process demo_deps [] (demo_event ''e1'' ''p9'' Sub_canceled 3000) 5000 5001 demo_subscribed = (Inr duplicate, demo_subscribed)"
    using webhook_exactly_once demo_processed billing_run.here by blast
  ultimately show ?thesis using e by simp
qed

lemma demo_stored:
  "\<exists>sub. map_of (bs_subscriptions (fst demo_subscribed)) ''test|s1'' = Some sub \<and> sub_userId sub = ''u1'' \<and> sub_customerRef sub = ''c1''"
proof -
  have "map_option (\<lambda>sub. (sub_userId sub, sub_customerRef sub)) (map_of (bs_subscriptions (fst demo_subscribed)) ''test|s1'') =
      Some (''u1'', ''c1'')"
    by code_simp
  then show ?thesis by auto
qed

theorem subscriptions_keep_their_owner_witness:
  "customerUser ''test'' ''c1'' (fst demo_subscribed) = Some ''u1'' \<and> hasCheckoutFor ''test'' ''u1'' (fst demo_subscribed)"
proof -
  obtain sub where s: "map_of (bs_subscriptions (fst demo_subscribed)) ''test|s1'' = Some sub"
      "sub_userId sub = ''u1''" "sub_customerRef sub = ''c1''"
    using demo_stored by blast
  have "bd_provider demo_deps = ''test''" by (simp add: demo_deps_def)
  with subscriptions_keep_their_owner [OF demo_reachable(2) s(1) billing_run.here] s show ?thesis by simp
qed

theorem applied_event_syncs_access_witness:
  "map_option (\<lambda>e. (e_status e, e_startsAt e, e_expiresAt e)) (row (snd demo_subscribed) ''u1'' Via_Billing) =
     Some (E_ACTIVE, 1000, Some 86409000) \<and>
   (\<exists>desired. best_request (subscriptionsOf ''u1'' (fst demo_subscribed)) (bd_policy demo_deps) desired \<and>
      row_follows desired False 2001 (row (snd demo_subscribed) ''u1'' Via_Billing))"
proof -
  have c: "billing_reachable demo_deps (fst demo_checked_out, snd demo_checked_out)" using demo_reachable(1) by simp
  have none: "\<not> (\<exists>t e. row (snd demo_checked_out) ''u1'' t = Some e \<and> e_status e = E_SUSPENDED)"
  proof -
    have "as_rows (snd demo_checked_out) = []" by code_simp
    then show ?thesis by (simp add: row_def)
  qed
  have p: "process demo_deps [''u1''] (demo_event ''e1'' ''p1'' Sub_active 2000) 2000 2001 (fst demo_checked_out, snd demo_checked_out) =
     (Inr \<lparr>pr_outcome = P_applied, pr_userId = Some ''u1'', pr_reason = None\<rparr>, (fst demo_subscribed, snd demo_subscribed))"
    using demo_processed by simp
  obtain s where "be_kind (demo_event ''e1'' ''p1'' Sub_active 2000) = Subscription_Changed s" by (simp add: demo_event_def)
  from applied_event_syncs_access [OF c p this] none obtain desired where
      "best_request (subscriptionsOf ''u1'' (fst demo_subscribed)) (bd_policy demo_deps) desired"
      "row_follows desired False 2001 (row (snd demo_subscribed) ''u1'' Via_Billing)"
    by auto
  moreover have "map_option (\<lambda>e. (e_status e, e_startsAt e, e_expiresAt e)) (row (snd demo_subscribed) ''u1'' Via_Billing) =
     Some (E_ACTIVE, 1000, Some 86409000)" by code_simp
  ultimately show ?thesis by blast
qed

end
