(* ===== verification/Billing_Provider.thy ===== *)
theory Billing_Provider
  imports Billing
begin

text \<open>
  The \<open>test\<close> billing provider, \<open>apps/api/src/billing/test-provider.ts\<close>, and the billing
  configuration, \<open>config.ts\<close>: the signed webhooks the simulator sends, their verification
  and strict parsing, the simulated life of a subscription, and the validation of offers.
  The HMAC, \<open>JSON.parse\<close> with \<open>JSON.stringify\<close>, and \<open>Date.parse\<close> with \<open>toISOString\<close> are
  functions of the platform and arguments here; so are the random references.
\<close>

section \<open>The wire format\<close>

definition is_ref_char :: "char \<Rightarrow> bool" where
  "is_ref_char c \<longleftrightarrow> is_lower_alnum c \<or> is_upper c \<or> c \<in> set ''_-.:''"

text \<open>\<open>/^[A-Za-z0-9_\-.:]{1,255}$/\<close>, for references and for event ids.\<close>

definition REF_SHAPE :: "string \<Rightarrow> bool" where
  "REF_SHAPE s \<longleftrightarrow> 1 \<le> length s \<and> length s \<le> 255 \<and> list_all is_ref_char s"

definition isRef :: "json option \<Rightarrow> string option" where
  "isRef v = (case v of Some (JString s) \<Rightarrow> if REF_SHAPE s then Some s else None | _ \<Rightarrow> None)"

definition is_type_char :: "char \<Rightarrow> bool" where
  "is_type_char c \<longleftrightarrow> is_lower_alnum c \<or> c = CHR ''_'' \<or> c = CHR ''.''"

text \<open>\<open>/^[a-z][a-z0-9_.]{0,99}$/\<close>\<close>

definition EVENT_TYPE :: "string \<Rightarrow> bool" where
  "EVENT_TYPE s \<longleftrightarrow> (case s of [] \<Rightarrow> False
     | c # t \<Rightarrow> is_lower_alnum c \<and> \<not> is_digit c \<and> length t \<le> 99 \<and> list_all is_type_char t)"

definition instant :: "(string \<Rightarrow> int option) \<Rightarrow> json option \<Rightarrow> webhook_error + int" where
  "instant Date_parse value = (case value of
       Some (JString s) \<Rightarrow> (case Date_parse s of None \<Rightarrow> Inl MALFORMED | Some ms \<Rightarrow> Inr ms)
     | _ \<Rightarrow> Inl MALFORMED)"

definition optional_instant :: "(string \<Rightarrow> int option) \<Rightarrow> json option \<Rightarrow> webhook_error + int option" where
  "optional_instant Date_parse value = (case value of
       None \<Rightarrow> Inr None
     | Some JNull \<Rightarrow> Inr None
     | v \<Rightarrow> and_then (instant Date_parse v) (\<lambda>ms. Inr (Some ms)))"

definition clientReference :: "json option \<Rightarrow> webhook_error + string option" where
  "clientReference value = (case value of
       None \<Rightarrow> Inr None
     | Some JNull \<Rightarrow> Inr None
     | Some (JString s) \<Rightarrow> if USER_ID_SHAPE s then Inr (Some s) else Inl MALFORMED
     | _ \<Rightarrow> Inl MALFORMED)"

definition SUBSCRIPTION_STATUSES :: "(string \<times> SubscriptionStatus) list" where
  "SUBSCRIPTION_STATUSES =
     [(''incomplete'', Sub_incomplete), (''incomplete_expired'', Sub_incomplete_expired),
      (''trialing'', Sub_trialing), (''active'', Sub_active), (''past_due'', Sub_past_due),
      (''unpaid'', Sub_unpaid), (''canceled'', Sub_canceled), (''paused'', Sub_paused)]"

definition parse_status :: "json option \<Rightarrow> webhook_error + SubscriptionStatus" where
  "parse_status v = (case v of
       Some (JString s) \<Rightarrow> (case map_of SUBSCRIPTION_STATUSES s of None \<Rightarrow> Inl MALFORMED | Some st \<Rightarrow> Inr st)
     | _ \<Rightarrow> Inl MALFORMED)"

definition parse_flag :: "json option \<Rightarrow> webhook_error + bool" where
  "parse_flag v = (case v of Some (JBool b) \<Rightarrow> Inr b | _ \<Rightarrow> Inl MALFORMED)"

definition required :: "'a option \<Rightarrow> webhook_error + 'a" where
  "required v = (case v of None \<Rightarrow> Inl MALFORMED | Some x \<Rightarrow> Inr x)"

text \<open>The fields of an object; an array has none of the fields that are asked for.\<close>

definition fields_of :: "json option \<Rightarrow> webhook_error + (string \<times> json) list" where
  "fields_of v = (case v of Some (JObject o1) \<Rightarrow> Inr o1 | Some (JArray _) \<Rightarrow> Inr [] | _ \<Rightarrow> Inl MALFORMED)"

definition parse_subscription :: "(string \<Rightarrow> int option) \<Rightarrow> (string \<times> json) list \<Rightarrow> webhook_error + SubscriptionSnapshot" where
  "parse_subscription Date_parse s =
     and_then (required (isRef (map_of s ''id''))) (\<lambda>ref.
     and_then (required (isRef (map_of s ''customer''))) (\<lambda>customer.
     and_then (required (isRef (map_of s ''price''))) (\<lambda>price.
     and_then (parse_status (map_of s ''status'')) (\<lambda>sstatus.
     and_then (parse_flag (map_of s ''cancelAtPeriodEnd'')) (\<lambda>cancel.
     and_then (instant Date_parse (map_of s ''currentPeriodStart'')) (\<lambda>period_start.
     and_then (instant Date_parse (map_of s ''currentPeriodEnd'')) (\<lambda>period_end.
     and_then (unless (\<not> period_end \<le> period_start) MALFORMED) (\<lambda>_.
     and_then (optional_instant Date_parse (map_of s ''endedAt'')) (\<lambda>ended.
     and_then (clientReference (map_of s ''clientReference'')) (\<lambda>client.
     Inr \<lparr>ss_subscriptionRef = ref, ss_customerRef = customer, ss_priceRef = price, ss_status = sstatus,
          ss_currentPeriodStart = period_start, ss_currentPeriodEnd = period_end, ss_cancelAtPeriodEnd = cancel,
          ss_endedAt = ended, ss_clientReference = client\<rparr>))))))))))"

definition parse_kind :: "(string \<Rightarrow> int option) \<Rightarrow> string \<Rightarrow> (string \<times> json) list \<Rightarrow> webhook_error + event_kind" where
  "parse_kind Date_parse type data =
     (if type = ''checkout.completed''
      then and_then (required (isRef (map_of data ''checkout''))) (\<lambda>checkout.
           and_then (required (isRef (map_of data ''customer''))) (\<lambda>customer.
           and_then (clientReference (map_of data ''clientReference'')) (\<lambda>client.
           Inr (Checkout_Completed checkout customer client))))
      else if type \<in> set [''subscription.created'', ''subscription.updated'', ''subscription.deleted'']
      then and_then (fields_of (map_of data ''subscription'')) (\<lambda>s.
           and_then (parse_subscription Date_parse s) (\<lambda>subscription. Inr (Subscription_Changed subscription)))
      else Inr Ignored_Event)"

definition parse_type :: "json option \<Rightarrow> string option" where
  "parse_type v = (case v of Some (JString s) \<Rightarrow> if EVENT_TYPE s then Some s else None | _ \<Rightarrow> None)"

definition parseEvent :: "(string \<Rightarrow> int option) \<Rightarrow> json \<Rightarrow> webhook_error + BillingEvent" where
  "parseEvent Date_parse input = (case input of
     JObject e \<Rightarrow>
       and_then (required (isRef (map_of e ''id''))) (\<lambda>eventId.
       and_then (required (parse_type (map_of e ''type''))) (\<lambda>type.
       and_then (instant Date_parse (map_of e ''occurredAt'')) (\<lambda>occurred.
       case map_of e ''data'' of
         Some (JObject data) \<Rightarrow>
           and_then (parse_kind Date_parse type data) (\<lambda>kind.
           Inr \<lparr>be_eventId = eventId, be_eventType = type, be_occurredAt = occurred, be_kind = kind\<rparr>)
       | _ \<Rightarrow> Inl MALFORMED)))
   | _ \<Rightarrow> Inl MALFORMED)"

section \<open>Signatures\<close>

definition SIGNATURE_TOLERANCE_SECONDS :: int where "SIGNATURE_TOLERANCE_SECONDS = 300"

record billing_platform =
  bp_hmac :: "string \<Rightarrow> string \<Rightarrow> string"
  bp_parse :: "string \<Rightarrow> json option"
  bp_stringify :: "json \<Rightarrow> string"
  bp_Date_parse :: "string \<Rightarrow> int option"
  bp_toISOString :: "int \<Rightarrow> string"

datatype header = Absent | One string | Many "string list"

definition header_value :: "header \<Rightarrow> string" where
  "header_value h = (case h of Absent \<Rightarrow> [] | One s \<Rightarrow> s | Many ss \<Rightarrow> (case ss of [] \<Rightarrow> [] | s # _ \<Rightarrow> s))"

text \<open>One \<open>name=value\<close> part, cut at its first equals sign.\<close>

definition signature_part :: "string \<Rightarrow> string \<times> string" where
  "signature_part part =
     (let name = takeWhile (\<lambda>c. c \<noteq> CHR ''='') part in
      if name \<noteq> [] \<and> name \<noteq> part then (trim name, trim (drop (length name + 1) part)) else ([], []))"

definition signature_field :: "string \<Rightarrow> string \<Rightarrow> string" where
  "signature_field value name =
     (case map_of (rev (map signature_part (split_on CHR '','' value))) name of None \<Rightarrow> [] | Some v \<Rightarrow> v)"

definition verifyWebhook ::
    "billing_platform \<Rightarrow> string \<Rightarrow> string \<Rightarrow> header \<Rightarrow> int \<Rightarrow> webhook_error + BillingEvent" where
  "verifyWebhook bp secret rawBody signature nowMs =
     (let value = header_value signature;
          t = signature_field value ''t'';
          v1 = signature_field value ''v1''
      in if value = [] then Inl SIGNATURE_MISSING
         else if \<not> (1 \<le> length t \<and> length t \<le> 12 \<and> list_all is_digit t) \<or> \<not> (length v1 = 64 \<and> list_all is_hex v1)
         then Inl SIGNATURE_INVALID
         else if v1 \<noteq> bp_hmac bp secret (t @ ''.'' @ rawBody) then Inl SIGNATURE_INVALID
         else if \<bar>nowMs - 1000 * int (read_nat t)\<bar> > 1000 * SIGNATURE_TOLERANCE_SECONDS
         then Inl TIMESTAMP_OUT_OF_TOLERANCE
         else (case bp_parse bp rawBody of
             None \<Rightarrow> Inl MALFORMED
           | Some parsed \<Rightarrow> parseEvent (bp_Date_parse bp) parsed))"

definition signatureHeaders :: "billing_platform \<Rightarrow> string \<Rightarrow> string \<Rightarrow> int \<Rightarrow> string" where
  "signatureHeaders bp secret rawBody atMs =
     (let t = show_int (atMs div 1000) in ''t='' @ t @ '',v1='' @ bp_hmac bp secret (t @ ''.'' @ rawBody))"

record SignedWebhook =
  sw_rawBody :: string
  sw_signature :: string
  sw_eventId :: string

definition event_document :: "billing_platform \<Rightarrow> string \<Rightarrow> string \<Rightarrow> (string \<times> json) list \<Rightarrow> int \<Rightarrow> json" where
  "event_document bp eventId type data nowMs = JObject [(''id'', JString eventId), (''type'', JString type),
     (''occurredAt'', JString (bp_toISOString bp nowMs)), (''data'', JObject data)]"

definition sign :: "billing_platform \<Rightarrow> string \<Rightarrow> string \<Rightarrow> string \<Rightarrow> (string \<times> json) list \<Rightarrow> int \<Rightarrow> SignedWebhook" where
  "sign bp secret eventId type data nowMs =
     (let rawBody = bp_stringify bp (event_document bp eventId type data nowMs)
      in \<lparr>sw_rawBody = rawBody, sw_signature = signatureHeaders bp secret rawBody nowMs, sw_eventId = eventId\<rparr>)"

fun status_text :: "SubscriptionStatus \<Rightarrow> string" where
  "status_text Sub_incomplete = ''incomplete''"
| "status_text Sub_incomplete_expired = ''incomplete_expired''"
| "status_text Sub_trialing = ''trialing''"
| "status_text Sub_active = ''active''"
| "status_text Sub_past_due = ''past_due''"
| "status_text Sub_unpaid = ''unpaid''"
| "status_text Sub_canceled = ''canceled''"
| "status_text Sub_paused = ''paused''"

definition text_or_null :: "string option \<Rightarrow> json" where
  "text_or_null v = (case v of None \<Rightarrow> JNull | Some s \<Rightarrow> JString s)"

definition subscription_fields :: "billing_platform \<Rightarrow> SubscriptionSnapshot \<Rightarrow> (string \<times> json) list" where
  "subscription_fields bp s =
     [(''id'', JString (ss_subscriptionRef s)), (''customer'', JString (ss_customerRef s)),
      (''price'', JString (ss_priceRef s)), (''status'', JString (status_text (ss_status s))),
      (''currentPeriodStart'', JString (bp_toISOString bp (ss_currentPeriodStart s))),
      (''currentPeriodEnd'', JString (bp_toISOString bp (ss_currentPeriodEnd s))),
      (''cancelAtPeriodEnd'', JBool (ss_cancelAtPeriodEnd s)),
      (''endedAt'', text_or_null (map_option (bp_toISOString bp) (ss_endedAt s))),
      (''clientReference'', text_or_null (ss_clientReference s))]"

definition subscriptionEvent ::
    "billing_platform \<Rightarrow> string \<Rightarrow> string \<Rightarrow> string \<Rightarrow> SubscriptionSnapshot \<Rightarrow> int \<Rightarrow> SignedWebhook" where
  "subscriptionEvent bp secret eventId type s nowMs =
     sign bp secret eventId type [(''subscription'', JObject (subscription_fields bp s))] nowMs"

section \<open>The simulator\<close>

datatype sim_status = Sim_Open | Sim_Completed

record SimCheckout =
  sim_userId :: string
  sim_offer :: Offer
  sim_customerRef :: "string option"
  sim_status :: sim_status

record TestBillingProvider =
  tb_checkouts :: "(string \<times> SimCheckout) list"
  tb_subscriptions :: "(string \<times> (SubscriptionSnapshot \<times> int)) list"
  tb_unavailable :: bool

definition DAY :: int where "DAY = 86400000"

definition sim_createCheckout ::
    "TestBillingProvider \<Rightarrow> string \<Rightarrow> string \<Rightarrow> Offer \<Rightarrow> string option \<Rightarrow> (billing_error + string) \<times> TestBillingProvider" where
  "sim_createCheckout tb ref userId offer customerRef =
     (if tb_unavailable tb then (Inl PROVIDER_UNAVAILABLE, tb)
      else (Inr ref, tb\<lparr>tb_checkouts := AList.update ref
              \<lparr>sim_userId = userId, sim_offer = offer, sim_customerRef = customerRef, sim_status = Sim_Open\<rparr> (tb_checkouts tb)\<rparr>))"

definition getSubscription :: "TestBillingProvider \<Rightarrow> string \<Rightarrow> billing_error + SubscriptionSnapshot option" where
  "getSubscription tb ref =
     (if tb_unavailable tb then Inl PROVIDER_UNAVAILABLE
      else Inr (map_option fst (map_of (tb_subscriptions tb) ref)))"

text \<open>
  A paid checkout: the customer reference, if the account had none, and the subscription
  reference are fresh; the answer is the subscription its two webhooks report.
\<close>

definition sim_completeCheckout ::
    "TestBillingProvider \<Rightarrow> string \<Rightarrow> string \<Rightarrow> string \<Rightarrow> int option \<Rightarrow> int \<Rightarrow>
      (billing_error + SubscriptionSnapshot) \<times> TestBillingProvider" where
  "sim_completeCheckout tb ref freshCustomer freshSubscription trialDays now =
     (case map_of (tb_checkouts tb) ref of
        None \<Rightarrow> (Inl CHECKOUT_NOT_FOUND, tb)
      | Some c \<Rightarrow>
          if sim_status c \<noteq> Sim_Open then (Inl CHECKOUT_NOT_FOUND, tb)
          else
            let intervalDays = (if offer_interval (sim_offer c) = Some Per_Year then 365 else 30);
                trial = (case trialDays of None \<Rightarrow> False | Some n \<Rightarrow> n > 0);
                days = (if trial then the trialDays else intervalDays);
                subscription = \<lparr>ss_subscriptionRef = freshSubscription,
                  ss_customerRef = (case sim_customerRef c of None \<Rightarrow> freshCustomer | Some r \<Rightarrow> r),
                  ss_priceRef = offer_priceRef (sim_offer c),
                  ss_status = (if trial then Sub_trialing else Sub_active),
                  ss_currentPeriodStart = now, ss_currentPeriodEnd = now + days * DAY,
                  ss_cancelAtPeriodEnd = False, ss_endedAt = None, ss_clientReference = Some (sim_userId c)\<rparr>
            in (Inr subscription, tb\<lparr>
                 tb_checkouts := AList.update ref (c\<lparr>sim_status := Sim_Completed\<rparr>) (tb_checkouts tb),
                 tb_subscriptions := AList.update freshSubscription (subscription, intervalDays) (tb_subscriptions tb)\<rparr>))"

definition sim_change ::
    "TestBillingProvider \<Rightarrow> string \<Rightarrow> (int \<Rightarrow> SubscriptionSnapshot \<Rightarrow> SubscriptionSnapshot) \<Rightarrow>
      (billing_error + SubscriptionSnapshot) \<times> TestBillingProvider" where
  "sim_change tb ref change = (case map_of (tb_subscriptions tb) ref of
       None \<Rightarrow> (Inl SUBSCRIPTION_NOT_FOUND, tb)
     | Some (current, days) \<Rightarrow>
         let next = change days current in
         (Inr next, tb\<lparr>tb_subscriptions := AList.update ref (next, days) (tb_subscriptions tb)\<rparr>))"

definition advance :: "SubscriptionStatus \<Rightarrow> int \<Rightarrow> SubscriptionSnapshot \<Rightarrow> SubscriptionSnapshot" where
  "advance sstatus days s = s\<lparr>ss_status := sstatus, ss_currentPeriodStart := ss_currentPeriodEnd s,
     ss_currentPeriodEnd := ss_currentPeriodEnd s + days * DAY\<rparr>"

datatype sim_action =
    Renew | Fail_Renewal | Mark_Unpaid | Recover_Payment | Set_Cancel_At_Period_End bool
  | Cancel_Now | End_At_Period_End

text \<open>The changes, each with the type of the event that reports it.\<close>

fun sim_action_change :: "sim_action \<Rightarrow> int \<Rightarrow> int \<Rightarrow> SubscriptionSnapshot \<Rightarrow> SubscriptionSnapshot" where
  "sim_action_change Renew now days s = advance Sub_active days s"
| "sim_action_change Fail_Renewal now days s = advance Sub_past_due days s"
| "sim_action_change Mark_Unpaid now days s = s\<lparr>ss_status := Sub_unpaid\<rparr>"
| "sim_action_change Recover_Payment now days s = s\<lparr>ss_status := Sub_active\<rparr>"
| "sim_action_change (Set_Cancel_At_Period_End cancel) now days s = s\<lparr>ss_cancelAtPeriodEnd := cancel\<rparr>"
| "sim_action_change Cancel_Now now days s = s\<lparr>ss_status := Sub_canceled, ss_endedAt := Some now\<rparr>"
| "sim_action_change End_At_Period_End now days s =
     s\<lparr>ss_status := Sub_canceled, ss_endedAt := Some (ss_currentPeriodEnd s)\<rparr>"

fun sim_event_type :: "sim_action \<Rightarrow> string" where
  "sim_event_type Cancel_Now = ''subscription.deleted''"
| "sim_event_type End_At_Period_End = ''subscription.deleted''"
| "sim_event_type _ = ''subscription.updated''"

definition simulate_action ::
    "billing_platform \<Rightarrow> string \<Rightarrow> TestBillingProvider \<Rightarrow> string \<Rightarrow> string \<Rightarrow> sim_action \<Rightarrow> int \<Rightarrow>
      (billing_error + SignedWebhook) \<times> TestBillingProvider" where
  "simulate_action bp secret tb ref eventId action now =
     (case sim_change tb ref (sim_action_change action now) of
        (Inl e, tb') \<Rightarrow> (Inl e, tb')
      | (Inr s, tb') \<Rightarrow> (Inr (subscriptionEvent bp secret eventId (sim_event_type action) s now), tb'))"

section \<open>Accepted webhooks\<close>

definition snapshot_wf :: "SubscriptionSnapshot \<Rightarrow> bool" where
  "snapshot_wf s \<longleftrightarrow> REF_SHAPE (ss_subscriptionRef s) \<and> REF_SHAPE (ss_customerRef s) \<and> REF_SHAPE (ss_priceRef s) \<and>
     ss_currentPeriodStart s < ss_currentPeriodEnd s \<and> (\<forall>u. ss_clientReference s = Some u \<longrightarrow> USER_ID_SHAPE u)"

definition event_wf :: "BillingEvent \<Rightarrow> bool" where
  "event_wf e \<longleftrightarrow> REF_SHAPE (be_eventId e) \<and> EVENT_TYPE (be_eventType e) \<and>
     (case be_kind e of
        Checkout_Completed c k u \<Rightarrow> REF_SHAPE c \<and> REF_SHAPE k \<and> (\<forall>v. u = Some v \<longrightarrow> USER_ID_SHAPE v)
      | Subscription_Changed s \<Rightarrow> snapshot_wf s
      | Ignored_Event \<Rightarrow> True)"

lemma required_Inr [simp]: "required v = Inr x \<longleftrightarrow> v = Some x"
  by (cases v) (simp_all add: required_def)

lemma isRef_Some: "isRef v = Some s \<longleftrightarrow> v = Some (JString s) \<and> REF_SHAPE s"
  by (auto simp: isRef_def split: option.splits json.splits)

lemma parse_type_Some: "parse_type v = Some s \<longleftrightarrow> v = Some (JString s) \<and> EVENT_TYPE s"
  by (auto simp: parse_type_def split: option.splits json.splits)

lemma clientReference_wf: "clientReference v = Inr (Some u) \<Longrightarrow> USER_ID_SHAPE u"
  by (auto simp: clientReference_def split: option.splits json.splits if_splits)

lemma parse_subscription_wf: "parse_subscription Date_parse s = Inr x \<Longrightarrow> snapshot_wf x"
  by (auto simp: parse_subscription_def snapshot_wf_def isRef_Some dest: clientReference_wf)

lemma parse_kind_wf:
  "parse_kind Date_parse type data = Inr k \<Longrightarrow> (case k of
      Checkout_Completed c k u \<Rightarrow> REF_SHAPE c \<and> REF_SHAPE k \<and> (\<forall>v. u = Some v \<longrightarrow> USER_ID_SHAPE v)
    | Subscription_Changed s \<Rightarrow> snapshot_wf s
    | Ignored_Event \<Rightarrow> True)"
  unfolding parse_kind_def
  by (auto simp: isRef_Some split: if_splits dest: parse_subscription_wf clientReference_wf)

lemma parseEvent_wf:
  assumes "parseEvent Date_parse input = Inr e"
  shows "event_wf e"
proof (cases input)
  case (JObject fs)
  show ?thesis
  proof (cases "\<exists>data. map_of fs ''data'' = Some (JObject data)")
    case True
    then obtain data where "map_of fs ''data'' = Some (JObject data)" by blast
    with assms JObject have "REF_SHAPE (be_eventId e)" "EVENT_TYPE (be_eventType e)"
        "parse_kind Date_parse (be_eventType e) data = Inr (be_kind e)"
      by (auto simp: parseEvent_def isRef_Some parse_type_Some)
    then show ?thesis using parse_kind_wf [of Date_parse "be_eventType e" data "be_kind e"] by (simp add: event_wf_def)
  next
    case False
    then have "(case map_of fs ''data'' of Some (JObject data) \<Rightarrow> f data | _ \<Rightarrow> Inl MALFORMED) = Inl MALFORMED"
      for f :: "(string \<times> json) list \<Rightarrow> webhook_error + BillingEvent"
      by (auto split: option.split json.split)
    with assms JObject show ?thesis by (simp add: parseEvent_def)
  qed
qed (use assms in \<open>simp_all add: parseEvent_def\<close>)

text \<open>
  Only the provider is heard. A webhook is accepted only if its signature header
  carries a timestamp and the HMAC of that timestamp and the raw body under the shared
  secret, the timestamp is within five minutes of the clock, and the body is a well-formed
  event: usable references and type, and for a subscription a period that ends after it
  starts.
\<close>

theorem accepted_webhook_is_authentic:
  assumes "verifyWebhook bp secret rawBody signature nowMs = Inr event"
  shows "\<exists>t. signature_field (header_value signature) ''t'' = t \<and> t \<noteq> [] \<and> list_all is_digit t \<and>
     signature_field (header_value signature) ''v1'' = bp_hmac bp secret (t @ ''.'' @ rawBody) \<and>
     \<bar>nowMs - 1000 * int (read_nat t)\<bar> \<le> 300000 \<and> event_wf event"
proof -
  let ?t = "signature_field (header_value signature) ''t''"
  from assms have "1 \<le> length ?t" "list_all is_digit ?t"
      "signature_field (header_value signature) ''v1'' = bp_hmac bp secret (?t @ ''.'' @ rawBody)"
      "\<bar>nowMs - 1000 * int (read_nat ?t)\<bar> \<le> 300000"
      "\<exists>parsed. parseEvent (bp_Date_parse bp) parsed = Inr event"
    unfolding verifyWebhook_def Let_def SIGNATURE_TOLERANCE_SECONDS_def by (auto split: if_splits option.splits)
  then show ?thesis using parseEvent_wf by auto
qed

section \<open>What the provider signs is what the platform reads\<close>

definition iso_ok :: "billing_platform \<Rightarrow> int \<Rightarrow> bool" where
  "iso_ok bp ms \<longleftrightarrow> bp_Date_parse bp (bp_toISOString bp ms) = Some ms"

definition snapshot_instants :: "SubscriptionSnapshot \<Rightarrow> int list" where
  "snapshot_instants s = [ss_currentPeriodStart s, ss_currentPeriodEnd s] @
     (case ss_endedAt s of None \<Rightarrow> [] | Some t \<Rightarrow> [t])"

lemma status_text_roundtrip [simp]: "map_of SUBSCRIPTION_STATUSES (status_text st) = Some st"
  by (cases st) (simp_all add: SUBSCRIPTION_STATUSES_def)

lemma parse_subscription_fields:
  assumes "snapshot_wf s" "list_all (iso_ok bp) (snapshot_instants s)"
  shows "parse_subscription (bp_Date_parse bp) (subscription_fields bp s) = Inr s"
proof -
  have inst: "instant (bp_Date_parse bp) (Some (JString (bp_toISOString bp ms))) = Inr ms" if "iso_ok bp ms" for ms
    using that by (simp add: instant_def iso_ok_def)
  have ended: "optional_instant (bp_Date_parse bp) (Some (text_or_null (map_option (bp_toISOString bp) (ss_endedAt s)))) =
      Inr (ss_endedAt s)"
    using assms(2) inst
    by (cases "ss_endedAt s") (auto simp: optional_instant_def text_or_null_def snapshot_instants_def)
  have client: "clientReference (Some (text_or_null (ss_clientReference s))) = Inr (ss_clientReference s)"
    using assms(1) by (cases "ss_clientReference s") (auto simp: clientReference_def text_or_null_def snapshot_wf_def)
  have refs: "isRef (Some (JString (ss_subscriptionRef s))) = Some (ss_subscriptionRef s)"
      "isRef (Some (JString (ss_customerRef s))) = Some (ss_customerRef s)"
      "isRef (Some (JString (ss_priceRef s))) = Some (ss_priceRef s)"
    using assms(1) by (simp_all add: isRef_Some snapshot_wf_def)
  show ?thesis
    using assms inst ended client refs
    by (simp add: parse_subscription_def subscription_fields_def parse_status_def parse_flag_def
        snapshot_wf_def snapshot_instants_def)
qed

lemma trim_word: "list_all (\<lambda>c. \<not> is_space c) s \<Longrightarrow> trim s = s"
proof -
  have *: "dropWhile is_space s = s" if "list_all (\<lambda>c. \<not> is_space c) s" for s using that by (cases s) simp_all
  assume "list_all (\<lambda>c. \<not> is_space c) s"
  then show ?thesis using * [of s] * [of "rev s"] by (simp add: trim_def)
qed

lemma signature_part_word:
  assumes "name \<noteq> []" "list_all (\<lambda>c. \<not> is_space c) name" "CHR ''='' \<notin> set name" "list_all (\<lambda>c. \<not> is_space c) v"
  shows "signature_part (name @ ''='' @ v) = (name, v)"
proof -
  have "takeWhile (\<lambda>c. c \<noteq> CHR ''='') (name @ ''='' @ v) = name"
    using assms(3) by (subst takeWhile_append2) auto
  with assms show ?thesis by (simp add: signature_part_def trim_word)
qed

lemma digit_not_space: "is_digit c \<Longrightarrow> \<not> is_space c \<and> c \<noteq> CHR '',''"
  by (auto simp: is_digit_def is_space_def Let_def)

lemma hex_not_space: "is_hex c \<Longrightarrow> \<not> is_space c \<and> c \<noteq> CHR '',''"
  by (auto simp: is_hex_def is_space_def Let_def)

lemma signature_fields:
  assumes "list_all is_digit t" "list_all is_hex h"
  shows "signature_field (''t='' @ t @ '',v1='' @ h) ''t'' = t" "signature_field (''t='' @ t @ '',v1='' @ h) ''v1'' = h"
proof -
  have t: "list_all (\<lambda>c. \<not> is_space c) t" "CHR '','' \<notin> set t" using assms(1) digit_not_space by (auto simp: list_all_iff)
  have h: "list_all (\<lambda>c. \<not> is_space c) h" "CHR '','' \<notin> set h" using assms(2) hex_not_space by (auto simp: list_all_iff)
  have "split_on CHR '','' ((''t='' @ t) @ CHR '','' # (''v1='' @ h)) = [''t='' @ t, ''v1='' @ h]"
    using t(2) h(2) by (subst split_on_append) (auto simp: split_on_no_sep)
  then have sp: "split_on CHR '','' (''t='' @ t @ '',v1='' @ h) = [''t='' @ t, ''v1='' @ h]" by simp
  have "signature_part (''t'' @ ''='' @ t) = (''t'', t)" "signature_part (''v1'' @ ''='' @ h) = (''v1'', h)"
    by (rule signature_part_word; use t h in \<open>simp add: is_space_def Let_def\<close>)+
  with sp show "signature_field (''t='' @ t @ '',v1='' @ h) ''t'' = t" "signature_field (''t='' @ t @ '',v1='' @ h) ''v1'' = h"
    by (simp_all add: signature_field_def)
qed

lemma verify_signed:
  assumes "\<forall>m. length (bp_hmac bp secret m) = 64 \<and> list_all is_hex (bp_hmac bp secret m)"
    and "doc = event_document bp eventId type [(''subscription'', JObject (subscription_fields bp s))] signedMs"
    and "bp_parse bp (bp_stringify bp doc) = Some doc"
    and "snapshot_wf s" and "list_all (iso_ok bp) (signedMs # snapshot_instants s)"
    and "0 \<le> signedMs" and "signedMs < 10 ^ 15" and "REF_SHAPE eventId"
    and "type \<in> set [''subscription.created'', ''subscription.updated'', ''subscription.deleted'']"
    and "w = subscriptionEvent bp secret eventId type s signedMs"
  shows "verifyWebhook bp secret (sw_rawBody w) (One (sw_signature w)) nowMs =
     (if \<bar>nowMs - 1000 * (signedMs div 1000)\<bar> \<le> 300000
      then Inr \<lparr>be_eventId = eventId, be_eventType = type, be_occurredAt = signedMs, be_kind = Subscription_Changed s\<rparr>
      else Inl TIMESTAMP_OUT_OF_TOLERANCE)"
proof -
  let ?n = "nat (signedMs div 1000)"
  let ?t = "show_nat ?n"
  let ?h = "bp_hmac bp secret (?t @ ''.'' @ bp_stringify bp doc)"
  have si: "show_int (signedMs div 1000) = ?t"
    using pos_imp_zdiv_nonneg_iff [of 1000 signedMs] assms(6) by (simp add: show_int_def)
  have w: "sw_rawBody w = bp_stringify bp doc" "sw_signature w = ''t='' @ ?t @ '',v1='' @ ?h"
    using assms(2,10) by (simp_all add: subscriptionEvent_def sign_def signatureHeaders_def si Let_def)
  have "?n < 10 ^ 12" using assms(6,7) by (simp add: nat_less_iff)
  then have t: "length ?t \<le> 12" "list_all is_digit ?t" "?t \<noteq> []"
    using length_show_nat [of ?n 12] show_nat_digits by simp_all
  have h: "list_all is_hex ?h" "length ?h = 64" using assms(1) by blast+
  note f = signature_fields [OF t(2) h(1)]
  have type: "EVENT_TYPE type" using assms(9)
    by (auto simp: EVENT_TYPE_def is_lower_alnum_def is_digit_def is_type_char_def)
  have "parse_kind (bp_Date_parse bp) type [(''subscription'', JObject (subscription_fields bp s))] =
      Inr (Subscription_Changed s)"
    using assms(4,5,9) by (auto simp: parse_kind_def fields_of_def parse_subscription_fields)
  moreover have "instant (bp_Date_parse bp) (Some (JString (bp_toISOString bp signedMs))) = Inr signedMs"
    using assms(5) by (simp add: instant_def iso_ok_def)
  moreover have "isRef (Some (JString eventId)) = Some eventId" using assms(8) by (simp add: isRef_Some)
  moreover have "parse_type (Some (JString type)) = Some type" using type by (simp add: parse_type_Some)
  ultimately have ev: "parseEvent (bp_Date_parse bp) doc =
      Inr \<lparr>be_eventId = eventId, be_eventType = type, be_occurredAt = signedMs, be_kind = Subscription_Changed s\<rparr>"
    by (simp add: parseEvent_def assms(2) event_document_def)
  have "int (read_nat ?t) = signedMs div 1000" using assms(6) by simp
  with f h t ev assms(3) show ?thesis
    by (simp add: verifyWebhook_def header_value_def w SIGNATURE_TOLERANCE_SECONDS_def Let_def not_less not_le Suc_le_eq)
qed

text \<open>
  What the provider signs is what the platform reads: a subscription event of a
  well-formed subscription, delivered within five minutes of the second it was signed,
  verifies to exactly that event with exactly that subscription; delivered later or
  earlier it is refused for its timestamp.
\<close>

theorem signed_event_roundtrip:
  assumes "\<forall>m. length (bp_hmac bp secret m) = 64 \<and> list_all is_hex (bp_hmac bp secret m)"
    and "doc = event_document bp eventId type [(''subscription'', JObject (subscription_fields bp s))] signedMs"
    and "bp_parse bp (bp_stringify bp doc) = Some doc"
    and "snapshot_wf s" and "list_all (iso_ok bp) (signedMs # snapshot_instants s)"
    and "0 \<le> signedMs" and "signedMs < 10 ^ 15" and "REF_SHAPE eventId"
    and "type \<in> set [''subscription.created'', ''subscription.updated'', ''subscription.deleted'']"
    and "w = subscriptionEvent bp secret eventId type s signedMs"
  shows "verifyWebhook bp secret (sw_rawBody w) (One (sw_signature w)) nowMs =
     (if \<bar>nowMs - 1000 * (signedMs div 1000)\<bar> \<le> 300000
      then Inr \<lparr>be_eventId = eventId, be_eventType = type, be_occurredAt = signedMs, be_kind = Subscription_Changed s\<rparr>
      else Inl TIMESTAMP_OUT_OF_TOLERANCE)"
  using assms by (rule verify_signed)

text \<open>A platform and a subscription the hypotheses hold of.\<close>

definition demo_snapshot :: SubscriptionSnapshot where
  "demo_snapshot = \<lparr>ss_subscriptionRef = ''s1'', ss_customerRef = ''c1'', ss_priceRef = ''p1'', ss_status = Sub_active,
     ss_currentPeriodStart = 1000, ss_currentPeriodEnd = 9000, ss_cancelAtPeriodEnd = False, ss_endedAt = None,
     ss_clientReference = Some ''usr-00000001''\<rparr>"

definition demo_codec :: "json \<Rightarrow> billing_platform" where
  "demo_codec j = \<lparr>bp_hmac = (\<lambda>_ _. replicate 64 CHR ''a''), bp_parse = (\<lambda>_. Some j), bp_stringify = (\<lambda>_. ''{}''),
     bp_Date_parse = (\<lambda>s. Some (int (read_nat s))), bp_toISOString = (\<lambda>ms. show_nat (nat ms))\<rparr>"

definition demo_document :: json where
  "demo_document = event_document (demo_codec JNull) ''e1'' ''subscription.updated''
     [(''subscription'', JObject (subscription_fields (demo_codec JNull) demo_snapshot))] 5000"

lemma demo_document_codec:
  "demo_document = event_document (demo_codec demo_document) ''e1'' ''subscription.updated''
     [(''subscription'', JObject (subscription_fields (demo_codec demo_document) demo_snapshot))] 5000"
  by (simp add: demo_document_def event_document_def subscription_fields_def demo_codec_def)

lemma demo_snapshot_wf: "snapshot_wf demo_snapshot"
proof -
  have "USER_ID_SHAPE ''usr-00000001''" "REF_SHAPE ''s1''" "REF_SHAPE ''c1''" "REF_SHAPE ''p1''" by code_simp+
  then show ?thesis by (simp add: snapshot_wf_def demo_snapshot_def)
qed

lemma demo_platform_ok:
  "\<forall>m. length (bp_hmac (demo_codec demo_document) ''secret'' m) = 64 \<and>
     list_all is_hex (bp_hmac (demo_codec demo_document) ''secret'' m)"
  "bp_parse (demo_codec demo_document) (bp_stringify (demo_codec demo_document) demo_document) = Some demo_document"
  "list_all (iso_ok (demo_codec demo_document)) (5000 # snapshot_instants demo_snapshot)"
  "REF_SHAPE ''e1''"
proof -
  show "REF_SHAPE ''e1''" by code_simp
qed (auto simp: demo_codec_def is_hex_def list_all_iff iso_ok_def snapshot_instants_def demo_snapshot_def)

theorem signed_event_roundtrip_witness:
  "\<exists>w. w = subscriptionEvent (demo_codec demo_document) ''secret'' ''e1'' ''subscription.updated'' demo_snapshot 5000 \<and>
     verifyWebhook (demo_codec demo_document) ''secret'' (sw_rawBody w) (One (sw_signature w)) 6000 =
       Inr \<lparr>be_eventId = ''e1'', be_eventType = ''subscription.updated'', be_occurredAt = 5000,
            be_kind = Subscription_Changed demo_snapshot\<rparr> \<and>
     verifyWebhook (demo_codec demo_document) ''secret'' (sw_rawBody w) (One (sw_signature w)) 400000 =
       Inl TIMESTAMP_OUT_OF_TOLERANCE"
proof -
  note rt = signed_event_roundtrip [OF demo_platform_ok(1) demo_document_codec demo_platform_ok(2) demo_snapshot_wf
      demo_platform_ok(3) _ _ demo_platform_ok(4) _ refl]
  show ?thesis using rt [of 6000] rt [of 400000] by simp
qed

theorem accepted_webhook_is_authentic_witness:
  "\<exists>w event. w = subscriptionEvent (demo_codec demo_document) ''secret'' ''e1'' ''subscription.updated'' demo_snapshot 5000 \<and>
     verifyWebhook (demo_codec demo_document) ''secret'' (sw_rawBody w) (One (sw_signature w)) 6000 = Inr event \<and> event_wf event"
proof -
  let ?w = "subscriptionEvent (demo_codec demo_document) ''secret'' ''e1'' ''subscription.updated'' demo_snapshot 5000"
  note rt = verify_signed [OF demo_platform_ok(1) demo_document_codec demo_platform_ok(2) demo_snapshot_wf
      demo_platform_ok(3) _ _ demo_platform_ok(4) _ refl]
  obtain event where "verifyWebhook (demo_codec demo_document) ''secret'' (sw_rawBody ?w) (One (sw_signature ?w)) 6000 = Inr event"
    using rt [of 6000] by simp
  with accepted_webhook_is_authentic show ?thesis by blast
qed

end
