(* ===== verification/Billing_Config.thy ===== *)
theory Billing_Config
  imports Billing_Provider
begin

text \<open>
  Billing configuration: \<open>apps/api/src/billing/config.ts\<close>. The offers document with every
  refusal, the two policy numbers that have no default, and the environment as a whole.
  The links of \<open>legalFromEnv\<close> need the URL parser of the platform and are not modelled.
\<close>

definition is_offer_char :: "char \<Rightarrow> bool" where
  "is_offer_char c \<longleftrightarrow> is_lower_alnum c \<or> c = CHR ''-''"

definition OFFER_ID :: "string \<Rightarrow> bool" where
  "OFFER_ID s \<longleftrightarrow> (case s of [] \<Rightarrow> False
     | c # t \<Rightarrow> is_lower_alnum c \<and> length t \<le> 47 \<and> list_all is_offer_char t)"

definition MAX_OFFERS :: nat where "MAX_OFFERS = 20"

datatype config_error =
    Hours_Required string
  | Hours_Invalid string
  | Offers_Not_An_Object
  | Offers_Not_Exact
  | Too_Many_Offers
  | Offer_Not_An_Object nat
  | Offer_Unknown_Fields nat "string list"
  | Offer_Bad_Id nat
  | Offer_Defined_Twice nat string
  | Offer_Bad_Price nat
  | Offer_Price_Twice nat
  | Offer_Bad_Plan nat
  | Offer_Bad_Name nat
  | Offer_Bad_Text nat string
  | Offer_Bad_Interval nat
  | Offer_Bad_Features nat
  | Provider_Not_Integrated string
  | Test_In_Production
  | Secret_Too_Short
  | Offers_Invalid_JSON

definition hours :: "string \<Rightarrow> string option \<Rightarrow> nat \<Rightarrow> config_error + nat" where
  "hours name raw most = (case env_text raw of
       None \<Rightarrow> Inl (Hours_Required name)
     | Some s \<Rightarrow>
         if \<not> (1 \<le> length s \<and> length s \<le> 4 \<and> list_all is_digit s) \<or> read_nat s > most
         then Inl (Hours_Invalid name) else Inr (read_nat s))"

definition offer_fields :: "string list" where
  "offer_fields = [''id'', ''plan'', ''priceRef'', ''name'', ''description'', ''priceLabel'', ''interval'', ''features'']"

definition optionalText :: "nat \<Rightarrow> json option \<Rightarrow> string \<Rightarrow> nat \<Rightarrow> config_error + string option" where
  "optionalText i value field most = (case value of
       None \<Rightarrow> Inr None
     | Some JNull \<Rightarrow> Inr None
     | Some (JString s) \<Rightarrow>
         if length s > most then Inl (Offer_Bad_Text i field)
         else Inr (if trim s = [] then None else Some (trim s))
     | Some _ \<Rightarrow> Inl (Offer_Bad_Text i field))"

text \<open>\<open>o.plan !== null\<close>: an absent plan is refused like one that is not configured.\<close>

definition parse_offer_plan :: "nat \<Rightarrow> PlanCatalog \<Rightarrow> json option \<Rightarrow> config_error + string option" where
  "parse_offer_plan i plans value = (case value of
       Some JNull \<Rightarrow> Inr None
     | Some (JString p) \<Rightarrow> if plan_get plans p = None then Inl (Offer_Bad_Plan i) else Inr (Some p)
     | _ \<Rightarrow> Inl (Offer_Bad_Plan i))"

definition parse_interval :: "nat \<Rightarrow> json option \<Rightarrow> config_error + offer_interval option" where
  "parse_interval i value = (case value of
       None \<Rightarrow> Inr None
     | Some JNull \<Rightarrow> Inr None
     | Some (JString s) \<Rightarrow>
         if s = ''month'' then Inr (Some Per_Month) else if s = ''year'' then Inr (Some Per_Year)
         else Inl (Offer_Bad_Interval i)
     | Some _ \<Rightarrow> Inl (Offer_Bad_Interval i))"

fun feature_text :: "json \<Rightarrow> string option" where
  "feature_text (JString s) = (if s \<noteq> [] \<and> length s \<le> 120 then Some s else None)"
| "feature_text _ = None"

definition parse_features :: "nat \<Rightarrow> json option \<Rightarrow> config_error + string list" where
  "parse_features i value = (case value of
       None \<Rightarrow> Inr []
     | Some JNull \<Rightarrow> Inr []
     | Some (JArray xs) \<Rightarrow>
         if length xs \<le> 10 \<and> list_all (\<lambda>x. feature_text x \<noteq> None) xs then Inr (map (the \<circ> feature_text) xs)
         else Inl (Offer_Bad_Features i)
     | Some _ \<Rightarrow> Inl (Offer_Bad_Features i))"

definition parse_offer :: "PlanCatalog \<Rightarrow> nat \<Rightarrow> Offer list \<Rightarrow> json \<Rightarrow> config_error + Offer" where
  "parse_offer plans i offers raw = (case raw of
     JObject o1 \<Rightarrow>
       let extra = filter (\<lambda>k. k \<notin> set offer_fields) (map fst o1) in
       and_then (unless (extra = []) (Offer_Unknown_Fields i extra)) (\<lambda>_.
       and_then (case map_of o1 ''id'' of
           Some (JString s) \<Rightarrow> if OFFER_ID s then Inr s else Inl (Offer_Bad_Id i)
         | _ \<Rightarrow> Inl (Offer_Bad_Id i)) (\<lambda>oid.
       and_then (unless (oid \<notin> set (map offer_id offers)) (Offer_Defined_Twice i oid)) (\<lambda>_.
       and_then (case isRef (map_of o1 ''priceRef'') of None \<Rightarrow> Inl (Offer_Bad_Price i) | Some p \<Rightarrow> Inr p) (\<lambda>price.
       and_then (unless (price \<notin> set (map offer_priceRef offers)) (Offer_Price_Twice i)) (\<lambda>_.
       and_then (parse_offer_plan i plans (map_of o1 ''plan'')) (\<lambda>plan.
       and_then (case map_of o1 ''name'' of
           Some (JString s) \<Rightarrow> if trim s = [] \<or> length s > 80 then Inl (Offer_Bad_Name i) else Inr (trim s)
         | _ \<Rightarrow> Inl (Offer_Bad_Name i)) (\<lambda>name.
       and_then (parse_interval i (map_of o1 ''interval'')) (\<lambda>interval.
       and_then (parse_features i (map_of o1 ''features'')) (\<lambda>features.
       and_then (optionalText i (map_of o1 ''description'') ''description'' 500) (\<lambda>description.
       and_then (optionalText i (map_of o1 ''priceLabel'') ''priceLabel'' 60) (\<lambda>label.
       Inr \<lparr>offer_id = oid, offer_planId = plan, offer_priceRef = price, offer_name = name,
            offer_description = description, offer_priceLabel = label, offer_interval = interval,
            offer_features = features\<rparr>)))))))))))
   | _ \<Rightarrow> Inl (Offer_Not_An_Object i))"

fun parse_offer_list :: "PlanCatalog \<Rightarrow> nat \<Rightarrow> Offer list \<Rightarrow> json list \<Rightarrow> config_error + Offer list" where
  "parse_offer_list plans i offers [] = Inr offers"
| "parse_offer_list plans i offers (raw # raws) =
     and_then (parse_offer plans i offers raw) (\<lambda>offer. parse_offer_list plans (i + 1) (offers @ [offer]) raws)"

definition parseOffers :: "json \<Rightarrow> PlanCatalog \<Rightarrow> config_error + Offer list" where
  "parseOffers document plans = (case document of
       JObject doc \<Rightarrow>
         (case (list_ex (\<lambda>k. k \<noteq> ''offers'') (map fst doc), map_of doc ''offers'') of
            (False, Some (JArray raws)) \<Rightarrow>
              if length raws > MAX_OFFERS then Inl Too_Many_Offers else parse_offer_list plans 0 [] raws
          | _ \<Rightarrow> Inl Offers_Not_Exact)
     | _ \<Rightarrow> Inl Offers_Not_An_Object)"

record BillingConfig =
  bc_webhookSecret :: string
  bc_offers :: "Offer list"
  bc_policy :: BillingPolicy

record billing_env =
  BILLING_PROVIDER :: "string option"
  NODE_ENV :: "string option"
  BILLING_WEBHOOK_SECRET :: "string option"
  BILLING_OFFERS_JSON :: "string option"
  BILLING_RENEWAL_LEEWAY_HOURS :: "string option"
  BILLING_PAST_DUE_GRACE_HOURS :: "string option"

definition trimmed :: "string option \<Rightarrow> string" where
  "trimmed v = (case v of None \<Rightarrow> [] | Some s \<Rightarrow> trim s)"

definition billingFromEnv ::
    "(string \<Rightarrow> json option) \<Rightarrow> billing_env \<Rightarrow> PlanCatalog \<Rightarrow> config_error + BillingConfig option" where
  "billingFromEnv JSON_parse env plans =
     (let prov = toLowerCase (trimmed (BILLING_PROVIDER env)) in
      if prov = [] then Inr None
      else if prov \<noteq> ''test'' then Inl (Provider_Not_Integrated (take 32 prov))
      else if trimmed (NODE_ENV env) = ''production'' then Inl Test_In_Production
      else if length (trimmed (BILLING_WEBHOOK_SECRET env)) < 32 then Inl Secret_Too_Short
      else and_then (case env_text (BILLING_OFFERS_JSON env) of
               None \<Rightarrow> Inr []
             | Some raw \<Rightarrow> (case JSON_parse raw of None \<Rightarrow> Inl Offers_Invalid_JSON | Some doc \<Rightarrow> parseOffers doc plans)) (\<lambda>offers.
           and_then (hours ''BILLING_RENEWAL_LEEWAY_HOURS'' (BILLING_RENEWAL_LEEWAY_HOURS env) 168) (\<lambda>leeway.
           and_then (hours ''BILLING_PAST_DUE_GRACE_HOURS'' (BILLING_PAST_DUE_GRACE_HOURS env) 720) (\<lambda>grace.
           Inr (Some \<lparr>bc_webhookSecret = trimmed (BILLING_WEBHOOK_SECRET env), bc_offers = offers,
                bc_policy = \<lparr>renewalLeewayHours = int leeway, pastDueGraceHours = int grace\<rparr>\<rparr>)))))"

section \<open>What a configuration promises\<close>

definition offer_wf :: "PlanCatalog \<Rightarrow> Offer \<Rightarrow> bool" where
  "offer_wf plans offer \<longleftrightarrow> OFFER_ID (offer_id offer) \<and> REF_SHAPE (offer_priceRef offer) \<and>
     (\<forall>p. offer_planId offer = Some p \<longrightarrow> plan_get plans p \<noteq> None) \<and>
     offer_name offer \<noteq> [] \<and> length (offer_features offer) \<le> 10"

definition offers_wf :: "PlanCatalog \<Rightarrow> Offer list \<Rightarrow> bool" where
  "offers_wf plans offers \<longleftrightarrow> (\<forall>offer\<in>set offers. offer_wf plans offer) \<and>
     distinct (map offer_id offers) \<and> distinct (map offer_priceRef offers)"

lemma parse_offer_plan_wf: "parse_offer_plan i plans v = Inr (Some p) \<Longrightarrow> plan_get plans p \<noteq> None"
  by (auto simp: parse_offer_plan_def split: option.splits json.splits if_splits)

lemma parse_features_wf: "parse_features i v = Inr fs \<Longrightarrow> length fs \<le> 10"
  by (auto simp: parse_features_def split: option.splits json.splits if_splits)

lemma parse_offer_wf:
  assumes "parse_offer plans i offers raw = Inr offer"
  shows "offer_wf plans offer \<and> offer_id offer \<notin> set (map offer_id offers) \<and>
    offer_priceRef offer \<notin> set (map offer_priceRef offers)"
proof (cases raw)
  case (JObject o1)
  have id: "OFFER_ID s" if "(case v of Some (JString s) \<Rightarrow> if OFFER_ID s then Inr s else Inl (Offer_Bad_Id i)
      | _ \<Rightarrow> Inl (Offer_Bad_Id i)) = Inr s" for v s
    using that by (auto split: option.splits json.splits if_splits)
  have name: "s \<noteq> []" if "(case v of Some (JString s) \<Rightarrow> if trim s = [] \<or> length s > 80 then Inl (Offer_Bad_Name i) else Inr (trim s)
      | _ \<Rightarrow> Inl (Offer_Bad_Name i)) = Inr s" for v s
    using that by (auto split: option.splits json.splits if_splits)
  have price: "REF_SHAPE p" if "(case isRef v of None \<Rightarrow> Inl (Offer_Bad_Price i) | Some p \<Rightarrow> Inr p) = Inr p" for v p
    using that by (auto simp: isRef_Some split: option.splits)
  from assms JObject show ?thesis
    unfolding parse_offer_def offer_wf_def Let_def
    by (auto dest: parse_offer_plan_wf parse_features_wf id name price)
qed (use assms in \<open>simp_all add: parse_offer_def\<close>)

lemma parse_offer_list_wf:
  "parse_offer_list plans i offers raws = Inr out \<Longrightarrow> offers_wf plans offers \<Longrightarrow> offers_wf plans out"
proof (induction raws arbitrary: i offers)
  case (Cons raw raws)
  from Cons.prems obtain offer where o1: "parse_offer plans i offers raw = Inr offer"
      and rest: "parse_offer_list plans (i + 1) (offers @ [offer]) raws = Inr out" by auto
  from parse_offer_wf [OF o1] Cons.prems(2) have "offers_wf plans (offers @ [offer])" by (auto simp: offers_wf_def)
  with Cons.IH [OF rest] show ?case by blast
qed simp

lemma parseOffers_wf: "parseOffers document plans = Inr offers \<Longrightarrow> offers_wf plans offers \<and> length offers \<le> MAX_OFFERS"
proof -
  assume "parseOffers document plans = Inr offers"
  then obtain raws where raws: "length raws \<le> MAX_OFFERS" "parse_offer_list plans 0 [] raws = Inr offers"
    by (auto simp: parseOffers_def not_less split: json.splits option.splits bool.splits if_splits)
  have "length out = length offers + length rs"
    if "parse_offer_list plans i offers rs = Inr out" for i offers rs out
    using that by (induction rs arbitrary: i offers) auto
  from this [OF raws(2)] raws parse_offer_list_wf [OF raws(2)] show ?thesis by (simp add: offers_wf_def)
qed

text \<open>
  A billing configuration that is accepted is one the processor can trust: billing is
  never on in production, its webhook secret has at least 32 characters, leeway and grace
  are at most a week and thirty days, and the offers name each price once and only plans
  that exist, so the price of a subscription leads to exactly the configured offer that
  carries it.
\<close>

theorem billing_config_trustworthy:
  assumes "billingFromEnv JSON_parse env plans = Inr (Some config)"
  shows "trimmed (NODE_ENV env) \<noteq> ''production'' \<and> 32 \<le> length (bc_webhookSecret config) \<and>
     0 \<le> renewalLeewayHours (bc_policy config) \<and> renewalLeewayHours (bc_policy config) \<le> 168 \<and>
     0 \<le> pastDueGraceHours (bc_policy config) \<and> pastDueGraceHours (bc_policy config) \<le> 720 \<and>
     offers_wf plans (bc_offers config) \<and>
     (\<forall>offer\<in>set (bc_offers config).
        offer_for \<lparr>bd_provider = p, bd_offers = bc_offers config, bd_plans = plans, bd_policy = policy\<rparr>
          (offer_priceRef offer) = Some offer)"
proof -
  let ?offers = "(case env_text (BILLING_OFFERS_JSON env) of
               None \<Rightarrow> Inr []
             | Some raw \<Rightarrow> (case JSON_parse raw of None \<Rightarrow> Inl Offers_Invalid_JSON | Some doc \<Rightarrow> parseOffers doc plans))"
  have hours: "n \<le> most" if "hours name raw most = Inr n" for name raw n most
    using that by (auto simp: hours_def split: option.splits if_splits)
  from assms have env: "trimmed (NODE_ENV env) \<noteq> ''production''" "32 \<le> length (bc_webhookSecret config)"
      and policy: "0 \<le> renewalLeewayHours (bc_policy config)" "renewalLeewayHours (bc_policy config) \<le> 168"
        "0 \<le> pastDueGraceHours (bc_policy config)" "pastDueGraceHours (bc_policy config) \<le> 720"
      and offers: "?offers = Inr (bc_offers config)"
    unfolding billingFromEnv_def Let_def by (auto split: if_splits dest: hours)
  from offers have wf: "offers_wf plans (bc_offers config)"
    by (auto simp: offers_wf_def split: option.splits) (metis parseOffers_wf offers_wf_def)+
  have "offer_for \<lparr>bd_provider = p, bd_offers = bc_offers config, bd_plans = plans, bd_policy = policy\<rparr>
      (offer_priceRef offer) = Some offer" if offer: "offer \<in> set (bc_offers config)" for offer
  proof -
    have "find (\<lambda>o1. offer_priceRef o1 = offer_priceRef offer) (bc_offers config) \<noteq> None"
      using offer by (auto simp: find_None_iff)
    then obtain o1 where o1: "find (\<lambda>o1. offer_priceRef o1 = offer_priceRef offer) (bc_offers config) = Some o1" by blast
    then have "o1 \<in> set (bc_offers config)" "offer_priceRef o1 = offer_priceRef offer"
      by (auto simp: find_Some_iff)
    with offer wf have "o1 = offer" unfolding offers_wf_def by (meson distinct_map inj_onD)
    moreover have "\<forall>p. offer_planId offer = Some p \<longrightarrow> plan_get plans p \<noteq> None"
      using wf offer by (auto simp: offers_wf_def offer_wf_def)
    ultimately show ?thesis using o1 by (auto simp: offer_for_def split: option.splits)
  qed
  with env policy wf show ?thesis by blast
qed

definition demo_env :: billing_env where
  "demo_env = \<lparr>BILLING_PROVIDER = Some ''Test'', NODE_ENV = None,
     BILLING_WEBHOOK_SECRET = Some (replicate 32 CHR ''x''), BILLING_OFFERS_JSON = Some ''offers'',
     BILLING_RENEWAL_LEEWAY_HOURS = Some ''24'', BILLING_PAST_DUE_GRACE_HOURS = Some ''0''\<rparr>"

definition demo_offers :: json where
  "demo_offers = JObject [(''offers'', JArray [JObject [(''id'', JString ''basic''), (''plan'', JNull),
     (''priceRef'', JString ''p1''), (''name'', JString ''Basic'')]])]"

theorem billing_config_trustworthy_witness:
  "\<exists>config. billingFromEnv (\<lambda>_. Some demo_offers) demo_env [] = Inr (Some config) \<and>
     map offer_priceRef (bc_offers config) = [''p1''] \<and> offers_wf [] (bc_offers config)"
proof -
  have "(case billingFromEnv (\<lambda>_. Some demo_offers) demo_env [] of Inr (Some config) \<Rightarrow> map offer_priceRef (bc_offers config) = [''p1'']
      | _ \<Rightarrow> False)"
    by code_simp
  then obtain config where c: "billingFromEnv (\<lambda>_. Some demo_offers) demo_env [] = Inr (Some config)"
      "map offer_priceRef (bc_offers config) = [''p1'']"
    by (auto split: sum.splits option.splits)
  have "offers_wf [] (bc_offers config)"
    using billing_config_trustworthy [OF c(1), of "''test''" "bc_policy config"] by (elim conjE)
  with c show ?thesis by (intro exI [of _ config] conjI)
qed

end
