(* ===== verification/Terminal_Budgets.thy ===== *)
theory Terminal_Budgets
  imports Complex_Main Prelude
begin

text \<open>
  The two token buckets of the terminal service: \<open>input-budget.ts\<close> (bytes a socket may
  type) and \<open>attach-budget.ts\<close> (attaches a student may make) under
  \<open>services/terminal/src\<close>. Clocks give milliseconds as integers and are arguments of
  the methods. Token amounts are exact rationals: the rounding of the doubles the
  source computes with is not modelled.
\<close>

section \<open>Input\<close>

record InputBudget =
  ib_burst :: rat
  ib_rate :: rat
  ib_tokens :: rat
  ib_at :: int

definition newInputBudget :: "rat \<Rightarrow> rat \<Rightarrow> int \<Rightarrow> InputBudget" where
  "newInputBudget burstBytes bytesPerSecond now =
     \<lparr>ib_burst = burstBytes, ib_rate = bytesPerSecond, ib_tokens = burstBytes, ib_at = now\<rparr>"

definition DEFAULT_INPUT_BUDGET :: "rat \<times> rat" where
  "DEFAULT_INPUT_BUDGET = (256 * 1024, 8 * 1024)"

definition ib_spend :: "rat \<Rightarrow> int \<Rightarrow> InputBudget \<Rightarrow> bool \<times> InputBudget" where
  "ib_spend bytes now b =
     (let tokens = min (ib_burst b) (ib_tokens b + (of_int (now - ib_at b) / 1000) * ib_rate b);
          b1 = b\<lparr>ib_tokens := tokens, ib_at := now\<rparr>
      in if bytes > tokens then (False, b1) else (True, b1\<lparr>ib_tokens := tokens - bytes\<rparr>))"

text \<open>A sequence of frames, with the bytes accepted.\<close>

fun ib_run :: "(int \<times> rat) list \<Rightarrow> InputBudget \<Rightarrow> rat \<times> InputBudget" where
  "ib_run [] b = (0, b)"
| "ib_run ((now, bytes) # frames) b =
     (let (ok, b1) = ib_spend bytes now b;
          (accepted, b2) = ib_run frames b1
      in ((if ok then bytes else 0) + accepted, b2))"

lemma ib_spend_facts:
  assumes "ib_spend bytes now b = (ok, b')" "ib_at b \<le> now" "0 \<le> ib_rate b" "0 \<le> bytes"
  shows "ib_burst b' = ib_burst b" "ib_rate b' = ib_rate b" "ib_at b' = now"
    and "(if ok then bytes else 0) + ib_tokens b' \<le> ib_tokens b + (of_int (now - ib_at b) / 1000) * ib_rate b"
    and "0 \<le> ib_tokens b \<Longrightarrow> 0 \<le> ib_burst b \<Longrightarrow> 0 \<le> ib_tokens b' \<and> ib_tokens b' \<le> ib_burst b'"
    and "(if ok then bytes else 0) + ib_tokens b' \<le> ib_burst b"
proof -
  have inc: "0 \<le> (of_int (now - ib_at b) / 1000) * ib_rate b" using assms(2,3) by simp
  show "ib_burst b' = ib_burst b" "ib_rate b' = ib_rate b" "ib_at b' = now"
    and "(if ok then bytes else 0) + ib_tokens b' \<le> ib_tokens b + (of_int (now - ib_at b) / 1000) * ib_rate b"
    and "(if ok then bytes else 0) + ib_tokens b' \<le> ib_burst b"
    using assms(1) by (auto simp: ib_spend_def Let_def split: if_splits)
  show "0 \<le> ib_tokens b' \<and> ib_tokens b' \<le> ib_burst b'" if "0 \<le> ib_tokens b" "0 \<le> ib_burst b"
    using assms(1,4) inc that by (auto simp: ib_spend_def Let_def split: if_splits)
qed

lemma ib_run_bound:
  assumes "sorted (map fst frames)" "\<forall>(t, n)\<in>set frames. ib_at b \<le> t \<and> t \<le> end \<and> 0 \<le> n"
    "ib_at b \<le> end" "0 \<le> ib_rate b" "0 \<le> ib_tokens b" "0 \<le> ib_burst b"
  shows "fst (ib_run frames b) \<le> ib_tokens b + (of_int (end - ib_at b) / 1000) * ib_rate b"
  using assms
proof (induction frames arbitrary: b)
  case Nil
  then show ?case by simp
next
  case (Cons f frames)
  obtain now bytes where f: "f = (now, bytes)" by (cases f)
  obtain ok b1 where s: "ib_spend bytes now b = (ok, b1)" by fastforce
  have now: "ib_at b \<le> now" "now \<le> end" "0 \<le> bytes" using Cons.prems(2) f by auto
  note facts = ib_spend_facts [OF s now(1) Cons.prems(4) now(3)]
  have tok: "0 \<le> ib_tokens b1" "0 \<le> ib_burst b1" using facts(5) Cons.prems(5,6) facts(1) by auto
  have fr: "\<forall>(t, n)\<in>set frames. ib_at b1 \<le> t \<and> t \<le> end \<and> 0 \<le> n"
    using Cons.prems(1,2) f facts(3) by fastforce
  have "fst (ib_run frames b1) \<le> ib_tokens b1 + (of_int (end - now) / 1000) * ib_rate b"
    using Cons.IH [OF _ fr] Cons.prems(1,4) now facts(1-3) tok f by simp
  moreover have "(of_int (end - ib_at b) / 1000) * ib_rate b =
      (of_int (now - ib_at b) / 1000) * ib_rate b + (of_int (end - now) / 1000) * ib_rate b"
    by (simp add: algebra_simps flip: of_int_add) (simp add: algebra_simps diff_divide_distrib)
  moreover have "fst (ib_run (f # frames) b) = (if ok then bytes else 0) + fst (ib_run frames b1)"
    by (simp add: f s case_prod_beta)
  ultimately show ?case using facts(4) by linarith
qed

text \<open>The state after a run: the constants kept, the clock at the last frame, the tokens in range.\<close>

lemma ib_run_state:
  assumes "sorted (map fst frames)" "\<forall>(t, n)\<in>set frames. ib_at b \<le> t \<and> t \<le> latest \<and> 0 \<le> n"
    "ib_at b \<le> latest" "0 \<le> ib_rate b" "0 \<le> ib_tokens b" "0 \<le> ib_burst b"
  shows "ib_burst (snd (ib_run frames b)) = ib_burst b \<and> ib_rate (snd (ib_run frames b)) = ib_rate b
    \<and> ib_at (snd (ib_run frames b)) \<le> latest \<and> 0 \<le> ib_tokens (snd (ib_run frames b))"
  using assms
proof (induction frames arbitrary: b)
  case Nil
  then show ?case by simp
next
  case (Cons f frames)
  obtain now bytes where f: "f = (now, bytes)" by (cases f)
  obtain ok b1 where s: "ib_spend bytes now b = (ok, b1)" by fastforce
  have now: "ib_at b \<le> now" "now \<le> latest" "0 \<le> bytes" using Cons.prems(2) f by auto
  note facts = ib_spend_facts [OF s now(1) Cons.prems(4) now(3)]
  have tok: "0 \<le> ib_tokens b1" "0 \<le> ib_burst b1" using facts(5) Cons.prems(5,6) facts(1) by auto
  have fr: "\<forall>(t, n)\<in>set frames. ib_at b1 \<le> t \<and> t \<le> latest \<and> 0 \<le> n"
    using Cons.prems(1,2) f facts(3) by fastforce
  have "snd (ib_run (f # frames) b) = snd (ib_run frames b1)" by (simp add: f s case_prod_beta)
  then show ?case using Cons.IH [OF _ fr] Cons.prems(1,4) now facts(1-3) tok f by simp
qed

text \<open>What a bucket lets through from its next frame on, however long it had been idle.\<close>

lemma ib_run_window:
  assumes "sorted (map fst frames)"
    "\<forall>(t, n)\<in>set frames. ib_at b \<le> t \<and> opened \<le> t \<and> t \<le> shut \<and> 0 \<le> n"
    "opened \<le> shut" "0 \<le> ib_rate b" "0 \<le> ib_tokens b" "0 \<le> ib_burst b"
  shows "fst (ib_run frames b) \<le> ib_burst b + (of_int (shut - opened) / 1000) * ib_rate b"
proof (cases frames)
  case Nil
  then show ?thesis using assms by simp
next
  case (Cons f rest)
  obtain now bytes where f: "f = (now, bytes)" by (cases f)
  obtain ok b1 where s: "ib_spend bytes now b = (ok, b1)" by fastforce
  have now: "ib_at b \<le> now" "opened \<le> now" "now \<le> shut" "0 \<le> bytes" using assms(2) Cons f by auto
  note facts = ib_spend_facts [OF s now(1) assms(4) now(4)]
  have fr: "\<forall>(t, n)\<in>set rest. ib_at b1 \<le> t \<and> t \<le> shut \<and> 0 \<le> n"
    using assms(1,2) f facts(3) Cons by fastforce
  have "fst (ib_run rest b1) \<le> ib_tokens b1 + (of_int (shut - now) / 1000) * ib_rate b"
    using ib_run_bound [OF _ fr] assms Cons now facts f by auto
  moreover have "(of_int (shut - now) / 1000) * ib_rate b \<le> (of_int (shut - opened) / 1000) * ib_rate b"
    using now assms(4) by (intro mult_right_mono divide_right_mono) auto
  moreover have "fst (ib_run frames b) = (if ok then bytes else 0) + fst (ib_run rest b1)"
    by (simp add: Cons f s case_prod_beta)
  ultimately show ?thesis using facts(6) by linarith
qed

text \<open>Frames the tokens at hand cover are all accepted.\<close>

lemma ib_run_covered:
  assumes "sorted (map fst frames)" "\<forall>(t, n)\<in>set frames. ib_at b \<le> t \<and> 0 \<le> n"
    "0 \<le> ib_rate b" "sum_list (map snd frames) \<le> ib_tokens b" "ib_tokens b \<le> ib_burst b"
  shows "fst (ib_run frames b) = sum_list (map snd frames)"
  using assms
proof (induction frames arbitrary: b)
  case Nil
  then show ?case by simp
next
  case (Cons f frames)
  obtain now bytes where f: "f = (now, bytes)" by (cases f)
  have now: "ib_at b \<le> now" "0 \<le> bytes" using Cons.prems(2) f by auto
  have inc: "0 \<le> (of_int (now - ib_at b) / 1000) * ib_rate b" using now Cons.prems(3) by simp
  have rest: "0 \<le> sum_list (map snd frames)" using Cons.prems(2) by (intro sum_list_nonneg) auto
  define tokens where
    "tokens = min (ib_burst b) (ib_tokens b + (of_int (now - ib_at b) / 1000) * ib_rate b)"
  have tok: "bytes + sum_list (map snd frames) \<le> tokens" "tokens \<le> ib_burst b"
    using Cons.prems(4,5) inc f by (auto simp: tokens_def)
  have s: "ib_spend bytes now b = (True, b\<lparr>ib_tokens := tokens - bytes, ib_at := now\<rparr>)"
    unfolding ib_spend_def Let_def tokens_def [symmetric] using tok rest by simp
  have "\<forall>(t, n)\<in>set frames. now \<le> t \<and> 0 \<le> n" using Cons.prems(1,2) f by fastforce
  then have "fst (ib_run frames (b\<lparr>ib_tokens := tokens - bytes, ib_at := now\<rparr>)) = sum_list (map snd frames)"
    using Cons.IH [of "b\<lparr>ib_tokens := tokens - bytes, ib_at := now\<rparr>"] Cons.prems(1,3) tok now by simp
  then show ?case by (simp add: f s case_prod_beta)
qed

text \<open>
  C37. A socket cannot flood the shell: whatever was sent \<open>before\<close>, and however long the
  socket stayed idle in between, the bytes accepted in a window of time are at most the
  burst plus the sustained rate times the length of that window, so that idle time is
  not saved up beyond the burst. And input is let through: frames that together stay
  within the burst are all accepted.
\<close>

theorem input_budget_bounds_the_flood:
  assumes "sorted (map fst (before @ window))"
    and "\<forall>(t, n)\<in>set (before @ window). start \<le> t \<and> t \<le> shut \<and> 0 \<le> n"
    and "\<forall>(t, n)\<in>set window. opened \<le> t" and "opened \<le> shut" "0 \<le> burst" "0 \<le> rate"
  shows "fst (ib_run window (snd (ib_run before (newInputBudget burst rate start))))
      \<le> burst + (of_int (shut - opened) / 1000) * rate \<and>
    (sum_list (map snd before) \<le> burst \<longrightarrow>
      fst (ib_run before (newInputBudget burst rate start)) = sum_list (map snd before))"
proof -
  let ?b = "newInputBudget burst rate start"
  let ?b' = "snd (ib_run before ?b)"
  have "fst (ib_run before ?b) = sum_list (map snd before)" if "sum_list (map snd before) \<le> burst"
    using assms that by (intro ib_run_covered) (auto simp: newInputBudget_def sorted_append)
  moreover have "fst (ib_run window ?b') \<le> burst + (of_int (shut - opened) / 1000) * rate"
  proof (cases window)
    case Nil
    then show ?thesis using assms(4-6) by simp
  next
    case (Cons f rest)
    have st: "ib_burst ?b' = burst \<and> ib_rate ?b' = rate \<and> ib_at ?b' \<le> fst f \<and> 0 \<le> ib_tokens ?b'"
      using ib_run_state [of before ?b "fst f"] assms Cons
      by (fastforce simp: newInputBudget_def sorted_append)
    then have "\<forall>(t, n)\<in>set window. ib_at ?b' \<le> t \<and> opened \<le> t \<and> t \<le> shut \<and> 0 \<le> n"
      using assms(1-3) Cons by (fastforce simp: sorted_append)
    then show ?thesis using ib_run_window [of window ?b' opened shut] st assms by (simp add: sorted_append)
  qed
  ultimately show ?thesis by blast
qed

theorem input_budget_bounds_the_flood_witness:
  "fst (ib_run [(60000, 100), (60010, 80), (61000, 5)]
      (snd (ib_run [(0, 80), (10, 20)] (newInputBudget 100 10 0)))) = 105 \<and>
   fst (ib_run [(60000, 100), (60010, 80), (61000, 5)]
      (snd (ib_run [(0, 80), (10, 20)] (newInputBudget 100 10 0))))
     \<le> 100 + (of_int (61000 - 60000) / 1000) * 10 \<and>
   fst (ib_run [(0, 80), (10, 20)] (newInputBudget 100 10 0)) = sum_list (map snd [(0::int, 80), (10, 20)])"
proof -
  have "fst (ib_run [(60000, 100), (60010, 80), (61000, 5)]
      (snd (ib_run [(0, 80), (10, 20)] (newInputBudget 100 10 0)))) = 105"
    by (simp add: newInputBudget_def ib_spend_def Let_def)
  moreover have "fst (ib_run [(60000, 100), (60010, 80), (61000, 5)]
      (snd (ib_run [(0, 80), (10, 20)] (newInputBudget 100 10 0))))
     \<le> 100 + (of_int (61000 - 60000) / 1000) * 10 \<and>
    (sum_list (map snd [(0::int, 80), (10, 20)]) \<le> (100 :: rat) \<longrightarrow>
     fst (ib_run [(0, 80), (10, 20)] (newInputBudget 100 10 0)) = sum_list (map snd [(0::int, 80), (10, 20)]))"
    by (rule input_budget_bounds_the_flood) auto
  moreover have "sum_list (map snd [(0::int, 80), (10, 20)]) \<le> (100 :: rat)" by simp
  ultimately show ?thesis by blast
qed

section \<open>Attaches\<close>

record Bucket =
  bk_tokens :: rat
  bk_at :: int

record AttachBudget =
  ab_burst :: rat
  ab_perMs :: rat
  buckets :: "(string \<times> Bucket) list"

definition newAttachBudget :: "rat \<Rightarrow> rat \<Rightarrow> AttachBudget" where
  "newAttachBudget burst perMinute = \<lparr>ab_burst = burst, ab_perMs = perMinute / 60000, buckets = []\<rparr>"

definition bucket_level :: "AttachBudget \<Rightarrow> Bucket \<Rightarrow> int \<Rightarrow> rat" where
  "bucket_level ab b now = bk_tokens b + of_int (now - bk_at b) * ab_perMs ab"

definition forgetRefilled :: "int \<Rightarrow> AttachBudget \<Rightarrow> AttachBudget" where
  "forgetRefilled now ab = ab\<lparr>buckets := filter (\<lambda>(s, b). \<not> (bucket_level ab b now \<ge> ab_burst ab)) (buckets ab)\<rparr>"

definition ab_spend :: "string \<Rightarrow> int \<Rightarrow> AttachBudget \<Rightarrow> bool \<times> AttachBudget" where
  "ab_spend student now ab0 =
     (let ab = forgetRefilled now ab0;
          bucket = (case map_of (buckets ab) student of
              None \<Rightarrow> \<lparr>bk_tokens = ab_burst ab, bk_at = now\<rparr> | Some b \<Rightarrow> b);
          tokens = min (ab_burst ab) (bucket_level ab bucket now)
      in if tokens < 1
         then (False, ab\<lparr>buckets := AList.update student \<lparr>bk_tokens = tokens, bk_at = now\<rparr> (buckets ab)\<rparr>)
         else (True, ab\<lparr>buckets := AList.update student \<lparr>bk_tokens = tokens - 1, bk_at = now\<rparr> (buckets ab)\<rparr>))"

definition ab_size :: "AttachBudget \<Rightarrow> nat" where
  "ab_size ab = length (buckets ab)"

text \<open>The abstract budget: how many attaches a student has at a time, forgotten or not.\<close>

definition level :: "AttachBudget \<Rightarrow> string \<Rightarrow> int \<Rightarrow> rat" where
  "level ab s now = (case map_of (buckets ab) s of
       None \<Rightarrow> ab_burst ab
     | Some b \<Rightarrow> min (ab_burst ab) (bucket_level ab b now))"

lemma level_update:
  "level (ab\<lparr>buckets := AList.update s b (buckets ab)\<rparr>) t later =
     (if t = s then min (ab_burst ab) (bucket_level ab b later) else level ab t later)"
  by (simp add: level_def bucket_level_def split: option.split)

lemma map_of_forget:
  "distinct (map fst al) \<Longrightarrow> map_of (filter (\<lambda>(k, v). P v) al) k =
     (case map_of al k of None \<Rightarrow> None | Some v \<Rightarrow> if P v then Some v else None)"
proof (induction al)
  case (Cons e al)
  obtain k' v where e: "e = (k', v)" by (cases e)
  have "k' \<notin> fst ` set (filter (\<lambda>(k, v). P v) al)" using Cons.prems e by auto
  then have "map_of (filter (\<lambda>(k, v). P v) al) k' = None" by (simp add: map_of_eq_None_iff)
  with Cons e show ?case by (auto split: option.splits)
qed simp

definition ab_inv :: "AttachBudget \<Rightarrow> bool" where
  "ab_inv ab \<longleftrightarrow> distinct (map fst (buckets ab)) \<and> 0 \<le> ab_perMs ab"

lemma level_forget:
  assumes "ab_inv ab" "now \<le> later"
  shows "level (forgetRefilled now ab) s later = level ab s later"
proof -
  have mono: "bucket_level ab b now \<le> bucket_level ab b later" for b
    using assms by (simp add: bucket_level_def ab_inv_def mult_right_mono)
  have bl: "bucket_level (forgetRefilled now ab) = bucket_level ab"
    by (simp add: bucket_level_def [abs_def] forgetRefilled_def)
  have m: "map_of (buckets (forgetRefilled now ab)) s = (case map_of (buckets ab) s of None \<Rightarrow> None
      | Some b \<Rightarrow> if \<not> (bucket_level ab b now \<ge> ab_burst ab) then Some b else None)"
    using assms(1) map_of_forget [of "buckets ab" "\<lambda>b. \<not> (bucket_level ab b now \<ge> ab_burst ab)" s]
    by (simp add: forgetRefilled_def ab_inv_def)
  have "ab_burst ab \<le> bucket_level ab b later" if "ab_burst ab \<le> bucket_level ab b now" for b
    using that mono [of b] by linarith
  then show ?thesis unfolding level_def m bl by (auto simp: forgetRefilled_def split: option.splits)
qed

text \<open>
  Forgetting refilled buckets changes nothing: the attach budget behaves as a token
  bucket per student that is remembered for ever. An attach is accepted exactly when
  the student's level is at least one; it costs that student one attach (nothing when
  refused) and refills with time up to the burst; nobody else's level changes; and
  only students with a partly spent budget are remembered, the caller apart.
\<close>

theorem attach_budget_refines_bucket:
  assumes "ab_inv ab" and "ab_spend s now ab = (ok, ab')" and "now \<le> later"
  shows "ab_inv ab' \<and> ab_burst ab' = ab_burst ab \<and>
     (ok \<longleftrightarrow> 1 \<le> level ab s now) \<and>
     level ab' s later = min (ab_burst ab)
       (level ab s now - (if ok then 1 else 0) + of_int (later - now) * ab_perMs ab) \<and>
     (\<forall>t. t \<noteq> s \<longrightarrow> level ab' t later = level ab t later) \<and>
     (\<forall>t b. t \<noteq> s \<and> map_of (buckets ab') t = Some b \<longrightarrow> level ab t now < ab_burst ab)"
proof -
  let ?ab = "forgetRefilled now ab"
  have fb: "ab_burst ?ab = ab_burst ab" "ab_perMs ?ab = ab_perMs ab" by (simp_all add: forgetRefilled_def)
  have inv: "ab_inv ?ab"
    using assms(1) by (auto simp: ab_inv_def forgetRefilled_def distinct_map_filter)
  define bucket where "bucket = (case map_of (buckets ?ab) s of
      None \<Rightarrow> \<lparr>bk_tokens = ab_burst ab, bk_at = now\<rparr> | Some b \<Rightarrow> b)"
  have tokens: "min (ab_burst ab) (bucket_level ?ab bucket now) = level ab s now"
    using level_forget [OF assms(1) order_refl, of now s]
    by (auto simp: level_def bucket_def fb bucket_level_def split: option.splits)
  have res: "ok \<longleftrightarrow> 1 \<le> level ab s now" "ab' = ?ab\<lparr>buckets := AList.update s
      \<lparr>bk_tokens = level ab s now - (if ok then 1 else 0), bk_at = now\<rparr> (buckets ?ab)\<rparr>"
    using assms(2) unfolding ab_spend_def Let_def fb bucket_def [symmetric] tokens by (auto split: if_splits)
  have "level ab' s later = min (ab_burst ab)
      (level ab s now - (if ok then 1 else 0) + of_int (later - now) * ab_perMs ab)"
    unfolding res(2) level_update by (simp add: bucket_level_def fb)
  moreover have "level ab' t later = level ab t later" if "t \<noteq> s" for t
    using that level_forget [OF assms(1,3), of t] unfolding res(2) level_update by simp
  moreover have "level ab t now < ab_burst ab" if "t \<noteq> s" "map_of (buckets ab') t = Some b" for t b
  proof -
    have m: "map_of (buckets ?ab) t = Some b" using that by (simp add: res(2))
    then have "(t, b) \<in> set (buckets ?ab)" by (rule map_of_SomeD)
    then have "bucket_level ab b now < ab_burst ab" "(t, b) \<in> set (buckets ab)"
      by (auto simp: forgetRefilled_def)
    moreover from this(2) assms(1) have "map_of (buckets ab) t = Some b" by (simp add: ab_inv_def)
    ultimately show ?thesis by (simp add: level_def)
  qed
  moreover have "ab_inv ab'" using inv by (simp add: res(2) ab_inv_def distinct_keys_update)
  ultimately show ?thesis using res fb by (simp add: res(2)) blast
qed

theorem attach_budget_refines_bucket_witness:
  "fst (ab_spend ''stu'' 100 (newAttachBudget 2 60)) \<and>
   level (snd (ab_spend ''stu'' 100 (newAttachBudget 2 60))) ''stu'' 600 = 3 / 2"
proof -
  have inv: "ab_inv (newAttachBudget 2 60)" by (simp add: ab_inv_def newAttachBudget_def)
  have l: "level (newAttachBudget 2 60) ''stu'' 100 = 2" by (simp add: level_def newAttachBudget_def)
  have b: "ab_burst (newAttachBudget 2 60) = 2" "ab_perMs (newAttachBudget 2 60) = 1 / 1000"
    by (simp_all add: newAttachBudget_def)
  from attach_budget_refines_bucket [OF inv surjective_pairing, of 100 600 "''stu''"] l b show ?thesis by simp
qed

end
