(* ===== verification/Output_Flow.thy ===== *)
theory Output_Flow
  imports Prelude
begin

text \<open>
  Flow control between a shell and a socket: \<open>services/lab-orchestrator/src/output-flow.ts\<close>.
  The closure variables of \<open>createOutputFlow\<close> are the record \<open>Flow\<close>; the amount the
  socket is holding is the argument of every step; what the flow does to the outside
  (pausing and resuming the source, reporting the overflow) is a list of effects. A
  poll is one tick of the interval timer, which only ticks while it is set. The source
  may throw on pause and resume, which the code swallows, so the effects are the calls.
\<close>

section \<open>Options\<close>

record OutputFlowOptions =
  highWaterBytes :: int
  lowWaterBytes :: int
  hardLimitBytes :: int
  pollIntervalMs :: int

definition DEFAULT_OUTPUT_FLOW :: OutputFlowOptions where
  "DEFAULT_OUTPUT_FLOW = \<lparr>highWaterBytes = 1024 * 1024, lowWaterBytes = 256 * 1024,
     hardLimitBytes = 16 * 1024 * 1024, pollIntervalMs = 50\<rparr>"

record flow_overrides =
  o_high :: "int option"
  o_low :: "int option"
  o_hard :: "int option"
  o_poll :: "int option"

definition or_default :: "int option \<Rightarrow> int \<Rightarrow> int" where
  "or_default v d = (case v of None \<Rightarrow> d | Some x \<Rightarrow> x)"

datatype flow_error = RangeError

definition options_ok :: "OutputFlowOptions \<Rightarrow> bool" where
  "options_ok op \<longleftrightarrow> 0 < highWaterBytes op \<and> 0 < lowWaterBytes op \<and> 0 < hardLimitBytes op \<and>
     0 < pollIntervalMs op \<and> lowWaterBytes op \<le> highWaterBytes op \<and> highWaterBytes op < hardLimitBytes op"

definition resolveOutputFlowOptions :: "flow_overrides \<Rightarrow> flow_error + OutputFlowOptions" where
  "resolveOutputFlowOptions ov =
     (let op = \<lparr>highWaterBytes = or_default (o_high ov) (highWaterBytes DEFAULT_OUTPUT_FLOW),
                lowWaterBytes = or_default (o_low ov) (lowWaterBytes DEFAULT_OUTPUT_FLOW),
                hardLimitBytes = or_default (o_hard ov) (hardLimitBytes DEFAULT_OUTPUT_FLOW),
                pollIntervalMs = or_default (o_poll ov) (pollIntervalMs DEFAULT_OUTPUT_FLOW)\<rparr>
      in if \<not> (0 < highWaterBytes op) \<or> \<not> (0 < lowWaterBytes op) \<or> \<not> (0 < hardLimitBytes op) \<or>
            \<not> (0 < pollIntervalMs op) \<or> lowWaterBytes op > highWaterBytes op \<or>
            highWaterBytes op \<ge> hardLimitBytes op
         then Inl RangeError else Inr op)"

section \<open>The flow\<close>

record Flow =
  paused :: bool
  disposed :: bool
  overflowed :: bool
  timer :: bool

datatype effect = E_Pause | E_Resume | E_Overflow

definition new_flow :: Flow where
  "new_flow = \<lparr>paused = False, disposed = False, overflowed = False, timer = False\<rparr>"

definition overflow :: "Flow \<Rightarrow> Flow \<times> effect list" where
  "overflow f = (if overflowed f then (f, []) else (f\<lparr>overflowed := True, timer := False\<rparr>, [E_Overflow]))"

definition poll :: "OutputFlowOptions \<Rightarrow> int \<Rightarrow> Flow \<Rightarrow> Flow \<times> effect list" where
  "poll op buffered f =
     (if disposed f then (f\<lparr>timer := False\<rparr>, [])
      else if buffered > hardLimitBytes op then overflow f
      else if buffered > lowWaterBytes op then (f, [])
      else (f\<lparr>timer := False, paused := False\<rparr>, [E_Resume]))"

definition afterSend :: "OutputFlowOptions \<Rightarrow> int \<Rightarrow> Flow \<Rightarrow> Flow \<times> effect list" where
  "afterSend op buffered f =
     (if disposed f \<or> overflowed f then (f, [])
      else if buffered > hardLimitBytes op then overflow f
      else if paused f \<or> buffered \<le> highWaterBytes op then (f, [])
      else (f\<lparr>paused := True, timer := True\<rparr>, [E_Pause]))"

definition dispose :: "Flow \<Rightarrow> Flow \<times> effect list" where
  "dispose f = (f\<lparr>disposed := True, timer := False\<rparr>, [])"

datatype flow_event = Sent int | Tick int | Disposed

text \<open>A step; a tick of a timer that is not set does not happen.\<close>

fun flow_step :: "OutputFlowOptions \<Rightarrow> flow_event \<Rightarrow> Flow \<Rightarrow> Flow \<times> effect list" where
  "flow_step op (Sent n) f = afterSend op n f"
| "flow_step op (Tick n) f = (if timer f then poll op n f else (f, []))"
| "flow_step op Disposed f = dispose f"

fun flow_run :: "OutputFlowOptions \<Rightarrow> flow_event list \<Rightarrow> Flow \<Rightarrow> Flow \<times> effect list" where
  "flow_run op [] f = (f, [])"
| "flow_run op (e # es) f =
     (let (f1, out1) = flow_step op e f; (f2, out2) = flow_run op es f1 in (f2, out1 @ out2))"

section \<open>A relayed socket as the source\<close>

record ProbedSocket =
  ws_paused :: bool
  probe :: bool

definition ws_pause :: "ProbedSocket \<Rightarrow> ProbedSocket" where
  "ws_pause s = s\<lparr>ws_paused := True, probe := True\<rparr>"

text \<open>One tick of the probe: \<open>open\<close> is whether the socket is open, \<open>ping\<close> whether the ping went out.\<close>

definition ws_probe :: "bool \<Rightarrow> bool \<Rightarrow> ProbedSocket \<Rightarrow> ProbedSocket" where
  "ws_probe is_open ping_ok s =
     (if \<not> probe s then s
      else if \<not> is_open then s\<lparr>probe := False\<rparr>
      else if ping_ok then s
      else s\<lparr>probe := False\<rparr>)"

definition ws_resume :: "ProbedSocket \<Rightarrow> ProbedSocket" where
  "ws_resume s = s\<lparr>probe := False, ws_paused := False\<rparr>"

section \<open>Bytes waiting in a terminal\<close>

record write_task =
  task_length :: "int option"
  task_offset :: "int option"

text \<open>The write queue; \<open>None\<close> when the terminal has no such queue.\<close>

definition ptyPendingInputBytes :: "write_task option list option \<Rightarrow> int" where
  "ptyPendingInputBytes queue = (case queue of
       None \<Rightarrow> 0
     | Some tasks \<Rightarrow> foldl (\<lambda>pending task. case task of
           None \<Rightarrow> pending
         | Some tk \<Rightarrow> (case task_length tk of
               None \<Rightarrow> pending
             | Some len \<Rightarrow> pending + max 0 (len - (case task_offset tk of None \<Rightarrow> 0 | Some n \<Rightarrow> n)))) 0 tasks)"

definition ptyInputQueueReadable :: "write_task option list option \<Rightarrow> bool" where
  "ptyInputQueueReadable queue \<longleftrightarrow> queue \<noteq> None"

section \<open>Properties\<close>

lemma resolve_ok:
  "resolveOutputFlowOptions ov = Inr op \<Longrightarrow> options_ok op"
  by (auto simp: resolveOutputFlowOptions_def options_ok_def Let_def split: if_splits)

text \<open>A flow is polling exactly while it has something to resume.\<close>

definition flow_inv :: "Flow \<Rightarrow> bool" where
  "flow_inv f \<longleftrightarrow> (timer f \<longleftrightarrow> paused f \<and> \<not> disposed f \<and> \<not> overflowed f)"

text \<open>What the effects so far leave: pauses and resumes alternate, and an overflow is the last.\<close>

fun effects_ok :: "bool \<Rightarrow> effect list \<Rightarrow> bool" where
  "effects_ok p [] = True"
| "effects_ok p (E_Pause # es) \<longleftrightarrow> \<not> p \<and> effects_ok True es"
| "effects_ok p (E_Resume # es) \<longleftrightarrow> p \<and> effects_ok False es"
| "effects_ok p (E_Overflow # es) \<longleftrightarrow> es = []"

lemma flow_step_facts:
  assumes "flow_inv f" "flow_step op e f = (f', out)"
  shows "flow_inv f'"
    and "effects_ok (paused f) out"
    and "disposed f \<or> overflowed f \<Longrightarrow> out = [] \<and> (disposed f' \<or> overflowed f')"
    and "E_Overflow \<in> set out \<Longrightarrow> overflowed f'"
    and "E_Overflow \<notin> set out \<Longrightarrow> effects_ok (paused f) (out @ es) = effects_ok (paused f') es"
  using assms
  by (cases e; auto simp: flow_inv_def afterSend_def poll_def overflow_def dispose_def split: if_splits)+

lemma stopped_silent:
  "flow_inv f \<Longrightarrow> disposed f \<or> overflowed f \<Longrightarrow> snd (flow_run op es f) = []"
proof (induction es arbitrary: f)
  case (Cons e es)
  obtain f1 out where s: "flow_step op e f = (f1, out)" by fastforce
  note facts = flow_step_facts [OF Cons.prems(1) s]
  from Cons.IH [OF facts(1)] facts(3) Cons.prems(2) s show ?case by (simp add: case_prod_beta)
qed simp

lemma flow_run_facts:
  "flow_inv f \<Longrightarrow> flow_inv (fst (flow_run op es f)) \<and> effects_ok (paused f) (snd (flow_run op es f))"
proof (induction es arbitrary: f)
  case (Cons e es)
  obtain f1 out where s: "flow_step op e f = (f1, out)" by fastforce
  note facts = flow_step_facts [OF Cons.prems s]
  note IH = Cons.IH [OF facts(1)]
  show ?case
  proof (cases "E_Overflow \<in> set out")
    case True
    then have "snd (flow_run op es f1) = []" using stopped_silent [OF facts(1)] facts(4) by blast
    with IH facts(2) s show ?thesis by (simp add: case_prod_beta)
  next
    case False
    from facts(5) [OF False] IH s show ?thesis by (simp add: case_prod_beta)
  qed
qed simp

text \<open>
  C38. The flow keeps its promises on every run. It is polling exactly while the source is
  paused and the flow still matters, so a paused source is never forgotten: once the
  socket has drained to the low-water mark the next tick resumes it. Pauses and
  resumes alternate, an overflow is reported at most once and nothing follows it. A
  send that leaves more than the hard limit on a live flow always reports the overflow,
  and one that leaves at most the hard limit but more than the high-water mark always
  leaves the source paused.
\<close>

theorem output_flow_keeps_its_promises:
  assumes "options_ok op" and "flow_run op events new_flow = (f, effects)"
  shows "(timer f \<longleftrightarrow> paused f \<and> \<not> disposed f \<and> \<not> overflowed f) \<and> effects_ok False effects \<and>
     (timer f \<and> buffered \<le> lowWaterBytes op \<longrightarrow>
        flow_step op (Tick buffered) f = (f\<lparr>timer := False, paused := False\<rparr>, [E_Resume])) \<and>
     (\<not> disposed f \<and> \<not> overflowed f \<and> hardLimitBytes op < buffered \<longrightarrow>
        snd (flow_step op (Sent buffered) f) = [E_Overflow]) \<and>
     (\<not> disposed f \<and> \<not> overflowed f \<and> highWaterBytes op < buffered \<and> buffered \<le> hardLimitBytes op \<longrightarrow>
        paused (fst (flow_step op (Sent buffered) f)) \<and> timer (fst (flow_step op (Sent buffered) f)))"
proof -
  have "flow_inv new_flow" by (simp add: flow_inv_def new_flow_def)
  from flow_run_facts [OF this, of op events] assms(2)
  have inv: "flow_inv f" and eff: "effects_ok False effects" by (simp_all add: new_flow_def)
  have low: "lowWaterBytes op \<le> hardLimitBytes op" using assms(1) by (simp add: options_ok_def)
  show ?thesis
    using inv eff low assms(1)
    by (auto simp: flow_inv_def afterSend_def poll_def overflow_def options_ok_def split: if_splits)
qed

theorem output_flow_keeps_its_promises_witness:
  "flow_run DEFAULT_OUTPUT_FLOW [Sent 10, Sent 2000000, Tick 900000, Tick 1000, Sent 2000000, Sent 20000000, Tick 0] new_flow
     = (\<lparr>paused = True, disposed = False, overflowed = True, timer = False\<rparr>, [E_Pause, E_Resume, E_Pause, E_Overflow]) \<and>
   effects_ok False [E_Pause, E_Resume, E_Pause, E_Overflow]"
proof -
  have ok: "options_ok DEFAULT_OUTPUT_FLOW" by (simp add: options_ok_def DEFAULT_OUTPUT_FLOW_def)
  have r: "flow_run DEFAULT_OUTPUT_FLOW [Sent 10, Sent 2000000, Tick 900000, Tick 1000, Sent 2000000, Sent 20000000, Tick 0] new_flow
     = (\<lparr>paused = True, disposed = False, overflowed = True, timer = False\<rparr>, [E_Pause, E_Resume, E_Pause, E_Overflow])"
    by (simp add: DEFAULT_OUTPUT_FLOW_def new_flow_def afterSend_def poll_def overflow_def)
  from output_flow_keeps_its_promises [OF ok r] r show ?thesis by blast
qed

end
