(* ===== verification/Session_Token.thy ===== *)
theory Session_Token
  imports Complex_Main Js_Text Session_Identifiers
begin

text \<open>
  Terminal session tokens: \<open>services/lab-orchestrator/src/session-token.ts\<close>. The HMAC
  (\<open>sign\<close>, already in base64url), \<open>base64url\<close> and its inverse, and \<open>JSON.stringify\<close>
  with \<open>JSON.parse\<close> are functions of the platform and arguments here. The parsed payload
  is read by field: \<open>claim_fields\<close> gives the fields of an object, and none for any other
  JSON value, which is what the optional chaining of the source sees.
\<close>

section \<open>The model\<close>

record TerminalSessionClaims =
  tc_sid :: string
  tc_uid :: string
  tc_asid :: "string option"
  tc_labId :: string
  tc_namespace :: string
  tc_iat :: int
  tc_exp :: int

datatype token_error =
    InvalidSessionTokenError string
  | IssueError string

text \<open>A field of the payload: a string, a number, or a value of another type.\<close>

datatype claim_value = C_String string | C_Number rat | C_Other

definition AUTH_SESSION_ID_SHAPE :: "string \<Rightarrow> bool" where
  "AUTH_SESSION_ID_SHAPE s \<longleftrightarrow> length s = 64 \<and> list_all is_hex s"

definition claim_fields :: "TerminalSessionClaims \<Rightarrow> (string \<times> claim_value) list" where
  "claim_fields c =
     [(''sid'', C_String (tc_sid c)), (''uid'', C_String (tc_uid c))] @
     (case tc_asid c of None \<Rightarrow> [] | Some a \<Rightarrow> [(''asid'', C_String a)]) @
     [(''labId'', C_String (tc_labId c)), (''namespace'', C_String (tc_namespace c)),
      (''iat'', C_Number (of_int (tc_iat c))), (''exp'', C_Number (of_int (tc_exp c)))]"

record token_platform =
  tp_sign :: "string \<Rightarrow> string \<Rightarrow> string"
  tp_encode :: "(string \<times> claim_value) list \<Rightarrow> string"
  tp_decode :: "string \<Rightarrow> (string \<times> claim_value) list option"

record IssueOptions =
  io_sessionId :: string
  io_ownerUserId :: string
  io_authSessionId :: "string option"
  io_labId :: string
  io_namespace :: string
  io_secret :: string
  io_ttlSeconds :: int

definition issueSessionToken ::
    "token_platform \<Rightarrow> IssueOptions \<Rightarrow> int \<Rightarrow> token_error + string \<times> TerminalSessionClaims" where
  "issueSessionToken tp opt nowMs =
     (if length (io_secret opt) < 8
      then Inl (IssueError ''TERMINAL_SESSION_SECRET must be set and at least 8 characters long'')
      else
        let nowSeconds = nowMs div 1000 in
        if io_sessionId opt = []
        then Inl (IssueError ''issueSessionToken requires the lab session id to bind the token to'')
        else if io_ownerUserId opt = []
        then Inl (IssueError ''issueSessionToken requires the owning user id to bind the token to'')
        else if (case io_authSessionId opt of None \<Rightarrow> False | Some a \<Rightarrow> \<not> AUTH_SESSION_ID_SHAPE a)
        then Inl (IssueError ''issueSessionToken was given a sign-in id that is not a stored auth session id'')
        else
          let claims = \<lparr>tc_sid = io_sessionId opt, tc_uid = io_ownerUserId opt, tc_asid = io_authSessionId opt,
                tc_labId = io_labId opt, tc_namespace = io_namespace opt, tc_iat = nowSeconds,
                tc_exp = nowSeconds + io_ttlSeconds opt\<rparr>;
              payload = tp_encode tp (claim_fields claims)
          in Inr (payload @ ''.'' @ tp_sign tp payload (io_secret opt), claims))"

definition verify_claims ::
    "(string \<times> claim_value) list \<Rightarrow> int \<Rightarrow> token_error + (string \<times> claim_value) list" where
  "verify_claims claims nowMs =
     (case (map_of claims ''sid'', map_of claims ''labId'', map_of claims ''namespace'', map_of claims ''exp'') of
        (Some (C_String _), Some (C_String _), Some (C_String _), Some (C_Number deadline)) \<Rightarrow>
          if (case map_of claims ''uid'' of Some (C_String uid) \<Rightarrow> length uid = 0 | _ \<Rightarrow> True)
          then Inl (InvalidSessionTokenError ''token carries no session owner'')
          else if (case map_of claims ''asid'' of
                 None \<Rightarrow> False
               | Some (C_String a) \<Rightarrow> \<not> AUTH_SESSION_ID_SHAPE a
               | Some _ \<Rightarrow> True)
          then Inl (InvalidSessionTokenError ''malformed sign-in binding'')
          else if of_int (nowMs div 1000) \<ge> deadline then Inl (InvalidSessionTokenError ''token expired'')
          else Inr claims
      | _ \<Rightarrow> Inl (InvalidSessionTokenError ''incomplete claims''))"

definition verifySessionToken ::
    "token_platform \<Rightarrow> unknown_value \<Rightarrow> string \<Rightarrow> int \<Rightarrow> token_error + (string \<times> claim_value) list" where
  "verifySessionToken tp input secret nowMs = (case input of
       UOther _ \<Rightarrow> Inl (InvalidSessionTokenError ''missing token'')
     | UString token \<Rightarrow>
         if token = [] then Inl (InvalidSessionTokenError ''missing token'')
         else if length token > 4096 then Inl (InvalidSessionTokenError ''token too long'')
         else (case split_on CHR ''.'' token of
             [payload, signature] \<Rightarrow>
               let expected = tp_sign tp payload secret in
               if signature \<noteq> expected then Inl (InvalidSessionTokenError ''signature mismatch'')
               else (case tp_decode tp payload of
                   None \<Rightarrow> Inl (InvalidSessionTokenError ''unreadable payload'')
                 | Some claims \<Rightarrow> verify_claims claims nowMs)
           | _ \<Rightarrow> Inl (InvalidSessionTokenError ''malformed token'')))"

section \<open>Properties\<close>

text \<open>
  What the code relies on of the platform for a payload: base64url texts contain no dot,
  and the encoded claims decode to the fields they were encoded from.
\<close>

definition dotless :: "token_platform \<Rightarrow> bool" where
  "dotless tp \<longleftrightarrow> (\<forall>fs. CHR ''.'' \<notin> set (tp_encode tp fs)) \<and> (\<forall>p s. CHR ''.'' \<notin> set (tp_sign tp p s))"

definition decodes :: "token_platform \<Rightarrow> TerminalSessionClaims \<Rightarrow> bool" where
  "decodes tp c \<longleftrightarrow> tp_decode tp (tp_encode tp (claim_fields c)) = Some (claim_fields c)"

lemma claim_fields_lookup:
  "map_of (claim_fields c) ''sid'' = Some (C_String (tc_sid c))"
  "map_of (claim_fields c) ''uid'' = Some (C_String (tc_uid c))"
  "map_of (claim_fields c) ''asid'' = map_option C_String (tc_asid c)"
  "map_of (claim_fields c) ''labId'' = Some (C_String (tc_labId c))"
  "map_of (claim_fields c) ''namespace'' = Some (C_String (tc_namespace c))"
  "map_of (claim_fields c) ''iat'' = Some (C_Number (of_int (tc_iat c)))"
  "map_of (claim_fields c) ''exp'' = Some (C_Number (of_int (tc_exp c)))"
  by (auto simp: claim_fields_def split: option.splits)

lemma verify_claim_fields:
  assumes "tc_uid c \<noteq> []" "\<forall>a. tc_asid c = Some a \<longrightarrow> AUTH_SESSION_ID_SHAPE a"
  shows "verify_claims (claim_fields c) nowMs =
    (if nowMs div 1000 < tc_exp c then Inr (claim_fields c) else Inl (InvalidSessionTokenError ''token expired''))"
  using assms by (cases "tc_asid c") (auto simp: verify_claims_def claim_fields_lookup)

text \<open>The claims a verified payload carries.\<close>

definition sound_claims :: "(string \<times> claim_value) list \<Rightarrow> int \<Rightarrow> bool" where
  "sound_claims cs nowMs \<longleftrightarrow>
     (\<exists>sid uid lab ns deadline. map_of cs ''sid'' = Some (C_String sid) \<and>
        map_of cs ''uid'' = Some (C_String uid) \<and> uid \<noteq> [] \<and> map_of cs ''labId'' = Some (C_String lab) \<and>
        map_of cs ''namespace'' = Some (C_String ns) \<and> map_of cs ''exp'' = Some (C_Number deadline) \<and>
        of_int (nowMs div 1000) < deadline) \<and>
     (map_of cs ''asid'' = None \<or> (\<exists>a. map_of cs ''asid'' = Some (C_String a) \<and> AUTH_SESSION_ID_SHAPE a))"

lemma verify_claims_sound:
  "verify_claims cs nowMs = Inr cs' \<Longrightarrow> cs' = cs \<and> sound_claims cs nowMs"
  by (auto simp: verify_claims_def sound_claims_def not_le
      split: option.splits claim_value.splits if_splits)

text \<open>
  C39. Whatever is presented, a token is accepted only if it is a text of at most 4096
  characters made of a payload and its signature under the secret, and the payload then
  names a session, a non-empty owner, a lab and a namespace, has not expired, and is bound
  to a well-formed sign-in or to none.
\<close>

theorem verified_token_is_signed_and_live:
  assumes "verifySessionToken tp input secret nowMs = Inr claims"
  shows "\<exists>payload. input = UString (payload @ ''.'' @ tp_sign tp payload secret) \<and>
     length (payload @ ''.'' @ tp_sign tp payload secret) \<le> 4096 \<and>
     tp_decode tp payload = Some claims \<and> sound_claims claims nowMs"
proof -
  from assms obtain token payload sig where token: "input = UString token" "length token \<le> 4096"
      "split_on CHR ''.'' token = [payload, sig]" "sig = tp_sign tp payload secret"
      and dec: "tp_decode tp payload = Some claims" "sound_claims claims nowMs"
    by (auto simp: verifySessionToken_def Let_def not_less dest!: verify_claims_sound
        split: unknown_value.splits if_splits list.splits option.splits)
  have "join_with ''.'' (split_on CHR ''.'' token) = token" by (rule join_with_split_on)
  then have "token = payload @ ''.'' @ sig" using token(3) by simp
  then show ?thesis using token dec by auto
qed

text \<open>
  A token that was issued verifies to exactly the claims it was issued for until the
  second it expires, and is refused as expired from then on; the claims bind the session
  and the non-empty owner the token was requested for.
\<close>

theorem session_token_roundtrip:
  assumes "dotless tp" and "decodes tp claims"
    and "issueSessionToken tp opt issuedMs = Inr (token, claims)" and "length token \<le> 4096"
  shows "verifySessionToken tp (UString token) (io_secret opt) nowMs =
      (if nowMs div 1000 < issuedMs div 1000 + io_ttlSeconds opt then Inr (claim_fields claims)
       else Inl (InvalidSessionTokenError ''token expired'')) \<and>
     tc_sid claims = io_sessionId opt \<and> tc_uid claims = io_ownerUserId opt \<and> tc_uid claims \<noteq> []"
proof -
  let ?p = "tp_encode tp (claim_fields claims)"
  from assms(3) have token: "token = ?p @ ''.'' @ tp_sign tp ?p (io_secret opt)"
      and uid: "tc_uid claims \<noteq> []" "tc_uid claims = io_ownerUserId opt" "tc_sid claims = io_sessionId opt"
      and asid: "\<forall>a. tc_asid claims = Some a \<longrightarrow> AUTH_SESSION_ID_SHAPE a"
      and exp: "tc_exp claims = issuedMs div 1000 + io_ttlSeconds opt"
    by (auto simp: issueSessionToken_def Let_def split: if_splits option.splits)
  have split: "split_on CHR ''.'' token = [?p, tp_sign tp ?p (io_secret opt)]"
    using assms(1) by (simp add: token split_on_append split_on_no_sep dotless_def)
  have "verifySessionToken tp (UString token) (io_secret opt) nowMs = verify_claims (claim_fields claims) nowMs"
    using assms(2,4) token split by (simp add: verifySessionToken_def decodes_def)
  then show ?thesis using verify_claim_fields [OF uid(1) asid] uid exp by simp
qed

text \<open>A platform and an issue the hypotheses hold of.\<close>

definition sample_claims :: TerminalSessionClaims where
  "sample_claims = \<lparr>tc_sid = ''s1'', tc_uid = ''u1'', tc_asid = None, tc_labId = ''K8S-001'',
     tc_namespace = ''lab-1'', tc_iat = 10, tc_exp = 70\<rparr>"

definition sample_platform :: token_platform where
  "sample_platform = \<lparr>tp_sign = (\<lambda>p s. ''c2ln''),
     tp_encode = (\<lambda>fs. if fs = claim_fields sample_claims then ''eyJ'' else ''e30''),
     tp_decode = (\<lambda>p. if p = ''eyJ'' then Some (claim_fields sample_claims) else if p = ''e30'' then Some [] else None)\<rparr>"

definition sample_issue :: IssueOptions where
  "sample_issue = \<lparr>io_sessionId = ''s1'', io_ownerUserId = ''u1'', io_authSessionId = None, io_labId = ''K8S-001'',
     io_namespace = ''lab-1'', io_secret = ''12345678'', io_ttlSeconds = 60\<rparr>"

lemma sample_platform_ok: "dotless sample_platform" "decodes sample_platform sample_claims"
  by (simp_all add: dotless_def decodes_def sample_platform_def)

lemma sample_issued:
  "issueSessionToken sample_platform sample_issue 10500 = Inr (''eyJ.c2ln'', sample_claims)"
  by (simp add: issueSessionToken_def sample_platform_def sample_issue_def sample_claims_def claim_fields_def)

theorem session_token_roundtrip_witness:
  "verifySessionToken sample_platform (UString ''eyJ.c2ln'') ''12345678'' 20000 = Inr (claim_fields sample_claims) \<and>
   verifySessionToken sample_platform (UString ''eyJ.c2ln'') ''12345678'' 70000 =
     Inl (InvalidSessionTokenError ''token expired'')"
  using session_token_roundtrip [OF sample_platform_ok sample_issued, of 20000]
    session_token_roundtrip [OF sample_platform_ok sample_issued, of 70000]
  by (simp add: sample_issue_def)

theorem verified_token_is_signed_and_live_witness:
  "\<exists>payload. UString ''eyJ.c2ln'' = UString (payload @ ''.'' @ tp_sign sample_platform payload ''12345678'') \<and>
     length (payload @ ''.'' @ tp_sign sample_platform payload ''12345678'') \<le> 4096 \<and>
     tp_decode sample_platform payload = Some (claim_fields sample_claims) \<and>
     sound_claims (claim_fields sample_claims) 20000"
  by (rule verified_token_is_signed_and_live)
     (simp add: verifySessionToken_def sample_platform_def verify_claim_fields sample_claims_def)

end
