(* ===== verification/Auth_Cookies.thy ===== *)
theory Auth_Cookies
  imports Session_Token Entitlements
begin

text \<open>
  Cookies and the sign-in transaction: \<open>apps/api/src/auth/cookies.ts\<close>, and the destination
  check of \<open>apps/api/src/routes/auth.ts\<close>. A header is a list of characters, \<open>Date.now()\<close> an
  argument in milliseconds, and \<open>maxAgeSeconds\<close> an integer, as every caller passes it. The
  HMAC, base64url and JSON codec of the sealed transaction are the \<open>token_platform\<close> of the
  terminal tokens, which the source uses in the same way. \<open>parseCookies\<close> fills an object
  literal: the model keeps its own properties, where an assignment to \<open>__proto__\<close> of a
  string leaves the object as it is.
\<close>

section \<open>Dates in headers\<close>

text \<open>\<open>Date.prototype.toUTCString\<close>: the proleptic Gregorian date of a day number.\<close>

definition civil_from_days :: "int \<Rightarrow> int \<times> int \<times> int" where
  "civil_from_days z =
     (let z' = z + 719468; era = z' div 146097; doe = z' mod 146097;
          yoe = (doe - doe div 1460 + doe div 36524 - doe div 146096) div 365;
          doy = doe - (365 * yoe + yoe div 4 - yoe div 100);
          mp = (5 * doy + 2) div 153;
          d = doy - (153 * mp + 2) div 5 + 1;
          m = (if mp < 10 then mp + 3 else mp - 9)
      in (yoe + era * 400 + (if m \<le> 2 then 1 else 0), m, d))"

definition pad_zero :: "nat \<Rightarrow> string \<Rightarrow> string" where
  "pad_zero n s = replicate (n - length s) CHR ''0'' @ s"

definition day_names :: "string list" where
  "day_names = [''Sun'', ''Mon'', ''Tue'', ''Wed'', ''Thu'', ''Fri'', ''Sat'']"

definition month_names :: "string list" where
  "month_names = [''Jan'', ''Feb'', ''Mar'', ''Apr'', ''May'', ''Jun'',
                  ''Jul'', ''Aug'', ''Sep'', ''Oct'', ''Nov'', ''Dec'']"

definition toUTCString :: "int \<Rightarrow> string" where
  "toUTCString ms =
     (if \<bar>ms\<bar> > 8640000000000000 then ''Invalid Date''
      else
        let z = ms div 86400000; t = ms mod 86400000; (y, m, d) = civil_from_days z;
            two = (\<lambda>k. pad_zero 2 (show_int k))
        in day_names ! nat ((z + 4) mod 7) @ '', '' @ two d @ '' '' @ month_names ! nat (m - 1) @ '' '' @
           (if y < 0 then ''-'' else []) @ pad_zero 4 (show_int \<bar>y\<bar>) @ '' '' @
           two (t div 3600000) @ '':'' @ two (t div 60000 mod 60) @ '':'' @ two (t div 1000 mod 60) @ '' GMT'')"

section \<open>Reading and writing cookies\<close>

datatype same_site = SS_Lax | SS_Strict | SS_None

record CookieAttributes =
  ca_secure :: bool
  ca_sameSite :: same_site
  ca_path :: string
  ca_domain :: "string option"
  ca_maxAgeSeconds :: "int option"
  ca_httpOnly :: "bool option"

datatype cookie_error = CookieError string

definition is_cookie_name_char :: "char \<Rightarrow> bool" where
  "is_cookie_name_char c \<longleftrightarrow> is_lower_alnum c \<or> is_upper c \<or> c \<in> set ''!#$%&*+-.^_`|~'' \<or> c = CHR 0x27"

definition is_cookie_value_char :: "char \<Rightarrow> bool" where
  "is_cookie_value_char c \<longleftrightarrow>
     is_lower_alnum c \<or> is_upper c \<or> c \<in> set ''!#$%&()*+-./:<=>?@[]^_`{|}~'' \<or> c = CHR 0x27"

definition COOKIE_NAME_PATTERN :: "string \<Rightarrow> bool" where
  "COOKIE_NAME_PATTERN s \<longleftrightarrow> s \<noteq> [] \<and> list_all is_cookie_name_char s"

definition COOKIE_VALUE_PATTERN :: "string \<Rightarrow> bool" where
  "COOKIE_VALUE_PATTERN s \<longleftrightarrow> list_all is_cookie_value_char s"

definition isValidCookieName :: "string \<Rightarrow> bool" where
  "isValidCookieName name = COOKIE_NAME_PATTERN name"

fun same_site_name :: "same_site \<Rightarrow> string" where
  "same_site_name SS_Lax = ''Lax''"
| "same_site_name SS_Strict = ''Strict''"
| "same_site_name SS_None = ''None''"

definition cookie_parts :: "string \<Rightarrow> string \<Rightarrow> CookieAttributes \<Rightarrow> int \<Rightarrow> string list" where
  "cookie_parts name val attributes nowMs =
     [name @ ''='' @ val, ''Path='' @ ca_path attributes] @
     (case ca_domain attributes of None \<Rightarrow> [] | Some d \<Rightarrow> if d = [] then [] else [''Domain='' @ d]) @
     (case ca_maxAgeSeconds attributes of None \<Rightarrow> []
      | Some age \<Rightarrow> [''Max-Age='' @ show_int (max 0 age), ''Expires='' @ toUTCString (nowMs + max 0 age * 1000)]) @
     (if ca_httpOnly attributes \<noteq> Some False then [''HttpOnly''] else []) @
     (if ca_secure attributes then [''Secure''] else []) @
     [''SameSite='' @ same_site_name (ca_sameSite attributes)]"

definition serializeCookie :: "string \<Rightarrow> string \<Rightarrow> CookieAttributes \<Rightarrow> int \<Rightarrow> cookie_error + string" where
  "serializeCookie name val attributes nowMs =
     (if \<not> COOKIE_NAME_PATTERN name
      then Inl (CookieError ([CHR 0x27] @ name @ [CHR 0x27] @ '' is not a valid cookie name''))
      else if \<not> COOKIE_VALUE_PATTERN val
      then Inl (CookieError ''Cookie value contains characters that must not be sent raw'')
      else Inr (join_with ''; '' (cookie_parts name val attributes nowMs)))"

definition clearCookie :: "string \<Rightarrow> CookieAttributes \<Rightarrow> int \<Rightarrow> cookie_error + string" where
  "clearCookie name attributes nowMs = serializeCookie name [] (attributes\<lparr>ca_maxAgeSeconds := Some 0\<rparr>) nowMs"

text \<open>One pair of the header; \<open>indexOf('=')\<close> is the length of what precedes the first one.\<close>

definition parse_pair :: "(string \<times> string) list \<Rightarrow> string \<Rightarrow> (string \<times> string) list" where
  "parse_pair out pair =
     (let before = takeWhile (\<lambda>c. c \<noteq> CHR ''='') pair in
      if before = [] \<or> before = pair then out
      else
        let name = trim before in
        if \<not> COOKIE_NAME_PATTERN name \<or> name = ''__proto__'' then out
        else AList.update name (trim (drop (Suc (length before)) pair)) out)"

definition parseCookies :: "string option \<Rightarrow> (string \<times> string) list" where
  "parseCookies header = (case header of
       None \<Rightarrow> []
     | Some h \<Rightarrow> if h = [] \<or> length h > 8192 then [] else foldl parse_pair [] (split_on CHR '';'' h))"

section \<open>The sign-in transaction\<close>

record AuthTransaction =
  at_state :: string
  at_nonce :: string
  at_codeVerifier :: string
  at_returnTo :: string
  at_exp :: rat

definition transaction_fields :: "AuthTransaction \<Rightarrow> (string \<times> claim_value) list" where
  "transaction_fields t =
     [(''state'', C_String (at_state t)), (''nonce'', C_String (at_nonce t)),
      (''codeVerifier'', C_String (at_codeVerifier t)), (''returnTo'', C_String (at_returnTo t)),
      (''exp'', C_Number (at_exp t))]"

definition sealTransaction :: "token_platform \<Rightarrow> AuthTransaction \<Rightarrow> string \<Rightarrow> string" where
  "sealTransaction tp transaction secret =
     (let payload = tp_encode tp (transaction_fields transaction)
      in payload @ ''.'' @ tp_sign tp payload secret)"

definition read_transaction :: "(string \<times> claim_value) list \<Rightarrow> AuthTransaction option" where
  "read_transaction fs =
     (case (map_of fs ''state'', map_of fs ''nonce'', map_of fs ''codeVerifier'', map_of fs ''returnTo'',
            map_of fs ''exp'') of
        (Some (C_String s), Some (C_String n), Some (C_String v), Some (C_String r), Some (C_Number e)) \<Rightarrow>
          Some \<lparr>at_state = s, at_nonce = n, at_codeVerifier = v, at_returnTo = r, at_exp = e\<rparr>
      | _ \<Rightarrow> None)"

definition openTransaction :: "token_platform \<Rightarrow> unknown_value \<Rightarrow> string \<Rightarrow> int \<Rightarrow> AuthTransaction option" where
  "openTransaction tp input secret nowMs = (case input of
       UOther _ \<Rightarrow> None
     | UString s \<Rightarrow>
         if length s = 0 \<or> length s > 4096 then None
         else (case split_on CHR ''.'' s of
             [payload, signature] \<Rightarrow>
               if signature \<noteq> tp_sign tp payload secret then None
               else (case tp_decode tp payload of
                   None \<Rightarrow> None
                 | Some fs \<Rightarrow> (case read_transaction fs of
                     None \<Rightarrow> None
                   | Some t \<Rightarrow> if of_int (nowMs div 1000) \<ge> at_exp t then None else Some t))
           | _ \<Rightarrow> None))"

section \<open>The post-sign-in destination\<close>

definition safeReturnTo :: "unknown_value \<Rightarrow> string" where
  "safeReturnTo v = (case v of
       UOther _ \<Rightarrow> ''/''
     | UString s \<Rightarrow>
         if length s = 0 \<or> length s > 512 then ''/''
         else if \<not> starts_with ''/'' s then ''/''
         else if starts_with ''//'' s \<or> starts_with (''/'' @ [CHR 0x5C]) s then ''/''
         else if list_ex is_control s then ''/''
         else s)"

section \<open>Cookies come back as they were set\<close>

text \<open>What a user agent sends for the cookies it holds: \<open>name=value\<close> pairs joined by \<open>; \<close>.\<close>

definition cookie_header :: "(string \<times> string) list \<Rightarrow> string" where
  "cookie_header jar = join_with ''; '' (map (\<lambda>(n, v). n @ ''='' @ v) jar)"

text \<open>
  How a user agent keeps the cookies of \<open>Set-Cookie\<close> lines (RFC 6265): the name and value
  are read before the first semicolon, split at the first equals sign; a line whose
  \<open>Max-Age\<close> is zero removes the cookie of that name, any other replaces or adds it.
\<close>

definition cookie_pair :: "string \<Rightarrow> string" where
  "cookie_pair line = takeWhile (\<lambda>c. c \<noteq> CHR '';'') line"

definition line_name :: "string \<Rightarrow> string" where
  "line_name line = takeWhile (\<lambda>c. c \<noteq> CHR ''='') (cookie_pair line)"

definition line_value :: "string \<Rightarrow> string" where
  "line_value line = drop (Suc (length (line_name line))) (cookie_pair line)"

definition line_removes :: "string \<Rightarrow> bool" where
  "line_removes line \<longleftrightarrow>
     find (starts_with '' Max-Age='') (tl (split_on CHR '';'' line)) = Some '' Max-Age=0''"

definition ua_set :: "(string \<times> string) list \<Rightarrow> string \<Rightarrow> (string \<times> string) list" where
  "ua_set jar line =
     (if line_removes line then AList.delete (line_name line) jar
      else AList.update (line_name line) (line_value line) jar)"

definition ua_receive :: "string list \<Rightarrow> (string \<times> string) list \<Rightarrow> (string \<times> string) list" where
  "ua_receive setCookie jar = foldl ua_set jar setCookie"

definition jar_ok :: "(string \<times> string) list \<Rightarrow> bool" where
  "jar_ok jar \<longleftrightarrow>
     list_all (\<lambda>(n, v). COOKIE_NAME_PATTERN n \<and> n \<noteq> ''__proto__'' \<and> COOKIE_VALUE_PATTERN v) jar"

lemma toUTCString_samples:
  "toUTCString 0 = ''Thu, 01 Jan 1970 00:00:00 GMT''"
  "toUTCString 951782400000 = ''Tue, 29 Feb 2000 00:00:00 GMT''"
  "toUTCString 1767225599000 = ''Wed, 31 Dec 2025 23:59:59 GMT''"
  by code_simp+

lemma cookie_name_char:
  assumes "is_cookie_name_char c"
  shows "c \<noteq> CHR ''=''" "c \<noteq> CHR '';''" "\<not> is_space c"
  using assms by (auto simp: is_cookie_name_char_def is_lower_alnum_def is_upper_def is_space_def)

lemma cookie_value_char:
  assumes "is_cookie_value_char c"
  shows "c \<noteq> CHR '';''" "\<not> is_space c"
  using assms by (auto simp: is_cookie_value_char_def is_lower_alnum_def is_upper_def is_space_def)

lemma cookie_name_chars:
  assumes "COOKIE_NAME_PATTERN n"
  shows "CHR ''='' \<notin> set n" "CHR '';'' \<notin> set n" "list_all (\<lambda>c. \<not> is_space c) n"
  using assms cookie_name_char [of "CHR ''=''"] cookie_name_char [of "CHR '';''"] cookie_name_char(3)
  by (auto simp: COOKIE_NAME_PATTERN_def list_all_iff)

lemma cookie_value_chars:
  assumes "COOKIE_VALUE_PATTERN v"
  shows "CHR '';'' \<notin> set v" "list_all (\<lambda>c. \<not> is_space c) v"
  using assms cookie_value_char [of "CHR '';''"] cookie_value_char(2)
  by (auto simp: COOKIE_VALUE_PATTERN_def list_all_iff)

lemma trim_no_space: "list_all (\<lambda>c. \<not> is_space c) s \<Longrightarrow> trim s = s"
  by (cases "s = []") (simp add: trim_def, intro trim_id, simp_all add: list_all_iff)

lemma trim_leading: "is_space c \<Longrightarrow> trim (c # s) = trim s"
  by (simp add: trim_def)

lemma takeWhile_prefix: "\<forall>c \<in> set n. c \<noteq> e \<Longrightarrow> takeWhile (\<lambda>c. c \<noteq> e) (n @ e # v) = n"
  by (induction n) auto

lemma parse_pair_header:
  assumes "COOKIE_NAME_PATTERN n" "n \<noteq> ''__proto__''" "COOKIE_VALUE_PATTERN v" "set sp \<subseteq> {CHR '' ''}"
  shows "parse_pair out (sp @ n @ ''='' @ v) = AList.update n v out"
proof -
  have n: "list_all (\<lambda>c. \<not> is_space c) n" "\<forall>c \<in> set (sp @ n). c \<noteq> CHR ''=''"
    using assms(4) cookie_name_chars [OF assms(1)] by auto
  note v = cookie_value_chars(2) [OF assms(3)]
  have "trim (sp @ n) = n"
    using assms(4) n(1)
    by (induction sp) (simp_all add: trim_no_space trim_leading is_space_def)
  moreover have "takeWhile (\<lambda>c. c \<noteq> CHR ''='') (sp @ n @ ''='' @ v) = sp @ n"
    using takeWhile_prefix [OF n(2)] by simp
  ultimately show ?thesis
    using assms(1,2) by (simp add: parse_pair_def Let_def trim_no_space [OF v] COOKIE_NAME_PATTERN_def)
qed

lemma split_header:
  assumes "jar_ok ((n, v) # jar)"
  shows "split_on CHR '';'' (cookie_header ((n, v) # jar)) =
    (n @ ''='' @ v) # map (\<lambda>(n, v). '' '' @ n @ ''='' @ v) jar"
  using assms
proof (induction jar arbitrary: n v)
  case Nil
  then have "CHR '';'' \<notin> set (n @ ''='' @ v)"
    using cookie_name_chars(2) [of n] cookie_value_chars(1) [of v] by (auto simp: jar_ok_def)
  then show ?case using split_on_no_sep by (simp add: cookie_header_def)
next
  case (Cons p jar)
  obtain m w where p: "p = (m, w)" by (cases p)
  have "CHR '';'' \<notin> set (n @ ''='' @ v)"
    using Cons.prems cookie_name_chars(2) [of n] cookie_value_chars(1) [of v] by (auto simp: jar_ok_def)
  moreover have "jar_ok ((m, w) # jar)" using Cons.prems p by (simp add: jar_ok_def)
  then have "split_on CHR '';'' (cookie_header ((m, w) # jar)) =
    (m @ ''='' @ w) # map (\<lambda>(n, v). '' '' @ n @ ''='' @ v) jar" by (rule Cons.IH)
  moreover have "cookie_header ((n, v) # p # jar) =
    (n @ ''='' @ v) @ CHR '';'' # CHR '' '' # cookie_header ((m, w) # jar)"
    by (simp add: cookie_header_def p)
  ultimately show ?case
    using p split_on_append [of "CHR '';''" "n @ ''='' @ v" "CHR '' '' # cookie_header ((m, w) # jar)"] by simp
qed

lemma foldl_parse_pairs:
  "jar_ok jar \<Longrightarrow> foldl parse_pair out (map (\<lambda>(n, v). '' '' @ n @ ''='' @ v) jar)
     = foldl (\<lambda>out (n, v). AList.update n v out) out jar"
  by (induction jar arbitrary: out)
    (auto simp: jar_ok_def parse_pair_header [where sp = "'' ''", simplified])

lemma map_of_updates:
  "map_of (foldl (\<lambda>out (n, v). AList.update n v out) out jar) = map_of out ++ map_of (rev jar)"
  by (induction jar arbitrary: out) (auto simp: fun_eq_iff map_add_def split: option.splits)

lemma parse_header:
  assumes "jar_ok jar" "length (cookie_header jar) \<le> 8192"
  shows "map_of (parseCookies (Some (cookie_header jar))) = map_of (rev jar)"
proof (cases jar)
  case Nil
  then show ?thesis by (simp add: parseCookies_def cookie_header_def)
next
  case (Cons p rest)
  obtain n v where p: "p = (n, v)" by (cases p)
  have ok: "jar_ok ((n, v) # rest)" using assms(1) Cons p by simp
  then have "cookie_header ((n, v) # rest) \<noteq> []"
    by (cases rest) (auto simp: cookie_header_def)
  moreover have "foldl parse_pair [] (split_on CHR '';'' (cookie_header ((n, v) # rest))) =
      foldl (\<lambda>out (n, v). AList.update n v out) [] jar"
    using ok parse_pair_header [of n v "[]"] foldl_parse_pairs [of rest]
    by (simp add: split_header [OF ok] jar_ok_def Cons p)
  ultimately show ?thesis
    using assms(2) by (simp add: parseCookies_def Cons p map_of_updates)
qed

lemma serializeCookie_ok:
  "\<not> isl (serializeCookie n v a t) \<longleftrightarrow> COOKIE_NAME_PATTERN n \<and> COOKIE_VALUE_PATTERN v"
  by (simp add: serializeCookie_def)

section \<open>What a user agent makes of a line\<close>

text \<open>Attributes that cannot be cut in two: the path and the domain hold no semicolon.\<close>

definition attributes_ok :: "CookieAttributes \<Rightarrow> bool" where
  "attributes_ok a \<longleftrightarrow> CHR '';'' \<notin> set (ca_path a) \<and>
     (case ca_domain a of None \<Rightarrow> True | Some d \<Rightarrow> CHR '';'' \<notin> set d)"

lemma serializeCookie_line:
  assumes "serializeCookie n v a t = Inr line"
  shows "COOKIE_NAME_PATTERN n" "COOKIE_VALUE_PATTERN v"
    and "line = (n @ ''='' @ v) @ CHR '';'' # CHR '' '' # join_with ''; '' (tl (cookie_parts n v a t))"
  using assms by (auto simp: serializeCookie_def cookie_parts_def split: if_splits)

lemma serializeCookie_pair:
  assumes "serializeCookie n v a t = Inr line"
  shows "line_name line = n" "line_value line = v"
proof -
  note l = serializeCookie_line [OF assms]
  have "\<forall>c \<in> set (n @ ''='' @ v). c \<noteq> CHR '';''"
    using cookie_name_chars(2) [OF l(1)] cookie_value_chars(1) [OF l(2)] by auto
  from takeWhile_prefix [OF this] have pair: "cookie_pair line = n @ CHR ''='' # v"
    by (simp add: cookie_pair_def l(3))
  have "\<forall>c \<in> set n. c \<noteq> CHR ''=''" using cookie_name_chars(1) [OF l(1)] by auto
  from takeWhile_prefix [OF this, of v] show name: "line_name line = n" by (simp add: line_name_def pair)
  show "line_value line = v" by (simp add: line_value_def name pair)
qed

lemma find_attribute:
  assumes "CHR '';'' \<notin> set p"
  shows "find P (split_on CHR '';'' (CHR '' '' # join_with ''; '' (p # ps))) =
    (if P (CHR '' '' # p) then Some (CHR '' '' # p) else
     if ps = [] then None else find P (split_on CHR '';'' (CHR '' '' # join_with ''; '' ps)))"
proof (cases ps)
  case Nil
  then show ?thesis using split_on_no_sep [of "CHR '';''" "CHR '' '' # p"] assms by simp
next
  case (Cons q qs)
  have "split_on CHR '';'' (CHR '' '' # join_with ''; '' (p # ps)) =
      (CHR '' '' # p) # split_on CHR '';'' (CHR '' '' # join_with ''; '' ps)"
    using split_on_append [of "CHR '';''" "CHR '' '' # p"] assms by (simp add: Cons del: split_on.simps)
  then show ?thesis by (simp add: Cons del: split_on.simps)
qed

lemma show_nonneg: "CHR '';'' \<notin> set (show_int (max 0 k))" "show_int (max 0 k) = ''0'' \<longleftrightarrow> k \<le> 0"
proof -
  have "\<not> is_digit CHR '';''" by code_simp
  then have "CHR '';'' \<notin> set (show_nat (nat (max 0 k)))"
    using show_nat_digits [of "nat (max 0 k)"] unfolding list_all_iff by blast
  then show "CHR '';'' \<notin> set (show_int (max 0 k))" by (simp add: show_int_def)
  have zero: "show_nat 0 = ''0''" by code_simp
  have "show_nat (nat (max 0 k)) = show_nat 0 \<longleftrightarrow> nat (max 0 k) = 0" by (metis read_nat_show_nat)
  then show "show_int (max 0 k) = ''0'' \<longleftrightarrow> k \<le> 0" by (auto simp: show_int_def zero)
qed

lemma serializeCookie_removes:
  assumes "serializeCookie n v a t = Inr line" "attributes_ok a"
  shows "line_removes line \<longleftrightarrow> (\<exists>k. ca_maxAgeSeconds a = Some k \<and> k \<le> 0)"
proof -
  note l = serializeCookie_line [OF assms(1)]
  let ?s = "split_on CHR '';'' (CHR '' '' # join_with ''; '' (tl (cookie_parts n v a t)))"
  have "CHR '';'' \<notin> set (n @ ''='' @ v)"
    using cookie_name_chars(2) [OF l(1)] cookie_value_chars(1) [OF l(2)] by auto
  from split_on_append [OF this] have "tl (split_on CHR '';'' line) = ?s" by (simp add: l(3) del: split_on.simps)
  moreover have "CHR '';'' \<notin> set (same_site_name (ca_sameSite a))" by (cases "ca_sameSite a") simp_all
  then have "find (starts_with '' Max-Age='') ?s =
      map_option (\<lambda>k. '' Max-Age='' @ show_int (max 0 k)) (ca_maxAgeSeconds a)"
    using assms(2) show_nonneg(1)
    by (cases "ca_maxAgeSeconds a"; cases "ca_domain a")
      (simp_all add: cookie_parts_def attributes_ok_def find_attribute starts_with_def del: split_on.simps join_with.simps)
  ultimately show ?thesis
    by (cases "ca_maxAgeSeconds a") (simp_all add: line_removes_def show_nonneg(2))
qed

lemma ua_set_cookie:
  assumes "serializeCookie n v a t = Inr line" "attributes_ok a" "\<And>k. ca_maxAgeSeconds a = Some k \<Longrightarrow> 0 < k"
  shows "ua_set jar line = AList.update n v jar"
  using assms serializeCookie_removes [OF assms(1,2)] by (auto simp: ua_set_def serializeCookie_pair)

lemma ua_clear_cookie:
  assumes "clearCookie n a t = Inr line" "attributes_ok a"
  shows "ua_set jar line = AList.delete n jar"
proof -
  have "attributes_ok (a\<lparr>ca_maxAgeSeconds := Some 0\<rparr>)" using assms(2) by (simp add: attributes_ok_def)
  with serializeCookie_removes [OF assms(1) [unfolded clearCookie_def]] have "line_removes line" by simp
  then show ?thesis by (simp add: ua_set_def serializeCookie_pair [OF assms(1) [unfolded clearCookie_def]])
qed

text \<open>A value written, or a cookie cleared; the jar it makes, and what it holds.\<close>

record cookie_write =
  cw_name :: string
  cw_value :: "string option"
  cw_attributes :: CookieAttributes
  cw_at :: int

definition cookie_line :: "cookie_write \<Rightarrow> cookie_error + string" where
  "cookie_line w = (case cw_value w of
       None \<Rightarrow> clearCookie (cw_name w) (cw_attributes w) (cw_at w)
     | Some v \<Rightarrow> serializeCookie (cw_name w) v (cw_attributes w) (cw_at w))"

definition write_ok :: "cookie_write \<Rightarrow> bool" where
  "write_ok w \<longleftrightarrow> cw_name w \<noteq> ''__proto__'' \<and> attributes_ok (cw_attributes w) \<and>
     (case (cw_value w, ca_maxAgeSeconds (cw_attributes w)) of (Some _, Some k) \<Rightarrow> 0 < k | _ \<Rightarrow> True)"

lemma jar_ok_update:
  "jar_ok jar \<Longrightarrow> COOKIE_NAME_PATTERN n \<Longrightarrow> n \<noteq> ''__proto__'' \<Longrightarrow> COOKIE_VALUE_PATTERN v \<Longrightarrow>
     jar_ok (AList.update n v jar)"
  by (induction jar) (auto simp: jar_ok_def)

lemma jar_ok_delete: "jar_ok jar \<Longrightarrow> jar_ok (AList.delete n jar)"
  by (auto simp: jar_ok_def list_all_iff AList.delete_eq)

lemma ua_set_line:
  assumes "cookie_line w = Inr line" "write_ok w" "jar_ok jar" "distinct (map fst jar)"
  shows "map_of (ua_set jar line) = (map_of jar)(cw_name w := cw_value w)"
    and "jar_ok (ua_set jar line)" "distinct (map fst (ua_set jar line))"
proof -
  have "map_of (ua_set jar line) = (map_of jar)(cw_name w := cw_value w) \<and>
    jar_ok (ua_set jar line) \<and> distinct (map fst (ua_set jar line))"
  proof (cases "cw_value w")
    case None
    then have "ua_set jar line = AList.delete (cw_name w) jar"
      using assms(1,2) ua_clear_cookie by (auto simp: cookie_line_def write_ok_def)
    then show ?thesis
      using assms(3,4) None jar_ok_delete by (simp add: AList.delete_conv' distinct_delete)
  next
    case (Some v)
    then have line: "serializeCookie (cw_name w) v (cw_attributes w) (cw_at w) = Inr line"
      using assms(1) by (simp add: cookie_line_def)
    then have "ua_set jar line = AList.update (cw_name w) v jar"
      using assms(2) Some by (intro ua_set_cookie) (auto simp: write_ok_def)
    then show ?thesis
      using assms(2-4) Some jar_ok_update serializeCookie_line(1,2) [OF line]
      by (simp add: AList.update_conv' distinct_update write_ok_def)
  qed
  then show "map_of (ua_set jar line) = (map_of jar)(cw_name w := cw_value w)"
    and "jar_ok (ua_set jar line)" "distinct (map fst (ua_set jar line))" by blast+
qed

lemma ua_receive_lines:
  assumes "map cookie_line ws = map Inr lines" "\<forall>w\<in>set ws. write_ok w" "jar_ok jar" "distinct (map fst jar)"
  shows "map_of (ua_receive lines jar) = foldl (\<lambda>m w. m(cw_name w := cw_value w)) (map_of jar) ws \<and>
    jar_ok (ua_receive lines jar) \<and> distinct (map fst (ua_receive lines jar))"
  using assms
proof (induction ws arbitrary: lines jar)
  case Nil
  then show ?case by (simp add: ua_receive_def)
next
  case (Cons w ws)
  then obtain line rest where l: "lines = line # rest" "cookie_line w = Inr line" "map cookie_line ws = map Inr rest"
    by auto
  note step = ua_set_line [OF l(2) _ Cons.prems(3,4)]
  have "ua_receive lines jar = ua_receive rest (ua_set jar line)" by (simp add: ua_receive_def l(1))
  then show ?case using Cons.IH [OF l(3) _ step(2,3)] step(1) Cons.prems(2) by simp
qed

lemma map_of_rev_distinct: "distinct (map fst xs) \<Longrightarrow> map_of (rev xs) = map_of xs"
  by (rule map_of_inject_set [THEN iffD2]) (simp_all flip: rev_map)


definition demo_attrs :: CookieAttributes where
  "demo_attrs = \<lparr>ca_secure = True, ca_sameSite = SS_Lax, ca_path = ''/'', ca_domain = None,
     ca_maxAgeSeconds = Some 60, ca_httpOnly = None\<rparr>"


section \<open>The sealed transaction\<close>

lemma read_transaction_fields: "read_transaction (transaction_fields t) = Some t"
  by (simp add: read_transaction_def transaction_fields_def)

lemma openTransaction_seal:
  assumes "dotless tp" "tp_decode tp (tp_encode tp (transaction_fields t)) = Some (transaction_fields t)"
    and "length (sealTransaction tp t secret) \<le> 4096"
  shows "openTransaction tp (UString (sealTransaction tp t secret)) secret nowMs =
    (if of_int (nowMs div 1000) < at_exp t then Some t else None)"
proof -
  let ?p = "tp_encode tp (transaction_fields t)"
  have "split_on CHR ''.'' (?p @ CHR ''.'' # tp_sign tp ?p secret) = [?p, tp_sign tp ?p secret]"
    using assms(1) by (simp add: dotless_def split_on_append split_on_no_sep)
  then show ?thesis
    using assms(2,3)
    by (simp add: openTransaction_def sealTransaction_def Let_def read_transaction_fields not_le)
qed

text \<open>A transaction that opens was signed with this secret, and is still alive.\<close>

lemma openTransaction_sound:
  assumes "openTransaction tp (UString s) secret nowMs = Some t"
  shows "\<exists>payload fs. s = payload @ ''.'' @ tp_sign tp payload secret \<and> tp_decode tp payload = Some fs \<and>
    read_transaction fs = Some t \<and> of_int (nowMs div 1000) < at_exp t"
proof -
  from assms obtain payload signature where parts: "split_on CHR ''.'' s = [payload, signature]"
    by (auto simp: openTransaction_def split: if_splits list.splits)
  have "s = payload @ ''.'' @ signature"
    using join_with_split_on [of "CHR ''.''" s] by (simp add: parts)
  with assms parts show ?thesis
    by (auto simp: openTransaction_def not_le split: if_splits option.splits)
qed

lemma openTransaction_needs_text: "openTransaction tp v secret nowMs = Some t \<Longrightarrow> \<exists>s. v = UString s"
  by (cases v) (auto simp: openTransaction_def)

section \<open>Destinations\<close>

lemma safeReturnTo_shape:
  "starts_with ''/'' (safeReturnTo v) \<and> \<not> starts_with ''//'' (safeReturnTo v) \<and>
   \<not> starts_with (''/'' @ [CHR 0x5C]) (safeReturnTo v) \<and> \<not> list_ex is_control (safeReturnTo v) \<and>
   length (safeReturnTo v) \<le> 512"
  by (cases v) (auto simp: safeReturnTo_def starts_with_def is_control_def)

lemma safeReturnTo_fix:
  assumes "starts_with ''/'' s" "\<not> starts_with ''//'' s" "\<not> starts_with (''/'' @ [CHR 0x5C]) s"
    and "\<not> list_ex is_control s" "length s \<le> 512"
  shows "safeReturnTo (UString s) = s"
  using assms starts_with_length [OF assms(1)] by (cases s) (auto simp: safeReturnTo_def)

lemma safeReturnTo_idem: "safeReturnTo (UString (safeReturnTo v)) = safeReturnTo v"
  using safeReturnTo_shape [of v] by (intro safeReturnTo_fix) blast+

end
