(* ===== verification/Auth_Users.thy ===== *)
theory Auth_Users
  imports Postgres_Progress
begin

text \<open>
  Identities and accounts: \<open>apps/api/src/auth/identity.ts\<close> and \<open>apps/api/src/auth/users.ts\<close>.
  What the sign-in path promises about accounts is the locale \<open>user_repository\<close>: one
  account per external identity, and a role that only an administrator changes. The
  in-memory repository and the PostgreSQL one both interpret it.

  A JavaScript condition on an optional text is false for the empty text too
  (\<open>truthy_text\<close>). The id PostgreSQL generates for a new row is an argument, a unique
  index refuses one that is taken, and a text given for a \<open>uuid\<close> is read by \<open>uuid_in\<close>.
  The columns \<open>created_at\<close> and \<open>updated_at\<close> are written and never read here. The order of
  \<open>localeCompare\<close> and of the database's collation are arguments.
\<close>

section \<open>Identities\<close>

datatype Role = STUDENT | INSTRUCTOR | ADMIN

definition ROLES :: "Role list" where "ROLES = [STUDENT, INSTRUCTOR, ADMIN]"

fun role_name :: "Role \<Rightarrow> string" where
  "role_name STUDENT = ''STUDENT''"
| "role_name INSTRUCTOR = ''INSTRUCTOR''"
| "role_name ADMIN = ''ADMIN''"

text \<open>\<open>isRole(value) ? value : ...\<close>: the role a text names, if it names one.\<close>

definition isRole :: "string \<Rightarrow> Role option" where
  "isRole v = find (\<lambda>r. role_name r = v) ROLES"

datatype auth_source = Src_Oidc | Src_Development

record AuthenticatedUser =
  au_userId :: string
  au_issuer :: string
  au_subject :: string
  au_email :: "string option"
  au_displayName :: "string option"
  au_role :: Role
  au_source :: auth_source

record VerifiedClaims =
  vc_issuer :: string
  vc_subject :: string
  vc_email :: "string option"
  vc_displayName :: "string option"
  vc_nonce :: "string option"

datatype auth_code =
    AUTH_REQUIRED | AUTH_INVALID_TOKEN | AUTH_EXPIRED | AUTH_MISCONFIGURED | AUTH_PROVIDER_UNAVAILABLE

record AuthError =
  ae_code :: auth_code
  ae_message :: string
  ae_remediation :: "string option"

definition truthy_text :: "string option \<Rightarrow> string option" where
  "truthy_text x = (case x of None \<Rightarrow> None | Some s \<Rightarrow> if s = [] then None else Some s)"

text \<open>A property spread over another object only when it is truthy.\<close>

definition refreshed :: "string option \<Rightarrow> string option \<Rightarrow> string option" where
  "refreshed claim stored = (case truthy_text claim of Some s \<Rightarrow> Some s | None \<Rightarrow> stored)"

definition MAX_DIRECTORY_READ :: nat where "MAX_DIRECTORY_READ = 200"

definition directory_limit :: "int \<Rightarrow> nat" where
  "directory_limit limit = nat (min (int MAX_DIRECTORY_READ) (max 1 limit))"

text \<open>\<open>[...new Set(xs)]\<close>: the first occurrence of each element.\<close>

definition unique_in_order :: "'a list \<Rightarrow> 'a list" where
  "unique_in_order xs = rev (remdups (rev xs))"

fun text_includes :: "string \<Rightarrow> string \<Rightarrow> bool" where
  "text_includes needle [] = starts_with needle []"
| "text_includes needle (c # s) = (starts_with needle (c # s) \<or> text_includes needle s)"

section \<open>In-memory repository\<close>

record UserRepo =
  byId :: "(string \<times> AuthenticatedUser) list"
  nextUser :: nat

definition empty_users :: UserRepo where
  "empty_users = \<lparr>byId = [], nextUser = 0\<rparr>"

definition same_external_identity :: "VerifiedClaims \<Rightarrow> AuthenticatedUser \<Rightarrow> bool" where
  "same_external_identity claims user \<longleftrightarrow> au_issuer user = vc_issuer claims \<and> au_subject user = vc_subject claims"

definition generated_id :: "nat \<Rightarrow> string" where
  "generated_id n = ''usr-'' @ (let s = show_nat n in replicate (8 - length s) CHR ''0'' @ s)"

definition mem_upsert :: "auth_source \<Rightarrow> VerifiedClaims \<Rightarrow> UserRepo \<Rightarrow> AuthenticatedUser \<times> UserRepo" where
  "mem_upsert source claims repo =
     (case find (same_external_identity claims) (map snd (byId repo)) of
        Some user \<Rightarrow>
          let user' = user\<lparr>au_email := refreshed (vc_email claims) (au_email user),
                           au_displayName := refreshed (vc_displayName claims) (au_displayName user)\<rparr>
          in (user', repo\<lparr>byId := AList.update (au_userId user) user' (byId repo)\<rparr>)
      | None \<Rightarrow>
          let n = Suc (nextUser repo);
              created = \<lparr>au_userId = generated_id n, au_issuer = vc_issuer claims, au_subject = vc_subject claims,
                au_email = truthy_text (vc_email claims), au_displayName = truthy_text (vc_displayName claims),
                au_role = STUDENT, au_source = source\<rparr>
          in (created, \<lparr>byId = AList.update (au_userId created) created (byId repo), nextUser = n\<rparr>))"

definition mem_findById :: "string \<Rightarrow> UserRepo \<Rightarrow> AuthenticatedUser option" where
  "mem_findById userId repo = map_of (byId repo) userId"

definition mem_findByIds :: "string list \<Rightarrow> UserRepo \<Rightarrow> AuthenticatedUser list" where
  "mem_findByIds userIds repo =
     List.map_filter (map_of (byId repo)) (take MAX_DIRECTORY_READ (unique_in_order userIds))"

definition field_includes :: "string \<Rightarrow> string option \<Rightarrow> bool" where
  "field_includes needle field = (case field of None \<Rightarrow> False | Some s \<Rightarrow> text_includes needle (toLowerCase s))"

definition mem_search :: "(string \<Rightarrow> string \<Rightarrow> bool) \<Rightarrow> string \<Rightarrow> int \<Rightarrow> UserRepo \<Rightarrow> AuthenticatedUser list" where
  "mem_search locale_le query limit repo =
     (let needle = toLowerCase query; shown = (\<lambda>u. case au_displayName u of None \<Rightarrow> [] | Some s \<Rightarrow> s)
      in take (directory_limit limit)
           (sort_by (\<lambda>a b. locale_le (shown a) (shown b))
             (filter (\<lambda>u. field_includes needle (au_email u) \<or> field_includes needle (au_displayName u))
               (map snd (byId repo)))))"

definition mem_users_list :: "UserRepo \<Rightarrow> AuthenticatedUser list" where
  "mem_users_list repo = map snd (byId repo)"

definition mem_setRole :: "string \<Rightarrow> Role \<Rightarrow> UserRepo \<Rightarrow> AuthenticatedUser option \<times> UserRepo" where
  "mem_setRole userId role repo = (case map_of (byId repo) userId of
       None \<Rightarrow> (None, repo)
     | Some user \<Rightarrow>
         let updated = user\<lparr>au_role := role\<rparr>
         in (Some updated, repo\<lparr>byId := AList.update userId updated (byId repo)\<rparr>))"

section \<open>PostgreSQL repository\<close>

record UserRow =
  ur_user_id :: string
  ur_issuer :: string
  ur_subject :: string
  ur_email :: "string option"
  ur_display_name :: "string option"
  ur_role :: string

text \<open>One character of \<open>query.replace(/[\\%_]/g, '\\$&')\<close>.\<close>

definition like_escape :: "char \<Rightarrow> string" where
  "like_escape c = (if c \<in> {CHR 0x5C, CHR ''%'', CHR ''_''} then [CHR 0x5C, c] else [c])"

definition likePattern :: "string \<Rightarrow> string" where
  "likePattern query = ''%'' @ concat (map like_escape query) @ ''%''"

definition toUser :: "auth_source \<Rightarrow> UserRow \<Rightarrow> AuthenticatedUser" where
  "toUser source row =
     \<lparr>au_userId = ur_user_id row, au_issuer = ur_issuer row, au_subject = ur_subject row,
      au_email = truthy_text (ur_email row), au_displayName = truthy_text (ur_display_name row),
      au_role = (case isRole (ur_role row) of Some r \<Rightarrow> r | None \<Rightarrow> STUDENT), au_source = source\<rparr>"

definition row_identity :: "VerifiedClaims \<Rightarrow> UserRow \<Rightarrow> bool" where
  "row_identity claims row \<longleftrightarrow> ur_issuer row = vc_issuer claims \<and> ur_subject row = vc_subject claims"

definition pg_upsert ::
    "auth_source \<Rightarrow> string \<Rightarrow> VerifiedClaims \<Rightarrow> UserRow list \<Rightarrow> (pg_error + AuthenticatedUser) \<times> UserRow list" where
  "pg_upsert source generated claims rows =
     (case find (row_identity claims) rows of
        Some row \<Rightarrow>
          let row' = row\<lparr>ur_email := vc_email claims, ur_display_name := vc_displayName claims\<rparr>
          in (Inr (toUser source row'),
              update_where (row_identity claims)
                (\<lambda>row. row\<lparr>ur_email := vc_email claims, ur_display_name := vc_displayName claims\<rparr>) rows)
      | None \<Rightarrow>
          if generated \<in> ur_user_id ` set rows then (Inl Unique_Violation, rows)
          else
            let row = \<lparr>ur_user_id = generated, ur_issuer = vc_issuer claims, ur_subject = vc_subject claims,
                  ur_email = vc_email claims, ur_display_name = vc_displayName claims, ur_role = ''STUDENT''\<rparr>
            in (Inr (toUser source row), rows @ [row]))"

definition pg_findById ::
    "(string \<Rightarrow> string option) \<Rightarrow> auth_source \<Rightarrow> string \<Rightarrow> UserRow list \<Rightarrow> pg_error + AuthenticatedUser option" where
  "pg_findById uuid_in source userId rows = (case uuid_in userId of
       None \<Rightarrow> Inl Invalid_Uuid
     | Some i \<Rightarrow> Inr (map_option (toUser source) (find (\<lambda>row. ur_user_id row = i) rows)))"

definition pg_findByIds ::
    "(string \<Rightarrow> string option) \<Rightarrow> auth_source \<Rightarrow> string list \<Rightarrow> UserRow list \<Rightarrow> AuthenticatedUser list" where
  "pg_findByIds uuid_in source userIds rows =
     (let ids = take MAX_DIRECTORY_READ (filter isUuid (unique_in_order userIds))
      in if ids = [] then []
         else map (toUser source) (filter (\<lambda>row. Some (ur_user_id row) \<in> set (map uuid_in ids)) rows))"

text \<open>\<open>s ILIKE pattern ESCAPE '\'\<close>, for a pattern in which every escape has a successor.\<close>

fun ilike :: "string \<Rightarrow> string \<Rightarrow> bool" where
  "ilike [] s = (s = [])"
| "ilike (p # ps) s =
     (if p = CHR ''%'' then (ilike ps s \<or> (case s of [] \<Rightarrow> False | _ # cs \<Rightarrow> ilike (p # ps) cs))
      else if p = CHR 0x5C then
        (case ps of [] \<Rightarrow> False
         | q # qs \<Rightarrow> (case s of [] \<Rightarrow> False | c # cs \<Rightarrow> lower_char c = lower_char q \<and> ilike qs cs))
      else (case s of [] \<Rightarrow> False | c # cs \<Rightarrow> (p = CHR ''_'' \<or> lower_char c = lower_char p) \<and> ilike ps cs))"

definition column_ilike :: "string option \<Rightarrow> string \<Rightarrow> bool" where
  "column_ilike column pattern = (case column of None \<Rightarrow> False | Some s \<Rightarrow> ilike pattern s)"

definition nulls_last :: "(string \<Rightarrow> string \<Rightarrow> bool) \<Rightarrow> string option \<Rightarrow> string option \<Rightarrow> bool" where
  "nulls_last coll a b = (case (a, b) of
       (_, None) \<Rightarrow> True | (None, Some _) \<Rightarrow> False | (Some x, Some y) \<Rightarrow> coll x y)"

definition listed_before :: "(string \<Rightarrow> string \<Rightarrow> bool) \<Rightarrow> (string \<Rightarrow> string \<Rightarrow> bool) \<Rightarrow> UserRow \<Rightarrow> UserRow \<Rightarrow> bool" where
  "listed_before coll id_le a b \<longleftrightarrow>
     nulls_last coll (ur_display_name a) (ur_display_name b) \<and>
     (nulls_last coll (ur_display_name b) (ur_display_name a) \<longrightarrow>
        nulls_last coll (ur_email a) (ur_email b) \<and>
        (nulls_last coll (ur_email b) (ur_email a) \<longrightarrow> id_le (ur_user_id a) (ur_user_id b)))"

definition pg_search ::
    "(string \<Rightarrow> string \<Rightarrow> bool) \<Rightarrow> (string \<Rightarrow> string \<Rightarrow> bool) \<Rightarrow> auth_source \<Rightarrow> string \<Rightarrow> int \<Rightarrow> UserRow list \<Rightarrow>
      AuthenticatedUser list" where
  "pg_search coll id_le source query limit rows =
     map (toUser source) (take (directory_limit limit)
       (sort_by (listed_before coll id_le)
         (filter (\<lambda>row. column_ilike (ur_email row) (likePattern query) \<or>
                        column_ilike (ur_display_name row) (likePattern query)) rows)))"

definition pg_setRole ::
    "(string \<Rightarrow> string option) \<Rightarrow> auth_source \<Rightarrow> string \<Rightarrow> Role \<Rightarrow> UserRow list \<Rightarrow>
      (pg_error + AuthenticatedUser option) \<times> UserRow list" where
  "pg_setRole uuid_in source userId role rows = (case uuid_in userId of
       None \<Rightarrow> (Inl Invalid_Uuid, rows)
     | Some i \<Rightarrow>
         let rows' = update_where (\<lambda>row. ur_user_id row = i) (\<lambda>row. row\<lparr>ur_role := role_name role\<rparr>) rows
         in (Inr (map_option (toUser source) (find (\<lambda>row. ur_user_id row = i) rows')), rows'))"

section \<open>The contract of a repository\<close>

text \<open>
  What the sign-in path and the administrator's role change do, as operations on a
  repository; the text of \<open>U_Upsert\<close> is the id a database would generate.
\<close>

datatype user_op = U_Upsert string VerifiedClaims | U_SetRole string Role

text \<open>The role of account \<open>i\<close> after the operations; \<open>norm\<close> reads the id an operation names.\<close>

fun role_after :: "(string \<Rightarrow> string option) \<Rightarrow> string \<Rightarrow> user_op list \<Rightarrow> Role \<Rightarrow> Role" where
  "role_after norm i [] r = r"
| "role_after norm i (U_Upsert g c # ops) r = role_after norm i ops r"
| "role_after norm i (U_SetRole j q # ops) r = role_after norm i ops (if norm j = Some i then q else r)"

definition identity :: "AuthenticatedUser \<Rightarrow> string \<times> string" where
  "identity u = (au_issuer u, au_subject u)"

definition claimed :: "VerifiedClaims \<Rightarrow> string \<times> string" where
  "claimed c = (vc_issuer c, vc_subject c)"

locale user_repository =
  fixes upsert :: "string \<Rightarrow> VerifiedClaims \<Rightarrow> 's \<Rightarrow> AuthenticatedUser option \<times> 's"
    and set_role :: "string \<Rightarrow> Role \<Rightarrow> 's \<Rightarrow> 's"
    and account :: "'s \<Rightarrow> string \<Rightarrow> AuthenticatedUser option"
    and norm :: "string \<Rightarrow> string option"
    and inv :: "'s \<Rightarrow> bool"
  assumes account_id: "inv s \<Longrightarrow> account s i = Some a \<Longrightarrow> au_userId a = i"
    and unique_identity: "inv s \<Longrightarrow> account s i = Some a \<Longrightarrow> account s j = Some b \<Longrightarrow>
          identity a = identity b \<Longrightarrow> i = j"
    and upsert_inv: "inv s \<Longrightarrow> inv (snd (upsert g c s))"
    and upsert_None: "inv s \<Longrightarrow> fst (upsert g c s) = None \<Longrightarrow> account (snd (upsert g c s)) = account s"
    and upsert_Some: "inv s \<Longrightarrow> fst (upsert g c s) = Some u \<Longrightarrow>
          account (snd (upsert g c s)) = (account s)(au_userId u \<mapsto> u) \<and> identity u = claimed c \<and>
          (case account s (au_userId u) of
             None \<Rightarrow> au_role u = STUDENT
           | Some old \<Rightarrow> identity old = identity u \<and> au_role u = au_role old)"
    and set_role_inv: "inv s \<Longrightarrow> inv (set_role i r s)"
    and set_role_account: "inv s \<Longrightarrow> account (set_role i r s) j =
          (if norm i = Some j then map_option (au_role_update (\<lambda>_. r)) (account s j) else account s j)"
begin

definition perform :: "user_op \<Rightarrow> 's \<Rightarrow> 's" where
  "perform op s = (case op of U_Upsert g c \<Rightarrow> snd (upsert g c s) | U_SetRole i r \<Rightarrow> set_role i r s)"

lemma perform_inv: "inv s \<Longrightarrow> inv (perform op s)"
  by (cases op) (simp_all add: perform_def upsert_inv set_role_inv)

lemma run_keeps_inv: "inv s \<Longrightarrow> inv (fold perform ops s)"
  by (induction ops arbitrary: s) (simp_all add: perform_inv)

lemma upsert_keeps:
  assumes "inv s" "account s i = Some a"
  shows "\<exists>b. account (snd (upsert g c s)) i = Some b \<and> identity b = identity a \<and> au_role b = au_role a"
proof (cases "fst (upsert g c s)")
  case None
  then show ?thesis using assms upsert_None by auto
next
  case (Some u)
  show ?thesis
  proof (cases "au_userId u = i")
    case True
    then show ?thesis using upsert_Some [OF assms(1) Some] assms(2) by auto
  next
    case False
    then show ?thesis using upsert_Some [OF assms(1) Some] assms(2) by auto
  qed
qed

lemma run_account:
  assumes "inv s" "account s i = Some a"
  shows "\<exists>b. account (fold perform ops s) i = Some b \<and> identity b = identity a \<and>
           au_role b = role_after norm i ops (au_role a)"
  using assms
proof (induction ops arbitrary: s a)
  case (Cons op ops)
  have step: "inv (perform op s)" using Cons.prems perform_inv by simp
  show ?case
  proof (cases op)
    case (U_Upsert g c)
    then obtain b where "account (perform op s) i = Some b" "identity b = identity a" "au_role b = au_role a"
      using upsert_keeps [OF Cons.prems(1,2), of g c] by (auto simp: perform_def)
    with Cons.IH [OF step this(1)] U_Upsert show ?thesis by auto
  next
    case (U_SetRole j q)
    let ?b = "if norm j = Some i then a\<lparr>au_role := q\<rparr> else a"
    have "account (perform op s) i = Some ?b"
      using Cons.prems by (simp add: U_SetRole perform_def set_role_account)
    from Cons.IH [OF step this] U_SetRole show ?thesis
      by (auto simp: identity_def split: if_splits)
  qed
qed simp

text \<open>Two sign-ins reach the same account exactly when they present the same identity.\<close>

lemma same_account_iff:
  assumes "inv s" "fst (upsert g c s) = Some u"
    and "fst (upsert g' c' (fold perform ops (snd (upsert g c s)))) = Some u'"
  shows "au_userId u = au_userId u' \<longleftrightarrow> claimed c = claimed c'"
proof -
  let ?s2 = "fold perform ops (snd (upsert g c s))"
  let ?s3 = "snd (upsert g' c' ?s2)"
  have inv1: "inv (snd (upsert g c s))" using assms(1) by (rule upsert_inv)
  then have inv2: "inv ?s2" by (rule run_keeps_inv)
  then have inv3: "inv ?s3" by (rule upsert_inv)
  have "account (snd (upsert g c s)) (au_userId u) = Some u" "identity u = claimed c"
    using upsert_Some [OF assms(1,2)] by auto
  then obtain b where b: "account ?s2 (au_userId u) = Some b" "identity b = claimed c"
    using run_account [OF inv1] by fastforce
  then obtain b' where b': "account ?s3 (au_userId u) = Some b'" "identity b' = claimed c"
    using upsert_keeps [OF inv2 b(1)] by metis
  have u': "account ?s3 (au_userId u') = Some u'" "identity u' = claimed c'"
    using upsert_Some [OF inv2 assms(3)] by auto
  show ?thesis
    using unique_identity [OF inv3 b'(1) u'(1)] b' u' by auto
qed

end

section \<open>Both repositories keep it\<close>

lemma read_nat_zeros: "read_nat (replicate k CHR ''0'' @ s) = read_nat s"
  by (induction k) (simp_all add: read_nat_def digit_value_def)

lemma generated_id_inj: "generated_id m = generated_id n \<Longrightarrow> m = n"
  unfolding generated_id_def Let_def by (metis append_same_eq read_nat_show_nat read_nat_zeros same_append_eq)

definition users_inv :: "UserRepo \<Rightarrow> bool" where
  "users_inv r \<longleftrightarrow> distinct (map fst (byId r)) \<and>
     (\<forall>i u. map_of (byId r) i = Some u \<longrightarrow>
        au_userId u = i \<and> (\<exists>k. 0 < k \<and> k \<le> nextUser r \<and> i = generated_id k)) \<and>
     (\<forall>i j u v. map_of (byId r) i = Some u \<longrightarrow> map_of (byId r) j = Some v \<longrightarrow>
        identity u = identity v \<longrightarrow> i = j)"

definition rows_inv :: "UserRow list \<Rightarrow> bool" where
  "rows_inv rows \<longleftrightarrow> distinct (map ur_user_id rows) \<and> distinct (map (\<lambda>r. (ur_issuer r, ur_subject r)) rows)"

definition pg_account :: "auth_source \<Rightarrow> UserRow list \<Rightarrow> string \<Rightarrow> AuthenticatedUser option" where
  "pg_account source rows i = map_option (toUser source) (find (\<lambda>row. ur_user_id row = i) rows)"

lemma users_inv_empty: "users_inv empty_users"
  by (simp add: users_inv_def empty_users_def)

lemma users_invD:
  assumes "users_inv r" "map_of (byId r) i = Some u"
  shows "au_userId u = i" "\<exists>k. 0 < k \<and> k \<le> nextUser r \<and> i = generated_id k"
    and "map_of (byId r) j = Some v \<Longrightarrow> identity u = identity v \<Longrightarrow> i = j"
  using assms unfolding users_inv_def by blast+

lemma find_identity_Some:
  assumes "users_inv r" "find (same_external_identity c) (map snd (byId r)) = Some u"
  shows "map_of (byId r) (au_userId u) = Some u" "identity u = claimed c"
proof -
  from assms(2) have "u \<in> snd ` set (byId r)" and same: "same_external_identity c u"
    by (auto simp: find_Some_iff)
  then obtain i where "(i, u) \<in> set (byId r)" by auto
  then have at: "map_of (byId r) i = Some u" using assms(1) by (simp add: users_inv_def)
  then show "map_of (byId r) (au_userId u) = Some u" using users_invD(1) [OF assms(1)] by simp
  show "identity u = claimed c" using same by (simp add: same_external_identity_def identity_def claimed_def)
qed

lemma find_identity_None:
  assumes "find (same_external_identity c) (map snd (byId r)) = None" "map_of (byId r) i = Some u"
  shows "identity u \<noteq> claimed c"
  using assms map_of_SomeD [OF assms(2)]
  by (force simp: find_None_iff same_external_identity_def identity_def claimed_def)

lemma users_inv_replace:
  assumes "users_inv r" "map_of (byId r) i = Some u" "au_userId u' = i" "identity u' = identity u"
  shows "users_inv (r\<lparr>byId := AList.update i u' (byId r)\<rparr>)"
  unfolding users_inv_def
proof (intro conjI allI impI)
  show "distinct (map fst (byId (r\<lparr>byId := AList.update i u' (byId r)\<rparr>)))"
    using assms(1) by (simp add: users_inv_def distinct_keys_update)
next
  fix j v assume v: "map_of (byId (r\<lparr>byId := AList.update i u' (byId r)\<rparr>)) j = Some v"
  then show "au_userId v = j" using assms users_invD(1) by (auto split: if_splits)
  show "\<exists>k. 0 < k \<and> k \<le> nextUser (r\<lparr>byId := AList.update i u' (byId r)\<rparr>) \<and> j = generated_id k"
    using users_invD(2) [OF assms(1)] assms(2) v by (cases "j = i") auto
next
  fix j k v w
  assume "map_of (byId (r\<lparr>byId := AList.update i u' (byId r)\<rparr>)) j = Some v"
    "map_of (byId (r\<lparr>byId := AList.update i u' (byId r)\<rparr>)) k = Some w" "identity v = identity w"
  then show "j = k"
    using assms users_invD(3) [OF assms(1)] by (simp split: if_splits)
qed

lemma fresh_generated: "users_inv r \<Longrightarrow> map_of (byId r) (generated_id (Suc (nextUser r))) = None"
  by (cases "map_of (byId r) (generated_id (Suc (nextUser r)))")
    (use users_invD(2) generated_id_inj in fastforce)+

lemma users_inv_create:
  assumes "users_inv r" "find (same_external_identity c) (map snd (byId r)) = None"
    and "au_userId u = generated_id (Suc (nextUser r))" "identity u = claimed c"
  shows "users_inv \<lparr>byId = AList.update (au_userId u) u (byId r), nextUser = Suc (nextUser r)\<rparr>"
  unfolding users_inv_def
proof (intro conjI allI impI)
  show "distinct (map fst (byId \<lparr>byId = AList.update (au_userId u) u (byId r), nextUser = Suc (nextUser r)\<rparr>))"
    using assms(1) by (simp add: users_inv_def distinct_keys_update)
next
  fix j v
  assume v: "map_of (byId \<lparr>byId = AList.update (au_userId u) u (byId r), nextUser = Suc (nextUser r)\<rparr>) j = Some v"
  then show "au_userId v = j" using users_invD(1) [OF assms(1)] by (auto split: if_splits)
  show "\<exists>k. 0 < k \<and> k \<le> nextUser \<lparr>byId = AList.update (au_userId u) u (byId r), nextUser = Suc (nextUser r)\<rparr> \<and>
      j = generated_id k"
  proof (cases "j = au_userId u")
    case False
    then have "map_of (byId r) j = Some v" using v by simp
    from users_invD(2) [OF assms(1) this] show ?thesis by (auto intro: le_SucI)
  qed (use assms(3) in auto)
next
  fix j k v w
  assume "map_of (byId \<lparr>byId = AList.update (au_userId u) u (byId r), nextUser = Suc (nextUser r)\<rparr>) j = Some v"
    "map_of (byId \<lparr>byId = AList.update (au_userId u) u (byId r), nextUser = Suc (nextUser r)\<rparr>) k = Some w"
    "identity v = identity w"
  then show "j = k"
    using assms(4) users_invD(3) [OF assms(1)] find_identity_None [OF assms(2)]
    by (simp split: if_splits)
qed

definition mem_signin :: "auth_source \<Rightarrow> string \<Rightarrow> VerifiedClaims \<Rightarrow> UserRepo \<Rightarrow> AuthenticatedUser option \<times> UserRepo" where
  "mem_signin source generated c r = (case mem_upsert source c r of (u, r') \<Rightarrow> (Some u, r'))"

interpretation mem_users: user_repository "mem_signin source" "\<lambda>i q r. snd (mem_setRole i q r)"
  "\<lambda>r i. mem_findById i r" Some users_inv for source
proof (unfold_locales, goal_cases)
  case (1 s i a) then show ?case by (simp add: mem_findById_def users_invD(1))
next
  case (2 s i a j b) then show ?case using users_invD(3) unfolding mem_findById_def by blast
next
  case (3 s g c)
  show ?case
  proof (cases "find (same_external_identity c) (map snd (byId s))")
    case None
    then show ?thesis using users_inv_create [OF 3 None]
      by (simp add: mem_signin_def mem_upsert_def Let_def identity_def claimed_def)
  next
    case (Some u)
    then show ?thesis using users_inv_replace [OF 3 find_identity_Some(1) [OF 3 Some]]
      by (simp add: mem_signin_def mem_upsert_def Let_def identity_def)
  qed
next
  case (4 s g c) then show ?case by (simp add: mem_signin_def split: prod.splits)
next
  case (5 s g c u)
  show ?case
  proof (cases "find (same_external_identity c) (map snd (byId s))")
    case None
    then show ?thesis using 5 fresh_generated [OF 5(1)]
      by (auto simp: mem_signin_def mem_upsert_def Let_def identity_def claimed_def mem_findById_def fun_eq_iff)
  next
    case (Some v)
    then show ?thesis using 5 find_identity_Some [OF 5(1) Some]
      by (auto simp: mem_signin_def mem_upsert_def Let_def identity_def claimed_def mem_findById_def fun_eq_iff)
  qed
next
  case (6 s i r)
  then show ?case
    using users_inv_replace [OF 6, of i] users_invD(1) [OF 6, of i]
    by (auto simp: mem_setRole_def Let_def identity_def split: option.split)
next
  case (7 s i r j)
  then show ?case by (auto simp: mem_setRole_def mem_findById_def Let_def split: option.split)
qed

definition ur_identity :: "UserRow \<Rightarrow> string \<times> string" where
  "ur_identity row = (ur_issuer row, ur_subject row)"

lemma row_identity_key: "row_identity c = (\<lambda>row. ur_identity row = claimed c)"
  by (auto simp: row_identity_def ur_identity_def claimed_def fun_eq_iff)

lemma isRole_name [simp]: "isRole (role_name r) = Some r"
  by (cases r) (simp_all add: isRole_def ROLES_def)

lemma isRole_student [simp]: "isRole ''STUDENT'' = Some STUDENT"
  using isRole_name [of STUDENT] by simp

lemma toUser_simps [simp]:
  "au_userId (toUser source row) = ur_user_id row" "identity (toUser source row) = ur_identity row"
  "au_role (toUser source row) = (case isRole (ur_role row) of Some r \<Rightarrow> r | None \<Rightarrow> STUDENT)"
  by (simp_all add: toUser_def identity_def ur_identity_def)

lemma rows_inv_iff: "rows_inv rows \<longleftrightarrow> distinct (map ur_user_id rows) \<and> distinct (map ur_identity rows)"
  by (simp add: rows_inv_def ur_identity_def [abs_def])

lemma find_update_where:
  assumes "\<And>x. f (h x) = f x"
  shows "find (\<lambda>x. f x = k) (update_where P h rows) =
    map_option (\<lambda>x. if P x then h x else x) (find (\<lambda>x. f x = k) rows)"
  using assms by (induction rows) (auto simp: update_where_def)

lemma pg_account_Some:
  assumes "pg_account source rows i = Some a"
  shows "\<exists>row\<in>set rows. ur_user_id row = i \<and> a = toUser source row"
  using assms by (auto simp: pg_account_def find_Some_iff)

definition pg_signin :: "auth_source \<Rightarrow> string \<Rightarrow> VerifiedClaims \<Rightarrow> UserRow list \<Rightarrow> AuthenticatedUser option \<times> UserRow list" where
  "pg_signin source generated c rows = (case pg_upsert source generated c rows of
       (Inl _, rows') \<Rightarrow> (None, rows') | (Inr u, rows') \<Rightarrow> (Some u, rows'))"

lemma pg_signin_found:
  assumes "rows_inv rows" "find (row_identity c) rows = Some row"
  defines "new \<equiv> row\<lparr>ur_email := vc_email c, ur_display_name := vc_displayName c\<rparr>"
  shows "fst (pg_signin source g c rows) = Some (toUser source new)"
    and "rows_inv (snd (pg_signin source g c rows))"
    and "pg_account source rows (ur_user_id row) = Some (toUser source row)" "ur_identity row = claimed c"
    and "pg_account source (snd (pg_signin source g c rows)) i =
      (if i = ur_user_id row then Some (toUser source new) else pg_account source rows i)"
proof -
  let ?h = "\<lambda>row :: UserRow. row\<lparr>ur_email := vc_email c, ur_display_name := vc_displayName c\<rparr>"
  have ids: "distinct (map ur_user_id rows)" and idents: "distinct (map ur_identity rows)"
    using assms(1) by (simp_all add: rows_inv_iff)
  have row: "row \<in> set rows" "ur_identity row = claimed c"
    using assms(2) find_key [OF idents] by (simp_all add: row_identity_key)
  have only: "x = row" if "x \<in> set rows" "row_identity c x" for x
    using that row idents inj_onD [of ur_identity "set rows" x row] by (simp add: row_identity_key distinct_map)
  have keys: "map ur_user_id (update_where (row_identity c) ?h rows) = map ur_user_id rows"
    "map ur_identity (update_where (row_identity c) ?h rows) = map ur_identity rows"
    by (rule map_update_where, simp add: ur_identity_def)+
  have run: "pg_signin source g c rows =
      (Some (toUser source new), update_where (row_identity c) ?h rows)"
    using assms(2) by (simp add: pg_signin_def pg_upsert_def Let_def new_def)
  show "fst (pg_signin source g c rows) = Some (toUser source new)" by (simp add: run)
  show "rows_inv (snd (pg_signin source g c rows))" using ids idents by (simp add: run rows_inv_iff keys)
  show acc: "pg_account source rows (ur_user_id row) = Some (toUser source row)"
    using row(1) find_key [OF ids, of "ur_user_id row" row] by (simp add: pg_account_def)
  show "ur_identity row = claimed c" by (rule row(2))
  have hit: "row_identity c x \<longleftrightarrow> i = ur_user_id row" if x: "find (\<lambda>x. ur_user_id x = i) rows = Some x" for x
  proof -
    have "x \<in> set rows" "ur_user_id x = i" using x find_key [OF ids] by simp_all
    moreover have "inj_on ur_user_id (set rows)" using ids by (simp add: distinct_map)
    ultimately have "x = row" if "i = ur_user_id row" using that row(1) inj_onD [of ur_user_id "set rows" x row] by simp
    moreover have "row_identity c row" using row(2) by (simp add: row_identity_key)
    ultimately show ?thesis using \<open>x \<in> set rows\<close> \<open>ur_user_id x = i\<close> only by blast
  qed
  have other: "find (\<lambda>x. ur_user_id x = ur_user_id row) rows = Some row"
    using row(1) find_key [OF ids, of "ur_user_id row" row] by simp
  show "pg_account source (snd (pg_signin source g c rows)) i =
      (if i = ur_user_id row then Some (toUser source new) else pg_account source rows i)"
    using hit other
    by (cases "find (\<lambda>x. ur_user_id x = i) rows")
      (auto simp: run pg_account_def find_update_where [where f = ur_user_id] new_def row_identity_key row(2))
qed

lemma pg_signin_absent:
  assumes "find (row_identity c) rows = None"
  shows "pg_signin source g c rows =
    (if g \<in> ur_user_id ` set rows then (None, rows)
     else let row = \<lparr>ur_user_id = g, ur_issuer = vc_issuer c, ur_subject = vc_subject c,
                  ur_email = vc_email c, ur_display_name = vc_displayName c, ur_role = ''STUDENT''\<rparr>
          in (Some (toUser source row), rows @ [row]))"
  using assms by (simp add: pg_signin_def pg_upsert_def Let_def)

lemma pg_signin_created:
  assumes "rows_inv rows" "find (row_identity c) rows = None" "g \<notin> ur_user_id ` set rows"
    and "fst (pg_signin source g c rows) = Some u"
  shows "rows_inv (snd (pg_signin source g c rows))" "pg_account source rows (au_userId u) = None"
    and "pg_account source (snd (pg_signin source g c rows)) i = (if i = au_userId u then Some u else pg_account source rows i)"
    and "identity u = claimed c" "au_role u = STUDENT"
proof -
  have idents: "claimed c \<notin> ur_identity ` set rows"
    using assms(2) find_key_None [of ur_identity "claimed c" rows] by (simp add: row_identity_key)
  have none: "find (\<lambda>row. ur_user_id row = g) rows = None" using assms(3) find_key_None [of ur_user_id g rows] by simp
  have find_append: "find P (rows @ [x]) = (case find P rows of None \<Rightarrow> if P x then Some x else None | Some y \<Rightarrow> Some y)"
    for P and x :: UserRow by (induction rows) auto
  note run = pg_signin_absent [OF assms(2), of source g]
  have u: "au_userId u = g" "identity u = claimed c" "au_role u = STUDENT"
    using assms(3,4) by (auto simp: run Let_def ur_identity_def claimed_def)
  then show "identity u = claimed c" "au_role u = STUDENT" by simp_all
  show "pg_account source rows (au_userId u) = None" using none by (simp add: pg_account_def u(1))
  show "rows_inv (snd (pg_signin source g c rows))"
    using assms(1,3) idents by (auto simp: run rows_inv_iff Let_def ur_identity_def claimed_def)
  show "pg_account source (snd (pg_signin source g c rows)) i =
      (if i = au_userId u then Some u else pg_account source rows i)"
    using assms(3,4) none u(1) by (auto simp: run Let_def pg_account_def find_append split: option.splits)
qed

lemma pg_setRole_effect:
  assumes "rows_inv rows"
  shows "rows_inv (snd (pg_setRole uuid_in source i r rows))"
    and "pg_account source (snd (pg_setRole uuid_in source i r rows)) j =
      (if uuid_in i = Some j then map_option (au_role_update (\<lambda>_. r)) (pg_account source rows j)
       else pg_account source rows j)"
proof -
  let ?h = "\<lambda>row :: UserRow. row\<lparr>ur_role := role_name r\<rparr>"
  have keys: "map ur_user_id (update_where P ?h rows) = map ur_user_id rows"
    "map ur_identity (update_where P ?h rows) = map ur_identity rows" for P
    by (rule map_update_where, simp add: ur_identity_def)+
  show "rows_inv (snd (pg_setRole uuid_in source i r rows))"
    using assms by (auto simp: pg_setRole_def rows_inv_iff keys Let_def split: option.split)
  have toUser_role: "toUser source (?h row) = (toUser source row)\<lparr>au_role := r\<rparr>" for row
    by (simp add: toUser_def)
  show "pg_account source (snd (pg_setRole uuid_in source i r rows)) j =
      (if uuid_in i = Some j then map_option (au_role_update (\<lambda>_. r)) (pg_account source rows j)
       else pg_account source rows j)"
  proof (cases "find (\<lambda>x. ur_user_id x = j) rows")
    case (Some x)
    then have "ur_user_id x = j" by (auto simp: find_Some_iff)
    with Some show ?thesis
      by (cases "uuid_in i")
        (auto simp: pg_setRole_def pg_account_def Let_def find_update_where [where f = ur_user_id] toUser_role)
  qed (cases "uuid_in i",
       auto simp: pg_setRole_def pg_account_def Let_def find_update_where [where f = ur_user_id])
qed

interpretation pg_users: user_repository "pg_signin source" "\<lambda>i q rows. snd (pg_setRole uuid_in source i q rows)"
  "pg_account source" uuid_in rows_inv for source uuid_in
proof (unfold_locales, goal_cases)
  case (1 s i a) then show ?case by (auto dest: pg_account_Some)
next
  case (2 s i a j b)
  from pg_account_Some [OF 2(2)] obtain x where x: "x \<in> set s" "ur_user_id x = i" "a = toUser source x" by blast
  from pg_account_Some [OF 2(3)] obtain y where y: "y \<in> set s" "ur_user_id y = j" "b = toUser source y" by blast
  have "inj_on ur_identity (set s)" using 2(1) by (simp add: rows_inv_iff distinct_map)
  then have "x = y" using inj_onD [of ur_identity "set s" x y] x y 2(4) by simp
  with x y show ?case by simp
next
  case (3 s g c)
  show ?case
  proof (cases "find (row_identity c) s")
    case None
    then show ?thesis using 3 pg_signin_created(1) [OF 3 None] pg_signin_absent [OF None]
      by (cases "g \<in> ur_user_id ` set s") (auto simp: Let_def)
  qed (use 3 pg_signin_found in blast)
next
  case (4 s g c)
  then show ?case
    using pg_signin_found(1) [OF 4(1)] pg_signin_absent [of c s source g]
    by (cases "find (row_identity c) s") (auto simp: Let_def split: if_splits)
next
  case (5 s g c u)
  show ?case
  proof (cases "find (row_identity c) s")
    case None
    have g: "g \<notin> ur_user_id ` set s" using 5(2) pg_signin_absent [OF None, of source g] by auto
    show ?thesis using pg_signin_created [OF 5(1) None g 5(2)] by (auto simp: fun_eq_iff)
  next
    case (Some row)
    then show ?thesis using pg_signin_found [OF 5(1) Some] 5(2) by (auto simp: fun_eq_iff ur_identity_def)
  qed
next
  case (6 s i r) then show ?case by (rule pg_setRole_effect(1))
next
  case (7 s i r j) then show ?case by (rule pg_setRole_effect(2))
qed

section \<open>Accounts and roles\<close>

text \<open>The whole life of a repository, from an empty one.\<close>

fun mem_user_op :: "auth_source \<Rightarrow> user_op \<Rightarrow> UserRepo \<Rightarrow> UserRepo" where
  "mem_user_op source (U_Upsert g c) r = snd (mem_upsert source c r)"
| "mem_user_op source (U_SetRole i q) r = snd (mem_setRole i q r)"

fun pg_user_op :: "(string \<Rightarrow> string option) \<Rightarrow> auth_source \<Rightarrow> user_op \<Rightarrow> UserRow list \<Rightarrow> UserRow list" where
  "pg_user_op uuid_in source (U_Upsert g c) rows = snd (pg_upsert source g c rows)"
| "pg_user_op uuid_in source (U_SetRole i q) rows = snd (pg_setRole uuid_in source i q rows)"

lemma mem_user_op_perform: "mem_user_op source = mem_users.perform source"
  by (intro ext, case_tac x) (simp_all add: mem_users.perform_def mem_signin_def split: prod.splits)

lemma pg_user_op_perform: "pg_user_op uuid_in source = pg_users.perform source uuid_in"
  by (intro ext, case_tac x) (simp_all add: pg_users.perform_def pg_signin_def split: prod.splits sum.splits)

lemma pg_upsert_signin: "fst (pg_upsert source g c rows) = Inr u \<Longrightarrow> fst (pg_signin source g c rows) = Some u"
  by (auto simp: pg_signin_def split: prod.splits)

lemma snd_pg_signin: "snd (pg_signin source g c rows) = snd (pg_upsert source g c rows)"
  by (auto simp: pg_signin_def split: prod.splits sum.splits)

text \<open>
  C32. A role changes only through an administrator: in either repository, whatever
  sign-ins and role changes follow, an account that exists keeps its issuer and subject
  for ever, and its role is the one the last \<open>setRole\<close> naming it gave, or else the role it
  had; no sign-in, whatever the provider claims, changes it.
\<close>

theorem role_only_by_setRole:
  "(mem_findById i (fold (mem_user_op source) ops1 empty_users) = Some a \<longrightarrow>
    (\<exists>b. mem_findById i (fold (mem_user_op source) (ops1 @ ops2) empty_users) = Some b \<and>
      identity b = identity a \<and> au_role b = role_after Some i ops2 (au_role a))) \<and>
   (uuid_in i = Some i \<longrightarrow> pg_findById uuid_in source i (fold (pg_user_op uuid_in source) ops1 []) = Inr (Some a) \<longrightarrow>
    (\<exists>b. pg_findById uuid_in source i (fold (pg_user_op uuid_in source) (ops1 @ ops2) []) = Inr (Some b) \<and>
      identity b = identity a \<and> au_role b = role_after uuid_in i ops2 (au_role a)))"
proof (intro conjI impI)
  assume "mem_findById i (fold (mem_user_op source) ops1 empty_users) = Some a"
  with mem_users.run_account [OF mem_users.run_keeps_inv [OF users_inv_empty]]
  show "\<exists>b. mem_findById i (fold (mem_user_op source) (ops1 @ ops2) empty_users) = Some b \<and>
      identity b = identity a \<and> au_role b = role_after Some i ops2 (au_role a)"
    by (simp add: mem_user_op_perform)
next
  assume i: "uuid_in i = Some i"
    and a: "pg_findById uuid_in source i (fold (pg_user_op uuid_in source) ops1 []) = Inr (Some a)"
  have look: "pg_findById uuid_in source i rows = Inr (pg_account source rows i)" for rows
    using i by (simp add: pg_findById_def pg_account_def)
  have "rows_inv []" by (simp add: rows_inv_def)
  from pg_users.run_account [OF pg_users.run_keeps_inv [OF this]] a
  show "\<exists>b. pg_findById uuid_in source i (fold (pg_user_op uuid_in source) (ops1 @ ops2) []) = Inr (Some b) \<and>
      identity b = identity a \<and> au_role b = role_after uuid_in i ops2 (au_role a)"
    by (simp add: look pg_user_op_perform)
qed

definition demo_claims :: "string \<Rightarrow> VerifiedClaims" where
  "demo_claims s = \<lparr>vc_issuer = ''https://idp'', vc_subject = s, vc_email = None, vc_displayName = Some ''Ada'', vc_nonce = None\<rparr>"

definition demo_admin :: AuthenticatedUser where
  "demo_admin = \<lparr>au_userId = ''id1'', au_issuer = ''https://idp'', au_subject = ''ada'', au_email = None,
     au_displayName = Some ''Ada'', au_role = ADMIN, au_source = Src_Oidc\<rparr>"

theorem role_only_by_setRole_witness:
  "\<exists>b. pg_findById Some Src_Oidc ''id1'' (fold (pg_user_op Some Src_Oidc)
      ([U_Upsert ''id1'' (demo_claims ''ada''), U_SetRole ''id1'' ADMIN] @
       [U_Upsert ''id2'' (demo_claims ''bob''), U_Upsert ''id3'' (demo_claims ''ada'')]) []) = Inr (Some b) \<and>
    identity b = identity demo_admin \<and> au_role b = ADMIN"
proof -
  have "pg_findById Some Src_Oidc ''id1'' (fold (pg_user_op Some Src_Oidc)
      [U_Upsert ''id1'' (demo_claims ''ada''), U_SetRole ''id1'' ADMIN] []) = Inr (Some demo_admin)"
    by code_simp
  then show ?thesis
    using role_only_by_setRole [of "''id1''" Src_Oidc "[U_Upsert ''id1'' (demo_claims ''ada''), U_SetRole ''id1'' ADMIN]"
        demo_admin "[U_Upsert ''id2'' (demo_claims ''bob''), U_Upsert ''id3'' (demo_claims ''ada'')]" Some]
    by (simp add: demo_admin_def)
qed

text \<open>
  Sign-in is by external identity: two sign-ins at any two points of a repository's
  life, with anything in between, reach the same account exactly when they present the
  same issuer and subject, in memory and in PostgreSQL alike. Email and display name play
  no part.
\<close>

theorem sign_in_by_identity:
  "(mem_upsert source c (fold (mem_user_op source) ops1 empty_users) = (u, r1) \<longrightarrow>
    mem_upsert source c' (fold (mem_user_op source) ops2 r1) = (u', r2) \<longrightarrow>
    (au_userId u = au_userId u' \<longleftrightarrow> claimed c = claimed c')) \<and>
   (pg_upsert source g c (fold (pg_user_op uuid_in source) ops1 []) = (Inr v, rows1) \<longrightarrow>
    pg_upsert source g' c' (fold (pg_user_op uuid_in source) ops2 rows1) = (Inr v', rows2) \<longrightarrow>
    (au_userId v = au_userId v' \<longleftrightarrow> claimed c = claimed c'))"
proof (intro conjI impI)
  assume first: "mem_upsert source c (fold (mem_user_op source) ops1 empty_users) = (u, r1)"
    and second: "mem_upsert source c' (fold (mem_user_op source) ops2 r1) = (u', r2)"
  have "users_inv (fold (mem_user_op source) ops1 empty_users)"
    unfolding mem_user_op_perform by (rule mem_users.run_keeps_inv [OF users_inv_empty])
  moreover have "fst (mem_signin source [] c (fold (mem_user_op source) ops1 empty_users)) = Some u"
    "fst (mem_signin source [] c' (fold (mem_users.perform source) ops2
       (snd (mem_signin source [] c (fold (mem_user_op source) ops1 empty_users))))) = Some u'"
    using first second by (simp_all add: mem_signin_def mem_user_op_perform)
  ultimately show "au_userId u = au_userId u' \<longleftrightarrow> claimed c = claimed c'"
    by (rule mem_users.same_account_iff)
next
  assume first: "pg_upsert source g c (fold (pg_user_op uuid_in source) ops1 []) = (Inr v, rows1)"
    and second: "pg_upsert source g' c' (fold (pg_user_op uuid_in source) ops2 rows1) = (Inr v', rows2)"
  have "rows_inv []" by (simp add: rows_inv_def)
  then have "rows_inv (fold (pg_user_op uuid_in source) ops1 [])"
    unfolding pg_user_op_perform by (rule pg_users.run_keeps_inv)
  moreover have "fst (pg_signin source g c (fold (pg_user_op uuid_in source) ops1 [])) = Some v"
    "fst (pg_signin source g' c' (fold (pg_users.perform source uuid_in) ops2
       (snd (pg_signin source g c (fold (pg_user_op uuid_in source) ops1 []))))) = Some v'"
    using first second by (simp_all add: pg_upsert_signin snd_pg_signin pg_user_op_perform)
  ultimately show "au_userId v = au_userId v' \<longleftrightarrow> claimed c = claimed c'"
    by (rule pg_users.same_account_iff)
qed

theorem sign_in_by_identity_witness:
  "(let (u, r1) = mem_upsert Src_Development (demo_claims ''ada'') empty_users;
       (u', r2) = mem_upsert Src_Development (demo_claims ''bob'') (fold (mem_user_op Src_Development) [U_SetRole ''usr-00000001'' ADMIN] r1)
    in au_userId u = ''usr-00000001'' \<and> au_userId u \<noteq> au_userId u')"
proof -
  obtain u r1 where one: "mem_upsert Src_Development (demo_claims ''ada'') empty_users = (u, r1)"
    by (cases "mem_upsert Src_Development (demo_claims ''ada'') empty_users")
  obtain u' r2 where two: "mem_upsert Src_Development (demo_claims ''bob'')
      (fold (mem_user_op Src_Development) [U_SetRole ''usr-00000001'' ADMIN] r1) = (u', r2)"
    by (cases "mem_upsert Src_Development (demo_claims ''bob'')
      (fold (mem_user_op Src_Development) [U_SetRole ''usr-00000001'' ADMIN] r1)")
  have "fst (mem_upsert Src_Development (demo_claims ''ada'') empty_users) =
      \<lparr>au_userId = ''usr-00000001'', au_issuer = ''https://idp'', au_subject = ''ada'', au_email = None,
       au_displayName = Some ''Ada'', au_role = STUDENT, au_source = Src_Development\<rparr>" by code_simp
  moreover have "claimed (demo_claims ''ada'') \<noteq> claimed (demo_claims ''bob'')"
    by (simp add: claimed_def demo_claims_def)
  ultimately show ?thesis
    using sign_in_by_identity [of Src_Development "demo_claims ''ada''" "[]" u r1 "demo_claims ''bob''"
        "[U_SetRole ''usr-00000001'' ADMIN]" u' r2] one two
    by simp
qed

section \<open>The escaped pattern is a literal\<close>

lemma ilike_everything: "ilike ''%'' s"
  by (induction s) simp_all

lemma ilike_literal:
  "ilike (concat (map like_escape q) @ ps) s \<longleftrightarrow>
   length q \<le> length s \<and> toLowerCase (take (length q) s) = toLowerCase q \<and> ilike ps (drop (length q) s)"
proof (induction q arbitrary: s)
  case (Cons c q)
  show ?case by (cases s) (auto simp: Cons.IH toLowerCase_def like_escape_def [of c])
qed (simp add: toLowerCase_def)

lemma starts_with_take: "starts_with p s \<longleftrightarrow> length p \<le> length s \<and> take (length p) s = p"
  by (auto simp: starts_with_length) (simp_all add: starts_with_def)

lemma ilike_likePattern: "ilike (likePattern q) s \<longleftrightarrow> text_includes (toLowerCase q) (toLowerCase s)"
proof -
  have step: "ilike (concat (map like_escape q) @ ''%'') t
    \<longleftrightarrow> starts_with (toLowerCase q) (toLowerCase t)" for t
    by (simp add: ilike_literal ilike_everything starts_with_take toLowerCase_def take_map del: ilike.simps)
  have lower: "toLowerCase (c # s) = lower_char c # toLowerCase s" for c s by (simp add: toLowerCase_def)
  show ?thesis
  proof (induction s)
    case Nil
    show ?case using step [of "[]"] by (simp add: likePattern_def toLowerCase_def)
  next
    case (Cons c s)
    then show ?case using step [of "c # s"] by (simp add: likePattern_def lower)
  qed
qed

end
