(* ===== verification/Auth_Sessions.thy ===== *)
theory Auth_Sessions
  imports Session_Token Postgres_Progress
begin

text \<open>
  Browser sign-in sessions: \<open>apps/api/src/auth/browser-session.ts\<close>. A cookie value is
  known to the server only by its hash; \<open>hash\<close> is SHA-256 in hexadecimal and an argument,
  as are the random cookie values and the clock. Of the hash the code relies on its shape
  (\<open>hash_hex\<close>) and on a fresh cookie's hash being in no row yet.

  The contract of \<open>AuthSessionStore\<close> is the locale \<open>auth_session_store\<close>: at every instant a
  store answers like a map from hashes to records out of which a sign-out deletes and
  where a record counts until it expires. The two stores remove expired rows at different
  moments, so a store agrees with the map on the records still alive. Both interpret it.
\<close>

section \<open>Records and cookie values\<close>

record AuthSessionRecord =
  as_authSessionId :: string
  as_userId :: string
  as_createdAt :: int
  as_expiresAt :: int

definition DEFAULT_AUTH_SESSION_TTL_SECONDS :: int where
  "DEFAULT_AUTH_SESSION_TTL_SECONDS = 12 * 60 * 60"

definition mintAuthSessionId :: "(string \<Rightarrow> string) \<Rightarrow> string \<Rightarrow> string \<times> string" where
  "mintAuthSessionId hash random = (random, hash random)"

definition is_url_safe :: "char \<Rightarrow> bool" where
  "is_url_safe c \<longleftrightarrow> is_lower_alnum c \<or> is_upper c \<or> c = CHR ''_'' \<or> c = CHR ''-''"

definition looksLikeAuthSessionId :: "string \<Rightarrow> bool" where
  "looksLikeAuthSessionId v \<longleftrightarrow> 16 \<le> length v \<and> length v \<le> 128 \<and> list_all is_url_safe v"

definition isoIn :: "int \<Rightarrow> int \<Rightarrow> int" where
  "isoIn seconds now = now + seconds * 1000"

section \<open>In-memory store\<close>

type_synonym AuthMap = "(string \<times> AuthSessionRecord) list"

definition new_record :: "string \<Rightarrow> string \<Rightarrow> int \<Rightarrow> int \<Rightarrow> AuthSessionRecord" where
  "new_record h userId ttlSeconds now =
     \<lparr>as_authSessionId = h, as_userId = userId, as_createdAt = now, as_expiresAt = isoIn ttlSeconds now\<rparr>"

definition mem_create ::
    "(string \<Rightarrow> string) \<Rightarrow> string \<Rightarrow> string \<Rightarrow> int \<Rightarrow> int \<Rightarrow> AuthMap \<Rightarrow> (string \<times> AuthSessionRecord) \<times> AuthMap" where
  "mem_create hash random userId ttlSeconds now store =
     (let (cookieValue, h) = mintAuthSessionId hash random; record = new_record h userId ttlSeconds now
      in ((cookieValue, record), AList.update h record store))"

definition mem_resolve ::
    "(string \<Rightarrow> string) \<Rightarrow> string \<Rightarrow> int \<Rightarrow> AuthMap \<Rightarrow> AuthSessionRecord option \<times> AuthMap" where
  "mem_resolve hash cookieValue now store =
     (if \<not> looksLikeAuthSessionId cookieValue then (None, store)
      else (case map_of store (hash cookieValue) of
          None \<Rightarrow> (None, store)
        | Some record \<Rightarrow>
            if as_expiresAt record \<le> now then (None, AList.delete (as_authSessionId record) store)
            else (Some record, store)))"

definition mem_findLive :: "string \<Rightarrow> int \<Rightarrow> AuthMap \<Rightarrow> AuthSessionRecord option" where
  "mem_findLive authSessionId now store = (case map_of store authSessionId of
       None \<Rightarrow> None
     | Some record \<Rightarrow> if as_expiresAt record \<le> now then None else Some record)"

definition mem_destroy :: "(string \<Rightarrow> string) \<Rightarrow> string \<Rightarrow> AuthMap \<Rightarrow> bool \<times> AuthMap" where
  "mem_destroy hash cookieValue store =
     (if \<not> looksLikeAuthSessionId cookieValue then (False, store)
      else (map_of store (hash cookieValue) \<noteq> None, AList.delete (hash cookieValue) store))"

text \<open>The two sweeping loops: delete every entry whose record satisfies the condition.\<close>

definition sweep_sessions :: "(AuthSessionRecord \<Rightarrow> bool) \<Rightarrow> AuthMap \<Rightarrow> nat \<times> AuthMap" where
  "sweep_sessions P store =
     foldl (\<lambda>(removed, st) (h, record). if P record then (Suc removed, AList.delete h st) else (removed, st))
       (0, store) store"

definition mem_destroyAllForUser :: "string \<Rightarrow> AuthMap \<Rightarrow> nat \<times> AuthMap" where
  "mem_destroyAllForUser userId = sweep_sessions (\<lambda>record. as_userId record = userId)"

definition mem_purgeExpired :: "int \<Rightarrow> AuthMap \<Rightarrow> nat \<times> AuthMap" where
  "mem_purgeExpired now = sweep_sessions (\<lambda>record. as_expiresAt record \<le> now)"

definition mem_countActive :: "int \<Rightarrow> AuthMap \<Rightarrow> nat" where
  "mem_countActive now store = length (filter (\<lambda>(h, record). as_expiresAt record > now) store)"

section \<open>PostgreSQL store\<close>

text \<open>
  The table \<open>auth_sessions\<close>: its rows are \<open>toRecord\<close> of what the columns hold, \<open>now()\<close> is
  the database's clock, and \<open>users\<close> the ids of the table the foreign key points at.
\<close>

definition pg_create ::
    "(string \<Rightarrow> string option) \<Rightarrow> string list \<Rightarrow> (string \<Rightarrow> string) \<Rightarrow> string \<Rightarrow> string \<Rightarrow> int \<Rightarrow> int \<Rightarrow>
      AuthSessionRecord list \<Rightarrow> (pg_error + string \<times> AuthSessionRecord) \<times> AuthSessionRecord list" where
  "pg_create uuid_in users hash random userId ttlSeconds now rows =
     (let (cookieValue, h) = mintAuthSessionId hash random
      in case uuid_in userId of
           None \<Rightarrow> (Inl Invalid_Uuid, rows)
         | Some u \<Rightarrow>
             let record = new_record h u ttlSeconds now in
             if as_expiresAt record \<le> as_createdAt record then (Inl Check_Violation, rows)
             else if h \<in> as_authSessionId ` set rows then (Inl Unique_Violation, rows)
             else if u \<notin> set users then (Inl Foreign_Key_Violation, rows)
             else (Inr (cookieValue, record), rows @ [record]))"

definition select_live :: "string \<Rightarrow> int \<Rightarrow> AuthSessionRecord list \<Rightarrow> AuthSessionRecord option" where
  "select_live h now rows = find (\<lambda>row. as_authSessionId row = h \<and> as_expiresAt row > now) rows"

definition pg_resolve :: "(string \<Rightarrow> string) \<Rightarrow> string \<Rightarrow> int \<Rightarrow> AuthSessionRecord list \<Rightarrow> AuthSessionRecord option" where
  "pg_resolve hash cookieValue now rows =
     (if \<not> looksLikeAuthSessionId cookieValue then None else select_live (hash cookieValue) now rows)"

definition pg_findLive :: "string \<Rightarrow> int \<Rightarrow> AuthSessionRecord list \<Rightarrow> AuthSessionRecord option" where
  "pg_findLive authSessionId now rows =
     (if \<not> AUTH_SESSION_ID_SHAPE authSessionId then None else select_live authSessionId now rows)"

text \<open>\<open>DELETE FROM auth_sessions WHERE ... RETURNING auth_session_id\<close>\<close>

definition delete_where :: "(AuthSessionRecord \<Rightarrow> bool) \<Rightarrow> AuthSessionRecord list \<Rightarrow> nat \<times> AuthSessionRecord list" where
  "delete_where P rows = (length (filter P rows), filter (\<lambda>row. \<not> P row) rows)"

definition pg_destroy :: "(string \<Rightarrow> string) \<Rightarrow> string \<Rightarrow> AuthSessionRecord list \<Rightarrow> bool \<times> AuthSessionRecord list" where
  "pg_destroy hash cookieValue rows =
     (if \<not> looksLikeAuthSessionId cookieValue then (False, rows)
      else case delete_where (\<lambda>row. as_authSessionId row = hash cookieValue) rows of
             (n, rows') \<Rightarrow> (n > 0, rows'))"

definition pg_destroyAllForUser ::
    "(string \<Rightarrow> string option) \<Rightarrow> string \<Rightarrow> AuthSessionRecord list \<Rightarrow> (pg_error + nat) \<times> AuthSessionRecord list" where
  "pg_destroyAllForUser uuid_in userId rows = (case uuid_in userId of
       None \<Rightarrow> (Inl Invalid_Uuid, rows)
     | Some u \<Rightarrow> (case delete_where (\<lambda>row. as_userId row = u) rows of (n, rows') \<Rightarrow> (Inr n, rows')))"

definition pg_purgeExpired :: "int \<Rightarrow> AuthSessionRecord list \<Rightarrow> nat \<times> AuthSessionRecord list" where
  "pg_purgeExpired now rows = delete_where (\<lambda>row. as_expiresAt row \<le> now) rows"

definition pg_countActive :: "int \<Rightarrow> AuthSessionRecord list \<Rightarrow> nat" where
  "pg_countActive now rows = length (filter (\<lambda>row. as_expiresAt row > now) rows)"

section \<open>The contract\<close>

datatype auth_op =
    O_Create string string int
  | O_Resolve string
  | O_FindLive string
  | O_Destroy string
  | O_DestroyAll string
  | O_Purge
  | O_Count

text \<open>What a caller learns of the sign-ins that count; the number of rows a sweep removed is not part of it.\<close>

datatype auth_answer =
    Created string AuthSessionRecord
  | Session "AuthSessionRecord option"
  | Active nat
  | Swept
  | Failed pg_error

fun mem_perform :: "(string \<Rightarrow> string) \<Rightarrow> auth_op \<Rightarrow> int \<Rightarrow> AuthMap \<Rightarrow> auth_answer \<times> AuthMap" where
  "mem_perform hash (O_Create c u ttl) now st = (case mem_create hash c u ttl now st of ((v, r), st') \<Rightarrow> (Created v r, st'))"
| "mem_perform hash (O_Resolve c) now st = (case mem_resolve hash c now st of (r, st') \<Rightarrow> (Session r, st'))"
| "mem_perform hash (O_FindLive i) now st = (Session (mem_findLive i now st), st)"
| "mem_perform hash (O_Destroy c) now st = (Swept, snd (mem_destroy hash c st))"
| "mem_perform hash (O_DestroyAll u) now st = (Swept, snd (mem_destroyAllForUser u st))"
| "mem_perform hash O_Purge now st = (Swept, snd (mem_purgeExpired now st))"
| "mem_perform hash O_Count now st = (Active (mem_countActive now st), st)"

fun pg_perform ::
    "(string \<Rightarrow> string option) \<Rightarrow> string list \<Rightarrow> (string \<Rightarrow> string) \<Rightarrow> auth_op \<Rightarrow> int \<Rightarrow> AuthSessionRecord list \<Rightarrow>
      auth_answer \<times> AuthSessionRecord list" where
  "pg_perform uuid_in users hash (O_Create c u ttl) now rows =
     (case pg_create uuid_in users hash c u ttl now rows of
        (Inl e, rows') \<Rightarrow> (Failed e, rows') | (Inr (v, r), rows') \<Rightarrow> (Created v r, rows'))"
| "pg_perform uuid_in users hash (O_Resolve c) now rows = (Session (pg_resolve hash c now rows), rows)"
| "pg_perform uuid_in users hash (O_FindLive i) now rows = (Session (pg_findLive i now rows), rows)"
| "pg_perform uuid_in users hash (O_Destroy c) now rows = (Swept, snd (pg_destroy hash c rows))"
| "pg_perform uuid_in users hash (O_DestroyAll u) now rows =
     (case pg_destroyAllForUser uuid_in u rows of (Inl e, rows') \<Rightarrow> (Failed e, rows') | (Inr _, rows') \<Rightarrow> (Swept, rows'))"
| "pg_perform uuid_in users hash O_Purge now rows = (Swept, snd (pg_purgeExpired now rows))"
| "pg_perform uuid_in users hash O_Count now rows = (Active (pg_countActive now rows), rows)"

text \<open>The specification: a map from hashes to the records that were created and not signed out.\<close>

type_synonym sign_ins = "string \<Rightarrow> AuthSessionRecord option"

definition alive :: "int \<Rightarrow> AuthSessionRecord option \<Rightarrow> AuthSessionRecord option" where
  "alive now x = (case x of None \<Rightarrow> None | Some r \<Rightarrow> if now < as_expiresAt r then Some r else None)"

fun spec_answer :: "(string \<Rightarrow> string) \<Rightarrow> auth_op \<Rightarrow> int \<Rightarrow> sign_ins \<Rightarrow> auth_answer" where
  "spec_answer hash (O_Create c u ttl) now A = Created c (new_record (hash c) u ttl now)"
| "spec_answer hash (O_Resolve c) now A = Session (if looksLikeAuthSessionId c then alive now (A (hash c)) else None)"
| "spec_answer hash (O_FindLive i) now A = Session (alive now (A i))"
| "spec_answer hash O_Count now A = Active (card {h. alive now (A h) \<noteq> None})"
| "spec_answer hash _ now A = Swept"

fun spec_step :: "(string \<Rightarrow> string) \<Rightarrow> auth_op \<Rightarrow> int \<Rightarrow> sign_ins \<Rightarrow> sign_ins" where
  "spec_step hash (O_Create c u ttl) now A = A(hash c \<mapsto> new_record (hash c) u ttl now)"
| "spec_step hash (O_Destroy c) now A = (if looksLikeAuthSessionId c then A(hash c := None) else A)"
| "spec_step hash (O_DestroyAll u) now A =
     (\<lambda>h. case A h of None \<Rightarrow> None | Some r \<Rightarrow> if as_userId r = u then None else Some r)"
| "spec_step hash _ now A = A"

text \<open>A store agrees with the specification at an instant: on the records alive then.\<close>

definition agrees :: "int \<Rightarrow> sign_ins \<Rightarrow> sign_ins \<Rightarrow> bool" where
  "agrees now R A \<longleftrightarrow> (\<forall>h. alive now (R h) = alive now (A h))"

lemma agrees_later: "agrees now R A \<Longrightarrow> now \<le> t \<Longrightarrow> agrees t R A"
  unfolding agrees_def alive_def by (fastforce split: option.splits if_splits)

text \<open>An operation sequence whose clock does not run backwards.\<close>

fun in_order :: "int \<Rightarrow> (auth_op \<times> int) list \<Rightarrow> bool" where
  "in_order t [] = True"
| "in_order t ((op, now) # ops) = (t \<le> now \<and> in_order now ops)"

text \<open>A sequence of operations, each at its instant, and its answers.\<close>

fun auth_run :: "(auth_op \<Rightarrow> int \<Rightarrow> 's \<Rightarrow> auth_answer \<times> 's) \<Rightarrow> (auth_op \<times> int) list \<Rightarrow> 's \<Rightarrow> auth_answer list \<times> 's" where
  "auth_run perform [] s = ([], s)"
| "auth_run perform ((op, now) # ops) s =
     (case perform op now s of (a, s') \<Rightarrow> case auth_run perform ops s' of (as, s'') \<Rightarrow> (a # as, s''))"

fun admitted :: "(auth_op \<Rightarrow> 's \<Rightarrow> bool) \<Rightarrow> (auth_op \<Rightarrow> int \<Rightarrow> 's \<Rightarrow> auth_answer \<times> 's) \<Rightarrow> (auth_op \<times> int) list \<Rightarrow> 's \<Rightarrow> bool" where
  "admitted admits perform [] s = True"
| "admitted admits perform ((op, now) # ops) s = (admits op s \<and> admitted admits perform ops (snd (perform op now s)))"

definition spec_perform :: "(string \<Rightarrow> string) \<Rightarrow> auth_op \<Rightarrow> int \<Rightarrow> sign_ins \<Rightarrow> auth_answer \<times> sign_ins" where
  "spec_perform hash op now A = (spec_answer hash op now A, spec_step hash op now A)"

text \<open>Does the operation mint a cookie with this hash?\<close>

fun mints :: "(string \<Rightarrow> string) \<Rightarrow> string \<Rightarrow> auth_op \<Rightarrow> bool" where
  "mints hash h (O_Create c u ttl) = (hash c = h)"
| "mints hash h _ = False"

lemma agrees_refl: "agrees now A A"
  by (simp add: agrees_def)

lemma agrees_trans: "agrees now A B \<Longrightarrow> agrees now B C \<Longrightarrow> agrees now A C"
  by (simp add: agrees_def)

lemma spec_step_agrees: "agrees now R A \<Longrightarrow> agrees now (spec_step hash op now R) (spec_step hash op now A)"
  by (cases op) (auto simp: agrees_def alive_def split: option.splits if_splits; metis option.inject option.distinct(1))+

lemma spec_answer_agrees: "agrees now R A \<Longrightarrow> spec_answer hash op now R = spec_answer hash op now A"
  by (cases op) (auto simp: agrees_def)

lemma auth_run_Cons [simp]:
  "fst (auth_run perform ((op, now) # ops) s) = fst (perform op now s) # fst (auth_run perform ops (snd (perform op now s)))"
  "snd (auth_run perform ((op, now) # ops) s) = snd (auth_run perform ops (snd (perform op now s)))"
  by (simp_all add: case_prod_beta)

declare auth_run.simps(2) [simp del]

lemma auth_run_append:
  "fst (auth_run perform (xs @ ys) s) =
     fst (auth_run perform xs s) @ fst (auth_run perform ys (snd (auth_run perform xs s)))"
  "snd (auth_run perform (xs @ ys) s) = snd (auth_run perform ys (snd (auth_run perform xs s)))"
  by (induction xs arbitrary: s) (auto simp: split_paired_all)

lemma length_auth_run [simp]: "length (fst (auth_run perform ops s)) = length ops"
  by (induction ops arbitrary: s) (auto simp: split_paired_all)

lemma in_order_append: "in_order t (xs @ ys) \<longleftrightarrow> in_order t xs \<and> in_order (last (t # map snd xs)) ys"
  by (induction xs arbitrary: t) auto

locale auth_session_store =
  fixes hash :: "string \<Rightarrow> string"
    and perform :: "auth_op \<Rightarrow> int \<Rightarrow> 's \<Rightarrow> auth_answer \<times> 's"
    and rows :: "'s \<Rightarrow> sign_ins"
    and inv :: "'s \<Rightarrow> bool"
    and admits :: "auth_op \<Rightarrow> 's \<Rightarrow> bool"
  assumes perform_inv: "inv s \<Longrightarrow> inv (snd (perform op now s))"
    and perform_rows: "inv s \<Longrightarrow> admits op s \<Longrightarrow>
          agrees now (rows (snd (perform op now s))) (spec_step hash op now (rows s))"
    and perform_answer: "inv s \<Longrightarrow> admits op s \<Longrightarrow> fst (perform op now s) = spec_answer hash op now (rows s)"
    and admits_cookie: "admits (O_Resolve c) s" "admits (O_FindLive i) s" "admits (O_Destroy c) s"
    and never_revives: "inv s \<Longrightarrow> \<not> mints hash h op \<Longrightarrow> alive now (rows s h) = None \<Longrightarrow>
          alive now (rows (snd (perform op now s)) h) = None"
begin

lemma run_keeps_inv: "inv s \<Longrightarrow> inv (snd (auth_run perform ops s))"
  by (induction ops arbitrary: s) (auto simp: split_paired_all perform_inv)

text \<open>Whatever the store answers, the map of the specification answers too.\<close>

lemma run_refines:
  assumes "inv s" "admitted admits perform ops s" "in_order t ops" "agrees t (rows s) A"
  shows "fst (auth_run perform ops s) = fst (auth_run (spec_perform hash) ops A)"
  using assms
proof (induction ops arbitrary: s A t)
  case (Cons x ops)
  obtain op now where x: "x = (op, now)" by (cases x)
  have ag: "agrees now (rows s) A" using Cons.prems x agrees_later by auto
  have "agrees now (rows (snd (perform op now s))) (spec_step hash op now A)"
    using agrees_trans [OF perform_rows [OF Cons.prems(1)] spec_step_agrees [OF ag]] Cons.prems(2) x by simp
  moreover have "fst (perform op now s) = spec_answer hash op now A"
    using perform_answer [OF Cons.prems(1)] spec_answer_agrees [OF ag] Cons.prems(2) x by auto
  ultimately show ?case
    using Cons.IH [OF perform_inv [OF Cons.prems(1)], where t = now] Cons.prems(2,3) x
    by (simp add: spec_perform_def)
qed simp

lemma alive_later: "alive t x = None \<Longrightarrow> t \<le> now \<Longrightarrow> alive now x = None"
  by (auto simp: alive_def split: option.splits if_splits)

lemma run_never_revives:
  assumes "inv s" "in_order t ops" "alive t (rows s h) = None" "\<forall>(op, now) \<in> set ops. \<not> mints hash h op"
  shows "alive (last (t # map snd ops)) (rows (snd (auth_run perform ops s)) h) = None"
  using assms
proof (induction ops arbitrary: s t)
  case (Cons x ops)
  obtain op now where x: "x = (op, now)" by (cases x)
  have "alive now (rows s h) = None" using Cons.prems(2,3) x alive_later by auto
  then have "alive now (rows (snd (perform op now s)) h) = None"
    using never_revives [OF Cons.prems(1)] Cons.prems(4) x by auto
  from Cons.IH [OF perform_inv [OF Cons.prems(1)] _ this] Cons.prems(2,4) x show ?case
    by simp
qed simp

text \<open>A dead session answers nothing, by its cookie or by its stored id.\<close>

lemma dead_answers:
  assumes "inv s" "alive now (rows s (hash c)) = None"
  shows "fst (perform (O_Resolve c) now s) = Session None" "fst (perform (O_FindLive (hash c)) now s) = Session None"
  using assms perform_answer admits_cookie by auto

lemma destroyed_is_dead:
  assumes "inv s" "looksLikeAuthSessionId c"
  shows "alive now (rows (snd (perform (O_Destroy c) now s)) (hash c)) = None"
  using perform_rows [OF assms(1) admits_cookie(3), of now c] assms(2) by (simp add: agrees_def alive_def)

lemma sign_out_ends:
  assumes "inv s" "looksLikeAuthSessionId c" "in_order t ((O_Destroy c, t1) # ops @ [(O_Resolve c, t2), (O_FindLive (hash c), t3)])"
    and "\<forall>(op, now) \<in> set ops. \<not> mints hash (hash c) op"
  shows "drop (Suc (length ops)) (fst (auth_run perform ((O_Destroy c, t1) # ops @ [(O_Resolve c, t2), (O_FindLive (hash c), t3)]) s))
    = [Session None, Session None]"
proof -
  let ?s1 = "snd (perform (O_Destroy c) t1 s)"
  let ?s2 = "snd (auth_run perform ops ?s1)"
  have inv1: "inv ?s1" and inv2: "inv ?s2" using assms(1) perform_inv run_keeps_inv by auto
  have times: "in_order t1 ops" "last (t1 # map snd ops) \<le> t2" "t2 \<le> t3"
    using assms(3) by (auto simp: in_order_append)
  have "alive (last (t1 # map snd ops)) (rows ?s2 (hash c)) = None"
    by (rule run_never_revives [OF inv1 times(1) destroyed_is_dead [OF assms(1,2)] assms(4)])
  then have d2: "alive t2 (rows ?s2 (hash c)) = None" by (rule alive_later [OF _ times(2)])
  have "alive t2 (rows (snd (perform (O_Resolve c) t2 ?s2)) (hash c)) = None"
    by (rule never_revives [OF inv2 _ d2]) simp
  then have "alive t3 (rows (snd (perform (O_Resolve c) t2 ?s2)) (hash c)) = None"
    by (rule alive_later [OF _ times(3)])
  from dead_answers(2) [OF perform_inv [OF inv2] this] dead_answers(1) [OF inv2 d2] show ?thesis
    by (simp add: auth_run_append)
qed

end

section \<open>The in-memory store keeps it\<close>

definition map_inv :: "AuthMap \<Rightarrow> bool" where
  "map_inv st \<longleftrightarrow> distinct (map fst st) \<and> (\<forall>h r. map_of st h = Some r \<longrightarrow> as_authSessionId r = h)"

lemma sweep_sessions_fold:
  fixes P :: "AuthSessionRecord \<Rightarrow> bool"
  defines "f \<equiv> \<lambda>(removed, st) (h, record). if P record then (Suc removed, AList.delete h st) else (removed, st)"
  shows "map_of (snd (foldl f (n, acc) xs)) h = (if \<exists>r. (h, r) \<in> set xs \<and> P r then None else map_of acc h) \<and>
    (distinct (map fst acc) \<longrightarrow> distinct (map fst (snd (foldl f (n, acc) xs))))"
  by (induction xs arbitrary: n acc) (auto simp: f_def distinct_keys_delete)

lemma sweep_lookup:
  assumes "distinct (map fst st)"
  shows "map_of (snd (sweep_sessions P st)) h = (case map_of st h of None \<Rightarrow> None | Some r \<Rightarrow> if P r then None else Some r)"
    and "distinct (map fst (snd (sweep_sessions P st)))"
proof -
  have "(\<exists>r. (h, r) \<in> set st \<and> P r) \<longleftrightarrow> (\<exists>r. map_of st h = Some r \<and> P r)" using assms by simp
  then show "map_of (snd (sweep_sessions P st)) h = (case map_of st h of None \<Rightarrow> None | Some r \<Rightarrow> if P r then None else Some r)"
    using sweep_sessions_fold [of P 0 st st h] by (cases "map_of st h") (simp_all add: sweep_sessions_def)
  show "distinct (map fst (snd (sweep_sessions P st)))" using assms sweep_sessions_fold [of P 0 st st] by (simp add: sweep_sessions_def)
qed

lemma map_inv_sweep: "map_inv st \<Longrightarrow> map_inv (snd (sweep_sessions P st))"
  by (auto simp: map_inv_def sweep_lookup split: option.splits if_splits)

lemma map_inv_delete: "map_inv st \<Longrightarrow> map_inv (AList.delete h st)"
  by (auto simp: map_inv_def distinct_keys_delete split: if_splits)

lemma map_inv_create: "map_inv st \<Longrightarrow> as_authSessionId r = h \<Longrightarrow> map_inv (AList.update h r st)"
  by (auto simp: map_inv_def distinct_keys_update split: if_splits)

lemma card_alive:
  assumes "distinct (map fst st)"
  shows "mem_countActive now st = card {h. alive now (map_of st h) \<noteq> None}"
proof -
  let ?l = "filter (\<lambda>(h, record). as_expiresAt record > now) st"
  have "{h. alive now (map_of st h) \<noteq> None} = set (map fst ?l)"
  proof (intro set_eqI iffI)
    fix h assume "h \<in> {h. alive now (map_of st h) \<noteq> None}"
    then obtain r where "map_of st h = Some r" "now < as_expiresAt r"
      by (auto simp: alive_def split: option.splits if_splits)
    then show "h \<in> set (map fst ?l)" using map_of_SomeD by force
  next
    fix h assume "h \<in> set (map fst ?l)"
    then obtain r where "(h, r) \<in> set st" "now < as_expiresAt r" by auto
    then show "h \<in> {h. alive now (map_of st h) \<noteq> None}" using assms by (simp add: alive_def)
  qed
  moreover have "distinct (map fst ?l)" using assms by (rule distinct_map_filter)
  ultimately show ?thesis using distinct_card by (metis length_map mem_countActive_def)
qed

interpretation mem_auth: auth_session_store hash "mem_perform hash" map_of map_inv "\<lambda>op s. True" for hash
proof (unfold_locales, goal_cases)
  case (1 s op now)
  then show ?case
    by (cases op)
      (auto simp: mem_create_def mem_resolve_def mem_destroy_def mem_destroyAllForUser_def mem_purgeExpired_def
        mintAuthSessionId_def new_record_def Let_def intro: map_inv_create map_inv_delete map_inv_sweep split: option.split)
next
  case (2 s op now)
  then have d: "distinct (map fst s)" and ids: "\<And>h r. map_of s h = Some r \<Longrightarrow> as_authSessionId r = h"
    by (auto simp: map_inv_def)
  show ?case
    by (cases op)
      (auto simp: mem_create_def mem_resolve_def mem_destroy_def mem_destroyAllForUser_def mem_purgeExpired_def
        mintAuthSessionId_def Let_def agrees_def alive_def sweep_lookup [OF d] ids split: option.splits)
next
  case (3 s op now)
  then have "distinct (map fst s)" by (simp add: map_inv_def)
  then show ?case
    by (cases op)
      (auto simp: mem_create_def mem_resolve_def mem_findLive_def mintAuthSessionId_def Let_def alive_def
        card_alive [unfolded alive_def] split: option.splits)
next
  case (5 s h op now)
  then have d: "distinct (map fst s)" by (simp add: map_inv_def)
  from 5 show ?case
    by (cases op)
      (auto simp: mem_create_def mem_resolve_def mem_destroy_def mem_destroyAllForUser_def mem_purgeExpired_def
        mintAuthSessionId_def Let_def alive_def sweep_lookup [OF d] split: option.splits if_splits)
qed simp_all

section \<open>The PostgreSQL store keeps it\<close>

definition hash_hex :: "(string \<Rightarrow> string) \<Rightarrow> bool" where
  "hash_hex hash \<longleftrightarrow> (\<forall>v. AUTH_SESSION_ID_SHAPE (hash v))"

definition table_inv :: "(string \<Rightarrow> string) \<Rightarrow> AuthSessionRecord list \<Rightarrow> bool" where
  "table_inv hash rows \<longleftrightarrow> hash_hex hash \<and> distinct (map as_authSessionId rows) \<and>
     (\<forall>r\<in>set rows. AUTH_SESSION_ID_SHAPE (as_authSessionId r))"

definition table_rows :: "AuthSessionRecord list \<Rightarrow> sign_ins" where
  "table_rows rows h = find (\<lambda>row. as_authSessionId row = h) rows"

text \<open>
  Statements the table accepts: a new row names an existing user by the id as the database
  writes it, lives for a positive time, and its hash is not there yet.
\<close>

fun pg_admits :: "(string \<Rightarrow> string option) \<Rightarrow> string list \<Rightarrow> (string \<Rightarrow> string) \<Rightarrow> auth_op \<Rightarrow> AuthSessionRecord list \<Rightarrow> bool" where
  "pg_admits uuid_in users hash (O_Create c u ttl) rows =
     (uuid_in u = Some u \<and> u \<in> set users \<and> 0 < ttl \<and> hash c \<notin> as_authSessionId ` set rows)"
| "pg_admits uuid_in users hash (O_DestroyAll u) rows = (uuid_in u = Some u)"
| "pg_admits uuid_in users hash _ rows = True"

lemma table_rows_Some:
  "distinct (map as_authSessionId rows) \<Longrightarrow> table_rows rows h = Some r \<longleftrightarrow> r \<in> set rows \<and> as_authSessionId r = h"
  unfolding table_rows_def by (rule find_key)

lemma table_rows_filter:
  assumes "distinct (map as_authSessionId rows)"
  shows "table_rows (filter P rows) h = (case table_rows rows h of None \<Rightarrow> None | Some r \<Rightarrow> if P r then Some r else None)"
proof (cases "table_rows (filter P rows) h")
  case None
  then have "\<not> (r \<in> set rows \<and> P r \<and> as_authSessionId r = h)" for r
    by (auto simp: table_rows_def find_None_iff)
  then show ?thesis using None table_rows_Some [OF assms, of h] by (auto split: option.split)
next
  case (Some r)
  then have "r \<in> set rows \<and> P r \<and> as_authSessionId r = h"
    using table_rows_Some [OF distinct_map_filter [OF assms]] by auto
  then show ?thesis using Some table_rows_Some [OF assms, of h r] by auto
qed

lemma table_rows_append:
  "table_rows (rows @ [r]) h = (case table_rows rows h of
     None \<Rightarrow> if as_authSessionId r = h then Some r else None | Some x \<Rightarrow> Some x)"
  by (induction rows) (auto simp: table_rows_def)

lemma select_live_alive:
  assumes "distinct (map as_authSessionId rows)"
  shows "select_live h now rows = alive now (table_rows rows h)"
proof -
  have "select_live h now rows = table_rows (filter (\<lambda>row. now < as_expiresAt row) rows) h"
    by (induction rows) (auto simp: select_live_def table_rows_def)
  then show ?thesis using table_rows_filter [OF assms] by (simp add: alive_def)
qed

lemma table_count:
  assumes "distinct (map as_authSessionId rows)"
  shows "pg_countActive now rows = card {h. alive now (table_rows rows h) \<noteq> None}"
proof -
  let ?st = "map (\<lambda>r. (as_authSessionId r, r)) rows"
  have "map_of ?st h = table_rows rows h" for h
    by (induction rows) (auto simp: table_rows_def)
  moreover have "mem_countActive now ?st = pg_countActive now rows"
    by (simp add: mem_countActive_def pg_countActive_def filter_map comp_def)
  moreover have "distinct (map fst ?st)" using assms by (simp add: comp_def)
  ultimately show ?thesis using card_alive [of ?st now] by simp
qed

lemma table_inv_filter: "table_inv hash rows \<Longrightarrow> table_inv hash (filter P rows)"
  by (auto simp: table_inv_def distinct_map_filter)

interpretation pg_auth: auth_session_store hash "pg_perform uuid_in users hash" table_rows "table_inv hash"
  "pg_admits uuid_in users hash" for hash uuid_in users
proof (unfold_locales, goal_cases)
  case (1 s op now)
  then show ?case
    by (cases op)
      (auto simp: pg_create_def pg_destroy_def pg_destroyAllForUser_def pg_purgeExpired_def delete_where_def
        mintAuthSessionId_def new_record_def Let_def table_inv_filter
        split: option.split, auto simp: table_inv_def hash_hex_def)
next
  case (2 s op now)
  then have d: "distinct (map as_authSessionId s)" by (simp add: table_inv_def)
  have fresh: "h \<notin> as_authSessionId ` set s \<Longrightarrow> table_rows s h = None" for h
    unfolding table_rows_def by (rule find_key_None [THEN iffD2])
  have key: "table_rows s h = Some r \<Longrightarrow> as_authSessionId r = h" for h r
    using table_rows_Some [OF d] by simp
  from 2 show ?case
    by (cases op)
      (auto simp: pg_create_def pg_destroy_def pg_destroyAllForUser_def pg_purgeExpired_def delete_where_def
        mintAuthSessionId_def new_record_def isoIn_def Let_def agrees_def alive_def table_rows_append
        table_rows_filter [OF d] fresh dest: key split: option.splits)
next
  case (3 s op now)
  then have d: "distinct (map as_authSessionId s)"
    and shape: "\<And>h r. table_rows s h = Some r \<Longrightarrow> AUTH_SESSION_ID_SHAPE h"
    by (auto simp: table_inv_def table_rows_Some)
  from 3 show ?case
    by (cases op)
      (auto simp: pg_create_def pg_resolve_def pg_findLive_def pg_destroyAllForUser_def delete_where_def mintAuthSessionId_def new_record_def isoIn_def Let_def
        select_live_alive [OF d] table_count [OF d] alive_def dest: shape split: option.splits)
next
  case (7 s h op now)
  then have d: "distinct (map as_authSessionId s)" by (simp add: table_inv_def)
  from 7 show ?case
    by (cases op)
      (auto simp: pg_create_def pg_destroy_def pg_destroyAllForUser_def pg_purgeExpired_def delete_where_def
        mintAuthSessionId_def new_record_def Let_def alive_def table_rows_append
        table_rows_filter [OF d] split: option.splits if_splits)
qed simp_all

section \<open>Signing in and out\<close>

lemma mem_admitted: "admitted (\<lambda>op s. True) perform ops s"
  by (induction ops arbitrary: s) (auto simp: split_paired_all)

text \<open>
  C30. Both stores of browser sessions are the same abstract object: on any sequence of
  operations whose clock does not run backwards, and whose statements the database
  accepts, the in-memory store and the PostgreSQL store give the answers of a map from
  cookie hashes to records that counts a record until it expires, although one removes an
  expired row when it is read and the other only when it is purged. So they agree with
  each other on who is signed in, by cookie and by stored id, and on how many are.
\<close>

theorem auth_stores_refine_map:
  assumes "hash_hex hash" "in_order t ops" "admitted (pg_admits uuid_in users hash) (pg_perform uuid_in users hash) ops []"
  shows "fst (auth_run (mem_perform hash) ops []) = fst (auth_run (spec_perform hash) ops (\<lambda>h. None)) \<and>
    fst (auth_run (pg_perform uuid_in users hash) ops []) = fst (auth_run (spec_perform hash) ops (\<lambda>h. None))"
proof
  have "map_inv []" by (simp add: map_inv_def)
  then show "fst (auth_run (mem_perform hash) ops []) = fst (auth_run (spec_perform hash) ops (\<lambda>h. None))"
    by (rule mem_auth.run_refines [OF _ mem_admitted assms(2)]) (simp add: agrees_def)
  have "table_inv hash []" using assms(1) by (simp add: table_inv_def)
  then show "fst (auth_run (pg_perform uuid_in users hash) ops []) = fst (auth_run (spec_perform hash) ops (\<lambda>h. None))"
    by (rule pg_auth.run_refines [OF _ assms(3,2)]) (simp add: agrees_def table_rows_def)
qed

definition demo_hash :: "string \<Rightarrow> string" where
  "demo_hash s = replicate 63 CHR ''0'' @ (if s = ''cookie-of-student-1'' then ''1'' else ''2'')"

definition demo_sign_ins :: "(auth_op \<times> int) list" where
  "demo_sign_ins = [(O_Create ''cookie-of-student-1'' ''u1'' 60, 0), (O_Resolve ''cookie-of-student-1'', 59999),
     (O_Resolve ''cookie-of-student-1'', 60000), (O_Count, 60000)]"

lemma demo_hash_hex: "hash_hex demo_hash"
  unfolding hash_hex_def
proof
  fix v show "AUTH_SESSION_ID_SHAPE (demo_hash v)"
    by (simp add: demo_hash_def AUTH_SESSION_ID_SHAPE_def is_hex_def list_all_iff)
qed

theorem auth_stores_refine_map_witness:
  "fst (auth_run (mem_perform demo_hash) demo_sign_ins []) = fst (auth_run (spec_perform demo_hash) demo_sign_ins (\<lambda>h. None)) \<and>
   fst (auth_run (pg_perform Some [''u1''] demo_hash) demo_sign_ins []) =
     [Created ''cookie-of-student-1'' (new_record (demo_hash ''cookie-of-student-1'') ''u1'' 60 0),
      Session (Some (new_record (demo_hash ''cookie-of-student-1'') ''u1'' 60 0)), Session None, Active 0]"
proof -
  have "admitted (pg_admits Some [''u1''] demo_hash) (pg_perform Some [''u1''] demo_hash) demo_sign_ins []" by code_simp
  from auth_stores_refine_map [OF demo_hash_hex _ this, of 0]
  have "fst (auth_run (mem_perform demo_hash) demo_sign_ins []) = fst (auth_run (spec_perform demo_hash) demo_sign_ins (\<lambda>h. None))"
    by (simp add: demo_sign_ins_def)
  moreover have "fst (auth_run (pg_perform Some [''u1''] demo_hash) demo_sign_ins []) =
     [Created ''cookie-of-student-1'' (new_record (demo_hash ''cookie-of-student-1'') ''u1'' 60 0),
      Session (Some (new_record (demo_hash ''cookie-of-student-1'') ''u1'' 60 0)), Session None, Active 0]"
    by code_simp
  ultimately show ?thesis by blast
qed

text \<open>
  C31. Signing out is final: after \<open>destroy\<close> with a cookie, in either store and after any
  life of it, whatever happens next short of a new cookie with the same hash, the cookie
  resolves to nobody, and the stored id under which a terminal was opened finds no live
  sign-in.
\<close>

theorem sign_out_is_final:
  assumes "hash_hex hash" "looksLikeAuthSessionId c"
    and "in_order t (before @ (O_Destroy c, t1) # after @ [(O_Resolve c, t2), (O_FindLive (hash c), t3)])"
    and "\<forall>x\<in>set after. \<not> mints hash (hash c) (fst x)"
  defines "ops \<equiv> before @ (O_Destroy c, t1) # after @ [(O_Resolve c, t2), (O_FindLive (hash c), t3)]"
  shows "drop (length before + Suc (length after)) (fst (auth_run (mem_perform hash) ops [])) = [Session None, Session None] \<and>
    drop (length before + Suc (length after)) (fst (auth_run (pg_perform uuid_in users hash) ops [])) = [Session None, Session None]"
proof
  have order: "in_order (last (t # map snd before)) ((O_Destroy c, t1) # after @ [(O_Resolve c, t2), (O_FindLive (hash c), t3)])"
    using assms(3) by (simp add: in_order_append)
  have quiet: "\<forall>(op, now)\<in>set after. \<not> mints hash (hash c) op" using assms(4) by auto
  have "map_inv []" by (simp add: map_inv_def)
  then have "map_inv (snd (auth_run (mem_perform hash) before []))" by (rule mem_auth.run_keeps_inv)
  from mem_auth.sign_out_ends [OF this assms(2) order quiet]
  show "drop (length before + Suc (length after)) (fst (auth_run (mem_perform hash) ops [])) = [Session None, Session None]"
    by (simp add: ops_def auth_run_append(1) [of _ before] del: auth_run_Cons)
  have "table_inv hash []" using assms(1) by (simp add: table_inv_def)
  then have "table_inv hash (snd (auth_run (pg_perform uuid_in users hash) before []))" by (rule pg_auth.run_keeps_inv)
  from pg_auth.sign_out_ends [OF this assms(2) order quiet]
  show "drop (length before + Suc (length after)) (fst (auth_run (pg_perform uuid_in users hash) ops [])) = [Session None, Session None]"
    by (simp add: ops_def auth_run_append(1) [of _ before] del: auth_run_Cons)
qed

theorem sign_out_is_final_witness:
  "drop 2 (fst (auth_run (mem_perform demo_hash) [(O_Create ''cookie-of-student-1'' ''u1'' 60, 0),
      (O_Destroy ''cookie-of-student-1'', 5), (O_Resolve ''cookie-of-student-1'', 6),
      (O_FindLive (demo_hash ''cookie-of-student-1''), 7)] [])) = [Session None, Session None]"
proof -
  have "looksLikeAuthSessionId ''cookie-of-student-1''" by code_simp
  from sign_out_is_final [OF demo_hash_hex this, of 0 "[(O_Create ''cookie-of-student-1'' ''u1'' 60, 0)]" 5 "[]" 6 7]
  show ?thesis by simp
qed

end
