(* ===== verification/Auth_Guard.thy ===== *)
theory Auth_Guard
  imports Auth_Cookies Auth_Users Auth_Sessions Session_Manager
begin

text \<open>
  Who a request is and what it may do: \<open>auth/policy.ts\<close>, \<open>auth/middleware.ts\<close>,
  \<open>auth/browser-authenticator.ts\<close>, \<open>auth/resolvers.ts\<close>, \<open>auth/origin-guard.ts\<close> and the
  refusals of \<open>access/entitlements.ts\<close>. A handler is a function from the request and the
  collaborators it was built with to its answer and the audit lines it wrote. The
  collaborators are arguments because the source takes them as interfaces; the properties
  instantiate them with the model's own session manager, stores and access decision. A
  rejected promise that is not an \<open>AuthError\<close> is \<open>Platform_Failure\<close>.
\<close>

section \<open>Authorization decisions\<close>

datatype Action =
    Session_Read | Session_Check | Session_Reset | Session_Activity | Session_End | Session_Hint
  | Session_Terminal | Session_Start | Progress_Read | Admin_Users | Classroom_Read | Classroom_Operator_Detail

fun action_name :: "Action \<Rightarrow> string" where
  "action_name Session_Read = ''session:read''"
| "action_name Session_Check = ''session:check''"
| "action_name Session_Reset = ''session:reset''"
| "action_name Session_Activity = ''session:activity''"
| "action_name Session_End = ''session:end''"
| "action_name Session_Hint = ''session:hint''"
| "action_name Session_Terminal = ''session:terminal''"
| "action_name Session_Start = ''session:start''"
| "action_name Progress_Read = ''progress:read''"
| "action_name Admin_Users = ''admin:users''"
| "action_name Classroom_Read = ''classroom:read''"
| "action_name Classroom_Operator_Detail = ''classroom:operator-detail''"

record SessionSubject =
  ss_sessionId :: string
  ss_ownerUserId :: "string option"

datatype allow_reason = By_Ownership | By_Role
datatype deny_reason = Not_Owner | Unowned | Wrong_Role
datatype Decision = Allow allow_reason | Deny deny_reason

definition OWNED_ACTIONS :: "Action list" where
  "OWNED_ACTIONS = [Session_Read, Session_Check, Session_Reset, Session_Activity, Session_End, Session_Hint,
     Session_Terminal]"

fun CROSS_USER_SESSION_ACTIONS :: "Role \<Rightarrow> Action list" where
  "CROSS_USER_SESSION_ACTIONS STUDENT = []"
| "CROSS_USER_SESSION_ACTIONS INSTRUCTOR = [Session_Read]"
| "CROSS_USER_SESSION_ACTIONS ADMIN = [Session_Read, Session_End]"

definition SELF_ACTIONS :: "Action list" where
  "SELF_ACTIONS = [Session_Start, Progress_Read]"

definition ROLE_ONLY_ACTIONS :: "Action \<Rightarrow> Role list option" where
  "ROLE_ONLY_ACTIONS action =
     (if action = Admin_Users then Some [ADMIN]
      else if action = Classroom_Read then Some [INSTRUCTOR, ADMIN]
      else if action = Classroom_Operator_Detail then Some [ADMIN]
      else None)"

definition authorize :: "AuthenticatedUser \<Rightarrow> Action \<Rightarrow> SessionSubject option \<Rightarrow> Decision" where
  "authorize user action session = (case ROLE_ONLY_ACTIONS action of
       Some requiredRoles \<Rightarrow> if au_role user \<in> set requiredRoles then Allow By_Role else Deny Wrong_Role
     | None \<Rightarrow>
         if action \<in> set SELF_ACTIONS \<and> session = None then Allow By_Ownership
         else if action \<in> set OWNED_ACTIONS then
           (case session of
              None \<Rightarrow> Deny Not_Owner
            | Some s \<Rightarrow> (case truthy_text (ss_ownerUserId s) of
                None \<Rightarrow> Deny Unowned
              | Some owner \<Rightarrow>
                  if owner = au_userId user then Allow By_Ownership
                  else if action \<in> set (CROSS_USER_SESSION_ACTIONS (au_role user)) then Allow By_Role
                  else Deny Not_Owner))
         else Deny Wrong_Role)"

fun allowed :: "Decision \<Rightarrow> bool" where
  "allowed (Allow _) = True"
| "allowed (Deny _) = False"

definition canStartLabs :: "AuthenticatedUser \<Rightarrow> bool" where
  "canStartLabs user = allowed (authorize user Session_Start None)"

section \<open>Replies and audit lines\<close>

record ApiReply =
  rp_status :: nat
  rp_code :: string
  rp_message :: string
  rp_remediation :: "string option"
  rp_details :: "(string \<times> string) list"
  rp_retryAfter :: "string option"

definition sendError :: "nat \<Rightarrow> string \<Rightarrow> string \<Rightarrow> ApiReply" where
  "sendError statusCode code message = \<lparr>rp_status = statusCode, rp_code = code, rp_message = message,
     rp_remediation = None, rp_details = [], rp_retryAfter = None\<rparr>"

datatype audit_result =
    Au_Allowed | Au_Denied_Not_Owner | Au_Denied_Unowned | Au_Denied_Role | Au_Denied_Access | Au_Unauthenticated

fun audit_result_name :: "audit_result \<Rightarrow> string" where
  "audit_result_name Au_Allowed = ''allowed''"
| "audit_result_name Au_Denied_Not_Owner = ''denied-not-owner''"
| "audit_result_name Au_Denied_Unowned = ''denied-unowned''"
| "audit_result_name Au_Denied_Role = ''denied-role''"
| "audit_result_name Au_Denied_Access = ''denied-access''"
| "audit_result_name Au_Unauthenticated = ''unauthenticated''"

record AuthAuditEvent =
  ae_requestId :: string
  ae_userId :: "string option"
  ae_action :: string
  ae_sessionId :: "string option"
  ae_result :: audit_result
  ae_accessState :: "string option"
  ae_timestamp :: int

definition authzDecisionLabels :: "AuthAuditEvent \<Rightarrow> string \<times> string" where
  "authzDecisionLabels event =
     (if ae_result event = Au_Unauthenticated then ''authenticate'' else ae_action event,
      audit_result_name (ae_result event))"

definition is_request_id_char :: "char \<Rightarrow> bool" where
  "is_request_id_char c \<longleftrightarrow> is_lower_alnum c \<or> is_upper c \<or> c \<in> set ''._-''"

definition requestId :: "string option \<Rightarrow> string option \<Rightarrow> string" where
  "requestId ambient header = (case truthy_text ambient of
       Some i \<Rightarrow> i
     | None \<Rightarrow> (case truthy_text header of
         Some h \<Rightarrow> if length h \<le> 128 \<and> list_all is_request_id_char h then h else ''req-unknown''
       | None \<Rightarrow> ''req-unknown''))"

section \<open>Refusals of lab access\<close>

fun access_state_name :: "AccessState \<Rightarrow> string" where
  "access_state_name S_NONE = ''NONE''"
| "access_state_name S_SCHEDULED = ''SCHEDULED''"
| "access_state_name S_ACTIVE = ''ACTIVE''"
| "access_state_name S_EXPIRED = ''EXPIRED''"
| "access_state_name S_SUSPENDED = ''SUSPENDED''"
| "access_state_name S_REVOKED = ''REVOKED''"

text \<open>\<open>ACCESS_DENIED_MESSAGES\<close> has no entry for \<open>ACTIVE\<close>, a state that is never refused.\<close>

fun ACCESS_DENIED_MESSAGES :: "AccessState \<Rightarrow> string" where
  "ACCESS_DENIED_MESSAGES S_NONE = ''Your account does not have lab access yet.''"
| "ACCESS_DENIED_MESSAGES S_SCHEDULED = ''Your lab access has not started yet.''"
| "ACCESS_DENIED_MESSAGES S_EXPIRED = ''Your lab access has ended.''"
| "ACCESS_DENIED_MESSAGES S_SUSPENDED = ''Your lab access is paused.''"
| "ACCESS_DENIED_MESSAGES S_REVOKED = ''Your account no longer has lab access.''"
| "ACCESS_DENIED_MESSAGES S_ACTIVE = []"

fun decision_allowed :: "AccessDecision \<Rightarrow> bool" where
  "decision_allowed (Allowed_Open _) = True"
| "decision_allowed (Allowed_Entitlement _ _) = True"
| "decision_allowed _ = False"

fun accessRefusalBody :: "AccessDecision \<Rightarrow> ApiReply" where
  "accessRefusalBody (Not_Active state) =
     (sendError 403 ''ACCESS_NOT_ACTIVE'' (ACCESS_DENIED_MESSAGES state))\<lparr>rp_details := [(''accessState'', access_state_name state)]\<rparr>"
| "accessRefusalBody (Lab_Not_In_Plan planId track) =
     (sendError 403 ''LAB_NOT_IN_PLAN'' (''Your plan does not include the '' @ track @ '' track.''))
       \<lparr>rp_details := [(''track'', track), (''planId'', planId)]\<rparr>"
| "accessRefusalBody (Plan_Unavailable planId) =
     (sendError 403 ''ACCESS_PLAN_UNAVAILABLE'' ''Your lab access could not be confirmed. Please contact support.'')
       \<lparr>rp_details := [(''planId'', planId)]\<rparr>"
| "accessRefusalBody _ = sendError 403 [] []"

fun refusalState :: "AccessDecision \<Rightarrow> string" where
  "refusalState (Not_Active state) = access_state_name state"
| "refusalState (Lab_Not_In_Plan _ _) = ''LAB_NOT_IN_PLAN''"
| "refusalState (Plan_Unavailable _) = ''PLAN_UNAVAILABLE''"
| "refusalState _ = []"

section \<open>The session guard\<close>

datatype guard_result =
    Granted AuthenticatedUser LabSession
  | Replied ApiReply
  | Rethrown exn

text \<open>\<open>error.code\<close>, for the errors that carry a code the guard compares with.\<close>

fun exn_code :: "exn \<Rightarrow> SessionErrorCode option" where
  "exn_code (SessionError code _ _ _) = Some code"
| "exn_code (IdentRefused (InvalidSessionIdError _)) = Some INVALID_SESSION_ID"
| "exn_code _ = None"

definition no_such_session :: ApiReply where
  "no_such_session = sendError 404 ''SESSION_NOT_FOUND'' ''No such lab session.''"

fun denial_result :: "Decision \<Rightarrow> audit_result" where
  "denial_result (Allow _) = Au_Allowed"
| "denial_result (Deny Unowned) = Au_Denied_Unowned"
| "denial_result (Deny Wrong_Role) = Au_Denied_Role"
| "denial_result (Deny Not_Owner) = Au_Denied_Not_Owner"

definition decision_audit ::
    "string \<Rightarrow> AuthenticatedUser \<Rightarrow> Action \<Rightarrow> string \<Rightarrow> audit_result \<Rightarrow> string option \<Rightarrow> int \<Rightarrow> AuthAuditEvent" where
  "decision_audit rid user action sid result state now =
     \<lparr>ae_requestId = rid, ae_userId = Some (au_userId user), ae_action = action_name action,
      ae_sessionId = Some sid, ae_result = result, ae_accessState = state, ae_timestamp = now\<rparr>"

type_synonym access_gate = "string \<Rightarrow> LabContext \<Rightarrow> exn + AccessDecision"

definition guard_found ::
    "access_gate option \<Rightarrow> string \<Rightarrow> int \<Rightarrow> AuthenticatedUser \<Rightarrow> LabSession \<Rightarrow> Action \<Rightarrow> guard_result \<times> AuthAuditEvent list" where
  "guard_found access rid now user session action =
     (let decision = authorize user action
            (Some \<lparr>ss_sessionId = sessionId session, ss_ownerUserId = ownerUserId session\<rparr>);
          entitled = (case access of
              None \<Rightarrow> Inr None
            | Some gate \<Rightarrow>
                if allowed decision \<and> requiresLabAccess (action_name action)
                then (case gate (au_userId user) \<lparr>lc_track = None, lc_labId = Some (labId session)\<rparr> of
                        Inl e \<Rightarrow> Inl e | Inr d \<Rightarrow> Inr (Some d))
                else Inr None)
      in case entitled of
           Inl e \<Rightarrow> (Rethrown e, [])
         | Inr verdict \<Rightarrow>
             let denied = (case verdict of Some d \<Rightarrow> if decision_allowed d then None else Some d | None \<Rightarrow> None);
                 line = decision_audit rid user action (sessionId session)
                   (if denied \<noteq> None then Au_Denied_Access else denial_result decision)
                   (map_option refusalState denied) now
             in if \<not> allowed decision then (Replied no_such_session, [line])
                else (case denied of
                    Some d \<Rightarrow> (Replied (accessRefusalBody d), [line])
                  | None \<Rightarrow> (Granted user session, [line])))"

definition guard ::
    "access_gate option \<Rightarrow> (string \<Rightarrow> exn + LabSession) \<Rightarrow> string \<Rightarrow> int \<Rightarrow> AuthenticatedUser option \<Rightarrow> string option \<Rightarrow>
      Action \<Rightarrow> guard_result \<times> AuthAuditEvent list" where
  "guard access require_session rid now requester param action = (case requester of
       None \<Rightarrow> (Replied (sendError 401 ''AUTH_REQUIRED'' ''This request requires authentication.''), [])
     | Some user \<Rightarrow>
         let sid = (case param of None \<Rightarrow> [] | Some s \<Rightarrow> s)
         in case require_session sid of
              Inl e \<Rightarrow>
                if exn_code e = Some INVALID_SESSION_ID
                then (Replied (sendError 400 ''INVALID_SESSION_ID'' ''Session ids look like sess-<hex>.''), [])
                else if exn_code e \<noteq> Some SESSION_NOT_FOUND then (Rethrown e, [])
                else (Replied no_such_session,
                      [decision_audit rid user action sid Au_Denied_Not_Owner None now])
            | Inr session \<Rightarrow> guard_found access rid now user session action)"

text \<open>\<open>requireAction\<close>: \<open>None\<close> is \<open>next()\<close>.\<close>

definition requireAction ::
    "Action \<Rightarrow> string \<Rightarrow> int \<Rightarrow> AuthenticatedUser option \<Rightarrow> ApiReply option \<times> AuthAuditEvent list" where
  "requireAction action rid now requester = (case requester of
       None \<Rightarrow> (Some (sendError 401 ''AUTH_REQUIRED'' ''This request requires authentication.''), [])
     | Some user \<Rightarrow>
         let decision = authorize user action None;
             line = \<lparr>ae_requestId = rid, ae_userId = Some (au_userId user), ae_action = action_name action,
               ae_sessionId = None, ae_result = (if allowed decision then Au_Allowed else Au_Denied_Role),
               ae_accessState = None, ae_timestamp = now\<rparr>
         in if \<not> allowed decision
            then (Some (sendError 403 ''FORBIDDEN'' ''Your account does not have permission to do that.''), [line])
            else (None, [line]))"

section \<open>Authentication\<close>

datatype auth_failure = Refused_Credential AuthError | Platform_Failure string

type_synonym 's session_resolve = "string \<Rightarrow> 's \<Rightarrow> (auth_failure + AuthSessionRecord option) \<times> 's"
type_synonym 's identity_resolver = "string option \<Rightarrow> 's \<Rightarrow> (auth_failure + AuthenticatedUser) \<times> 's"

definition auth_error :: "auth_code \<Rightarrow> string \<Rightarrow> string option \<Rightarrow> auth_failure" where
  "auth_error code message remediation =
     Refused_Credential \<lparr>ae_code = code, ae_message = message, ae_remediation = remediation\<rparr>"

definition cookieFrom :: "string \<Rightarrow> string option \<Rightarrow> string option" where
  "cookieFrom cookieName header = truthy_text (map_of (parseCookies header) cookieName)"

record 's BrowserSessionAuthenticator =
  bs_cookieName :: string
  bs_resolve :: "'s session_resolve"
  bs_findById :: "string \<Rightarrow> 's \<Rightarrow> auth_failure + AuthenticatedUser option"

definition authenticateSession ::
    "'s BrowserSessionAuthenticator \<Rightarrow> string option \<Rightarrow> 's \<Rightarrow>
      (auth_failure + (AuthenticatedUser \<times> string) option) \<times> 's" where
  "authenticateSession b header s = (case cookieFrom (bs_cookieName b) header of
       None \<Rightarrow> (Inr None, s)
     | Some cookieValue \<Rightarrow>
         (case bs_resolve b cookieValue s of
            (Inl e, s') \<Rightarrow> (Inl e, s')
          | (Inr None, s') \<Rightarrow>
              (Inl (auth_error AUTH_EXPIRED ''Your session has expired.'' (Some ''Sign in again.'')), s')
          | (Inr (Some record), s') \<Rightarrow>
              (case bs_findById b (as_userId record) s' of
                 Inl e \<Rightarrow> (Inl e, s')
               | Inr None \<Rightarrow>
                   (Inl (auth_error AUTH_INVALID_TOKEN ''The credentials supplied are not valid.'' (Some ''Sign in again.'')), s')
               | Inr (Some user) \<Rightarrow> (Inr (Some (user, as_authSessionId record)), s'))))"

fun auth_code_name :: "auth_code \<Rightarrow> string" where
  "auth_code_name AUTH_REQUIRED = ''AUTH_REQUIRED''"
| "auth_code_name AUTH_INVALID_TOKEN = ''AUTH_INVALID_TOKEN''"
| "auth_code_name AUTH_EXPIRED = ''AUTH_EXPIRED''"
| "auth_code_name AUTH_MISCONFIGURED = ''AUTH_MISCONFIGURED''"
| "auth_code_name AUTH_PROVIDER_UNAVAILABLE = ''AUTH_PROVIDER_UNAVAILABLE''"

text \<open>The request as the middleware reads it.\<close>

record auth_request =
  rq_method :: string
  rq_path :: string
  rq_cookie :: "string option"
  rq_authorization :: "string option"
  rq_requestId :: string

datatype auth_verdict = Proceed AuthenticatedUser "string option" | Refuse ApiReply

record auth_outcome =
  ao_verdict :: auth_verdict
  ao_attempt :: "string \<times> string"
  ao_audit :: "AuthAuditEvent list"

definition unauthenticated_line :: "auth_request \<Rightarrow> int \<Rightarrow> AuthAuditEvent" where
  "unauthenticated_line req now =
     \<lparr>ae_requestId = rq_requestId req, ae_userId = None, ae_action = rq_method req @ '' '' @ rq_path req,
      ae_sessionId = None, ae_result = Au_Unauthenticated, ae_accessState = None, ae_timestamp = now\<rparr>"

definition auth_unavailable :: ApiReply where
  "auth_unavailable = (sendError 503 ''AUTH_UNAVAILABLE'' ''Your sign-in could not be checked right now.'')
     \<lparr>rp_remediation := Some ''Try again in a moment. You are still signed in.'', rp_retryAfter := Some ''5''\<rparr>"

fun auth_refusal :: "auth_failure \<Rightarrow> string \<times> ApiReply" where
  "auth_refusal (Platform_Failure m) = (''AUTH_UNAVAILABLE'', auth_unavailable)"
| "auth_refusal (Refused_Credential e) = (auth_code_name (ae_code e),
     (sendError 401 (auth_code_name (ae_code e)) (ae_message e))\<lparr>rp_remediation := truthy_text (ae_remediation e)\<rparr>)"

definition credential_source :: "auth_request \<Rightarrow> string" where
  "credential_source req =
     (if truthy_text (rq_cookie req) \<noteq> None then ''cookie''
      else if truthy_text (rq_authorization req) \<noteq> None then ''header'' else ''none'')"

definition authenticate ::
    "'s identity_resolver \<Rightarrow> 's BrowserSessionAuthenticator option \<Rightarrow> auth_request \<Rightarrow> int \<Rightarrow> 's \<Rightarrow> auth_outcome \<times> 's" where
  "authenticate resolver browser req now s =
     (let source = credential_source req;
          refuse = (\<lambda>e. \<lparr>ao_verdict = Refuse (snd (auth_refusal e)), ao_attempt = (source, fst (auth_refusal e)),
                         ao_audit = [unauthenticated_line req now]\<rparr>);
          accept = (\<lambda>user asid. \<lparr>ao_verdict = Proceed user asid, ao_attempt = (source, ''success''), ao_audit = []\<rparr>)
      in case (case browser of None \<Rightarrow> (Inr None, s) | Some b \<Rightarrow> authenticateSession b (rq_cookie req) s) of
           (Inl e, s') \<Rightarrow> (refuse e, s')
         | (Inr (Some (user, asid)), s') \<Rightarrow> (accept user (Some asid), s')
         | (Inr None, s') \<Rightarrow>
             (case resolver (rq_authorization req) s' of
                (Inl e, s'') \<Rightarrow> (refuse e, s'')
              | (Inr user, s'') \<Rightarrow> (accept user None, s'')))"

section \<open>Identity resolvers\<close>

type_synonym 's user_upsert = "VerifiedClaims \<Rightarrow> 's \<Rightarrow> (auth_failure + AuthenticatedUser) \<times> 's"

text \<open>\<open>/^Scheme[ ]+(\\S+)$/.exec(header.trim())\<close>: the credential after the scheme.\<close>

definition scheme_credential :: "string \<Rightarrow> string \<Rightarrow> string option" where
  "scheme_credential scheme header =
     (let s = trim header; rest = drop (length scheme) s; credential = dropWhile (\<lambda>c. c = CHR '' '') rest
      in if starts_with scheme s \<and> rest \<noteq> credential \<and> credential \<noteq> [] \<and> list_all (\<lambda>c. \<not> is_space c) credential
         then Some credential else None)"

definition bearerToken :: "string option \<Rightarrow> auth_failure + string" where
  "bearerToken header = (case truthy_text header of
       None \<Rightarrow> Inl (auth_error AUTH_REQUIRED ''This request requires authentication.'' (Some ''Sign in and retry.''))
     | Some h \<Rightarrow> (case scheme_credential ''Bearer'' h of
         None \<Rightarrow> Inl (auth_error AUTH_INVALID_TOKEN ''Malformed Authorization header.'' None)
       | Some token \<Rightarrow> Inr token))"

definition oidc_resolve :: "(string \<Rightarrow> auth_failure + VerifiedClaims) \<Rightarrow> 's user_upsert \<Rightarrow> 's identity_resolver" where
  "oidc_resolve verify upsert header s =
     (case and_then (bearerToken header) verify of
        Inl e \<Rightarrow> (Inl e, s)
      | Inr claims \<Rightarrow> upsert claims s)"

definition DEVELOPMENT_ISSUER :: string where
  "DEVELOPMENT_ISSUER = ''urn:jumptotech:development''"

definition is_dev_subject :: "string \<Rightarrow> bool" where
  "is_dev_subject s = (case toLowerCase s of [] \<Rightarrow> False
     | c # t \<Rightarrow> is_lower_alnum c \<and> 1 \<le> length t \<and> length t \<le> 63 \<and>
         list_all (\<lambda>d. is_lower_alnum d \<or> d \<in> set ''._-'') t)"

definition subjectFrom :: "string \<Rightarrow> string option \<Rightarrow> auth_failure + string" where
  "subjectFrom defaultSubject header = (case truthy_text header of
       None \<Rightarrow> Inr defaultSubject
     | Some h \<Rightarrow> (case scheme_credential ''Developer'' h of
         None \<Rightarrow> Inl (auth_error AUTH_INVALID_TOKEN
           ''This deployment uses development authentication and does not accept bearer tokens.'' None)
       | Some name \<Rightarrow>
           if \<not> is_dev_subject name then Inl (auth_error AUTH_INVALID_TOKEN ''Malformed development identity.'' None)
           else Inr (toLowerCase name)))"

definition development_resolve :: "string \<Rightarrow> 's user_upsert \<Rightarrow> 's identity_resolver" where
  "development_resolve defaultSubject upsert header s = (case subjectFrom defaultSubject header of
       Inl e \<Rightarrow> (Inl e, s)
     | Inr subject \<Rightarrow> upsert \<lparr>vc_issuer = DEVELOPMENT_ISSUER, vc_subject = subject, vc_email = None,
         vc_displayName = Some subject, vc_nonce = None\<rparr> s)"

datatype auth_mode = Mode_Oidc | Mode_Development

definition assertAuthModeAllowed :: "auth_mode \<Rightarrow> string option \<Rightarrow> auth_failure + unit" where
  "assertAuthModeAllowed mode nodeEnv = unless (\<not> (mode = Mode_Development \<and> map_option trim nodeEnv = Some ''production''))
     (auth_error AUTH_MISCONFIGURED
       (''AUTH_MODE=development cannot be used when NODE_ENV=production: '' @
        ''development authentication accepts any identity the caller claims.'')
       (Some ''Set AUTH_MODE=oidc and configure OIDC_ISSUER, OIDC_CLIENT_ID and OIDC_AUDIENCE.''))"

definition buildIdentityResolver ::
    "auth_mode \<Rightarrow> string option \<Rightarrow> 's user_upsert \<Rightarrow> (string \<Rightarrow> auth_failure + VerifiedClaims) option \<Rightarrow> string option \<Rightarrow>
      auth_failure + 's identity_resolver" where
  "buildIdentityResolver mode nodeEnv upsert verifier defaultSubject =
     and_then (assertAuthModeAllowed mode nodeEnv) (\<lambda>_.
       if mode = Mode_Development
       then Inr (development_resolve (case defaultSubject of None \<Rightarrow> ''dev-student'' | Some d \<Rightarrow> d) upsert)
       else (case verifier of
           None \<Rightarrow> Inl (auth_error AUTH_MISCONFIGURED ''AUTH_MODE=oidc requires OIDC_ISSUER and OIDC_AUDIENCE.'' None)
         | Some verify \<Rightarrow> Inr (oidc_resolve verify upsert)))"

section \<open>The origin guard\<close>

definition SAFE_METHODS :: "string list" where
  "SAFE_METHODS = [''GET'', ''HEAD'', ''OPTIONS'']"

datatype OriginRefusal = Origin_Not_Allowed | Cross_Site_Fetch

text \<open>\<open>origin.replace(/\\/$/, '')\<close>\<close>

definition strip_slash :: "string \<Rightarrow> string" where
  "strip_slash s = (if s \<noteq> [] \<and> last s = CHR ''/'' then butlast s else s)"

text \<open>\<open>None\<close> is \<open>next()\<close>; every refusal is the same 403 and says nothing of the list.\<close>

definition requireTrustedOrigin ::
    "string list \<Rightarrow> string \<Rightarrow> string option \<Rightarrow> string option \<Rightarrow> OriginRefusal option" where
  "requireTrustedOrigin trustedOrigins method origin site =
     (let trusted = map strip_slash (filter (\<lambda>s. s \<noteq> []) trustedOrigins) in
      if method \<in> set SAFE_METHODS then None
      else (case origin of
          Some o' \<Rightarrow> if o' \<in> set trusted then None else Some Origin_Not_Allowed
        | None \<Rightarrow>
            if site = None \<or> site = Some ''same-origin'' \<or> site = Some ''none'' then None
            else Some Cross_Site_Fetch))"

definition origin_refusal :: ApiReply where
  "origin_refusal = sendError 403 ''ORIGIN_NOT_ALLOWED'' ''This request did not come from an allowed origin.''"

section \<open>What the guard lets through\<close>

text \<open>The session manager's \<open>require\<close> on a store, and the access decision on an access store.\<close>

definition lookup_session :: "(call \<Rightarrow> resp) \<Rightarrow> InMemorySessionStore \<Rightarrow> process \<Rightarrow> string \<Rightarrow> exn + LabSession" where
  "lookup_session env st pr sid = fst (run env (require (UString sid)) st pr)"

definition access_of :: "AccessControl \<Rightarrow> (string \<Rightarrow> string option) \<Rightarrow> access_store \<Rightarrow> int \<Rightarrow> access_gate" where
  "access_of ac trackOfLab ast now uid lab = Inr (decide ac trackOfLab (grantsOf ast uid) now lab)"

lemma lookup_session_eq:
  "lookup_session env st pr sid =
     (case assertValidSessionId (UString sid) of
        Inl _ \<Rightarrow> Inl (SessionError INVALID_SESSION_ID ''Session ids look like sess-<hex>.'' None No_Details)
      | Inr i \<Rightarrow> (case store_get st i of
          None \<Rightarrow> Inl (SessionError SESSION_NOT_FOUND
                ''That lab session does not exist, or it has already been cleaned up.''
                (Some ''Start the lab again to get a fresh environment.'') No_Details)
        | Some session \<Rightarrow> Inr session))"
  by (auto simp: lookup_session_def require_def call_session_def store_answer_def split: sum.split option.split)

lemma lookup_session_Inr:
  "lookup_session env st pr sid = Inr s \<Longrightarrow> store_get st sid = Some s"
  by (auto simp: lookup_session_eq assertValidSessionId_def split: sum.splits option.splits if_splits)

lemma owned_action:
  assumes "action \<in> set OWNED_ACTIONS"
  shows "ROLE_ONLY_ACTIONS action = None" "action \<notin> set SELF_ACTIONS"
  using assms by (auto simp: OWNED_ACTIONS_def ROLE_ONLY_ACTIONS_def SELF_ACTIONS_def)

lemma authorize_session:
  assumes "action \<in> set OWNED_ACTIONS"
  shows "authorize user action (Some s) = (case truthy_text (ss_ownerUserId s) of
      None \<Rightarrow> Deny Unowned
    | Some owner \<Rightarrow> if owner = au_userId user then Allow By_Ownership
        else if action \<in> set (CROSS_USER_SESSION_ACTIONS (au_role user)) then Allow By_Role else Deny Not_Owner)"
  using assms owned_action [OF assms] by (simp add: authorize_def)

lemma truthy_Some: "truthy_text x = Some s \<longleftrightarrow> x = Some s \<and> s \<noteq> []"
  by (auto simp: truthy_text_def split: option.splits)

lemma lab_use_is_not_cross_user:
  "requiresLabAccess (action_name action) \<Longrightarrow> action \<notin> set (CROSS_USER_SESSION_ACTIONS role)"
  by (cases role; cases action) (simp_all add: requiresLabAccess_def LAB_USE_ACTIONS_def)

lemma guard_found_Granted:
  assumes "fst (guard_found access rid now user session action) = Granted u s"
  shows "u = user \<and> s = session \<and>
    allowed (authorize user action (Some \<lparr>ss_sessionId = sessionId session, ss_ownerUserId = ownerUserId session\<rparr>)) \<and>
    (\<forall>gate. access = Some gate \<longrightarrow> requiresLabAccess (action_name action) \<longrightarrow>
       (\<exists>d. gate (au_userId user) \<lparr>lc_track = None, lc_labId = Some (labId session)\<rparr> = Inr d \<and> decision_allowed d)) \<and>
    map ae_result (snd (guard_found access rid now user session action)) = [Au_Allowed]"
  using assms
  by (auto simp: guard_found_def Let_def decision_audit_def split: option.splits sum.splits if_splits Decision.splits
      elim: allowed.elims)

lemma guard_Granted:
  assumes "fst (guard access lookup rid now requester param action) = Granted u s"
  shows "\<exists>sid. sid = (case param of None \<Rightarrow> [] | Some x \<Rightarrow> x) \<and> requester = Some u \<and> lookup sid = Inr s \<and>
    guard access lookup rid now requester param action = guard_found access rid now u s action"
proof -
  from assms obtain user where user: "requester = Some user" by (auto simp: guard_def split: option.splits)
  let ?sid = "case param of None \<Rightarrow> [] | Some x \<Rightarrow> x"
  from assms user obtain session where found: "lookup ?sid = Inr session"
    by (auto simp: guard_def Let_def split: sum.splits if_splits)
  then have eq: "guard access lookup rid now requester param action = guard_found access rid now user session action"
    using user by (simp add: guard_def)
  with assms guard_found_Granted [of access rid now user session action u s] user found show ?thesis by auto
qed

lemma decide_allowed_active:
  assumes "ac_policy ac = Policy_Entitlement" "decision_allowed (decide ac trackOfLab grants now lab)"
  shows "(\<forall>g\<in>set grants. e_status g \<noteq> E_SUSPENDED) \<and>
    (\<exists>g\<in>set grants. e_status g = E_ACTIVE \<and> e_startsAt g \<le> now \<and> (case e_expiresAt g of None \<Rightarrow> True | Some t \<Rightarrow> now < t))"
proof -
  obtain state active effective where ev: "evaluateAccount grants now = (state, active, effective)"
    by (cases "evaluateAccount grants now") auto
  with assms have "evaluateAccount grants now = (state, True, effective)" by (auto simp: decide_def split: if_splits)
  from evaluateAccount_active [OF this] show ?thesis unfolding evaluateAccess_active by blast
qed

text \<open>
  C25. A session route is entered only by right: when the guard, put together with the
  session manager and the access decision as the API puts them together, lets a request
  act on a lab session, then the request was authenticated, the session is the one the
  store holds under the id asked for, and the caller owns it, or is an instructor reading
  or an administrator reading or ending a session that has an owner. Every action that
  uses the lab is moreover the owner's, on lab access that is not suspended and has an
  active row whose window is open now. One audit line, \<open>allowed\<close>, was written.
\<close>

theorem guard_grants_only_by_right:
  assumes "action \<in> set OWNED_ACTIONS" "ac_policy ac = Policy_Entitlement"
    and "guard (Some (access_of ac trackOfLab ast now)) (lookup_session env st pr) rid now requester (Some sid) action
      = (Granted u s, audit)"
  shows "requester = Some u \<and> store_get st sid = Some s \<and>
    (ownerUserId s = Some (au_userId u) \<or>
     ownerUserId s \<noteq> None \<and> (au_role u = INSTRUCTOR \<and> action = Session_Read \<or>
                              au_role u = ADMIN \<and> action \<in> {Session_Read, Session_End})) \<and>
    (requiresLabAccess (action_name action) \<longrightarrow>
       ownerUserId s = Some (au_userId u) \<and>
       (\<forall>g\<in>set (grantsOf ast (au_userId u)). e_status g \<noteq> E_SUSPENDED) \<and>
       (\<exists>g\<in>set (grantsOf ast (au_userId u)). e_status g = E_ACTIVE \<and> e_startsAt g \<le> now \<and>
          (case e_expiresAt g of None \<Rightarrow> True | Some t \<Rightarrow> now < t))) \<and>
    map ae_result audit = [Au_Allowed]"
proof -
  have found: "requester = Some u" "lookup_session env st pr sid = Inr s"
    "guard_found (Some (access_of ac trackOfLab ast now)) rid now u s action = (Granted u s, audit)"
    using guard_Granted [of "Some (access_of ac trackOfLab ast now)" "lookup_session env st pr" rid now requester "Some sid" action u s]
      assms(3) by auto
  have grant: "allowed (authorize u action (Some \<lparr>ss_sessionId = sessionId s, ss_ownerUserId = ownerUserId s\<rparr>))"
    and lab: "requiresLabAccess (action_name action) \<Longrightarrow>
      decision_allowed (decide ac trackOfLab (grantsOf ast (au_userId u)) now \<lparr>lc_track = None, lc_labId = Some (labId s)\<rparr>)"
    and line: "map ae_result audit = [Au_Allowed]"
    using guard_found_Granted [of "Some (access_of ac trackOfLab ast now)" rid now u s action u s] found(3)
    by (auto simp: access_of_def)
  then have right: "ownerUserId s = Some (au_userId u) \<or>
      ownerUserId s \<noteq> None \<and> action \<in> set (CROSS_USER_SESSION_ACTIONS (au_role u))"
    by (auto simp: authorize_session [OF assms(1)] truthy_Some split: option.splits if_splits)
  moreover have "action \<in> set (CROSS_USER_SESSION_ACTIONS (au_role u)) \<Longrightarrow>
      au_role u = INSTRUCTOR \<and> action = Session_Read \<or> au_role u = ADMIN \<and> action \<in> {Session_Read, Session_End}"
    by (cases "au_role u") auto
  ultimately show ?thesis
    using found(1) lookup_session_Inr [OF found(2)] line lab_use_is_not_cross_user [of action "au_role u"]
      decide_allowed_active [OF assms(2) lab] by blast
qed

definition demo_student :: AuthenticatedUser where
  "demo_student = \<lparr>au_userId = ''usr-00000001'', au_issuer = ''i'', au_subject = ''ada'', au_email = None,
     au_displayName = None, au_role = STUDENT, au_source = Src_Oidc\<rparr>"

definition demo_session :: LabSession where
  "demo_session = \<lparr>sessionId = ''sess-1234567'', labId = ''LINUX-001'', provider = Linux, sandboxKind = Container,
     sandboxRef = ''r'', namespace = ''n'', serviceAccountName = ''a'', status = ACTIVE, environmentId = ''e'',
     createdAt = 0, lastActivityAt = 0, statusChangedAt = 0, expiresAt = 900, endedAt = None, statusReason = None,
     ownerUserId = Some ''usr-00000001'', shellUid = None, idleTimeoutSeconds = 60, idleWarningSeconds = 30\<rparr>"

definition demo_sessions :: InMemorySessionStore where
  "demo_sessions = \<lparr>bySessionId = [(''sess-1234567'', demo_session)], nextShellUid = 1900000000\<rparr>"

definition demo_process :: process where
  "demo_process = \<lparr>startsInFlight = [], resetsInFlight = [], stopping = False, sweeping = False, lostLastSweep = []\<rparr>"

definition demo_access_store :: access_store where
  "demo_access_store = \<lparr>as_rows = [(access_key ''usr-00000001'' Via_Billing, demo_grant)], as_events = [], nextEvent = 0\<rparr>"

lemma demo_lookup:
  "lookup_session env demo_sessions pr ''sess-1234567'' = Inr demo_session"
  "lookup_session env (new_store None) pr ''sess-1234567'' = Inl (SessionError SESSION_NOT_FOUND
      ''That lab session does not exist, or it has already been cleaned up.''
      (Some ''Start the lab again to get a fresh environment.'') No_Details)"
proof -
  have "assertValidSessionId (UString ''sess-1234567'') = Inr ''sess-1234567''" by code_simp
  then show "lookup_session env demo_sessions pr ''sess-1234567'' = Inr demo_session"
    "lookup_session env (new_store None) pr ''sess-1234567'' = Inl (SessionError SESSION_NOT_FOUND
      ''That lab session does not exist, or it has already been cleaned up.''
      (Some ''Start the lab again to get a fresh environment.'') No_Details)"
    by (simp_all add: lookup_session_eq demo_sessions_def store_get_def new_store_def)
qed

theorem guard_grants_only_by_right_witness:
  "fst (guard (Some (access_of demo_control (\<lambda>_. Some ''linux'') demo_access_store 500))
      (lookup_session (\<lambda>_. R_Unit) demo_sessions demo_process) ''rid'' 500 (Some demo_student) (Some ''sess-1234567'') Session_Terminal)
     = Granted demo_student demo_session \<and>
   ownerUserId demo_session = Some (au_userId demo_student)"
proof -
  let ?gate = "access_of demo_control (\<lambda>_. Some ''linux'') demo_access_store 500"
  let ?look = "lookup_session (\<lambda>_. R_Unit) demo_sessions demo_process"
  have "fst (guard_found (Some ?gate) ''rid'' 500 demo_student demo_session Session_Terminal) =
      Granted demo_student demo_session"
    by code_simp
  moreover have "guard (Some ?gate) ?look ''rid'' 500 (Some demo_student) (Some ''sess-1234567'') Session_Terminal =
      guard_found (Some ?gate) ''rid'' 500 demo_student demo_session Session_Terminal"
    by (simp add: guard_def demo_lookup)
  ultimately obtain audit where g: "guard (Some ?gate) ?look ''rid'' 500 (Some demo_student) (Some ''sess-1234567'')
      Session_Terminal = (Granted demo_student demo_session, audit)"
    by (metis prod.collapse)
  have "ac_policy demo_control = Policy_Entitlement" by (simp add: demo_control_def)
  from guard_grants_only_by_right [OF _ this g] g show ?thesis
    by (simp add: OWNED_ACTIONS_def requiresLabAccess_def LAB_USE_ACTIONS_def)
qed

text \<open>
  C26. Knowing a session id reveals nothing: for a caller whose role gives no say over
  other people's sessions, the answer about a well-formed id is the same 404 whether the
  session does not exist, belongs to somebody else, or has no owner, in whatever two states
  the store is, so the answers cannot be used to find out which ids are real.
\<close>

theorem guard_hides_other_sessions:
  assumes "action \<in> set OWNED_ACTIONS" "action \<notin> set (CROSS_USER_SESSION_ACTIONS (au_role u))"
    and "isValidSessionId (UString sid)"
    and "\<forall>s. store_get st sid = Some s \<longrightarrow> ownerUserId s \<noteq> Some (au_userId u)"
    and "\<forall>s. store_get st' sid = Some s \<longrightarrow> ownerUserId s \<noteq> Some (au_userId u)"
  shows "fst (guard access (lookup_session env st pr) rid now (Some u) (Some sid) action) = Replied no_such_session \<and>
    fst (guard access (lookup_session env st' pr) rid now (Some u) (Some sid) action) =
    fst (guard access (lookup_session env st pr) rid now (Some u) (Some sid) action)"
proof -
  have sid: "assertValidSessionId (UString sid) = Inr sid"
    using assms(3) by (auto simp: isValidSessionId_def assertValidSessionId_def split: if_splits)
  have "fst (guard access (lookup_session env st pr) rid now (Some u) (Some sid) action) = Replied no_such_session"
    if hidden: "\<forall>s. store_get st sid = Some s \<longrightarrow> ownerUserId s \<noteq> Some (au_userId u)" for st
  proof (cases "store_get st sid")
    case None
    then show ?thesis by (simp add: guard_def lookup_session_eq sid Let_def)
  next
    case (Some s)
    then have "\<not> allowed (authorize u action (Some \<lparr>ss_sessionId = sessionId s, ss_ownerUserId = ownerUserId s\<rparr>))"
      using hidden assms(2)
      by (auto simp: authorize_session [OF assms(1)] truthy_Some split: option.splits)
    then show ?thesis
      using Some by (simp add: guard_def lookup_session_eq sid guard_found_def Let_def split: option.split)
  qed
  with assms(4,5) show ?thesis by simp
qed

theorem guard_hides_other_sessions_witness:
  "fst (guard None (lookup_session (\<lambda>_. R_Unit) demo_sessions demo_process) ''rid'' 500
      (Some (demo_student\<lparr>au_userId := ''usr-00000002''\<rparr>)) (Some ''sess-1234567'') Session_End) =
   fst (guard None (lookup_session (\<lambda>_. R_Unit) (new_store None) demo_process) ''rid'' 500
      (Some (demo_student\<lparr>au_userId := ''usr-00000002''\<rparr>)) (Some ''sess-1234567'') Session_End)"
proof -
  have "isValidSessionId (UString ''sess-1234567'')" by code_simp
  from guard_hides_other_sessions [of Session_End "demo_student\<lparr>au_userId := ''usr-00000002''\<rparr>", OF _ _ this,
      of demo_sessions "new_store None"]
  show ?thesis
    by (simp add: OWNED_ACTIONS_def demo_student_def demo_sessions_def demo_session_def store_get_def new_store_def)
qed

section \<open>The cookie decides alone\<close>

text \<open>
  C27. A cookie that is present decides, whatever else the request carries: once the browser
  session cookie is there, the outcome and the state left behind are the same for every
  \<open>Authorization\<close> header and every header resolver; the caller is let through only as the
  user named by the server-side record the cookie resolves to, under that record's id; and
  a cookie that resolves to nothing, or to an account that is gone, is answered 401, with
  one audit line and nobody signed in.
\<close>

theorem cookie_decides_alone:
  assumes "cookieFrom (bs_cookieName b) (rq_cookie req) = Some c" "bs_resolve b c s = (answer, s')"
  shows "authenticate resolver (Some b) req now s =
      authenticate resolver' (Some b) (req\<lparr>rq_authorization := header\<rparr>) now s \<and>
    snd (authenticate resolver (Some b) req now s) = s' \<and>
    (\<forall>u asid. ao_verdict (fst (authenticate resolver (Some b) req now s)) = Proceed u asid \<longleftrightarrow>
       (\<exists>record. answer = Inr (Some record) \<and> bs_findById b (as_userId record) s' = Inr (Some u) \<and>
          asid = Some (as_authSessionId record))) \<and>
    (answer = Inr None \<or> (\<exists>record. answer = Inr (Some record) \<and> bs_findById b (as_userId record) s' = Inr None) \<longrightarrow>
       (\<exists>reply. ao_verdict (fst (authenticate resolver (Some b) req now s)) = Refuse reply \<and> rp_status reply = 401) \<and>
       map ae_result (ao_audit (fst (authenticate resolver (Some b) req now s))) = [Au_Unauthenticated])"
proof -
  have "truthy_text (rq_cookie req) \<noteq> None"
    using assms(1) by (auto simp: cookieFrom_def parseCookies_def truthy_text_def split: option.splits if_splits)
  then have source: "credential_source req = ''cookie''"
    "credential_source (req\<lparr>rq_authorization := header\<rparr>) = ''cookie''"
    by (simp_all add: credential_source_def)
  have line: "unauthenticated_line (req\<lparr>rq_authorization := header\<rparr>) now = unauthenticated_line req now"
    by (simp add: unauthenticated_line_def)
  have same: "authenticate resolver (Some b) req now s =
      authenticate resolver' (Some b) (req\<lparr>rq_authorization := header\<rparr>) now s"
    using assms by (auto simp: authenticate_def authenticateSession_def source line Let_def split: sum.split option.split)
  have "snd (authenticate resolver (Some b) req now s) = s'"
    and "ao_verdict (fst (authenticate resolver (Some b) req now s)) = Proceed u asid \<longleftrightarrow>
       (\<exists>record. answer = Inr (Some record) \<and> bs_findById b (as_userId record) s' = Inr (Some u) \<and>
          asid = Some (as_authSessionId record))" for u asid
    using assms by (auto simp: authenticate_def authenticateSession_def Let_def split: sum.split option.split)
  moreover have "\<exists>reply. ao_verdict (fst (authenticate resolver (Some b) req now s)) = Refuse reply \<and> rp_status reply = 401"
    "map ae_result (ao_audit (fst (authenticate resolver (Some b) req now s))) = [Au_Unauthenticated]"
    if "answer = Inr None \<or> (\<exists>record. answer = Inr (Some record) \<and> bs_findById b (as_userId record) s' = Inr None)"
    using assms that
    by (auto simp: authenticate_def authenticateSession_def Let_def auth_error_def sendError_def unauthenticated_line_def)
  ultimately show ?thesis using same by blast
qed

text \<open>The authenticator on the in-memory stores.\<close>

record auth_world =
  aw_sessions :: AuthMap
  aw_users :: UserRepo

definition mem_browser :: "(string \<Rightarrow> string) \<Rightarrow> string \<Rightarrow> int \<Rightarrow> auth_world BrowserSessionAuthenticator" where
  "mem_browser hash cookieName now =
     \<lparr>bs_cookieName = cookieName,
      bs_resolve = (\<lambda>c w. case mem_resolve hash c now (aw_sessions w) of (r, st) \<Rightarrow> (Inr r, w\<lparr>aw_sessions := st\<rparr>)),
      bs_findById = (\<lambda>i w. Inr (mem_findById i (aw_users w)))\<rparr>"

definition demo_request :: auth_request where
  "demo_request = \<lparr>rq_method = ''GET'', rq_path = ''/x'', rq_cookie = Some ''s=cookie-of-student-1'',
     rq_authorization = Some ''Developer ada'', rq_requestId = ''rid''\<rparr>"

theorem cookie_decides_alone_witness:
  "\<exists>reply. ao_verdict (fst (authenticate (development_resolve ''dev-student'' (\<lambda>c w. case mem_upsert Src_Development c (aw_users w)
        of (u, r) \<Rightarrow> (Inr u, w\<lparr>aw_users := r\<rparr>))) (Some (mem_browser demo_hash ''s'' 7)) demo_request 7
        \<lparr>aw_sessions = [], aw_users = empty_users\<rparr>)) = Refuse reply \<and> rp_status reply = 401"
proof -
  let ?w = "\<lparr>aw_sessions = [], aw_users = empty_users\<rparr>"
  have "cookieFrom (bs_cookieName (mem_browser demo_hash ''s'' 7)) (rq_cookie demo_request) = Some ''cookie-of-student-1''"
    by code_simp
  moreover have "bs_resolve (mem_browser demo_hash ''s'' 7) ''cookie-of-student-1'' ?w = (Inr None, ?w)"
    by code_simp
  ultimately show ?thesis by (rule cookie_decides_alone [THEN conjunct2, THEN conjunct2, THEN conjunct2, THEN mp, THEN conjunct1]) simp
qed

end
