(* ===== verification/Auth_Oidc.thy ===== *)
theory Auth_Oidc
  imports Auth_Guard
begin

text \<open>
  The API as an OpenID Connect client and its start-up gate: \<open>auth/discovery.ts\<close>,
  \<open>auth/oidc-client.ts\<close>, \<open>auth/oidc.ts\<close>, \<open>auth/browser-sign-in.ts\<close> and
  \<open>auth/production-auth.ts\<close>. The network, the URL parser and serializer of the platform, the
  random texts, SHA-256 and the token library's \<open>jwtVerify\<close> are arguments. A fetch gives no
  answer, or a status with a body that is JSON, is not JSON, or was cut off by the timeout.
  The key-set bookkeeping that only feeds a metric is not modelled. In messages a dash or
  section sign outside ASCII is written \<open>-\<close> or left out.
\<close>

section \<open>URLs and the network\<close>

record url =
  u_protocol :: string
  u_username :: string
  u_password :: string
  u_hostname :: string
  u_pathname :: string
  u_search :: string
  u_hash :: string
  u_origin :: string
  u_href :: string

record url_platform =
  new_URL :: "string \<Rightarrow> url option"
  resolve_URL :: "string \<Rightarrow> string \<Rightarrow> string"
  with_query :: "string \<Rightarrow> (string \<times> string) list \<Rightarrow> string"

datatype fetched_body = Body_Json json | Body_Not_Json | Body_Aborted
datatype fetched = No_Answer | Http int fetched_body

definition reply_field :: "json \<Rightarrow> string \<Rightarrow> json option" where
  "reply_field v k = (case v of JObject fs \<Rightarrow> map_of fs k | _ \<Rightarrow> None)"

definition ensureTrailingSlash :: "string \<Rightarrow> string" where
  "ensureTrailingSlash s = (if s \<noteq> [] \<and> last s = CHR ''/'' then s else s @ ''/'')"

definition misconfigured :: "string \<Rightarrow> auth_failure" where
  "misconfigured m = auth_error AUTH_MISCONFIGURED m None"

definition provider_unavailable :: "string \<Rightarrow> auth_failure" where
  "provider_unavailable m = auth_error AUTH_PROVIDER_UNAVAILABLE m None"

definition apostrophe_s :: string where
  "apostrophe_s = [CHR 0x27] @ ''s ''"

section \<open>Discovery\<close>

definition assertProviderEndpoint :: "url_platform \<Rightarrow> json option \<Rightarrow> string \<Rightarrow> string \<Rightarrow> auth_failure + string" where
  "assertProviderEndpoint up v field issuer = (case v of
       Some (JString s) \<Rightarrow>
         if length s = 0 then Inl (misconfigured (''The identity provider published no '' @ field @ ''.''))
         else (case new_URL up s of
             None \<Rightarrow> Inl (misconfigured (''The identity provider published an unusable '' @ field @ ''.''))
           | Some u \<Rightarrow>
               if u_protocol u \<noteq> ''https:'' \<and> u_protocol u \<noteq> ''http:''
               then Inl (misconfigured (''The identity provider'' @ apostrophe_s @ field @ '' is not an HTTP URL.''))
               else if u_protocol u = ''http:'' \<and> starts_with ''https:'' issuer
               then Inl (misconfigured (''The identity provider'' @ apostrophe_s @ field @ '' is plain http: under an https: issuer.''))
               else if u_username u \<noteq> [] \<or> u_password u \<noteq> []
               then Inl (misconfigured (''The identity provider'' @ apostrophe_s @ field @ '' carries credentials.''))
               else Inr (u_href u))
     | _ \<Rightarrow> Inl (misconfigured (''The identity provider published no '' @ field @ ''.'')))"

definition discovery_url :: "url_platform \<Rightarrow> string \<Rightarrow> string" where
  "discovery_url up issuer = resolve_URL up ''.well-known/openid-configuration'' (ensureTrailingSlash issuer)"

definition is_object :: "json \<Rightarrow> bool" where
  "is_object v = (case v of JObject _ \<Rightarrow> True | JArray _ \<Rightarrow> True | _ \<Rightarrow> False)"

definition fetchDiscoveryDocument ::
    "url_platform \<Rightarrow> (string \<Rightarrow> fetched) \<Rightarrow> string \<Rightarrow> auth_failure + json" where
  "fetchDiscoveryDocument up fetch issuer = (case fetch (discovery_url up issuer) of
       No_Answer \<Rightarrow> Inl (provider_unavailable ''Could not reach the identity provider for discovery.'')
     | Http statusCode body \<Rightarrow>
         if \<not> (200 \<le> statusCode \<and> statusCode \<le> 299)
         then Inl (if statusCode \<ge> 500
                   then provider_unavailable (''The identity provider answered discovery with HTTP '' @ show_int statusCode @ ''.'')
                   else misconfigured ''The identity provider refused the discovery request.'')
         else (case body of
             Body_Aborted \<Rightarrow>
               Inl (provider_unavailable ''The identity provider did not finish sending its discovery document in time.'')
           | Body_Not_Json \<Rightarrow>
               Inl (misconfigured (''The identity provider'' @ apostrophe_s @ ''discovery document was not JSON.''))
           | Body_Json document \<Rightarrow>
               if \<not> is_object document
               then Inl (misconfigured (''The identity provider'' @ apostrophe_s @ ''discovery document was not an object.''))
               else if reply_field document ''issuer'' \<noteq> Some (JString issuer)
               then Inl (auth_error AUTH_MISCONFIGURED
                      ''The identity provider published an issuer that does not match OIDC_ISSUER.''
                      (Some ''Set OIDC_ISSUER to exactly the `issuer` value in the provider discovery document, trailing slash included.''))
               else Inr document))"

section \<open>The browser client\<close>

record OidcProviderMetadata =
  pm_issuer :: string
  pm_authorizationEndpoint :: string
  pm_tokenEndpoint :: string
  pm_jwksUri :: "string option"
  pm_endSessionEndpoint :: "string option"

record OidcClientConfig =
  oc_issuer :: string
  oc_clientId :: string
  oc_clientSecret :: string
  oc_redirectUri :: string
  oc_scopes :: "string list"
  oc_metadata :: "OidcProviderMetadata option"

record AuthorizationRequest =
  ar_url :: string
  ar_state :: string
  ar_nonce :: string
  ar_codeVerifier :: string

record TokenResponse =
  tr_idToken :: string
  tr_accessToken :: "string option"
  tr_tokenType :: "string option"
  tr_expiresIn :: "string option"

text \<open>\<open>sha256\<close> with base64url: the hash behind \<open>S256\<close>.\<close>

definition codeChallengeFor :: "(string \<Rightarrow> string) \<Rightarrow> string \<Rightarrow> string" where
  "codeChallengeFor sha256_base64url verifier = sha256_base64url verifier"

definition safeEquals :: "unknown_value \<Rightarrow> unknown_value \<Rightarrow> bool" where
  "safeEquals a b = (case (a, b) of (UString x, UString y) \<Rightarrow> x = y | _ \<Rightarrow> False)"

definition opt_unknown :: "string option \<Rightarrow> unknown_value" where
  "opt_unknown x = (case x of None \<Rightarrow> UOther ''undefined'' | Some s \<Rightarrow> UString s)"

text \<open>The constructor refuses an incomplete configuration.\<close>

definition newOidcBrowserClient :: "OidcClientConfig \<Rightarrow> auth_failure + OidcClientConfig" where
  "newOidcBrowserClient config =
     (if oc_issuer config = [] \<or> oc_clientId config = [] \<or> oc_clientSecret config = []
      then Inl (auth_error AUTH_MISCONFIGURED
             ''The browser sign-in flow needs OIDC_ISSUER, OIDC_CLIENT_ID and OIDC_CLIENT_SECRET.''
             (Some ''Set them in the API environment. OIDC_CLIENT_SECRET must never be given to the frontend.''))
      else if oc_redirectUri config = []
      then Inl (auth_error AUTH_MISCONFIGURED ''The browser sign-in flow needs a redirect URI.''
             (Some ''Set PUBLIC_ORIGIN or OIDC_REDIRECT_URI.''))
      else Inr config)"

definition optional_endpoint ::
    "url_platform \<Rightarrow> json option \<Rightarrow> string \<Rightarrow> string \<Rightarrow> auth_failure + string option" where
  "optional_endpoint up v field issuer = (case v of
       Some (JString s) \<Rightarrow> and_then (assertProviderEndpoint up (Some (JString s)) field issuer) (\<lambda>u. Inr (Some u))
     | _ \<Rightarrow> Inr None)"

text \<open>The metadata, and the client with its cache; a failure leaves the cache empty.\<close>

definition client_metadata ::
    "url_platform \<Rightarrow> (string \<Rightarrow> fetched) \<Rightarrow> OidcClientConfig \<Rightarrow> (auth_failure + OidcProviderMetadata) \<times> OidcClientConfig" where
  "client_metadata up fetch client = (case oc_metadata client of
       Some meta \<Rightarrow> (Inr meta, client)
     | None \<Rightarrow>
         let issuer = oc_issuer client;
             resolved = and_then (fetchDiscoveryDocument up fetch issuer) (\<lambda>document.
               and_then (assertProviderEndpoint up (reply_field document ''authorization_endpoint'') ''authorization endpoint'' issuer) (\<lambda>a.
               and_then (assertProviderEndpoint up (reply_field document ''token_endpoint'') ''token endpoint'' issuer) (\<lambda>t.
               and_then (optional_endpoint up (reply_field document ''jwks_uri'') ''JWKS URI'' issuer) (\<lambda>j.
               and_then (optional_endpoint up (reply_field document ''end_session_endpoint'') ''end session endpoint'' issuer) (\<lambda>e.
               Inr \<lparr>pm_issuer = issuer, pm_authorizationEndpoint = a, pm_tokenEndpoint = t, pm_jwksUri = j,
                    pm_endSessionEndpoint = e\<rparr>)))))
         in (resolved, case resolved of Inl _ \<Rightarrow> client | Inr meta \<Rightarrow> client\<lparr>oc_metadata := Some meta\<rparr>))"

record sign_in_randoms =
  sr_state :: string
  sr_nonce :: string
  sr_codeVerifier :: string

definition authorizationRequest ::
    "url_platform \<Rightarrow> (string \<Rightarrow> fetched) \<Rightarrow> (string \<Rightarrow> string) \<Rightarrow> sign_in_randoms \<Rightarrow> OidcClientConfig \<Rightarrow>
      (auth_failure + AuthorizationRequest) \<times> OidcClientConfig" where
  "authorizationRequest up fetch sha256_base64url random client =
     (case client_metadata up fetch client of (resolved, client') \<Rightarrow>
        (and_then resolved (\<lambda>meta.
           Inr \<lparr>ar_url = with_query up (pm_authorizationEndpoint meta)
                  [(''response_type'', ''code''), (''client_id'', oc_clientId client),
                   (''redirect_uri'', oc_redirectUri client), (''scope'', join_with '' '' (oc_scopes client)),
                   (''state'', sr_state random), (''nonce'', sr_nonce random),
                   (''code_challenge'', codeChallengeFor sha256_base64url (sr_codeVerifier random)),
                   (''code_challenge_method'', ''S256'')],
                ar_state = sr_state random, ar_nonce = sr_nonce random, ar_codeVerifier = sr_codeVerifier random\<rparr>),
         client'))"

definition fetch_json :: "fetched \<Rightarrow> string \<Rightarrow> auth_failure + json" where
  "fetch_json answer what = (case answer of
       No_Answer \<Rightarrow> Inl (provider_unavailable (''Could not reach the identity provider to '' @ what @ ''.''))
     | Http statusCode body \<Rightarrow>
         if statusCode \<ge> 500
         then Inl (provider_unavailable (''The identity provider failed (HTTP '' @ show_int statusCode @ '') to '' @ what @ ''.''))
         else if \<not> (200 \<le> statusCode \<and> statusCode \<le> 299)
         then Inl (auth_error AUTH_INVALID_TOKEN (''The identity provider refused to '' @ what @ ''.'') None)
         else (case body of
             Body_Json v \<Rightarrow> Inr v
           | Body_Aborted \<Rightarrow>
               Inl (provider_unavailable (''The identity provider did not finish replying in time to '' @ what @ ''.''))
           | Body_Not_Json \<Rightarrow>
               Inl (misconfigured (''The identity provider'' @ apostrophe_s @ ''response to '' @ what @ '' was not JSON.''))))"

definition reply_text :: "json \<Rightarrow> string \<Rightarrow> string option" where
  "reply_text v k = (case reply_field v k of Some (JString s) \<Rightarrow> Some s | _ \<Rightarrow> None)"

text \<open>\<open>post url form\<close> is the token endpoint's answer; a redirect is no answer (\<open>redirect: 'error'\<close>).\<close>

definition exchangeCode ::
    "url_platform \<Rightarrow> (string \<Rightarrow> fetched) \<Rightarrow> (string \<Rightarrow> (string \<times> string) list \<Rightarrow> fetched) \<Rightarrow> string \<Rightarrow> string \<Rightarrow>
      OidcClientConfig \<Rightarrow> (auth_failure + TokenResponse) \<times> OidcClientConfig" where
  "exchangeCode up fetch post code codeVerifier client =
     (case client_metadata up fetch client of (resolved, client') \<Rightarrow>
        (and_then resolved (\<lambda>meta.
         and_then (fetch_json (post (pm_tokenEndpoint meta)
             [(''grant_type'', ''authorization_code''), (''code'', code), (''redirect_uri'', oc_redirectUri client),
              (''client_id'', oc_clientId client), (''client_secret'', oc_clientSecret client),
              (''code_verifier'', codeVerifier)]) ''exchange the authorization code'') (\<lambda>payload.
         if payload = JNull then Inl (Platform_Failure ''TypeError'')
         else case reply_text payload ''id_token'' of
           Some (c # cs) \<Rightarrow> Inr \<lparr>tr_idToken = c # cs, tr_accessToken = reply_text payload ''access_token'',
             tr_tokenType = reply_text payload ''token_type'',
             tr_expiresIn = (case reply_field payload ''expires_in'' of Some (JNumber n) \<Rightarrow> Some n | _ \<Rightarrow> None)\<rparr>
         | _ \<Rightarrow> Inl (auth_error AUTH_INVALID_TOKEN ''The identity provider returned no ID token.''
             (Some ''Check that the OIDC client is configured for the `openid` scope.'')))), client'))"

definition endSessionUrl ::
    "url_platform \<Rightarrow> (string \<Rightarrow> fetched) \<Rightarrow> string option \<Rightarrow> OidcClientConfig \<Rightarrow>
      (auth_failure + string option) \<times> OidcClientConfig" where
  "endSessionUrl up fetch postLogoutRedirectUri client =
     (case client_metadata up fetch client of (resolved, client') \<Rightarrow>
        (and_then resolved (\<lambda>meta.
           Inr (map_option (\<lambda>endpoint. with_query up endpoint
                  ((''client_id'', oc_clientId client) #
                   (case truthy_text postLogoutRedirectUri of None \<Rightarrow> [] | Some u \<Rightarrow> [(''post_logout_redirect_uri'', u)])))
                (truthy_text (pm_endSessionEndpoint meta)))), client'))"

definition assertNonceMatches :: "string option \<Rightarrow> string \<Rightarrow> auth_failure + unit" where
  "assertNonceMatches claimNonce expected =
     unless (safeEquals (opt_unknown claimNonce) (UString expected))
       (auth_error AUTH_INVALID_TOKEN ''The credentials supplied are not valid.'' (Some ''Start sign-in again.''))"

section \<open>The token verifier\<close>

definition ACCEPTED_SIGNING_ALGORITHMS :: "string list" where
  "ACCEPTED_SIGNING_ALGORITHMS = [''RS256'', ''RS384'', ''RS512'', ''PS256'', ''PS384'', ''PS512'',
     ''ES256'', ''ES384'', ''ES512'', ''EdDSA'', ''Ed25519'']"

record OidcConfig =
  ov_issuer :: string
  ov_audience :: string
  ov_jwksUri :: "string option"
  ov_clockToleranceSeconds :: "int option"
  ov_requiredClaims :: "string list"
  ov_authorizedParty :: "string option"

record verify_options =
  vo_issuer :: string
  vo_audience :: string
  vo_algorithms :: "string list"
  vo_requiredClaims :: "string list"
  vo_clockTolerance :: int

text \<open>What the token library does with a token and the keys: the code of its error, or the payload.\<close>

type_synonym 'k jwt_verify = "'k \<Rightarrow> verify_options \<Rightarrow> string \<Rightarrow> string + (string \<times> json) list"

definition claimString :: "(string \<times> json) list \<Rightarrow> string \<Rightarrow> string option" where
  "claimString payload name = (case map_of payload name of Some (JString s) \<Rightarrow> truthy_text (Some s) | _ \<Rightarrow> None)"

definition asAuthError :: "string \<Rightarrow> auth_failure" where
  "asAuthError code =
     (if code = ''ERR_JWT_EXPIRED'' then auth_error AUTH_EXPIRED ''Your session has expired.'' (Some ''Sign in again.'')
      else auth_error AUTH_INVALID_TOKEN ''The credentials supplied are not valid.'' None)"

definition newOidcTokenVerifier :: "OidcConfig \<Rightarrow> auth_failure + OidcConfig" where
  "newOidcTokenVerifier config =
     (if ov_issuer config = [] \<or> ov_audience config = []
      then Inl (misconfigured ''OIDC requires both an issuer and an audience.'') else Inr config)"

definition options_of :: "OidcConfig \<Rightarrow> verify_options" where
  "options_of config = \<lparr>vo_issuer = ov_issuer config, vo_audience = ov_audience config,
     vo_algorithms = ACCEPTED_SIGNING_ALGORITHMS, vo_requiredClaims = ''exp'' # ov_requiredClaims config,
     vo_clockTolerance = (case ov_clockToleranceSeconds config of None \<Rightarrow> 5 | Some t \<Rightarrow> t)\<rparr>"

definition azp_refused :: "string \<Rightarrow> (string \<times> json) list \<Rightarrow> bool" where
  "azp_refused party payload \<longleftrightarrow>
     (let several = (case map_of payload ''aud'' of Some (JArray l) \<Rightarrow> length l > 1 | _ \<Rightarrow> False);
          azp = map_of payload ''azp''
      in several \<and> azp = None \<or> azp \<noteq> None \<and> azp \<noteq> Some (JString party))"

definition oidc_verify :: "OidcConfig \<Rightarrow> auth_failure + 'k \<Rightarrow> 'k jwt_verify \<Rightarrow> string \<Rightarrow> auth_failure + VerifiedClaims" where
  "oidc_verify config keySet jwtVerify token = (case keySet of
       Inl e \<Rightarrow> Inl e
     | Inr keys \<Rightarrow> (case jwtVerify keys (options_of config) token of
         Inl code \<Rightarrow> Inl (asAuthError code)
       | Inr payload \<Rightarrow>
           if (case ov_authorizedParty config of None \<Rightarrow> False | Some party \<Rightarrow> azp_refused party payload)
           then Inl (auth_error AUTH_INVALID_TOKEN ''The credentials supplied are not valid.'' None)
           else (case map_of payload ''sub'' of
               Some (JString (c # cs)) \<Rightarrow>
                 Inr \<lparr>vc_issuer = (case map_of payload ''iss'' of Some (JString i) \<Rightarrow> i | _ \<Rightarrow> ov_issuer config),
                      vc_subject = c # cs, vc_email = claimString payload ''email'',
                      vc_displayName = claimString payload ''name'', vc_nonce = claimString payload ''nonce''\<rparr>
             | _ \<Rightarrow> Inl (auth_error AUTH_INVALID_TOKEN ''Token carries no subject.'' None))))"

section \<open>Browser sign-in from configuration\<close>

record oidc_settings =
  os_issuer :: string
  os_clientId :: string
  os_jwksUri :: "string option"

record browser_flow =
  bf_clientSecret :: string
  bf_redirectUri :: string
  bf_scopes :: "string list"

definition buildBrowserSignIn ::
    "oidc_settings option \<Rightarrow> browser_flow option \<Rightarrow> auth_failure + (OidcClientConfig \<times> OidcConfig) option" where
  "buildBrowserSignIn oidc flow = (case (oidc, flow) of
       (Some o', Some f) \<Rightarrow>
         and_then (newOidcBrowserClient \<lparr>oc_issuer = os_issuer o', oc_clientId = os_clientId o',
             oc_clientSecret = bf_clientSecret f, oc_redirectUri = bf_redirectUri f, oc_scopes = bf_scopes f,
             oc_metadata = None\<rparr>) (\<lambda>client.
         and_then (newOidcTokenVerifier \<lparr>ov_issuer = os_issuer o', ov_audience = os_clientId o',
             ov_jwksUri = truthy_text (os_jwksUri o'), ov_clockToleranceSeconds = None,
             ov_requiredClaims = [''iat''], ov_authorizedParty = Some (os_clientId o')\<rparr>) (\<lambda>verifier.
         Inr (Some (client, verifier))))
     | _ \<Rightarrow> Inr None)"

section \<open>The production gate\<close>

definition REQUIRED_SCOPE :: string where "REQUIRED_SCOPE = ''openid''"
definition REFUSED_SCOPES :: "string list" where "REFUSED_SCOPES = [''offline_access'']"
definition CALLBACK_PATH :: string where "CALLBACK_PATH = ''/auth/callback''"

record ProductionAuthInput =
  pa_mode :: auth_mode
  pa_issuer :: string
  pa_clientId :: string
  pa_clientSecretPresent :: bool
  pa_audience :: string
  pa_jwksUri :: string
  pa_publicOrigin :: string
  pa_redirectUri :: string
  pa_allowedOrigins :: "string list"
  pa_cookieSecure :: bool
  pa_cookieDomain :: "string option"
  pa_scopes :: "string list"
  pa_devStudentHeaderEnabled :: bool
  pa_databaseConfigured :: bool

definition bareOrigin :: "url_platform \<Rightarrow> string \<Rightarrow> string option" where
  "bareOrigin up v = (case new_URL up v of
       None \<Rightarrow> None
     | Some u \<Rightarrow>
         if u_protocol u \<noteq> ''https:'' \<and> u_protocol u \<noteq> ''http:'' then None
         else if u_username u \<noteq> [] \<or> u_password u \<noteq> [] \<or> u_search u \<noteq> [] \<or> u_hash u \<noteq> [] then None
         else if u_pathname u \<noteq> ''/'' \<and> u_pathname u \<noteq> [] then None
         else if strip_slash v \<noteq> u_origin u then None
         else Some (u_origin u))"

definition quoted :: "string \<Rightarrow> string" where
  "quoted s = [CHR 0x27] @ s @ [CHR 0x27]"

definition httpsUrlProblem :: "url_platform \<Rightarrow> string \<Rightarrow> string \<Rightarrow> string option" where
  "httpsUrlProblem up name v = (case new_URL up v of
       None \<Rightarrow> Some (name @ '' is not an absolute URL.'')
     | Some u \<Rightarrow>
         if u_protocol u \<noteq> ''https:'' then Some (name @ '' must use https: (got '' @ quoted (u_protocol u) @ '').'')
         else if u_username u \<noteq> [] \<or> u_password u \<noteq> [] then Some (name @ '' must not carry credentials.'')
         else if u_hash u \<noteq> [] then Some (name @ '' must not carry a fragment.'')
         else None)"

definition ends_with :: "string \<Rightarrow> string \<Rightarrow> bool" where
  "ends_with suffix s \<longleftrightarrow> starts_with (rev suffix) (rev s)"

definition cookieDomainMatches :: "string \<Rightarrow> string \<Rightarrow> bool" where
  "cookieDomainMatches host domain =
     (let t = trim domain; normalized = toLowerCase (if starts_with ''.'' t then tl t else t); h = toLowerCase host in
      if normalized = [] \<or> CHR ''/'' \<in> set normalized \<or> CHR '':'' \<in> set normalized then False
      else h = normalized \<or> ends_with (''.'' @ normalized) h)"

definition scopeProblems :: "string list \<Rightarrow> string list" where
  "scopeProblems scopes =
     (if REQUIRED_SCOPE \<notin> set scopes
      then [''OIDC_SCOPES must include '' @ quoted REQUIRED_SCOPE @ ''; without it the provider issues no ID token.''] else []) @
     List.map_filter (\<lambda>refused. if refused \<in> set scopes
       then Some (''OIDC_SCOPES must not include '' @ quoted refused @ '': refresh tokens are not held by this platform.'')
       else None) REFUSED_SCOPES"

definition problem_if :: "bool \<Rightarrow> string \<Rightarrow> string list" where
  "problem_if c m = (if c then [m] else [])"

definition issuer_problems :: "url_platform \<Rightarrow> string \<Rightarrow> string list" where
  "issuer_problems up issuer =
     (if issuer = [] then [''OIDC_ISSUER is not set.'']
      else (case httpsUrlProblem up ''OIDC_ISSUER'' issuer of
          Some p \<Rightarrow> [p]
        | None \<Rightarrow> problem_if (case new_URL up issuer of None \<Rightarrow> False | Some u \<Rightarrow> u_search u \<noteq> [])
            ''OIDC_ISSUER must not carry a query string.''))"

text \<open>The public origin the later checks use, and what is wrong with it.\<close>

definition public_origin :: "url_platform \<Rightarrow> string \<Rightarrow> string option \<times> string list" where
  "public_origin up configured =
     (if configured = []
      then (None, [''PUBLIC_ORIGIN is not set: production does not derive the callback and logout origin from ALLOWED_ORIGINS.''])
      else (case bareOrigin up configured of
          None \<Rightarrow> (None, [''PUBLIC_ORIGIN is not a bare origin (scheme://host[:port], nothing else).''])
        | Some origin \<Rightarrow>
            if \<not> starts_with ''https://'' origin
            then (None, [''PUBLIC_ORIGIN must use https: (got '' @ quoted origin @ '').''])
            else (Some origin, [])))"

definition redirect_problems :: "url_platform \<Rightarrow> string option \<Rightarrow> string \<Rightarrow> string list" where
  "redirect_problems up origin redirectUri = (case httpsUrlProblem up ''OIDC_REDIRECT_URI'' redirectUri of
       Some p \<Rightarrow> [p]
     | None \<Rightarrow> (case new_URL up redirectUri of
         None \<Rightarrow> []
       | Some r \<Rightarrow>
           problem_if (u_search r \<noteq> []) ''OIDC_REDIRECT_URI must not carry a query string.'' @
           (case origin of None \<Rightarrow> []
            | Some po \<Rightarrow> problem_if (u_origin r \<noteq> po)
                (''OIDC_REDIRECT_URI must be on PUBLIC_ORIGIN ('' @ po @ ''), not '' @ quoted (u_origin r) @ '': '' @
                 ''the sign-in transaction cookie is host-only, and a code delivered elsewhere is a code given away.'')) @
           problem_if (u_pathname r \<noteq> CALLBACK_PATH)
             (''OIDC_REDIRECT_URI path must be '' @ CALLBACK_PATH @ '', the only callback this API serves.'')))"

definition allowed_origin_problems :: "url_platform \<Rightarrow> string list \<Rightarrow> string list" where
  "allowed_origin_problems up origins = concat (map (\<lambda>(index, origin). case bareOrigin up origin of
       None \<Rightarrow> [''ALLOWED_ORIGINS entry '' @ show_nat (index + 1) @ '' is not a bare origin (scheme://host[:port], nothing else).'']
     | Some parsed \<Rightarrow> problem_if (\<not> starts_with ''https://'' parsed)
         (''ALLOWED_ORIGINS entry '' @ quoted origin @ '' must use https:.'')) (enumerate 0 origins))"

definition cookie_domain_problems :: "url_platform \<Rightarrow> string option \<Rightarrow> string option \<Rightarrow> string list" where
  "cookie_domain_problems up domain origin = (case (truthy_text domain, origin) of
       (Some d, Some po) \<Rightarrow>
         let host = (case new_URL up po of None \<Rightarrow> [] | Some u \<Rightarrow> u_hostname u) in
         problem_if (\<not> cookieDomainMatches host d)
           (''AUTH_COOKIE_DOMAIN '' @ quoted d @ '' does not domain-match PUBLIC_ORIGIN'' @ apostrophe_s @ ''host '' @ quoted host @ ''.'')
     | _ \<Rightarrow> [])"

definition productionAuthProblems :: "url_platform \<Rightarrow> ProductionAuthInput \<Rightarrow> string list" where
  "productionAuthProblems up input =
     (if pa_mode input \<noteq> Mode_Oidc
      then [''AUTH_MODE must be oidc: development authentication accepts any identity the caller claims.'']
      else
        let (publicOrigin, origin_problems) = public_origin up (pa_publicOrigin input) in
        issuer_problems up (pa_issuer input) @
        problem_if (pa_clientId input = []) ''OIDC_CLIENT_ID is not set.'' @
        problem_if (\<not> pa_clientSecretPresent input)
          ''OIDC_CLIENT_SECRET is not set: the API is a confidential client, and without it no student can sign in.'' @
        problem_if (pa_audience input = []) ''OIDC_AUDIENCE is not set.'' @
        (if pa_jwksUri input = [] then []
         else (case httpsUrlProblem up ''OIDC_JWKS_URI'' (pa_jwksUri input) of None \<Rightarrow> [] | Some p \<Rightarrow> [p])) @
        origin_problems @
        redirect_problems up publicOrigin (pa_redirectUri input) @
        allowed_origin_problems up (pa_allowedOrigins input) @
        (case publicOrigin of None \<Rightarrow> []
         | Some po \<Rightarrow> problem_if (\<not> list_ex (\<lambda>origin. bareOrigin up origin = Some po) (pa_allowedOrigins input))
             (''ALLOWED_ORIGINS must include PUBLIC_ORIGIN ('' @ po @ '').'')) @
        problem_if (\<not> pa_cookieSecure input)
          ''AUTH_COOKIE_SECURE must not be false: the session cookie would be sent over plain HTTP.'' @
        cookie_domain_problems up (pa_cookieDomain input) publicOrigin @
        scopeProblems (pa_scopes input) @
        problem_if (\<not> pa_databaseConfigured input)
          (''DATABASE_URL is not set: production sign-in requires durable PostgreSQL-backed sessions. '' @
           ''Without it every sign-in lives in process memory, is lost on each restart, and is invisible to a second instance.'') @
        problem_if (pa_devStudentHeaderEnabled input)
          ''DEV_STUDENT_HEADER_ENABLED must not be true: it lets a browser header choose whose progress is read.'')"

definition assertDurableStoresInProduction :: "string \<Rightarrow> bool \<Rightarrow> auth_failure + unit" where
  "assertDurableStoresInProduction nodeEnv durable = unless (trim nodeEnv \<noteq> ''production'' \<or> durable)
     (auth_error AUTH_MISCONFIGURED
       ''api refuses to start under NODE_ENV=production without a PostgreSQL database: browser sessions would be in memory.''
       (Some ''Set DATABASE_URL. See docs/authentication.md 4.2 (BETA-P0-014).''))"

definition assertProductionAuthConfig :: "url_platform \<Rightarrow> ProductionAuthInput \<Rightarrow> auth_failure + unit" where
  "assertProductionAuthConfig up input = (let problems = productionAuthProblems up input in
     unless (length problems = 0)
       (auth_error AUTH_MISCONFIGURED
         (''api refuses to start under NODE_ENV=production - authentication is not production-ready:'' @
          [CHR 0x0A] @ ''  - '' @ join_with ([CHR 0x0A] @ ''  - '') problems)
         (Some ''See docs/authentication.md 4 (BETA-P0-014).'')))"

section \<open>What passes\<close>

lemma problem_if_Nil [simp]: "problem_if c m = [] \<longleftrightarrow> \<not> c"
  by (simp add: problem_if_def)

lemma httpsUrlProblem_None:
  "httpsUrlProblem up name v = None \<longleftrightarrow> (\<exists>u. new_URL up v = Some u \<and> u_protocol u = ''https:'' \<and>
     u_username u = [] \<and> u_password u = [] \<and> u_hash u = [])"
  by (auto simp: httpsUrlProblem_def split: option.splits)

text \<open>
  What a safe production configuration is, in terms of the parsed URLs: an https URL that
  carries no credentials and no fragment; an origin and nothing else; a cookie domain that
  is the host itself or a parent of it, label by label. The platform's URL parser is
  assumed to write the origin of a web URL as its scheme, two slashes
  and the host, with no slash at the end.
\<close>

definition web_origins :: "url_platform \<Rightarrow> bool" where
  "web_origins up \<longleftrightarrow> (\<forall>s u. new_URL up s = Some u \<longrightarrow> u_protocol u \<in> {''https:'', ''http:''} \<longrightarrow>
     starts_with (u_protocol u @ ''//'') (u_origin u) \<and> last (u_origin u) \<noteq> CHR ''/'')"

definition https_url :: "url_platform \<Rightarrow> string \<Rightarrow> url \<Rightarrow> bool" where
  "https_url up s u \<longleftrightarrow> new_URL up s = Some u \<and> u_protocol u = ''https:'' \<and> u_username u = [] \<and> u_password u = [] \<and>
     u_hash u = []"

definition bare_https_origin :: "url_platform \<Rightarrow> string \<Rightarrow> string \<Rightarrow> bool" where
  "bare_https_origin up s po \<longleftrightarrow> s \<in> {po, po @ ''/''} \<and>
     (\<exists>u. https_url up s u \<and> u_search u = [] \<and> u_pathname u \<in> {''/'', []} \<and> u_origin u = po)"

definition parent_domain :: "string \<Rightarrow> string \<Rightarrow> bool" where
  "parent_domain domain host \<longleftrightarrow>
     (let t = trim domain; D = toLowerCase (if starts_with ''.'' t then tl t else t)
      in D \<noteq> [] \<and> CHR ''/'' \<notin> set D \<and> CHR '':'' \<notin> set D \<and>
         (\<exists>sub. toLowerCase host = sub @ D \<and> (sub = [] \<or> last sub = CHR ''.'')))"

lemma httpsUrlProblem_iff: "httpsUrlProblem up name v = None \<longleftrightarrow> (\<exists>u. https_url up v u)"
  by (simp add: httpsUrlProblem_None https_url_def)

lemma strip_slash_origin:
  assumes "last po \<noteq> CHR ''/''" "po \<noteq> []"
  shows "strip_slash s = po \<longleftrightarrow> s \<in> {po, po @ ''/''}"
  using assms unfolding strip_slash_def by (cases s rule: rev_cases) auto

lemma https_origin_protocol:
  assumes "web_origins up" "new_URL up s = Some u" "u_protocol u \<in> {''https:'', ''http:''}"
  shows "starts_with ''https://'' (u_origin u) \<longleftrightarrow> u_protocol u = ''https:''"
    and "strip_slash s = u_origin u \<longleftrightarrow> s \<in> {u_origin u, u_origin u @ ''/''}"
proof -
  have law: "starts_with (u_protocol u @ ''//'') (u_origin u)" "last (u_origin u) \<noteq> CHR ''/''"
    using assms unfolding web_origins_def by blast+
  obtain rest where rest: "u_origin u = (u_protocol u @ ''//'') @ rest" using law(1) by (rule starts_withE)
  show "starts_with ''https://'' (u_origin u) \<longleftrightarrow> u_protocol u = ''https:''"
    using assms(3) rest by (auto simp: starts_with_def)
  show "strip_slash s = u_origin u \<longleftrightarrow> s \<in> {u_origin u, u_origin u @ ''/''}"
    by (rule strip_slash_origin [OF law(2)]) (simp add: rest)
qed

lemma ends_with_iff: "ends_with suffix s \<longleftrightarrow> (\<exists>sub. s = sub @ suffix)"
proof
  assume "ends_with suffix s"
  then obtain rest where "rev s = rev suffix @ rest" unfolding ends_with_def by (rule starts_withE)
  then have "rev (rev s) = rev (rev suffix @ rest)" by (rule arg_cong)
  then have "s = rev rest @ suffix" by simp
  then show "\<exists>sub. s = sub @ suffix" by blast
qed (auto simp: ends_with_def)

lemma cookieDomainMatches_iff: "cookieDomainMatches host domain \<longleftrightarrow> parent_domain domain host"
proof -
  have "h = D \<or> ends_with (''.'' @ D) h \<longleftrightarrow> (\<exists>sub. h = sub @ D \<and> (sub = [] \<or> last sub = CHR ''.''))" for h D
  proof (intro iffI)
    assume "h = D \<or> ends_with (''.'' @ D) h"
    then show "\<exists>sub. h = sub @ D \<and> (sub = [] \<or> last sub = CHR ''.'')"
      unfolding ends_with_iff by (metis append_Nil append_assoc last_snoc)
  next
    assume "\<exists>sub. h = sub @ D \<and> (sub = [] \<or> last sub = CHR ''.'')"
    then obtain sub where sub: "h = sub @ D" "sub = [] \<or> last sub = CHR ''.''" by blast
    show "h = D \<or> ends_with (''.'' @ D) h"
    proof (cases "sub = []")
      case False
      with sub have "h = butlast sub @ ''.'' @ D" by (metis append_assoc append_butlast_last_id)
      then show ?thesis unfolding ends_with_iff by blast
    qed (simp add: sub)
  qed
  then show ?thesis by (simp add: cookieDomainMatches_def parent_domain_def Let_def)
qed

lemma bareOrigin_iff:
  assumes "web_origins up"
  shows "bareOrigin up s = Some po \<and> starts_with ''https://'' po \<longleftrightarrow> bare_https_origin up s po"
proof
  assume l: "bareOrigin up s = Some po \<and> starts_with ''https://'' po"
  then obtain u where u: "new_URL up s = Some u" "u_protocol u \<in> {''https:'', ''http:''}" "u_username u = []"
      "u_password u = []" "u_search u = []" "u_hash u = []" "u_pathname u \<in> {''/'', []}" "strip_slash s = po" "u_origin u = po"
    by (auto simp: bareOrigin_def split: option.splits if_splits)
  note origin = https_origin_protocol [OF assms u(1,2), unfolded u(9)]
  show "bare_https_origin up s po" using u origin l by (simp add: bare_https_origin_def https_url_def)
next
  assume "bare_https_origin up s po"
  then obtain u where u: "https_url up s u" "u_search u = []" "u_pathname u \<in> {''/'', []}" "u_origin u = po" "s \<in> {po, po @ ''/''}"
    by (auto simp: bare_https_origin_def)
  have url: "new_URL up s = Some u" "u_protocol u \<in> {''https:'', ''http:''}" using u(1) by (auto simp: https_url_def)
  note origin = https_origin_protocol [OF assms url, unfolded u(4)]
  have "strip_slash s = po" using origin(2) u(5) by blast
  then show "bareOrigin up s = Some po \<and> starts_with ''https://'' po"
    using u url origin(1) by (auto simp: bareOrigin_def https_url_def)
qed

lemma public_origin_iff:
  assumes "web_origins up"
  shows "snd (public_origin up configured) = [] \<longleftrightarrow> (\<exists>po. bare_https_origin up configured po)"
    and "fst (public_origin up configured) = Some po \<longleftrightarrow> bare_https_origin up configured po"
proof -
  have "bareOrigin up [] = Some x \<Longrightarrow> starts_with ''https://'' x \<Longrightarrow> False" for x
    by (auto simp: bareOrigin_def strip_slash_def starts_with_def split: option.splits if_splits)
  then show "snd (public_origin up configured) = [] \<longleftrightarrow> (\<exists>po. bare_https_origin up configured po)"
    and "fst (public_origin up configured) = Some po \<longleftrightarrow> bare_https_origin up configured po"
    unfolding bareOrigin_iff [OF assms, symmetric] by (auto simp: public_origin_def split: option.splits)
qed

lemma scopeProblems_Nil: "scopeProblems scopes = [] \<longleftrightarrow> ''openid'' \<in> set scopes \<and> ''offline_access'' \<notin> set scopes"
  by (simp add: scopeProblems_def REQUIRED_SCOPE_def REFUSED_SCOPES_def List.map_filter_simps)

lemma allowed_origin_problems_Nil:
  assumes "web_origins up"
  shows "allowed_origin_problems up origins = [] \<longleftrightarrow> (\<forall>s\<in>set origins. \<exists>x. bare_https_origin up s x)"
proof -
  have "set origins = snd ` set (enumerate 0 origins)" by (metis list.set_map map_snd_enumerate)
  moreover have "(case bareOrigin up s of None \<Rightarrow> [m] | Some x \<Rightarrow> problem_if (\<not> starts_with ''https://'' x) m') = [] \<longleftrightarrow>
      (\<exists>x. bare_https_origin up s x)" for s m m'
    unfolding bareOrigin_iff [OF assms, symmetric] by (simp split: option.splits)
  ultimately show ?thesis by (simp add: allowed_origin_problems_def case_prod_beta)
qed

lemma issuer_problems_Nil:
  "issuer_problems up issuer = [] \<longleftrightarrow> issuer \<noteq> [] \<and> (\<exists>u. https_url up issuer u \<and> u_search u = [])"
  using httpsUrlProblem_iff [of up "''OIDC_ISSUER''" issuer]
  by (auto simp: issuer_problems_def https_url_def split: option.splits)

lemma redirect_problems_Nil:
  "redirect_problems up (Some po) s = [] \<longleftrightarrow>
     (\<exists>r. https_url up s r \<and> u_search r = [] \<and> u_origin r = po \<and> u_pathname r = ''/auth/callback'')"
  using httpsUrlProblem_iff [of up "''OIDC_REDIRECT_URI''" s]
  by (auto simp: redirect_problems_def https_url_def CALLBACK_PATH_def split: option.splits)

lemma cookie_domain_problems_Nil:
  "cookie_domain_problems up domain (Some po) = [] \<longleftrightarrow>
     (\<forall>d. domain = Some d \<longrightarrow> d \<noteq> [] \<longrightarrow> (\<exists>u. new_URL up po = Some u \<and> parent_domain d (u_hostname u)))"
proof -
  have "\<not> parent_domain d []" for d by (auto simp: parent_domain_def Let_def toLowerCase_def)
  then show ?thesis
    by (auto simp: cookie_domain_problems_def truthy_text_def Let_def cookieDomainMatches_iff split: option.splits)
qed

text \<open>
  C33. The production gate lets through exactly the safe configurations: it raises nothing if
  and only if sign-in is through the identity provider, whose issuer (and key set, if one
  is configured) is an https URL without credentials or fragment, the issuer without a
  query either, by a confidential client with its secret and an audience; the browser's
  origin is a bare https origin, an https URL with no path, query, fragment or credentials,
  written as the origin and at most a slash; it is among the allowed origins, and all of
  these are bare https origins; the callback is on that origin at \<open>/auth/callback\<close>, with no
  query; the cookie is secure and a configured cookie domain is the host of that origin or
  a parent domain of it; the scopes ask for an ID token and for no refresh token; sessions
  are durable and no header chooses the student.
\<close>

theorem production_gate_is_strict:
  assumes "web_origins up"
  shows "assertProductionAuthConfig up input = Inr () \<longleftrightarrow>
    pa_mode input = Mode_Oidc \<and>
    pa_issuer input \<noteq> [] \<and> (\<exists>u. https_url up (pa_issuer input) u \<and> u_search u = []) \<and>
    (pa_jwksUri input \<noteq> [] \<longrightarrow> (\<exists>u. https_url up (pa_jwksUri input) u)) \<and>
    pa_clientId input \<noteq> [] \<and> pa_clientSecretPresent input \<and> pa_audience input \<noteq> [] \<and>
    (\<exists>po. bare_https_origin up (pa_publicOrigin input) po \<and>
       (\<exists>r. https_url up (pa_redirectUri input) r \<and> u_search r = [] \<and> u_origin r = po \<and>
          u_pathname r = ''/auth/callback'') \<and>
       (\<exists>s\<in>set (pa_allowedOrigins input). bare_https_origin up s po) \<and>
       (\<forall>d. pa_cookieDomain input = Some d \<longrightarrow> d \<noteq> [] \<longrightarrow>
          (\<exists>u. new_URL up po = Some u \<and> parent_domain d (u_hostname u)))) \<and>
    (\<forall>s\<in>set (pa_allowedOrigins input). \<exists>x. bare_https_origin up s x) \<and>
    pa_cookieSecure input \<and> ''openid'' \<in> set (pa_scopes input) \<and> ''offline_access'' \<notin> set (pa_scopes input) \<and>
    pa_databaseConfigured input \<and> \<not> pa_devStudentHeaderEnabled input"
proof (cases "pa_mode input = Mode_Oidc \<and> (\<exists>po. bare_https_origin up (pa_publicOrigin input) po)")
  case False
  then show ?thesis
    using public_origin_iff(1) [OF assms, of "pa_publicOrigin input"]
    by (auto simp: assertProductionAuthConfig_def productionAuthProblems_def Let_def split: prod.splits)
next
  case True
  then obtain po where mode: "pa_mode input = Mode_Oidc" and po: "bare_https_origin up (pa_publicOrigin input) po" by blast
  have origin: "public_origin up (pa_publicOrigin input) = (Some po, [])"
    using public_origin_iff [OF assms, of "pa_publicOrigin input"] po by (metis prod.collapse)
  have only: "bare_https_origin up (pa_publicOrigin input) x \<longleftrightarrow> x = po" for x
    using po bareOrigin_iff [OF assms, of "pa_publicOrigin input"] by (metis option.inject)
  have "starts_with ''https://'' po" using po bareOrigin_iff [OF assms] by blast
  then have member: "list_ex (\<lambda>origin. bareOrigin up origin = Some po) (pa_allowedOrigins input) \<longleftrightarrow>
      (\<exists>s\<in>set (pa_allowedOrigins input). bare_https_origin up s po)"
    unfolding list_ex_iff bareOrigin_iff [OF assms, symmetric] by blast
  have jwks: "(if pa_jwksUri input = [] then []
         else (case httpsUrlProblem up ''OIDC_JWKS_URI'' (pa_jwksUri input) of None \<Rightarrow> [] | Some p \<Rightarrow> [p])) = [] \<longleftrightarrow>
      (pa_jwksUri input \<noteq> [] \<longrightarrow> (\<exists>u. https_url up (pa_jwksUri input) u))"
    using httpsUrlProblem_iff [of up "''OIDC_JWKS_URI''" "pa_jwksUri input"] by (auto split: option.splits)
  have "assertProductionAuthConfig up input = Inr () \<longleftrightarrow> productionAuthProblems up input = []"
    by (simp add: assertProductionAuthConfig_def Let_def)
  then show ?thesis
    using mode
    by (simp add: productionAuthProblems_def origin only issuer_problems_Nil redirect_problems_Nil
        allowed_origin_problems_Nil [OF assms] cookie_domain_problems_Nil scopeProblems_Nil member jwks) blast
qed

definition demo_url :: "string \<Rightarrow> string \<Rightarrow> url" where
  "demo_url path href = \<lparr>u_protocol = ''https:'', u_username = [], u_password = [], u_hostname = ''labs.example'',
     u_pathname = path, u_search = [], u_hash = [], u_origin = ''https://labs.example'', u_href = href\<rparr>"

definition demo_urls :: url_platform where
  "demo_urls = \<lparr>new_URL = (\<lambda>s. if s = ''https://labs.example'' then Some (demo_url ''/'' s)
       else if s = ''https://labs.example/auth/callback'' then Some (demo_url ''/auth/callback'' s) else None),
     resolve_URL = (\<lambda>path base. base @ path), with_query = (\<lambda>u q. u)\<rparr>"

definition demo_production :: ProductionAuthInput where
  "demo_production = \<lparr>pa_mode = Mode_Oidc, pa_issuer = ''https://labs.example'', pa_clientId = ''c'',
     pa_clientSecretPresent = True, pa_audience = ''a'', pa_jwksUri = [], pa_publicOrigin = ''https://labs.example'',
     pa_redirectUri = ''https://labs.example/auth/callback'', pa_allowedOrigins = [''https://labs.example''],
     pa_cookieSecure = True, pa_cookieDomain = Some ''.example'', pa_scopes = [''openid''],
     pa_devStudentHeaderEnabled = False, pa_databaseConfigured = True\<rparr>"

theorem production_gate_is_strict_witness:
  "assertProductionAuthConfig demo_urls demo_production = Inr () \<and>
   assertProductionAuthConfig demo_urls (demo_production\<lparr>pa_cookieDomain := Some ''ample''\<rparr>) \<noteq> Inr () \<and>
   (\<exists>po. bare_https_origin demo_urls (pa_publicOrigin demo_production) po) \<and> pa_cookieSecure demo_production"
proof -
  have web: "web_origins demo_urls" by (auto simp: web_origins_def demo_urls_def demo_url_def starts_with_def)
  have "assertProductionAuthConfig demo_urls demo_production = Inr ()" by code_simp
  moreover have "assertProductionAuthConfig demo_urls (demo_production\<lparr>pa_cookieDomain := Some ''ample''\<rparr>) \<noteq> Inr ()"
    by code_simp
  ultimately show ?thesis using production_gate_is_strict [OF web, of demo_production] by blast
qed

end
