(* ===== verification/Auth_Signin.thy ===== *)
theory Auth_Signin
  imports Auth_Oidc
begin

text \<open>
  The sign-in routes: \<open>apps/api/src/routes/auth.ts\<close>. Each handler is a function from the
  request, the collaborators of \<open>AuthRoutesDeps\<close> and the state these work on to the answer
  and the state left behind; the order of the calls is the order of the source. Log lines
  and the two outcome callbacks have no effect on the answer; the outcome code itself is
  kept. \<open>isBrowserNavigation\<close> is the content negotiation of the web framework and a flag of
  the request; the URL arithmetic of \<open>signInFailureLocation\<close> is the platform's.
\<close>

section \<open>Collaborators, requests and answers\<close>

record AuthCookieConfig =
  cc_name :: string
  cc_secure :: bool
  cc_domain :: "string option"
  cc_ttlSeconds :: int

record 's sign_in_client =
  cl_request :: "'s \<Rightarrow> (auth_failure + AuthorizationRequest) \<times> 's"
  cl_exchange :: "string \<Rightarrow> string \<Rightarrow> 's \<Rightarrow> (auth_failure + TokenResponse) \<times> 's"
  cl_endSession :: "string \<Rightarrow> 's \<Rightarrow> (auth_failure + string option) \<times> 's"

record 's AuthRoutesDeps =
  d_client :: "'s sign_in_client option"
  d_idTokenVerifier :: "(string \<Rightarrow> 's \<Rightarrow> (auth_failure + VerifiedClaims) \<times> 's) option"
  d_upsert :: "'s user_upsert"
  d_create :: "string \<Rightarrow> int \<Rightarrow> 's \<Rightarrow> (string + string \<times> AuthSessionRecord) \<times> 's"
  d_destroy :: "string \<Rightarrow> 's \<Rightarrow> (string + bool) \<times> 's"
  d_browser :: "'s BrowserSessionAuthenticator"
  d_cookie :: AuthCookieConfig
  d_appUrl :: string
  d_transactionSecret :: string
  d_mode :: auth_mode

record signin_request =
  rq_cookies :: "string option"
  rq_html :: bool
  rq_returnTo :: unknown_value
  rq_error :: unknown_value
  rq_state :: unknown_value
  rq_code :: unknown_value

datatype answer_body =
    Redirect string
  | Error_Json ApiReply
  | Ok_Json "(string \<times> json) list"
  | Error_Handler string

record http_answer =
  an_body :: answer_body
  an_setCookie :: "string list"
  an_retryAfter :: "string option"
  an_outcome :: string

record platform =
  pf_token :: token_platform
  pf_location :: "string \<Rightarrow> string \<Rightarrow> string"

section \<open>Helpers\<close>

definition TRANSACTION_TTL_SECONDS :: int where "TRANSACTION_TTL_SECONDS = 10 * 60"
definition TRANSACTION_COOKIE_SUFFIX :: string where "TRANSACTION_COOKIE_SUFFIX = ''_tx''"
definition TRANSACTION_COOKIE_PATH :: string where "TRANSACTION_COOKIE_PATH = ''/auth''"

definition cookieAttributes :: "AuthCookieConfig \<Rightarrow> int option \<Rightarrow> CookieAttributes" where
  "cookieAttributes cookie maxAge = \<lparr>ca_secure = cc_secure cookie, ca_sameSite = SS_Lax, ca_path = ''/'',
     ca_domain = cc_domain cookie, ca_maxAgeSeconds = maxAge, ca_httpOnly = None\<rparr>"

definition transactionCookieAttributes :: "AuthCookieConfig \<Rightarrow> int option \<Rightarrow> CookieAttributes" where
  "transactionCookieAttributes cookie maxAge = (cookieAttributes cookie maxAge)\<lparr>ca_path := TRANSACTION_COOKIE_PATH\<rparr>"

fun mode_name :: "auth_mode \<Rightarrow> string" where
  "mode_name Mode_Oidc = ''oidc''"
| "mode_name Mode_Development = ''development''"

fun source_text :: "auth_source \<Rightarrow> string" where
  "source_text Src_Oidc = ''oidc''"
| "source_text Src_Development = ''development''"

definition opt_json :: "string \<Rightarrow> string option \<Rightarrow> (string \<times> json) list" where
  "opt_json k v = (case truthy_text v of None \<Rightarrow> [] | Some s \<Rightarrow> [(k, JString s)])"

definition toIdentityPayload :: "AuthenticatedUser \<Rightarrow> (string \<times> json) list" where
  "toIdentityPayload user =
     [(''subject'', JString (au_subject user)), (''issuer'', JString (au_issuer user))] @
     opt_json ''email'' (au_email user) @ opt_json ''displayName'' (au_displayName user) @
     [(''role'', JString (role_name (au_role user))), (''source'', JString (source_text (au_source user)))]"

datatype SignInFailure = Cancelled | Expired | Unavailable | Sign_In_Failed

fun failure_name :: "SignInFailure \<Rightarrow> string" where
  "failure_name Cancelled = ''cancelled''"
| "failure_name Expired = ''expired''"
| "failure_name Unavailable = ''unavailable''"
| "failure_name Sign_In_Failed = ''failed''"

definition signInFailureLocation :: "platform \<Rightarrow> string \<Rightarrow> unknown_value \<Rightarrow> SignInFailure \<Rightarrow> string" where
  "signInFailureLocation pf appUrl returnTo reason = appUrl @ pf_location pf (safeReturnTo returnTo) (failure_name reason)"

definition refuseSignIn ::
    "platform \<Rightarrow> 's AuthRoutesDeps \<Rightarrow> signin_request \<Rightarrow> SignInFailure \<Rightarrow> unknown_value \<Rightarrow> ApiReply \<Rightarrow> answer_body" where
  "refuseSignIn pf d req reason returnTo reply =
     (if rq_html req then Redirect (signInFailureLocation pf (d_appUrl d) returnTo reason) else Error_Json reply)"

definition authErrorResponse :: "auth_failure \<Rightarrow> string \<Rightarrow> ApiReply" where
  "authErrorResponse e what = (case e of
       Refused_Credential err \<Rightarrow>
         let unavailable = (ae_code err = AUTH_PROVIDER_UNAVAILABLE) in
         (sendError (if ae_code err = AUTH_MISCONFIGURED \<or> unavailable then 503 else 401)
            (auth_code_name (ae_code err)) (ae_message err))
           \<lparr>rp_remediation := (case truthy_text (ae_remediation err) of
               Some r \<Rightarrow> Some r
             | None \<Rightarrow> if unavailable then Some (''The sign-in service is not responding. Try again in a few minutes; '' @
                 ''if you are already signed in, you are not affected.'') else None),
            rp_retryAfter := (if unavailable then Some ''60'' else None)\<rparr>
     | Platform_Failure _ \<Rightarrow>
         (sendError 401 ''AUTH_INVALID_TOKEN'' (''Could not '' @ what @ ''.''))\<lparr>rp_remediation := Some ''Try signing in again.''\<rparr>)"

definition signInAvailable :: "'s AuthRoutesDeps \<Rightarrow> bool" where
  "signInAvailable d \<longleftrightarrow> d_client d \<noteq> None \<and> d_idTokenVerifier d \<noteq> None"

definition txCookieName :: "'s AuthRoutesDeps \<Rightarrow> string" where
  "txCookieName d = cc_name (d_cookie d) @ TRANSACTION_COOKIE_SUFFIX"

definition reply_with :: "answer_body \<Rightarrow> string list \<Rightarrow> string option \<Rightarrow> string \<Rightarrow> http_answer" where
  "reply_with body cookies retry outcome =
     \<lparr>an_body = body, an_setCookie = cookies, an_retryAfter = retry, an_outcome = outcome\<rparr>"

text \<open>A cookie that cannot be written is an exception for the error handler.\<close>

definition or_throw :: "cookie_error + string \<Rightarrow> (string \<Rightarrow> http_answer \<times> 's) \<Rightarrow> 's \<Rightarrow> http_answer \<times> 's" where
  "or_throw cookie k s = (case cookie of
       Inl (CookieError m) \<Rightarrow> (reply_with (Error_Handler m) [] None ''error'', s)
     | Inr c \<Rightarrow> k c)"

section \<open>GET /auth/config and GET /auth/session\<close>

definition auth_config :: "'s AuthRoutesDeps \<Rightarrow> (string \<times> json) list" where
  "auth_config d = [(''mode'', JString (mode_name (d_mode d))), (''signInAvailable'', JBool (signInAvailable d)),
     (''loginPath'', JString ''/auth/login''), (''logoutPath'', JString ''/auth/logout''),
     (''sessionPath'', JString ''/auth/session'')]"

definition session_info :: "'s AuthRoutesDeps \<Rightarrow> AuthenticatedUser option \<Rightarrow> (string \<times> json) list" where
  "session_info d user = [(''authenticated'', JBool (user \<noteq> None)), (''signInAvailable'', JBool (signInAvailable d)),
     (''mode'', JString (mode_name (d_mode d)))] @
     (case user of None \<Rightarrow> [] | Some u \<Rightarrow> [(''identity'', JObject (toIdentityPayload u))])"

definition auth_session :: "'s AuthRoutesDeps \<Rightarrow> signin_request \<Rightarrow> int \<Rightarrow> 's \<Rightarrow> http_answer \<times> 's" where
  "auth_session d req now s = (case authenticateSession (d_browser d) (rq_cookies req) s of
       (Inl (Platform_Failure _), s') \<Rightarrow> (reply_with (Error_Json auth_unavailable) [] (Some ''5'') ''unavailable'', s')
     | (Inl (Refused_Credential _), s') \<Rightarrow>
         or_throw (clearCookie (cc_name (d_cookie d)) (cookieAttributes (d_cookie d) None) now)
           (\<lambda>clear. (reply_with (Ok_Json (session_info d None)) [clear] None ''signed_out'', s')) s'
     | (Inr found, s') \<Rightarrow> (reply_with (Ok_Json (session_info d (map_option fst found))) [] None ''ok'', s'))"

section \<open>GET /auth/login\<close>

definition not_configured :: http_answer where
  "not_configured = reply_with (Error_Json ((sendError 503 ''AUTH_NOT_CONFIGURED''
     ''This deployment has no identity provider configured.'')
       \<lparr>rp_remediation := Some ''Set OIDC_ISSUER, OIDC_CLIENT_ID, OIDC_CLIENT_SECRET and OIDC_AUDIENCE.''\<rparr>)) [] None ''not_configured''"

definition login_outcome :: "auth_failure \<Rightarrow> string" where
  "login_outcome e = (case e of
       Refused_Credential err \<Rightarrow>
         if ae_code err = AUTH_PROVIDER_UNAVAILABLE then ''provider_unavailable''
         else if ae_code err = AUTH_MISCONFIGURED then ''misconfigured'' else ''failed''
     | Platform_Failure _ \<Rightarrow> ''failed'')"

definition login_transaction :: "AuthorizationRequest \<Rightarrow> signin_request \<Rightarrow> int \<Rightarrow> AuthTransaction" where
  "login_transaction request req now =
     \<lparr>at_state = ar_state request, at_nonce = ar_nonce request, at_codeVerifier = ar_codeVerifier request,
      at_returnTo = safeReturnTo (rq_returnTo req), at_exp = of_int (now div 1000 + TRANSACTION_TTL_SECONDS)\<rparr>"

definition auth_login :: "platform \<Rightarrow> 's AuthRoutesDeps \<Rightarrow> signin_request \<Rightarrow> int \<Rightarrow> 's \<Rightarrow> http_answer \<times> 's" where
  "auth_login pf d req now s = (case d_client d of
       None \<Rightarrow> (not_configured, s)
     | Some client \<Rightarrow> (case cl_request client s of
         (Inl e, s') \<Rightarrow>
           let reply = authErrorResponse e ''start sign-in'' in
           (reply_with (refuseSignIn pf d req Unavailable (rq_returnTo req) reply) [] (rp_retryAfter reply) (login_outcome e), s')
       | (Inr request, s') \<Rightarrow>
           or_throw (serializeCookie (txCookieName d)
               (sealTransaction (pf_token pf) (login_transaction request req now) (d_transactionSecret d))
               (transactionCookieAttributes (d_cookie d) (Some TRANSACTION_TTL_SECONDS)) now)
             (\<lambda>cookie. (reply_with (Redirect (ar_url request)) [cookie] None ''redirected'', s')) s'))"

section \<open>GET /auth/callback\<close>

definition pending_transaction :: "platform \<Rightarrow> 's AuthRoutesDeps \<Rightarrow> signin_request \<Rightarrow> int \<Rightarrow> AuthTransaction option" where
  "pending_transaction pf d req now =
     openTransaction (pf_token pf) (opt_unknown (map_of (parseCookies (rq_cookies req)) (txCookieName d)))
       (d_transactionSecret d) now"

text \<open>Exchange, verification, nonce and account, in this order; the first failure ends it.\<close>

definition sign_in_user ::
    "'s AuthRoutesDeps \<Rightarrow> 's sign_in_client \<Rightarrow> (string \<Rightarrow> 's \<Rightarrow> (auth_failure + VerifiedClaims) \<times> 's) \<Rightarrow> string \<Rightarrow>
      AuthTransaction \<Rightarrow> 's \<Rightarrow> (auth_failure + AuthenticatedUser) \<times> 's" where
  "sign_in_user d client verify code transaction s =
     (case cl_exchange client code (at_codeVerifier transaction) s of
        (Inl e, s1) \<Rightarrow> (Inl e, s1)
      | (Inr tokens, s1) \<Rightarrow> (case verify (tr_idToken tokens) s1 of
          (Inl e, s2) \<Rightarrow> (Inl e, s2)
        | (Inr claims, s2) \<Rightarrow> (case assertNonceMatches (vc_nonce claims) (at_nonce transaction) of
            Inl e \<Rightarrow> (Inl e, s2)
          | Inr _ \<Rightarrow> d_upsert d claims s2)))"

definition unreachable :: "auth_failure \<Rightarrow> bool" where
  "unreachable e = (case e of
       Platform_Failure _ \<Rightarrow> True
     | Refused_Credential err \<Rightarrow> ae_code err = AUTH_MISCONFIGURED \<or> ae_code err = AUTH_PROVIDER_UNAVAILABLE)"

definition callback_failed :: "auth_failure \<Rightarrow> string" where
  "callback_failed e = (case e of
       Refused_Credential err \<Rightarrow>
         if ae_code err = AUTH_PROVIDER_UNAVAILABLE then ''provider_unavailable'' else ''verification_failed''
     | Platform_Failure _ \<Rightarrow> ''verification_failed'')"

text \<open>Never reuse, always replace: the previous session is destroyed and a new one created.\<close>

definition replace_session ::
    "'s AuthRoutesDeps \<Rightarrow> signin_request \<Rightarrow> AuthenticatedUser \<Rightarrow> 's \<Rightarrow> (string + string \<times> AuthSessionRecord) \<times> 's" where
  "replace_session d req user s =
     (case (case cookieFrom (bs_cookieName (d_browser d)) (rq_cookies req) of
              None \<Rightarrow> (Inr False, s) | Some previous \<Rightarrow> d_destroy d previous s) of
        (Inl m, s1) \<Rightarrow> (Inl m, s1)
      | (Inr _, s1) \<Rightarrow> d_create d (au_userId user) (cc_ttlSeconds (d_cookie d)) s1)"

definition complete_sign_in ::
    "'s AuthRoutesDeps \<Rightarrow> signin_request \<Rightarrow> int \<Rightarrow> string \<Rightarrow> AuthTransaction \<Rightarrow> AuthenticatedUser \<Rightarrow> 's \<Rightarrow> http_answer \<times> 's" where
  "complete_sign_in d req now clearTx transaction user s =
     (case replace_session d req user s of
        (Inl m, s') \<Rightarrow> (reply_with (Error_Handler m) [] None ''error'', s')
      | (Inr (cookieValue, record), s') \<Rightarrow>
          or_throw (serializeCookie (cc_name (d_cookie d)) cookieValue
              (cookieAttributes (d_cookie d) (Some (cc_ttlSeconds (d_cookie d)))) now)
            (\<lambda>cookie. (reply_with (Redirect (d_appUrl d @ safeReturnTo (UString (at_returnTo transaction))))
                         [clearTx, cookie] None ''success'', s')) s')"

definition callback_refused ::
    "platform \<Rightarrow> 's AuthRoutesDeps \<Rightarrow> signin_request \<Rightarrow> int \<Rightarrow> string \<Rightarrow> string \<Rightarrow> http_answer" where
  "callback_refused pf d req now clearTx err =
     reply_with (refuseSignIn pf d req (if err = ''access_denied'' then Cancelled else Sign_In_Failed)
         (opt_unknown (map_option at_returnTo (pending_transaction pf d req now)))
         ((sendError 401 ''AUTH_REFUSED'' ''The identity provider did not complete sign-in.'')
            \<lparr>rp_remediation := Some ''Try signing in again.''\<rparr>)) [clearTx] None ''provider_refused''"

definition unmatched :: "string \<Rightarrow> ApiReply" where
  "unmatched code = (sendError 400 code ''This sign-in could not be matched to a request from this browser.'')
     \<lparr>rp_remediation := Some ''Start sign-in again from the application.''\<rparr>"

definition valid_code :: "unknown_value \<Rightarrow> string option" where
  "valid_code v = (case v of UString c \<Rightarrow> if length c = 0 \<or> length c > 4096 then None else Some c | UOther _ \<Rightarrow> None)"

definition auth_callback :: "platform \<Rightarrow> 's AuthRoutesDeps \<Rightarrow> signin_request \<Rightarrow> int \<Rightarrow> 's \<Rightarrow> http_answer \<times> 's" where
  "auth_callback pf d req now s = (case (d_client d, d_idTokenVerifier d) of
       (Some client, Some verify) \<Rightarrow>
         or_throw (clearCookie (txCookieName d) (transactionCookieAttributes (d_cookie d) None) now) (\<lambda>clearTx.
           case rq_error req of
             UString err \<Rightarrow> (callback_refused pf d req now clearTx err, s)
           | UOther _ \<Rightarrow>
               (case pending_transaction pf d req now of
                  None \<Rightarrow> (reply_with (refuseSignIn pf d req Expired (UOther ''undefined'') (unmatched ''AUTH_NO_TRANSACTION''))
                            [clearTx] None ''no_transaction'', s)
                | Some transaction \<Rightarrow>
                    if \<not> safeEquals (rq_state req) (UString (at_state transaction))
                    then (reply_with (refuseSignIn pf d req Expired (UOther ''undefined'') (unmatched ''AUTH_STATE_MISMATCH''))
                            [clearTx] None ''state_mismatch'', s)
                    else (case valid_code (rq_code req) of
                        None \<Rightarrow> (reply_with (refuseSignIn pf d req Sign_In_Failed (UString (at_returnTo transaction))
                            (sendError 400 ''AUTH_NO_CODE'' ''The identity provider returned no authorization code.''))
                            [clearTx] None ''no_code'', s)
                      | Some code \<Rightarrow>
                          (case sign_in_user d client verify code transaction s of
                             (Inl e, s') \<Rightarrow>
                               let reply = authErrorResponse e ''complete sign-in'' in
                               (reply_with (refuseSignIn pf d req (if unreachable e then Unavailable else Sign_In_Failed)
                                  (UString (at_returnTo transaction)) reply) [clearTx] (rp_retryAfter reply) (callback_failed e), s')
                           | (Inr user, s') \<Rightarrow> complete_sign_in d req now clearTx transaction user s')))) s
     | _ \<Rightarrow> (reply_with (Error_Json (sendError 503 ''AUTH_NOT_CONFIGURED''
              ''This deployment has no identity provider configured.'')) [] None ''not_configured'', s))"

section \<open>POST /auth/logout\<close>

definition auth_logout :: "'s AuthRoutesDeps \<Rightarrow> signin_request \<Rightarrow> int \<Rightarrow> 's \<Rightarrow> http_answer \<times> 's" where
  "auth_logout d req now s =
     (case (case cookieFrom (bs_cookieName (d_browser d)) (rq_cookies req) of
              None \<Rightarrow> (Inr False, s) | Some cookieValue \<Rightarrow> d_destroy d cookieValue s) of
        (Inl m, s1) \<Rightarrow> (reply_with (Error_Handler m) [] None ''error'', s1)
      | (Inr _, s1) \<Rightarrow>
          or_throw (clearCookie (cc_name (d_cookie d)) (cookieAttributes (d_cookie d) None) now) (\<lambda>clear.
            let (ended, s2) = (case d_client d of
                   None \<Rightarrow> (None, s1)
                 | Some client \<Rightarrow> (case cl_endSession client (d_appUrl d) s1 of
                     (Inl _, s2) \<Rightarrow> (None, s2) | (Inr u, s2) \<Rightarrow> (truthy_text u, s2)))
            in (reply_with (Ok_Json ((''signedOut'', JBool True) # opt_json ''endSessionUrl'' ended)) [clear] None ''ok'', s2)) s1)"

section \<open>Nobody is signed in unverified\<close>

lemma or_throw_success:
  "or_throw cookie k s = (ans, s') \<Longrightarrow> an_outcome ans = ''success'' \<Longrightarrow> \<exists>c. cookie = Inr c \<and> k c = (ans, s')"
  by (auto simp: or_throw_def reply_with_def split: sum.splits cookie_error.splits)

lemma assertNonceMatches_ok: "assertNonceMatches claim expected = Inr u \<longleftrightarrow> claim = Some expected"
  by (auto simp: assertNonceMatches_def safeEquals_def opt_unknown_def split: option.splits)

lemma safeEquals_text: "safeEquals v (UString x) \<longleftrightarrow> v = UString x"
  by (cases v) (auto simp: safeEquals_def)

lemma complete_sign_in_success:
  assumes "complete_sign_in d req now clearTx transaction user s = (ans, s')" "an_outcome ans = ''success''"
  shows "\<exists>cookieValue record cookie. replace_session d req user s = (Inr (cookieValue, record), s') \<and>
    serializeCookie (cc_name (d_cookie d)) cookieValue (cookieAttributes (d_cookie d) (Some (cc_ttlSeconds (d_cookie d)))) now = Inr cookie \<and>
    an_setCookie ans = [clearTx, cookie] \<and>
    an_body ans = Redirect (d_appUrl d @ safeReturnTo (UString (at_returnTo transaction)))"
  using assms
  by (auto simp: complete_sign_in_def reply_with_def split: prod.splits sum.splits dest!: or_throw_success)

lemma callback_failed_not_success: "callback_failed e \<noteq> ''success''"
  by (auto simp: callback_failed_def split: auth_failure.splits)

lemma sign_in_user_Inr:
  assumes "sign_in_user d client verify code transaction s = (Inr user, s3)"
  shows "\<exists>tokens s1 claims s2. cl_exchange client code (at_codeVerifier transaction) s = (Inr tokens, s1) \<and>
    verify (tr_idToken tokens) s1 = (Inr claims, s2) \<and> vc_nonce claims = Some (at_nonce transaction) \<and>
    d_upsert d claims s2 = (Inr user, s3)"
  using assms by (auto simp: sign_in_user_def assertNonceMatches_ok split: prod.splits sum.splits)

lemma callback_success:
  assumes "auth_callback pf d req now s = (ans, s')" "an_outcome ans = ''success''"
  shows "\<exists>client verify clearTx transaction code user s3. d_client d = Some client \<and> d_idTokenVerifier d = Some verify \<and>
    pending_transaction pf d req now = Some transaction \<and> rq_state req = UString (at_state transaction) \<and>
    valid_code (rq_code req) = Some code \<and> sign_in_user d client verify code transaction s = (Inr user, s3) \<and>
    complete_sign_in d req now clearTx transaction user s3 = (ans, s')"
proof -
  from assms obtain client verify where deps: "d_client d = Some client" "d_idTokenVerifier d = Some verify"
    by (auto simp: auth_callback_def reply_with_def split: option.splits)
  from assms deps obtain clearTx where
    "(case rq_error req of
        UString err \<Rightarrow> (callback_refused pf d req now clearTx err, s)
      | UOther _ \<Rightarrow>
          (case pending_transaction pf d req now of
             None \<Rightarrow> (reply_with (refuseSignIn pf d req Expired (UOther ''undefined'') (unmatched ''AUTH_NO_TRANSACTION''))
                       [clearTx] None ''no_transaction'', s)
           | Some transaction \<Rightarrow>
               if \<not> safeEquals (rq_state req) (UString (at_state transaction))
               then (reply_with (refuseSignIn pf d req Expired (UOther ''undefined'') (unmatched ''AUTH_STATE_MISMATCH''))
                       [clearTx] None ''state_mismatch'', s)
               else (case valid_code (rq_code req) of
                   None \<Rightarrow> (reply_with (refuseSignIn pf d req Sign_In_Failed (UString (at_returnTo transaction))
                       (sendError 400 ''AUTH_NO_CODE'' ''The identity provider returned no authorization code.''))
                       [clearTx] None ''no_code'', s)
                 | Some code \<Rightarrow>
                     (case sign_in_user d client verify code transaction s of
                        (Inl e, s') \<Rightarrow>
                          let reply = authErrorResponse e ''complete sign-in'' in
                          (reply_with (refuseSignIn pf d req (if unreachable e then Unavailable else Sign_In_Failed)
                             (UString (at_returnTo transaction)) reply) [clearTx] (rp_retryAfter reply) (callback_failed e), s')
                      | (Inr user, s') \<Rightarrow> complete_sign_in d req now clearTx transaction user s')))) = (ans, s')"
    by (auto simp: auth_callback_def dest!: or_throw_success)
  with assms(2) deps show ?thesis
    by (auto simp: reply_with_def callback_refused_def Let_def safeEquals_text callback_failed_not_success
        split: unknown_value.splits option.splits if_splits prod.splits sum.splits)
qed

text \<open>
  C28. Nobody is signed in unverified: when the callback signs a browser in, the request
  carried this browser's own transaction, signed with the server's secret and not expired;
  the state came back exactly; the authorization code was exchanged with the verifier of
  that transaction for an ID token that verified and answers the nonce of that transaction;
  the account is the one those claims name; the session the browser already had was
  destroyed before a new one was created for that account; and the browser is sent to a
  path of the application, never to another site.
\<close>

theorem callback_signs_in_only_verified:
  assumes "auth_callback pf d req now s = (ans, s')" "an_outcome ans = ''success''"
  shows "\<exists>client verify transaction payload code tokens s1 claims s2 user s3 s4 cookieValue record.
    d_client d = Some client \<and> d_idTokenVerifier d = Some verify \<and>
    map_of (parseCookies (rq_cookies req)) (txCookieName d) =
      Some (payload @ ''.'' @ tp_sign (pf_token pf) payload (d_transactionSecret d)) \<and>
    pending_transaction pf d req now = Some transaction \<and> of_int (now div 1000) < at_exp transaction \<and>
    rq_state req = UString (at_state transaction) \<and> rq_code req = UString code \<and>
    cl_exchange client code (at_codeVerifier transaction) s = (Inr tokens, s1) \<and>
    verify (tr_idToken tokens) s1 = (Inr claims, s2) \<and> vc_nonce claims = Some (at_nonce transaction) \<and>
    d_upsert d claims s2 = (Inr user, s3) \<and>
    (case cookieFrom (bs_cookieName (d_browser d)) (rq_cookies req) of
       None \<Rightarrow> s4 = s3 | Some previous \<Rightarrow> \<exists>b. d_destroy d previous s3 = (Inr b, s4)) \<and>
    d_create d (au_userId user) (cc_ttlSeconds (d_cookie d)) s4 = (Inr (cookieValue, record), s') \<and>
    (\<exists>path. an_body ans = Redirect (d_appUrl d @ path) \<and> starts_with ''/'' path \<and> \<not> starts_with ''//'' path \<and>
       \<not> starts_with (''/'' @ [CHR 0x5C]) path \<and> \<not> list_ex is_control path)"
proof -
  from callback_success [OF assms] obtain client verify clearTx transaction code user s3 where
    deps: "d_client d = Some client" "d_idTokenVerifier d = Some verify"
    and tx: "pending_transaction pf d req now = Some transaction" "rq_state req = UString (at_state transaction)"
    and code: "valid_code (rq_code req) = Some code"
    and user: "sign_in_user d client verify code transaction s = (Inr user, s3)"
    and compl: "complete_sign_in d req now clearTx transaction user s3 = (ans, s')" by blast
  have code': "rq_code req = UString code" using code by (auto simp: valid_code_def split: unknown_value.splits if_splits)
  obtain sealed where sealed: "map_of (parseCookies (rq_cookies req)) (txCookieName d) = Some sealed"
    using openTransaction_needs_text [OF tx(1) [unfolded pending_transaction_def]]
    by (auto simp: opt_unknown_def split: option.splits)
  have opened: "openTransaction (pf_token pf) (UString sealed) (d_transactionSecret d) now = Some transaction"
    using tx(1) by (simp add: pending_transaction_def sealed opt_unknown_def)
  from openTransaction_sound [OF opened] obtain payload where
    payload: "sealed = payload @ ''.'' @ tp_sign (pf_token pf) payload (d_transactionSecret d)"
    "of_int (now div 1000) < at_exp transaction" by blast
  from complete_sign_in_success [OF compl assms(2)] obtain cookieValue created where
    repl: "replace_session d req user s3 = (Inr (cookieValue, created), s')"
    and body: "an_body ans = Redirect (d_appUrl d @ safeReturnTo (UString (at_returnTo transaction)))" by blast
  obtain s4 where s4: "case cookieFrom (bs_cookieName (d_browser d)) (rq_cookies req) of
       None \<Rightarrow> s4 = s3 | Some previous \<Rightarrow> \<exists>b. d_destroy d previous s3 = (Inr b, s4)"
    "d_create d (au_userId user) (cc_ttlSeconds (d_cookie d)) s4 = (Inr (cookieValue, created), s')"
    using repl by (auto simp: replace_session_def split: option.splits prod.splits sum.splits)
  have path: "\<exists>path. an_body ans = Redirect (d_appUrl d @ path) \<and> starts_with ''/'' path \<and> \<not> starts_with ''//'' path \<and>
       \<not> starts_with (''/'' @ [CHR 0x5C]) path \<and> \<not> list_ex is_control path"
    using body safeReturnTo_shape [of "UString (at_returnTo transaction)"] by blast
  from sign_in_user_Inr [OF user] deps tx payload code' sealed s4 path show ?thesis by blast
qed

section \<open>The routes on the in-memory stores\<close>

record provider =
  pv_request :: "auth_failure + AuthorizationRequest"
  pv_exchange :: "string \<Rightarrow> string \<Rightarrow> auth_failure + TokenResponse"
  pv_verify :: "string \<Rightarrow> auth_failure + VerifiedClaims"
  pv_endSession :: "string \<Rightarrow> auth_failure + string option"

record deployment =
  dp_cookie :: AuthCookieConfig
  dp_appUrl :: string
  dp_secret :: string
  dp_source :: auth_source

definition world_upsert :: "auth_source \<Rightarrow> auth_world user_upsert" where
  "world_upsert source claims w = (case mem_upsert source claims (aw_users w) of (u, r) \<Rightarrow> (Inr u, w\<lparr>aw_users := r\<rparr>))"

definition mem_routes ::
    "deployment \<Rightarrow> provider \<Rightarrow> (string \<Rightarrow> string) \<Rightarrow> string \<Rightarrow> int \<Rightarrow> auth_world AuthRoutesDeps" where
  "mem_routes dp pv hash random now =
     \<lparr>d_client = Some \<lparr>cl_request = (\<lambda>w. (pv_request pv, w)), cl_exchange = (\<lambda>c v w. (pv_exchange pv c v, w)),
        cl_endSession = (\<lambda>a w. (pv_endSession pv a, w))\<rparr>,
      d_idTokenVerifier = Some (\<lambda>token w. (pv_verify pv token, w)),
      d_upsert = world_upsert (dp_source dp),
      d_create = (\<lambda>u ttl w. case mem_create hash random u ttl now (aw_sessions w) of
        (created, st) \<Rightarrow> (Inr created, w\<lparr>aw_sessions := st\<rparr>)),
      d_destroy = (\<lambda>c w. case mem_destroy hash c (aw_sessions w) of (b, st) \<Rightarrow> (Inr b, w\<lparr>aw_sessions := st\<rparr>)),
      d_browser = mem_browser hash (cc_name (dp_cookie dp)) now,
      d_cookie = dp_cookie dp, d_appUrl = dp_appUrl dp, d_transactionSecret = dp_secret dp, d_mode = Mode_Oidc\<rparr>"

lemma mem_routes_simps [simp]:
  "d_client (mem_routes dp pv hash random now) =
     Some \<lparr>cl_request = (\<lambda>w. (pv_request pv, w)), cl_exchange = (\<lambda>c v w. (pv_exchange pv c v, w)),
        cl_endSession = (\<lambda>a w. (pv_endSession pv a, w))\<rparr>"
  "d_idTokenVerifier (mem_routes dp pv hash random now) = Some (\<lambda>token w. (pv_verify pv token, w))"
  "d_upsert (mem_routes dp pv hash random now) = world_upsert (dp_source dp)"
  "d_browser (mem_routes dp pv hash random now) = mem_browser hash (cc_name (dp_cookie dp)) now"
  "d_cookie (mem_routes dp pv hash random now) = dp_cookie dp"
  "d_appUrl (mem_routes dp pv hash random now) = dp_appUrl dp"
  "d_transactionSecret (mem_routes dp pv hash random now) = dp_secret dp"
  "txCookieName (mem_routes dp pv hash random now) = cc_name (dp_cookie dp) @ ''_tx''"
  by (simp_all add: mem_routes_def txCookieName_def TRANSACTION_COOKIE_SUFFIX_def)

text \<open>
  What base64url text gives, and a cookie configuration that can be written: a short valid
  name, a domain without a semicolon and a positive lifetime.
\<close>

definition url_safe_platform :: "token_platform \<Rightarrow> bool" where
  "url_safe_platform tp \<longleftrightarrow> (\<forall>fs. list_all is_url_safe (tp_encode tp fs)) \<and> (\<forall>p s. list_all is_url_safe (tp_sign tp p s))"

definition cookie_config_ok :: "AuthCookieConfig \<Rightarrow> bool" where
  "cookie_config_ok c \<longleftrightarrow> isValidCookieName (cc_name c) \<and> cc_name c \<noteq> ''__proto__'' \<and> length (cc_name c) \<le> 1000 \<and>
     (case cc_domain c of None \<Rightarrow> True | Some d \<Rightarrow> CHR '';'' \<notin> set d) \<and> 0 < cc_ttlSeconds c"

lemma url_safe_value_char: "is_url_safe c \<Longrightarrow> is_cookie_value_char c"
  unfolding is_url_safe_def is_cookie_value_char_def by (elim disjE) simp_all

lemma url_safe_cookie: "list_all is_url_safe s \<Longrightarrow> COOKIE_VALUE_PATTERN s"
  unfolding COOKIE_VALUE_PATTERN_def by (induction s) (simp_all add: url_safe_value_char)

lemma url_safe_no_dot: "is_url_safe c \<Longrightarrow> c \<noteq> CHR ''.''"
  by (auto simp: is_url_safe_def is_lower_alnum_def is_upper_def)

lemma url_safe_dotless: "url_safe_platform tp \<Longrightarrow> dotless tp"
  using url_safe_no_dot unfolding url_safe_platform_def dotless_def list_all_iff by blast

lemma sealed_cookie_value: "url_safe_platform tp \<Longrightarrow> COOKIE_VALUE_PATTERN (sealTransaction tp t secret)"
  using url_safe_cookie
  by (simp add: url_safe_platform_def sealTransaction_def Let_def COOKIE_VALUE_PATTERN_def is_cookie_value_char_def)

lemma looksLike_cookie_value: "looksLikeAuthSessionId c \<Longrightarrow> COOKIE_VALUE_PATTERN c \<and> c \<noteq> [] \<and> length c \<le> 128"
  by (auto simp: looksLikeAuthSessionId_def url_safe_cookie)

lemma tx_name:
  assumes "cookie_config_ok c"
  shows "COOKIE_NAME_PATTERN (cc_name c @ ''_tx'')" "cc_name c @ ''_tx'' \<noteq> ''__proto__''"
    "cc_name c \<noteq> cc_name c @ ''_tx''"
proof -
  show "COOKIE_NAME_PATTERN (cc_name c @ ''_tx'')"
    using assms
    by (simp add: cookie_config_ok_def isValidCookieName_def COOKIE_NAME_PATTERN_def is_cookie_name_char_def is_lower_alnum_def)
  show "cc_name c @ ''_tx'' \<noteq> ''__proto__''"
  proof
    assume "cc_name c @ ''_tx'' = ''__proto__''"
    then have "last (cc_name c @ ''_tx'') = last ''__proto__''" by (rule arg_cong)
    then show False by simp
  qed
qed simp

text \<open>One cookie alone in the header.\<close>

lemma single_cookie:
  assumes "COOKIE_NAME_PATTERN n" "n \<noteq> ''__proto__''" "COOKIE_VALUE_PATTERN v" "length n + length v < 8192"
  shows "map_of (parseCookies (Some (cookie_header [(n, v)]))) = [n \<mapsto> v]"
  using parse_header [of "[(n, v)]"] assms by (simp add: jar_ok_def cookie_header_def)

section \<open>From the sign-in button to signing out\<close>

definition login_seal :: "platform \<Rightarrow> deployment \<Rightarrow> AuthorizationRequest \<Rightarrow> signin_request \<Rightarrow> int \<Rightarrow> string" where
  "login_seal pf dp request req now = sealTransaction (pf_token pf) (login_transaction request req now) (dp_secret dp)"

text \<open>The transaction of this sign-in survives encoding and decoding.\<close>

definition seal_decodes :: "platform \<Rightarrow> AuthorizationRequest \<Rightarrow> signin_request \<Rightarrow> int \<Rightarrow> bool" where
  "seal_decodes pf request req now \<longleftrightarrow> (let fs = transaction_fields (login_transaction request req now) in
     tp_decode (pf_token pf) (tp_encode (pf_token pf) fs) = Some fs)"

lemma login_redirects:
  assumes "url_safe_platform (pf_token pf)" "cookie_config_ok (dp_cookie dp)" "pv_request pv = Inr request"
  shows "\<exists>cookie. auth_login pf (mem_routes dp pv hash random now) req now w =
      (reply_with (Redirect (ar_url request)) [cookie] None ''redirected'', w) \<and>
    serializeCookie (cc_name (dp_cookie dp) @ ''_tx'') (login_seal pf dp request req now)
      (transactionCookieAttributes (dp_cookie dp) (Some TRANSACTION_TTL_SECONDS)) now = Inr cookie"
  using assms tx_name(1) [OF assms(2)] sealed_cookie_value [OF assms(1)]
  by (simp add: auth_login_def login_seal_def or_throw_def serializeCookie_def)

lemma login_seal_opens:
  assumes "url_safe_platform (pf_token pf)" "length (login_seal pf dp request req t0) \<le> 4096"
    and "t1 div 1000 < t0 div 1000 + TRANSACTION_TTL_SECONDS" "seal_decodes pf request req t0"
  shows "openTransaction (pf_token pf) (UString (login_seal pf dp request req t0)) (dp_secret dp) t1 =
    Some (login_transaction request req t0)"
proof -
  have "(of_int (t1 div 1000) :: rat) < at_exp (login_transaction request req t0)"
    using assms(3) unfolding login_transaction_def by (simp only: AuthTransaction.simps of_int_less_iff)
  then show ?thesis
    using openTransaction_seal [OF url_safe_dotless [OF assms(1)], of "login_transaction request req t0" "dp_secret dp" t1] assms
    by (simp add: login_seal_def seal_decodes_def Let_def)
qed

text \<open>The provider sends the browser back, with the cookies it holds.\<close>

definition returning :: "(string \<times> string) list \<Rightarrow> AuthorizationRequest \<Rightarrow> string \<Rightarrow> signin_request \<Rightarrow> signin_request" where
  "returning jar request code req =
     req\<lparr>rq_cookies := Some (cookie_header jar), rq_error := UOther ''undefined'',
         rq_state := UString (ar_state request), rq_code := UString code\<rparr>"

definition back_from_provider :: "deployment \<Rightarrow> string \<Rightarrow> AuthorizationRequest \<Rightarrow> string \<Rightarrow> signin_request \<Rightarrow> signin_request" where
  "back_from_provider dp sealed request code req =
     returning [(cc_name (dp_cookie dp) @ ''_tx'', sealed)] request code req"

lemma callback_completes:
  assumes "url_safe_platform (pf_token pf)" "cookie_config_ok (dp_cookie dp)" "looksLikeAuthSessionId random"
    and "length (login_seal pf dp request req t0) \<le> 4096" "t1 div 1000 < t0 div 1000 + TRANSACTION_TTL_SECONDS"
    and "code \<noteq> []" "length code \<le> 4096"
    and "pv_exchange pv code (ar_codeVerifier request) = Inr tokens" "pv_verify pv (tr_idToken tokens) = Inr claims"
    and "vc_nonce claims = Some (ar_nonce request)" "mem_upsert (dp_source dp) claims (aw_users w) = (u, users)"
    and "seal_decodes pf request req t0"
  shows "\<exists>clearTx session. clearCookie (cc_name (dp_cookie dp) @ ''_tx'') (transactionCookieAttributes (dp_cookie dp) None) t1 = Inr clearTx \<and>
    serializeCookie (cc_name (dp_cookie dp)) random
      (cookieAttributes (dp_cookie dp) (Some (cc_ttlSeconds (dp_cookie dp)))) t1 = Inr session \<and>
    auth_callback pf (mem_routes dp pv hash random t1)
        (back_from_provider dp (login_seal pf dp request req t0) request code req) t1 w =
      (reply_with (Redirect (dp_appUrl dp @ safeReturnTo (rq_returnTo req))) [clearTx, session] None ''success'',
       w\<lparr>aw_users := users, aw_sessions := AList.update (hash random)
            (new_record (hash random) (au_userId u) (cc_ttlSeconds (dp_cookie dp)) t1) (aw_sessions w)\<rparr>)"
proof -
  let ?name = "cc_name (dp_cookie dp)" and ?seal = "login_seal pf dp request req t0"
  let ?req = "back_from_provider dp ?seal request code req"
  let ?R = "mem_routes dp pv hash random t1"
  have small: "length (?name @ ''_tx'') + length ?seal < 8192"
    using assms(2,4) by (simp add: cookie_config_ok_def)
  have parsed: "map_of (parseCookies (rq_cookies ?req)) = [?name @ ''_tx'' \<mapsto> ?seal]"
    using single_cookie [OF tx_name(1,2) [OF assms(2)] _ small] sealed_cookie_value [OF assms(1)]
    by (simp add: back_from_provider_def returning_def login_seal_def)
  have pending: "pending_transaction pf ?R ?req t1 = Some (login_transaction request req t0)"
    using login_seal_opens [OF assms(1,4,5,12)] by (simp add: pending_transaction_def parsed opt_unknown_def)
  have no_session: "cookieFrom ?name (rq_cookies ?req) = None"
    using tx_name(3) [OF assms(2)] by (simp add: cookieFrom_def parsed truthy_text_def)
  have name: "COOKIE_NAME_PATTERN ?name" using assms(2) by (simp add: cookie_config_ok_def isValidCookieName_def)
  have user: "sign_in_user ?R \<lparr>cl_request = (\<lambda>w. (pv_request pv, w)), cl_exchange = (\<lambda>c v w. (pv_exchange pv c v, w)),
        cl_endSession = (\<lambda>a w. (pv_endSession pv a, w))\<rparr> (\<lambda>token w. (pv_verify pv token, w)) code
      (login_transaction request req t0) w = (Inr u, w\<lparr>aw_users := users\<rparr>)"
    using assms(8-11)
    by (simp add: sign_in_user_def login_transaction_def assertNonceMatches_def safeEquals_def opt_unknown_def unless_def world_upsert_def)
  have repl: "replace_session ?R ?req u (w\<lparr>aw_users := users\<rparr>) =
      (Inr (random, new_record (hash random) (au_userId u) (cc_ttlSeconds (dp_cookie dp)) t1),
       w\<lparr>aw_users := users, aw_sessions := AList.update (hash random)
            (new_record (hash random) (au_userId u) (cc_ttlSeconds (dp_cookie dp)) t1) (aw_sessions w)\<rparr>)"
    using no_session
    by (simp add: replace_session_def mem_browser_def, simp add: mem_routes_def mem_create_def mintAuthSessionId_def Let_def)
  have fields: "rq_error ?req = UOther ''undefined''" "valid_code (rq_code ?req) = Some code"
    "safeEquals (rq_state ?req) (UString (at_state (login_transaction request req t0)))"
    using assms(6,7) by (simp_all add: back_from_provider_def returning_def valid_code_def safeEquals_text login_transaction_def)
  have target: "safeReturnTo (UString (at_returnTo (login_transaction request req t0))) = safeReturnTo (rq_returnTo req)"
    by (simp add: login_transaction_def safeReturnTo_idem)
  show ?thesis
    using name tx_name(1) [OF assms(2)] looksLike_cookie_value [OF assms(3)]
    by (simp add: auth_callback_def or_throw_def clearCookie_def serializeCookie_def COOKIE_VALUE_PATTERN_def [of "[]"]
        fields pending user repl target complete_sign_in_def)
qed

lemma session_cookie:
  assumes "cookie_config_ok c" "looksLikeAuthSessionId random"
  shows "cookieFrom (cc_name c) (Some (cookie_header [(cc_name c, random)])) = Some random"
  using single_cookie [of "cc_name c" random] assms looksLike_cookie_value [OF assms(2)]
  by (simp add: cookieFrom_def cookie_config_ok_def isValidCookieName_def truthy_Some)

lemma authenticated_by_cookie:
  assumes "cookie_config_ok c" "looksLikeAuthSessionId random" "rq_cookie areq = Some (cookie_header [(cc_name c, random)])"
    and "map_of (aw_sessions w) (hash random) = Some r" "now < as_expiresAt r" "mem_findById (as_userId r) (aw_users w) = Some u"
  shows "ao_verdict (fst (authenticate resolver (Some (mem_browser hash (cc_name c) now)) areq now w)) =
    Proceed u (Some (as_authSessionId r))"
  using assms session_cookie [OF assms(1,2)]
  by (simp add: authenticate_def authenticateSession_def mem_browser_def mem_resolve_def Let_def)

lemma refused_after_sign_out:
  assumes "cookie_config_ok c" "looksLikeAuthSessionId random" "rq_cookie areq = Some (cookie_header [(cc_name c, random)])"
    and "map_of (aw_sessions w) (hash random) = None"
  shows "\<exists>reply. ao_verdict (fst (authenticate resolver (Some (mem_browser hash (cc_name c) now)) areq now w)) = Refuse reply \<and>
    rp_status reply = 401"
  using assms session_cookie [OF assms(1,2)]
  by (simp add: authenticate_def authenticateSession_def mem_browser_def mem_resolve_def Let_def auth_error_def sendError_def)

lemma logout_destroys:
  assumes "cookie_config_ok (dp_cookie dp)" "looksLikeAuthSessionId random"
    and "rq_cookies req = Some (cookie_header [(cc_name (dp_cookie dp), random)])"
  shows "\<exists>clear body. clearCookie (cc_name (dp_cookie dp)) (cookieAttributes (dp_cookie dp) None) now = Inr clear \<and>
    auth_logout (mem_routes dp pv hash fresh now) req now w =
      (reply_with (Ok_Json ((''signedOut'', JBool True) # body)) [clear] None ''ok'',
       w\<lparr>aw_sessions := AList.delete (hash random) (aw_sessions w)\<rparr>)"
proof -
  have "COOKIE_NAME_PATTERN (cc_name (dp_cookie dp))"
    using assms(1) by (simp add: cookie_config_ok_def isValidCookieName_def)
  then show ?thesis
    using assms(2,3) session_cookie [OF assms(1,2)]
    by (simp add: auth_logout_def mem_routes_def mem_browser_def mem_destroy_def or_throw_def clearCookie_def
        serializeCookie_def COOKIE_VALUE_PATTERN_def [of "[]"] Let_def split: prod.splits sum.splits) blast
qed

text \<open>What the browser holds after each answer.\<close>

lemma config_attributes:
  assumes "cookie_config_ok c"
  shows "attributes_ok (cookieAttributes c age)" "attributes_ok (transactionCookieAttributes c age)"
  using assms
  by (simp_all add: cookie_config_ok_def attributes_ok_def cookieAttributes_def transactionCookieAttributes_def
      TRANSACTION_COOKIE_PATH_def)

lemma jar_after_login:
  assumes "cookie_config_ok c"
    and "serializeCookie (cc_name c @ ''_tx'') sealed (transactionCookieAttributes c (Some TRANSACTION_TTL_SECONDS)) t = Inr cookie"
  shows "ua_receive [cookie] [] = [(cc_name c @ ''_tx'', sealed)]"
  using ua_set_cookie [OF assms(2) config_attributes(2) [OF assms(1)], of "[]"]
  by (simp add: ua_receive_def transactionCookieAttributes_def cookieAttributes_def TRANSACTION_TTL_SECONDS_def)

lemma jar_after_callback:
  assumes "cookie_config_ok c" "clearCookie (cc_name c @ ''_tx'') (transactionCookieAttributes c None) t = Inr clearTx"
    and "serializeCookie (cc_name c) random (cookieAttributes c (Some (cc_ttlSeconds c))) t = Inr session"
  shows "ua_receive [clearTx, session] [(cc_name c @ ''_tx'', sealed)] = [(cc_name c, random)]"
  using ua_clear_cookie [OF assms(2) config_attributes(2) [OF assms(1)], of "[(cc_name c @ ''_tx'', sealed)]"]
    ua_set_cookie [OF assms(3) config_attributes(1) [OF assms(1)], of "[]"] assms(1)
  by (simp add: ua_receive_def cookieAttributes_def cookie_config_ok_def)

lemma jar_after_logout:
  assumes "cookie_config_ok c" "clearCookie (cc_name c) (cookieAttributes c None) t = Inr clear"
  shows "ua_receive [clear] [(cc_name c, random)] = []"
  using ua_clear_cookie [OF assms(2) config_attributes(1) [OF assms(1)], of "[(cc_name c, random)]"]
  by (simp add: ua_receive_def)


text \<open>A sign-in of one student.\<close>

definition demo_ar :: AuthorizationRequest where
  "demo_ar = \<lparr>ar_url = ''https://idp/authorize'', ar_state = ''st'', ar_nonce = ''no'', ar_codeVerifier = ''cv''\<rparr>"

definition demo_login :: signin_request where
  "demo_login = \<lparr>rq_cookies = None, rq_html = True, rq_returnTo = UString ''/labs'', rq_error = UOther [],
     rq_state = UOther [], rq_code = UOther []\<rparr>"

definition demo_platform :: platform where
  "demo_platform = \<lparr>pf_token = \<lparr>tp_sign = (\<lambda>p s. ''sig''), tp_encode = (\<lambda>fs. ''payload''),
       tp_decode = (\<lambda>p. Some (transaction_fields (login_transaction demo_ar demo_login 0)))\<rparr>,
     pf_location = (\<lambda>path reason. path @ ''?signin='' @ reason)\<rparr>"

definition demo_deployment :: deployment where
  "demo_deployment = \<lparr>dp_cookie = \<lparr>cc_name = ''s'', cc_secure = True, cc_domain = None, cc_ttlSeconds = 60\<rparr>,
     dp_appUrl = ''https://app'', dp_secret = ''k'', dp_source = Src_Oidc\<rparr>"

definition demo_provider :: provider where
  "demo_provider = \<lparr>pv_request = Inr demo_ar,
     pv_exchange = (\<lambda>c v. Inr \<lparr>tr_idToken = ''jwt'', tr_accessToken = None, tr_tokenType = None, tr_expiresIn = None\<rparr>),
     pv_verify = (\<lambda>t. Inr ((demo_claims ''ada'')\<lparr>vc_nonce := Some ''no''\<rparr>)), pv_endSession = (\<lambda>a. Inr None)\<rparr>"

definition demo_world :: auth_world where
  "demo_world = \<lparr>aw_sessions = [], aw_users = empty_users\<rparr>"

lemma demo_url_safe: "url_safe_platform (pf_token demo_platform)"
  by (simp add: url_safe_platform_def demo_platform_def is_url_safe_def is_lower_alnum_def)

definition demo_asked :: "http_answer \<times> auth_world" where
  "demo_asked = auth_login demo_platform (mem_routes demo_deployment demo_provider demo_hash [] 0) demo_login 0 demo_world"

definition demo_signed_in :: "http_answer \<times> auth_world" where
  "demo_signed_in = auth_callback demo_platform (mem_routes demo_deployment demo_provider demo_hash ''cookie-of-student-1'' 5000)
     (returning (ua_receive (an_setCookie (fst demo_asked)) []) demo_ar ''code'' demo_login) 5000 (snd demo_asked)"


theorem callback_signs_in_only_verified_witness:
  "\<exists>ans w1 payload. auth_callback demo_platform (mem_routes demo_deployment demo_provider demo_hash ''cookie-of-student-1'' 5000)
       (back_from_provider demo_deployment (login_seal demo_platform demo_deployment demo_ar demo_login 0) demo_ar ''code'' demo_login)
       5000 demo_world = (ans, w1) \<and> an_outcome ans = ''success'' \<and>
     map_of (parseCookies (rq_cookies (back_from_provider demo_deployment
       (login_seal demo_platform demo_deployment demo_ar demo_login 0) demo_ar ''code'' demo_login))) ''s_tx'' =
       Some (payload @ ''.'' @ ''sig'')"
proof -
  let ?R = "mem_routes demo_deployment demo_provider demo_hash ''cookie-of-student-1'' 5000"
  let ?req = "back_from_provider demo_deployment (login_seal demo_platform demo_deployment demo_ar demo_login 0) demo_ar ''code'' demo_login"
  have "an_outcome (fst (auth_callback demo_platform ?R ?req 5000 demo_world)) = ''success''" by code_simp
  then obtain ans w1 where run: "auth_callback demo_platform ?R ?req 5000 demo_world = (ans, w1)" "an_outcome ans = ''success''"
    by (cases "auth_callback demo_platform ?R ?req 5000 demo_world") simp
  have names: "txCookieName ?R = ''s_tx''" "tp_sign (pf_token demo_platform) p s = ''sig''" for p s
    by (simp_all add: demo_deployment_def demo_platform_def)
  from callback_signs_in_only_verified [OF run] run show ?thesis unfolding names by blast
qed

end
