(* ===== verification/Schema_Migrator.thy ===== *)
theory Schema_Migrator
  imports Js_Text
begin

text \<open>
  Schema management (\<^verbatim>\<open>services/progress/src/postgres/migrator.ts\<close>): which files of
  the migrations directory a release ships, the ledger table
  \<^verbatim>\<open>schema_migrations\<close>, the run that applies what a database has not seen, the
  read-only check that replaces it when automatic migration is off, and the
  refusal of a schema a newer release has migrated.

  A database is its ledger (absent before the first run), whether the ledger has
  the column \<^verbatim>\<open>older_code_runs\<close>, and everything else, of an arbitrary type. The
  SQL of a migration file is executed by the parameter \<open>exec\<close>, which either fails
  with a message or returns the changed rest of the database; SHA-256 is the
  parameter \<open>sha256\<close>. The advisory lock makes runs follow one another, so several
  instances starting together are a list of runs. What the runner logs is left out, and
  so is a file that is listed and then cannot be read, which ends a start before it
  touches the database.
\<close>

section \<open>Migration files\<close>

datatype RollbackClass = older_code_runs | restore_required

record Migration =
  mg_version :: string
  mg_filename :: string
  mg_sql :: string
  mg_checksum :: string
  mg_rollback :: "RollbackClass option"

datatype MigrationError =
    DirectoryUnreadable string
  | NotNamedAsMigration string
  | NoMigrationsFound
  | NewerSchema "string list"
  | RestoreRequired "string list"
  | ModifiedAfterApplied string
  | MigrationFailed string string
  | LacksMigrations "string list"

definition dot_sql :: string where
  "dot_sql = ''.sql''"

definition has_sql_suffix :: "string \<Rightarrow> bool" where
  "has_sql_suffix s \<longleftrightarrow> drop (length s - length dot_sql) s = dot_sql"

definition without_sql_suffix :: "string \<Rightarrow> string" where
  "without_sql_suffix s = (if has_sql_suffix s then take (length s - length dot_sql) s else s)"

definition is_name_char :: "char \<Rightarrow> bool" where
  "is_name_char c \<longleftrightarrow> c \<in> set ''abcdefghijklmnopqrstuvwxyz0123456789_-''"

definition matches_migration_file_pattern :: "string \<Rightarrow> bool" where
  "matches_migration_file_pattern s =
     (let rest = dropWhile is_digit s in
      3 \<le> length (takeWhile is_digit s) \<and>
      (case rest of
         [] \<Rightarrow> False
       | c # name \<Rightarrow>
           c = CHR ''_'' \<and> has_sql_suffix name \<and>
           without_sql_suffix name \<noteq> [] \<and> list_all is_name_char (without_sql_suffix name)))"

text \<open>The lines of a text as the multiline anchors see them.\<close>

fun text_lines :: "string \<Rightarrow> string list" where
  "text_lines [] = [[]]"
| "text_lines (c # s) =
     (if c = CHR 0x0A \<or> c = CHR 0x0D then [] # text_lines s
      else (case text_lines s of l # ls \<Rightarrow> (c # l) # ls | [] \<Rightarrow> [[c]]))"

definition strip_blanks :: "string \<Rightarrow> string" where
  "strip_blanks s = rev (dropWhile (\<lambda>c. c = CHR '' '' \<or> c = CHR 0x09) (rev s))"

definition rollback_line :: "string \<Rightarrow> RollbackClass option" where
  "rollback_line l =
     (if strip_blanks l = ''-- rollback: older-code-runs'' then Some older_code_runs
      else if strip_blanks l = ''-- rollback: restore-required'' then Some restore_required
      else None)"

definition rollback_header :: "string \<Rightarrow> RollbackClass option" where
  "rollback_header sql =
     (case List.map_filter rollback_line (text_lines sql) of [] \<Rightarrow> None | c # _ \<Rightarrow> Some c)"

definition rollback_class_before_headers :: "(string \<times> RollbackClass) list" where
  "rollback_class_before_headers =
     [(''001_progress'', older_code_runs),
      (''002_sessions'', older_code_runs),
      (''003_users_and_ownership'', older_code_runs),
      (''004_auth_sessions'', older_code_runs),
      (''005_session_recovery'', older_code_runs),
      (''006_access_entitlements'', older_code_runs),
      (''007_session_shell_uid'', older_code_runs),
      (''008_session_events'', older_code_runs),
      (''009_access_plans_and_kinds'', older_code_runs),
      (''010_billing'', restore_required)]"

definition read_migration :: "(string \<Rightarrow> string) \<Rightarrow> string \<Rightarrow> string \<Rightarrow> Migration" where
  "read_migration sha256 filename sql =
     (let version = without_sql_suffix filename in
      \<lparr>mg_version = version, mg_filename = filename, mg_sql = sql, mg_checksum = sha256 sql,
       mg_rollback = (case rollback_header sql of
                        Some c \<Rightarrow> Some c
                      | None \<Rightarrow> map_of rollback_class_before_headers version)\<rparr>)"

text \<open>
  A directory is the error of reading it or its entries, each with its contents,
  in the order the file system lists them.
\<close>

type_synonym directory = "string + (string \<times> string) list"

fun read_entries :: "(string \<Rightarrow> string) \<Rightarrow> (string \<times> string) list \<Rightarrow> MigrationError + Migration list" where
  "read_entries sha256 [] = Inr []"
| "read_entries sha256 ((filename, sql) # entries) =
     (if \<not> matches_migration_file_pattern filename then
        (if has_sql_suffix filename then Inl (NotNamedAsMigration filename)
         else read_entries sha256 entries)
      else and_then (read_entries sha256 entries) (\<lambda>ms. Inr (read_migration sha256 filename sql # ms)))"

definition loadMigrations :: "(string \<Rightarrow> string) \<Rightarrow> directory \<Rightarrow> MigrationError + Migration list" where
  "loadMigrations sha256 dir =
     (case dir of
        Inl cause \<Rightarrow> Inl (DirectoryUnreadable cause)
      | Inr entries \<Rightarrow>
          and_then (read_entries sha256 (sort_by (\<lambda>a b. units_le (fst a) (fst b)) entries))
            (\<lambda>ms. if ms = [] then Inl NoMigrationsFound else Inr ms))"

definition olderCodeRuns :: "Migration \<Rightarrow> bool option" where
  "olderCodeRuns m = map_option (\<lambda>c. c = older_code_runs) (mg_rollback m)"

section \<open>The ledger\<close>

record ledger_row =
  lr_version :: string
  lr_checksum :: string
  lr_older_code_runs :: "bool option"
  lr_applied_at :: int

record 'd database =
  db_ledger :: "ledger_row list option"
  db_column :: bool
  db_schema :: 'd

definition ledger_rows :: "'d database \<Rightarrow> ledger_row list" where
  "ledger_rows db = (case db_ledger db of None \<Rightarrow> [] | Some rows \<Rightarrow> rows)"

text \<open>
  \<^verbatim>\<open>CREATE TABLE IF NOT EXISTS\<close> and \<^verbatim>\<open>ALTER TABLE ... ADD COLUMN IF NOT EXISTS\<close>: a new
  column is \<^verbatim>\<open>NULL\<close> in every row.
\<close>

definition ensure_ledger :: "'d database \<Rightarrow> 'd database" where
  "ensure_ledger db =
     db\<lparr>db_ledger := Some (if db_column db then ledger_rows db
                          else map (\<lambda>r. r\<lparr>lr_older_code_runs := None\<rparr>) (ledger_rows db)),
        db_column := True\<rparr>"

definition applied_checksums :: "ledger_row list \<Rightarrow> string \<rightharpoonup> string" where
  "applied_checksums rows = map_of (map (\<lambda>r. (lr_version r, lr_checksum r)) rows)"

definition unknown_versions :: "ledger_row list \<Rightarrow> Migration list \<Rightarrow> string list" where
  "unknown_versions rows ms =
     sort_by units_le (filter (\<lambda>v. v \<notin> set (map mg_version ms)) (map lr_version rows))"

definition versionsOlderCodeCannotRun :: "'d database \<Rightarrow> string list \<Rightarrow> string list" where
  "versionsOlderCodeCannotRun db unknown =
     (if \<not> db_column db then []
      else sort_by units_le
             (map lr_version
               (filter (\<lambda>r. lr_version r \<in> set unknown \<and> lr_older_code_runs r = Some False) (ledger_rows db))))"

definition checkNewerSchema :: "'d database \<Rightarrow> string list \<Rightarrow> bool \<Rightarrow> MigrationError + unit" where
  "checkNewerSchema db unknown allowNewerSchema =
     (if unknown = [] then Inr ()
      else if \<not> allowNewerSchema then Inl (NewerSchema unknown)
      else let barred = versionsOlderCodeCannotRun db unknown in
           if barred \<noteq> [] then Inl (RestoreRequired barred) else Inr ())"

section \<open>Applying what is pending\<close>

record MigrationReport =
  rp_applied :: "string list"
  rp_skipped :: "string list"
  rp_unknown :: "string list"
  rp_initialized :: bool
  rp_ledgerStartedAt :: "int option"

text \<open>
  One migration, between \<^verbatim>\<open>BEGIN\<close> and \<^verbatim>\<open>COMMIT\<close>: its SQL, then its ledger row. An
  error of either rolls both back, so the caller keeps the database it had. The
  clock gives the time of the transaction that writes the n-th row.
\<close>

definition run_migration ::
  "(string \<Rightarrow> 'd \<Rightarrow> string + 'd) \<Rightarrow> (nat \<Rightarrow> int) \<Rightarrow> Migration \<Rightarrow> 'd database \<Rightarrow> string + 'd database" where
  "run_migration exec now m db =
     and_then (exec (mg_sql m) (db_schema db)) (\<lambda>schema.
       if mg_version m \<in> set (map lr_version (ledger_rows db)) then Inl ''duplicate key''
       else Inr (db\<lparr>db_ledger := Some (ledger_rows db @
                     [\<lparr>lr_version = mg_version m, lr_checksum = mg_checksum m,
                       lr_older_code_runs = olderCodeRuns m,
                       lr_applied_at = now (length (ledger_rows db))\<rparr>]),
                   db_schema := schema\<rparr>))"

fun apply_each ::
  "(string \<Rightarrow> 'd \<Rightarrow> string + 'd) \<Rightarrow> (nat \<Rightarrow> int) \<Rightarrow> (string \<rightharpoonup> string) \<Rightarrow> Migration list \<Rightarrow>
   MigrationReport \<Rightarrow> 'd database \<Rightarrow> (MigrationError + MigrationReport) \<times> 'd database" where
  "apply_each exec now applied [] report db = (Inr report, db)"
| "apply_each exec now applied (m # ms) report db =
     (case applied (mg_version m) of
        Some known \<Rightarrow>
          if known \<noteq> mg_checksum m then (Inl (ModifiedAfterApplied (mg_filename m)), db)
          else apply_each exec now applied ms (report\<lparr>rp_skipped := rp_skipped report @ [mg_version m]\<rparr>) db
      | None \<Rightarrow>
          (case run_migration exec now m db of
             Inl cause \<Rightarrow> (Inl (MigrationFailed (mg_filename m) cause), db)
           | Inr db' \<Rightarrow>
               apply_each exec now applied ms (report\<lparr>rp_applied := rp_applied report @ [mg_version m]\<rparr>) db'))"

text \<open>\<^verbatim>\<open>UPDATE schema_migrations ... WHERE m.older_code_runs IS NULL\<close>.\<close>

definition learn_class :: "Migration list \<Rightarrow> ledger_row \<Rightarrow> ledger_row" where
  "learn_class known r =
     (case lr_older_code_runs r of
        Some _ \<Rightarrow> r
      | None \<Rightarrow>
          (case map_of (map (\<lambda>m. (mg_version m, olderCodeRuns m)) known) (lr_version r) of
             None \<Rightarrow> r
           | Some runs \<Rightarrow> r\<lparr>lr_older_code_runs := runs\<rparr>))"

definition learn_classes :: "Migration list \<Rightarrow> MigrationReport \<Rightarrow> 'd database \<Rightarrow> 'd database" where
  "learn_classes ms report db =
     (let known = filter (\<lambda>m. mg_rollback m \<noteq> None) ms in
      if rp_skipped report \<noteq> [] \<and> known \<noteq> []
      then db\<lparr>db_ledger := Some (map (learn_class known) (ledger_rows db))\<rparr>
      else db)"

definition ledger_started_at :: "ledger_row list \<Rightarrow> int option" where
  "ledger_started_at rows =
     (case rows of
        [] \<Rightarrow> None
      | r # rs \<Rightarrow> Some (fold (\<lambda>x. min (lr_applied_at x)) rs (lr_applied_at r)))"

definition applyPending ::
  "(string \<Rightarrow> 'd \<Rightarrow> string + 'd) \<Rightarrow> (nat \<Rightarrow> int) \<Rightarrow> Migration list \<Rightarrow> bool \<Rightarrow> 'd database \<Rightarrow>
   (MigrationError + MigrationReport) \<times> 'd database" where
  "applyPending exec now ms allowNewerSchema db0 =
     (let db = ensure_ledger db0;
          rows = ledger_rows db;
          unknown = unknown_versions rows ms in
      case checkNewerSchema db unknown allowNewerSchema of
        Inl e \<Rightarrow> (Inl e, db)
      | Inr _ \<Rightarrow>
          (case apply_each exec now (applied_checksums rows) ms
                  \<lparr>rp_applied = [], rp_skipped = [], rp_unknown = unknown,
                   rp_initialized = (rows = []), rp_ledgerStartedAt = None\<rparr> db of
             (Inl e, db1) \<Rightarrow> (Inl e, db1)
           | (Inr report, db1) \<Rightarrow>
               let db2 = learn_classes ms report db1 in
               (Inr (report\<lparr>rp_ledgerStartedAt := ledger_started_at (ledger_rows db2)\<rparr>), db2)))"

definition migrate ::
  "(string \<Rightarrow> 'd \<Rightarrow> string + 'd) \<Rightarrow> (string \<Rightarrow> string) \<Rightarrow> (nat \<Rightarrow> int) \<Rightarrow> directory \<Rightarrow> bool \<Rightarrow>
   'd database \<Rightarrow> (MigrationError + MigrationReport) \<times> 'd database" where
  "migrate exec sha256 now dir allowNewerSchema db =
     (case loadMigrations sha256 dir of
        Inl e \<Rightarrow> (Inl e, db)
      | Inr ms \<Rightarrow> applyPending exec now ms allowNewerSchema db)"

section \<open>The read-only check\<close>

fun verify_each ::
  "(string \<rightharpoonup> string) \<Rightarrow> Migration list \<Rightarrow> string list \<Rightarrow> string list \<Rightarrow>
   MigrationError + string list \<times> string list" where
  "verify_each applied [] pending skipped = Inr (pending, skipped)"
| "verify_each applied (m # ms) pending skipped =
     (case applied (mg_version m) of
        None \<Rightarrow> verify_each applied ms (pending @ [mg_version m]) skipped
      | Some known \<Rightarrow>
          if known \<noteq> mg_checksum m then Inl (ModifiedAfterApplied (mg_filename m))
          else verify_each applied ms pending (skipped @ [mg_version m]))"

definition verifySchema ::
  "(string \<Rightarrow> string) \<Rightarrow> directory \<Rightarrow> bool \<Rightarrow> 'd database \<Rightarrow> MigrationError + MigrationReport" where
  "verifySchema sha256 dir allowNewerSchema db =
     and_then (loadMigrations sha256 dir) (\<lambda>ms.
       let rows = ledger_rows db;
           unknown = unknown_versions rows ms in
       and_then (checkNewerSchema db unknown allowNewerSchema) (\<lambda>_.
         and_then (verify_each (applied_checksums rows) ms [] []) (\<lambda>(pending, skipped).
           if pending \<noteq> [] then Inl (LacksMigrations pending)
           else Inr \<lparr>rp_applied = [], rp_skipped = skipped, rp_unknown = unknown,
                     rp_initialized = False, rp_ledgerStartedAt = None\<rparr>)))"

section \<open>What a run does to the ledger\<close>

lemma ledger_rows_Some [simp]:
  "ledger_rows (db\<lparr>db_ledger := Some rows\<rparr>) = rows"
  "ledger_rows (db\<lparr>db_ledger := Some rows, db_column := b\<rparr>) = rows"
  "ledger_rows (db\<lparr>db_ledger := Some rows, db_schema := d\<rparr>) = rows"
  by (simp_all add: ledger_rows_def)

lemma ensure_ledger_simps [simp]:
  "db_column (ensure_ledger db)" "db_schema (ensure_ledger db) = db_schema db"
  "map lr_version (ledger_rows (ensure_ledger db)) = map lr_version (ledger_rows db)"
  "applied_checksums (ledger_rows (ensure_ledger db)) = applied_checksums (ledger_rows db)"
  by (simp_all add: ensure_ledger_def applied_checksums_def comp_def)

lemma ensure_ledger_idem: "db_column db \<Longrightarrow> db_ledger db \<noteq> None \<Longrightarrow> ensure_ledger db = db"
  by (auto simp: ensure_ledger_def ledger_rows_def)

lemma ensure_ledger_present: "db_column db \<Longrightarrow> r \<in> set (ledger_rows db) \<Longrightarrow> ensure_ledger db = db"
  by (cases "db_ledger db") (simp_all add: ledger_rows_def ensure_ledger_idem)

lemma unknown_versions_ensure [simp]:
  "unknown_versions (ledger_rows (ensure_ledger db)) ms = unknown_versions (ledger_rows db) ms"
  unfolding unknown_versions_def by simp

text \<open>The migrations a run executed and the rows it wrote for them.\<close>

definition recorded :: "Migration \<Rightarrow> ledger_row \<Rightarrow> bool" where
  "recorded m r \<longleftrightarrow> lr_version r = mg_version m \<and> lr_checksum r = mg_checksum m \<and>
                    lr_older_code_runs r = olderCodeRuns m"

fun execute_all :: "(string \<Rightarrow> 'd \<Rightarrow> string + 'd) \<Rightarrow> string list \<Rightarrow> 'd \<Rightarrow> string + 'd" where
  "execute_all exec [] d = Inr d"
| "execute_all exec (s # ss) d = and_then (exec s d) (execute_all exec ss)"

lemma execute_all_append:
  "execute_all exec (ss @ ts) d = and_then (execute_all exec ss d) (execute_all exec ts)"
  by (induction ss arbitrary: d) (simp_all add: and_then_def split: sum.splits)

definition grown ::
  "(string \<Rightarrow> 'd \<Rightarrow> string + 'd) \<Rightarrow> Migration list \<Rightarrow> ledger_row list \<Rightarrow> 'd database \<Rightarrow> 'd database \<Rightarrow> bool" where
  "grown exec ms new db db' \<longleftrightarrow>
     ledger_rows db' = ledger_rows db @ new \<and> list_all2 recorded ms new \<and>
     execute_all exec (map mg_sql ms) (db_schema db) = Inr (db_schema db') \<and>
     db_column db' = db_column db \<and> (db_ledger db \<noteq> None \<longrightarrow> db_ledger db' \<noteq> None) \<and>
     (distinct (map lr_version (ledger_rows db)) \<longrightarrow> distinct (map lr_version (ledger_rows db')))"

lemma grown_refl: "grown exec [] [] db db"
  by (simp add: grown_def)

lemma run_migration_grown:
  assumes "run_migration exec now m db = Inr db'"
  obtains r where "recorded m r" "\<And>ms new db''. grown exec ms new db' db'' \<Longrightarrow> grown exec (m # ms) (r # new) db db''"
proof -
  let ?r = "\<lparr>lr_version = mg_version m, lr_checksum = mg_checksum m, lr_older_code_runs = olderCodeRuns m,
             lr_applied_at = now (length (ledger_rows db))\<rparr>"
  from assms have "exec (mg_sql m) (db_schema db) = Inr (db_schema db')"
      "ledger_rows db' = ledger_rows db @ [?r]" "db_column db' = db_column db" "db_ledger db' \<noteq> None"
      "mg_version m \<notin> lr_version ` set (ledger_rows db)"
    by (auto simp: run_migration_def split: if_splits)
  note step = this
  show thesis
  proof (rule that [of ?r])
    fix ms new db''
    assume g: "grown exec ms new db' db''"
    have "distinct (map lr_version (ledger_rows db)) \<Longrightarrow> distinct (map lr_version (ledger_rows db'))"
      using step(2,5) by simp
    with g have "distinct (map lr_version (ledger_rows db)) \<Longrightarrow> distinct (map lr_version (ledger_rows db''))"
      unfolding grown_def by blast
    with g step(1-4) show "grown exec (m # ms) (?r # new) db db''"
      unfolding grown_def by (simp add: and_then_def recorded_def)
  qed (simp add: recorded_def)
qed

lemma apply_each_grown:
  "apply_each exec now applied ms report db = (res, db') \<Longrightarrow>
   \<exists>ms' new. set ms' \<subseteq> set ms \<and> grown exec ms' new db db'"
proof (induction ms arbitrary: report db)
  case Nil
  then show ?case using grown_refl by fastforce
next
  case (Cons m ms)
  show ?case
  proof (cases "\<exists>db1. applied (mg_version m) = None \<and> run_migration exec now m db = Inr db1")
    case True
    then obtain db1 where "applied (mg_version m) = None" and Inr: "run_migration exec now m db = Inr db1" by blast
    with Cons(2) have "\<exists>ms' new. set ms' \<subseteq> set ms \<and> grown exec ms' new db1 db'" using Cons.IH by auto
    then obtain ms' new where ih: "set ms' \<subseteq> set ms" "grown exec ms' new db1 db'" by blast
    from Inr obtain r where "grown exec (m # ms') (r # new) db db'" by (rule run_migration_grown) (use ih in blast)
    moreover from ih have "set (m # ms') \<subseteq> set (m # ms)" by auto
    ultimately show ?thesis by blast
  next
    case False
    with Cons(2) have "db' = db \<or> (\<exists>report'. apply_each exec now applied ms report' db = (res, db'))"
      by (auto split: option.splits if_splits sum.splits)
    then show ?thesis
    proof
      assume "db' = db"
      then show ?thesis using grown_refl by (intro exI [of _ "[]"]) simp
    next
      assume "\<exists>report'. apply_each exec now applied ms report' db = (res, db')"
      with Cons.IH obtain ms' new where "set ms' \<subseteq> set ms" "grown exec ms' new db db'" by blast
      then show ?thesis by (intro exI [of _ ms'] exI [of _ new]) auto
    qed
  qed
qed

lemma apply_each_returns:
  "apply_each exec now applied ms report db = (Inr report', db') \<Longrightarrow>
   (\<exists>new. grown exec (filter (\<lambda>m. applied (mg_version m) = None) ms) new db db') \<and>
   report' = report\<lparr>rp_applied := rp_applied report @
                       map mg_version (filter (\<lambda>m. applied (mg_version m) = None) ms),
                   rp_skipped := rp_skipped report @
                       map mg_version (filter (\<lambda>m. applied (mg_version m) \<noteq> None) ms)\<rparr> \<and>
   (\<forall>m\<in>set ms. applied (mg_version m) \<in> {None, Some (mg_checksum m)})"
proof (induction ms arbitrary: report db)
  case Nil
  then show ?case using grown_refl by fastforce
next
  case (Cons m ms)
  show ?case
  proof (cases "applied (mg_version m)")
    case (Some known)
    with Cons(2) have [simp]: "known = mg_checksum m" by (simp split: if_splits)
    from Cons(2) Some Cons.IH [of "report\<lparr>rp_skipped := rp_skipped report @ [mg_version m]\<rparr>" db]
    show ?thesis by simp
  next
    case None
    with Cons(2) obtain db1 where Inr: "run_migration exec now m db = Inr db1" by (auto split: sum.splits)
    from Cons(2) None Inr Cons.IH [of "report\<lparr>rp_applied := rp_applied report @ [mg_version m]\<rparr>" db1]
    have ih: "\<exists>new. grown exec (filter (\<lambda>m. applied (mg_version m) = None) ms) new db1 db'" and
      rest: "report' = report\<lparr>rp_applied := rp_applied report @ mg_version m #
                                map mg_version (filter (\<lambda>m. applied (mg_version m) = None) ms),
                              rp_skipped := rp_skipped report @
                                map mg_version (filter (\<lambda>m. applied (mg_version m) \<noteq> None) ms)\<rparr>"
      "\<forall>m\<in>set ms. applied (mg_version m) \<in> {None, Some (mg_checksum m)}" by simp_all
    from ih obtain new where "grown exec (filter (\<lambda>m. applied (mg_version m) = None) ms) new db1 db'" by blast
    with Inr have "\<exists>r. grown exec (m # filter (\<lambda>m. applied (mg_version m) = None) ms) (r # new) db db'"
      by (elim run_migration_grown) blast
    with rest None show ?thesis by auto
  qed
qed

lemma map_learn_class:
  "lr_version (learn_class known r) = lr_version r" "lr_checksum (learn_class known r) = lr_checksum r"
  "lr_applied_at (learn_class known r) = lr_applied_at r"
  "lr_older_code_runs r \<noteq> None \<Longrightarrow> learn_class known r = r"
  by (auto simp: learn_class_def split: option.splits)

lemma learn_classes_rows:
  "\<exists>f. ledger_rows (learn_classes ms report db) = map f (ledger_rows db) \<and>
       (\<forall>r. lr_version (f r) = lr_version r \<and> lr_checksum (f r) = lr_checksum r \<and>
            lr_applied_at (f r) = lr_applied_at r \<and> (lr_older_code_runs r \<noteq> None \<longrightarrow> f r = r))"
proof (cases "rp_skipped report \<noteq> [] \<and> filter (\<lambda>m. mg_rollback m \<noteq> None) ms \<noteq> []")
  case True
  then show ?thesis
    by (intro exI [of _ "learn_class (filter (\<lambda>m. mg_rollback m \<noteq> None) ms)"])
       (simp add: learn_classes_def Let_def map_learn_class)
next
  case False
  then show ?thesis by (intro exI [of _ id]) (auto simp: learn_classes_def Let_def)
qed

lemma learn_classes_simps [simp]:
  "db_column (learn_classes ms report db) = db_column db"
  "db_schema (learn_classes ms report db) = db_schema db"
  "db_ledger db \<noteq> None \<Longrightarrow> db_ledger (learn_classes ms report db) \<noteq> None"
  by (simp_all add: learn_classes_def Let_def)

text \<open>
  What one run leaves, whatever its result: the rows it found, with at most the
  class filled in, then one row for each migration it executed, in order.
\<close>

definition row_core :: "ledger_row \<Rightarrow> string \<times> string \<times> int" where
  "row_core r = (lr_version r, lr_checksum r, lr_applied_at r)"

lemma ensure_ledger_core [simp]: "map row_core (ledger_rows (ensure_ledger db)) = map row_core (ledger_rows db)"
  by (simp add: ensure_ledger_def row_core_def comp_def)

lemma read_entries_checksum:
  "read_entries sha256 entries = Inr ms \<Longrightarrow> m \<in> set ms \<Longrightarrow> mg_checksum m = sha256 (mg_sql m)"
  by (induction entries arbitrary: ms)
     (auto simp: read_migration_def Let_def split: if_splits)

lemma loadMigrations_checksum:
  "loadMigrations sha256 dir = Inr ms \<Longrightarrow> m \<in> set ms \<Longrightarrow> mg_checksum m = sha256 (mg_sql m)"
  by (auto simp: loadMigrations_def read_entries_checksum split: sum.splits if_splits)

lemma applyPending_leaves:
  assumes "applyPending exec now ms allow db = (res, db')"
  shows "\<exists>ms' new db1. set ms' \<subseteq> set ms \<and> grown exec ms' new (ensure_ledger db) db1 \<and>
           (db' = db1 \<or> (\<exists>report. db' = learn_classes ms report db1))"
proof (cases "checkNewerSchema (ensure_ledger db) (unknown_versions (ledger_rows db) ms) allow")
  case (Inl e)
  with assms show ?thesis using grown_refl
    by (intro exI [of _ "[]"] exI [of _ "ensure_ledger db"]) (auto simp: applyPending_def Let_def)
next
  case (Inr u)
  let ?report = "\<lparr>rp_applied = [], rp_skipped = [], rp_unknown = unknown_versions (ledger_rows db) ms,
                  rp_initialized = (ledger_rows (ensure_ledger db) = []), rp_ledgerStartedAt = None\<rparr>"
  obtain res1 db1 where
    run: "apply_each exec now (applied_checksums (ledger_rows db)) ms ?report (ensure_ledger db) = (res1, db1)"
    by fastforce
  from apply_each_grown [OF run] obtain ms' new where
    "set ms' \<subseteq> set ms" "grown exec ms' new (ensure_ledger db) db1" by blast
  moreover from assms Inr run have "db' = db1 \<or> (\<exists>report. db' = learn_classes ms report db1)"
    by (auto simp: applyPending_def Let_def split: sum.splits)
  ultimately show ?thesis by blast
qed

lemma recorded_checksums:
  "list_all2 recorded ms new \<Longrightarrow> \<forall>m\<in>set ms. mg_checksum m = sha256 (mg_sql m) \<Longrightarrow>
   map lr_checksum new = map sha256 (map mg_sql ms)"
  by (induction ms new rule: list_all2_induct) (auto simp: recorded_def)

section \<open>Sequences of runs\<close>

text \<open>
  Starts of any releases, one after another under the advisory lock: each with
  its clock, its own migrations directory and its override.
\<close>

type_synonym release_start = "(nat \<Rightarrow> int) \<times> directory \<times> bool"

definition start_release ::
  "(string \<Rightarrow> 'd \<Rightarrow> string + 'd) \<Rightarrow> (string \<Rightarrow> string) \<Rightarrow> release_start \<Rightarrow> 'd database \<Rightarrow> 'd database" where
  "start_release exec sha256 release_start db =
     (case release_start of (now, dir, allow) \<Rightarrow> snd (migrate exec sha256 now dir allow db))"

definition start_all ::
  "(string \<Rightarrow> 'd \<Rightarrow> string + 'd) \<Rightarrow> (string \<Rightarrow> string) \<Rightarrow> release_start list \<Rightarrow> 'd database \<Rightarrow> 'd database" where
  "start_all exec sha256 starts db = fold (start_release exec sha256) starts db"

definition empty_database :: "'d \<Rightarrow> 'd database" where
  "empty_database d = \<lparr>db_ledger = None, db_column = False, db_schema = d\<rparr>"

text \<open>The ledger tells, row by row, the SQL that made the schema out of \<open>d\<close>.\<close>

definition ledger_history ::
  "(string \<Rightarrow> 'd \<Rightarrow> string + 'd) \<Rightarrow> (string \<Rightarrow> string) \<Rightarrow> 'd \<Rightarrow> string list \<Rightarrow> 'd database \<Rightarrow> bool" where
  "ledger_history exec sha256 d sqls db \<longleftrightarrow>
     map lr_checksum (ledger_rows db) = map sha256 sqls \<and>
     execute_all exec sqls d = Inr (db_schema db) \<and>
     distinct (map lr_version (ledger_rows db))"

lemma map_row_core_eq:
  assumes "map row_core xs = map row_core ys"
  shows "map lr_version xs = map lr_version ys" "map lr_checksum xs = map lr_checksum ys"
proof -
  have "map (fst \<circ> row_core) xs = map (fst \<circ> row_core) ys" "map (fst \<circ> snd \<circ> row_core) xs = map (fst \<circ> snd \<circ> row_core) ys"
    using assms by (metis map_map)+
  then show "map lr_version xs = map lr_version ys" "map lr_checksum xs = map lr_checksum ys"
    by (simp_all add: row_core_def comp_def)
qed

lemma history_cong:
  "map row_core (ledger_rows db) = map row_core (ledger_rows db') \<Longrightarrow> db_schema db = db_schema db' \<Longrightarrow>
   ledger_history exec sha256 d sqls db = ledger_history exec sha256 d sqls db'"
  using map_row_core_eq [of "ledger_rows db" "ledger_rows db'"] by (simp add: ledger_history_def)

lemma learn_classes_core:
  "map row_core (ledger_rows (learn_classes ms report db)) = map row_core (ledger_rows db)"
proof -
  from learn_classes_rows [of ms report db] obtain f where
    "ledger_rows (learn_classes ms report db) = map f (ledger_rows db)" "\<forall>r. row_core (f r) = row_core r"
    by (auto simp: row_core_def)
  then show ?thesis by (simp add: comp_def)
qed

lemma grown_history:
  assumes "grown exec ms new db db'" "ledger_history exec sha256 d sqls db"
    and "\<forall>m\<in>set ms. mg_checksum m = sha256 (mg_sql m)"
  shows "ledger_history exec sha256 d (sqls @ map mg_sql ms) db'"
proof -
  from assms(1,2) have "distinct (map lr_version (ledger_rows db'))"
    unfolding grown_def ledger_history_def by blast
  with assms recorded_checksums [of ms new sha256] show ?thesis
    by (simp add: ledger_history_def grown_def execute_all_append and_then_def)
qed

lemma start_release_history:
  assumes h: "ledger_history exec sha256 d sqls db"
  shows "\<exists>more core. ledger_history exec sha256 d (sqls @ more) (start_release exec sha256 release_start db) \<and>
           map row_core (ledger_rows (start_release exec sha256 release_start db)) = map row_core (ledger_rows db) @ core"
proof -
  obtain now dir allow where release_start: "release_start = (now, dir, allow)" by (cases release_start)
  show ?thesis
  proof (cases "loadMigrations sha256 dir")
    case (Inl e)
    with h release_start show ?thesis
      by (intro exI [of _ "[]"]) (simp add: start_release_def migrate_def)
  next
    case (Inr ms)
    let ?db' = "start_release exec sha256 release_start db"
    obtain res where "applyPending exec now ms allow db = (res, ?db')"
      using Inr release_start by (cases "applyPending exec now ms allow db") (simp add: start_release_def migrate_def)
    from applyPending_leaves [OF this] obtain ms' new db1 where
      sub: "set ms' \<subseteq> set ms" and g: "grown exec ms' new (ensure_ledger db) db1"
      and last: "?db' = db1 \<or> (\<exists>report. ?db' = learn_classes ms report db1)" by blast
    have "ledger_history exec sha256 d sqls (ensure_ledger db)"
      using h by (subst history_cong [where db' = db]) simp_all
    with g sub have "ledger_history exec sha256 d (sqls @ map mg_sql ms') db1"
      using loadMigrations_checksum [OF Inr] by (intro grown_history) auto
    moreover have "map row_core (ledger_rows ?db') = map row_core (ledger_rows db1)" "db_schema ?db' = db_schema db1"
      using last by (auto simp: learn_classes_core)
    moreover have "map row_core (ledger_rows db1) = map row_core (ledger_rows db) @ map row_core new"
      using g by (simp add: grown_def)
    ultimately show ?thesis using history_cong by metis
  qed
qed

lemma start_all_history:
  "ledger_history exec sha256 d sqls db \<Longrightarrow>
   \<exists>more core. ledger_history exec sha256 d (sqls @ more) (start_all exec sha256 starts db) \<and>
     map row_core (ledger_rows (start_all exec sha256 starts db)) = map row_core (ledger_rows db) @ core"
proof (induction starts arbitrary: sqls db)
  case Nil
  then show ?case by (intro exI [of _ "[]"]) (simp add: start_all_def)
next
  case (Cons release_start starts)
  from start_release_history [OF Cons.prems] obtain more core where
    h: "ledger_history exec sha256 d (sqls @ more) (start_release exec sha256 release_start db)"
    and c: "map row_core (ledger_rows (start_release exec sha256 release_start db)) = map row_core (ledger_rows db) @ core"
    by blast
  from Cons.IH [OF h] c show ?case by (auto simp: start_all_def)
qed

lemma empty_ledger_history: "ledger_history exec sha256 d [] (empty_database d)"
  by (simp add: ledger_history_def empty_database_def ledger_rows_def)

text \<open>
  C17. Each migration runs at most once per database, and the ledger is the truth
  about it. After any starts of any releases, in any order, failing or not, the
  schema is what the SQL of the ledger's rows makes of the empty one, executed
  once each in the order of the rows, with no other statement in between; each
  row holds the checksum of the SQL that ran, no version has two rows, and later
  starts only append: they never edit the version, checksum or time of a row, take
  one away or run its SQL again.
\<close>

theorem schema_is_ledger_history:
  "\<exists>sqls more core.
     ledger_history exec sha256 d sqls (start_all exec sha256 before (empty_database d)) \<and>
     ledger_history exec sha256 d (sqls @ more) (start_all exec sha256 (before @ after) (empty_database d)) \<and>
     map row_core (ledger_rows (start_all exec sha256 (before @ after) (empty_database d))) =
       map row_core (ledger_rows (start_all exec sha256 before (empty_database d))) @ core"
proof -
  from start_all_history [OF empty_ledger_history] obtain sqls where
    h: "ledger_history exec sha256 d sqls (start_all exec sha256 before (empty_database d))" by fastforce
  from start_all_history [OF h, where starts = after] h show ?thesis
    by (auto simp: start_all_def)
qed

section \<open>The rollback boundary\<close>

definition pending_of :: "'d database \<Rightarrow> Migration list \<Rightarrow> Migration list" where
  "pending_of db ms = filter (\<lambda>m. applied_checksums (ledger_rows db) (mg_version m) = None) ms"

definition present_of :: "'d database \<Rightarrow> Migration list \<Rightarrow> Migration list" where
  "present_of db ms = filter (\<lambda>m. applied_checksums (ledger_rows db) (mg_version m) \<noteq> None) ms"

lemma migrate_returns:
  assumes "migrate exec sha256 now dir allow db = (Inr report, db')"
  obtains ms db1 new where
    "loadMigrations sha256 dir = Inr ms"
    "checkNewerSchema (ensure_ledger db) (unknown_versions (ledger_rows db) ms) allow = Inr ()"
    "grown exec (pending_of db ms) new (ensure_ledger db) db1"
    "db' = learn_classes ms report db1"
    "report = \<lparr>rp_applied = map mg_version (pending_of db ms), rp_skipped = map mg_version (present_of db ms),
               rp_unknown = unknown_versions (ledger_rows db) ms, rp_initialized = (ledger_rows db = []),
               rp_ledgerStartedAt = ledger_started_at (ledger_rows db')\<rparr>"
    "\<And>m. m \<in> set ms \<Longrightarrow> applied_checksums (ledger_rows db) (mg_version m) \<in> {None, Some (mg_checksum m)}"
proof -
  have empty: "(ledger_rows (ensure_ledger db) = []) = (ledger_rows db = [])"
    by (simp add: ensure_ledger_def)
  from assms obtain ms where ms: "loadMigrations sha256 dir = Inr ms"
    and run: "applyPending exec now ms allow db = (Inr report, db')"
    by (auto simp: migrate_def split: sum.splits)
  from run have check: "checkNewerSchema (ensure_ledger db) (unknown_versions (ledger_rows db) ms) allow = Inr ()"
    by (auto simp: applyPending_def Let_def split: sum.splits)
  let ?report = "\<lparr>rp_applied = [], rp_skipped = [], rp_unknown = unknown_versions (ledger_rows db) ms,
                  rp_initialized = (ledger_rows db = []), rp_ledgerStartedAt = None\<rparr>"
  from run check obtain report1 db1 where
    each: "apply_each exec now (applied_checksums (ledger_rows db)) ms ?report (ensure_ledger db) = (Inr report1, db1)"
    and db': "db' = learn_classes ms report1 db1"
    and report: "report = report1\<lparr>rp_ledgerStartedAt := ledger_started_at (ledger_rows db')\<rparr>"
    by (auto simp: applyPending_def Let_def empty split: sum.splits prod.splits)
  have "learn_classes ms report db1 = learn_classes ms report1 db1"
    by (simp add: learn_classes_def report)
  then have db'': "db' = learn_classes ms report db1" by (simp add: db')
  from apply_each_returns [OF each] obtain new where "grown exec (pending_of db ms) new (ensure_ledger db) db1"
    by (auto simp: pending_of_def)
  then show thesis
    by (rule that [OF ms check _ db'']) (use apply_each_returns [OF each] report in \<open>simp_all add: pending_of_def present_of_def\<close>)
qed

lemma start_release_keeps_class:
  assumes "db_column db" "r \<in> set (ledger_rows db)" "lr_older_code_runs r \<noteq> None"
  shows "r \<in> set (ledger_rows (start_release exec sha256 release_start db)) \<and> db_column (start_release exec sha256 release_start db)"
proof -
  obtain now dir allow where release_start: "release_start = (now, dir, allow)" by (cases release_start)
  have same: "ensure_ledger db = db"
    using assms(1,2) by (rule ensure_ledger_present)
  show ?thesis
  proof (cases "loadMigrations sha256 dir")
    case (Inl e)
    with assms release_start show ?thesis by (simp add: start_release_def migrate_def)
  next
    case (Inr ms)
    let ?db' = "start_release exec sha256 release_start db"
    obtain res where "applyPending exec now ms allow db = (res, ?db')"
      using Inr release_start by (cases "applyPending exec now ms allow db") (simp add: start_release_def migrate_def)
    from applyPending_leaves [OF this] obtain ms' new db1 where
      g: "grown exec ms' new db db1" and last: "?db' = db1 \<or> (\<exists>report. ?db' = learn_classes ms report db1)"
      by (auto simp: same)
    from g assms have r: "r \<in> set (ledger_rows db1)" "db_column db1" by (simp_all add: grown_def)
    from last show ?thesis
    proof
      assume "\<exists>report. ?db' = learn_classes ms report db1"
      then obtain report f where "?db' = learn_classes ms report db1" "ledger_rows ?db' = map f (ledger_rows db1)"
        "f r = r" using learn_classes_rows [of ms _ db1] assms(3) by metis
      with r show ?thesis by (auto intro: image_eqI [of r f r])
    qed (use r in simp)
  qed
qed

lemma start_all_keeps_class:
  "db_column db \<Longrightarrow> r \<in> set (ledger_rows db) \<Longrightarrow> lr_older_code_runs r \<noteq> None \<Longrightarrow>
   r \<in> set (ledger_rows (start_all exec sha256 starts db)) \<and> db_column (start_all exec sha256 starts db)"
  by (induction starts arbitrary: db) (auto simp: start_all_def start_release_keeps_class)

lemma list_all2_in_set: "list_all2 P xs ys \<Longrightarrow> x \<in> set xs \<Longrightarrow> \<exists>y\<in>set ys. P x y"
  by (induction rule: list_all2_induct) auto

lemma restore_required_recorded:
  assumes run: "migrate exec sha256 now dir allow db = (Inr report, db')"
    and m: "loadMigrations sha256 dir = Inr ms" "m \<in> set ms" "mg_rollback m = Some restore_required"
      "mg_version m \<in> set (rp_applied report)"
  shows "db_column db' \<and>
    (\<exists>r\<in>set (ledger_rows db'). lr_version r = mg_version m \<and> lr_older_code_runs r = Some False)"
  using run
proof (cases rule: migrate_returns)
  case (1 ms0 db1 new)
  from 1(1) m have [simp]: "ms0 = ms" by simp
  from 1(5) m have "m \<in> set (pending_of db ms)" by (auto simp: pending_of_def)
  with 1(3) obtain r where "r \<in> set new" and rec: "recorded m r"
    unfolding grown_def \<open>ms0 = ms\<close> by (meson list_all2_in_set)
  with 1(3) have r: "r \<in> set (ledger_rows db1)" by (simp add: grown_def)
  note r = r rec
  with m(3) have cls: "lr_older_code_runs r = Some False" "lr_version r = mg_version m"
    by (auto simp: recorded_def olderCodeRuns_def)
  from learn_classes_rows [of ms report db1] cls obtain f where
    "ledger_rows db' = map f (ledger_rows db1)" "f r = r" using 1(4) by auto
  with r cls 1(3,4) show ?thesis by (auto simp: grown_def intro!: image_eqI [of r f r])
qed

lemma barred_versions:
  assumes "db_column db" "r \<in> set (ledger_rows db)" "lr_older_code_runs r = Some False"
    and "lr_version r \<notin> set (map mg_version ms)"
  shows "\<exists>vs. lr_version r \<in> set vs \<and>
     checkNewerSchema db (unknown_versions (ledger_rows db) ms) allow =
       Inl (if allow then RestoreRequired vs else NewerSchema vs)"
proof -
  let ?u = "unknown_versions (ledger_rows db) ms"
  have u: "lr_version r \<in> set ?u" using assms by (auto simp: unknown_versions_def set_sort_by)
  with assms(1-3) have b: "lr_version r \<in> set (versionsOlderCodeCannotRun db ?u)"
    by (auto simp: versionsOlderCodeCannotRun_def set_sort_by intro!: image_eqI [of _ lr_version r])
  from u b show ?thesis
    by (intro exI [of _ "if allow then versionsOlderCodeCannotRun db ?u else ?u"])
       (auto simp: checkNewerSchema_def Let_def)
qed

text \<open>
  C18. The rollback boundary holds. Once a release has applied a migration marked
  \<^verbatim>\<open>restore-required\<close>, then after any further starts of any releases, a release that
  does not ship that version refuses to start, with automatic migration and
  without it, naming that version; the override only changes which refusal it is,
  and the database is exactly as it was.
\<close>

theorem rollback_boundary_holds:
  assumes run: "migrate exec sha256 now dir allow db = (Inr report, db1)"
    and m: "loadMigrations sha256 dir = Inr ms" "m \<in> set ms" "mg_rollback m = Some restore_required"
      "mg_version m \<in> set (rp_applied report)"
    and older: "loadMigrations sha256 olderDir = Inr ms'" "mg_version m \<notin> set (map mg_version ms')"
  shows "\<exists>vs. mg_version m \<in> set vs \<and>
    (let db2 = start_all exec sha256 starts db1;
         refusal = (if allow' then RestoreRequired vs else NewerSchema vs) in
     migrate exec sha256 now' olderDir allow' db2 = (Inl refusal, db2) \<and>
     verifySchema sha256 olderDir allow' db2 = Inl refusal)"
proof -
  let ?db2 = "start_all exec sha256 starts db1"
  from restore_required_recorded [OF run m] obtain r where
    r: "db_column db1" "r \<in> set (ledger_rows db1)" "lr_version r = mg_version m" "lr_older_code_runs r = Some False"
    by blast
  with start_all_keeps_class [OF r(1,2)] have r2: "r \<in> set (ledger_rows ?db2)" "db_column ?db2" by simp_all
  have same: "ensure_ledger ?db2 = ?db2"
    using r2(2,1) by (rule ensure_ledger_present)
  from barred_versions [OF r2(2,1) r(4)] older(2) r(3) obtain vs where "mg_version m \<in> set vs"
    "checkNewerSchema ?db2 (unknown_versions (ledger_rows ?db2) ms') allow' =
       Inl (if allow' then RestoreRequired vs else NewerSchema vs)" by metis
  with older(1) same show ?thesis
    by (intro exI [of _ vs])
       (simp add: migrate_def applyPending_def verifySchema_def and_then_def Let_def)
qed

theorem rollback_boundary_holds_witness:
  "\<exists>vs. ''002_b'' \<in> set vs \<and>
    (let exec = (\<lambda>s d. Inr (d @ [s]));
         db2 = start_all exec id [(\<lambda>_. 9, Inr [(''001_a.sql'', ''A'')], True)]
                 (snd (migrate exec id (\<lambda>_. 5)
                    (Inr [(''002_b.sql'', ''-- rollback: restore-required''), (''README'', ''''), (''001_a.sql'', ''A'')])
                    False (empty_database [])));
         refusal = RestoreRequired vs in
     migrate exec id (\<lambda>_. 7) (Inr [(''001_a.sql'', ''A'')]) True db2 = (Inl refusal, db2) \<and>
     verifySchema id (Inr [(''001_a.sql'', ''A'')]) True db2 = Inl refusal)"
proof -
  let ?exec = "\<lambda>s d. Inr (d @ [s]) :: string + string list"
  let ?dir = "Inr [(''002_b.sql'', ''-- rollback: restore-required''), (''README'', ''''), (''001_a.sql'', ''A'')] :: directory"
  let ?old = "Inr [(''001_a.sql'', ''A'')] :: directory"
  let ?m = "\<lparr>mg_version = ''002_b'', mg_filename = ''002_b.sql'', mg_sql = ''-- rollback: restore-required'',
             mg_checksum = ''-- rollback: restore-required'', mg_rollback = Some restore_required\<rparr>"
  let ?a = "\<lparr>mg_version = ''001_a'', mg_filename = ''001_a.sql'', mg_sql = ''A'',
             mg_checksum = ''A'', mg_rollback = None\<rparr>"
  have load: "loadMigrations id ?dir = Inr [?a, ?m]" and old: "loadMigrations id ?old = Inr [?a]" by code_simp+
  obtain report where run: "migrate ?exec id (\<lambda>_. 5) ?dir False (empty_database []) =
      (Inr report, snd (migrate ?exec id (\<lambda>_. 5) ?dir False (empty_database [])))"
    and "rp_applied report = [''001_a'', ''002_b'']"
  proof -
    have "fst (migrate ?exec id (\<lambda>_. 5) ?dir False (empty_database [])) =
        Inr \<lparr>rp_applied = [''001_a'', ''002_b''], rp_skipped = [], rp_unknown = [], rp_initialized = True,
             rp_ledgerStartedAt = Some 5\<rparr>" by code_simp
    then show ?thesis by (intro that) (auto simp: prod_eq_iff)
  qed
  then show ?thesis
    using rollback_boundary_holds [OF run load, of ?m ?old "[?a]" "[(\<lambda>_. 9, ?old, True)]" True "\<lambda>_. 7", OF _ _ _ old]
    by (simp add: Let_def)
qed

section \<open>The read-only check agrees with the run\<close>

lemma verify_each_Inr:
  "verify_each applied ms pending skipped = Inr (pending', skipped') \<longleftrightarrow>
   pending' = pending @ map mg_version (filter (\<lambda>m. applied (mg_version m) = None) ms) \<and>
   skipped' = skipped @ map mg_version (filter (\<lambda>m. applied (mg_version m) \<noteq> None) ms) \<and>
   (\<forall>m\<in>set ms. applied (mg_version m) \<in> {None, Some (mg_checksum m)})"
  by (induction ms arbitrary: pending skipped) (auto split: option.splits)

lemma apply_each_present:
  "\<forall>m\<in>set ms. applied (mg_version m) = Some (mg_checksum m) \<Longrightarrow>
   apply_each exec now applied ms report db =
     (Inr (report\<lparr>rp_skipped := rp_skipped report @ map mg_version ms\<rparr>), db)"
  by (induction ms arbitrary: report) simp_all

lemma checkNewerSchema_ensure [simp]:
  "checkNewerSchema (ensure_ledger db) unknown allow = checkNewerSchema db unknown allow"
proof -
  have "versionsOlderCodeCannotRun (ensure_ledger db) unknown = versionsOlderCodeCannotRun db unknown"
    by (auto simp: versionsOlderCodeCannotRun_def ensure_ledger_def sort_by_def comp_def)
  then show ?thesis by (simp add: checkNewerSchema_def)
qed

lemma loadMigrations_nonempty: "loadMigrations sha256 dir = Inr ms \<Longrightarrow> ms \<noteq> []"
  by (auto simp: loadMigrations_def split: sum.splits if_splits)

lemma all_present_iff:
  "pending_of db ms = [] \<and> (\<forall>m\<in>set ms. applied_checksums (ledger_rows db) (mg_version m) \<in> {None, Some (mg_checksum m)}) \<longleftrightarrow>
   (\<forall>m\<in>set ms. applied_checksums (ledger_rows db) (mg_version m) = Some (mg_checksum m))"
  by (force simp: pending_of_def filter_empty_conv)

lemma present_of_all:
  "\<forall>m\<in>set ms. applied_checksums (ledger_rows db) (mg_version m) = Some (mg_checksum m) \<Longrightarrow> present_of db ms = ms"
  by (auto simp: present_of_def)

lemma applied_checksums_Nil [simp]: "applied_checksums [] v = None"
  by (simp add: applied_checksums_def)

lemma verifySchema_Inr:
  "verifySchema sha256 dir allow db = Inr report \<longleftrightarrow>
   (\<exists>ms. loadMigrations sha256 dir = Inr ms \<and>
     checkNewerSchema db (unknown_versions (ledger_rows db) ms) allow = Inr () \<and>
     (\<forall>m\<in>set ms. applied_checksums (ledger_rows db) (mg_version m) = Some (mg_checksum m)) \<and>
     report = \<lparr>rp_applied = [], rp_skipped = map mg_version ms, rp_unknown = unknown_versions (ledger_rows db) ms,
               rp_initialized = False, rp_ledgerStartedAt = None\<rparr>)"
  (is "?L = ?R")
proof
  assume ?L
  then obtain ms pending skipped where v: "loadMigrations sha256 dir = Inr ms"
      "checkNewerSchema db (unknown_versions (ledger_rows db) ms) allow = Inr ()"
      "verify_each (applied_checksums (ledger_rows db)) ms [] [] = Inr (pending, skipped)" "pending = []"
      "report = \<lparr>rp_applied = [], rp_skipped = skipped, rp_unknown = unknown_versions (ledger_rows db) ms,
                 rp_initialized = False, rp_ledgerStartedAt = None\<rparr>"
    by (auto simp: verifySchema_def Let_def split: if_splits)
  then have all: "\<forall>m\<in>set ms. applied_checksums (ledger_rows db) (mg_version m) = Some (mg_checksum m)"
    by (subst all_present_iff [symmetric]) (simp add: verify_each_Inr pending_of_def)
  with v present_of_all [OF all] show ?R by (auto simp: verify_each_Inr present_of_def)
next
  assume ?R
  then obtain ms where v: "loadMigrations sha256 dir = Inr ms"
      "checkNewerSchema db (unknown_versions (ledger_rows db) ms) allow = Inr ()"
      "\<forall>m\<in>set ms. applied_checksums (ledger_rows db) (mg_version m) = Some (mg_checksum m)"
      "report = \<lparr>rp_applied = [], rp_skipped = map mg_version ms, rp_unknown = unknown_versions (ledger_rows db) ms,
                 rp_initialized = False, rp_ledgerStartedAt = None\<rparr>" by blast
  then have "verify_each (applied_checksums (ledger_rows db)) ms [] [] = Inr ([], map mg_version ms)"
    by (auto simp: verify_each_Inr filter_empty_conv intro!: arg_cong [of _ _ "map mg_version"] sym [OF filter_True])
  with v show ?L by (auto simp: verifySchema_def Let_def intro!: exI [of _ ms])
qed

lemma migrate_all_present:
  assumes "loadMigrations sha256 dir = Inr ms"
    and "checkNewerSchema db (unknown_versions (ledger_rows db) ms) allow = Inr ()"
    and all: "\<forall>m\<in>set ms. applied_checksums (ledger_rows db) (mg_version m) = Some (mg_checksum m)"
  shows "\<exists>report. rp_skipped report = map mg_version ms \<and>
    migrate exec sha256 now dir allow db =
     (Inr \<lparr>rp_applied = [], rp_skipped = map mg_version ms, rp_unknown = unknown_versions (ledger_rows db) ms,
           rp_initialized = False,
           rp_ledgerStartedAt = ledger_started_at (ledger_rows (learn_classes ms report (ensure_ledger db)))\<rparr>,
      learn_classes ms report (ensure_ledger db))"
proof -
  have "ledger_rows db \<noteq> []" using loadMigrations_nonempty [OF assms(1)] all by (cases ms) auto
  moreover have "(ledger_rows (ensure_ledger db) = []) = (ledger_rows db = [])" by (simp add: ensure_ledger_def)
  ultimately show ?thesis using assms(1,2)
    by (intro exI [of _ "\<lparr>rp_applied = [], rp_skipped = map mg_version ms,
                           rp_unknown = unknown_versions (ledger_rows db) ms,
                           rp_initialized = False, rp_ledgerStartedAt = None\<rparr>"])
       (simp add: migrate_def applyPending_def Let_def apply_each_present [OF all])
qed

text \<open>
  C20. Verifying a schema and migrating it draw the same line: the read-only check
  accepts a database, with a given report, exactly when the run under the same
  directory and override would accept it, execute nothing, and give that report
  but for the start of the ledger.
\<close>

theorem verify_iff_nothing_to_apply:
  "verifySchema sha256 dir allow db = Inr report \<longleftrightarrow>
   (\<exists>report' db'. migrate exec sha256 now dir allow db = (Inr report', db') \<and>
      rp_applied report' = [] \<and> report = report'\<lparr>rp_ledgerStartedAt := None\<rparr>)"
proof
  assume "verifySchema sha256 dir allow db = Inr report"
  then obtain ms where "loadMigrations sha256 dir = Inr ms"
      "checkNewerSchema db (unknown_versions (ledger_rows db) ms) allow = Inr ()"
      "\<forall>m\<in>set ms. applied_checksums (ledger_rows db) (mg_version m) = Some (mg_checksum m)"
      "report = \<lparr>rp_applied = [], rp_skipped = map mg_version ms, rp_unknown = unknown_versions (ledger_rows db) ms,
                 rp_initialized = False, rp_ledgerStartedAt = None\<rparr>" by (auto simp: verifySchema_Inr)
  with migrate_all_present [of sha256 dir ms db allow exec now]
  show "\<exists>report' db'. migrate exec sha256 now dir allow db = (Inr report', db') \<and>
      rp_applied report' = [] \<and> report = report'\<lparr>rp_ledgerStartedAt := None\<rparr>" by fastforce
next
  assume "\<exists>report' db'. migrate exec sha256 now dir allow db = (Inr report', db') \<and>
      rp_applied report' = [] \<and> report = report'\<lparr>rp_ledgerStartedAt := None\<rparr>"
  then obtain report' db' where run: "migrate exec sha256 now dir allow db = (Inr report', db')"
    and none: "rp_applied report' = []" and report: "report = report'\<lparr>rp_ledgerStartedAt := None\<rparr>" by blast
  from run show "verifySchema sha256 dir allow db = Inr report"
  proof (cases rule: migrate_returns)
    case (1 ms db1 new)
    from 1(5,6) none have all:
      "\<forall>m\<in>set ms. applied_checksums (ledger_rows db) (mg_version m) = Some (mg_checksum m)"
      by (subst all_present_iff [symmetric]) simp
    with loadMigrations_nonempty [OF 1(1)] have "ledger_rows db \<noteq> []" by (cases ms) auto
    with 1(1,2,5) all none show ?thesis
      unfolding verifySchema_Inr by (intro exI [of _ ms]) (simp add: report present_of_all)
  qed
qed

section \<open>Starting again\<close>

lemma checkNewerSchema_ok:
  "checkNewerSchema db unknown allow = Inr () \<longleftrightarrow>
   unknown = [] \<or> allow \<and> (db_column db \<longrightarrow>
     (\<forall>r\<in>set (ledger_rows db). lr_version r \<in> set unknown \<longrightarrow> lr_older_code_runs r \<noteq> Some False))"
proof -
  have "versionsOlderCodeCannotRun db unknown = [] \<longleftrightarrow> (db_column db \<longrightarrow>
      (\<forall>r\<in>set (ledger_rows db). lr_version r \<in> set unknown \<longrightarrow> lr_older_code_runs r \<noteq> Some False))"
    by (auto simp: versionsOlderCodeCannotRun_def set_sort_by filter_empty_conv simp flip: set_empty)
  then show ?thesis by (simp add: checkNewerSchema_def Let_def)
qed

lemma learn_class_unshipped: "lr_version r \<notin> mg_version ` set known \<Longrightarrow> learn_class known r = r"
proof -
  assume "lr_version r \<notin> mg_version ` set known"
  then have "map_of (map (\<lambda>m. (mg_version m, olderCodeRuns m)) known) (lr_version r) = None"
    by (auto simp: map_of_eq_None_iff)
  then show ?thesis by (simp add: learn_class_def split: option.split)
qed

lemma learn_class_idem:
  assumes "\<forall>m\<in>set known. mg_rollback m \<noteq> None"
  shows "learn_class known (learn_class known r) = learn_class known r"
proof (cases "map_of (map (\<lambda>m. (mg_version m, olderCodeRuns m)) known) (lr_version r)")
  case (Some runs)
  from map_of_SomeD [OF Some] obtain m where "m \<in> set known" "runs = olderCodeRuns m" by auto
  with assms have "runs \<noteq> None" by (auto simp: olderCodeRuns_def)
  with Some show ?thesis by (auto simp: learn_class_def split: option.splits)
qed (simp add: learn_class_def split: option.split)

lemma learn_class_recorded:
  assumes "distinct (map mg_version ms)" "m \<in> set ms" "recorded m r"
  shows "learn_class (filter (\<lambda>m. mg_rollback m \<noteq> None) ms) r = r"
proof (cases "mg_rollback m")
  case None
  have "m' = m" if "m' \<in> set ms" "mg_version m' = mg_version m" for m'
    using assms(1,2) that by (auto simp: distinct_map dest: inj_onD)
  with None assms(3) show ?thesis by (intro learn_class_unshipped) (auto simp: recorded_def)
next
  case (Some c)
  with assms(3) show ?thesis by (intro map_learn_class(4)) (auto simp: recorded_def olderCodeRuns_def)
qed

lemma recorded_versions: "list_all2 recorded ms new \<Longrightarrow> map lr_version new = map mg_version ms"
  by (induction rule: list_all2_induct) (auto simp: recorded_def)

lemma list_all2_in_set_right: "list_all2 P xs ys \<Longrightarrow> y \<in> set ys \<Longrightarrow> \<exists>x\<in>set xs. P x y"
  by (induction rule: list_all2_induct) auto

lemma applied_checksums_Some:
  "distinct (map lr_version rows) \<Longrightarrow> r \<in> set rows \<Longrightarrow> applied_checksums rows (lr_version r) = Some (lr_checksum r)"
  unfolding applied_checksums_def by (rule map_of_is_SomeI) (auto simp: comp_def)

lemma applied_checksums_row:
  "applied_checksums rows v = Some c \<Longrightarrow> \<exists>r\<in>set rows. lr_version r = v \<and> lr_checksum r = c"
  unfolding applied_checksums_def by (drule map_of_SomeD) auto

lemma applied_checksums_core:
  "map row_core xs = map row_core ys \<Longrightarrow> applied_checksums xs = applied_checksums ys"
proof -
  have "applied_checksums zs = map_of (map (\<lambda>(v, c, _). (v, c)) (map row_core zs))" for zs
    by (simp add: applied_checksums_def row_core_def comp_def)
  then show "map row_core xs = map row_core ys \<Longrightarrow> applied_checksums xs = applied_checksums ys" by metis
qed

text \<open>What the first run leaves satisfies every condition of a second one.\<close>

lemma after_run_present:
  assumes g: "grown exec (pending_of db ms) new (ensure_ledger db) db1"
    and d: "distinct (map lr_version (ledger_rows db))"
    and ok: "\<And>m. m \<in> set ms \<Longrightarrow> applied_checksums (ledger_rows db) (mg_version m) \<in> {None, Some (mg_checksum m)}"
    and m: "m \<in> set ms"
  shows "applied_checksums (ledger_rows (learn_classes ms report db1)) (mg_version m) = Some (mg_checksum m)"
proof -
  have d1: "distinct (map lr_version (ledger_rows db1))"
    using g d unfolding grown_def by (metis ensure_ledger_simps(3))
  have "\<exists>r\<in>set (ledger_rows db1). lr_version r = mg_version m \<and> lr_checksum r = mg_checksum m"
  proof (cases "m \<in> set (pending_of db ms)")
    case True
    with g obtain r where "r \<in> set new" "recorded m r" unfolding grown_def by (meson list_all2_in_set)
    with g show ?thesis by (auto simp: grown_def recorded_def)
  next
    case False
    with m ok [OF m] have "applied_checksums (ledger_rows (ensure_ledger db)) (mg_version m) = Some (mg_checksum m)"
      by (auto simp: pending_of_def)
    from applied_checksums_row [OF this] g show ?thesis by (auto simp: grown_def)
  qed
  then have "applied_checksums (ledger_rows db1) (mg_version m) = Some (mg_checksum m)"
    using applied_checksums_Some [OF d1] by metis
  with applied_checksums_core [OF learn_classes_core] show ?thesis by metis
qed

lemma after_run_unknown:
  assumes g: "grown exec (pending_of db ms) new (ensure_ledger db) db1"
  shows "unknown_versions (ledger_rows (learn_classes ms report db1)) ms = unknown_versions (ledger_rows db) ms"
proof -
  have "map lr_version (ledger_rows db1) = map lr_version (ledger_rows db) @ map mg_version (pending_of db ms)"
    using g recorded_versions by (auto simp: grown_def)
  moreover have "filter (\<lambda>v. v \<notin> set (map mg_version ms)) (map mg_version (pending_of db ms)) = []"
    by (auto simp: filter_empty_conv pending_of_def)
  moreover have "map lr_version (ledger_rows (learn_classes ms report db1)) = map lr_version (ledger_rows db1)"
    using map_row_core_eq(1) [OF learn_classes_core] .
  ultimately show ?thesis by (simp add: unknown_versions_def)
qed

lemma learn_classes_unshipped:
  assumes "r \<in> set (ledger_rows (learn_classes ms report db))" "lr_version r \<notin> mg_version ` set ms"
  shows "r \<in> set (ledger_rows db)"
proof (cases "rp_skipped report \<noteq> [] \<and> filter (\<lambda>m. mg_rollback m \<noteq> None) ms \<noteq> []")
  case True
  with assms(1) obtain r0 where r0: "r0 \<in> set (ledger_rows db)"
    "r = learn_class (filter (\<lambda>m. mg_rollback m \<noteq> None) ms) r0" by (auto simp: learn_classes_def Let_def)
  with assms(2) have "r = r0" by (subst r0(2), intro learn_class_unshipped) (auto simp: map_learn_class)
  with r0 show ?thesis by simp
next
  case False
  with assms show ?thesis by (auto simp: learn_classes_def Let_def split: if_splits)
qed

lemma after_run_check:
  assumes g: "grown exec (pending_of db ms) new (ensure_ledger db) db1"
    and ok: "checkNewerSchema (ensure_ledger db) (unknown_versions (ledger_rows db) ms) allow = Inr ()"
  shows "checkNewerSchema (learn_classes ms report db1) (unknown_versions (ledger_rows db) ms) allow = Inr ()"
proof -
  have "lr_older_code_runs r \<noteq> Some False"
    if c: "\<forall>r\<in>set (ledger_rows (ensure_ledger db)). lr_version r \<in> set (unknown_versions (ledger_rows db) ms) \<longrightarrow>
              lr_older_code_runs r \<noteq> Some False"
      and r: "r \<in> set (ledger_rows (learn_classes ms report db1))"
        "lr_version r \<in> set (unknown_versions (ledger_rows db) ms)" for r
  proof -
    from r(2) have un: "lr_version r \<notin> mg_version ` set ms" by (auto simp: unknown_versions_def set_sort_by)
    with r(1) have "r \<in> set (ledger_rows db1)" by (rule learn_classes_unshipped)
    moreover have "r \<notin> set new"
    proof
      assume "r \<in> set new"
      with g obtain m where "m \<in> set (pending_of db ms)" "recorded m r"
        unfolding grown_def by (meson list_all2_in_set_right)
      with un show False by (auto simp: pending_of_def recorded_def)
    qed
    ultimately show ?thesis using g c r(2) by (auto simp: grown_def)
  qed
  with ok show ?thesis unfolding checkNewerSchema_ok by (auto simp del: checkNewerSchema_ensure)
qed

lemma learn_classes_fixed:
  assumes "db_ledger db \<noteq> None"
    and "\<And>r. r \<in> set (ledger_rows db) \<Longrightarrow> learn_class (filter (\<lambda>m. mg_rollback m \<noteq> None) ms) r = r"
  shows "learn_classes ms report db = db"
proof -
  have "map (learn_class (filter (\<lambda>m. mg_rollback m \<noteq> None) ms)) (ledger_rows db) = ledger_rows db"
    using assms(2) by (simp add: map_idI)
  with assms(1) show ?thesis by (auto simp: learn_classes_def Let_def ledger_rows_def)
qed

lemma after_run_settled:
  assumes g: "grown exec (pending_of db ms) new (ensure_ledger db) db1"
    and d: "distinct (map lr_version (ledger_rows db))"
    and skipped: "rp_skipped report = map mg_version (present_of db ms)"
  shows "learn_classes ms report2 (learn_classes ms report db1) = learn_classes ms report db1"
proof (rule learn_classes_fixed)
  let ?known = "filter (\<lambda>m. mg_rollback m \<noteq> None) ms"
  have led: "db_ledger db1 \<noteq> None" using g by (simp add: grown_def ensure_ledger_def)
  then show "db_ledger (learn_classes ms report db1) \<noteq> None" by simp
  fix r
  assume r: "r \<in> set (ledger_rows (learn_classes ms report db1))"
  show "learn_class ?known r = r"
  proof (cases "rp_skipped report \<noteq> [] \<or> ?known = []")
    case True
    with r show ?thesis by (auto simp: learn_classes_def Let_def learn_class_idem learn_class_unshipped split: if_splits)
  next
    case False
    with skipped have "pending_of db ms = ms" by (auto simp: present_of_def pending_of_def filter_empty_conv)
    moreover from False have "learn_classes ms report db1 = db1" by (simp add: learn_classes_def)
    ultimately have r1: "r \<in> set (ledger_rows (ensure_ledger db)) \<or> r \<in> set new" and rec: "list_all2 recorded ms new"
      using r g by (auto simp: grown_def)
    have "distinct (map lr_version (ledger_rows db1))"
      using g d unfolding grown_def by (metis ensure_ledger_simps(3))
    moreover have "map lr_version (ledger_rows db1) =
        map lr_version (ledger_rows (ensure_ledger db)) @ map mg_version ms"
      using g recorded_versions [OF rec] unfolding grown_def by (metis map_append)
    ultimately have dm: "distinct (map mg_version ms)" and
      dj: "set (map lr_version (ledger_rows (ensure_ledger db))) \<inter> set (map mg_version ms) = {}"
      by (metis distinct_append)+
    from r1 show ?thesis
    proof
      assume "r \<in> set new"
      with rec obtain m where "m \<in> set ms" "recorded m r" by (meson list_all2_in_set_right)
      with dm show ?thesis by (rule learn_class_recorded)
    next
      assume "r \<in> set (ledger_rows (ensure_ledger db))"
      then have "lr_version r \<in> set (map lr_version (ledger_rows (ensure_ledger db)))" unfolding set_map by (rule imageI)
      with dj have "lr_version r \<notin> mg_version ` set ms" unfolding set_map by blast
      then show ?thesis by (intro learn_class_unshipped) auto
    qed
  qed
qed

text \<open>
  C19. Starting a release again changes nothing. When a release has started once, on
  a database that any starts of any releases have left, its next start with the
  same files succeeds whatever the clock says, applies nothing, reports every
  version it ships as present, the same unknown versions and the same start of the
  ledger, and leaves the database exactly as it is.
\<close>

theorem second_start_changes_nothing:
  assumes run: "migrate exec sha256 now dir allow (start_all exec sha256 starts (empty_database d)) = (Inr report, db')"
  shows "\<exists>ms. loadMigrations sha256 dir = Inr ms \<and>
    migrate exec sha256 now' dir allow db' =
      (Inr \<lparr>rp_applied = [], rp_skipped = map mg_version ms, rp_unknown = rp_unknown report,
            rp_initialized = False, rp_ledgerStartedAt = rp_ledgerStartedAt report\<rparr>, db')"
proof -
  let ?db = "start_all exec sha256 starts (empty_database d)"
  from start_all_history [OF empty_ledger_history] have d: "distinct (map lr_version (ledger_rows ?db))"
    by (fastforce simp: ledger_history_def)
  from run show ?thesis
  proof (cases rule: migrate_returns)
    case (1 ms db1 new)
    have rep: "rp_unknown report = unknown_versions (ledger_rows ?db) ms"
      "rp_ledgerStartedAt report = ledger_started_at (ledger_rows db')"
      "rp_skipped report = map mg_version (present_of ?db ms)" using 1(5) by simp_all
    have un: "unknown_versions (ledger_rows db') ms = unknown_versions (ledger_rows ?db) ms"
      unfolding 1(4) by (rule after_run_unknown [OF 1(3)])
    have check: "checkNewerSchema db' (unknown_versions (ledger_rows db') ms) allow = Inr ()"
      unfolding un unfolding 1(4) by (rule after_run_check [OF 1(3,2)])
    have all: "\<forall>m\<in>set ms. applied_checksums (ledger_rows db') (mg_version m) = Some (mg_checksum m)"
      unfolding 1(4) using after_run_present [OF 1(3) d 1(6)] by blast
    have "db_column db'" "db_ledger db' \<noteq> None"
      using 1(3) by (simp_all add: 1(4) grown_def ensure_ledger_def)
    then have "ensure_ledger db' = db'" by (rule ensure_ledger_idem)
    moreover have "learn_classes ms report2 db' = db'" for report2
      unfolding 1(4) by (rule after_run_settled [OF 1(3) d rep(3)])
    ultimately show ?thesis
      using migrate_all_present [OF 1(1) check all, of exec now'] 1(1) rep un by (intro exI [of _ ms]) auto
  qed
qed

theorem second_start_changes_nothing_witness:
  "\<exists>ms. loadMigrations id (Inr [(''002_b.sql'', ''B''), (''001_a.sql'', ''A'')]) = Inr ms \<and>
    (let exec = (\<lambda>s d. Inr (d @ [s]));
         db = start_all exec id [(\<lambda>_. 3, Inr [(''001_a.sql'', ''A'')], False)] (empty_database []);
         dir = Inr [(''002_b.sql'', ''B''), (''001_a.sql'', ''A'')];
         db' = snd (migrate exec id (\<lambda>_. 5) dir False db) in
     migrate exec id (\<lambda>_. 8) dir False db' =
      (Inr \<lparr>rp_applied = [], rp_skipped = map mg_version ms, rp_unknown = [],
            rp_initialized = False, rp_ledgerStartedAt = Some 3\<rparr>, db'))"
proof -
  let ?exec = "\<lambda>s d. Inr (d @ [s]) :: string + string list"
  let ?dir = "Inr [(''002_b.sql'', ''B''), (''001_a.sql'', ''A'')] :: directory"
  let ?db = "start_all ?exec id [(\<lambda>_. 3, Inr [(''001_a.sql'', ''A'')], False)] (empty_database [])"
  let ?report = "\<lparr>rp_applied = [''002_b''], rp_skipped = [''001_a''], rp_unknown = [], rp_initialized = False,
                  rp_ledgerStartedAt = Some 3\<rparr>"
  have "fst (migrate ?exec id (\<lambda>_. 5) ?dir False ?db) = Inr ?report" by code_simp
  then have "migrate ?exec id (\<lambda>_. 5) ?dir False ?db = (Inr ?report, snd (migrate ?exec id (\<lambda>_. 5) ?dir False ?db))"
    by (auto simp: prod_eq_iff)
  from second_start_changes_nothing [OF this, of "\<lambda>_. 8"] show ?thesis by (simp add: Let_def)
qed

end
