(* ===== verification/Access_Postgres.thy ===== *)
theory Access_Postgres
  imports Entitlements "HOL-Library.Multiset"
begin

text \<open>
  Entitlements in PostgreSQL (\<^verbatim>\<open>apps/api/src/access/postgres-store.ts\<close>, with the
  constraints of migrations 006, 009 and 010), and that it implements the in-memory
  store of the theory \<open>Entitlements\<close>.

  A transaction holds the lock of the account's row in \<^verbatim>\<open>users\<close>, so mutations of one
  account follow one another; \<open>users\<close> lists the accounts. Timestamps are
  milliseconds. A failed \<^verbatim>\<open>CHECK\<close> raises and rolls the transaction back; the
  identity sequence of \<^verbatim>\<open>access_events\<close> is not rolled back with it.
\<close>

section \<open>Tables\<close>

record EventRow =
  er_event_id :: nat
  er_user_id :: string
  er_source :: GrantedVia
  er_action :: string
  er_actor :: string
  er_reason :: string
  er_before_status :: "EntitlementStatus option"
  er_before_starts_at :: "int option"
  er_before_expires_at :: "int option"
  er_before_kind :: "GrantKind option"
  er_before_plan_id :: "string option"
  er_after :: EntitlementSnapshot
  er_occurred_at :: int

record access_tables =
  at_rows :: "Entitlement list"
  at_events :: "EventRow list"
  at_sequence :: nat

datatype access_store_error = Access_Error access_error | Check_Violated

fun STORED_ACTION :: "AccessAction \<Rightarrow> string" where
  "STORED_ACTION GRANT = ''GRANTED''"
| "STORED_ACTION TRIAL = ''GRANTED''"
| "STORED_ACTION SUSPEND = ''SUSPENDED''"
| "STORED_ACTION RESTORE = ''RESTORED''"
| "STORED_ACTION REVOKE = ''REVOKED''"
| "STORED_ACTION SYNC = ''SYNCED''"

definition ACTION_FROM_STORED :: "(string \<times> AccessAction) list" where
  "ACTION_FROM_STORED =
     [(''GRANTED'', GRANT), (''SUSPENDED'', SUSPEND), (''RESTORED'', RESTORE), (''REVOKED'', REVOKE), (''SYNCED'', SYNC)]"

definition access_uuid :: "string \<Rightarrow> bool" where
  "access_uuid s \<longleftrightarrow>
     (case split_on CHR ''-'' s of
        [a, b, c, d, e] \<Rightarrow> hex_group 8 a \<and> hex_group 4 b \<and> hex_group 4 c \<and> hex_group 4 d \<and> hex_group 12 e
      | _ \<Rightarrow> False)"

definition toEvent :: "EventRow \<Rightarrow> AccessEvent" where
  "toEvent r =
     \<lparr>ev_eventId = er_event_id r, ev_userId = er_user_id r, ev_source = er_source r,
      ev_action = the (map_of ACTION_FROM_STORED (er_action r)),
      ev_actor = er_actor r, ev_reason = er_reason r,
      ev_before = (case er_before_status r of
          None \<Rightarrow> None
        | Some st \<Rightarrow>
            Some \<lparr>sn_status = st, sn_startsAt = the (er_before_starts_at r),
                  sn_expiresAt = er_before_expires_at r,
                  sn_kind = (case er_before_kind r of None \<Rightarrow> K_STANDARD | Some k \<Rightarrow> k),
                  sn_planId = er_before_plan_id r\<rparr>),
      ev_after = er_after r, ev_occurredAt = er_occurred_at r\<rparr>"

section \<open>Constraints\<close>

definition kind_by_source :: "GrantedVia \<Rightarrow> GrantKind \<Rightarrow> bool" where
  "kind_by_source source kind \<longleftrightarrow>
     (case source of
        Via_Operator \<Rightarrow> kind \<in> {K_STANDARD, K_BETA, K_TRIAL}
      | Via_Billing \<Rightarrow> kind \<in> {K_SUBSCRIPTION, K_TRIAL})"

definition plan_id_check :: "string option \<Rightarrow> bool" where
  "plan_id_check plan = (case plan of None \<Rightarrow> True | Some p \<Rightarrow> PLAN_ID_SHAPE p)"

definition entitlement_checks :: "Entitlement \<Rightarrow> bool" where
  "entitlement_checks r \<longleftrightarrow>
     window_ok (e_startsAt r) (e_expiresAt r) \<and> kind_by_source (e_grantedVia r) (e_kind r) \<and> plan_id_check (e_planId r)"

definition event_checks :: "EventRow \<Rightarrow> bool" where
  "event_checks r \<longleftrightarrow>
     er_action r \<in> {''GRANTED'', ''SUSPENDED'', ''RESTORED'', ''REVOKED'', ''SYNCED''} \<and>
     1 \<le> length (er_actor r) \<and> length (er_actor r) \<le> 64 \<and>
     1 \<le> length (er_reason r) \<and> length (er_reason r) \<le> 500 \<and>
     plan_id_check (er_before_plan_id r) \<and> plan_id_check (sn_planId (er_after r))"

section \<open>Statements\<close>

text \<open>\<^verbatim>\<open>ORDER BY granted_via\<close>, and the order of \<open>localeCompare\<close>.\<close>

definition source_le :: "Entitlement \<Rightarrow> Entitlement \<Rightarrow> bool" where
  "source_le a b \<longleftrightarrow> e_grantedVia a = Via_Billing \<or> e_grantedVia b = Via_Operator"

definition select_entitlements :: "access_tables \<Rightarrow> string \<Rightarrow> Entitlement list" where
  "select_entitlements db user = sort_by source_le (filter (\<lambda>r. e_userId r = user) (at_rows db))"

definition had_trial_row :: "access_tables \<Rightarrow> string \<Rightarrow> bool" where
  "had_trial_row db user = list_ex (\<lambda>r. er_user_id r = user \<and> sn_kind (er_after r) = K_TRIAL) (at_events db)"

definition same_key :: "Entitlement \<Rightarrow> Entitlement \<Rightarrow> bool" where
  "same_key r x \<longleftrightarrow> e_userId x = e_userId r \<and> e_grantedVia x = e_grantedVia r"

text \<open>\<^verbatim>\<open>INSERT ... ON CONFLICT (user_id, scope, granted_via) DO UPDATE\<close>: \<^verbatim>\<open>created_at\<close> is kept.\<close>

definition upsert_entitlement :: "Entitlement \<Rightarrow> Entitlement list \<Rightarrow> Entitlement \<times> Entitlement list" where
  "upsert_entitlement r rows =
     (case find (same_key r) rows of
        Some old \<Rightarrow>
          let new = r\<lparr>e_createdAt := e_createdAt old\<rparr> in
          (new, map (\<lambda>x. if same_key r x then new else x) rows)
      | None \<Rightarrow> (r, rows @ [r]))"

definition proposed_row :: "MutationInput \<Rightarrow> int \<Rightarrow> RowChange \<Rightarrow> Entitlement" where
  "proposed_row input at change =
     \<lparr>e_userId = mi_userId input, e_status = sn_status (rc_next change),
      e_startsAt = sn_startsAt (rc_next change), e_expiresAt = sn_expiresAt (rc_next change),
      e_grantedVia = rc_source change, e_kind = sn_kind (rc_next change), e_planId = sn_planId (rc_next change),
      e_createdAt = at, e_updatedAt = at\<rparr>"

definition proposed_event :: "MutationInput \<Rightarrow> int \<Rightarrow> nat \<Rightarrow> RowChange \<Rightarrow> EventRow" where
  "proposed_event input at n change =
     (let prior = map_option snapshot (rc_before change) in
      \<lparr>er_event_id = n, er_user_id = mi_userId input, er_source = rc_source change,
       er_action = STORED_ACTION (rc_action change), er_actor = mi_actor input, er_reason = mi_reason input,
       er_before_status = map_option sn_status prior, er_before_starts_at = map_option sn_startsAt prior,
       er_before_expires_at = Option.bind prior sn_expiresAt, er_before_kind = map_option sn_kind prior,
       er_before_plan_id = Option.bind prior sn_planId,
       er_after = rc_next change, er_occurred_at = at\<rparr>)"

section \<open>Mutations\<close>

record MutationResult =
  mr_changed :: bool
  mr_before :: "Entitlement option"
  mr_after :: "Entitlement option"
  mr_event :: "AccessEvent option"
  mr_events :: "AccessEvent list"
  mr_grants :: "Entitlement list"

fun write_changes ::
  "MutationInput \<Rightarrow> int \<Rightarrow> RowChange list \<Rightarrow> (GrantedVia \<times> Entitlement) list \<Rightarrow> AccessEvent list \<Rightarrow> access_tables \<Rightarrow>
   (access_store_error + (GrantedVia \<times> Entitlement) list \<times> AccessEvent list) \<times> access_tables" where
  "write_changes input at [] written events db = (Inr (written, events), db)"
| "write_changes input at (change # changes) written events db =
     (if \<not> entitlement_checks (proposed_row input at change) then (Inl Check_Violated, db)
      else case upsert_entitlement (proposed_row input at change) (at_rows db) of (stored, rows) \<Rightarrow>
        let n = at_sequence db + 1;
            event = proposed_event input at n change;
            db1 = db\<lparr>at_rows := rows, at_sequence := n\<rparr> in
        if \<not> event_checks event then (Inl Check_Violated, db1)
        else write_changes input at changes (AList.update (rc_source change) stored written)
               (events @ [toEvent event]) (db1\<lparr>at_events := at_events db1 @ [event]\<rparr>))"

definition mutateWithin ::
  "string list \<Rightarrow> MutationInput \<Rightarrow> int \<Rightarrow> access_tables \<Rightarrow> (access_store_error + MutationResult) \<times> access_tables" where
  "mutateWithin users input at db =
     (if \<not> access_uuid (mi_userId input) then (Inl (Access_Error USER_NOT_FOUND), db)
      else if mi_userId input \<notin> set users then (Inl (Access_Error USER_NOT_FOUND), db)
      else
        let rows = select_entitlements db (mi_userId input);
            source = (case mi_source input of None \<Rightarrow> Via_Operator | Some s \<Rightarrow> s) in
        case planAccountMutation rows input at (had_trial_row db (mi_userId input)) of
          Inl e \<Rightarrow> (Inl (Access_Error e), db)
        | Inr changes \<Rightarrow>
            (case write_changes input at changes (map (\<lambda>r. (e_grantedVia r, r)) rows) [] db of
               (Inl e, db1) \<Rightarrow> (Inl e, db1)
             | (Inr (written, events), db1) \<Rightarrow>
                 (Inr \<lparr>mr_changed = (changes \<noteq> []), mr_before = bySource rows source,
                       mr_after = map_of written source,
                       mr_event = (case events of [] \<Rightarrow> None | ev # _ \<Rightarrow> Some ev), mr_events = events,
                       mr_grants = sort_by source_le (map snd written)\<rparr>, db1)))"

text \<open>\<open>mutate\<close> owns its transaction: an error rolls the tables back.\<close>

definition pg_mutate ::
  "string list \<Rightarrow> MutationInput \<Rightarrow> int \<Rightarrow> access_tables \<Rightarrow> (access_store_error + MutationResult) \<times> access_tables" where
  "pg_mutate users input at db =
     (if \<not> access_uuid (mi_userId input) then (Inl (Access_Error USER_NOT_FOUND), db)
      else case mutateWithin users input at db of
        (Inl e, db1) \<Rightarrow> (Inl e, db\<lparr>at_sequence := at_sequence db1\<rparr>)
      | (Inr result, db1) \<Rightarrow> (Inr result, db1))"

section \<open>Queries\<close>

definition pg_grants :: "access_tables \<Rightarrow> string \<Rightarrow> Entitlement list" where
  "pg_grants db user = (if \<not> access_uuid user then [] else select_entitlements db user)"

definition pg_access_get :: "access_tables \<Rightarrow> string \<Rightarrow> Entitlement option" where
  "pg_access_get db user = find (\<lambda>g. e_grantedVia g = Via_Operator) (pg_grants db user)"

definition later_event :: "EventRow \<Rightarrow> EventRow \<Rightarrow> bool" where
  "later_event a b \<longleftrightarrow> er_occurred_at b < er_occurred_at a \<or>
     er_occurred_at a = er_occurred_at b \<and> er_event_id b \<le> er_event_id a"

definition pg_access_events :: "access_tables \<Rightarrow> string \<Rightarrow> nat \<Rightarrow> AccessEvent list" where
  "pg_access_events db user limit =
     (if \<not> access_uuid user then []
      else map toEvent (take limit (sort_by later_event (filter (\<lambda>r. er_user_id r = user) (at_events db)))))"

record AccountRow =
  ur_user_id :: string
  ur_issuer :: string
  ur_email :: "string option"
  ur_display_name :: "string option"
  ur_role :: string
  ur_created_at :: int

record AccountAccess =
  aa_user :: AccountRow
  aa_entitlement :: "Entitlement option"
  aa_grants :: "Entitlement list"

definition toAccount :: "AccountRow \<Rightarrow> Entitlement list \<Rightarrow> AccountAccess" where
  "toAccount user grants =
     \<lparr>aa_user = user, aa_entitlement = find (\<lambda>g. e_grantedVia g = Via_Operator) grants, aa_grants = grants\<rparr>"

text \<open>One query for all the accounts, its rows then collected by account.\<close>

definition collect_row :: "Entitlement \<Rightarrow> (string \<times> Entitlement list) list \<Rightarrow> (string \<times> Entitlement list) list" where
  "collect_row r byUser =
     AList.update (e_userId r) ((case map_of byUser (e_userId r) of None \<Rightarrow> [] | Some l \<Rightarrow> l) @ [r]) byUser"

definition withGrants :: "access_tables \<Rightarrow> AccountRow list \<Rightarrow> AccountAccess list" where
  "withGrants db users =
     (if users = [] then []
      else
        let rows = sort_by source_le (filter (\<lambda>r. e_userId r \<in> set (map ur_user_id users)) (at_rows db));
            byUser = fold collect_row rows [] in
        map (\<lambda>u. toAccount u (case map_of byUser (ur_user_id u) of None \<Rightarrow> [] | Some l \<Rightarrow> l)) users)"

definition pg_accounts :: "(string \<Rightarrow> string \<Rightarrow> bool) \<Rightarrow> access_tables \<Rightarrow> AccountRow list \<Rightarrow> nat \<Rightarrow> AccountAccess list" where
  "pg_accounts uuid_le db users limit =
     withGrants db (take limit (sort_by (\<lambda>a b. ur_created_at a < ur_created_at b \<or>
       ur_created_at a = ur_created_at b \<and> uuid_le (ur_user_id a) (ur_user_id b)) users))"

definition pg_findAccounts :: "access_tables \<Rightarrow> AccountRow list \<Rightarrow> string option \<Rightarrow> string option \<Rightarrow> AccountAccess list" where
  "pg_findAccounts db users userId email =
     (case userId of
        Some u \<Rightarrow> if \<not> access_uuid u then [] else withGrants db (filter (\<lambda>r. ur_user_id r = u) users)
      | None \<Rightarrow>
          (case email of
             Some e \<Rightarrow>
               withGrants db (take 20 (sort_by (\<lambda>a b. ur_created_at a \<le> ur_created_at b)
                 (filter (\<lambda>r. map_option toLowerCase (ur_email r) = Some (toLowerCase e)) users)))
           | None \<Rightarrow> []))"

section \<open>Rows and their order\<close>

definition table_row :: "access_tables \<Rightarrow> string \<Rightarrow> GrantedVia \<Rightarrow> Entitlement option" where
  "table_row db u s = find (\<lambda>r. e_userId r = u \<and> e_grantedVia r = s) (at_rows db)"

definition primary_key :: "access_tables \<Rightarrow> bool" where
  "primary_key db \<longleftrightarrow> distinct (map (\<lambda>r. (e_userId r, e_grantedVia r)) (at_rows db))"

lemma at_most_two:
  assumes "distinct (map e_grantedVia xs)"
  obtains "xs = []" | a where "xs = [a]" | a b where "xs = [a, b]" "e_grantedVia a \<noteq> e_grantedVia b"
proof -
  have two: "x \<in> {Via_Operator, Via_Billing}" for x by (cases x) simp_all
  have "length xs = card (e_grantedVia ` set xs)"
    using assms by (metis distinct_card length_map set_map)
  also have "\<dots> \<le> card {Via_Operator, Via_Billing}" by (rule card_mono) (use two in \<open>simp, blast\<close>)
  finally have "length xs \<le> 2" by simp
  then consider "xs = []" | a where "xs = [a]" | a b where "xs = [a, b]"
    by (cases xs rule: list.exhaust; cases "tl xs" rule: list.exhaust; cases "tl (tl xs)" rule: list.exhaust) auto
  then show thesis using assms that by cases auto
qed

lemma sort_by_source:
  assumes "distinct (map e_grantedVia xs)"
  shows "sort_by source_le xs = rev (two_rows (bySource xs))"
  using assms
proof (cases rule: at_most_two)
  case (2 a)
  then show ?thesis by (cases "e_grantedVia a") (simp_all add: sort_by_def two_rows_def bySource_def)
next
  case (3 a b)
  then show ?thesis
    by (cases "e_grantedVia a"; cases "e_grantedVia b")
       (simp_all add: sort_by_def source_le_def two_rows_def bySource_def)
qed (simp add: sort_by_def two_rows_def bySource_def)

lemma find_filter: "find P (filter Q xs) = find (\<lambda>x. Q x \<and> P x) xs"
  by (induction xs) simp_all

lemma account_sources:
  "primary_key db \<Longrightarrow> distinct (map e_grantedVia (filter (\<lambda>r. e_userId r = u) (at_rows db)))"
  unfolding primary_key_def by (induction "at_rows db" arbitrary: db) (auto simp: distinct_map inj_on_def)

lemma select_entitlements_rows:
  "primary_key db \<Longrightarrow> select_entitlements db u = rev (two_rows (table_row db u))"
  unfolding select_entitlements_def
  by (subst sort_by_source [OF account_sources])
     (simp_all add: bySource_def [abs_def] find_filter table_row_def [abs_def])

lemma source_le_total: "source_le a b \<or> source_le b a"
  by (cases "e_grantedVia a"; cases "e_grantedVia b") (simp_all add: source_le_def)

lemma source_le_trans: "source_le a b \<Longrightarrow> source_le b c \<Longrightarrow> source_le a c"
  by (auto simp: source_le_def)

lemma collect_rows:
  "(case map_of (fold collect_row rows acc) u of None \<Rightarrow> [] | Some l \<Rightarrow> l) =
   (case map_of acc u of None \<Rightarrow> [] | Some l \<Rightarrow> l) @ filter (\<lambda>r. e_userId r = u) rows"
  by (induction rows arbitrary: acc) (auto simp: collect_row_def split: option.splits)

text \<open>One query for many accounts gives each the rows its own query would.\<close>

lemma withGrants_each:
  "withGrants db users = map (\<lambda>u. toAccount u (select_entitlements db (ur_user_id u))) users"
proof (cases "users = []")
  case False
  have "filter (\<lambda>r. e_userId r = ur_user_id u)
      (sort_by source_le (filter (\<lambda>r. e_userId r \<in> set (map ur_user_id users)) (at_rows db))) =
    select_entitlements db (ur_user_id u)" if "u \<in> set users" for u
  proof -
    have "filter (\<lambda>r. e_userId r = ur_user_id u) (filter (\<lambda>r. e_userId r \<in> set (map ur_user_id users)) (at_rows db)) =
        filter (\<lambda>r. e_userId r = ur_user_id u) (at_rows db)"
      unfolding filter_filter using that by (intro filter_cong) auto
    then show ?thesis
      unfolding select_entitlements_def by (subst filter_sort_by [OF source_le_total source_le_trans]) simp_all
  qed
  with False show ?thesis by (auto simp: withGrants_def Let_def collect_rows)
qed (simp add: withGrants_def)

section \<open>The order of an account's rows decides no mutation\<close>

lemma bySource_rev:
  assumes "distinct (map e_grantedVia rows)"
  shows "bySource (rev rows) s = bySource rows s"
  using assms by (cases rule: at_most_two) (auto simp: bySource_def)

lemma of_plan_rev: "map_sum id rev (of_plan s cur plan) = of_plan s cur plan"
  by (simp add: of_plan_def split: sum.splits MutationPlan.splits)

lemma plan_sync_rev:
  "distinct (map e_grantedVia rows) \<Longrightarrow> plan_sync (rev rows) sync now = map_sum id rev (plan_sync rows sync now)"
  by (simp add: plan_sync_def bySource_rev Let_def split: option.splits)

lemma planAccountMutation_rev:
  assumes "distinct (map e_grantedVia rows)"
  shows "planAccountMutation (rev rows) input now hadTrial = map_sum id rev (planAccountMutation rows input now hadTrial)"
proof (cases "mi_action input")
  case SYNC
  then show ?thesis
    by (simp add: planAccountMutation_def Let_def plan_sync_rev [OF assms] split: option.split)
qed (simp_all add: planAccountMutation_def Let_def bySource_rev [OF assms] of_plan_rev rev_map flip: rev_filter)

section \<open>What a mutation writes\<close>

text \<open>
  Events of the two stores are compared without their numbers, and with the action
  a row of the table reads back as: a trial is stored as a grant.
\<close>

definition unnumbered :: "AccessEvent \<Rightarrow> AccessEvent" where
  "unnumbered ev = ev\<lparr>ev_eventId := 0\<rparr>"

definition read_back :: "AccessEvent \<Rightarrow> AccessEvent" where
  "read_back ev = ev\<lparr>ev_eventId := 0, ev_action := (if ev_action ev = TRIAL then GRANT else ev_action ev)\<rparr>"

lemma toEvent_proposed: "unnumbered (toEvent (proposed_event input at n c)) = read_back (written_event input at m c)"
  by (cases "rc_before c"; cases "rc_action c")
     (simp_all add: unnumbered_def read_back_def toEvent_def proposed_event_def written_event_def
        ACTION_FROM_STORED_def Let_def)

lemma read_back_number: "read_back (written_event input at n c) = read_back (written_event input at m c)"
  by (simp add: read_back_def written_event_def)

lemma upsert_written:
  assumes "table_row db (mi_userId input) (rc_source c) = rc_before c"
    and "upsert_entitlement (proposed_row input at c) (at_rows db) = (stored, rows)"
  shows "stored = written_row input at c"
    and "find (\<lambda>r. e_userId r = u \<and> e_grantedVia r = s) rows =
      (if u = mi_userId input \<and> s = rc_source c then Some (written_row input at c) else table_row db u s)"
    and "primary_key db \<Longrightarrow> distinct (map (\<lambda>r. (e_userId r, e_grantedVia r)) rows)"
proof -
  let ?r = "proposed_row input at c"
  let ?new = "written_row input at c"
  have key: "same_key ?r = (\<lambda>x. e_userId x = mi_userId input \<and> e_grantedVia x = rc_source c)"
    by (auto simp: same_key_def proposed_row_def)
  have old: "find (same_key ?r) (at_rows db) = rc_before c"
    using assms(1) by (simp add: key table_row_def)
  have new: "rc_before c = Some e \<Longrightarrow> ?r\<lparr>e_createdAt := e_createdAt e\<rparr> = ?new" "rc_before c = None \<Longrightarrow> ?r = ?new" for e
    by (simp_all add: proposed_row_def written_row_def)
  have fields: "e_userId ?new = mi_userId input" "e_grantedVia ?new = rc_source c"
    by (simp_all add: written_row_def)
  have rows: "stored = ?new \<and> rows = (if rc_before c = None then at_rows db @ [?new]
       else map (\<lambda>x. if e_userId x = mi_userId input \<and> e_grantedVia x = rc_source c then ?new else x) (at_rows db))"
    using assms(2) [unfolded upsert_entitlement_def old] new
    by (cases "rc_before c") (auto simp: Let_def key)
  then show "stored = ?new" by simp
  have upd: "find (\<lambda>r. e_userId r = v \<and> e_grantedVia r = t)
        (map (\<lambda>x. if e_userId x = mi_userId input \<and> e_grantedVia x = rc_source c then ?new else x) xs) =
      (if v = mi_userId input \<and> t = rc_source c
       then (if find (\<lambda>r. e_userId r = v \<and> e_grantedVia r = t) xs = None then None else Some ?new)
       else find (\<lambda>r. e_userId r = v \<and> e_grantedVia r = t) xs)" for v t xs
    by (induction xs) (auto simp: fields)
  have snoc: "find P (xs @ [x]) = (case find P xs of None \<Rightarrow> if P x then Some x else None | Some y \<Rightarrow> Some y)" for P x and xs :: "Entitlement list"
    by (induction xs) auto
  show "find (\<lambda>r. e_userId r = u \<and> e_grantedVia r = s) rows =
      (if u = mi_userId input \<and> s = rc_source c then Some ?new else table_row db u s)"
    using rows old by (auto simp: upd snoc fields table_row_def key split: option.splits)
  show "distinct (map (\<lambda>r. (e_userId r, e_grantedVia r)) rows)" if pk: "primary_key db"
  proof (cases "rc_before c")
    case None
    with old have "\<not> (\<exists>x\<in>set (at_rows db). same_key ?r x)" by (auto simp: find_None_iff)
    with pk rows None show ?thesis by (auto simp: primary_key_def key fields)
  next
    case (Some e)
    have "map (\<lambda>r. (e_userId r, e_grantedVia r)) rows = map (\<lambda>r. (e_userId r, e_grantedVia r)) (at_rows db)"
      using rows Some by (auto simp: fields)
    with pk show ?thesis by (simp add: primary_key_def)
  qed
qed

definition written_ok :: "(GrantedVia \<times> Entitlement) list \<Rightarrow> bool" where
  "written_ok written \<longleftrightarrow> distinct (map fst written) \<and> (\<forall>s r. map_of written s = Some r \<longrightarrow> e_grantedVia r = s)"

lemma apply_changes_Cons:
  "distinct (map rc_source (c # cs)) \<Longrightarrow>
   apply_changes input at (c # cs) f s =
     apply_changes input at cs (\<lambda>t. if t = rc_source c then Some (written_row input at c) else f t) s"
proof -
  assume "distinct (map rc_source (c # cs))"
  then have "find (\<lambda>d. rc_source d = rc_source c) cs = None" by (auto simp: find_None_iff image_iff)
  then show ?thesis by (auto simp: apply_changes_def split: option.split)
qed

lemma write_changes_ok:
  assumes "changes_ok (table_row db (mi_userId input)) cs" "primary_key db" "written_ok written"
    and "\<forall>c\<in>set cs. entitlement_checks (proposed_row input at c) \<and> (\<forall>n. event_checks (proposed_event input at n c))"
  shows "\<exists>db' written' new. write_changes input at cs written events db = (Inr (written', events @ map toEvent new), db') \<and>
    primary_key db' \<and> written_ok written' \<and>
    table_row db' = (\<lambda>u s. if u = mi_userId input then apply_changes input at cs (table_row db u) s else table_row db u s) \<and>
    map_of written' = apply_changes input at cs (map_of written) \<and>
    at_events db' = at_events db @ new \<and>
    map (\<lambda>r. unnumbered (toEvent r)) new = map (\<lambda>c. read_back (written_event input at 0 c)) cs"
  using assms
proof (induction cs arbitrary: db written events)
  case Nil
  then show ?case by (auto simp: apply_changes_def fun_eq_iff)
next
  case (Cons c cs)
  let ?ev = "proposed_event input at (at_sequence db + 1) c"
  obtain stored rows where up: "upsert_entitlement (proposed_row input at c) (at_rows db) = (stored, rows)" by fastforce
  have bef: "table_row db (mi_userId input) (rc_source c) = rc_before c"
    and dis: "distinct (map rc_source (c # cs))" using Cons.prems(1) by (simp_all add: changes_ok_def)
  note w = upsert_written [OF bef up]
  define db1 where "db1 = db\<lparr>at_rows := rows, at_sequence := at_sequence db + 1, at_events := at_events db @ [?ev]\<rparr>"
  define written1 where "written1 = AList.update (rc_source c) (written_row input at c) written"
  have t1: "table_row db1 u s =
      (if u = mi_userId input \<and> s = rc_source c then Some (written_row input at c) else table_row db u s)" for u s
    using w(2) by (simp add: table_row_def db1_def)
  have pk1: "primary_key db1" using w(3) Cons.prems(2) by (simp add: primary_key_def db1_def)
  have "changes_ok (table_row db1 (mi_userId input)) cs"
    using Cons.prems(1) by (auto simp: changes_ok_def t1 image_iff)
  moreover have "written_ok written1"
    using Cons.prems(3) unfolding written_ok_def written1_def
    by (auto simp: distinct_keys_update written_row_def)
  moreover have "\<forall>c\<in>set cs. entitlement_checks (proposed_row input at c) \<and> (\<forall>n. event_checks (proposed_event input at n c))"
    using Cons.prems(4) by simp
  ultimately obtain db' written' new where
    run: "write_changes input at cs written1 (events @ [toEvent ?ev]) db1 =
        (Inr (written', (events @ [toEvent ?ev]) @ map toEvent new), db')"
    and inv: "primary_key db'" "written_ok written'"
    and rows': "table_row db' = (\<lambda>u s. if u = mi_userId input then apply_changes input at cs (table_row db1 u) s
        else table_row db1 u s)"
    and wr: "map_of written' = apply_changes input at cs (map_of written1)"
    and evs: "at_events db' = at_events db1 @ new"
      "map (\<lambda>r. unnumbered (toEvent r)) new = map (\<lambda>c. read_back (written_event input at 0 c)) cs"
    using Cons.IH [OF _ pk1, of written1 "events @ [toEvent ?ev]"] by blast
  have "write_changes input at (c # cs) written events db =
      (Inr (written', events @ map toEvent (?ev # new)), db')"
    using Cons.prems(4) run by (simp add: up w(1) Let_def db1_def written1_def)
  moreover have "table_row db' = (\<lambda>u s. if u = mi_userId input then apply_changes input at (c # cs) (table_row db u) s
        else table_row db u s)"
    unfolding rows' by (auto simp: fun_eq_iff apply_changes_Cons [OF dis] t1 [abs_def])
  moreover have "map_of written' = apply_changes input at (c # cs) (map_of written)"
  proof
    fix s
    have "map_of written1 = (\<lambda>t. if t = rc_source c then Some (written_row input at c) else map_of written t)"
      by (auto simp: written1_def)
    then show "map_of written' s = apply_changes input at (c # cs) (map_of written) s"
      unfolding wr apply_changes_Cons [OF dis] by simp
  qed
  moreover have "at_events db' = at_events db @ ?ev # new" using evs(1) by (simp add: db1_def)
  moreover have "map (\<lambda>r. unnumbered (toEvent r)) (?ev # new) =
      map (\<lambda>c. read_back (written_event input at 0 c)) (c # cs)"
    using evs(2) toEvent_proposed [of input at "at_sequence db + 1" c 0] by simp
  ultimately show ?case using inv by blast
qed

lemma fold_write_events:
  "\<exists>new. as_events (fold (write_change input at) cs st) = as_events st @ new \<and>
     map read_back new = map (\<lambda>c. read_back (written_event input at 0 c)) cs"
proof (induction cs arbitrary: st)
  case (Cons c cs)
  from Cons.IH [of "write_change input at c st"] obtain new where
    "as_events (fold (write_change input at) cs (write_change input at c st)) = as_events (write_change input at c st) @ new"
    "map read_back new = map (\<lambda>c. read_back (written_event input at 0 c)) cs" by blast
  moreover have "as_events (write_change input at c st) = as_events st @ [written_event input at (nextEvent st + 1) c]"
    by (simp add: write_change_def)
  ultimately show ?case
    using read_back_number [of input at "nextEvent st + 1" c 0]
    by (intro exI [of _ "written_event input at (nextEvent st + 1) c # new"]) simp
qed simp

section \<open>Validated mutations violate no constraint\<close>

text \<open>What the callers' validation (\<open>assertActor\<close>, \<open>assertReason\<close>, \<open>assertKind\<close>, plan ids of a catalog) leaves.\<close>

definition valid_mutation :: "MutationInput \<Rightarrow> bool" where
  "valid_mutation input \<longleftrightarrow> input_ok input \<and>
     1 \<le> length (mi_actor input) \<and> length (mi_actor input) \<le> 64 \<and>
     1 \<le> length (mi_reason input) \<and> length (mi_reason input) \<le> MAX_REASON_LENGTH \<and>
     (case mi_grant input of None \<Rightarrow> True | Some g \<Rightarrow>
        (case gr_kind g of None \<Rightarrow> True | Some k \<Rightarrow> kind_by_source Via_Operator k) \<and>
        (case gr_planId g of None \<Rightarrow> True | Some p \<Rightarrow> plan_id_check p)) \<and>
     (case mi_trial input of None \<Rightarrow> True | Some t \<Rightarrow> plan_id_check (tr_planId t)) \<and>
     (case mi_sync input of None \<Rightarrow> True | Some y \<Rightarrow> kind_by_source Via_Billing (sy_kind y) \<and> plan_id_check (sy_planId y))"

definition columns_ok :: "(GrantedVia \<Rightarrow> Entitlement option) \<Rightarrow> bool" where
  "columns_ok f \<longleftrightarrow> (\<forall>s e. f s = Some e \<longrightarrow> kind_by_source s (e_kind e) \<and> plan_id_check (e_planId e))"

definition next_ok :: "RowChange \<Rightarrow> bool" where
  "next_ok c \<longleftrightarrow> kind_by_source (rc_source c) (sn_kind (rc_next c)) \<and> plan_id_check (sn_planId (rc_next c))"

lemma set_status_next_ok:
  "columns_ok f \<Longrightarrow> account_ok f \<Longrightarrow> e \<in> set (two_rows f) \<Longrightarrow> next_ok (set_status action s e)"
  by (auto simp: next_ok_def set_status_def snapshot_def columns_ok_def in_two_rows)

lemma plan_grant_columns:
  assumes "plan_grant cur now grant = Inr (Write action nxt)"
    and "\<And>e. cur = Some e \<Longrightarrow> kind_by_source Via_Operator (e_kind e) \<and> plan_id_check (e_planId e)"
    and "\<And>g k. grant = Some g \<Longrightarrow> gr_kind g = Some k \<Longrightarrow> kind_by_source Via_Operator k"
    and "\<And>g p. grant = Some g \<Longrightarrow> gr_planId g = Some p \<Longrightarrow> plan_id_check p"
  shows "kind_by_source Via_Operator (sn_kind nxt) \<and> plan_id_check (sn_planId nxt)"
proof -
  from assms(1) obtain g where g: "grant = Some g" by (auto simp: plan_grant_def split: option.splits)
  have std: "kind_by_source Via_Operator K_STANDARD" "plan_id_check None"
    by (simp_all add: kind_by_source_def plan_id_check_def)
  have kind: "sn_kind nxt = (case gr_kind g of Some k \<Rightarrow> k
       | None \<Rightarrow> (case cur of Some e \<Rightarrow> if e_status e \<noteq> E_REVOKED then e_kind e else K_STANDARD | None \<Rightarrow> K_STANDARD))"
    and plan: "sn_planId nxt = (case gr_planId g of Some p \<Rightarrow> p
       | None \<Rightarrow> (case cur of Some e \<Rightarrow> e_planId e | None \<Rightarrow> None))"
    using assms(1) unfolding plan_grant_def g Let_def by (auto split: if_splits)
  show ?thesis unfolding kind plan using assms(2-4) g std by (auto split: option.splits)
qed

lemma plan_sync_next:
  assumes "plan_sync rows sync now = Inr cs" "c \<in> set cs"
  shows "rc_source c = Via_Billing \<and> sn_kind (rc_next c) = sy_kind sync \<and> sn_planId (rc_next c) = sy_planId sync"
proof -
  have closed: "sn_kind (closed_window e sync now) = sy_kind sync" "sn_planId (closed_window e sync now) = sy_planId sync" for e
    by (simp_all add: closed_window_def Let_def)
  from assms obtain n where n: "c = \<lparr>rc_source = Via_Billing, rc_before = bySource rows Via_Billing, rc_action = SYNC, rc_next = n\<rparr>"
    and "(if sy_active sync
          then Some \<lparr>sn_status = (if list_ex (\<lambda>row. e_status row = E_SUSPENDED) rows then E_SUSPENDED else E_ACTIVE),
                 sn_startsAt = sy_startsAt sync, sn_expiresAt = Some (sy_expiresAt sync),
                 sn_kind = sy_kind sync, sn_planId = sy_planId sync\<rparr>
          else map_option (\<lambda>e. closed_window e sync now) (bySource rows Via_Billing)) = Some n"
    unfolding plan_sync_def Let_def by (auto split: if_split_asm option.split_asm)
  then show ?thesis using closed by (auto split: if_splits)
qed

lemma plan_next_ok:
  assumes ok: "account_ok f" "columns_ok f" and v: "valid_mutation input"
    and plan: "planAccountMutation (two_rows f) input now hadTrial = Inr cs" and c: "c \<in> set cs"
  shows "next_ok c"
proof -
  have cur: "bySource (two_rows f) s = f s" for s by (rule two_rows_bySource [OF ok(1)])
  note plan' = plan [unfolded planAccountMutation_def Let_def cur]
  have col: "kind_by_source s (e_kind e) \<and> plan_id_check (e_planId e)" if "f s = Some e" for s e
    using ok(2) that by (auto simp: columns_ok_def)
  have op: "next_ok c" if o: "of_plan Via_Operator (f Via_Operator) plan0 = Inr cs"
    and w: "\<And>action nxt. plan0 = Inr (Write action nxt) \<Longrightarrow>
        kind_by_source Via_Operator (sn_kind nxt) \<and> plan_id_check (sn_planId nxt)" for plan0
    using w o c by (auto simp: of_plan_def next_ok_def split: sum.splits MutationPlan.splits)
  show ?thesis
  proof (cases "mi_action input")
    case SYNC
    with plan' obtain sync where "mi_sync input = Some sync" "plan_sync (two_rows f) sync now = Inr cs"
      by (auto split: if_splits option.splits)
    with v plan_sync_next [of "two_rows f" sync now cs c] c show ?thesis
      by (simp add: next_ok_def valid_mutation_def)
  next
    case GRANT
    with plan' have "of_plan Via_Operator (f Via_Operator) (plan_grant (f Via_Operator) now (mi_grant input)) = Inr cs"
      by (auto split: if_splits)
    moreover have "kind_by_source Via_Operator k" if "mi_grant input = Some g" "gr_kind g = Some k" for g k
      using v that by (simp add: valid_mutation_def)
    moreover have "plan_id_check p" if "mi_grant input = Some g" "gr_planId g = Some p" for g p
      using v that by (simp add: valid_mutation_def)
    ultimately show ?thesis by (intro op plan_grant_columns) (use col in blast)+
  next
    case TRIAL
    with plan' have "of_plan Via_Operator (f Via_Operator) (plan_trial (f Via_Operator) now (mi_trial input) hadTrial) = Inr cs"
      by (auto split: if_splits)
    then show ?thesis
      by (rule op) (use v in \<open>auto simp: plan_trial_def valid_mutation_def kind_by_source_def split: option.splits if_splits\<close>)
  next
    case REVOKE
    with plan' have "of_plan Via_Operator (f Via_Operator) (planMutation (f Via_Operator) REVOKE now None None False) = Inr cs"
      by (auto split: if_splits)
    then show ?thesis
      by (rule op) (use col in \<open>auto simp: snapshot_def split: option.splits if_splits\<close>)
  next
    case SUSPEND
    with plan' c show ?thesis by (auto intro!: set_status_next_ok [OF ok(2,1)] split: if_splits)
  next
    case RESTORE
    with plan' c show ?thesis by (auto intro!: set_status_next_ok [OF ok(2,1)] split: if_splits)
  qed
qed

lemma planned_changes_pass:
  assumes ok: "account_ok f" "columns_ok f" and v: "valid_mutation input"
    and plan: "planAccountMutation (two_rows f) input at hadTrial = Inr cs" and c: "c \<in> set cs"
  shows "entitlement_checks (proposed_row input at c) \<and> event_checks (proposed_event input at n c)"
proof -
  have "input_ok input" using v by (simp add: valid_mutation_def)
  from plan_account_ok [OF ok(1) this plan, of at]
  have ch: "changes_ok f cs" and acc: "account_ok (apply_changes input at cs f)" by (simp_all add: plan_ok_def)
  have "find (\<lambda>d. rc_source d = rc_source c) cs = Some c"
    using c ch unfolding changes_ok_def by (induction cs) (auto simp: image_iff)
  then have "apply_changes input at cs f (rc_source c) = Some (written_row input at c)" by (simp add: apply_changes_def)
  with acc have "window_ok (sn_startsAt (rc_next c)) (sn_expiresAt (rc_next c))"
    unfolding account_ok_def by (metis (no_types, lifting) Entitlement.select_convs(3,4) written_row_def)
  moreover note nx = plan_next_ok [OF ok v plan c]
  moreover have "plan_id_check (Option.bind (map_option snapshot (rc_before c)) sn_planId)"
    using ch c ok(2) by (cases "rc_before c")
      (auto simp: changes_ok_def columns_ok_def snapshot_def plan_id_check_def)
  moreover have "STORED_ACTION a \<in> {''GRANTED'', ''SUSPENDED'', ''RESTORED'', ''REVOKED'', ''SYNCED''}" for a
    by (cases a) simp_all
  ultimately show ?thesis using v
    by (simp add: entitlement_checks_def event_checks_def proposed_row_def proposed_event_def next_ok_def
          valid_mutation_def MAX_REASON_LENGTH_def Let_def)
qed

section \<open>The table implements the in-memory store\<close>

definition access_sim :: "access_tables \<Rightarrow> access_store \<Rightarrow> bool" where
  "access_sim db st \<longleftrightarrow> store_ok st \<and> primary_key db \<and> table_row db = row st \<and> (\<forall>u. columns_ok (row st u)) \<and>
     mset (map (\<lambda>r. unnumbered (toEvent r)) (at_events db)) = mset (map read_back (as_events st))"

definition empty_tables :: access_tables where
  "empty_tables = \<lparr>at_rows = [], at_events = [], at_sequence = 0\<rparr>"

definition same_outcome :: "access_store_error + MutationResult \<Rightarrow> access_error + RowChange list \<Rightarrow> bool" where
  "same_outcome r m =
     (case (r, m) of
        (Inl e, Inl e') \<Rightarrow> e = Access_Error e'
      | (Inr result, Inr cs) \<Rightarrow> mr_changed result = (cs \<noteq> []) \<and> length (mr_events result) = length cs
      | _ \<Rightarrow> False)"

lemma access_sim_empty: "access_sim empty_tables empty_access"
  using store_ok_empty
  by (simp add: access_sim_def primary_key_def empty_tables_def empty_access_def
        table_row_def row_def columns_ok_def fun_eq_iff)

lemma sim_had_trial:
  assumes "access_sim db st"
  shows "had_trial_row db u = had_trial st u"
proof -
  let ?P = "\<lambda>ev. ev_userId ev = u \<and> sn_kind (ev_after ev) = K_TRIAL"
  have "had_trial_row db u \<longleftrightarrow> (\<exists>ev\<in>set (map (\<lambda>r. unnumbered (toEvent r)) (at_events db)). ?P ev)"
    by (auto simp: had_trial_row_def list_ex_iff unnumbered_def toEvent_def)
  also have "set (map (\<lambda>r. unnumbered (toEvent r)) (at_events db)) = set (map read_back (as_events st))"
    using assms unfolding access_sim_def by (metis mset_eq_setD)
  also have "(\<exists>ev\<in>set (map read_back (as_events st)). ?P ev) \<longleftrightarrow> had_trial st u"
    by (auto simp: had_trial_def list_ex_iff read_back_def)
  finally show ?thesis .
qed

lemma apply_changes_rev:
  assumes "distinct (map rc_source cs)"
  shows "apply_changes input at (rev cs) f = apply_changes input at cs f"
proof
  fix s
  have "find (\<lambda>c. rc_source c = s) (rev cs) = find (\<lambda>c. rc_source c = s) cs"
  proof (cases "find (\<lambda>c. rc_source c = s) cs")
    case None
    then have "find (\<lambda>c. rc_source c = s) (rev cs) = None" by (simp add: find_None_iff)
    with None show ?thesis by simp
  next
    case (Some c)
    then have c: "c \<in> set (rev cs)" "rc_source c = s" using find_member by fastforce+
    then obtain d where d: "find (\<lambda>c. rc_source c = s) (rev cs) = Some d"
      by (cases "find (\<lambda>c. rc_source c = s) (rev cs)") (auto simp: find_None_iff)
    then have "d \<in> set cs" "rc_source d = s" using find_member by fastforce+
    with c assms have "d = c" by (auto simp: distinct_map dest: inj_onD)
    with d Some show ?thesis by simp
  qed
  then show "apply_changes input at (rev cs) f s = apply_changes input at cs f s" by (simp add: apply_changes_def)
qed

lemma columns_ok_changes:
  assumes "columns_ok f" "\<And>c. c \<in> set cs \<Longrightarrow> next_ok c"
  shows "columns_ok (apply_changes input at cs f)"
proof -
  have "kind_by_source s (e_kind e) \<and> plan_id_check (e_planId e)"
    if "apply_changes input at cs f s = Some e" for s e
  proof (cases "find (\<lambda>c. rc_source c = s) cs")
    case None
    with that assms(1) show ?thesis by (simp add: apply_changes_def columns_ok_def)
  next
    case (Some c)
    with find_member [OF Some] assms(2) [of c] that show ?thesis
      by (auto simp: apply_changes_def next_ok_def written_row_def)
  qed
  then show ?thesis by (simp add: columns_ok_def)
qed

lemma pg_mutate_sim:
  assumes sim: "access_sim db st" and v: "valid_mutation input" and users: "\<forall>u\<in>set users. access_uuid u"
  shows "access_sim (snd (pg_mutate users input at db)) (snd (mutate users input at st)) \<and>
    same_outcome (fst (pg_mutate users input at db)) (fst (mutate users input at st))"
proof (cases "mi_userId input \<in> set users")
  case False
  with sim show ?thesis by (auto simp: pg_mutate_def mutateWithin_def mutate_def same_outcome_def access_sim_def
      primary_key_def table_row_def fun_eq_iff)
next
  case True
  let ?u = "mi_userId input"
  let ?f = "row st ?u"
  from sim have st: "store_ok st" and pk: "primary_key db" and tr: "table_row db = row st"
    and col: "\<And>u. columns_ok (row st u)"
    and evs: "mset (map (\<lambda>r. unnumbered (toEvent r)) (at_events db)) = mset (map read_back (as_events st))"
    by (simp_all add: access_sim_def)
  have acc: "account_ok ?f" using st by (simp add: store_ok_def)
  have rows: "select_entitlements db ?u = rev (two_rows ?f)" using select_entitlements_rows [OF pk] tr by simp
  have plan: "planAccountMutation (select_entitlements db ?u) input at (had_trial_row db ?u) =
      map_sum id rev (planAccountMutation (two_rows ?f) input at (had_trial st ?u))"
    unfolding rows sim_had_trial [OF sim] by (rule planAccountMutation_rev [OF distinct_two_rows [OF acc]])
  show ?thesis
  proof (cases "planAccountMutation (two_rows ?f) input at (had_trial st ?u)")
    case (Inl e)
    with True users plan sim show ?thesis
      by (simp add: pg_mutate_def mutateWithin_def mutate_def grantsOf_rows same_outcome_def Let_def)
  next
    case (Inr cs)
    have "input_ok input" using v by (simp add: valid_mutation_def)
    from plan_account_ok [OF acc this Inr, of at] have ch: "changes_ok ?f cs" and pok: "plan_ok ?f input at (had_trial st ?u) cs"
      by (simp_all add: plan_ok_def)
    have pass: "\<forall>c\<in>set (rev cs). entitlement_checks (proposed_row input at c) \<and> (\<forall>n. event_checks (proposed_event input at n c))"
      using planned_changes_pass [OF acc col v Inr] by simp
    have ch': "changes_ok (table_row db ?u) (rev cs)" using ch by (simp add: changes_ok_def tr rev_map [symmetric])
    have w: "written_ok (map (\<lambda>r. (e_grantedVia r, r)) (select_entitlements db ?u))"
      using distinct_two_rows [OF acc] by (auto simp: written_ok_def rows comp_def rev_map [symmetric] dest: map_of_SomeD)
    from write_changes_ok [OF ch' pk w pass, of "[]"] obtain db' written' new where
      run: "write_changes input at (rev cs) (map (\<lambda>r. (e_grantedVia r, r)) (select_entitlements db ?u)) [] db =
          (Inr (written', map toEvent new), db')"
      and pk': "primary_key db'"
      and tr': "table_row db' = (\<lambda>u s. if u = ?u then apply_changes input at (rev cs) (table_row db u) s else table_row db u s)"
      and ev': "at_events db' = at_events db @ new"
        "map (\<lambda>r. unnumbered (toEvent r)) new = map (\<lambda>c. read_back (written_event input at 0 c)) (rev cs)" by auto
    have pg: "snd (pg_mutate users input at db) = db'"
      "same_outcome (fst (pg_mutate users input at db)) (Inr cs)"
      using True users plan Inr run arg_cong [OF ev'(2), of length]
      by (simp_all add: pg_mutate_def mutateWithin_def Let_def same_outcome_def)
    have mem: "mutate users input at st = (Inr cs, fold (write_change input at) cs st)"
      using True Inr by (simp add: mutate_def grantsOf_rows)
    let ?st = "fold (write_change input at) cs st"
    have "row ?st u s = (if u = ?u then apply_changes input at cs (row st u) s else row st u s)" for u s
      using fold_write [OF ch, of at] st by (simp add: store_ok_def)
    moreover have "apply_changes input at (rev cs) f = apply_changes input at cs f" for f
      using ch by (intro apply_changes_rev) (simp add: changes_ok_def)
    ultimately have row': "row ?st = (\<lambda>u s. if u = ?u then apply_changes input at cs (row st u) s else row st u s)"
      "table_row db' = row ?st" by (simp_all add: fun_eq_iff tr' tr)
    have "row ?st u = (if u = ?u then apply_changes input at cs (row st u) else row st u)" for u
      by (simp add: row'(1) fun_eq_iff)
    then have col': "columns_ok (row ?st u)" for u
      using col columns_ok_changes [OF col] plan_next_ok [OF acc col v Inr] by simp
    from fold_write_events [of input at cs st] obtain new' where
      "as_events ?st = as_events st @ new'" "map read_back new' = map (\<lambda>c. read_back (written_event input at 0 c)) cs" by blast
    then have "mset (map (\<lambda>r. unnumbered (toEvent r)) (at_events db')) = mset (map read_back (as_events ?st))"
      using evs ev' by (simp del: mset_map add: rev_map [symmetric])
    with pg mem pk' row'(2) col' store_ok_changes [OF st pok] show ?thesis by (simp add: access_sim_def)
  qed
qed

fun pg_access_run ::
  "string list \<Rightarrow> (MutationInput \<times> int) list \<Rightarrow> access_tables \<Rightarrow> (access_store_error + MutationResult) list \<times> access_tables" where
  "pg_access_run users [] db = ([], db)"
| "pg_access_run users ((input, at) # ops) db =
     (case pg_mutate users input at db of (r, db1) \<Rightarrow>
        case pg_access_run users ops db1 of (rs, db2) \<Rightarrow> (r # rs, db2))"

fun mem_access_run ::
  "string list \<Rightarrow> (MutationInput \<times> int) list \<Rightarrow> access_store \<Rightarrow> (access_error + RowChange list) list \<times> access_store" where
  "mem_access_run users [] st = ([], st)"
| "mem_access_run users ((input, at) # ops) st =
     (case mutate users input at st of (r, st1) \<Rightarrow>
        case mem_access_run users ops st1 of (rs, st2) \<Rightarrow> (r # rs, st2))"

lemma pg_access_run_sim:
  "access_sim db st \<Longrightarrow> \<forall>u\<in>set users. access_uuid u \<Longrightarrow> \<forall>op\<in>set ops. valid_mutation (fst op) \<Longrightarrow>
   access_sim (snd (pg_access_run users ops db)) (snd (mem_access_run users ops st)) \<and>
   list_all2 same_outcome (fst (pg_access_run users ops db)) (fst (mem_access_run users ops st))"
proof (induction ops arbitrary: db st)
  case (Cons op ops)
  obtain input at where op: "op = (input, at)" by (cases op)
  obtain r db1 m st1 where r: "pg_mutate users input at db = (r, db1)" and m: "mutate users input at st = (m, st1)"
    by (meson surj_pair)
  from pg_mutate_sim [OF Cons.prems(1) _ Cons.prems(2), of input at] Cons.prems(3) op r m
  have "access_sim db1 st1" "same_outcome r m" by simp_all
  with Cons.IH [of db1 st1] Cons.prems(2,3) op r m show ?case by (auto split: prod.splits)
qed simp

lemma activity_iff:
  "fst (snd (evaluateAccount grants now)) \<longleftrightarrow>
   (\<forall>g\<in>set grants. e_status g \<noteq> E_SUSPENDED) \<and> (\<exists>g\<in>set grants. snd (evaluateAccess (Some g) now))" (is "?L \<longleftrightarrow> ?R")
proof
  assume ?L
  then obtain state effective where "evaluateAccount grants now = (state, True, effective)"
    by (metis eq_fst_iff prod.collapse)
  from evaluateAccount_active [OF this] show ?R by blast
next
  assume ?R
  then have "find (\<lambda>g. e_status g = E_SUSPENDED) grants = None" "grants \<noteq> []"
    "filter (\<lambda>g. snd (evaluateAccess (Some g) now)) grants \<noteq> []"
    by (auto simp: find_None_iff filter_empty_conv)
  then show ?L by (simp add: evaluateAccount_def Let_def)
qed

lemma sim_grants:
  assumes "access_sim db st" "access_uuid u"
  shows "pg_grants db u = rev (grantsOf st u)" "pg_access_get db u = access_get st u"
proof -
  from assms have acc: "account_ok (row st u)" by (simp add: access_sim_def store_ok_def)
  show g: "pg_grants db u = rev (grantsOf st u)"
    using assms select_entitlements_rows [of db u] by (simp add: pg_grants_def access_sim_def grantsOf_rows)
  have "pg_access_get db u = bySource (rev (two_rows (row st u))) Via_Operator"
    by (simp add: pg_access_get_def g bySource_def grantsOf_rows)
  also have "\<dots> = row st u Via_Operator"
    by (simp add: bySource_rev [OF distinct_two_rows [OF acc]] two_rows_bySource [OF acc])
  finally show "pg_access_get db u = access_get st u" by (simp add: access_get_def row_def)
qed

text \<open>
  C24. The entitlement tables implement the in-memory store. Over any sequence of
  validated operator and billing mutations the two answer each one alike (the same
  refusal, or a change exactly when the other changes, with as many audit events),
  no database constraint is ever violated, every account has the same row per
  source and is open for labs at the same instants, and the audit trails hold the
  same events, a trial being stored as a grant; only the order of an account's two
  rows differs.
\<close>

theorem postgres_access_refines_memory:
  assumes "\<forall>u\<in>set users. access_uuid u" "\<forall>op\<in>set ops. valid_mutation (fst op)"
  shows "list_all2 same_outcome (fst (pg_access_run users ops empty_tables)) (fst (mem_access_run users ops empty_access)) \<and>
    (let db = snd (pg_access_run users ops empty_tables); st = snd (mem_access_run users ops empty_access) in
     (\<forall>u\<in>set users. pg_grants db u = rev (grantsOf st u) \<and> pg_access_get db u = access_get st u \<and>
        (\<forall>now. fst (snd (evaluateAccount (pg_grants db u) now)) = fst (snd (evaluateAccount (grantsOf st u) now)))) \<and>
     mset (map (\<lambda>r. unnumbered (toEvent r)) (at_events db)) = mset (map read_back (as_events st)))"
proof -
  let ?db = "snd (pg_access_run users ops empty_tables)" and ?st = "snd (mem_access_run users ops empty_access)"
  note run = pg_access_run_sim [OF access_sim_empty assms]
  then have sim: "access_sim ?db ?st" by blast
  have "pg_grants ?db u = rev (grantsOf ?st u) \<and> pg_access_get ?db u = access_get ?st u \<and>
      (\<forall>now. fst (snd (evaluateAccount (pg_grants ?db u) now)) = fst (snd (evaluateAccount (grantsOf ?st u) now)))"
    if "u \<in> set users" for u
    using sim_grants [OF sim, of u] assms(1) that by (simp add: activity_iff)
  with run show ?thesis unfolding Let_def access_sim_def by blast
qed

definition demo_account :: string where
  "demo_account = ''0a0a0a0a-1b1b-2c2c-3d3d-4e4e4e4e4e4e''"

definition demo_mutation :: "AccessAction \<Rightarrow> MutationInput" where
  "demo_mutation action = (demo_input action)\<lparr>mi_userId := demo_account,
     mi_grant := Some \<lparr>gr_startsAt = None, gr_expiresAt = Some 50, gr_kind = None, gr_planId = None\<rparr>,
     mi_sync := Some \<lparr>sy_active = True, sy_startsAt = 1000, sy_expiresAt = 2000, sy_kind = K_SUBSCRIPTION, sy_planId = None\<rparr>\<rparr>"

definition demo_mutations :: "(MutationInput \<times> int) list" where
  "demo_mutations = [(demo_mutation GRANT, 1), (demo_mutation SYNC, 2), (demo_mutation SUSPEND, 10), (demo_mutation RESTORE, 20)]"

theorem postgres_access_refines_memory_witness:
  "list_all2 same_outcome (fst (pg_access_run [demo_account] demo_mutations empty_tables))
     (fst (mem_access_run [demo_account] demo_mutations empty_access)) \<and>
   length (at_events (snd (pg_access_run [demo_account] demo_mutations empty_tables))) = 6"
proof -
  have "\<forall>u\<in>set [demo_account]. access_uuid u" by (simp, code_simp)
  moreover have "list_all (\<lambda>op. valid_mutation (fst op)) demo_mutations"
    by (simp add: demo_mutations_def demo_mutation_def demo_input_def valid_mutation_def input_ok_def plan_id_check_def
          kind_by_source_def MAX_REASON_LENGTH_def)
  then have "\<forall>op\<in>set demo_mutations. valid_mutation (fst op)" by (simp add: list_all_iff)
  ultimately have "list_all2 same_outcome (fst (pg_access_run [demo_account] demo_mutations empty_tables))
     (fst (mem_access_run [demo_account] demo_mutations empty_access))"
    using postgres_access_refines_memory [of "[demo_account]" demo_mutations] by blast
  moreover have "length (at_events (snd (pg_access_run [demo_account] demo_mutations empty_tables))) = 6" by code_simp
  ultimately show ?thesis by blast
qed

text \<open>
  What the order can change is which row answers for a closed account when both
  were written at the same instant, as a suspension and its restoration do: here
  the in-memory store reports the expired grant and the table the scheduled
  subscription.
\<close>

lemma tied_rows_answer_differently:
  "fst (evaluateAccount (grantsOf (snd (mem_access_run [demo_account] demo_mutations empty_access)) demo_account) 100) = S_EXPIRED"
  "fst (evaluateAccount (pg_grants (snd (pg_access_run [demo_account] demo_mutations empty_tables)) demo_account) 100) = S_SCHEDULED"
  by code_simp+

end
