(* ===== verification/Spec2Isabelle.thy ===== *)
theory Spec2Isabelle
  imports Postgres_Store Session_Safety Iam_Policy Progress_Service Postgres_Progress Entitlements
    Billing_Safety Billing_Config Terminal_Budgets Output_Flow Auth_Signin Schema_Migrator Access_Postgres
begin

text \<open>
  JumpToTech Labs, a platform that hands each student a disposable sandbox (a Kubernetes
  namespace or a container), a terminal into it, and a verifier that checks the work.
  This development models the parts of the repository that decide: who gets a sandbox
  and when it is destroyed, what a student has achieved, who may use which lab and who
  paid for it, what a terminal lets through, and what the verifier concludes.

  \<^bold>\<open>The program and its parts.\<close> All paths are below \<open>src/\<close>.

  \<^item> \<open>services/lab-orchestrator/src/session\<close>: lab sessions. \<open>manager.ts\<close> runs the requests
    of students and operators, \<open>reaper.ts\<close> the periodic cleanup, both against a
    \<open>SessionStore\<close> (\<open>store.ts\<close> in memory, \<open>postgres-store.ts\<close> durable), the providers
    registered in \<open>providers/registry.ts\<close>, and the terminal service.
  \<^item> \<open>services/lab-orchestrator/src/lab-registry.ts\<close>: the catalog of labs.
  \<^item> \<open>services/progress/src\<close>: attempts, completions and hints of a student, in memory or in
    PostgreSQL; \<open>postgres/migrator.ts\<close> there keeps the schema of every durable store.
  \<^item> \<open>apps/api/src/auth\<close> and \<open>routes/auth.ts\<close>: who a request is and what it may do. A browser
    signs in at an identity provider and holds a cookie that names a server-side session;
    every session route asks a guard, which asks the session manager, the policy and the
    access decision.
  \<^item> \<open>apps/api/src/access\<close>: plans, entitlements and the access decision every lab route
    asks for.
  \<^item> \<open>apps/api/src/billing\<close>: provider webhooks, which end in an entitlement mutation.
  \<^item> \<open>services/terminal/src\<close> and \<open>output-flow.ts\<close>, \<open>session-token.ts\<close> of the orchestrator:
    the budgets, the flow control and the tokens of a terminal.
  \<^item> \<open>services/verifier/src\<close>: of the checks, the two with an algorithm of their own, IAM
    policy evaluation and CIDR arithmetic.

  \<^bold>\<open>Theories.\<close> \<open>Prelude\<close> holds the collections of rules, the parts of the JavaScript
  library every component uses (an insertion-ordered \<open>Map\<close> is an association list under
  \<open>AList.update\<close>), results of fallible functions (\<open>and_then\<close>, \<open>unless\<close>, \<open>each\<close>) and generic
  lemmas; \<open>Js_Text\<close> the string functions, the stable sort and JSON values.

  \<^item> \<open>Session_Types\<close>, \<open>Session_Identifiers\<close>: \<open>types.ts\<close>, \<open>shell-identity.ts\<close> and
    \<open>identifiers.ts\<close>. Statuses and their predicates, expiry, the records; ids, derived
    names and the validators that guard deletion.
  \<^item> \<open>Session_Store\<close>, \<open>Postgres_Store\<close>: the two stores, operation by operation. The interface
    \<open>SessionStore\<close> is the locale \<open>session_store\<close>; both stores interpret it, and its lemmas
    (one winner of a conditional write, capacity, shell uids) are proved once.
  \<^item> \<open>Provider_Registry\<close>: resolution, and the shared availability probe as a state machine.
  \<^item> \<open>Session_Program\<close>, \<open>Session_Manager\<close>, \<open>Session_Reaper\<close>: an async method is a program of
    effects, a tree of calls and continuations with \<open>await\<close>, \<open>try\<close> and \<open>finally\<close>; every
    method of the manager and every pass of a sweep is one, on all its branches.
  \<^item> \<open>Program_Logic\<close>, \<open>Session_Protocol\<close>: a program logic over the calls a request has made,
    and the proof that every method follows the protocol \<open>call_ok\<close>.
  \<^item> \<open>Session_System\<close>, \<open>Session_Safety\<close>: any number of processes run any number of requests
    and sweeps against one store; any call may be interleaved with any other, a store call
    may fail before or after its effect, a provider may answer anything, a process may
    crash. The theorems are invariants of every reachable state of that system.
  \<^item> \<open>Lab_Registry\<close>: id validation, registration, and the pruning of labs whose
    prerequisites can never be met, to its fixed point.
  \<^item> \<open>Cidr\<close>, \<open>Iam_Policy\<close>: \<open>cidr.ts\<close> on 32-bit words, \<open>iam-policy.ts\<close> with parser, matcher
    and evaluation.
  \<^item> \<open>Progress_Repository\<close>, \<open>Progress_Service\<close>, \<open>Postgres_Progress\<close>: the in-memory repository
    and its history invariant, the use cases over it, and the PostgreSQL repository. The
    contract of a repository is the locale \<open>learning_history\<close>; both interpret it.
  \<^item> \<open>Schema_Migrator\<close>: migration files, the ledger, the run and the read-only check, over
    the SQL of the files as a parameter.
  \<^item> \<open>Plans\<close>, \<open>Entitlements\<close>, \<open>Access_Postgres\<close>: the plan document; rows, transitions, the
    store with its audit trail, and the access decision; the store in PostgreSQL with its
    constraints, simulating the one in memory.
  \<^item> \<open>Billing\<close>, \<open>Billing_Safety\<close>, \<open>Billing_Provider\<close>, \<open>Billing_Config\<close>: types, lifecycle, store,
    processor and service; the runs of billing together with access; the signed webhooks
    of the provider and their strict parsing; the configuration.
  \<^item> \<open>Auth_Cookies\<close>, \<open>Auth_Users\<close>, \<open>Auth_Sessions\<close>: cookies and the sealed sign-in transaction;
    accounts, with the locale \<open>user_repository\<close> that the repository in memory and the one in
    PostgreSQL interpret; browser sessions, with the locale \<open>auth_session_store\<close> that both
    stores interpret, against an abstract map of sign-ins.
  \<^item> \<open>Auth_Guard\<close>, \<open>Auth_Oidc\<close>, \<open>Auth_Signin\<close>: the policy, authentication by cookie or header
    and the session guard; discovery, code exchange, token verification and the
    production gate; the five sign-in routes, and their composition on the stores.
  \<^item> \<open>Terminal_Budgets\<close>, \<open>Output_Flow\<close>, \<open>Session_Token\<close>: the token buckets, the pause and
    resume machine between a shell and its socket, and the tokens that open a terminal.

  \<^bold>\<open>What is shown.\<close> For sessions: capacity is never exceeded, a finished session never
  comes back, a session moves only along lifecycle edges, a closing is announced at most
  once, sandboxes are destroyed and statuses written only with cause, identity and
  deadline are fixed, and over any sequence of operations the two stores answer alike. For the catalog: exactly the satisfiable
  labs are kept, and the loop ends. For the verifier: containment and overlap are those of
  address sets, deny overrides allow, the linear matcher decides the specification of a
  wildcard, and evaluation fails only on operators it does not know. For learning
  history: attempts and progress rows agree, a pass is permanent, a completion is counted
  once, and the durable repository refines the one in memory. For the schema: it is what
  the ledger says, each migration executed once, older code stays out of a schema it
  cannot run on, starting again changes nothing, and the read-only check draws the same
  line. For access: a lab is open
  only to standing access on a plan that covers it, rows and audit trail stay in order,
  an operator's trial is the account's first, and the tables refine the store in memory
  without violating a constraint. For authentication: a session route is entered only by its owner or a
  permitted role and answers the same for a foreign session as for none, a cookie decides
  alone, cookies come back as they were set, nobody is signed in without a verified token
  for this browser's own request, with nothing but the cookies the answers set a sign-in
  works until it is signed out and then never again, roles change only by an
  administrator, and exactly the safe configurations start in production. For billing: an event takes effect once or not at all, nothing
  changes hands or goes back in time, the access row follows the stored subscriptions,
  only signed and fresh webhooks are heard, and what is signed is what is read. For
  terminals: floods are bounded in every window of time, a paused shell is resumed, only signed unexpired tokens
  are accepted.

  \<^bold>\<open>Conventions.\<close> An instant is its number of milliseconds, as an \<open>int\<close>; where the text form
  matters, \<open>Date.parse\<close> and \<open>toISOString\<close> are arguments. Errors are values (\<open>Inl\<close>). What is
  not under \<open>src/\<close> is an argument: the HMAC and hash functions, the random sources, the
  clocks, \<open>JSON.parse\<close>, the collation and the \<open>uuid\<close> type of PostgreSQL, the answers of
  providers; a browser keeps and returns cookies as RFC 6265 says (\<open>ua_receive\<close>). What is needed of them is a hypothesis (\<open>hmac_hex\<close>, \<open>uuid_type\<close>, the inverse
  laws of a codec, \<open>hash_hex\<close>, \<open>url_safe_platform\<close>, \<open>web_origins\<close>), and each theorem with a hypothesis has a witness that applies it to a
  concrete input. Strings are ASCII. Token amounts of the budgets are rationals, not
  doubles. There is no fuel: loops are structural, have a measure (\<open>match_loop\<close>, \<open>walk\<close>), or
  are \<open>partial_function (option)\<close> with a proof that they return (\<open>validatePrerequisites\<close>,
  theorem \<open>load_terminates\<close>).

  \<^bold>\<open>Not modelled.\<close> The providers and their clients (Kubernetes, Docker, Terraform) run
  external programs; to the manager they are calls with any answer. HTTP routing beyond
  the sign-in routes and the operator's command line are glue over the components above;
  the identity provider, the token library and the URL parser are parameters. The web application is a user interface. Observability records what happened and
  decides nothing. The verifier's other checks read live sandboxes; its requirement
  schemas are declarations for a validation library. Log lines and metrics are left out
  everywhere.
\<close>

end
